(* ===== verification/Prelude.thy ===== *)
theory Prelude
  imports Complex_Main "HOL-Library.AList"
begin

text \<open>
  Shared vocabulary of the development.  A JavaScript \<open>Map\<close> (and a
  \<open>Record<string, T>\<close>) keeps its entries in insertion order: \<open>set\<close>
  overwrites an existing entry in place and appends a new one, \<open>get\<close> reads the
  entry, \<open>delete\<close> removes it.  That is an association list with
  \<open>AList.update\<close>, \<open>map_of\<close> and \<open>AList.delete\<close>.  A JavaScript \<open>Set\<close> that
  the code iterates is a list without repetitions, grown at its end.
\<close>

named_theorems sf_wf "well-formedness facts of the model's states"
named_theorems sf_keys "which keys an operation on a JavaScript map leaves"

section \<open>JavaScript maps\<close>

type_synonym ('k, 'v) jsmap = "('k \<times> 'v) list"

abbreviation jget :: "('k, 'v) jsmap \<Rightarrow> 'k \<Rightarrow> 'v option" where
  "jget m k \<equiv> map_of m k"

abbreviation jset :: "('k, 'v) jsmap \<Rightarrow> 'k \<Rightarrow> 'v \<Rightarrow> ('k, 'v) jsmap" where
  "jset m k v \<equiv> AList.update k v m"

abbreviation jdel :: "('k, 'v) jsmap \<Rightarrow> 'k \<Rightarrow> ('k, 'v) jsmap" where
  "jdel m k \<equiv> AList.delete k m"

abbreviation jhas :: "('k, 'v) jsmap \<Rightarrow> 'k \<Rightarrow> bool" where
  "jhas m k \<equiv> map_of m k \<noteq> None"

abbreviation jkeys :: "('k, 'v) jsmap \<Rightarrow> 'k list" where
  "jkeys m \<equiv> map fst m"

text \<open>The reading \<open>m.get(k) ?? d\<close>.\<close>

definition jget_or :: "('k, 'v) jsmap \<Rightarrow> 'k \<Rightarrow> 'v \<Rightarrow> 'v" where
  "jget_or m k d = (case map_of m k of None \<Rightarrow> d | Some v \<Rightarrow> v)"

lemma jget_or_None [simp]: "map_of m k = None \<Longrightarrow> jget_or m k d = d"
  by (simp add: jget_or_def)

lemma jget_or_Some [simp]: "map_of m k = Some v \<Longrightarrow> jget_or m k d = v"
  by (simp add: jget_or_def)

lemma jget_jset [simp]: "map_of (AList.update k v m) k' = (if k' = k then Some v else map_of m k')"
  by (simp add: update_conv')

lemma jget_jdel [simp]: "map_of (AList.delete k m) k' = (if k' = k then None else map_of m k')"
  by (simp add: delete_conv')

lemma jget_or_jset [simp]: "jget_or (AList.update k v m) k' d = (if k' = k then v else jget_or m k' d)"
  by (simp add: jget_or_def)

lemma jkeys_jset_present [sf_keys]:
  "k \<in> set (jkeys m) \<Longrightarrow> jkeys (AList.update k v m) = jkeys m"
  by (induction m) auto

lemma jkeys_jset_absent [sf_keys]:
  "k \<notin> set (jkeys m) \<Longrightarrow> jkeys (AList.update k v m) = jkeys m @ [k]"
  by (induction m) auto

lemma set_jkeys_jset: "set (jkeys (AList.update k v m)) = insert k (set (jkeys m))"
  by (induction m) auto

lemma jvals_jset: "v \<in> snd ` set (AList.update k x m) \<Longrightarrow> v = x \<or> v \<in> snd ` set m"
  by (induction m) (auto split: if_splits)

lemma distinct_jkeys_jset [sf_wf]: "distinct (jkeys m) \<Longrightarrow> distinct (jkeys (AList.update k v m))"
  by (rule distinct_update)

lemma jget_eq_None_iff: "map_of m k = None \<longleftrightarrow> k \<notin> set (jkeys m)"
  by (simp add: map_of_eq_None_iff)

lemma jget_SomeD: "map_of m k = Some v \<Longrightarrow> k \<in> set (jkeys m)"
  by (metis map_of_eq_None_iff option.distinct(1) set_map)

lemma size_jget [termination_simp]: "map_of kvs k = Some v \<Longrightarrow> size v \<le> size_list (size_prod f size) kvs"
  by (induction kvs) (auto split: if_splits)

section \<open>JavaScript sets\<close>

definition jadd :: "'a list \<Rightarrow> 'a \<Rightarrow> 'a list" where
  "jadd s x = (if x \<in> set s then s else s @ [x])"

definition jset_of :: "'a list \<Rightarrow> 'a list" where
  "jset_of xs = foldl jadd [] xs"

lemma set_jadd [simp]: "set (jadd s x) = insert x (set s)"
  by (auto simp: jadd_def)

lemma distinct_jadd [simp, sf_wf]: "distinct (jadd s x) = distinct s"
  by (auto simp: jadd_def)

lemma set_foldl_jadd: "set (foldl jadd s xs) = set s \<union> set xs"
  by (induction xs arbitrary: s) auto

lemma set_jset_of [simp]: "set (jset_of xs) = set xs"
  by (simp add: jset_of_def set_foldl_jadd)

lemma distinct_foldl_jadd [sf_wf]: "distinct s \<Longrightarrow> distinct (foldl jadd s xs)"
  by (induction xs arbitrary: s) auto

lemma distinct_jset_of [simp, sf_wf]: "distinct (jset_of xs)"
  by (simp add: jset_of_def distinct_foldl_jadd)

section \<open>Finding and ordering\<close>

lemma find_distinct_key:
  assumes "distinct (map f xs)" "x \<in> set xs" "f x = k"
  shows "List.find (\<lambda>y. f y = k) xs = Some x"
  using assms by (induction xs) (auto simp: image_iff)

lemma find_SomeD: "List.find P xs = Some x \<Longrightarrow> x \<in> set xs \<and> P x"
  by (induction xs) (auto split: if_splits)

lemma find_NoneD: "List.find P xs = None \<Longrightarrow> x \<in> set xs \<Longrightarrow> \<not> P x"
  by (induction xs) (auto split: if_splits)

lemma find_eq_None_iff: "List.find P xs = None \<longleftrightarrow> (\<forall>x\<in>set xs. \<not> P x)"
  by (induction xs) auto

lemma find_rev_distinct:
  "distinct (map f xs) \<Longrightarrow> List.find (\<lambda>x. f x = k) (rev xs) = List.find (\<lambda>x. f x = k) xs"
proof (cases "List.find (\<lambda>x. f x = k) xs")
  case (Some x)
  assume "distinct (map f xs)"
  then have "List.find (\<lambda>y. f y = k) (rev xs) = Some x"
    using find_SomeD [OF Some] by (intro find_distinct_key) (simp_all add: rev_map [symmetric])
  with Some show ?thesis by simp
next
  case None
  then have "List.find (\<lambda>x. f x = k) (rev xs) = None" by (simp add: find_eq_None_iff)
  with None show ?thesis by simp
qed

text \<open>\<open>new Map(xs.map((x) => [f(x), x]))\<close>: a later element replaces an earlier one.\<close>

definition jmap_by :: "('a \<Rightarrow> 'k) \<Rightarrow> 'a list \<Rightarrow> ('k, 'a) jsmap" where
  "jmap_by f xs = foldl (\<lambda>m x. jset m (f x) x) [] xs"

lemma jget_jmap_by: "jget (jmap_by f xs) k = List.find (\<lambda>x. f x = k) (rev xs)"
  unfolding jmap_by_def by (induction xs rule: rev_induct) auto

lemma jget_jmap_by_distinct:
  "distinct (map f xs) \<Longrightarrow> jget (jmap_by f xs) k = List.find (\<lambda>x. f x = k) xs"
  by (simp add: jget_jmap_by find_rev_distinct)

lemma jget_foldl_jset:
  "jget (foldl (\<lambda>m x. jset m (f x) (g x)) m xs) k =
     (case List.find (\<lambda>x. f x = k) (rev xs) of None \<Rightarrow> jget m k | Some x \<Rightarrow> Some (g x))"
  by (induction xs rule: rev_induct) auto

lemma jget_foldl_jdel: "jget (foldl jdel m ks) k = (if k \<in> set ks then None else jget m k)"
  by (induction ks arbitrary: m) auto

text \<open>\<open>Array.prototype.indexOf\<close>, with \<open>None\<close> for \<open>-1\<close>.\<close>

fun index_of :: "'a list \<Rightarrow> 'a \<Rightarrow> nat option" where
  "index_of [] a = None"
| "index_of (x # xs) a = (if x = a then Some 0 else map_option Suc (index_of xs a))"

lemma index_of_None_iff: "index_of xs a = None \<longleftrightarrow> a \<notin> set xs"
  by (induction xs) auto

lemma index_of_SomeD: "index_of xs a = Some i \<Longrightarrow> i < length xs \<and> xs ! i = a"
  by (induction xs arbitrary: i) (auto split: if_splits)

lemma index_of_drop: "index_of xs a = Some i \<Longrightarrow> \<exists>ys. drop i xs = a # ys"
  by (metis index_of_SomeD Cons_nth_drop_Suc)

lemma index_of_take: "index_of xs a = Some i \<Longrightarrow> a \<notin> set (take i xs)"
  by (induction xs arbitrary: i) (auto split: if_splits)

lemma foldl_max_base: "(a::nat) \<le> foldl max a xs"
proof (induction xs arbitrary: a)
  case (Cons y ys)
  from Cons [of "max a y"] show ?case by simp
qed simp

lemma foldl_max_ge: "x \<in> set xs \<Longrightarrow> (x::nat) \<le> foldl max a xs"
proof (induction xs arbitrary: a)
  case (Cons y ys)
  from foldl_max_base [of "max a y" ys] Cons show ?case by auto
qed simp

lemma foldl_max_in: "foldl max (a::nat) xs \<in> insert a (set xs)"
  by (induction xs arbitrary: a) (auto simp: max_def split: if_splits)

section \<open>Strings\<close>

text \<open>\<open>String.prototype.startsWith\<close> and the rest after the prefix.\<close>

fun strip_prefix :: "string \<Rightarrow> string \<Rightarrow> string option" where
  "strip_prefix [] s = Some s"
| "strip_prefix (p # ps) [] = None"
| "strip_prefix (p # ps) (c # cs) = (if p = c then strip_prefix ps cs else None)"

lemma strip_prefix_append [simp]: "strip_prefix p (p @ s) = Some s"
  by (induction p) auto

lemma strip_prefix_SomeD: "strip_prefix p t = Some s \<Longrightarrow> t = p @ s"
  by (induction p t rule: strip_prefix.induct) (auto split: if_splits)

text \<open>\<open>s.split(".")\<close>: always at least one segment.\<close>

fun split_dot :: "string \<Rightarrow> string list" where
  "split_dot [] = [[]]"
| "split_dot (c # cs) =
     (if c = CHR ''.'' then [] # split_dot cs
      else (case split_dot cs of [] \<Rightarrow> [[c]] | w # ws \<Rightarrow> (c # w) # ws))"

lemma split_dot_nonempty [simp]: "split_dot s \<noteq> []"
  by (induction s) (auto split: list.splits)

end
