(* ===== verification/Json.thy ===== *)
theory Json
  imports Prelude
begin

text \<open>
  The values the code handles as \<open>unknown\<close>: what a YAML or JSON document holds.  A finite
  double is a rational number (comparison and equality of finite doubles are those of the
  rationals they denote); YAML's \<open>.inf\<close> and \<open>.nan\<close> are kept apart because the code tests
  \<open>Number.isFinite\<close>.  An object is a JavaScript map from its own keys to values; a missing key
  reads \<open>undefined\<close>, which is \<open>None\<close> here.
\<close>

datatype jsnum = Fin rat | PInf | NInf | NaN

datatype jsval =
    JNull
  | JBool bool
  | JNum jsnum
  | JStr string
  | JArr "jsval list"
  | JObj "(string \<times> jsval) list"

type_synonym jsobj = "(string, jsval) jsmap"

fun isPlainObject :: "jsval \<Rightarrow> bool" where
  "isPlainObject (JObj _) = True"
| "isPlainObject _ = False"

fun is_string :: "jsval \<Rightarrow> bool" where
  "is_string (JStr _) = True"
| "is_string _ = False"

text \<open>
  \<open>===\<close>: a \<open>NaN\<close> differs from itself, and two arrays or objects are equal only when they are
  the same reference, which a payload and a pipeline file never share.
\<close>

fun strict_eq :: "jsval \<Rightarrow> jsval \<Rightarrow> bool" where
  "strict_eq JNull JNull = True"
| "strict_eq (JBool a) (JBool b) = (a = b)"
| "strict_eq (JNum NaN) (JNum b) = False"
| "strict_eq (JNum a) (JNum b) = (a = b)"
| "strict_eq (JStr a) (JStr b) = (a = b)"
| "strict_eq _ _ = False"

text \<open>\<open>Array.prototype.includes\<close> compares by SameValueZero: as \<open>===\<close>, but \<open>NaN\<close> equals \<open>NaN\<close>.\<close>

fun same_value_zero :: "jsval \<Rightarrow> jsval \<Rightarrow> bool" where
  "same_value_zero (JNum NaN) (JNum NaN) = True"
| "same_value_zero a b = strict_eq a b"

definition js_includes :: "jsval list \<Rightarrow> jsval \<Rightarrow> bool" where
  "js_includes xs v = list_ex (\<lambda>x. same_value_zero x v) xs"

text \<open>\<open>typeof v === "number" && Number.isFinite(v)\<close>, with the number.\<close>

fun finite_number :: "jsval \<Rightarrow> rat option" where
  "finite_number (JNum (Fin q)) = Some q"
| "finite_number _ = None"

text \<open>\<open>Number.isInteger(v)\<close>, with the integer.\<close>

fun integer_number :: "jsval \<Rightarrow> int option" where
  "integer_number (JNum (Fin q)) = (if of_int \<lfloor>q\<rfloor> = q then Some \<lfloor>q\<rfloor> else None)"
| "integer_number _ = None"

lemma strict_eq_imp_eq: "strict_eq a b \<Longrightarrow> a = b"
  by (induction a b rule: strict_eq.induct) auto

lemma same_value_zero_imp_eq: "same_value_zero a b \<Longrightarrow> a = b"
  by (induction a b rule: same_value_zero.induct) (auto dest: strict_eq_imp_eq)

lemma integer_number_of_int [simp]: "integer_number (JNum (Fin (of_int i))) = Some i"
  by simp

text \<open>A property of an object is smaller than the object: recursion over a document terminates.\<close>

lemma size_jget_obj: "jget kvs k = Some v \<Longrightarrow> size v < size (JObj kvs)"
  by (induction kvs) (auto split: if_splits)

end
