(* ===== verification/Pipeline_Types.thy ===== *)
theory Pipeline_Types
  imports Json
begin

text \<open>
  The data model of the runtime: \<open>src/src/types/pipeline.ts\<close>, \<open>types/envelope.ts\<close>,
  \<open>types/completion.ts\<close>, the DAG snapshot of \<open>runstore/port.ts\<close> and the schedule state of
  \<open>runtime/pipelineScheduler.ts\<close>.  An optional TypeScript field is an \<open>option\<close>; the
  completion contract, which this part of the code only copies, is kept as an opaque value.
\<close>

section \<open>Route predicates and need edges\<close>

datatype NeedTerminalState = NtSucceeded | NtFailed | NtSkipped

text \<open>
  What an \<open>on\<close> list holds at run time.  The declared type has the three terminal states only;
  the canonicalisation in \<open>config/pipelineNeeds.ts\<close> looks a string up in an object literal, so
  the name of an inherited member of \<open>Object.prototype\<close> yields that member: \<open>OnInherited\<close>.
\<close>

datatype on_value = OnState NeedTerminalState | OnInherited string

datatype RouteIfOp = OpEq | OpNe | OpGt | OpGte | OpLt | OpLte | OpIn | OpNotIn

datatype RouteIfPredicate =
    RLeaf string RouteIfOp jsval
  | RAll "RouteIfPredicate list"
  | RAny "RouteIfPredicate list"
  | RNot RouteIfPredicate

record PipelineNeedEdge =
  edge_id :: string
  edge_on :: "on_value list"
  edge_if :: "RouteIfPredicate option"

definition on_includes :: "PipelineNeedEdge \<Rightarrow> NeedTerminalState \<Rightarrow> bool" where
  "on_includes e st = (OnState st \<in> set (edge_on e))"

section \<open>Routes as authored\<close>

datatype on_spec = OnOne on_value | OnMany "on_value list"

datatype on_max_replays = RequireContinue | WaitForHuman

datatype replay_session = Resume | NewSession

record PipelineRouteLoopEntry =
  loop_to :: string
  loop_max_replays :: int
  loop_on_max_replays :: on_max_replays
  loop_replay_session :: replay_session

datatype PipelineRouteEntry =
    Forward string "on_spec option" "RouteIfPredicate option"
  | Loop PipelineRouteLoopEntry

record PipelineRouteEdge =
  route_to :: string
  route_on :: "on_value list"
  route_if :: "RouteIfPredicate option"

record FeedbackLoopConfig =
  fl_target :: string
  fl_max_replays :: int
  fl_on_max_replays :: on_max_replays
  fl_replay_session :: replay_session

section \<open>Resolved DAG\<close>

datatype fork_select = SelectOne | SelectSubset

record PipelineForkConfig =
  fork_select :: fork_select
  allow_none :: bool

datatype CloneMode = Parallel | Sequential

datatype retry_safety = Idempotent | SideEffecting

datatype RecoveryPolicy =
    Repair int bool
  | Manual retry_safety "bool option"

record ResolvedPipelineStageNode =
  node_id :: string
  needs :: "string option"
  needsEdges :: "PipelineNeedEdge list option"
  ancestors :: "string list"
  stageIndex :: nat
  fork :: "PipelineForkConfig option"
  clone_cap :: "int option"
  clone_mode :: "CloneMode option"
  clone_array_field :: "string option"
  definition_id :: "string option"
  completion :: "jsval option"
  recovery :: "RecoveryPolicy option"
  feedback_loop :: "FeedbackLoopConfig option"
  replay_safe :: "bool option"
  is_entry :: bool

text \<open>
  \<open>ResolvedPipelineDag\<close> and its snapshot \<open>RunPipelineDagSnapshot\<close> in one record: the code casts
  between them and asks \<open>Array.isArray(snapshot.stage_ids)\<close>, which is \<open>stage_ids \<noteq> None\<close>.
\<close>

record ResolvedPipelineDag =
  nodes :: "ResolvedPipelineStageNode list"
  roots :: "string list"
  childrenOf :: "(string, string list) jsmap"
  stage_ids :: "string list option"
  gate_kinds :: "(string, string list) jsmap"
  clone_input_schema :: "(string, jsval) jsmap"

definition find_node :: "ResolvedPipelineDag \<Rightarrow> string \<Rightarrow> ResolvedPipelineStageNode option" where
  "find_node dag i = List.find (\<lambda>n. node_id n = i) (nodes dag)"

definition children_of :: "ResolvedPipelineDag \<Rightarrow> string \<Rightarrow> string list" where
  "children_of dag i = jget_or (childrenOf dag) i []"

section \<open>Envelopes and schedule states\<close>

datatype EnvelopeStatus = EnvSuccess | EnvFailure

datatype FeedbackLoopAction = Continue | SendBack string

record StageEnvelope =
  env_status :: EnvelopeStatus
  env_summary :: string
  env_artifacts :: "string list"
  env_payload :: "jsobj option"
  env_fork_choice :: "string list option"
  env_feedback_loop :: "FeedbackLoopAction option"
  env_attestations :: "(string \<times> string list) list option"
  env_stage_id :: "string option"
  env_notes :: "string option"

datatype StageScheduleState = Pending | Active | Waiting | Succeeded | Failed | Skipped

type_synonym sched_states = "(string, StageScheduleState) jsmap"
type_synonym envelopes = "(string, StageEnvelope) jsmap"

text \<open>\<open>isNeedTerminalState\<close> on a possibly missing schedule state, with the state it narrows to.\<close>

fun isNeedTerminalState :: "StageScheduleState option \<Rightarrow> NeedTerminalState option" where
  "isNeedTerminalState (Some Succeeded) = Some NtSucceeded"
| "isNeedTerminalState (Some Failed) = Some NtFailed"
| "isNeedTerminalState (Some Skipped) = Some NtSkipped"
| "isNeedTerminalState _ = None"

fun terminalState :: "StageScheduleState \<Rightarrow> bool" where
  "terminalState s = (s = Succeeded \<or> s = Failed \<or> s = Skipped)"

section \<open>Predecessor edges\<close>

text \<open>\<open>predecessorEdges\<close> of \<open>config/pipelineNeeds.ts\<close>; an empty \<open>needs\<close> string is falsy.\<close>

definition nonempty_needs :: "ResolvedPipelineStageNode \<Rightarrow> string option" where
  "nonempty_needs n = (case needs n of None \<Rightarrow> None | Some p \<Rightarrow> if p = [] then None else Some p)"

definition succeeded_edge :: "string \<Rightarrow> PipelineNeedEdge" where
  "succeeded_edge p = \<lparr>edge_id = p, edge_on = [OnState NtSucceeded], edge_if = None\<rparr>"

definition predecessorEdges :: "ResolvedPipelineStageNode \<Rightarrow> PipelineNeedEdge list" where
  "predecessorEdges n =
     (case needsEdges n of
        Some es \<Rightarrow> es
      | None \<Rightarrow> (case nonempty_needs n of Some p \<Rightarrow> [succeeded_edge p] | None \<Rightarrow> []))"

lemma find_node_SomeD: "find_node dag i = Some n \<Longrightarrow> n \<in> set (nodes dag) \<and> node_id n = i"
  unfolding find_node_def by (rule find_SomeD)

lemma find_node_NoneD: "find_node dag i = None \<Longrightarrow> n \<in> set (nodes dag) \<Longrightarrow> node_id n \<noteq> i"
  unfolding find_node_def by (rule find_NoneD)

lemma find_node_eq:
  "distinct (map node_id (nodes dag)) \<Longrightarrow> n \<in> set (nodes dag) \<Longrightarrow> find_node dag (node_id n) = Some n"
  unfolding find_node_def by (rule find_distinct_key) auto

lemma isNeedTerminalState_eq_None_iff:
  "isNeedTerminalState x = None \<longleftrightarrow> (\<forall>s. x = Some s \<longrightarrow> \<not> terminalState s)"
  by (cases x rule: isNeedTerminalState.cases) auto

lemma isNeedTerminalState_simps [simp]:
  "isNeedTerminalState x = Some NtSucceeded \<longleftrightarrow> x = Some Succeeded"
  "isNeedTerminalState x = Some NtFailed \<longleftrightarrow> x = Some Failed"
  "isNeedTerminalState x = Some NtSkipped \<longleftrightarrow> x = Some Skipped"
  by (cases x rule: isNeedTerminalState.cases; simp)+

end
