(* ===== verification/Route_If.thy ===== *)
theory Route_If
  imports Pipeline_Types
begin

text \<open>
  Conditional routing: the evaluator \<open>runtime/routeIfEval.ts\<close> and the parser
  \<open>config/routeIf.ts\<close>.  The evaluator is compared with a strict three-valued reading of a
  predicate (a field that cannot be read makes the whole predicate \<open>missing_field\<close>, in any
  position and whatever short-circuiting the loops do), the parser with the persisted form of a
  predicate.
\<close>

section \<open>Evaluation\<close>

datatype RouteIfEval = Fire | Miss | MissingField

text \<open>The loop of \<open>readPayloadPath\<close> over the segments of a field.\<close>

fun read_path :: "jsval \<Rightarrow> string list \<Rightarrow> jsval option" where
  "read_path current [] = Some current"
| "read_path current (segment # rest) =
     (case current of
        JObj kvs \<Rightarrow>
          (case jget kvs segment of
             None \<Rightarrow> None
           | Some next \<Rightarrow> if rest \<noteq> [] \<and> \<not> isPlainObject next then None else read_path next rest)
      | _ \<Rightarrow> None)"

definition readPayloadPath :: "jsobj option \<Rightarrow> string \<Rightarrow> jsval option" where
  "readPayloadPath payload field =
     (case payload of None \<Rightarrow> None | Some kvs \<Rightarrow> read_path (JObj kvs) (split_dot field))"

definition fire_if :: "bool \<Rightarrow> RouteIfEval" where
  "fire_if b = (if b then Fire else Miss)"

definition numeric_leaf :: "(rat \<Rightarrow> rat \<Rightarrow> bool) \<Rightarrow> jsval \<Rightarrow> jsval \<Rightarrow> RouteIfEval" where
  "numeric_leaf cmp actual expected =
     (case finite_number actual of
        None \<Rightarrow> Miss
      | Some a \<Rightarrow> (case finite_number expected of None \<Rightarrow> Miss | Some e \<Rightarrow> fire_if (cmp a e)))"

fun compareLeaf :: "RouteIfOp \<Rightarrow> jsval \<Rightarrow> jsval \<Rightarrow> RouteIfEval" where
  "compareLeaf OpEq actual expected = fire_if (strict_eq actual expected)"
| "compareLeaf OpNe actual expected = fire_if (\<not> strict_eq actual expected)"
| "compareLeaf OpGt actual expected = numeric_leaf (\<lambda>a e. a > e) actual expected"
| "compareLeaf OpGte actual expected = numeric_leaf (\<lambda>a e. a \<ge> e) actual expected"
| "compareLeaf OpLt actual expected = numeric_leaf (\<lambda>a e. a < e) actual expected"
| "compareLeaf OpLte actual expected = numeric_leaf (\<lambda>a e. a \<le> e) actual expected"
| "compareLeaf OpIn actual (JArr xs) = fire_if (js_includes xs actual)"
| "compareLeaf OpIn actual _ = Miss"
| "compareLeaf OpNotIn actual (JArr xs) = fire_if (\<not> js_includes xs actual)"
| "compareLeaf OpNotIn actual _ = Miss"

text \<open>
  The two \<open>for\<close> loops return at the first \<open>missing_field\<close> and otherwise remember one flag.
\<close>

fun evaluateRouteIf :: "RouteIfPredicate \<Rightarrow> jsobj option \<Rightarrow> RouteIfEval"
  and eval_all :: "RouteIfPredicate list \<Rightarrow> jsobj option \<Rightarrow> bool \<Rightarrow> RouteIfEval"
  and eval_any :: "RouteIfPredicate list \<Rightarrow> jsobj option \<Rightarrow> bool \<Rightarrow> RouteIfEval" where
  "evaluateRouteIf (RAll ps) payload = eval_all ps payload False"
| "evaluateRouteIf (RAny ps) payload = eval_any ps payload False"
| "evaluateRouteIf (RNot p) payload =
     (case evaluateRouteIf p payload of
        MissingField \<Rightarrow> MissingField
      | Fire \<Rightarrow> Miss
      | Miss \<Rightarrow> Fire)"
| "evaluateRouteIf (RLeaf field op expected) payload =
     (case readPayloadPath payload field of
        None \<Rightarrow> MissingField
      | Some actual \<Rightarrow> compareLeaf op actual expected)"
| "eval_all [] payload anyMiss = (if anyMiss then Miss else Fire)"
| "eval_all (c # cs) payload anyMiss =
     (case evaluateRouteIf c payload of
        MissingField \<Rightarrow> MissingField
      | Miss \<Rightarrow> eval_all cs payload True
      | Fire \<Rightarrow> eval_all cs payload anyMiss)"
| "eval_any [] payload anyFire = (if anyFire then Fire else Miss)"
| "eval_any (c # cs) payload anyFire =
     (case evaluateRouteIf c payload of
        MissingField \<Rightarrow> MissingField
      | Fire \<Rightarrow> eval_any cs payload True
      | Miss \<Rightarrow> eval_any cs payload anyFire)"

section \<open>The strict three-valued reading\<close>

fun leaf_fields :: "RouteIfPredicate \<Rightarrow> string set" where
  "leaf_fields (RLeaf f _ _) = {f}"
| "leaf_fields (RAll ps) = (\<Union>p\<in>set ps. leaf_fields p)"
| "leaf_fields (RAny ps) = (\<Union>p\<in>set ps. leaf_fields p)"
| "leaf_fields (RNot p) = leaf_fields p"

definition readable :: "jsobj option \<Rightarrow> RouteIfPredicate \<Rightarrow> bool" where
  "readable payload p \<longleftrightarrow> (\<forall>f\<in>leaf_fields p. readPayloadPath payload f \<noteq> None)"

text \<open>The truth value of a predicate whose fields can all be read.\<close>

fun holds :: "RouteIfPredicate \<Rightarrow> jsobj option \<Rightarrow> bool" where
  "holds (RLeaf f op expected) payload =
     (compareLeaf op (case readPayloadPath payload f of Some v \<Rightarrow> v | None \<Rightarrow> JNull) expected = Fire)"
| "holds (RAll ps) payload = (\<forall>p\<in>set ps. holds p payload)"
| "holds (RAny ps) payload = (\<exists>p\<in>set ps. holds p payload)"
| "holds (RNot p) payload = (\<not> holds p payload)"

lemma fire_if_simps [simp]:
  "fire_if b = Fire \<longleftrightarrow> b" "fire_if b = Miss \<longleftrightarrow> \<not> b" "fire_if b \<noteq> MissingField"
  by (auto simp: fire_if_def)

lemma numeric_leaf_not_missing [simp]: "numeric_leaf cmp a e \<noteq> MissingField"
  by (auto simp: numeric_leaf_def split: option.splits)

lemma compareLeaf_not_missing [simp]: "compareLeaf op a e \<noteq> MissingField"
  by (induction op a e rule: compareLeaf.induct) auto

lemma readable_simps [simp]:
  "readable payload (RLeaf f op v) \<longleftrightarrow> readPayloadPath payload f \<noteq> None"
  "readable payload (RAll ps) \<longleftrightarrow> (\<forall>p\<in>set ps. readable payload p)"
  "readable payload (RAny ps) \<longleftrightarrow> (\<forall>p\<in>set ps. readable payload p)"
  "readable payload (RNot p) \<longleftrightarrow> readable payload p"
  by (auto simp: readable_def)

lemma compareLeaf_fire_if: "compareLeaf op a e = fire_if (compareLeaf op a e = Fire)"
  by (cases "compareLeaf op a e") (auto simp: fire_if_def dest: compareLeaf_not_missing [THEN notE])

lemma evaluate_strict:
  "evaluateRouteIf p payload =
     (if readable payload p then fire_if (holds p payload) else MissingField)"
  "eval_all ps payload anyMiss =
     (if \<forall>p\<in>set ps. readable payload p
      then fire_if (\<not> anyMiss \<and> (\<forall>p\<in>set ps. holds p payload)) else MissingField)"
  "eval_any ps payload anyFire =
     (if \<forall>p\<in>set ps. readable payload p
      then fire_if (anyFire \<or> (\<exists>p\<in>set ps. holds p payload)) else MissingField)"
proof (induction p payload and ps payload anyMiss and ps payload anyFire
    rule: evaluateRouteIf_eval_all_eval_any.induct)
  case (1 ps payload)
  then show ?case by simp
next
  case (2 ps payload)
  then show ?case by simp
next
  case (3 p payload)
  then show ?case by (simp add: fire_if_def)
next
  case (4 field op expected payload)
  show ?case
  proof (cases "readPayloadPath payload field")
    case (Some v)
    then show ?thesis using compareLeaf_fire_if [of op v expected] by simp
  qed simp
next
  case (5 payload anyMiss)
  then show ?case by (simp add: fire_if_def)
next
  case (6 c cs payload anyMiss)
  show ?case
  proof (cases "readable payload c")
    case True
    then show ?thesis using 6 by (cases "holds c payload") (simp_all add: fire_if_def)
  next
    case False
    then show ?thesis using 6 by simp
  qed
next
  case (7 payload anyFire)
  then show ?case by (simp add: fire_if_def)
next
  case (8 c cs payload anyFire)
  show ?case
  proof (cases "readable payload c")
    case True
    then show ?thesis using 8 by (cases "holds c payload") (simp_all add: fire_if_def)
  next
    case False
    then show ?thesis using 8 by simp
  qed
qed

section \<open>Parsing\<close>

datatype list_kind = KindAll | KindAny

datatype route_if_error =
    NotPredicateObject
  | ExactlyOneForm
  | UnknownKey string
  | FieldNotString
  | UnknownOp
  | ValueRequired
  | MembershipListEmpty RouteIfOp
  | ListEmpty list_kind
  | NotNeedsObject

fun route_if_op :: "string \<Rightarrow> RouteIfOp option" where
  "route_if_op s =
     (if s = ''eq'' then Some OpEq else if s = ''ne'' then Some OpNe
      else if s = ''gt'' then Some OpGt else if s = ''gte'' then Some OpGte
      else if s = ''lt'' then Some OpLt else if s = ''lte'' then Some OpLte
      else if s = ''in'' then Some OpIn else if s = ''not_in'' then Some OpNotIn else None)"

fun route_if_op_name :: "RouteIfOp \<Rightarrow> string" where
  "route_if_op_name OpEq = ''eq''"
| "route_if_op_name OpNe = ''ne''"
| "route_if_op_name OpGt = ''gt''"
| "route_if_op_name OpGte = ''gte''"
| "route_if_op_name OpLt = ''lt''"
| "route_if_op_name OpLte = ''lte''"
| "route_if_op_name OpIn = ''in''"
| "route_if_op_name OpNotIn = ''not_in''"

definition membership_op :: "RouteIfOp \<Rightarrow> bool" where
  "membership_op op = (op = OpIn \<or> op = OpNotIn)"

fun nonempty_array :: "jsval \<Rightarrow> bool" where
  "nonempty_array (JArr (x # xs)) = True"
| "nonempty_array _ = False"

text \<open>\<open>unknownKeyIssue\<close>: the first own key outside the allowed set.\<close>

definition unknown_key :: "string list \<Rightarrow> jsobj \<Rightarrow> string option" where
  "unknown_key allowed raw = List.find (\<lambda>k. k \<notin> set allowed) (jkeys raw)"

definition parseRouteIfLeaf :: "jsobj \<Rightarrow> route_if_error + RouteIfPredicate" where
  "parseRouteIfLeaf raw =
     (case unknown_key [''field'', ''op'', ''value''] raw of
        Some k \<Rightarrow> Inl (UnknownKey k)
      | None \<Rightarrow>
        (case jget raw ''field'' of
           Some (JStr field) \<Rightarrow>
             if field = [] then Inl FieldNotString
             else (case jget raw ''op'' of
                Some (JStr op_text) \<Rightarrow>
                  (case route_if_op op_text of
                     None \<Rightarrow> Inl UnknownOp
                   | Some op \<Rightarrow>
                     (case jget raw ''value'' of
                        None \<Rightarrow> Inl ValueRequired
                      | Some v \<Rightarrow>
                          if membership_op op \<and> \<not> nonempty_array v then Inl (MembershipListEmpty op)
                          else Inr (RLeaf field op v)))
              | _ \<Rightarrow> Inl UnknownOp)
         | _ \<Rightarrow> Inl FieldNotString))"

definition composition_count :: "jsobj \<Rightarrow> nat" where
  "composition_count raw =
     length (List.filter (\<lambda>k. jhas raw k) [''all'', ''any'', ''not''])"

definition has_leaf_keys :: "jsobj \<Rightarrow> bool" where
  "has_leaf_keys raw = (jhas raw ''field'' \<or> jhas raw ''op'' \<or> jhas raw ''value'')"

function (sequential) parseRouteIfNode :: "jsval \<Rightarrow> route_if_error + RouteIfPredicate"
  and parseRouteIfList :: "jsval \<Rightarrow> list_kind \<Rightarrow> route_if_error + RouteIfPredicate"
  and parse_route_if_items :: "jsval list \<Rightarrow> route_if_error + RouteIfPredicate list" where
  "parseRouteIfNode (JObj raw) =
     (if composition_count raw > 1 \<or> (composition_count raw = 1 \<and> has_leaf_keys raw)
      then Inl ExactlyOneForm
      else (case jget raw ''all'' of
         Some v \<Rightarrow> (case unknown_key [''all''] raw of
             Some k \<Rightarrow> Inl (UnknownKey k) | None \<Rightarrow> parseRouteIfList v KindAll)
       | None \<Rightarrow> (case jget raw ''any'' of
         Some v \<Rightarrow> (case unknown_key [''any''] raw of
             Some k \<Rightarrow> Inl (UnknownKey k) | None \<Rightarrow> parseRouteIfList v KindAny)
       | None \<Rightarrow> (case jget raw ''not'' of
         Some v \<Rightarrow> (case unknown_key [''not''] raw of
             Some k \<Rightarrow> Inl (UnknownKey k)
           | None \<Rightarrow> if isPlainObject v
               then (case parseRouteIfNode v of Inl e \<Rightarrow> Inl e | Inr p \<Rightarrow> Inr (RNot p))
               else Inl NotNeedsObject)
       | None \<Rightarrow> parseRouteIfLeaf raw))))"
| "parseRouteIfNode _ = Inl NotPredicateObject"
| "parseRouteIfList (JArr (x # xs)) kind =
     (case parse_route_if_items (x # xs) of
        Inl e \<Rightarrow> Inl e
      | Inr ps \<Rightarrow> Inr (case kind of KindAll \<Rightarrow> RAll ps | KindAny \<Rightarrow> RAny ps))"
| "parseRouteIfList _ kind = Inl (ListEmpty kind)"
| "parse_route_if_items [] = Inr []"
| "parse_route_if_items (x # xs) =
     (case parseRouteIfNode x of
        Inl e \<Rightarrow> Inl e
      | Inr p \<Rightarrow> (case parse_route_if_items xs of Inl e \<Rightarrow> Inl e | Inr ps \<Rightarrow> Inr (p # ps)))"
  by pat_completeness auto
termination
  by (relation "measure (case_sum size (case_sum (\<lambda>(v, k). size v) (size_list size)))")
    (auto dest: size_jget_obj)

definition parseRouteIf :: "jsval \<Rightarrow> route_if_error + RouteIfPredicate" where
  "parseRouteIf raw = parseRouteIfNode raw"

section \<open>The persisted form\<close>

text \<open>
  A parsed predicate is an object literal of the types in \<open>types/pipeline.ts\<close>; the run store
  persists it as JSON and \<open>hydrateResolvedNeeds\<close> parses it again.
\<close>

fun routeIfJson :: "RouteIfPredicate \<Rightarrow> jsval" where
  "routeIfJson (RLeaf f op v) =
     JObj [(''field'', JStr f), (''op'', JStr (route_if_op_name op)), (''value'', v)]"
| "routeIfJson (RAll ps) = JObj [(''all'', JArr (map routeIfJson ps))]"
| "routeIfJson (RAny ps) = JObj [(''any'', JArr (map routeIfJson ps))]"
| "routeIfJson (RNot p) = JObj [(''not'', routeIfJson p)]"

text \<open>
  What comes back of a value that the run store writes with \<open>JSON.stringify\<close> and reads with
  \<open>JSON.parse\<close>: JSON has no infinity and no \<open>NaN\<close>, and writes \<open>null\<close> for them.
\<close>

fun stored_json :: "jsval \<Rightarrow> jsval" where
  "stored_json (JNum (Fin q)) = JNum (Fin q)"
| "stored_json (JNum _) = JNull"
| "stored_json (JArr xs) = JArr (map stored_json xs)"
| "stored_json (JObj kvs) = JObj (map (\<lambda>(k, v). (k, stored_json v)) kvs)"
| "stored_json v = v"

fun finite_json :: "jsval \<Rightarrow> bool" where
  "finite_json (JNum n) \<longleftrightarrow> n \<notin> {PInf, NInf, NaN}"
| "finite_json (JArr xs) \<longleftrightarrow> (\<forall>x\<in>set xs. finite_json x)"
| "finite_json (JObj kvs) \<longleftrightarrow> (\<forall>(k, v)\<in>set kvs. finite_json v)"
| "finite_json v \<longleftrightarrow> True"

text \<open>The predicate with its values as they come back, and whether its values are finite.\<close>

fun stored_predicate :: "RouteIfPredicate \<Rightarrow> RouteIfPredicate" where
  "stored_predicate (RLeaf f op v) = RLeaf f op (stored_json v)"
| "stored_predicate (RAll ps) = RAll (map stored_predicate ps)"
| "stored_predicate (RAny ps) = RAny (map stored_predicate ps)"
| "stored_predicate (RNot p) = RNot (stored_predicate p)"

fun finite_predicate :: "RouteIfPredicate \<Rightarrow> bool" where
  "finite_predicate (RLeaf f op v) \<longleftrightarrow> finite_json v"
| "finite_predicate (RAll ps) \<longleftrightarrow> (\<forall>p\<in>set ps. finite_predicate p)"
| "finite_predicate (RAny ps) \<longleftrightarrow> (\<forall>p\<in>set ps. finite_predicate p)"
| "finite_predicate (RNot p) \<longleftrightarrow> finite_predicate p"

lemma stored_json_same: "stored_json v = v \<longleftrightarrow> finite_json v"
proof (induction v rule: stored_json.induct)
  case (3 xs)
  then show ?case by (simp add: map_idI list_eq_iff_nth_eq all_set_conv_all_nth)
next
  case (4 kvs)
  have "map (\<lambda>(k, v). (k, stored_json v)) kvs = kvs \<longleftrightarrow> (\<forall>(k, v)\<in>set kvs. stored_json v = v)"
    by (induction kvs) auto
  also have "\<dots> \<longleftrightarrow> (\<forall>(k, v)\<in>set kvs. finite_json v)" using 4 by fastforce
  finally show ?case by simp
qed auto

lemma stored_predicate_same: "stored_predicate p = p \<longleftrightarrow> finite_predicate p"
proof (induction p)
  case (RAll ps)
  then show ?case by (simp add: list_eq_iff_nth_eq all_set_conv_all_nth)
next
  case (RAny ps)
  then show ?case by (simp add: list_eq_iff_nth_eq all_set_conv_all_nth)
qed (simp_all add: stored_json_same)

lemma stored_routeIfJson: "stored_json (routeIfJson p) = routeIfJson (stored_predicate p)"
  by (induction p) auto

fun wf_route_if :: "RouteIfPredicate \<Rightarrow> bool" where
  "wf_route_if (RLeaf f op v) \<longleftrightarrow> f \<noteq> [] \<and> (membership_op op \<longrightarrow> nonempty_array v)"
| "wf_route_if (RAll ps) \<longleftrightarrow> ps \<noteq> [] \<and> (\<forall>p\<in>set ps. wf_route_if p)"
| "wf_route_if (RAny ps) \<longleftrightarrow> ps \<noteq> [] \<and> (\<forall>p\<in>set ps. wf_route_if p)"
| "wf_route_if (RNot p) \<longleftrightarrow> wf_route_if p"

lemma route_if_op_name [simp]: "route_if_op (route_if_op_name op) = Some op"
  by (cases op) auto

lemma parseRouteIfLeaf_wf: "parseRouteIfLeaf raw = Inr p \<Longrightarrow> wf_route_if p"
  by (auto simp: parseRouteIfLeaf_def split: option.splits jsval.splits if_splits)

lemma parse_wf:
  "parseRouteIfNode raw = Inr p \<Longrightarrow> wf_route_if p"
  "parseRouteIfList raw kind = Inr p \<Longrightarrow> wf_route_if p"
  "parse_route_if_items xs = Inr ps \<Longrightarrow> length ps = length xs \<and> (\<forall>p\<in>set ps. wf_route_if p)"
proof (induction raw and raw kind and xs arbitrary: p and p and ps
    rule: parseRouteIfNode_parseRouteIfList_parse_route_if_items.induct)
  case (1 raw)
  then show ?case
    by (auto simp: parseRouteIfLeaf_wf split: if_splits option.splits sum.splits)
next
  case (3 x xs kind)
  then show ?case
    by (cases kind) (auto simp del: parse_route_if_items.simps split: sum.splits)
next
  case (6 x xs)
  then show ?case by (fastforce split: sum.splits)
qed (auto split: sum.splits)

lemma isPlainObject_routeIfJson [simp]: "isPlainObject (routeIfJson p)"
  by (cases p) auto

lemma composition_count_json:
  "composition_count [(''field'', a), (''op'', b), (''value'', c)] = 0"
  "composition_count [(''all'', a)] = 1" "composition_count [(''any'', a)] = 1"
  "composition_count [(''not'', a)] = 1"
  by (simp_all add: composition_count_def)

lemma has_leaf_keys_json:
  "\<not> has_leaf_keys [(''all'', a)]" "\<not> has_leaf_keys [(''any'', a)]" "\<not> has_leaf_keys [(''not'', a)]"
  by (simp_all add: has_leaf_keys_def)

lemma parse_items_json:
  "(\<And>p. p \<in> set ps \<Longrightarrow> parseRouteIfNode (routeIfJson p) = Inr p) \<Longrightarrow>
   parse_route_if_items (map routeIfJson ps) = Inr ps"
  by (induction ps) auto

lemma parseRouteIfList_json:
  "ps \<noteq> [] \<Longrightarrow> (\<And>p. p \<in> set ps \<Longrightarrow> parseRouteIfNode (routeIfJson p) = Inr p) \<Longrightarrow>
   parseRouteIfList (JArr (map routeIfJson ps)) kind = Inr (case kind of KindAll \<Rightarrow> RAll ps | KindAny \<Rightarrow> RAny ps)"
  using parse_items_json [of ps] by (cases ps) auto

lemma nonempty_stored [simp]: "nonempty_array (stored_json v) = nonempty_array v"
proof (induction v rule: stored_json.induct)
  case (3 xs)
  then show ?case by (cases xs) simp_all
qed simp_all

lemma stored_wf: "wf_route_if p \<Longrightarrow> wf_route_if (stored_predicate p)"
  by (induction p) auto

lemma parse_routeIfJson: "wf_route_if p \<Longrightarrow> parseRouteIfNode (routeIfJson p) = Inr p"
proof (induction p)
  case (RLeaf f op v)
  then show ?case
    by (simp add: composition_count_json parseRouteIfLeaf_def unknown_key_def del: route_if_op.simps)
next
  case (RAll ps)
  then show ?case
    by (simp add: composition_count_json has_leaf_keys_json unknown_key_def parseRouteIfList_json)
next
  case (RAny ps)
  then show ?case
    by (simp add: composition_count_json has_leaf_keys_json unknown_key_def parseRouteIfList_json)
next
  case (RNot p)
  then show ?case
    by (simp add: composition_count_json has_leaf_keys_json unknown_key_def)
qed

section \<open>Properties\<close>

text \<open>
  C36: a route predicate is evaluated strictly: the result is \<open>missing_field\<close> exactly when some
  field named anywhere in the predicate cannot be read from the payload, whatever the
  short-circuiting loops skip, and otherwise it is the Boolean value of the predicate.
\<close>

theorem evaluateRouteIf_strict:
  "evaluateRouteIf p pl = (if readable pl p then fire_if (holds p pl) else MissingField)"
  by (rule evaluate_strict)

text \<open>
  C37: an accepted predicate parses again from what the run store gives back for it: the same predicate,
  with \<open>null\<close> for the infinities and \<open>NaN\<close> among its values; it is equal to the accepted one exactly
  when all its values are finite.
\<close>

theorem parseRouteIf_reparse:
  "parseRouteIf raw = Inr p \<Longrightarrow>
   parseRouteIf (stored_json (routeIfJson p)) = Inr (stored_predicate p) \<and> (stored_predicate p = p \<longleftrightarrow> finite_predicate p)"
proof -
  assume "parseRouteIf raw = Inr p"
  then have "wf_route_if p" unfolding parseRouteIf_def by (rule parse_wf)
  then have "parseRouteIfNode (routeIfJson (stored_predicate p)) = Inr (stored_predicate p)"
    by (intro parse_routeIfJson stored_wf)
  then show ?thesis by (simp add: parseRouteIf_def stored_routeIfJson stored_predicate_same)
qed

definition sample_route_if :: jsval where
  "sample_route_if =
     JObj [(''any'', JArr [JObj [(''field'', JStr ''a.b''), (''op'', JStr ''gt''), (''value'', JNum (Fin 3))],
                           JObj [(''not'', JObj [(''op'', JStr ''in''), (''value'', JArr [JStr ''x'']), (''field'', JStr ''c'')])]])]"

lemma sample_route_if_parses:
  "parseRouteIf sample_route_if =
     Inr (RAny [RLeaf ''a.b'' OpGt (JNum (Fin 3)), RNot (RLeaf ''c'' OpIn (JArr [JStr ''x'']))])"
  by (simp add: parseRouteIf_def sample_route_if_def composition_count_def has_leaf_keys_def
      unknown_key_def parseRouteIfLeaf_def membership_op_def)

theorem parseRouteIf_reparse_witness:
  "parseRouteIf (stored_json (routeIfJson (RAny [RLeaf ''a.b'' OpGt (JNum (Fin 3)), RNot (RLeaf ''c'' OpIn (JArr [JStr ''x'']))])))
     = Inr (RAny [RLeaf ''a.b'' OpGt (JNum (Fin 3)), RNot (RLeaf ''c'' OpIn (JArr [JStr ''x'']))])"
proof -
  let ?p = "RAny [RLeaf ''a.b'' OpGt (JNum (Fin 3)), RNot (RLeaf ''c'' OpIn (JArr [JStr ''x'']))]"
  have "finite_predicate ?p" by simp
  with parseRouteIf_reparse [OF sample_route_if_parses] show ?thesis by simp
qed

text \<open>
  The value \<open>.inf\<close> is accepted and comes back as \<open>null\<close>: a condition no payload meets becomes one that a
  payload with \<open>null\<close> meets.
\<close>

lemma infinite_value_is_lost:
  "parseRouteIf (JObj [(''field'', JStr ''a''), (''op'', JStr ''eq''), (''value'', JNum PInf)]) = Inr (RLeaf ''a'' OpEq (JNum PInf))"
  "evaluateRouteIf (RLeaf ''a'' OpEq (JNum PInf)) (Some [(''a'', JNull)]) = Miss"
  "evaluateRouteIf (stored_predicate (RLeaf ''a'' OpEq (JNum PInf))) (Some [(''a'', JNull)]) = Fire"
  by code_simp+

end
