(* ===== verification/Pipeline_Route.thy ===== *)
theory Pipeline_Route
  imports Route_If
begin

text \<open>
  The wiring vocabulary of a pipeline file: \<open>config/pipelineRoute.ts\<close> (a stage's outbound
  \<open>route\<close>) and \<open>config/pipelineNeeds.ts\<close> (the inbound \<open>needs\<close> it is inverted into), with
  the re-hydration of the persisted edges.
\<close>

section \<open>Terminal states named in an \<open>on\<close> list\<close>

text \<open>
  The own and inherited member names of \<open>Object.prototype\<close>, which a property read on an object
  literal finds.
\<close>

definition object_prototype_members :: "string list" where
  "object_prototype_members =
     [''constructor'', ''__defineGetter__'', ''__defineSetter__'', ''hasOwnProperty'',
      ''__lookupGetter__'', ''__lookupSetter__'', ''isPrototypeOf'', ''propertyIsEnumerable'',
      ''toString'', ''valueOf'', ''__proto__'', ''toLocaleString'']"

definition need_terminal_of_string :: "string \<Rightarrow> NeedTerminalState option" where
  "need_terminal_of_string s =
     (if s = ''succeeded'' then Some NtSucceeded
      else if s = ''failed'' then Some NtFailed
      else if s = ''skipped'' then Some NtSkipped else None)"

definition need_terminal_alias :: "string \<Rightarrow> on_value option" where
  "need_terminal_alias s =
     (if s = ''success'' then Some (OnState NtSucceeded)
      else if s = ''failure'' then Some (OnState NtFailed)
      else if s \<in> set object_prototype_members then Some (OnInherited s) else None)"

fun canonicalizeNeedTerminalState :: "jsval \<Rightarrow> on_value option" where
  "canonicalizeNeedTerminalState (JStr s) =
     (case need_terminal_of_string s of
        Some st \<Rightarrow> Some (OnState st)
      | None \<Rightarrow> need_terminal_alias s)"
| "canonicalizeNeedTerminalState _ = None"

text \<open>
  The loop shared by \<open>parseNeedOn\<close> and \<open>parseRouteOn\<close>: every item canonical, none repeated.
\<close>

fun canonical_on :: "jsval list \<Rightarrow> on_value list \<Rightarrow> on_value list option" where
  "canonical_on [] seen = Some []"
| "canonical_on (item # items) seen =
     (case canonicalizeNeedTerminalState item of
        None \<Rightarrow> None
      | Some c \<Rightarrow>
          if c \<in> set seen then None
          else map_option ((#) c) (canonical_on items (c # seen)))"

section \<open>Parsing a \<open>route\<close>\<close>

datatype route_error =
    RouteNotArray
  | RouteEmpty
  | RouteItemNotObject
  | RouteTypeNotLoop
  | RouteIfOnLoop
  | RouteUnknownKey string
  | RouteToMissing
  | LoopMaxReplays string
  | LoopOnMaxReplays string
  | LoopReplaySession string
  | RouteDuplicateTarget string
  | RouteOnInvalid string
  | RouteIfInvalid route_if_error
  | RouteIfNeedsSucceeded string

fun on_max_replays_of :: "jsval option \<Rightarrow> on_max_replays option" where
  "on_max_replays_of (Some (JStr s)) =
     (if s = ''require_continue'' then Some RequireContinue
      else if s = ''wait_for_human'' then Some WaitForHuman else None)"
| "on_max_replays_of _ = None"

fun replay_session_of :: "jsval option \<Rightarrow> replay_session option" where
  "replay_session_of (Some (JStr s)) =
     (if s = ''resume'' then Some Resume else if s = ''new_session'' then Some NewSession else None)"
| "replay_session_of _ = None"

text \<open>\<open>typeof v === "string" && v\<close>: a non-empty string.\<close>

fun nonempty_string :: "jsval option \<Rightarrow> string option" where
  "nonempty_string (Some (JStr s)) = (if s = [] then None else Some s)"
| "nonempty_string _ = None"

definition positive_integer :: "jsval option \<Rightarrow> int option" where
  "positive_integer v =
     (case v of None \<Rightarrow> None
      | Some x \<Rightarrow> (case integer_number x of None \<Rightarrow> None | Some i \<Rightarrow> if i < 1 then None else Some i))"

definition parseRouteLoopEntry :: "jsobj \<Rightarrow> route_error + PipelineRouteLoopEntry" where
  "parseRouteLoopEntry item =
     (if jhas item ''if'' then Inl RouteIfOnLoop
      else case unknown_key [''type'', ''to'', ''max_replays'', ''on_max_replays'', ''replay_session''] item of
        Some k \<Rightarrow> Inl (RouteUnknownKey k)
      | None \<Rightarrow>
        (case nonempty_string (jget item ''to'') of
           None \<Rightarrow> Inl RouteToMissing
         | Some t \<Rightarrow>
           (case positive_integer (jget item ''max_replays'') of
              None \<Rightarrow> Inl (LoopMaxReplays t)
            | Some m \<Rightarrow>
              (case on_max_replays_of (jget item ''on_max_replays'') of
                 None \<Rightarrow> Inl (LoopOnMaxReplays t)
               | Some om \<Rightarrow>
                 (case replay_session_of (jget item ''replay_session'') of
                    None \<Rightarrow> Inl (LoopReplaySession t)
                  | Some rs \<Rightarrow>
                      Inr \<lparr>loop_to = t, loop_max_replays = m, loop_on_max_replays = om,
                           loop_replay_session = rs\<rparr>)))))"

text \<open>An absent \<open>on\<close> means succeeded only; a single value stands for a list of one.\<close>

definition parseRouteOn :: "jsval option \<Rightarrow> string \<Rightarrow> route_error + on_value list" where
  "parseRouteOn raw t =
     (case raw of
        None \<Rightarrow> Inr [OnState NtSucceeded]
      | Some v \<Rightarrow>
          (case (case v of JArr xs \<Rightarrow> xs | _ \<Rightarrow> [v]) of
             [] \<Rightarrow> Inl (RouteOnInvalid t)
           | items \<Rightarrow> (case canonical_on items [] of
               None \<Rightarrow> Inl (RouteOnInvalid t)
             | Some on \<Rightarrow> Inr on)))"

text \<open>The forward branch of the loop body of \<open>parsePipelineRoute\<close>.\<close>

definition parse_forward_entry :: "jsobj \<Rightarrow> string list \<Rightarrow> route_error + PipelineRouteEntry" where
  "parse_forward_entry item seen =
     (case unknown_key [''to'', ''on'', ''if''] item of
        Some k \<Rightarrow> Inl (RouteUnknownKey k)
      | None \<Rightarrow>
        (case nonempty_string (jget item ''to'') of
           None \<Rightarrow> Inl RouteToMissing
         | Some t \<Rightarrow>
             if t \<in> set seen then Inl (RouteDuplicateTarget t)
             else (case parseRouteOn (jget item ''on'') t of
                Inl e \<Rightarrow> Inl e
              | Inr on \<Rightarrow>
                 (case jget item ''if'' of
                    None \<Rightarrow> Inr (Forward t (Some (OnMany on)) None)
                  | Some raw_if \<Rightarrow>
                     (case parseRouteIf raw_if of
                        Inl e \<Rightarrow> Inl (RouteIfInvalid e)
                      | Inr p \<Rightarrow>
                          if on \<noteq> [OnState NtSucceeded] then Inl (RouteIfNeedsSucceeded t)
                          else Inr (Forward t (Some (OnMany on)) (Some p)))))))"

fun entry_to :: "PipelineRouteEntry \<Rightarrow> string" where
  "entry_to (Forward t _ _) = t"
| "entry_to (Loop l) = loop_to l"

definition parse_route_item :: "jsval \<Rightarrow> string list \<Rightarrow> route_error + PipelineRouteEntry" where
  "parse_route_item item seen =
     (case item of
        JObj kvs \<Rightarrow>
          (case jget kvs ''type'' of
             None \<Rightarrow> parse_forward_entry kvs seen
           | Some ty \<Rightarrow>
               if ty \<noteq> JStr ''loop'' then Inl RouteTypeNotLoop
               else (case parseRouteLoopEntry kvs of
                  Inl e \<Rightarrow> Inl e
                | Inr l \<Rightarrow>
                    if loop_to l \<in> set seen then Inl (RouteDuplicateTarget (loop_to l)) else Inr (Loop l)))
      | _ \<Rightarrow> Inl RouteItemNotObject)"

fun parse_route_items :: "jsval list \<Rightarrow> string list \<Rightarrow> route_error + PipelineRouteEntry list" where
  "parse_route_items [] seen = Inr []"
| "parse_route_items (item # items) seen =
     (case parse_route_item item seen of
        Inl e \<Rightarrow> Inl e
      | Inr r \<Rightarrow>
          (case parse_route_items items (entry_to r # seen) of Inl e \<Rightarrow> Inl e | Inr rs \<Rightarrow> Inr (r # rs)))"

fun parsePipelineRoute :: "jsval \<Rightarrow> route_error + PipelineRouteEntry list" where
  "parsePipelineRoute (JArr []) = Inl RouteEmpty"
| "parsePipelineRoute (JArr (x # xs)) = parse_route_items (x # xs) []"
| "parsePipelineRoute _ = Inl RouteNotArray"

section \<open>Typed routes\<close>

fun on_list :: "on_spec option \<Rightarrow> on_value list" where
  "on_list None = [OnState NtSucceeded]"
| "on_list (Some (OnMany on)) = on"
| "on_list (Some (OnOne v)) = [v]"

fun to_route_edge :: "PipelineRouteEntry \<Rightarrow> PipelineRouteEdge option" where
  "to_route_edge (Forward t on cond) = Some \<lparr>route_to = t, route_on = on_list on, route_if = cond\<rparr>"
| "to_route_edge (Loop _) = None"

definition toRouteEdges :: "PipelineRouteEntry list option \<Rightarrow> PipelineRouteEdge list" where
  "toRouteEdges r = (case r of None \<Rightarrow> [] | Some es \<Rightarrow> List.map_filter to_route_edge es)"

fun to_loop_entry :: "PipelineRouteEntry \<Rightarrow> PipelineRouteLoopEntry option" where
  "to_loop_entry (Loop l) = Some l"
| "to_loop_entry (Forward _ _ _) = None"

definition toRouteLoopEntries :: "PipelineRouteEntry list option \<Rightarrow> PipelineRouteLoopEntry list" where
  "toRouteLoopEntries r = (case r of None \<Rightarrow> [] | Some es \<Rightarrow> List.map_filter to_loop_entry es)"

section \<open>Parsing \<open>needs\<close>\<close>

datatype need_item =
    NeedId string
  | NeedEdge string "on_value list option" "RouteIfPredicate option"

datatype PipelineNeeds = NeedsOne string | NeedsMany "need_item list"

datatype needs_error =
    NeedsEmptyString
  | NeedsNotStringOrArray
  | NeedsEmptyArray
  | NeedsItemInvalid
  | NeedsDuplicate string
  | NeedsUnknownKey string
  | NeedsOnInvalid string

definition parseNeedOn :: "jsval option \<Rightarrow> string \<Rightarrow> needs_error + on_value list" where
  "parseNeedOn raw parent =
     (case raw of
        Some (JArr (x # xs)) \<Rightarrow>
          (case canonical_on (x # xs) [] of None \<Rightarrow> Inl (NeedsOnInvalid parent) | Some on \<Rightarrow> Inr on)
      | _ \<Rightarrow> Inl (NeedsOnInvalid parent))"

definition parse_need_item :: "jsval \<Rightarrow> string list \<Rightarrow> needs_error + string \<times> on_value list" where
  "parse_need_item item seen =
     (case item of
        JStr i \<Rightarrow>
          if i = [] then Inl NeedsItemInvalid
          else if i \<in> set seen then Inl (NeedsDuplicate i)
          else Inr (i, [OnState NtSucceeded])
      | JObj kvs \<Rightarrow>
          (case unknown_key [''id'', ''on''] kvs of
             Some k \<Rightarrow> Inl (NeedsUnknownKey k)
           | None \<Rightarrow>
             (case nonempty_string (jget kvs ''id'') of
                None \<Rightarrow> Inl NeedsItemInvalid
              | Some i \<Rightarrow>
                  if i \<in> set seen then Inl (NeedsDuplicate i)
                  else (case parseNeedOn (jget kvs ''on'') i of Inl e \<Rightarrow> Inl e | Inr on \<Rightarrow> Inr (i, on))))
      | _ \<Rightarrow> Inl NeedsItemInvalid)"

fun parse_need_items :: "jsval list \<Rightarrow> string list \<Rightarrow> needs_error + need_item list" where
  "parse_need_items [] seen = Inr []"
| "parse_need_items (item # items) seen =
     (case parse_need_item item seen of
        Inl e \<Rightarrow> Inl e
      | Inr (i, on) \<Rightarrow>
          (case parse_need_items items (i # seen) of
             Inl e \<Rightarrow> Inl e
           | Inr rest \<Rightarrow> Inr (NeedEdge i (Some on) None # rest)))"

fun parsePipelineNeeds :: "jsval \<Rightarrow> needs_error + PipelineNeeds" where
  "parsePipelineNeeds (JStr s) = (if s = [] then Inl NeedsEmptyString else Inr (NeedsOne s))"
| "parsePipelineNeeds (JArr []) = Inl NeedsEmptyArray"
| "parsePipelineNeeds (JArr (x # xs)) =
     (case parse_need_items (x # xs) [] of Inl e \<Rightarrow> Inl e | Inr items \<Rightarrow> Inr (NeedsMany items))"
| "parsePipelineNeeds _ = Inl NeedsNotStringOrArray"

section \<open>Need edges and their inversion\<close>

fun to_need_edge :: "need_item \<Rightarrow> PipelineNeedEdge" where
  "to_need_edge (NeedId i) = succeeded_edge i"
| "to_need_edge (NeedEdge i on cond) =
     \<lparr>edge_id = i,
      edge_on = (case on of Some (v # vs) \<Rightarrow> v # vs | _ \<Rightarrow> [OnState NtSucceeded]),
      edge_if = cond\<rparr>"

fun toNeedEdges :: "PipelineNeeds option \<Rightarrow> PipelineNeedEdge list" where
  "toNeedEdges None = []"
| "toNeedEdges (Some (NeedsOne i)) = (if i = [] then [] else [succeeded_edge i])"
| "toNeedEdges (Some (NeedsMany items)) = map to_need_edge items"

definition edge_item :: "PipelineNeedEdge \<Rightarrow> need_item" where
  "edge_item e = NeedEdge (edge_id e) (Some (edge_on e)) (edge_if e)"

definition toPipelineNeeds :: "PipelineNeedEdge list \<Rightarrow> PipelineNeeds" where
  "toPipelineNeeds es =
     (case es of
        [e] \<Rightarrow> if edge_on e = [OnState NtSucceeded] \<and> edge_if e = None then NeedsOne (edge_id e)
               else NeedsMany [edge_item e]
      | _ \<Rightarrow> NeedsMany (map edge_item es))"

text \<open>The inner loop of \<open>invertRouteToPredecessorEdges\<close>, for one source.\<close>

fun invert_source ::
  "string \<Rightarrow> PipelineRouteEntry list \<Rightarrow> (string, PipelineNeedEdge list) jsmap
   \<Rightarrow> (string, PipelineNeedEdge list) jsmap" where
  "invert_source src [] inbound = inbound"
| "invert_source src (Loop _ # items) inbound = invert_source src items inbound"
| "invert_source src (Forward t on cond # items) inbound =
     invert_source src items
       (jset inbound t (jget_or inbound t [] @ [\<lparr>edge_id = src, edge_on = on_list on, edge_if = cond\<rparr>]))"

fun invert_sources ::
  "(string \<times> PipelineRouteEntry list option) list \<Rightarrow> (string, PipelineNeedEdge list) jsmap
   \<Rightarrow> (string, PipelineNeedEdge list) jsmap" where
  "invert_sources [] inbound = inbound"
| "invert_sources ((src, None) # rest) inbound = invert_sources rest inbound"
| "invert_sources ((src, Some route) # rest) inbound =
     invert_sources rest (invert_source src route inbound)"

definition invertRouteToPredecessorEdges ::
  "(string \<times> PipelineRouteEntry list option) list \<Rightarrow> (string, PipelineNeedEdge list) jsmap" where
  "invertRouteToPredecessorEdges sources = invert_sources sources []"

text \<open>The other direction: \<open>OutboundRouteInversion\<close> per stage id.\<close>

record OutboundRouteInversion =
  inv_route :: "PipelineRouteEntry list option"
  inv_entry :: bool

fun outbound_of_parents ::
  "string \<Rightarrow> PipelineNeedEdge list \<Rightarrow> (string, PipelineRouteEntry list) jsmap
   \<Rightarrow> (string, PipelineRouteEntry list) jsmap" where
  "outbound_of_parents stage [] outbound = outbound"
| "outbound_of_parents stage (p # ps) outbound =
     outbound_of_parents stage ps
       (jset outbound (edge_id p)
         (jget_or outbound (edge_id p) [] @ [Forward stage (Some (OnMany (edge_on p))) (edge_if p)]))"

fun outbound_of_stages ::
  "(string \<times> PipelineNeeds option) list
   \<Rightarrow> (string, OutboundRouteInversion) jsmap \<Rightarrow> (string, PipelineRouteEntry list) jsmap
   \<Rightarrow> (string, OutboundRouteInversion) jsmap \<times> (string, PipelineRouteEntry list) jsmap" where
  "outbound_of_stages [] result outbound = (result, outbound)"
| "outbound_of_stages ((i, None) # rest) result outbound =
     outbound_of_stages rest (jset result i \<lparr>inv_route = None, inv_entry = True\<rparr>) outbound"
| "outbound_of_stages ((i, Some n) # rest) result outbound =
     outbound_of_stages rest result (outbound_of_parents i (toNeedEdges (Some n)) outbound)"

definition merge_outbound ::
  "(string, OutboundRouteInversion) jsmap \<Rightarrow> string \<times> PipelineRouteEntry list
   \<Rightarrow> (string, OutboundRouteInversion) jsmap" where
  "merge_outbound result kv =
     jset result (fst kv)
       \<lparr>inv_route = Some (snd kv),
        inv_entry = (case jget result (fst kv) of Some r \<Rightarrow> inv_entry r | None \<Rightarrow> False)\<rparr>"

definition invertPredecessorEdgesToRoute ::
  "(string \<times> PipelineNeeds option) list \<Rightarrow> (string, OutboundRouteInversion) jsmap" where
  "invertPredecessorEdgesToRoute stages =
     (if \<not> list_ex (\<lambda>(i, n). n \<noteq> None) stages then []
      else let (result, outbound) = outbound_of_stages stages [] []
           in foldl merge_outbound result outbound)"

section \<open>The persisted edges\<close>

text \<open>
  \<open>JSON.stringify\<close> of a resolved edge: a function inside an array is written \<open>null\<close>, and
  \<open>Object.prototype\<close> itself as \<open>{}\<close>.
\<close>

fun on_json :: "on_value \<Rightarrow> jsval" where
  "on_json (OnState NtSucceeded) = JStr ''succeeded''"
| "on_json (OnState NtFailed) = JStr ''failed''"
| "on_json (OnState NtSkipped) = JStr ''skipped''"
| "on_json (OnInherited s) = (if s = ''__proto__'' then JObj [] else JNull)"

definition edge_json :: "PipelineNeedEdge \<Rightarrow> jsval" where
  "edge_json e =
     JObj ([(''id'', JStr (edge_id e)), (''on'', JArr (map on_json (edge_on e)))] @
           (case edge_if e of None \<Rightarrow> [] | Some p \<Rightarrow> [(''if'', routeIfJson p)]))"

fun needs_json :: "string option \<Rightarrow> jsval" where
  "needs_json None = JNull"
| "needs_json (Some s) = JStr s"

fun hydrate_on :: "jsval option \<Rightarrow> on_value list" where
  "hydrate_on (Some (JArr xs)) =
     List.map_filter (\<lambda>x. case x of JStr s \<Rightarrow> map_option OnState (need_terminal_of_string s) | _ \<Rightarrow> None) xs"
| "hydrate_on _ = [OnState NtSucceeded]"

fun hydrate_edge :: "jsval \<Rightarrow> PipelineNeedEdge option" where
  "hydrate_edge (JObj kvs) =
     (case nonempty_string (jget kvs ''id'') of
        None \<Rightarrow> None
      | Some i \<Rightarrow>
          Some \<lparr>edge_id = i,
                edge_on = (if hydrate_on (jget kvs ''on'') = [] then [OnState NtSucceeded]
                           else hydrate_on (jget kvs ''on'')),
                edge_if = (case jget kvs ''if'' of
                    None \<Rightarrow> None
                  | Some raw \<Rightarrow> (case parseRouteIf raw of Inr p \<Rightarrow> Some p | Inl _ \<Rightarrow> None))\<rparr>)"
| "hydrate_edge _ = None"

definition hydrateResolvedNeeds ::
  "jsval option \<Rightarrow> jsval option \<Rightarrow> string option \<times> PipelineNeedEdge list" where
  "hydrateResolvedNeeds raw_needs raw_edges =
     (case raw_edges of
        Some (JArr items) \<Rightarrow>
          (let edges = List.map_filter hydrate_edge items
           in case raw_needs of
                Some (JStr s) \<Rightarrow> (Some s, edges)
              | Some JNull \<Rightarrow> (None, edges)
              | _ \<Rightarrow> (case edges of [e] \<Rightarrow> (Some (edge_id e), edges) | _ \<Rightarrow> (None, edges)))
      | _ \<Rightarrow>
          (case nonempty_string raw_needs of
             Some s \<Rightarrow> (Some s, [succeeded_edge s])
           | None \<Rightarrow> (None, [])))"

section \<open>What an accepted route satisfies\<close>

fun wf_route_entry :: "PipelineRouteEntry \<Rightarrow> bool" where
  "wf_route_entry (Forward t on cond) \<longleftrightarrow>
     t \<noteq> [] \<and> on_list on \<noteq> [] \<and> distinct (on_list on) \<and>
     (case cond of None \<Rightarrow> True | Some p \<Rightarrow> on_list on = [OnState NtSucceeded] \<and> wf_route_if p)"
| "wf_route_entry (Loop l) \<longleftrightarrow> loop_to l \<noteq> [] \<and> 1 \<le> loop_max_replays l"

lemma canonical_on_distinct:
  "canonical_on items seen = Some on \<Longrightarrow> distinct on \<and> set on \<inter> set seen = {} \<and> length on = length items"
  by (induction items seen arbitrary: on rule: canonical_on.induct)
    (fastforce split: option.splits if_splits)+

lemma parseRouteOn_wf: "parseRouteOn raw t = Inr on \<Longrightarrow> on \<noteq> [] \<and> distinct on"
proof -
  assume a: "parseRouteOn raw t = Inr on"
  show ?thesis
  proof (cases raw)
    case None
    then show ?thesis using a by (auto simp: parseRouteOn_def)
  next
    case (Some v)
    then obtain x xs where "canonical_on (x # xs) [] = Some on"
      using a by (auto simp: parseRouteOn_def split: list.splits option.splits)
    then show ?thesis using canonical_on_distinct by fastforce
  qed
qed

lemma nonempty_string_SomeD: "nonempty_string v = Some s \<Longrightarrow> v = Some (JStr s) \<and> s \<noteq> []"
  by (cases v rule: nonempty_string.cases) (auto split: if_splits)

lemma positive_integer_SomeD: "positive_integer v = Some i \<Longrightarrow> 1 \<le> i"
  by (auto simp: positive_integer_def split: option.splits if_splits)

lemma parse_forward_entry_wf:
  "parse_forward_entry item seen = Inr r \<Longrightarrow> wf_route_entry r \<and> entry_to r \<notin> set seen"
  by (auto simp: parse_forward_entry_def parseRouteIf_def dest!: nonempty_string_SomeD parseRouteOn_wf parse_wf(1)
      split: option.splits sum.splits if_splits)

lemma parseRouteLoopEntry_wf: "parseRouteLoopEntry item = Inr l \<Longrightarrow> wf_route_entry (Loop l)"
  by (auto simp: parseRouteLoopEntry_def dest!: nonempty_string_SomeD positive_integer_SomeD
      split: option.splits if_splits)

lemma parse_route_item_wf:
  "parse_route_item item seen = Inr r \<Longrightarrow> wf_route_entry r \<and> entry_to r \<notin> set seen"
  by (auto simp: parse_route_item_def simp del: wf_route_entry.simps
      dest: parse_forward_entry_wf parseRouteLoopEntry_wf
      split: jsval.splits option.splits sum.splits if_splits)

lemma parse_route_items_wf:
  "parse_route_items items seen = Inr rs \<Longrightarrow>
   length rs = length items \<and> distinct (map entry_to rs) \<and>
   set (map entry_to rs) \<inter> set seen = {} \<and> (\<forall>r\<in>set rs. wf_route_entry r)"
proof (induction items seen arbitrary: rs rule: parse_route_items.induct)
  case (2 item items seen)
  from "2.prems" obtain r rest where r: "parse_route_item item seen = Inr r"
    and rest: "parse_route_items items (entry_to r # seen) = Inr rest" and rs: "rs = r # rest"
    by (auto split: sum.splits)
  show ?case
    using "2.IH" [OF r rest] parse_route_item_wf [OF r] rs by auto
qed simp

section \<open>Inversion keeps every edge\<close>

lemma set_invert_source:
  "set (jget_or (invert_source src items inbound) t []) =
     set (jget_or inbound t []) \<union>
     {\<lparr>edge_id = src, edge_on = on_list on, edge_if = c\<rparr> | on c. Forward t on c \<in> set items}"
  by (induction src items inbound rule: invert_source.induct) (auto split: if_splits)

lemma set_invert_sources:
  "set (jget_or (invert_sources sources inbound) t []) =
     set (jget_or inbound t []) \<union>
     {\<lparr>edge_id = src, edge_on = on_list on, edge_if = c\<rparr> | src on c route.
        (src, Some route) \<in> set sources \<and> Forward t on c \<in> set route}"
  by (induction sources inbound rule: invert_sources.induct) (auto simp: set_invert_source)

lemma mem_outbound_of_parents:
  "r \<in> set (jget_or (outbound_of_parents stage ps outbound) src []) \<longleftrightarrow>
     r \<in> set (jget_or outbound src []) \<or>
     (\<exists>p. p \<in> set ps \<and> edge_id p = src \<and> r = Forward stage (Some (OnMany (edge_on p))) (edge_if p))"
  by (induction stage ps outbound rule: outbound_of_parents.induct) (auto split: if_splits)

lemma mem_outbound_of_stages:
  "r \<in> set (jget_or (snd (outbound_of_stages stages result outbound)) src []) \<longleftrightarrow>
     r \<in> set (jget_or outbound src []) \<or>
     (\<exists>i n p. (i, Some n) \<in> set stages \<and> p \<in> set (toNeedEdges (Some n)) \<and> edge_id p = src \<and>
        r = Forward i (Some (OnMany (edge_on p))) (edge_if p))"
proof (induction stages result outbound rule: outbound_of_stages.induct)
  case (3 i n rest result outbound)
  note IH = "3.IH"
  let ?P = "\<lambda>i n p. p \<in> set (toNeedEdges (Some n)) \<and> edge_id p = src \<and>
        r = Forward i (Some (OnMany (edge_on p))) (edge_if p)"
  have "(\<exists>i' n' p. (i', Some n') \<in> set ((i, Some n) # rest) \<and> ?P i' n' p) \<longleftrightarrow>
     (\<exists>p. ?P i n p) \<or> (\<exists>i' n' p. (i', Some n') \<in> set rest \<and> ?P i' n' p)" 
    by (simp only: list.set insert_iff prod.inject option.inject ex_disj_distrib conj_disj_distribR
       ) metis
  then show ?case
    by (simp only: outbound_of_stages.simps IH mem_outbound_of_parents disj_assoc)
qed (simp_all del: toNeedEdges.simps)

lemma outbound_of_stages_routes:
  "(\<And>r. r \<in> snd ` set result \<Longrightarrow> inv_route r = None) \<Longrightarrow>
   r \<in> snd ` set (fst (outbound_of_stages stages result outbound)) \<Longrightarrow> inv_route r = None"
proof (induction stages result outbound arbitrary: r rule: outbound_of_stages.induct)
  case (2 i rest result outbound)
  have step: "inv_route x = None"
    if "x \<in> snd ` set (AList.update i \<lparr>inv_route = None, inv_entry = True\<rparr> result)" for x
    using jvals_jset [OF that]
  proof (elim disjE)
    assume "x \<in> snd ` set result"
    then show ?thesis by (rule "2.prems"(1))
  qed (simp only: OutboundRouteInversion.simps)
  show ?case
  proof (rule "2.IH")
    show "r \<in> snd ` set (fst (outbound_of_stages rest
        (AList.update i \<lparr>inv_route = None, inv_entry = True\<rparr> result) outbound))"
      using "2.prems"(2) by (simp only: outbound_of_stages.simps)
  qed (rule step)
next
  case (3 i n rest result outbound)
  show ?case
    by (rule "3.IH" [OF "3.prems"(1)]) (use "3.prems"(2) in \<open>simp_all only: outbound_of_stages.simps\<close>)
qed (simp only: outbound_of_stages.simps fst_conv)

lemma distinct_outbound_of_parents:
  "distinct (jkeys outbound) \<Longrightarrow> distinct (jkeys (outbound_of_parents stage ps outbound))"
  by (induction stage ps outbound rule: outbound_of_parents.induct) (auto simp: sf_wf)

lemma distinct_outbound_of_stages:
  "distinct (jkeys outbound) \<Longrightarrow> distinct (jkeys (snd (outbound_of_stages stages result outbound)))"
  by (induction stages result outbound rule: outbound_of_stages.induct)
    (auto simp: distinct_outbound_of_parents)

lemma inv_route_merge:
  "map_option inv_route (jget (foldl merge_outbound result outbound) k) =
     (case jget (rev outbound) k of Some r \<Rightarrow> Some (Some r)
      | None \<Rightarrow> map_option inv_route (jget result k))"
proof (induction outbound rule: rev_induct)
  case (snoc kv outbound)
  then show ?case by (cases kv) (auto simp: merge_outbound_def)
qed simp

lemma jget_rev: "distinct (jkeys m) \<Longrightarrow> jget (rev m) k = jget m k"
proof (induction m)
  case (Cons kv m)
  then have "jget m (fst kv) = None" by (simp add: map_of_eq_None_iff)
  then show ?case using Cons by (cases "jget m k") (auto simp: map_add_def)
qed simp

text \<open>The route table that \<open>invertPredecessorEdgesToRoute\<close> gives each declared stage.\<close>

definition inverted_sources ::
  "(string \<times> PipelineNeeds option) list \<Rightarrow> (string \<times> PipelineRouteEntry list option) list" where
  "inverted_sources stages =
     map (\<lambda>(i, n). (i, Option.bind (jget (invertPredecessorEdgesToRoute stages) i) inv_route)) stages"

definition parents_declared :: "(string \<times> PipelineNeeds option) list \<Rightarrow> bool" where
  "parents_declared stages \<longleftrightarrow>
     (\<forall>(i, n)\<in>set stages. \<forall>e\<in>set (toNeedEdges n). edge_id e \<in> fst ` set stages)"

lemma inverted_route:
  assumes "(i, Some n) \<in> set stages"
  shows "Option.bind (jget (invertPredecessorEdgesToRoute stages) k) inv_route =
     jget (snd (outbound_of_stages stages [] [])) k"
proof -
  let ?r = "fst (outbound_of_stages stages [] [])" and ?o = "snd (outbound_of_stages stages [] [])"
  have inv: "invertPredecessorEdgesToRoute stages = foldl merge_outbound ?r ?o"
    using assms by (auto simp: invertPredecessorEdgesToRoute_def list_ex_iff Let_def split: prod.splits)
  have none: "inv_route v = None" if "jget ?r k = Some v" for v
  proof (rule outbound_of_stages_routes)
    show "v \<in> snd ` set ?r" using map_of_SomeD [OF that] by (rule image_eqI [rotated]) simp
  qed simp
  have "map_option inv_route (jget (foldl merge_outbound ?r ?o) k) =
      (case jget ?o k of Some r \<Rightarrow> Some (Some r) | None \<Rightarrow> map_option inv_route (jget ?r k))"
    using inv_route_merge [of ?r ?o k] jget_rev [OF distinct_outbound_of_stages, of "[]" stages "[]" k]
    by simp
  then show ?thesis
    unfolding inv by (cases "jget (foldl merge_outbound ?r ?o) k"; cases "jget ?o k"; cases "jget ?r k")
      (auto dest: none)
qed

lemma inverted_sources_None:
  assumes "\<not> (\<exists>i n. (i, Some n) \<in> set stages)"
  shows "(src, Some r) \<notin> set (inverted_sources stages)"
proof -
  have "\<not> list_ex (\<lambda>(i, n). n \<noteq> None) stages" using assms by (auto simp: list_ex_iff)
  then show ?thesis by (auto simp: inverted_sources_def invertPredecessorEdgesToRoute_def)
qed

lemma inverted_edges_iff:
  assumes "distinct (map fst stages)" "parents_declared stages" "(t, n) \<in> set stages"
  shows "e \<in> set (jget_or (invertRouteToPredecessorEdges (inverted_sources stages)) t []) \<longleftrightarrow>
         e \<in> set (toNeedEdges n)"
proof (cases "\<exists>i n. (i, Some n) \<in> set stages")
  case True
  then obtain i m where im: "(i, Some m) \<in> set stages" by blast
  let ?o = "snd (outbound_of_stages stages [] [])"
  have src: "(s, Some r) \<in> set (inverted_sources stages) \<longleftrightarrow> s \<in> fst ` set stages \<and> jget ?o s = Some r" for s r
    unfolding inverted_sources_def inverted_route [OF im] by (force simp: image_iff)
  have got: "Forward t on c \<in> set (jget_or ?o s []) \<longleftrightarrow> (\<exists>r. jget ?o s = Some r \<and> Forward t on c \<in> set r)"
    for s on c by (cases "jget ?o s") simp_all
  have edge: "e \<in> set (jget_or (invertRouteToPredecessorEdges (inverted_sources stages)) t []) \<longleftrightarrow>
      (\<exists>s on c. s \<in> fst ` set stages \<and> Forward t on c \<in> set (jget_or ?o s []) \<and>
        e = \<lparr>edge_id = s, edge_on = on_list on, edge_if = c\<rparr>)"
    unfolding invertRouteToPredecessorEdges_def set_invert_sources src got
    unfolding jget_or_def map_of.simps option.case list.set(1) Un_empty_left mem_Collect_eq by blast
  have uniq: "n' = n" if "(t, n') \<in> set stages" for n'
    using assms(1,3) that by (metis eq_key_imp_eq_value)
  have out: "Forward t on c \<in> set (jget_or ?o s []) \<longleftrightarrow>
      (\<exists>p. p \<in> set (toNeedEdges n) \<and> edge_id p = s \<and> on = Some (OnMany (edge_on p)) \<and> c = edge_if p)"
    for s on c
    unfolding mem_outbound_of_stages using assms(3) by (cases n) (auto dest: uniq)
  have decl: "edge_id p \<in> fst ` set stages" if "p \<in> set (toNeedEdges n)" for p
    using assms(2,3) that by (auto simp: parents_declared_def)
  have eta: "\<lparr>edge_id = edge_id p, edge_on = edge_on p, edge_if = edge_if p\<rparr> = p" for p :: PipelineNeedEdge
    by simp
  show ?thesis
  proof
    assume "e \<in> set (toNeedEdges n)"
    then have "edge_id e \<in> fst ` set stages \<and> Forward t (Some (OnMany (edge_on e))) (edge_if e) \<in> set (jget_or ?o (edge_id e) [])"
      using decl out by blast
    then show "e \<in> set (jget_or (invertRouteToPredecessorEdges (inverted_sources stages)) t [])"
      unfolding edge using eta [of e] by (metis on_list.simps(2))
  qed (auto simp: edge out eta)
next
  case False
  then have "n = None" using assms(3) by (cases n) auto
  then show ?thesis
    using inverted_sources_None [OF False]
    by (simp add: invertRouteToPredecessorEdges_def set_invert_sources)
qed

section \<open>Persisted edges hydrate to themselves\<close>

fun on_state :: "on_value \<Rightarrow> bool" where
  "on_state (OnState _) = True"
| "on_state (OnInherited _) = False"

definition wf_need_edge :: "PipelineNeedEdge \<Rightarrow> bool" where
  "wf_need_edge e \<longleftrightarrow> edge_id e \<noteq> [] \<and> edge_on e \<noteq> [] \<and> list_all on_state (edge_on e) \<and>
     (case edge_if e of None \<Rightarrow> True | Some p \<Rightarrow> wf_route_if p)"

lemma map_filter_all_Some:
  "(\<And>x. x \<in> set xs \<Longrightarrow> f (g x) = Some x) \<Longrightarrow> List.map_filter f (map g xs) = xs"
  by (induction xs) (auto simp: List.map_filter_simps)

lemma hydrate_on_json:
  "list_all on_state on \<Longrightarrow> hydrate_on (Some (JArr (map on_json on))) = on"
proof -
  assume a: "list_all on_state on"
  have "List.map_filter (\<lambda>x. case x of JStr s \<Rightarrow> map_option OnState (need_terminal_of_string s) | _ \<Rightarrow> None)
      (map on_json on) = on"
  proof (rule map_filter_all_Some)
    fix v assume "v \<in> set on"
    with a have "on_state v" by (auto simp: list_all_iff)
    then obtain st where "v = OnState st" by (cases v) auto
    then show "(case on_json v of JStr s \<Rightarrow> map_option OnState (need_terminal_of_string s) | _ \<Rightarrow> None) = Some v"
      by (cases st) (auto simp: need_terminal_of_string_def)
  qed
  then show ?thesis by simp
qed

lemma hydrate_edge_json: "wf_need_edge e \<Longrightarrow> hydrate_edge (edge_json e) = Some e"
  by (cases "edge_if e")
    (auto simp: wf_need_edge_def edge_json_def hydrate_on_json parseRouteIf_def parse_routeIfJson
      simp del: hydrate_on.simps)

lemma hydrate_edges_json:
  "list_all wf_need_edge es \<Longrightarrow> List.map_filter hydrate_edge (map edge_json es) = es"
  by (rule map_filter_all_Some) (auto simp: list_all_iff hydrate_edge_json)

lemma prototype_members_no_state:
  "''succeeded'' \<notin> set object_prototype_members" "''failed'' \<notin> set object_prototype_members"
  "''skipped'' \<notin> set object_prototype_members" "''success'' \<notin> set object_prototype_members"
  "''failure'' \<notin> set object_prototype_members"
  by (simp_all add: object_prototype_members_def)

lemma inherited_not_terminal:
  assumes "name \<in> set object_prototype_members"
  shows "need_terminal_of_string name = None \<and> need_terminal_alias name = Some (OnInherited name)"
proof -
  have "name \<noteq> ''succeeded''" "name \<noteq> ''failed''" "name \<noteq> ''skipped''" "name \<noteq> ''success''"
    "name \<noteq> ''failure''"
    using assms prototype_members_no_state by blast+
  with assms show ?thesis by (simp add: need_terminal_of_string_def need_terminal_alias_def)
qed

section \<open>Properties\<close>

text \<open>
  Whatever \<open>parsePipelineRoute\<close> accepts is a non-empty list of entries with pairwise
  different targets, one per item of the document, each well formed: a target, a non-empty
  \<open>on\<close> list without repetitions, an \<open>if\<close> only on a succeeded-only edge and itself well formed,
  a replay bound of at least one on a loop.
\<close>

theorem parsePipelineRoute_wf:
  "parsePipelineRoute raw = Inr rs \<Longrightarrow>
     (\<exists>items. raw = JArr items \<and> length rs = length items) \<and> rs \<noteq> [] \<and>
     distinct (map entry_to rs) \<and> list_all wf_route_entry rs"
  by (cases raw rule: parsePipelineRoute.cases)
    (auto simp: list_all_iff simp del: parse_route_items.simps dest: parse_route_items_wf)

definition sample_route :: jsval where
  "sample_route =
     JArr [JObj [(''to'', JStr ''build''), (''on'', JArr [JStr ''success'', JStr ''failed''])],
           JObj [(''type'', JStr ''loop''), (''to'', JStr ''plan''), (''max_replays'', JNum (Fin 2)),
                 (''on_max_replays'', JStr ''wait_for_human''), (''replay_session'', JStr ''resume'')]]"

lemma sample_route_parses:
  "parsePipelineRoute sample_route =
     Inr [Forward ''build'' (Some (OnMany [OnState NtSucceeded, OnState NtFailed])) None,
          Loop \<lparr>loop_to = ''plan'', loop_max_replays = 2, loop_on_max_replays = WaitForHuman,
                loop_replay_session = Resume\<rparr>]"
  by (simp add: sample_route_def parse_route_item_def parse_forward_entry_def parseRouteOn_def
      parseRouteLoopEntry_def unknown_key_def need_terminal_of_string_def need_terminal_alias_def
      positive_integer_def)

theorem parsePipelineRoute_wf_witness:
  "list_all wf_route_entry
     [Forward ''build'' (Some (OnMany [OnState NtSucceeded, OnState NtFailed])) None,
      Loop \<lparr>loop_to = ''plan'', loop_max_replays = 2, loop_on_max_replays = WaitForHuman,
            loop_replay_session = Resume\<rparr>]"
  using parsePipelineRoute_wf [OF sample_route_parses] by blast

text \<open>
  the outbound routes obtained from authored \<open>needs\<close> mean the same DAG: inverting the
  predecessor edges into routes and the routes back into predecessor edges gives every declared
  stage exactly its own edges, with their \<open>on\<close> lists and conditions, when the stage ids are
  distinct and every parent is a declared stage.
\<close>

theorem invert_needs_route_needs:
  "distinct (map fst stages) \<Longrightarrow> parents_declared stages \<Longrightarrow> (t, n) \<in> set stages \<Longrightarrow>
   set (jget_or (invertRouteToPredecessorEdges (inverted_sources stages)) t []) = set (toNeedEdges n)"
  using inverted_edges_iff by blast

definition sample_needs :: "(string \<times> PipelineNeeds option) list" where
  "sample_needs =
     [(''a'', None), (''b'', Some (NeedsOne ''a'')),
      (''c'', Some (NeedsMany [NeedId ''a'', NeedEdge ''b'' (Some [OnState NtFailed]) None]))]"

theorem invert_needs_route_needs_witness:
  "set (jget_or (invertRouteToPredecessorEdges (inverted_sources sample_needs)) ''c'' []) =
     {succeeded_edge ''a'', \<lparr>edge_id = ''b'', edge_on = [OnState NtFailed], edge_if = None\<rparr>}"
  using invert_needs_route_needs [of sample_needs "''c''" "Some (NeedsMany [NeedId ''a'', NeedEdge ''b'' (Some [OnState NtFailed]) None])"]
  by (simp add: sample_needs_def parents_declared_def succeeded_edge_def)

text \<open>
  Resolved edges survive the run store: \<open>hydrateResolvedNeeds\<close> applied to the persisted
  form of a node's \<open>needs\<close> and \<open>needsEdges\<close> gives them back unchanged, for every well-formed
  edge list.
\<close>

theorem hydrateResolvedNeeds_roundtrip:
  "list_all wf_need_edge es \<Longrightarrow>
   hydrateResolvedNeeds (Some (needs_json nd)) (Some (JArr (map edge_json es))) = (nd, es)"
  by (cases nd) (simp_all add: hydrateResolvedNeeds_def hydrate_edges_json)

theorem hydrateResolvedNeeds_roundtrip_witness:
  "hydrateResolvedNeeds (Some (needs_json (Some ''a'')))
     (Some (JArr (map edge_json [\<lparr>edge_id = ''a'', edge_on = [OnState NtSucceeded],
                                  edge_if = Some (RLeaf ''x'' OpEq (JBool True))\<rparr>])))
   = (Some ''a'', [\<lparr>edge_id = ''a'', edge_on = [OnState NtSucceeded],
                    edge_if = Some (RLeaf ''x'' OpEq (JBool True))\<rparr>])"
  by (rule hydrateResolvedNeeds_roundtrip) (simp add: wf_need_edge_def membership_op_def)

text \<open>
  an \<open>on\<close> list accepts the name of an inherited member of \<open>Object.prototype\<close>: the alias
  table is an object literal and is read with a property access.  Such a route is accepted, its
  edge fires on no terminal state, and after a round trip through the run store the same edge has
  become a succeeded-only edge.
\<close>

theorem inherited_name_accepted_as_terminal_state:
  "name \<in> set object_prototype_members \<Longrightarrow>
   parsePipelineRoute (JArr [JObj [(''to'', JStr ''b''), (''on'', JArr [JStr name])]])
     = Inr [Forward ''b'' (Some (OnMany [OnInherited name])) None] \<and>
   \<not> on_includes \<lparr>edge_id = ''a'', edge_on = [OnInherited name], edge_if = None\<rparr> st \<and>
   hydrate_edge (edge_json \<lparr>edge_id = ''a'', edge_on = [OnInherited name], edge_if = None\<rparr>)
     = Some (succeeded_edge ''a'')"
  using inherited_not_terminal [of name]
  by (simp add: parse_route_item_def parse_forward_entry_def parseRouteOn_def unknown_key_def
      on_includes_def edge_json_def List.map_filter_simps succeeded_edge_def)

theorem inherited_name_accepted_as_terminal_state_witness:
  "parsePipelineRoute (JArr [JObj [(''to'', JStr ''b''), (''on'', JArr [JStr ''toString''])]])
     = Inr [Forward ''b'' (Some (OnMany [OnInherited ''toString''])) None]"
  using inherited_name_accepted_as_terminal_state [of "''toString''" undefined]
  by (simp add: object_prototype_members_def)

end
