(* ===== verification/Kahn.thy ===== *)
theory Kahn
  imports Prelude
begin

text \<open>
  The worklist loop shared by \<open>detectCycle\<close> and \<open>topologicalSort\<close> of
  \<open>config/resolvePipelineDag.ts\<close>, over indegrees that the loop decrements, with its
  termination; and the interface \<open>kahn_tables\<close>: what the loop needs of the tables it starts from,
  and what it then computes.
\<close>

section \<open>The loop\<close>

text \<open>The \<open>for\<close> over the children of the current stage.\<close>

fun relax :: "'a list \<Rightarrow> ('a, int) jsmap \<Rightarrow> 'a list \<Rightarrow> ('a, int) jsmap \<times> 'a list" where
  "relax [] indegree queue = (indegree, queue)"
| "relax (c # cs) indegree queue =
     (let nextDegree = jget_or indegree c 0 - 1
      in relax cs (jset indegree c nextDegree) (if nextDegree = 0 then queue @ [c] else queue))"

text \<open>The \<open>while\<close>: the stages in the order they leave the queue.\<close>

definition positive_keys :: "('a, int) jsmap \<Rightarrow> 'a set" where
  "positive_keys m = {k. 0 < jget_or m k 0}"

lemma finite_positive_keys [simp]: "finite (positive_keys m)"
proof (rule finite_subset)
  show "positive_keys m \<subseteq> set (jkeys m)"
    by (auto simp: positive_keys_def jget_or_def split: option.splits dest: jget_SomeD)
qed simp

lemma positive_keys_dec:
  "jget_or m c 0 - 1 = d \<Longrightarrow> positive_keys (AList.update c d m) =
     (if jget_or m c 0 = 1 then positive_keys m - {c} else positive_keys m)"
  by (auto simp: positive_keys_def)

lemma relax_measure:
  "relax cs ind q = (ind', q') \<Longrightarrow>
   card (positive_keys ind') + length q' \<le> card (positive_keys ind) + length q"
proof (induction cs ind q rule: relax.induct)
  case (2 c cs ind q)
  let ?d = "jget_or ind c 0 - 1"
  let ?ind = "AList.update c ?d ind" and ?q = "if ?d = 0 then q @ [c] else q"
  have "card (positive_keys ind') + length q' \<le> card (positive_keys ?ind) + length ?q"
    using 2 by (simp add: Let_def)
  also have "\<dots> \<le> card (positive_keys ind) + length q"
  proof (cases "jget_or ind c 0 = 1")
    case True
    then have "c \<in> positive_keys ind" by (simp add: positive_keys_def)
    then have "card (positive_keys ind) = Suc (card (positive_keys ind - {c}))"
      by (metis card_Suc_Diff1 finite_positive_keys)
    with True show ?thesis using positive_keys_dec [of ind c 0] by simp
  qed (simp add: positive_keys_dec [OF refl])
  finally show ?case .
qed simp

function kahn :: "('a, 'a list) jsmap \<Rightarrow> ('a, int) jsmap \<Rightarrow> 'a list \<Rightarrow> 'a list" where
  "kahn children indegree [] = []"
| "kahn children indegree (current # queue) =
     current # (case relax (jget_or children current []) indegree queue of
                  (indegree', queue') \<Rightarrow> kahn children indegree' queue')"
  by pat_completeness auto
termination
proof (relation "measure (\<lambda>(_, ind, q). card (positive_keys ind) + length q)", goal_cases)
  case (2 children ind c q ind' q')
  from relax_measure [OF 2 [symmetric]] 2 show ?case by (simp add: 2 [symmetric])
qed simp

section \<open>What one relaxation does\<close>

lemma relax_spec:
  "relax cs ind q = (ind', q') \<Longrightarrow>
   (\<forall>c. jget_or ind' c 0 = jget_or ind c 0 - int (count_list cs c)) \<and>
   (\<exists>news. q' = q @ news \<and> distinct news \<and>
      (\<forall>c. c \<in> set news \<longleftrightarrow> 0 < jget_or ind c 0 \<and> jget_or ind c 0 \<le> int (count_list cs c)))"
proof (induction cs ind q rule: relax.induct)
  case (1 ind q)
  then show ?case by (auto intro!: exI [of _ "[]"])
next
  case (2 c cs ind q)
  let ?d = "jget_or ind c 0 - 1"
  let ?ind = "AList.update c ?d ind" and ?q = "if ?d = 0 then q @ [c] else q"
  have r: "relax cs ?ind ?q = (ind', q')" using 2(2) by (simp add: Let_def)
  from 2(1) [OF refl r] obtain news where
    deg: "\<forall>y. jget_or ind' y 0 = jget_or ?ind y 0 - int (count_list cs y)" and
    news: "q' = ?q @ news" "distinct news"
      "\<forall>y. y \<in> set news \<longleftrightarrow> 0 < jget_or ?ind y 0 \<and> jget_or ?ind y 0 \<le> int (count_list cs y)"
    by blast
  let ?news = "if ?d = 0 then c # news else news"
  have mem: "y \<in> set ?news \<longleftrightarrow> 0 < jget_or ind y 0 \<and> jget_or ind y 0 \<le> int (count_list (c # cs) y)" for y
    using news(3) [rule_format, of y] by (cases "y = c") auto
  have dist: "distinct ?news" using news(2,3) by auto
  have q: "q' = q @ ?news" using news(1) by auto
  have "\<forall>y. jget_or ind' y 0 = jget_or ind y 0 - int (count_list (c # cs) y)"
    using deg by auto
  with mem dist q show ?case by blast
qed

section \<open>The interface\<close>

text \<open>
  The tables are those of a finite graph given by the parents of each stage: the children lists
  hold a stage once per parent edge, the indegree is the number of parent edges, and the queue
  starts with the stages that have none.  The laws are for the representations \<open>g\<close> that satisfy
  the provider's well-formedness.
\<close>

locale kahn_tables =
  fixes wf_graph :: "'g \<Rightarrow> bool"
    and ids :: "'g \<Rightarrow> 'a list"
    and parents :: "'g \<Rightarrow> 'a \<Rightarrow> 'a list"
    and children :: "'g \<Rightarrow> ('a, 'a list) jsmap"
    and indegree :: "'g \<Rightarrow> ('a, int) jsmap"
    and start :: "'g \<Rightarrow> 'a list"
  assumes distinct_ids: "wf_graph g \<Longrightarrow> distinct (ids g)"
    and parents_ids: "wf_graph g \<Longrightarrow> c \<in> set (ids g) \<Longrightarrow> set (parents g c) \<subseteq> set (ids g)"
    and children_count:
      "wf_graph g \<Longrightarrow> x \<in> set (ids g) \<Longrightarrow>
       count_list (jget_or (children g) x []) c =
         (if c \<in> set (ids g) then count_list (parents g c) x else 0)"
    and indegree_parents:
      "wf_graph g \<Longrightarrow> c \<in> set (ids g) \<Longrightarrow> jget_or (indegree g) c 0 = int (length (parents g c))"
    and indegree_outside: "wf_graph g \<Longrightarrow> c \<notin> set (ids g) \<Longrightarrow> jget_or (indegree g) c 0 = 0"
    and start_roots:
      "wf_graph g \<Longrightarrow> distinct (start g) \<and> set (start g) = {c \<in> set (ids g). parents g c = []}"
begin

definition edges :: "'g \<Rightarrow> ('a \<times> 'a) set" where
  "edges g = {(p, c). c \<in> set (ids g) \<and> p \<in> set (parents g c)}"

definition order :: "'g \<Rightarrow> 'a list" where
  "order g = kahn (children g) (indegree g) (start g)"

definition inv :: "'g \<Rightarrow> 'a list \<Rightarrow> ('a, int) jsmap \<Rightarrow> 'a list \<Rightarrow> bool" where
  "inv g D ind q \<longleftrightarrow>
     distinct (D @ q) \<and> set (D @ q) \<subseteq> set (ids g) \<and>
     (\<forall>c\<in>set (ids g). jget_or ind c 0 = int (length [p \<leftarrow> parents g c. p \<notin> set D])) \<and>
     (\<forall>c. c \<notin> set (ids g) \<longrightarrow> jget_or ind c 0 \<le> 0) \<and>
     (\<forall>c\<in>set (ids g). c \<in> set (D @ q) \<longleftrightarrow> set (parents g c) \<subseteq> set D) \<and>
     (\<forall>xs c ys. D = xs @ c # ys \<longrightarrow> set (parents g c) \<subseteq> set xs)"

lemma inv_start: "wf_graph g \<Longrightarrow> inv g [] (indegree g) (start g)"
  using start_roots [of g] indegree_parents [of g] indegree_outside [of g] by (auto simp: inv_def)

lemma degree_step:
  "x \<notin> set D \<Longrightarrow>
   int (length [p \<leftarrow> ps. p \<notin> set D]) - int (count_list ps x) = int (length [p \<leftarrow> ps. p \<notin> set (D @ [x])])"
  by (induction ps) auto

lemma degree_zero_iff: "length [p \<leftarrow> ps. p \<notin> set D] = 0 \<longleftrightarrow> set ps \<subseteq> set D"
  by (auto simp: filter_empty_conv)

lemma inv_step:
  assumes wf: "wf_graph g" and "inv g D ind (x # q)" and r: "relax (jget_or (children g) x []) ind q = (ind', q')"
  shows "inv g (D @ [x]) ind' q'"
proof -
  have d: "distinct (D @ x # q)" "set (D @ x # q) \<subseteq> set (ids g)"
    and deg: "\<And>c. c \<in> set (ids g) \<Longrightarrow> jget_or ind c 0 = int (length [p \<leftarrow> parents g c. p \<notin> set D])"
    and deg0: "\<And>c. c \<notin> set (ids g) \<Longrightarrow> jget_or ind c 0 \<le> 0"
    and mem: "\<And>c. c \<in> set (ids g) \<Longrightarrow> c \<in> set (D @ x # q) \<longleftrightarrow> set (parents g c) \<subseteq> set D"
    and prec: "\<And>xs c ys. D = xs @ c # ys \<Longrightarrow> set (parents g c) \<subseteq> set xs"
    using assms(2) unfolding inv_def by blast+
  have x: "x \<in> set (ids g)" "x \<notin> set D" "set (parents g x) \<subseteq> set D" using d mem by auto
  from relax_spec [OF r] obtain news where
    ind': "\<And>c. jget_or ind' c 0 = jget_or ind c 0 - int (count_list (jget_or (children g) x []) c)"
    and q': "q' = q @ news" "distinct news"
    and news: "\<And>c. c \<in> set news \<longleftrightarrow>
       0 < jget_or ind c 0 \<and> jget_or ind c 0 \<le> int (count_list (jget_or (children g) x []) c)"
    by blast
  have cnt: "c \<in> set (ids g) \<Longrightarrow> count_list (jget_or (children g) x []) c = count_list (parents g c) x" for c
    using children_count [OF wf x(1), of c] by simp
  have deg': "jget_or ind' c 0 = int (length [p \<leftarrow> parents g c. p \<notin> set (D @ [x])])" if "c \<in> set (ids g)" for c
    using degree_step [OF x(2), of "parents g c"] deg [OF that] ind' [of c] cnt [OF that] by simp
  have news_ids: "set news \<subseteq> set (ids g)" using news deg0 by (meson not_le subsetI)
  have news_iff: "c \<in> set news \<longleftrightarrow> \<not> set (parents g c) \<subseteq> set D \<and> set (parents g c) \<subseteq> set (D @ [x])"
    if c: "c \<in> set (ids g)" for c
  proof -
    have "c \<in> set news \<longleftrightarrow> 0 < jget_or ind c 0 \<and> jget_or ind' c 0 \<le> 0"
      using news ind' by simp
    also have "\<dots> \<longleftrightarrow> length [p \<leftarrow> parents g c. p \<notin> set D] \<noteq> 0 \<and>
        length [p \<leftarrow> parents g c. p \<notin> set (D @ [x])] = 0"
      using deg [OF c] deg' [OF c] by simp
    finally show ?thesis by (simp only: degree_zero_iff)
  qed
  have old: "c \<in> set (D @ x # q) \<Longrightarrow> c \<notin> set news" for c
    using news_iff mem d(2) by blast
  have 1: "distinct ((D @ [x]) @ q')" using d(1) q' old by auto
  have 2: "set ((D @ [x]) @ q') \<subseteq> set (ids g)" using d(2) q'(1) news_ids by auto
  have 3: "c \<in> set ((D @ [x]) @ q') \<longleftrightarrow> set (parents g c) \<subseteq> set (D @ [x])" if c: "c \<in> set (ids g)" for c
  proof -
    have "c \<in> set ((D @ [x]) @ q') \<longleftrightarrow> c \<in> set (D @ x # q) \<or> c \<in> set news" using q'(1) by auto
    also have "\<dots> \<longleftrightarrow> set (parents g c) \<subseteq> set (D @ [x])"
      using mem [OF c] news_iff [OF c] by auto
    finally show ?thesis .
  qed
  have 4: "set (parents g c) \<subseteq> set xs" if "D @ [x] = xs @ c # ys" for xs c ys
    using that prec x(3) by (cases ys rule: rev_cases) auto
  have 5: "jget_or ind' c 0 \<le> 0" if "c \<notin> set (ids g)" for c
    using deg0 [OF that] ind' [of c] by simp
  show ?thesis unfolding inv_def using 1 2 3 4 5 deg' by blast
qed

lemma inv_kahn: "wf_graph g \<Longrightarrow> ch = children g \<Longrightarrow> inv g D ind q \<Longrightarrow> \<exists>ind'. inv g (D @ kahn ch ind q) ind' []"
proof (induction ch ind q arbitrary: D rule: kahn.induct)
  case (2 ch ind x q)
  obtain ind' q' where r: "relax (jget_or (children g) x []) ind q = (ind', q')" by fastforce
  have "inv g (D @ [x]) ind' q'" using inv_step [OF "2.prems"(1,3) r] .
  with 2 r show ?case by force
qed auto

lemma order_inv:
  assumes wf: "wf_graph g"
  shows "distinct (order g)" "set (order g) \<subseteq> set (ids g)"
  "c \<in> set (ids g) \<Longrightarrow> c \<in> set (order g) \<longleftrightarrow> set (parents g c) \<subseteq> set (order g)"
  "order g = xs @ c # ys \<Longrightarrow> set (parents g c) \<subseteq> set xs"
proof -
  obtain ind' where "inv g (order g) ind' []" using inv_kahn [OF wf refl inv_start [OF wf]] unfolding order_def by auto
  then have I: "distinct (order g @ [])" "set (order g @ []) \<subseteq> set (ids g)"
    "\<forall>c\<in>set (ids g). c \<in> set (order g @ []) \<longleftrightarrow> set (parents g c) \<subseteq> set (order g)"
    "\<forall>xs c ys. order g = xs @ c # ys \<longrightarrow> set (parents g c) \<subseteq> set xs"
    unfolding inv_def by blast+
  show "distinct (order g)" "set (order g) \<subseteq> set (ids g)" using I(1,2) by simp_all
  show "c \<in> set (ids g) \<Longrightarrow> c \<in> set (order g) \<longleftrightarrow> set (parents g c) \<subseteq> set (order g)" using I(3) by simp
  show "order g = xs @ c # ys \<Longrightarrow> set (parents g c) \<subseteq> set xs" using I(4) by blast
qed

lemma finite_edges: "wf_graph g \<Longrightarrow> finite (edges g)"
proof (rule finite_subset)
  assume wf: "wf_graph g"
  show "edges g \<subseteq> set (ids g) \<times> set (ids g)" using parents_ids [OF wf] by (auto simp: edges_def)
qed simp

lemma order_all_iff: "wf_graph g \<Longrightarrow> length (order g) = length (ids g) \<longleftrightarrow> set (order g) = set (ids g)"
  by (metis card_subset_eq distinct_card distinct_ids order_inv(1,2) List.finite_set)

lemma order_precedes:
  assumes "wf_graph g" "(p, c) \<in> edges g" "order g = xs @ c # ys" shows "p \<in> set xs"
  using assms(2) order_inv(4) [OF assms(1,3)] by (auto simp: edges_def)

lemma all_ordered_acyclic: "wf_graph g \<Longrightarrow> set (order g) = set (ids g) \<Longrightarrow> acyclic (edges g)"
proof (rule acyclicI_order [where f = "\<lambda>c. - int (length (takeWhile (\<lambda>y. y \<noteq> c) (order g)))"])
  fix p c assume wf: "wf_graph g" and all: "set (order g) = set (ids g)" and e: "(p, c) \<in> edges g"
  then have "c \<in> set (order g)" by (auto simp: edges_def)
  then obtain xs ys where split: "order g = xs @ c # ys" and c: "c \<notin> set xs"
    by (meson split_list_first)
  from order_precedes [OF wf e split] obtain us vs where p: "xs = us @ p # vs" "p \<notin> set us"
    by (meson split_list_first)
  have "takeWhile (\<lambda>y. y \<noteq> c) (order g) = xs" using split c by (auto simp: takeWhile_append)
  moreover have "takeWhile (\<lambda>y. y \<noteq> p) (order g) = us" using split p by (auto simp: takeWhile_append)
  ultimately show "- int (length (takeWhile (\<lambda>y. y \<noteq> c) (order g))) < - int (length (takeWhile (\<lambda>y. y \<noteq> p) (order g)))"
    using p by simp
qed

lemma acyclic_all_ordered: "wf_graph g \<Longrightarrow> acyclic (edges g) \<Longrightarrow> set (order g) = set (ids g)"
proof (rule ccontr)
  assume wfg: "wf_graph g" and ac: "acyclic (edges g)" and ne: "set (order g) \<noteq> set (ids g)"
  then have wf: "wf (edges g)" using finite_acyclic_wf finite_edges [OF wfg] by blast
  from ne order_inv(2) [OF wfg] obtain d where "d \<in> set (ids g) - set (order g)" by blast
  from wfE_min [OF wf this] obtain c where c: "c \<in> set (ids g) - set (order g)"
    and min: "\<And>y. (y, c) \<in> edges g \<Longrightarrow> y \<notin> set (ids g) - set (order g)" by blast
  have "set (parents g c) \<subseteq> set (order g)"
    using c min parents_ids [OF wfg] by (auto simp: edges_def)
  with c order_inv(3) [OF wfg] show False by blast
qed

theorem complete_iff_acyclic: "wf_graph g \<Longrightarrow> length (order g) = length (ids g) \<longleftrightarrow> acyclic (edges g)"
  using order_all_iff all_ordered_acyclic acyclic_all_ordered by blast

end

end
