(* ===== verification/Dag_Resolve.thy ===== *)
theory Dag_Resolve
  imports Pipeline_Route Kahn
begin

text \<open>
  \<open>config/resolvePipelineDag.ts\<close>: from the wiring refs of a pipeline file to the resolved DAG.
  Routes are inverted into predecessor edges, a cycle is rejected, ancestors and a topological
  order are computed, and the feedback loops are checked against the ancestors.
\<close>

section \<open>Wiring refs and normalized edges\<close>

record PipelineStageRef =
  ref_id :: string
  ref_route :: "PipelineRouteEntry list option"
  ref_entry :: "bool option"
  ref_completion :: "jsval option"
  ref_recovery :: "RecoveryPolicy option"
  ref_replay_safe :: "bool option"

record NormalizedEdge =
  ne_id :: string
  ne_needs :: "string option"
  ne_needsEdges :: "PipelineNeedEdge list"
  ne_routeEdges :: "PipelineRouteEdge list"
  ne_routeLoopEntries :: "PipelineRouteLoopEntry list"
  ne_entry :: "bool option"
  ne_stageIndex :: nat
  ne_completion :: "jsval option"
  ne_recovery :: "RecoveryPolicy option"
  ne_replay_safe :: "bool option"

datatype dag_error =
    DuplicateStage string
  | UnknownRouteTarget string string
  | TooManyLoops string nat
  | NoEntryStage
  | UnreachableStage string
  | DependencyCycle
  | AncestorsDiverge
  | LoopTargetUndeclared string string
  | LoopTargetNotAncestor string string
  | LoopReplaysUnsafe string string string

text \<open>\<open>needsEdges.length === 1 ? needsEdges[0].id : null\<close>.\<close>

fun sole_need :: "PipelineNeedEdge list \<Rightarrow> string option" where
  "sole_need [e] = Some (edge_id e)"
| "sole_need _ = None"

definition normalize_entry :: "nat \<Rightarrow> PipelineStageRef \<Rightarrow> NormalizedEdge" where
  "normalize_entry index entry =
     \<lparr>ne_id = ref_id entry, ne_needs = sole_need [], ne_needsEdges = [],
      ne_routeEdges = toRouteEdges (ref_route entry),
      ne_routeLoopEntries = toRouteLoopEntries (ref_route entry),
      ne_entry = ref_entry entry, ne_stageIndex = index, ne_completion = ref_completion entry,
      ne_recovery = ref_recovery entry, ne_replay_safe = ref_replay_safe entry\<rparr>"

definition normalizeToEdges :: "PipelineStageRef list \<Rightarrow> NormalizedEdge list" where
  "normalizeToEdges entries = map (\<lambda>(i, r). normalize_entry i r) (enumerate 0 entries)"

section \<open>The validations before inversion\<close>

fun duplicate_loop :: "NormalizedEdge list \<Rightarrow> string list \<Rightarrow> dag_error option" where
  "duplicate_loop [] seen = None"
| "duplicate_loop (e # es) seen =
     (if ne_id e \<in> set seen then Some (DuplicateStage (ne_id e)) else duplicate_loop es (ne_id e # seen))"

definition detectDuplicateIds :: "NormalizedEdge list \<Rightarrow> dag_error option" where
  "detectDuplicateIds edges = duplicate_loop edges []"

definition route_pairs :: "NormalizedEdge list \<Rightarrow> (NormalizedEdge \<times> PipelineRouteEdge) list" where
  "route_pairs edges = concat (map (\<lambda>e. map (Pair e) (ne_routeEdges e)) edges)"

definition validateRouteTargets :: "NormalizedEdge list \<Rightarrow> dag_error option" where
  "validateRouteTargets edges =
     (case List.find (\<lambda>(e, r). route_to r \<notin> set (map ne_id edges)) (route_pairs edges) of
        None \<Rightarrow> None
      | Some (e, r) \<Rightarrow> Some (UnknownRouteTarget (ne_id e) (route_to r)))"

definition validateRouteLoopEntryCount :: "NormalizedEdge list \<Rightarrow> dag_error option" where
  "validateRouteLoopEntryCount edges =
     map_option (\<lambda>e. TooManyLoops (ne_id e) (length (ne_routeLoopEntries e)))
       (List.find (\<lambda>e. length (ne_routeLoopEntries e) > 1) edges)"

definition is_entry_edge :: "NormalizedEdge \<Rightarrow> bool" where
  "is_entry_edge e = (ne_entry e = Some True)"

definition validateEntryStageUsage :: "NormalizedEdge list \<Rightarrow> dag_error option" where
  "validateEntryStageUsage edges =
     (if \<not> list_ex (\<lambda>e. is_entry_edge e \<or> ne_routeEdges e \<noteq> []) edges then None
      else if \<not> list_ex is_entry_edge edges then Some NoEntryStage
      else let targeted = map (\<lambda>(e, r). route_to r) (route_pairs edges)
           in map_option (\<lambda>e. UnreachableStage (ne_id e))
                (List.find (\<lambda>e. \<not> is_entry_edge e \<and> ne_id e \<notin> set targeted) edges))"

section \<open>Inversion into predecessor edges\<close>

definition route_entry :: "PipelineRouteEdge \<Rightarrow> PipelineRouteEntry" where
  "route_entry r = Forward (route_to r) (Some (OnMany (route_on r))) (route_if r)"

definition add_needs :: "PipelineNeedEdge list \<Rightarrow> NormalizedEdge \<Rightarrow> NormalizedEdge" where
  "add_needs incoming e =
     e\<lparr>ne_needsEdges := ne_needsEdges e @ incoming, ne_needs := sole_need (ne_needsEdges e @ incoming)\<rparr>"

text \<open>The objects of \<open>byId\<close> are updated in place; the ids are distinct at this point.\<close>

definition merge_incoming :: "NormalizedEdge list \<Rightarrow> string \<times> PipelineNeedEdge list \<Rightarrow> NormalizedEdge list" where
  "merge_incoming edges ti =
     (if snd ti = [] then edges
      else map (\<lambda>e. if ne_id e = fst ti then add_needs (snd ti) e else e) edges)"

definition mergeRouteEdgesIntoNeeds :: "NormalizedEdge list \<Rightarrow> NormalizedEdge list" where
  "mergeRouteEdgesIntoNeeds edges =
     foldl merge_incoming edges
       (invertRouteToPredecessorEdges
         (map (\<lambda>e. (ne_id e, Some (map route_entry (ne_routeEdges e)))) edges))"

section \<open>Cycle detection and the topological order\<close>

definition push_child :: "(string, string list) jsmap \<Rightarrow> string \<Rightarrow> string \<Rightarrow> (string, string list) jsmap" where
  "push_child ch p i = (case jget ch p of None \<Rightarrow> ch | Some cs \<Rightarrow> jset ch p (cs @ [i]))"

type_synonym graph_tables = "(string, int) jsmap \<times> (string, string list) jsmap"

fun add_parents :: "string \<Rightarrow> PipelineNeedEdge list \<Rightarrow> graph_tables \<Rightarrow> graph_tables" where
  "add_parents i [] t = t"
| "add_parents i (p # ps) (indegree, ch) =
     add_parents i ps (jset indegree i (jget_or indegree i 0 + 1), push_child ch (edge_id p) i)"

definition indegree_init :: "NormalizedEdge list \<Rightarrow> (string, int) jsmap" where
  "indegree_init edges = foldl (\<lambda>m e. jset m (ne_id e) 0) [] edges"

definition children_init :: "NormalizedEdge list \<Rightarrow> (string, string list) jsmap" where
  "children_init edges = foldl (\<lambda>m e. jset m (ne_id e) []) [] edges"

definition build_tables :: "NormalizedEdge list \<Rightarrow> graph_tables" where
  "build_tables edges =
     foldl (\<lambda>t e. add_parents (ne_id e) (ne_needsEdges e) t) (indegree_init edges, children_init edges) edges"

definition detectCycle :: "NormalizedEdge list \<Rightarrow> dag_error option" where
  "detectCycle edges =
     (case build_tables edges of (indegree, ch) \<Rightarrow>
        let queue = map fst (List.filter (\<lambda>(i, degree). degree = 0) indegree)
        in if length (kahn ch indegree queue) \<noteq> length edges then Some DependencyCycle else None)"

definition index_in :: "NormalizedEdge list \<Rightarrow> string \<Rightarrow> nat" where
  "index_in edges i = (case jget (jmap_by ne_id edges) i of Some e \<Rightarrow> ne_stageIndex e | None \<Rightarrow> 0)"

definition sort_children :: "NormalizedEdge list \<Rightarrow> (string, string list) jsmap \<Rightarrow> (string, string list) jsmap" where
  "sort_children edges ch = map (\<lambda>(p, cs). (p, sort_key (index_in edges) cs)) ch"

definition root_ids :: "NormalizedEdge list \<Rightarrow> string list" where
  "root_ids edges = map ne_id (sort_key ne_stageIndex (List.filter (\<lambda>e. ne_needsEdges e = []) edges))"

definition topologicalSort :: "NormalizedEdge list \<Rightarrow> NormalizedEdge list" where
  "topologicalSort edges =
     (case build_tables edges of (indegree, ch) \<Rightarrow>
        List.map_filter (jget (jmap_by ne_id edges)) (kahn (sort_children edges ch) indegree (root_ids edges)))"

section \<open>Ancestors\<close>

text \<open>
  The recursion of \<open>ancestorsFor\<close> with its memo table; the first argument bounds its depth, and
  \<open>None\<close> is the unbounded recursion that a cyclic graph would give.
\<close>

type_synonym ancestor_cache = "(string, string list) jsmap"

fun ancestorsFor ::
  "nat \<Rightarrow> (string, PipelineNeedEdge list) jsmap \<Rightarrow> ancestor_cache \<Rightarrow> string \<Rightarrow> (ancestor_cache \<times> string list) option"
  and ancestors_loop ::
  "nat \<Rightarrow> (string, PipelineNeedEdge list) jsmap \<Rightarrow> ancestor_cache \<Rightarrow> PipelineNeedEdge list \<Rightarrow> string list
   \<Rightarrow> (ancestor_cache \<times> string list) option" where
  "ancestorsFor 0 parentsById cache i = None"
| "ancestorsFor (Suc n) parentsById cache i =
     (case jget cache i of
        Some cached \<Rightarrow> Some (cache, cached)
      | None \<Rightarrow>
          (if jget_or parentsById i [] = [] then Some (jset cache i [], [])
           else case ancestors_loop n parentsById cache (jget_or parentsById i []) [] of
             None \<Rightarrow> None
           | Some (cache', found) \<Rightarrow> Some (jset cache' i found, found)))"
| "ancestors_loop n parentsById cache [] found = Some (cache, found)"
| "ancestors_loop n parentsById cache (p # ps) found =
     (case ancestorsFor n parentsById cache (edge_id p) of
        None \<Rightarrow> None
      | Some (cache', theirs) \<Rightarrow>
          ancestors_loop n parentsById cache' ps (jadd (foldl jadd found theirs) (edge_id p)))"

definition parents_by_id :: "NormalizedEdge list \<Rightarrow> (string, PipelineNeedEdge list) jsmap" where
  "parents_by_id edges = foldl (\<lambda>m e. jset m (ne_id e) (ne_needsEdges e)) [] edges"

definition computeAncestors :: "NormalizedEdge list \<Rightarrow> ancestor_cache option" where
  "computeAncestors edges =
     foldl (\<lambda>cache e. Option.bind cache (\<lambda>c.
         map_option fst (ancestorsFor (Suc (length edges)) (parents_by_id edges) c (ne_id e))))
       (Some []) edges"

section \<open>The resolved DAG\<close>

definition toFeedbackLoopConfigFromRouteLoopEntry :: "PipelineRouteLoopEntry \<Rightarrow> FeedbackLoopConfig" where
  "toFeedbackLoopConfigFromRouteLoopEntry l =
     \<lparr>fl_target = loop_to l, fl_max_replays = loop_max_replays l,
      fl_on_max_replays = loop_on_max_replays l, fl_replay_session = loop_replay_session l\<rparr>"

fun sole_loop :: "PipelineRouteLoopEntry list \<Rightarrow> FeedbackLoopConfig option" where
  "sole_loop [l] = Some (toFeedbackLoopConfigFromRouteLoopEntry l)"
| "sole_loop _ = None"

definition resolved_node :: "ancestor_cache \<Rightarrow> NormalizedEdge \<Rightarrow> ResolvedPipelineStageNode" where
  "resolved_node anc e =
     \<lparr>node_id = ne_id e, needs = ne_needs e, needsEdges = Some (ne_needsEdges e),
      ancestors = jget_or anc (ne_id e) [], stageIndex = ne_stageIndex e, fork = None,
      clone_cap = None, clone_mode = None, clone_array_field = None, definition_id = None,
      completion = ne_completion e, recovery = ne_recovery e,
      feedback_loop = sole_loop (ne_routeLoopEntries e), replay_safe = ne_replay_safe e,
      is_entry = is_entry_edge e\<rparr>"

definition buildResolvedPipelineDag :: "NormalizedEdge list \<Rightarrow> dag_error + ResolvedPipelineDag" where
  "buildResolvedPipelineDag edges =
     (case computeAncestors edges of
        None \<Rightarrow> Inl AncestorsDiverge
      | Some anc \<Rightarrow>
          Inr \<lparr>nodes = map (resolved_node anc) (topologicalSort edges),
               roots = root_ids edges,
               childrenOf = sort_children edges (snd (build_tables edges)),
               stage_ids = None, gate_kinds = [], clone_input_schema = []\<rparr>)"

section \<open>Feedback loops\<close>

definition loop_span :: "ResolvedPipelineStageNode \<Rightarrow> string \<Rightarrow> string list" where
  "loop_span source t =
     (case index_of (ancestors source) t of
        None \<Rightarrow> [node_id source]
      | Some i \<Rightarrow> drop i (ancestors source) @ [node_id source])"

definition validate_loop_node :: "ResolvedPipelineDag \<Rightarrow> ResolvedPipelineStageNode \<Rightarrow> dag_error option" where
  "validate_loop_node dag source =
     (case feedback_loop source of
        None \<Rightarrow> None
      | Some policy \<Rightarrow>
          (let t = fl_target policy; byId = jmap_by node_id (nodes dag) in
           if jget byId t = None then Some (LoopTargetUndeclared (node_id source) t)
           else if t \<notin> set (ancestors source) then Some (LoopTargetNotAncestor (node_id source) t)
           else map_option (LoopReplaysUnsafe (node_id source) t)
             (List.find (\<lambda>s. Option.bind (jget byId s) replay_safe = Some False) (loop_span source t))))"

fun first_error :: "('a \<Rightarrow> 'e option) \<Rightarrow> 'a list \<Rightarrow> 'e option" where
  "first_error f [] = None"
| "first_error f (x # xs) = (case f x of None \<Rightarrow> first_error f xs | Some e \<Rightarrow> Some e)"

definition validateFeedbackLoopFields :: "ResolvedPipelineDag \<Rightarrow> dag_error option" where
  "validateFeedbackLoopFields dag = first_error (validate_loop_node dag) (nodes dag)"

text \<open>The guards run in order; the first that fails is the exception.\<close>

fun first_of :: "'e option list \<Rightarrow> 'e option" where
  "first_of [] = None"
| "first_of (None # es) = first_of es"
| "first_of (Some e # es) = Some e"

definition wiring_error :: "NormalizedEdge list \<Rightarrow> dag_error option" where
  "wiring_error edges =
     first_of [detectDuplicateIds edges, validateRouteTargets edges,
               validateRouteLoopEntryCount edges, validateEntryStageUsage edges]"

definition resolvePipelineDagFromRefs ::
  "PipelineStageRef list \<Rightarrow> dag_error + (string list \<times> ResolvedPipelineDag)" where
  "resolvePipelineDagFromRefs refs =
     (let edges = normalizeToEdges refs in
      case wiring_error edges of
        Some e \<Rightarrow> Inl e
      | None \<Rightarrow>
          (let merged = mergeRouteEdgesIntoNeeds edges in
           case detectCycle merged of
             Some e \<Rightarrow> Inl e
           | None \<Rightarrow>
               (case buildResolvedPipelineDag merged of
                  Inl e \<Rightarrow> Inl e
                | Inr dag \<Rightarrow>
                    (case validateFeedbackLoopFields dag of
                       Some e \<Rightarrow> Inl e
                     | None \<Rightarrow> Inr (map ne_id (sort_key ne_stageIndex merged), dag)))))"

end
