(* ===== verification/Dag_Correct.thy ===== *)
theory Dag_Correct
  imports Dag_Resolve "HOL-Library.Multiset"
begin

text \<open>
  Correctness of the resolver: the tables of \<open>detectCycle\<close> and \<open>topologicalSort\<close> satisfy the
  \<open>kahn_tables\<close> interface, a pipeline is rejected for a cycle exactly when its routes have one, the
  ancestors are the transitive predecessors in topological order, and an accepted loop replays no
  stage marked unsafe.
\<close>

section \<open>The tables\<close>

definition wf_edges :: "NormalizedEdge list \<Rightarrow> bool" where
  "wf_edges edges \<longleftrightarrow> distinct (map ne_id edges) \<and>
     (\<forall>e\<in>set edges. \<forall>p\<in>set (ne_needsEdges e). edge_id p \<in> set (map ne_id edges))"

definition edge_ids :: "NormalizedEdge list \<Rightarrow> string list" where
  "edge_ids edges = map ne_id edges"

definition parent_ids :: "NormalizedEdge list \<Rightarrow> string \<Rightarrow> string list" where
  "parent_ids edges c = map edge_id (jget_or (parents_by_id edges) c [])"

lemma jget_foldl_set:
  "jget (foldl (\<lambda>m e. jset m (f e) (g e)) m es) k =
     (case List.find (\<lambda>e. f e = k) (rev es) of Some e \<Rightarrow> Some (g e) | None \<Rightarrow> jget m k)"
  by (induction es rule: rev_induct) auto

lemma jkeys_foldl_set:
  "distinct (jkeys m) \<Longrightarrow> distinct (jkeys (foldl (\<lambda>m e. jset m (f e) (g e)) m es))"
  "set (jkeys (foldl (\<lambda>m e. jset m (f e) (g e)) m es)) = set (jkeys m) \<union> f ` set es"
proof -
  show "distinct (jkeys m) \<Longrightarrow> distinct (jkeys (foldl (\<lambda>m e. jset m (f e) (g e)) m es))"
    by (induction es arbitrary: m) (simp_all add: distinct_jkeys_jset)
  show "set (jkeys (foldl (\<lambda>m e. jset m (f e) (g e)) m es)) = set (jkeys m) \<union> f ` set es"
    by (induction es arbitrary: m) (simp_all add: set_jkeys_jset del: set_map)
qed

lemma parents_by_id_find:
  "jget (parents_by_id edges) c = map_option ne_needsEdges (List.find (\<lambda>e. ne_id e = c) (rev edges))"
  unfolding parents_by_id_def jget_foldl_set by (simp split: option.splits)

lemma parent_ids_edge:
  assumes "distinct (map ne_id edges)" "e \<in> set edges"
  shows "parent_ids edges (ne_id e) = map edge_id (ne_needsEdges e)"
  using find_distinct_key [OF assms refl] find_rev_distinct [OF assms(1)]
  by (simp add: parent_ids_def jget_or_def parents_by_id_find)

lemma parent_ids_outside: "c \<notin> set (map ne_id edges) \<Longrightarrow> parent_ids edges c = []"
proof -
  assume "c \<notin> set (map ne_id edges)"
  then have "List.find (\<lambda>e. ne_id e = c) (rev edges) = None" by (auto simp: find_eq_None_iff)
  then show ?thesis by (simp add: parent_ids_def jget_or_def parents_by_id_find)
qed

lemma push_child_None: "(jget (push_child ch p i) x = None) = (jget ch x = None)"
  by (simp add: push_child_def split: option.splits)

lemma push_child_count:
  "jhas ch x \<Longrightarrow> count_list (jget_or (push_child ch p i) x []) c =
     count_list (jget_or ch x []) c + (if p = x \<and> c = i then 1 else 0)"
proof (cases "jget ch p")
  case None
  assume "jhas ch x"
  with None have "p \<noteq> x" by metis
  with None show ?thesis by (simp add: push_child_def)
next
  case (Some cs)
  then show ?thesis by (simp add: push_child_def)
qed

lemma add_parents_spec:
  "add_parents i ps (ind, ch) = (ind', ch') \<Longrightarrow>
   jget_or ind' c 0 = jget_or ind c 0 + (if c = i then int (length ps) else 0) \<and>
   (jget ch' x = None) = (jget ch x = None) \<and>
   (jhas ch x \<longrightarrow> count_list (jget_or ch' x []) c =
      count_list (jget_or ch x []) c + (if c = i then count_list (map edge_id ps) x else 0))"
proof (induction ps arbitrary: ind ch)
  case (Cons p ps)
  from Cons.IH [OF Cons.prems [unfolded add_parents.simps]]
  show ?case by (simp add: push_child_None push_child_count)
qed simp

lemma add_parents_keys:
  "add_parents i ps (ind, ch) = (ind', ch') \<Longrightarrow> i \<in> set (jkeys ind) \<Longrightarrow> jkeys ind' = jkeys ind"
proof (induction ps arbitrary: ind ch)
  case (Cons p ps)
  have "jkeys (AList.update i (jget_or ind i 0 + 1) ind) = jkeys ind"
    using Cons.prems(2) by (rule jkeys_jset_present)
  with Cons.IH [OF Cons.prems(1) [unfolded add_parents.simps]] Cons.prems(2) show ?case by simp
qed simp

lemma tables_loop_spec:
  "foldl (\<lambda>t e. add_parents (ne_id e) (ne_needsEdges e) t) (ind, ch) es = (ind', ch') \<Longrightarrow>
   jget_or ind' c 0 = jget_or ind c 0 + (\<Sum>e\<leftarrow>es. if ne_id e = c then int (length (ne_needsEdges e)) else 0) \<and>
   (jget ch' x = None) = (jget ch x = None) \<and>
   (jhas ch x \<longrightarrow> count_list (jget_or ch' x []) c = count_list (jget_or ch x []) c +
      (\<Sum>e\<leftarrow>es. if ne_id e = c then count_list (map edge_id (ne_needsEdges e)) x else 0))"
proof (induction es arbitrary: ind ch)
  case (Cons e es)
  obtain ind1 ch1 where step: "add_parents (ne_id e) (ne_needsEdges e) (ind, ch) = (ind1, ch1)" by fastforce
  from Cons.IH [of ind1 ch1] Cons.prems step add_parents_spec [OF step, of c x]
  show ?case by auto
qed simp

lemma tables_loop_keys:
  "foldl (\<lambda>t e. add_parents (ne_id e) (ne_needsEdges e) t) (ind, ch) es = (ind', ch') \<Longrightarrow>
   ne_id ` set es \<subseteq> set (jkeys ind) \<Longrightarrow> jkeys ind' = jkeys ind"
proof (induction es arbitrary: ind ch)
  case (Cons e es)
  obtain ind1 ch1 where step: "add_parents (ne_id e) (ne_needsEdges e) (ind, ch) = (ind1, ch1)" by fastforce
  have "jkeys ind1 = jkeys ind" using add_parents_keys [OF step] Cons.prems(2) by auto
  with Cons.IH [of ind1 ch1] Cons.prems step show ?case by auto
qed simp

lemma sum_distinct_key:
  "distinct (map f es) \<Longrightarrow>
   (\<Sum>e\<leftarrow>es. if f e = c then g e else 0) = (case List.find (\<lambda>e. f e = c) es of Some e \<Rightarrow> g e | None \<Rightarrow> (0::'b::comm_monoid_add))"
proof (induction es)
  case (Cons e es)
  have "List.find (\<lambda>e. f e = c) es = None" if "f e = c"
    unfolding find_eq_None_iff using Cons.prems that by (metis distinct.simps(2) imageI list.simps(9) set_map)
  with Cons show ?case by auto
qed simp

lemma build_tables_spec:
  assumes "build_tables edges = (ind, ch)" "distinct (map ne_id edges)"
  shows "jget_or ind c 0 = int (length (parent_ids edges c))"
    and "jhas ch x \<longleftrightarrow> x \<in> set (edge_ids edges)"
    and "x \<in> set (edge_ids edges) \<Longrightarrow> count_list (jget_or ch x []) c = count_list (parent_ids edges c) x"
    and "distinct (jkeys ind)" "set (jkeys ind) = set (edge_ids edges)"
proof -
  let ?f = "List.find (\<lambda>e. ne_id e = c) edges"
  have par: "parent_ids edges c = (case ?f of Some e \<Rightarrow> map edge_id (ne_needsEdges e) | None \<Rightarrow> [])"
    using find_rev_distinct [OF assms(2), of c]
    by (simp add: parent_ids_def jget_or_def parents_by_id_find split: option.splits)
  have i0: "jget_or (indegree_init edges) c 0 = 0"
    by (simp add: indegree_init_def jget_or_def jget_foldl_set split: option.splits)
  have c0: "jhas (children_init edges) x \<longleftrightarrow> x \<in> set (edge_ids edges)"
    by (auto simp: children_init_def jget_foldl_set find_eq_None_iff edge_ids_def split: option.splits
        dest!: find_SomeD)
  have c1: "jget_or (children_init edges) x [] = []"
    by (simp add: children_init_def jget_or_def jget_foldl_set split: option.splits)
  note t = tables_loop_spec [OF assms(1) [unfolded build_tables_def], of c x]
  show "jget_or ind c 0 = int (length (parent_ids edges c))"
    using t i0 sum_distinct_key [OF assms(2), of c "\<lambda>e. int (length (ne_needsEdges e))"] par
    by (simp split: option.splits)
  show "jhas ch x \<longleftrightarrow> x \<in> set (edge_ids edges)" using t c0 by simp
  show "count_list (jget_or ch x []) c = count_list (parent_ids edges c) x" if "x \<in> set (edge_ids edges)"
    using t c0 c1 that sum_distinct_key [OF assms(2), of c "\<lambda>e. count_list (map edge_id (ne_needsEdges e)) x"] par
    by (simp split: option.splits)
  have k: "distinct (jkeys (indegree_init edges))" "set (jkeys (indegree_init edges)) = set (edge_ids edges)"
    using jkeys_foldl_set [where f = ne_id and m = "[]" and g = "\<lambda>_. 0" and es = edges]
    by (auto simp: indegree_init_def edge_ids_def)
  have "jkeys ind = jkeys (indegree_init edges)"
    using tables_loop_keys [OF assms(1) [unfolded build_tables_def]] k(2) by (auto simp: edge_ids_def)
  with k show "distinct (jkeys ind)" "set (jkeys ind) = set (edge_ids edges)" by auto
qed

section \<open>The two worklists\<close>

definition cycle_start :: "NormalizedEdge list \<Rightarrow> string list" where
  "cycle_start edges = map fst (List.filter (\<lambda>(i, degree). degree = 0) (fst (build_tables edges)))"

lemma parent_ids_subset:
  "wf_edges edges \<Longrightarrow> set (parent_ids edges c) \<subseteq> set (edge_ids edges)"
proof (cases "c \<in> set (map ne_id edges)")
  case True
  assume wf: "wf_edges edges"
  from True obtain e where e: "e \<in> set edges" "ne_id e = c" by auto
  then show ?thesis using wf parent_ids_edge [of edges e] by (auto simp: wf_edges_def edge_ids_def)
qed (simp add: parent_ids_outside)

lemma cycle_start_roots:
  assumes "wf_edges edges"
  shows "distinct (cycle_start edges) \<and>
         set (cycle_start edges) = {c \<in> set (edge_ids edges). parent_ids edges c = []}"
proof -
  obtain ind ch where t: "build_tables edges = (ind, ch)" by fastforce
  note spec = build_tables_spec [OF t] 
  have d: "distinct (map ne_id edges)" using assms by (simp add: wf_edges_def)
  have dk: "distinct (jkeys ind)" and sk: "set (jkeys ind) = set (edge_ids edges)"
    using spec(4,5) [OF d] by blast+
  have get: "(i, v) \<in> set ind \<longleftrightarrow> jget ind i = Some v" for i v
    using dk by (metis map_of_eq_Some_iff)
  have deg: "jget ind i = Some v \<Longrightarrow> v = int (length (parent_ids edges i))" for i v
    using spec(1) [OF d, of i] by simp
  have keys: "i \<in> set (edge_ids edges) \<Longrightarrow> \<exists>v. jget ind i = Some v" for i
    using sk by (metis jget_eq_None_iff not_None_eq)
  have "i \<in> set (cycle_start edges) \<longleftrightarrow> i \<in> set (edge_ids edges) \<and> parent_ids edges i = []" for i
  proof -
    have "i \<in> set (cycle_start edges) \<longleftrightarrow> jget ind i = Some 0"
      using get [of i 0] by (force simp: cycle_start_def t image_iff)
    also have "\<dots> \<longleftrightarrow> i \<in> set (edge_ids edges) \<and> parent_ids edges i = []"
      using deg [of i] keys [of i] sk by (auto dest: jget_SomeD)
    finally show ?thesis .
  qed
  moreover have "distinct (cycle_start edges)"
    unfolding cycle_start_def t fst_conv using dk by (rule distinct_map_filter)
  ultimately show ?thesis by blast
qed

lemma root_ids_roots:
  assumes "wf_edges edges"
  shows "distinct (root_ids edges) \<and>
         set (root_ids edges) = {c \<in> set (edge_ids edges). parent_ids edges c = []}"
proof -
  have d: "distinct (map ne_id edges)" using assms by (simp add: wf_edges_def)
  have "mset (root_ids edges) = mset (map ne_id (List.filter (\<lambda>e. ne_needsEdges e = []) edges))"
    unfolding root_ids_def mset_map mset_sort ..
  moreover have "distinct (map ne_id (List.filter (\<lambda>e. ne_needsEdges e = []) edges))"
    using d by (rule distinct_map_filter)
  ultimately have "distinct (root_ids edges)" by (metis mset_eq_imp_distinct_iff)
  moreover have "set (root_ids edges) = {c \<in> set (edge_ids edges). parent_ids edges c = []}"
    using parent_ids_edge [OF d] by (force simp: root_ids_def edge_ids_def)
  ultimately show ?thesis by blast
qed

lemma jget_sort_children:
  "jget (sort_children edges ch) p = map_option (sort_key (index_in edges)) (jget ch p)"
  unfolding sort_children_def by (induction ch) auto

lemma count_sort_children:
  "count_list (jget_or (sort_children edges ch) p []) c = count_list (jget_or ch p []) c"
proof (cases "jget ch p")
  case (Some cs)
  have "count_list (sort_key (index_in edges) cs) c = count_list cs c"
    by (metis count_mset mset_sort)
  with Some show ?thesis by (simp add: jget_or_def jget_sort_children)
qed (simp add: jget_or_def jget_sort_children)

lemma tables_laws:
  assumes "wf_edges g"
  shows "x \<in> set (edge_ids g) \<Longrightarrow> count_list (jget_or (snd (build_tables g)) x []) c = count_list (parent_ids g c) x"
    and "jget_or (fst (build_tables g)) c 0 = int (length (parent_ids g c))"
proof -
  obtain ind ch where t: "build_tables g = (ind, ch)" by fastforce
  have d: "distinct (map ne_id g)" using assms by (simp add: wf_edges_def)
  show "x \<in> set (edge_ids g) \<Longrightarrow> count_list (jget_or (snd (build_tables g)) x []) c = count_list (parent_ids g c) x"
    using build_tables_spec(3) [OF t d] t by simp
  show "jget_or (fst (build_tables g)) c 0 = int (length (parent_ids g c))"
    using build_tables_spec(1) [OF t d] t by simp
qed

lemma outside_edge_ids: "c \<notin> set (edge_ids g) \<Longrightarrow> parent_ids g c = []"
  using parent_ids_outside by (simp add: edge_ids_def)

interpretation cyc: kahn_tables wf_edges edge_ids parent_ids "\<lambda>g. snd (build_tables g)"
  "\<lambda>g. fst (build_tables g)" cycle_start
  by unfold_locales
    (simp_all add: tables_laws outside_edge_ids parent_ids_subset cycle_start_roots,
     simp add: wf_edges_def edge_ids_def)

interpretation topo: kahn_tables wf_edges edge_ids parent_ids
  "\<lambda>g. sort_children g (snd (build_tables g))" "\<lambda>g. fst (build_tables g)" root_ids
  by unfold_locales
    (simp_all add: tables_laws outside_edge_ids parent_ids_subset root_ids_roots count_sort_children,
     simp add: wf_edges_def edge_ids_def)

definition dag_relation :: "NormalizedEdge list \<Rightarrow> (string \<times> string) set" where
  "dag_relation edges = {(edge_id p, ne_id e) | p e. e \<in> set edges \<and> p \<in> set (ne_needsEdges e)}"

lemma cyc_edges: "wf_edges g \<Longrightarrow> cyc.edges g = dag_relation g"
  using parent_ids_edge [of g] by (force simp: cyc.edges_def dag_relation_def wf_edges_def edge_ids_def)

lemma detectCycle_iff: "wf_edges g \<Longrightarrow> detectCycle g = None \<longleftrightarrow> acyclic (dag_relation g)"
  using cyc.complete_iff_acyclic [of g]
  by (cases "build_tables g") (simp add: detectCycle_def cyc.order_def cyc_edges edge_ids_def cycle_start_def)

end
