(* ===== verification/Dag_Ancestors.thy ===== *)
theory Dag_Ancestors
  imports Dag_Correct
begin

text \<open>
  The memoised recursion \<open>computeAncestors\<close>: on an acyclic graph it returns, and what it returns
  for a stage is the list of its transitive predecessors, each once and each after its own
  predecessors.
\<close>

section \<open>Predecessor-closed lists\<close>

definition closed_list :: "('a \<times> 'a) set \<Rightarrow> 'a list \<Rightarrow> bool" where
  "closed_list r l \<longleftrightarrow> (\<forall>xs a ys. l = xs @ a # ys \<longrightarrow> {b. (b, a) \<in> r\<^sup>+} \<subseteq> set xs)"

definition ancestors_ok :: "('a \<times> 'a) set \<Rightarrow> 'a list \<Rightarrow> 'a \<Rightarrow> bool" where
  "ancestors_ok r l i \<longleftrightarrow> distinct l \<and> set l = {a. (a, i) \<in> r\<^sup>+} \<and> closed_list r l"

lemma closed_Nil [simp]: "closed_list r []"
  by (simp add: closed_list_def)

lemma closed_snoc:
  "closed_list r l \<Longrightarrow> {b. (b, a) \<in> r\<^sup>+} \<subseteq> set l \<Longrightarrow> closed_list r (l @ [a])"
  unfolding closed_list_def
proof (intro allI impI)
  fix xs c ys
  assume "\<forall>xs a ys. l = xs @ a # ys \<longrightarrow> {b. (b, a) \<in> r\<^sup>+} \<subseteq> set xs"
    "{b. (b, a) \<in> r\<^sup>+} \<subseteq> set l" "l @ [a] = xs @ c # ys"
  then show "{b. (b, c) \<in> r\<^sup>+} \<subseteq> set xs"
    by (cases ys rule: rev_cases) auto
qed

lemma closed_jadd:
  "closed_list r l \<Longrightarrow> {b. (b, a) \<in> r\<^sup>+} \<subseteq> set l \<Longrightarrow> closed_list r (jadd l a)"
  by (simp add: jadd_def closed_snoc)

lemma closed_foldl_jadd:
  "closed_list r l \<Longrightarrow> closed_list r as \<Longrightarrow> closed_list r (foldl jadd l as)"
proof (induction as rule: rev_induct)
  case (snoc a as)
  have "closed_list r as" "{b. (b, a) \<in> r\<^sup>+} \<subseteq> set as"
    using snoc.prems(2) by (auto simp: closed_list_def)
  with snoc show ?case by (auto intro!: closed_jadd simp: set_foldl_jadd)
qed simp

lemma closed_after:
  assumes "closed_list r l" "l = xs @ t # ys" "distinct l" "a \<in> set l" "(t, a) \<in> r\<^sup>+"
  shows "a \<in> set ys"
proof -
  obtain us vs where l: "l = us @ a # vs" using assms(4) by (meson split_list)
  with assms(1,5) have t: "t \<in> set us" by (auto simp: closed_list_def)
  then obtain us1 us2 where "us = us1 @ t # us2" by (meson split_list)
  with l have "l = us1 @ t # (us2 @ a # vs)" by simp
  with assms(2,3) have "ys = us2 @ a # vs"
    by (metis append_Cons_eq_iff distinct.simps(2) distinct_append not_distinct_conv_prefix)
  then show ?thesis by simp
qed

section \<open>The recursion\<close>

definition par_relation :: "(string, PipelineNeedEdge list) jsmap \<Rightarrow> (string \<times> string) set" where
  "par_relation par = {(edge_id p, c) | p c. p \<in> set (jget_or par c [])}"

definition cache_ok :: "(string, PipelineNeedEdge list) jsmap \<Rightarrow> ancestor_cache \<Rightarrow> bool" where
  "cache_ok par cache \<longleftrightarrow> (\<forall>k l. jget cache k = Some l \<longrightarrow> ancestors_ok (par_relation par) l k)"

lemma ancestors_unfold:
  "{a. (a, i) \<in> r\<^sup>+} = (\<Union>p\<in>{p. (p, i) \<in> r}. insert p {a. (a, p) \<in> r\<^sup>+})"
  by (auto dest: tranclD2 intro: trancl_into_trancl elim: trancl.cases)

lemma ancestors_par:
  "{a. (a, i) \<in> (par_relation par)\<^sup>+} =
     (\<Union>p\<in>set (jget_or par i []). insert (edge_id p) {a. (a, edge_id p) \<in> (par_relation par)\<^sup>+})"
  by (subst ancestors_unfold) (auto simp: par_relation_def)

lemma cache_ok_set:
  "cache_ok par cache \<Longrightarrow> ancestors_ok (par_relation par) l i \<Longrightarrow> cache_ok par (jset cache i l)"
  by (simp add: cache_ok_def)

definition keeps :: "ancestor_cache \<Rightarrow> ancestor_cache \<Rightarrow> bool" where
  "keeps c c' \<longleftrightarrow> (\<forall>k. jhas c k \<longrightarrow> jhas c' k)"

lemma keeps_refl [simp]: "keeps c c" by (simp add: keeps_def)
lemma keeps_trans: "keeps a b \<Longrightarrow> keeps b c \<Longrightarrow> keeps a c" by (simp add: keeps_def)
lemma keeps_set [simp]: "keeps c (jset c i l)" by (simp add: keeps_def)

lemma ancestors_correct:
  fixes rank :: "string \<Rightarrow> nat"
  shows "(\<And>p c. (p, c) \<in> par_relation par \<Longrightarrow> rank p < rank c) \<Longrightarrow> rank i < n \<Longrightarrow> cache_ok par cache \<Longrightarrow>
      \<exists>cache' l. ancestorsFor n par cache i = Some (cache', l) \<and> cache_ok par cache' \<and>
        ancestors_ok (par_relation par) l i \<and> jhas cache' i \<and> keeps cache cache'"
    and "(\<And>p c. (p, c) \<in> par_relation par \<Longrightarrow> rank p < rank c) \<Longrightarrow> (\<And>p. p \<in> set ps \<Longrightarrow> rank (edge_id p) < n) \<Longrightarrow> cache_ok par cache \<Longrightarrow>
      distinct found \<Longrightarrow> closed_list (par_relation par) found \<Longrightarrow>
      \<exists>cache' l. ancestors_loop n par cache ps found = Some (cache', l) \<and> cache_ok par cache' \<and>
        distinct l \<and> closed_list (par_relation par) l \<and> keeps cache cache' \<and>
        set l = set found \<union> (\<Union>p\<in>set ps. insert (edge_id p) {a. (a, edge_id p) \<in> (par_relation par)\<^sup>+})"
proof (induction n par cache i and n par cache ps found rule: ancestorsFor_ancestors_loop.induct)
  case (2 n par cache i)
  let ?r = "par_relation par"
  show ?case
  proof (cases "jget cache i")
    case (Some l)
    then show ?thesis using "2.prems" by (auto simp: cache_ok_def)
  next
    case None
    show ?thesis
    proof (cases "jget_or par i [] = []")
      case True
      then have "ancestors_ok ?r [] i" using ancestors_par [of i par] by (simp add: ancestors_ok_def)
      with None True "2.prems"(3) show ?thesis by (simp add: cache_ok_set)
    next
      case False
      have "rank (edge_id p) < n" if "p \<in> set (jget_or par i [])" for p
      proof -
        have "(edge_id p, i) \<in> par_relation par" using that by (auto simp: par_relation_def)
        from "2.prems"(1) [OF this] "2.prems"(2) show ?thesis by simp
      qed
      with "2.IH" [OF None False "2.prems"(1)] "2.prems"(3) obtain cache' l where
        l: "ancestors_loop n par cache (jget_or par i []) [] = Some (cache', l)" "cache_ok par cache'"
          "distinct l" "closed_list ?r l" "keeps cache cache'"
          "set l = (\<Union>p\<in>set (jget_or par i []). insert (edge_id p) {a. (a, edge_id p) \<in> ?r\<^sup>+})"
        by auto
      then have ok: "ancestors_ok ?r l i" unfolding ancestors_ok_def ancestors_par [of i par] by blast
      have "keeps cache (jset cache' i l)" using l(5) keeps_set keeps_trans by blast
      with None False l ok show ?thesis by (simp add: cache_ok_set)
    qed
  qed
next
  case (4 n par cache p ps found)
  let ?r = "par_relation par"
  from "4.IH"(1) [OF "4.prems"(1)] "4.prems"(2,3) obtain cache1 l1 where
    l1: "ancestorsFor n par cache (edge_id p) = Some (cache1, l1)" "cache_ok par cache1"
      "ancestors_ok ?r l1 (edge_id p)" "keeps cache cache1" by auto
  let ?found = "jadd (foldl jadd found l1) (edge_id p)"
  have set1: "set ?found = set found \<union> insert (edge_id p) {a. (a, edge_id p) \<in> ?r\<^sup>+}"
    using l1(3) by (auto simp: ancestors_ok_def set_foldl_jadd)
  have "distinct ?found" using "4.prems"(4) by (simp add: distinct_foldl_jadd)
  moreover have "closed_list ?r ?found"
    using l1(3) "4.prems"(5) by (auto intro!: closed_jadd closed_foldl_jadd simp: ancestors_ok_def set_foldl_jadd)
  ultimately obtain cache' l where
    l: "ancestors_loop n par cache1 ps ?found = Some (cache', l)" "cache_ok par cache'"
      "distinct l" "closed_list ?r l" "keeps cache1 cache'"
      "set l = set ?found \<union> (\<Union>p\<in>set ps. insert (edge_id p) {a. (a, edge_id p) \<in> ?r\<^sup>+})"
    using "4.IH"(2) [OF l1(1) refl "4.prems"(1)] "4.prems"(2) l1(2) by force
  have "keeps cache cache'" using l1(4) l(5) keeps_trans by blast
  then show ?case using l1(1) l set1 by auto
qed auto

text \<open>The loop over all stages, with enough fuel for the graph.\<close>

lemma computeAncestors_loop:
  fixes rank :: "string \<Rightarrow> nat"
  assumes rank: "\<forall>(p, c)\<in>par_relation par. rank p < rank c" and fuel: "\<forall>i. rank i < n"
  shows "cache_ok par cache \<Longrightarrow>
    \<exists>cache'. foldl (\<lambda>cache e. Option.bind cache (\<lambda>c. map_option fst (ancestorsFor n par c (f e)))) (Some cache) es
        = Some cache' \<and> cache_ok par cache' \<and> keeps cache cache' \<and> (\<forall>e\<in>set es. jhas cache' (f e))"
proof (induction es arbitrary: cache)
  case (Cons e es)
  have "rank p < rank c" if "(p, c) \<in> par_relation par" for p c using rank that by blast
  from ancestors_correct(1) [of par rank "f e" n, OF this spec [OF fuel] Cons.prems] obtain cache1 l where
    c1: "ancestorsFor n par cache (f e) = Some (cache1, l)" "cache_ok par cache1" "jhas cache1 (f e)"
      "keeps cache cache1" by blast
  from Cons.IH [OF c1(2)] obtain cache' where
    c': "foldl (\<lambda>cache e. Option.bind cache (\<lambda>c. map_option fst (ancestorsFor n par c (f e)))) (Some cache1) es
        = Some cache'" "cache_ok par cache'" "keeps cache1 cache'" "\<forall>e\<in>set es. jhas cache' (f e)" by blast
  have "jhas cache' (f e)" using c1(3) c'(3) by (simp add: keeps_def)
  with c1 c' show ?case using keeps_trans by auto
qed simp

section \<open>On the edges of a pipeline\<close>

lemma par_relation_dag:
  assumes "distinct (map ne_id edges)" shows "par_relation (parents_by_id edges) = dag_relation edges"
proof -
  have "(a, c) \<in> par_relation (parents_by_id edges) \<longleftrightarrow> a \<in> set (parent_ids edges c)" for a c
    by (auto simp: par_relation_def parent_ids_def)
  moreover have "a \<in> set (parent_ids edges c) \<longleftrightarrow> (a, c) \<in> dag_relation edges" for a c
  proof (cases "c \<in> set (map ne_id edges)")
    case True
    then obtain e where e: "e \<in> set edges" "ne_id e = c" by auto
    have "e' = e" if "e' \<in> set edges" "ne_id e' = c" for e'
      using assms e that by (metis distinct_map inj_onD)
    then have "(a, c) \<in> dag_relation edges \<longleftrightarrow> (\<exists>p\<in>set (ne_needsEdges e). a = edge_id p)"
      unfolding dag_relation_def using e by blast
    also have "\<dots> \<longleftrightarrow> a \<in> set (parent_ids edges c)"
      using parent_ids_edge [OF assms e(1)] unfolding e(2) by (simp add: image_iff)
    finally show ?thesis by (rule sym)
  next
    case False
    then show ?thesis using parent_ids_outside [OF False] by (auto simp: dag_relation_def)
  qed
  ultimately show ?thesis by auto
qed

definition topo_rank :: "NormalizedEdge list \<Rightarrow> string \<Rightarrow> nat" where
  "topo_rank g i = length (takeWhile (\<lambda>y. y \<noteq> i) (topo.order g))"

lemma topo_edges: "wf_edges g \<Longrightarrow> topo.edges g = dag_relation g"
  using cyc_edges [of g] by (simp add: cyc.edges_def topo.edges_def)

lemma topo_order_ids:
  "wf_edges g \<Longrightarrow> acyclic (dag_relation g) \<Longrightarrow> set (topo.order g) = set (edge_ids g)"
  using topo.acyclic_all_ordered [of g] topo_edges [of g] by simp

lemma takeWhile_first: "a \<notin> set xs \<Longrightarrow> takeWhile (\<lambda>y. y \<noteq> a) (xs @ a # ys) = xs"
  by (induction xs) auto

lemma topo_rank_less:
  assumes "wf_edges g" "acyclic (dag_relation g)" "(p, c) \<in> dag_relation g"
  shows "topo_rank g p < topo_rank g c"
proof -
  have "c \<in> set (topo.order g)"
    using assms(3) topo_order_ids [OF assms(1,2)] by (auto simp: dag_relation_def edge_ids_def)
  then obtain xs ys where xs: "topo.order g = xs @ c # ys" "c \<notin> set xs" by (meson split_list_first)
  have "p \<in> set xs" using topo.order_precedes [OF assms(1) _ xs(1)] assms(3) topo_edges [OF assms(1)] by blast
  then obtain us vs where us: "xs = us @ p # vs" "p \<notin> set us" by (meson split_list_first)
  have "topo.order g = us @ p # (vs @ c # ys)" using xs us by simp
  then have "topo_rank g p = length us" using us(2) by (simp add: topo_rank_def takeWhile_first)
  moreover have "topo_rank g c = length xs" using xs by (simp add: topo_rank_def takeWhile_first)
  ultimately show ?thesis using us by simp
qed

lemma topo_rank_bound: "wf_edges g \<Longrightarrow> topo_rank g i < Suc (length g)"
proof -
  assume wf: "wf_edges g"
  have "length (topo.order g) = card (set (topo.order g))" using distinct_card [OF topo.order_inv(1) [OF wf]] by simp
  also have "\<dots> \<le> card (set (edge_ids g))" using topo.order_inv(2) [OF wf] by (intro card_mono) auto
  also have "\<dots> \<le> length g" using card_length [of "edge_ids g"] by (simp add: edge_ids_def)
  finally show ?thesis
    using length_takeWhile_le [of "\<lambda>y. y \<noteq> i" "topo.order g"] by (simp add: topo_rank_def)
qed

theorem computeAncestors_correct:
  assumes wf: "wf_edges g" and ac: "acyclic (dag_relation g)"
  shows "\<exists>cache. computeAncestors g = Some cache \<and>
    (\<forall>e\<in>set g. ancestors_ok (dag_relation g) (jget_or cache (ne_id e) []) (ne_id e))"
proof -
  have rel: "par_relation (parents_by_id g) = dag_relation g"
    using wf par_relation_dag by (simp add: wf_edges_def)
  have rank: "\<forall>(p, c)\<in>par_relation (parents_by_id g). topo_rank g p < topo_rank g c"
    unfolding rel using topo_rank_less [OF wf ac] by blast
  have bound: "\<forall>i. topo_rank g i < Suc (length g)" using topo_rank_bound [OF wf] by blast
  have "cache_ok (parents_by_id g) []" by (simp add: cache_ok_def)
  from computeAncestors_loop [OF rank bound this, where f = ne_id and es = g]
  show ?thesis unfolding computeAncestors_def
  proof (elim exE conjE, intro exI conjI ballI)
    fix cache e
    assume "cache_ok (parents_by_id g) cache" "\<forall>e\<in>set g. jhas cache (ne_id e)" and e: "e \<in> set g"
    then obtain l where "jget cache (ne_id e) = Some l" "ancestors_ok (dag_relation g) l (ne_id e)"
      unfolding cache_ok_def rel by (metis option.exhaust)
    then show "ancestors_ok (dag_relation g) (jget_or cache (ne_id e) []) (ne_id e)" by simp
  qed
qed

end
