(* ===== verification/Dag_Accept.thy ===== *)
theory Dag_Accept
  imports Dag_Ancestors
begin

text \<open>
  What the resolver promises about an accepted pipeline, stated on the wiring refs it is given
  and the DAG it returns.
\<close>

section \<open>The routes as a relation\<close>

definition ref_forward :: "PipelineStageRef \<Rightarrow> string \<Rightarrow> PipelineNeedEdge \<Rightarrow> bool" where
  "ref_forward s t e \<longleftrightarrow> (\<exists>route on c. ref_route s = Some route \<and> Forward t on c \<in> set route \<and>
     e = \<lparr>edge_id = ref_id s, edge_on = on_list on, edge_if = c\<rparr>)"

definition route_relation :: "PipelineStageRef list \<Rightarrow> (string \<times> string) set" where
  "route_relation refs = {(ref_id s, t) | s t e. s \<in> set refs \<and> ref_forward s t e}"

definition dag_edges :: "ResolvedPipelineDag \<Rightarrow> (string \<times> string) set" where
  "dag_edges dag = {(edge_id p, node_id n) | p n. n \<in> set (nodes dag) \<and> p \<in> set (predecessorEdges n)}"

lemma enumerate_ids:
  "map ne_id (map (\<lambda>(i, r). normalize_entry i r) (enumerate n refs)) = map ref_id refs"
  by (induction refs arbitrary: n) (simp_all add: normalize_entry_def)

lemma set_enumerate_iff: "(\<exists>i. (i, r) \<in> set (enumerate n refs)) \<longleftrightarrow> r \<in> set refs"
proof
  assume r: "r \<in> set refs"
  show "\<exists>i. (i, r) \<in> set (enumerate n refs)"
    unfolding enumerate_eq_zip by (rule in_set_impl_in_set_zip2 [OF _ r, of "[n..<n + length refs]"]) auto
qed (auto simp: enumerate_eq_zip dest: set_zip_rightD)

lemma enumerate_in:
  "e \<in> set (map (\<lambda>(i, r). normalize_entry i r) (enumerate n refs)) \<Longrightarrow>
   \<exists>i. \<exists>r\<in>set refs. e = normalize_entry i r"
  using set_enumerate_iff by fastforce

lemma enumerate_back:
  "r \<in> set refs \<Longrightarrow> \<exists>i. normalize_entry i r \<in> set (map (\<lambda>(i, r). normalize_entry i r) (enumerate n refs))"
  using set_enumerate_iff [of r n refs] by force

lemma normalize_ids: "map ne_id (normalizeToEdges refs) = map ref_id refs"
  unfolding normalizeToEdges_def by (rule enumerate_ids)

lemma normalize_in: "e \<in> set (normalizeToEdges refs) \<Longrightarrow> \<exists>i. \<exists>r\<in>set refs. e = normalize_entry i r"
  unfolding normalizeToEdges_def by (rule enumerate_in)

lemma normalize_back: "r \<in> set refs \<Longrightarrow> \<exists>i. normalize_entry i r \<in> set (normalizeToEdges refs)"
  unfolding normalizeToEdges_def by (rule enumerate_back)

lemma route_edge_iff:
  "(\<exists>r\<in>set (toRouteEdges (ref_route s)). route_to r = t \<and>
      e = \<lparr>edge_id = ref_id s, edge_on = route_on r, edge_if = route_if r\<rparr>) \<longleftrightarrow> ref_forward s t e"
proof (cases "ref_route s")
  case (Some route)
  have "(\<exists>r\<in>set (List.map_filter to_route_edge route). Q r) \<longleftrightarrow>
     (\<exists>on c t. Forward t on c \<in> set route \<and> Q \<lparr>route_to = t, route_on = on_list on, route_if = c\<rparr>)" for Q
  proof (induction route)
    case (Cons x route)
    then show ?case by (cases x) (auto simp: List.map_filter_simps)
  qed (simp add: List.map_filter_simps)
  with Some show ?thesis by (auto simp: toRouteEdges_def ref_forward_def)
qed (simp add: toRouteEdges_def ref_forward_def)

section \<open>Merging\<close>

lemma distinct_invert_source:
  "distinct (jkeys inbound) \<Longrightarrow> distinct (jkeys (invert_source src items inbound))"
  by (induction src items inbound rule: invert_source.induct) (simp_all add: distinct_jkeys_jset)

lemma distinct_invert_sources:
  "distinct (jkeys inbound) \<Longrightarrow> distinct (jkeys (invert_sources sources inbound))"
  by (induction sources inbound rule: invert_sources.induct) (simp_all add: distinct_invert_source)

definition add_inbound :: "(string, PipelineNeedEdge list) jsmap \<Rightarrow> NormalizedEdge \<Rightarrow> NormalizedEdge" where
  "add_inbound inb e = (if jget_or inb (ne_id e) [] = [] then e else add_needs (jget_or inb (ne_id e) []) e)"

lemma ne_id_add_needs [simp]: "ne_id (add_needs i e) = ne_id e"
  by (simp add: add_needs_def)

lemma foldl_merge:
  "distinct (jkeys inb) \<Longrightarrow> foldl merge_incoming edges inb = map (add_inbound inb) edges"
proof (induction inb arbitrary: edges)
  case Nil
  then show ?case by (simp add: add_inbound_def [abs_def] jget_or_def)
next
  case (Cons ti inb)
  obtain t i where ti: "ti = (t, i)" by (cases ti)
  have t: "jget inb t = None" using Cons.prems by (simp add: ti map_of_eq_None_iff)
  have "add_inbound inb (if i \<noteq> [] \<and> ne_id e = t then add_needs i e else e) = add_inbound ((t, i) # inb) e" for e
    by (cases "ne_id e = t") (auto simp: add_inbound_def jget_or_def t)
  moreover have "merge_incoming edges ti = map (\<lambda>e. if i \<noteq> [] \<and> ne_id e = t then add_needs i e else e) edges"
    by (simp add: merge_incoming_def ti)
  ultimately show ?case using Cons by (simp add: ti)
qed

definition inbound_of :: "NormalizedEdge list \<Rightarrow> (string, PipelineNeedEdge list) jsmap" where
  "inbound_of edges = invertRouteToPredecessorEdges
     (map (\<lambda>e. (ne_id e, Some (map route_entry (ne_routeEdges e)))) edges)"

lemma merge_map: "mergeRouteEdgesIntoNeeds edges = map (add_inbound (inbound_of edges)) edges"
  unfolding mergeRouteEdgesIntoNeeds_def inbound_of_def
  by (rule foldl_merge) (simp add: invertRouteToPredecessorEdges_def distinct_invert_sources)

lemma inbound_iff:
  "p \<in> set (jget_or (inbound_of edges) t []) \<longleftrightarrow>
   (\<exists>e\<in>set edges. \<exists>r\<in>set (ne_routeEdges e). route_to r = t \<and>
      p = \<lparr>edge_id = ne_id e, edge_on = route_on r, edge_if = route_if r\<rparr>)"
proof -
  have fwd: "Forward t on c \<in> set (map route_entry rs) \<longleftrightarrow>
      (\<exists>r\<in>set rs. route_to r = t \<and> on = Some (OnMany (route_on r)) \<and> c = route_if r)" for on c rs
    by (auto simp: route_entry_def)
  have src: "(s, Some route) \<in> set (map (\<lambda>e. (ne_id e, Some (map route_entry (ne_routeEdges e)))) edges) \<longleftrightarrow>
      (\<exists>e\<in>set edges. s = ne_id e \<and> route = map route_entry (ne_routeEdges e))" for s route
    by auto
  have "p \<in> set (jget_or (inbound_of edges) t []) \<longleftrightarrow>
      (\<exists>s on c route. p = \<lparr>edge_id = s, edge_on = on_list on, edge_if = c\<rparr> \<and>
        (\<exists>e\<in>set edges. s = ne_id e \<and> route = map route_entry (ne_routeEdges e)) \<and>
        Forward t on c \<in> set route)"
    unfolding inbound_of_def invertRouteToPredecessorEdges_def set_invert_sources src
    by (simp only: jget_or_def map_of.simps option.case list.set(1) Un_empty_left mem_Collect_eq)
  also have "\<dots> \<longleftrightarrow> (\<exists>e\<in>set edges. \<exists>on c. p = \<lparr>edge_id = ne_id e, edge_on = on_list on, edge_if = c\<rparr> \<and>
        Forward t on c \<in> set (map route_entry (ne_routeEdges e)))" by blast
  also have "\<dots> \<longleftrightarrow> (\<exists>e\<in>set edges. \<exists>r\<in>set (ne_routeEdges e). route_to r = t \<and>
      p = \<lparr>edge_id = ne_id e, edge_on = route_on r, edge_if = route_if r\<rparr>)"
    unfolding fwd by (metis (no_types, lifting) on_list.simps(2))
  finally show ?thesis .
qed

lemma inbound_refs_iff:
  "p \<in> set (jget_or (inbound_of (normalizeToEdges refs)) t []) \<longleftrightarrow> (\<exists>s\<in>set refs. ref_forward s t p)"
proof -
  have "p \<in> set (jget_or (inbound_of (normalizeToEdges refs)) t []) \<longleftrightarrow>
    (\<exists>s\<in>set refs. \<exists>r\<in>set (toRouteEdges (ref_route s)). route_to r = t \<and>
      p = \<lparr>edge_id = ref_id s, edge_on = route_on r, edge_if = route_if r\<rparr>)"
    unfolding inbound_iff
  proof (intro iffI; elim bexE conjE)
    fix e r assume "e \<in> set (normalizeToEdges refs)" "r \<in> set (ne_routeEdges e)" "route_to r = t"
      "p = \<lparr>edge_id = ne_id e, edge_on = route_on r, edge_if = route_if r\<rparr>"
    then show "\<exists>s\<in>set refs. \<exists>r\<in>set (toRouteEdges (ref_route s)). route_to r = t \<and>
      p = \<lparr>edge_id = ref_id s, edge_on = route_on r, edge_if = route_if r\<rparr>"
      using normalize_in by (fastforce simp: normalize_entry_def)
  next
    fix s r assume s: "s \<in> set refs" and r: "r \<in> set (toRouteEdges (ref_route s))" "route_to r = t"
      "p = \<lparr>edge_id = ref_id s, edge_on = route_on r, edge_if = route_if r\<rparr>"
    from normalize_back [OF s] obtain i where "normalize_entry i s \<in> set (normalizeToEdges refs)" ..
    with r show "\<exists>e\<in>set (normalizeToEdges refs). \<exists>r\<in>set (ne_routeEdges e). route_to r = t \<and>
      p = \<lparr>edge_id = ne_id e, edge_on = route_on r, edge_if = route_if r\<rparr>"
      by (intro bexI [of _ "normalize_entry i s"] bexI [of _ r]) (simp_all add: normalize_entry_def)
  qed
  then show ?thesis unfolding route_edge_iff .
qed

section \<open>The merged edges\<close>

definition merged_edges :: "PipelineStageRef list \<Rightarrow> NormalizedEdge list" where
  "merged_edges refs = mergeRouteEdgesIntoNeeds (normalizeToEdges refs)"

lemma merged_ids: "map ne_id (merged_edges refs) = map ref_id refs"
proof -
  have "ne_id (add_inbound inb e) = ne_id e" for inb e by (simp add: add_inbound_def)
  then show ?thesis unfolding merged_edges_def merge_map map_map comp_def by (simp add: normalize_ids)
qed

text \<open>What a merged edge takes from its wiring ref, and the edges it is given.\<close>

definition merged_from :: "PipelineStageRef list \<Rightarrow> PipelineStageRef \<Rightarrow> NormalizedEdge \<Rightarrow> bool" where
  "merged_from refs s e \<longleftrightarrow> ne_id e = ref_id s \<and> ne_entry e = ref_entry s \<and>
     ne_replay_safe e = ref_replay_safe s \<and> ne_routeEdges e = toRouteEdges (ref_route s) \<and>
     ne_routeLoopEntries e = toRouteLoopEntries (ref_route s) \<and>
     (\<forall>p. p \<in> set (ne_needsEdges e) \<longleftrightarrow> (\<exists>q\<in>set refs. ref_forward q (ref_id s) p))"

lemma add_inbound_from:
  "merged_from refs s (add_inbound (inbound_of (normalizeToEdges refs)) (normalize_entry i s))"
  using inbound_refs_iff [of _ refs "ref_id s"]
  by (auto simp: merged_from_def add_inbound_def add_needs_def normalize_entry_def)

lemma merged_in: "e \<in> set (merged_edges refs) \<Longrightarrow> \<exists>s\<in>set refs. merged_from refs s e"
  unfolding merged_edges_def merge_map using normalize_in add_inbound_from by fastforce

lemma merged_back: "s \<in> set refs \<Longrightarrow> \<exists>e\<in>set (merged_edges refs). merged_from refs s e"
  unfolding merged_edges_def merge_map using normalize_back add_inbound_from by fastforce

lemma duplicate_loop_iff:
  "duplicate_loop es seen = None \<longleftrightarrow> distinct (map ne_id es) \<and> ne_id ` set es \<inter> set seen = {}"
  by (induction es seen rule: duplicate_loop.induct) auto

lemma first_of_None_iff: "first_of es = None \<longleftrightarrow> (\<forall>e\<in>set es. e = None)"
  by (induction es rule: first_of.induct) auto

lemma first_of_SomeD: "first_of es = Some e \<Longrightarrow> Some e \<in> set es"
  by (induction es rule: first_of.induct) auto

lemma wiring_ok:
  assumes "wiring_error (normalizeToEdges refs) = None"
  shows "distinct (map ref_id refs)" "detectDuplicateIds (normalizeToEdges refs) = None"
    "validateRouteTargets (normalizeToEdges refs) = None"
    "validateRouteLoopEntryCount (normalizeToEdges refs) = None"
    "validateEntryStageUsage (normalizeToEdges refs) = None"
  using assms normalize_ids [of refs]
  by (auto simp: wiring_error_def first_of_None_iff detectDuplicateIds_def duplicate_loop_iff)

lemma route_pairs_in: "(e, r) \<in> set (route_pairs g) \<longleftrightarrow> e \<in> set g \<and> r \<in> set (ne_routeEdges e)"
  by (auto simp: route_pairs_def)

lemma targets_declared:
  assumes "wiring_error (normalizeToEdges refs) = None" "s \<in> set refs" "ref_forward s t e"
  shows "t \<in> ref_id ` set refs"
proof -
  from assms(3) obtain r where r: "r \<in> set (toRouteEdges (ref_route s))" "route_to r = t"
    unfolding route_edge_iff [symmetric] by blast
  obtain i where "normalize_entry i s \<in> set (normalizeToEdges refs)" using normalize_back [OF assms(2)] ..
  moreover have "r \<in> set (ne_routeEdges (normalize_entry i s))" using r by (simp add: normalize_entry_def)
  ultimately have "(normalize_entry i s, r) \<in> set (route_pairs (normalizeToEdges refs))"
    unfolding route_pairs_in by blast
  with wiring_ok(3) [OF assms(1)] r(2) have "t \<in> set (map ne_id (normalizeToEdges refs))"
    by (auto simp: validateRouteTargets_def find_eq_None_iff split: option.splits)
  then show ?thesis by (simp add: normalize_ids)
qed

lemma merged_wf:
  assumes "wiring_error (normalizeToEdges refs) = None" shows "wf_edges (merged_edges refs)"
proof -
  have "edge_id p \<in> ref_id ` set refs" if "e \<in> set (merged_edges refs)" "p \<in> set (ne_needsEdges e)" for e p
    using merged_in [OF that(1)] that(2) by (auto simp: merged_from_def ref_forward_def)
  then show ?thesis unfolding wf_edges_def merged_ids using wiring_ok(1) [OF assms] by simp
qed

lemma merged_relation: 
  assumes "wiring_error (normalizeToEdges refs) = None"
  shows "dag_relation (merged_edges refs) = route_relation refs"
proof -
  have "(a, c) \<in> dag_relation (merged_edges refs) \<longleftrightarrow> (a, c) \<in> route_relation refs" for a c
  proof
    assume "(a, c) \<in> dag_relation (merged_edges refs)"
    then obtain p e where "e \<in> set (merged_edges refs)" "p \<in> set (ne_needsEdges e)" "a = edge_id p" "c = ne_id e"
      by (auto simp: dag_relation_def)
    with merged_in obtain s q where "s \<in> set refs" "merged_from refs s e" "q \<in> set refs" "ref_forward q (ref_id s) p"
      unfolding merged_from_def by blast
    moreover from this have "edge_id p = ref_id q" "ne_id e = ref_id s"
      by (auto simp: ref_forward_def merged_from_def)
    ultimately show "(a, c) \<in> route_relation refs" using \<open>a = edge_id p\<close> \<open>c = ne_id e\<close>
      unfolding route_relation_def by (metis (mono_tags, lifting) mem_Collect_eq)
  next
    assume "(a, c) \<in> route_relation refs"
    then obtain s p where s: "s \<in> set refs" "ref_forward s c p" "a = ref_id s" by (auto simp: route_relation_def)
    from targets_declared [OF assms s(1,2)] obtain q where q: "q \<in> set refs" "c = ref_id q" by auto
    from merged_back [OF q(1)] obtain e where e: "e \<in> set (merged_edges refs)" "merged_from refs q e" by blast
    have "p \<in> set (ne_needsEdges e)" using e(2) s q by (auto simp: merged_from_def)
    moreover have "edge_id p = a" "ne_id e = c" using s q e(2) by (auto simp: ref_forward_def merged_from_def)
    ultimately show "(a, c) \<in> dag_relation (merged_edges refs)" using e(1) by (auto simp: dag_relation_def)
  qed
  then show ?thesis by auto
qed

section \<open>The nodes of the result\<close>

lemma map_filter_ids:
  "(\<And>x. x \<in> set xs \<Longrightarrow> \<exists>e. f x = Some e \<and> k e = x \<and> e \<in> A) \<Longrightarrow>
   map k (List.map_filter f xs) = xs \<and> set (List.map_filter f xs) \<subseteq> A"
proof (induction xs)
  case (Cons x xs)
  from Cons.prems [of x] obtain e where "f x = Some e" "k e = x" "e \<in> A" by auto
  with Cons show ?case by (simp add: List.map_filter_simps)
qed (simp add: List.map_filter_simps)

lemma topologicalSort_order:
  assumes wf: "wf_edges g"
  shows "map ne_id (topologicalSort g) = topo.order g" "set (topologicalSort g) \<subseteq> set g"
proof -
  have d: "distinct (map ne_id g)" using wf by (simp add: wf_edges_def)
  have *: "\<exists>e. jget (jmap_by ne_id g) i = Some e \<and> ne_id e = i \<and> e \<in> set g"
    if "i \<in> set (topo.order g)" for i
  proof -
    from that topo.order_inv(2) [OF wf] obtain e where "e \<in> set g" "ne_id e = i" by (auto simp: edge_ids_def)
    then show ?thesis using find_distinct_key [OF d] by (auto simp: jget_jmap_by_distinct [OF d])
  qed
  have t: "topologicalSort g = List.map_filter (jget (jmap_by ne_id g)) (topo.order g)"
    by (simp add: topologicalSort_def topo.order_def split_beta)
  from map_filter_ids [of "topo.order g" "jget (jmap_by ne_id g)" ne_id "set g", OF *]
  show "map ne_id (topologicalSort g) = topo.order g" "set (topologicalSort g) \<subseteq> set g"
    unfolding t by blast+
qed

lemma merged_index: "map ne_stageIndex (merged_edges refs) = [0..<length refs]"
proof -
  have "ne_stageIndex (add_inbound inb e) = ne_stageIndex e" for inb e
    by (simp add: add_inbound_def add_needs_def)
  moreover have "map ne_stageIndex (map (\<lambda>(i, r). normalize_entry i r) (enumerate n refs)) = [n..<n + length refs]" for n
    by (induction refs arbitrary: n) (simp_all add: normalize_entry_def upt_rec)
  ultimately show ?thesis
    unfolding merged_edges_def merge_map normalizeToEdges_def map_map comp_def by simp
qed

lemma merged_sorted: "map ne_id (sort_key ne_stageIndex (merged_edges refs)) = map ref_id refs"
proof -
  have "sort_key ne_stageIndex (merged_edges refs) = merged_edges refs"
    by (rule sort_key_id_if_sorted) (simp add: merged_index)
  then show ?thesis by (simp add: merged_ids)
qed

lemma accepted:
  assumes "resolvePipelineDagFromRefs refs = Inr (stages, dag)"
  shows "wiring_error (normalizeToEdges refs) = None" "acyclic (route_relation refs)"
    "stages = map ref_id refs" "validateFeedbackLoopFields dag = None"
    "\<exists>anc. computeAncestors (merged_edges refs) = Some anc \<and>
       nodes dag = map (resolved_node anc) (topologicalSort (merged_edges refs)) \<and>
       roots dag = root_ids (merged_edges refs) \<and>
       childrenOf dag = sort_children (merged_edges refs) (snd (build_tables (merged_edges refs)))"
proof -
  note res = assms [unfolded resolvePipelineDagFromRefs_def Let_def, folded merged_edges_def]
  show w: "wiring_error (normalizeToEdges refs) = None"
    using res by (simp split: option.splits)
  have c: "detectCycle (merged_edges refs) = None" using res w by (simp split: option.splits)
  then show "acyclic (route_relation refs)"
    using detectCycle_iff [OF merged_wf [OF w]] merged_relation [OF w] by simp
  show "stages = map ref_id refs" "validateFeedbackLoopFields dag = None"
    "\<exists>anc. computeAncestors (merged_edges refs) = Some anc \<and>
       nodes dag = map (resolved_node anc) (topologicalSort (merged_edges refs)) \<and>
       roots dag = root_ids (merged_edges refs) \<and>
       childrenOf dag = sort_children (merged_edges refs) (snd (build_tables (merged_edges refs)))"
    using res w c by (auto simp: buildResolvedPipelineDag_def merged_sorted split: option.splits sum.splits)
qed

lemma accepted_nodes:
  assumes "resolvePipelineDagFromRefs refs = Inr (stages, dag)"
  shows "map node_id (nodes dag) = topo.order (merged_edges refs)"
    "n \<in> set (nodes dag) \<Longrightarrow> \<exists>e s. s \<in> set refs \<and> e \<in> set (merged_edges refs) \<and> merged_from refs s e \<and>
       node_id n = ref_id s \<and> predecessorEdges n = ne_needsEdges e \<and> is_entry n = (ref_entry s = Some True) \<and>
       replay_safe n = ref_replay_safe s \<and> feedback_loop n = sole_loop (toRouteLoopEntries (ref_route s)) \<and>
       ancestors_ok (route_relation refs) (ancestors n) (node_id n)"
proof -
  note acc = accepted [OF assms]
  note wf = merged_wf [OF acc(1)]
  note rel = merged_relation [OF acc(1)]
  from acc(5) obtain anc where anc: "computeAncestors (merged_edges refs) = Some anc"
    "nodes dag = map (resolved_node anc) (topologicalSort (merged_edges refs))" by blast
  show "map node_id (nodes dag) = topo.order (merged_edges refs)"
    using topologicalSort_order(1) [OF wf] by (simp add: anc(2) resolved_node_def comp_def)
  from computeAncestors_correct [OF wf] acc(2) rel anc(1)
  have ok: "ancestors_ok (route_relation refs) (jget_or anc (ne_id e) []) (ne_id e)"
    if "e \<in> set (merged_edges refs)" for e using that by auto
  assume "n \<in> set (nodes dag)"
  with anc(2) topologicalSort_order(2) [OF wf] obtain e where
    e: "e \<in> set (merged_edges refs)" "n = resolved_node anc e" by auto
  from merged_in [OF e(1)] obtain s where s: "s \<in> set refs" "merged_from refs s e" by blast
  have "node_id n = ref_id s \<and> predecessorEdges n = ne_needsEdges e \<and> is_entry n = (ref_entry s = Some True) \<and>
       replay_safe n = ref_replay_safe s \<and> feedback_loop n = sole_loop (toRouteLoopEntries (ref_route s))"
    using s(2) by (simp add: e(2) resolved_node_def merged_from_def predecessorEdges_def is_entry_edge_def)
  moreover have "ancestors_ok (route_relation refs) (ancestors n) (node_id n)"
    using ok [OF e(1)] by (simp add: e(2) resolved_node_def)
  ultimately show "\<exists>e s. s \<in> set refs \<and> e \<in> set (merged_edges refs) \<and> merged_from refs s e \<and>
       node_id n = ref_id s \<and> predecessorEdges n = ne_needsEdges e \<and> is_entry n = (ref_entry s = Some True) \<and>
       replay_safe n = ref_replay_safe s \<and> feedback_loop n = sole_loop (toRouteLoopEntries (ref_route s)) \<and>
       ancestors_ok (route_relation refs) (ancestors n) (node_id n)"
    using s e(1) by blast
qed

lemma accepted_node_ids:
  assumes "resolvePipelineDagFromRefs refs = Inr (stages, dag)"
  shows "distinct (map node_id (nodes dag))" "set (map node_id (nodes dag)) = ref_id ` set refs"
proof -
  note acc = accepted [OF assms]
  note wf = merged_wf [OF acc(1)]
  show "distinct (map node_id (nodes dag))" unfolding accepted_nodes(1) [OF assms] by (rule topo.order_inv(1) [OF wf])
  have "edge_ids (merged_edges refs) = map ref_id refs" by (simp add: edge_ids_def merged_ids)
  then show "set (map node_id (nodes dag)) = ref_id ` set refs"
    unfolding accepted_nodes(1) [OF assms]
    using topo_order_ids [OF wf] acc(2) merged_relation [OF acc(1)] by simp
qed

lemma accepted_predecessors:
  assumes "resolvePipelineDagFromRefs refs = Inr (stages, dag)" "n \<in> set (nodes dag)"
  shows "p \<in> set (predecessorEdges n) \<longleftrightarrow> (\<exists>q\<in>set refs. ref_forward q (node_id n) p)"
proof -
  from accepted_nodes(2) [OF assms] obtain e s where
    "merged_from refs s e" "node_id n = ref_id s" "predecessorEdges n = ne_needsEdges e" by blast
  then show ?thesis by (simp add: merged_from_def)
qed

lemma accepted_edges:
  assumes "resolvePipelineDagFromRefs refs = Inr (stages, dag)"
  shows "dag_edges dag = route_relation refs"
proof -
  have "(a, c) \<in> dag_edges dag \<longleftrightarrow> (a, c) \<in> route_relation refs" for a c
  proof
    assume "(a, c) \<in> dag_edges dag"
    then obtain p n where n: "n \<in> set (nodes dag)" "p \<in> set (predecessorEdges n)" "a = edge_id p" "c = node_id n"
      by (auto simp: dag_edges_def)
    with accepted_predecessors [OF assms n(1)] obtain q where q: "q \<in> set refs" "ref_forward q c p" by auto
    then have "edge_id p = ref_id q" by (auto simp: ref_forward_def)
    with n q show "(a, c) \<in> route_relation refs" unfolding route_relation_def by auto
  next
    assume "(a, c) \<in> route_relation refs"
    then obtain s p where s: "s \<in> set refs" "ref_forward s c p" "a = ref_id s" by (auto simp: route_relation_def)
    have "c \<in> set (map node_id (nodes dag))"
      unfolding accepted_node_ids(2) [OF assms] by (rule targets_declared [OF accepted(1) [OF assms] s(1,2)])
    then obtain n where n: "n \<in> set (nodes dag)" "node_id n = c" by auto
    have "p \<in> set (predecessorEdges n)" using accepted_predecessors [OF assms n(1)] s n(2) by blast
    moreover have "edge_id p = a" using s by (auto simp: ref_forward_def)
    ultimately show "(a, c) \<in> dag_edges dag" using n by (auto simp: dag_edges_def)
  qed
  then show ?thesis by auto
qed

lemma first_error_None_iff: "first_error f xs = None \<longleftrightarrow> (\<forall>x\<in>set xs. f x = None)"
  by (induction xs) (auto split: option.splits)

lemma accepted_loop_span:
  assumes "resolvePipelineDagFromRefs refs = Inr (stages, dag)"
    and "n \<in> set (nodes dag)" "feedback_loop n = Some policy"
  shows "fl_target policy \<in> set (ancestors n)"
    "\<And>s m. s \<in> set (loop_span n (fl_target policy)) \<Longrightarrow> m \<in> set (nodes dag) \<Longrightarrow> node_id m = s \<Longrightarrow>
       replay_safe m \<noteq> Some False"
proof -
  have v: "validate_loop_node dag n = None"
    using accepted(4) [OF assms(1)] assms(2) by (auto simp: validateFeedbackLoopFields_def first_error_None_iff)
  then show "fl_target policy \<in> set (ancestors n)"
    using assms(3) by (auto simp: validate_loop_node_def Let_def split: if_splits)
  fix s m assume s: "s \<in> set (loop_span n (fl_target policy))" and m: "m \<in> set (nodes dag)" "node_id m = s"
  have "jget (jmap_by node_id (nodes dag)) s = Some m"
    using find_distinct_key [OF accepted_node_ids(1) [OF assms(1)] m(1) m(2)]
    by (simp add: jget_jmap_by_distinct [OF accepted_node_ids(1) [OF assms(1)]])
  with v s assms(3) show "replay_safe m \<noteq> Some False"
    by (auto simp: validate_loop_node_def Let_def find_eq_None_iff split: if_splits)
qed

lemma accepted_between_in_span:
  assumes "resolvePipelineDagFromRefs refs = Inr (stages, dag)"
    and "n \<in> set (nodes dag)" "feedback_loop n = Some policy"
    and "a = fl_target policy \<or> (fl_target policy, a) \<in> (dag_edges dag)\<^sup>+"
    and "a = node_id n \<or> (a, node_id n) \<in> (dag_edges dag)\<^sup>+"
  shows "a \<in> set (loop_span n (fl_target policy))"
proof (cases "a = node_id n")
  case False
  let ?t = "fl_target policy"
  note rel = accepted_edges [OF assms(1)]
  from accepted_nodes(2) [OF assms(1,2)] have ok: "ancestors_ok (dag_edges dag) (ancestors n) (node_id n)"
    unfolding rel by blast
  from accepted_loop_span(1) [OF assms(1-3)] obtain i where i: "index_of (ancestors n) ?t = Some i"
    by (metis index_of_None_iff option.exhaust)
  then obtain ys where ys: "drop i (ancestors n) = ?t # ys" using index_of_drop by metis
  have split: "ancestors n = take i (ancestors n) @ ?t # ys" by (metis append_take_drop_id ys)
  have a: "a \<in> set (ancestors n)" using assms(5) False ok by (auto simp: ancestors_ok_def)
  have "a = ?t \<or> a \<in> set ys"
    using assms(4) closed_after [OF _ split _ a] ok by (auto simp: ancestors_ok_def)
  then show ?thesis by (auto simp: loop_span_def i ys)
qed (simp add: loop_span_def split: option.split)

lemma accepted_root_entry:
  assumes "resolvePipelineDagFromRefs refs = Inr (stages, dag)" "n \<in> set (nodes dag)"
    "predecessorEdges n = []" "\<exists>s\<in>set refs. ref_entry s = Some True \<or> toRouteEdges (ref_route s) \<noteq> []"
  shows "is_entry n"
proof -
  from accepted_nodes(2) [OF assms(1,2)] obtain e s where
    s: "s \<in> set refs" "node_id n = ref_id s" "is_entry n = (ref_entry s = Some True)" by blast
  from normalize_back [OF s(1)] obtain i where i: "normalize_entry i s \<in> set (normalizeToEdges refs)" ..
  have uses: "list_ex (\<lambda>e. is_entry_edge e \<or> ne_routeEdges e \<noteq> []) (normalizeToEdges refs)"
  proof -
    from assms(4) obtain q where q: "q \<in> set refs" "ref_entry q = Some True \<or> toRouteEdges (ref_route q) \<noteq> []" by blast
    from normalize_back [OF q(1)] obtain j where "normalize_entry j q \<in> set (normalizeToEdges refs)" ..
    with q(2) show ?thesis by (force simp: list_ex_iff is_entry_edge_def normalize_entry_def)
  qed
  have "ref_entry s = Some True \<or> ref_id s \<in> set (map (\<lambda>(e, r). route_to r) (route_pairs (normalizeToEdges refs)))"
    using wiring_ok(5) [OF accepted(1) [OF assms(1)]] uses i
    by (force simp: validateEntryStageUsage_def Let_def find_eq_None_iff is_entry_edge_def normalize_entry_def
        split: if_splits)
  moreover have "ref_id s \<notin> set (map (\<lambda>(e, r). route_to r) (route_pairs (normalizeToEdges refs)))"
  proof
    assume "ref_id s \<in> set (map (\<lambda>(e, r). route_to r) (route_pairs (normalizeToEdges refs)))"
    then obtain e r where "(e, r) \<in> set (route_pairs (normalizeToEdges refs))" "route_to r = ref_id s" by auto
    then have "\<exists>p. p \<in> set (jget_or (inbound_of (normalizeToEdges refs)) (node_id n) [])"
      unfolding inbound_iff route_pairs_in s(2) by blast
    then show False using accepted_predecessors [OF assms(1,2)] assms(3) unfolding inbound_refs_iff by simp
  qed
  ultimately show ?thesis using s(3) by simp
qed

lemma accepted_reachable:
  assumes acc: "resolvePipelineDagFromRefs refs = Inr (stages, dag)"
    and uses: "\<exists>s\<in>set refs. ref_entry s = Some True \<or> toRouteEdges (ref_route s) \<noteq> []"
  shows "n \<in> set (nodes dag) \<Longrightarrow> is_entry n \<or> (\<exists>m\<in>set (nodes dag). is_entry m \<and> (node_id m, node_id n) \<in> (dag_edges dag)\<^sup>+)"
proof -
  have fin: "finite (dag_edges dag)"
  proof (rule finite_subset)
    show "dag_edges dag \<subseteq> (\<lambda>(n, p). (edge_id p, node_id n)) ` (SIGMA n:set (nodes dag). set (predecessorEdges n))"
      by (force simp: dag_edges_def image_iff)
  qed simp
  have "acyclic (dag_edges dag)" using accepted(2) [OF acc] accepted_edges [OF acc] by simp
  then have wf: "wf (dag_edges dag)" using fin by (rule finite_acyclic_wf [rotated])
  have "\<forall>n\<in>set (nodes dag). node_id n = i \<longrightarrow> is_entry n \<or>
      (\<exists>m\<in>set (nodes dag). is_entry m \<and> (node_id m, node_id n) \<in> (dag_edges dag)\<^sup>+)" for i
    using wf
  proof (induction i rule: wf_induct_rule)
    case (less i)
    show ?case
    proof (intro ballI impI)
      fix n assume n: "n \<in> set (nodes dag)" "node_id n = i"
      show "is_entry n \<or> (\<exists>m\<in>set (nodes dag). is_entry m \<and> (node_id m, node_id n) \<in> (dag_edges dag)\<^sup>+)"
      proof (cases "predecessorEdges n")
        case Nil
        then show ?thesis using accepted_root_entry [OF acc n(1) _ uses] by simp
      next
        case (Cons p ps)
        then have e: "(edge_id p, i) \<in> dag_edges dag" using n by (force simp: dag_edges_def)
        obtain q where q: "q \<in> set refs" "edge_id p = ref_id q"
          using accepted_predecessors [OF acc n(1), of p] Cons by (auto simp: ref_forward_def)
        then have "edge_id p \<in> set (map node_id (nodes dag))" using accepted_node_ids(2) [OF acc] by simp
        then obtain k where k: "k \<in> set (nodes dag)" "node_id k = edge_id p" by auto
        from less [OF e] k have "is_entry k \<or> (\<exists>m\<in>set (nodes dag). is_entry m \<and> (node_id m, node_id k) \<in> (dag_edges dag)\<^sup>+)"
          by blast
        moreover have "(node_id k, node_id n) \<in> dag_edges dag" using e k(2) n(2) by simp
        ultimately show ?thesis using k(1) by (meson r_into_trancl' trancl.trancl_into_trancl)
      qed
    qed
  qed
  then show "n \<in> set (nodes dag) \<Longrightarrow> is_entry n \<or> (\<exists>m\<in>set (nodes dag). is_entry m \<and> (node_id m, node_id n) \<in> (dag_edges dag)\<^sup>+)"
    by blast
qed

section \<open>Properties\<close>

definition mk_ref :: "string \<Rightarrow> PipelineRouteEntry list option \<Rightarrow> bool option \<Rightarrow> bool option \<Rightarrow> PipelineStageRef" where
  "mk_ref i route entry safe =
     \<lparr>ref_id = i, ref_route = route, ref_entry = entry, ref_completion = None, ref_recovery = None,
      ref_replay_safe = safe\<rparr>"

definition to_stage :: "string \<Rightarrow> PipelineRouteEntry" where
  "to_stage t = Forward t (Some (OnMany [OnState NtSucceeded])) None"

definition loop_stage :: "string \<Rightarrow> PipelineRouteEntry" where
  "loop_stage t = Loop \<lparr>loop_to = t, loop_max_replays = 2, loop_on_max_replays = WaitForHuman, loop_replay_session = Resume\<rparr>"

definition sample_refs :: "PipelineStageRef list" where
  "sample_refs =
     [mk_ref ''d'' (Some [loop_stage ''b'']) None None,
      mk_ref ''a'' (Some [to_stage ''b'', to_stage ''c'']) (Some True) (Some False),
      mk_ref ''b'' (Some [to_stage ''d'']) None None,
      mk_ref ''c'' (Some [to_stage ''d'']) None None]"

definition sample_dag :: ResolvedPipelineDag where
  "sample_dag = snd (projr (resolvePipelineDagFromRefs sample_refs))"

lemma sample_resolves: "resolvePipelineDagFromRefs sample_refs = Inr ([''d'', ''a'', ''b'', ''c''], sample_dag)"
  by code_simp

definition cyclic_refs :: "PipelineStageRef list" where
  "cyclic_refs =
     [mk_ref ''a'' (Some [to_stage ''b'']) (Some True) None, mk_ref ''b'' (Some [to_stage ''c'']) None None,
      mk_ref ''c'' (Some [to_stage ''b'']) None None]"

text \<open>
  C33: a pipeline whose refs pass the wiring checks is rejected with \<open>dependency cycle detected\<close>
  exactly when the relation of its authored forward routes has a cycle.
\<close>

theorem resolve_cycle_iff:
  "wiring_error (normalizeToEdges refs) = None \<Longrightarrow>
   resolvePipelineDagFromRefs refs = Inl DependencyCycle \<longleftrightarrow> \<not> acyclic (route_relation refs)"
proof -
  assume w: "wiring_error (normalizeToEdges refs) = None"
  have "detectCycle (merged_edges refs) = None \<or> detectCycle (merged_edges refs) = Some DependencyCycle"
    by (auto simp: detectCycle_def Let_def split: prod.split)
  moreover have "validateFeedbackLoopFields dag \<noteq> Some DependencyCycle" for dag
  proof -
    have "first_error (validate_loop_node dag) ns \<noteq> Some DependencyCycle" for ns
      by (induction ns) (auto simp: validate_loop_node_def Let_def split: option.splits if_splits)
    then show ?thesis by (simp add: validateFeedbackLoopFields_def)
  qed
  ultimately show ?thesis
    using w detectCycle_iff [OF merged_wf [OF w]] merged_relation [OF w]
    by (auto simp: resolvePipelineDagFromRefs_def buildResolvedPipelineDag_def Let_def merged_edges_def [symmetric]
        split: option.splits)
qed

theorem resolve_cycle_iff_witness: "\<not> acyclic (route_relation cyclic_refs)"
proof -
  have "wiring_error (normalizeToEdges cyclic_refs) = None" by code_simp
  from resolve_cycle_iff [OF this] show ?thesis
    by (rule iffD1) code_simp
qed

text \<open>
  C35: the memoised recursion for the ancestors never runs out of the depth it is given, whatever
  the refs: it is reached only on acyclic edges, where the number of stages bounds the depth.
\<close>

theorem resolve_ancestors_terminate: "resolvePipelineDagFromRefs refs \<noteq> Inl AncestorsDiverge"
proof (cases "wiring_error (normalizeToEdges refs)")
  case None
  have "validateFeedbackLoopFields dag \<noteq> Some AncestorsDiverge" for dag
  proof -
    have "first_error (validate_loop_node dag) ns \<noteq> Some AncestorsDiverge" for ns
      by (induction ns) (auto simp: validate_loop_node_def Let_def split: option.splits if_splits)
    then show ?thesis by (simp add: validateFeedbackLoopFields_def)
  qed
  moreover have "detectCycle (merged_edges refs) = None \<Longrightarrow> computeAncestors (merged_edges refs) \<noteq> None"
    using computeAncestors_correct [OF merged_wf [OF None]] detectCycle_iff [OF merged_wf [OF None]] by auto
  moreover have "detectCycle g \<noteq> Some AncestorsDiverge" for g
    by (auto simp: detectCycle_def Let_def split: prod.split)
  ultimately show ?thesis using None
    by (cases "detectCycle (merged_edges refs)")
      (auto simp: resolvePipelineDagFromRefs_def buildResolvedPipelineDag_def Let_def merged_edges_def [symmetric]
        split: option.splits)
next
  case (Some e)
  have "wiring_error g \<noteq> Some AncestorsDiverge" for g
  proof -
    have "duplicate_loop es seen \<noteq> Some AncestorsDiverge" for es seen
      by (induction es seen rule: duplicate_loop.induct) auto
    then have "detectDuplicateIds g \<noteq> Some AncestorsDiverge" by (simp add: detectDuplicateIds_def)
    moreover have "validateRouteTargets g \<noteq> Some AncestorsDiverge"
      by (auto simp: validateRouteTargets_def split: option.splits)
    moreover have "validateRouteLoopEntryCount g \<noteq> Some AncestorsDiverge"
      by (auto simp: validateRouteLoopEntryCount_def)
    moreover have "validateEntryStageUsage g \<noteq> Some AncestorsDiverge"
      by (auto simp: validateEntryStageUsage_def Let_def)
    ultimately show ?thesis using first_of_SomeD unfolding wiring_error_def by fastforce
  qed
  with Some show ?thesis by (auto simp: resolvePipelineDagFromRefs_def Let_def)
qed

text \<open>
  C34: the nodes of an accepted pipeline are its stages, each once, in a topological order: every
  predecessor of a node stands before it; and the node's edges are exactly the authored forward
  routes into it, with their \<open>on\<close> lists and conditions.
\<close>

theorem resolve_topological:
  "resolvePipelineDagFromRefs refs = Inr (stages, dag) \<Longrightarrow>
   stages = map ref_id refs \<and> distinct stages \<and>
   distinct (map node_id (nodes dag)) \<and> set (map node_id (nodes dag)) = set stages \<and>
   (\<forall>xs n ys. nodes dag = xs @ n # ys \<longrightarrow> edge_id ` set (predecessorEdges n) \<subseteq> node_id ` set xs) \<and>
   (\<forall>n\<in>set (nodes dag). \<forall>p. p \<in> set (predecessorEdges n) \<longleftrightarrow> (\<exists>s\<in>set refs. ref_forward s (node_id n) p))"
proof (intro conjI allI impI ballI)
  assume acc: "resolvePipelineDagFromRefs refs = Inr (stages, dag)"
  note wf = merged_wf [OF accepted(1) [OF acc]]
  show "stages = map ref_id refs" using accepted(3) [OF acc] .
  then show "distinct stages" using wiring_ok(1) [OF accepted(1) [OF acc]] by simp
  show "distinct (map node_id (nodes dag))" "set (map node_id (nodes dag)) = set stages"
    using accepted_node_ids [OF acc] accepted(3) [OF acc] by simp_all
  show "p \<in> set (predecessorEdges n) \<longleftrightarrow> (\<exists>s\<in>set refs. ref_forward s (node_id n) p)"
    if "n \<in> set (nodes dag)" for n p
    using accepted_predecessors [OF acc that] .
  fix xs n ys assume split: "nodes dag = xs @ n # ys"
  then have "map node_id (nodes dag) = map node_id xs @ node_id n # map node_id ys" by simp
  then have ord: "topo.order (merged_edges refs) = map node_id xs @ node_id n # map node_id ys"
    unfolding accepted_nodes(1) [OF acc] .
  from accepted_nodes(2) [OF acc, of n] split obtain e s where
    e: "e \<in> set (merged_edges refs)" "merged_from refs s e" "node_id n = ref_id s" "predecessorEdges n = ne_needsEdges e"
    by auto
  have "node_id n = ne_id e" using e(2,3) by (simp add: merged_from_def)
  then have "(edge_id p, node_id n) \<in> dag_relation (merged_edges refs)" if "p \<in> set (predecessorEdges n)" for p
    using e(1,4) that unfolding dag_relation_def by auto
  then show "edge_id ` set (predecessorEdges n) \<subseteq> node_id ` set xs"
    using topo.order_precedes [OF wf _ ord] topo_edges [OF wf] by auto
qed

theorem resolve_topological_witness:
  "distinct (map node_id (nodes sample_dag)) \<and> set (map node_id (nodes sample_dag)) = {''a'', ''b'', ''c'', ''d''}"
  using resolve_topological [OF sample_resolves] by auto

text \<open>
  the \<open>ancestors\<close> of every node of an accepted pipeline are exactly its transitive
  predecessors, each listed once and after all of its own predecessors.
\<close>

theorem resolve_ancestors:
  "resolvePipelineDagFromRefs refs = Inr (stages, dag) \<Longrightarrow> n \<in> set (nodes dag) \<Longrightarrow>
   distinct (ancestors n) \<and> set (ancestors n) = {a. (a, node_id n) \<in> (dag_edges dag)\<^sup>+} \<and>
   closed_list (dag_edges dag) (ancestors n)"
  using accepted_nodes(2) accepted_edges unfolding ancestors_ok_def by metis

theorem resolve_ancestors_witness:
  "\<exists>n\<in>set (nodes sample_dag). node_id n = ''d'' \<and> {''a'', ''b'', ''c''} = {a. (a, ''d'') \<in> (dag_edges sample_dag)\<^sup>+}"
proof -
  have "\<exists>n\<in>set (nodes sample_dag). node_id n = ''d'' \<and> ancestors n = [''a'', ''b'', ''c'']" by code_simp
  then obtain n where n: "n \<in> set (nodes sample_dag)" "node_id n = ''d''" "ancestors n = [''a'', ''b'', ''c'']" by blast
  with resolve_ancestors [OF sample_resolves n(1)] show ?thesis by auto
qed

text \<open>
  A feedback loop of an accepted pipeline goes back to a proper ancestor of its source, and
  no stage on any path from that target to the source (both ends included) is marked
  \<open>replay_safe: false\<close>.
\<close>

theorem resolve_loops_replay_safe:
  "resolvePipelineDagFromRefs refs = Inr (stages, dag) \<Longrightarrow> n \<in> set (nodes dag) \<Longrightarrow>
   feedback_loop n = Some policy \<Longrightarrow>
   (fl_target policy, node_id n) \<in> (dag_edges dag)\<^sup>+ \<and>
   (\<forall>m\<in>set (nodes dag).
      (node_id m = fl_target policy \<or> (fl_target policy, node_id m) \<in> (dag_edges dag)\<^sup>+) \<and>
      (m = n \<or> (node_id m, node_id n) \<in> (dag_edges dag)\<^sup>+) \<longrightarrow> replay_safe m \<noteq> Some False)"
proof (intro conjI ballI impI)
  assume acc: "resolvePipelineDagFromRefs refs = Inr (stages, dag)" and n: "n \<in> set (nodes dag)"
    and fl: "feedback_loop n = Some policy"
  from accepted_nodes(2) [OF acc n] have "ancestors_ok (dag_edges dag) (ancestors n) (node_id n)"
    unfolding accepted_edges [OF acc] by blast
  with accepted_loop_span(1) [OF acc n fl] show "(fl_target policy, node_id n) \<in> (dag_edges dag)\<^sup>+"
    by (auto simp: ancestors_ok_def)
  fix m assume m: "m \<in> set (nodes dag)" and
    b: "(node_id m = fl_target policy \<or> (fl_target policy, node_id m) \<in> (dag_edges dag)\<^sup>+) \<and>
      (m = n \<or> (node_id m, node_id n) \<in> (dag_edges dag)\<^sup>+)"
  then have "node_id m \<in> set (loop_span n (fl_target policy))"
    by (intro accepted_between_in_span [OF acc n fl]) auto
  then show "replay_safe m \<noteq> Some False" using accepted_loop_span(2) [OF acc n fl _ m refl] by blast
qed

theorem resolve_loops_replay_safe_witness: "(''b'', ''d'') \<in> (dag_edges sample_dag)\<^sup>+"
proof -
  have "\<exists>n\<in>set (nodes sample_dag). node_id n = ''d'' \<and> map_option fl_target (feedback_loop n) = Some ''b''" by code_simp
  then obtain n where n: "n \<in> set (nodes sample_dag)" "node_id n = ''d''" "map_option fl_target (feedback_loop n) = Some ''b''"
    by blast
  then obtain p where "feedback_loop n = Some p" "fl_target p = ''b''" by (cases "feedback_loop n") auto
  with resolve_loops_replay_safe [OF sample_resolves n(1)] n(2) show ?thesis by auto
qed

text \<open>
  in an accepted pipeline that uses the \<open>route\<close>/\<open>entry\<close> vocabulary every stage is an entry
  stage or reachable from one along the DAG's edges.
\<close>

theorem resolve_reachable_from_entry:
  "resolvePipelineDagFromRefs refs = Inr (stages, dag) \<Longrightarrow>
   \<exists>s\<in>set refs. ref_entry s = Some True \<or> toRouteEdges (ref_route s) \<noteq> [] \<Longrightarrow>
   \<forall>n\<in>set (nodes dag). is_entry n \<or>
     (\<exists>m\<in>set (nodes dag). is_entry m \<and> (node_id m, node_id n) \<in> (dag_edges dag)\<^sup>+)"
  using accepted_reachable by blast

theorem resolve_reachable_from_entry_witness:
  "\<exists>m\<in>set (nodes sample_dag). is_entry m \<and> (node_id m, ''d'') \<in> (dag_edges sample_dag)\<^sup>+"
proof -
  have uses: "\<exists>s\<in>set sample_refs. ref_entry s = Some True \<or> toRouteEdges (ref_route s) \<noteq> []"
    by (simp add: sample_refs_def mk_ref_def)
  have "\<exists>n\<in>set (nodes sample_dag). node_id n = ''d'' \<and> \<not> is_entry n" by code_simp
  with resolve_reachable_from_entry [OF sample_resolves uses] show ?thesis by metis
qed

end
