(* ===== verification/Js_Number.thy ===== *)
theory Js_Number
  imports Prelude
begin

text \<open>
  Decimal printing of a counter in a template literal and \<open>Number(s)\<close> on a string: white space
  is trimmed, the empty string is 0, hexadecimal, octal and binary integers carry a prefix, and a
  decimal literal has a sign, a fraction and an exponent.  The value is the exact rational; the
  code asks only whether it is an integer, and the rounding of literals beyond 53 bits to a
  double is not modelled.  \<open>Infinity\<close> and malformed strings give \<open>None\<close>, which like \<open>NaN\<close> is
  no integer.
\<close>

section \<open>Digits\<close>

definition digit_char :: "nat \<Rightarrow> char" where
  "digit_char d = ''0123456789'' ! d"

fun show_nat :: "nat \<Rightarrow> string" where
  "show_nat n = (if n < 10 then [digit_char n] else show_nat (n div 10) @ [digit_char (n mod 10)])"

declare show_nat.simps [simp del]

definition digit_value :: "char \<Rightarrow> nat option" where
  "digit_value c =
     (let n = (of_char c :: nat) in
      if 48 \<le> n \<and> n \<le> 57 then Some (n - 48)
      else if 97 \<le> n \<and> n \<le> 102 then Some (n - 87)
      else if 65 \<le> n \<and> n \<le> 70 then Some (n - 55)
      else None)"

text \<open>All characters are digits below the base; the value, most significant digit first.\<close>

fun digits_value :: "nat \<Rightarrow> nat \<Rightarrow> string \<Rightarrow> nat option" where
  "digits_value base acc [] = Some acc"
| "digits_value base acc (c # cs) =
     (case digit_value c of
        None \<Rightarrow> None
      | Some d \<Rightarrow> if d < base then digits_value base (acc * base + d) cs else None)"

definition is_decimal :: "char \<Rightarrow> bool" where
  "is_decimal c = (case digit_value c of None \<Rightarrow> False | Some d \<Rightarrow> d < 10)"

section \<open>Numeric strings\<close>

definition is_space :: "char \<Rightarrow> bool" where
  "is_space c = ((of_char c :: nat) \<in> {9, 10, 11, 12, 13, 32, 160})"

definition trim :: "string \<Rightarrow> string" where
  "trim s = rev (dropWhile is_space (rev (dropWhile is_space s)))"

text \<open>The sign of a literal, if it has one: \<open>True\<close> for minus.\<close>

fun split_sign :: "string \<Rightarrow> bool \<times> string" where
  "split_sign [] = (False, [])"
| "split_sign (c # cs) =
     (if c = CHR ''-'' then (True, cs) else if c = CHR ''+'' then (False, cs) else (False, c # cs))"

definition exponent_value :: "string \<Rightarrow> rat option" where
  "exponent_value s =
     (case split_sign s of (neg, ds) \<Rightarrow>
        if ds = [] then None
        else map_option (\<lambda>e. if neg then 1 / 10 ^ e else 10 ^ e) (digits_value 10 0 ds))"

text \<open>The fraction digits and what follows them.\<close>

fun split_fraction :: "string \<Rightarrow> string \<times> string" where
  "split_fraction [] = ([], [])"
| "split_fraction (c # cs) =
     (if c = CHR ''.'' then (takeWhile is_decimal cs, dropWhile is_decimal cs) else ([], c # cs))"

definition decimal_value :: "string \<Rightarrow> rat option" where
  "decimal_value s =
     (case split_fraction (dropWhile is_decimal s) of (decs, rest) \<Rightarrow>
        let whole = takeWhile is_decimal s in
        if whole = [] \<and> decs = [] then None
        else case digits_value 10 0 (whole @ decs) of
          None \<Rightarrow> None
        | Some m \<Rightarrow>
            (case rest of
               [] \<Rightarrow> Some (of_nat m / 10 ^ length decs)
             | e # ex \<Rightarrow>
                 if e = CHR ''e'' \<or> e = CHR ''E''
                 then map_option (\<lambda>x. of_nat m / 10 ^ length decs * x) (exponent_value ex)
                 else None))"

text \<open>The base and the digits of a prefixed literal.\<close>

fun split_radix :: "string \<Rightarrow> (nat \<times> string) option" where
  "split_radix (z # x # ds) =
     (if z \<noteq> CHR ''0'' then None
      else if x = CHR ''x'' \<or> x = CHR ''X'' then Some (16, ds)
      else if x = CHR ''o'' \<or> x = CHR ''O'' then Some (8, ds)
      else if x = CHR ''b'' \<or> x = CHR ''B'' then Some (2, ds)
      else None)"
| "split_radix _ = None"

definition js_number :: "string \<Rightarrow> rat option" where
  "js_number text =
     (let s = trim text in
      if s = [] then Some 0
      else case split_radix s of
        Some (base, ds) \<Rightarrow> if ds = [] then None else map_option of_nat (digits_value base 0 ds)
      | None \<Rightarrow>
          (case split_sign s of (neg, ds) \<Rightarrow> map_option (\<lambda>q. if neg then - q else q) (decimal_value ds)))"

text \<open>\<open>Number.isInteger(Number(s))\<close>, with the integer.\<close>

definition js_integer :: "string \<Rightarrow> int option" where
  "js_integer s =
     (case js_number s of None \<Rightarrow> None | Some q \<Rightarrow> if of_int \<lfloor>q\<rfloor> = q then Some \<lfloor>q\<rfloor> else None)"

section \<open>Printing and reading back\<close>

lemma digit_char_table: "digit_char ` {..<10} = set ''0123456789''"
proof -
  have "{..<10} = {0, 1, 2, 3, 4, 5, 6, 7, 8, 9::nat}" by auto
  then show ?thesis by (simp add: digit_char_def)
qed

lemma digit_char_mem: "d < 10 \<Longrightarrow> digit_char d \<in> set ''0123456789''"
  using digit_char_table by blast

lemma digit_value_char: "d < 10 \<Longrightarrow> digit_value (digit_char d) = Some d"
proof -
  have "\<forall>d\<in>{0, 1, 2, 3, 4, 5, 6, 7, 8, 9::nat}. digit_value (digit_char d) = Some d"
    by (simp add: digit_char_def digit_value_def)
  moreover assume "d < 10"
  then have "d \<in> {0, 1, 2, 3, 4, 5, 6, 7, 8, 9}" by auto
  ultimately show ?thesis by blast
qed

lemma digits_no_space: "c \<in> set ''0123456789'' \<Longrightarrow> \<not> is_space c"
proof -
  have "\<forall>c\<in>set ''0123456789''. \<not> is_space c" by (simp add: is_space_def)
  then show "c \<in> set ''0123456789'' \<Longrightarrow> \<not> is_space c" by blast
qed

lemma digits_no_sign:
  "c \<in> set ''0123456789'' \<Longrightarrow> c \<notin> set ''-+xXoObB~''"
proof -
  have "set ''0123456789'' \<inter> set ''-+xXoObB~'' = {}" by simp
  then show "c \<in> set ''0123456789'' \<Longrightarrow> c \<notin> set ''-+xXoObB~''" by blast
qed

lemma digit_char_facts:
  "d < 10 \<Longrightarrow> digit_value (digit_char d) = Some d \<and> \<not> is_space (digit_char d) \<and> digit_char d \<notin> set ''-+xXoObB~''"
  using digit_value_char digit_char_mem digits_no_space digits_no_sign by blast

lemma digits_value_append:
  "digits_value b acc (xs @ ys) = Option.bind (digits_value b acc xs) (\<lambda>a. digits_value b a ys)"
  by (induction xs arbitrary: acc) (auto split: option.splits)

lemma show_nat_digits: "\<forall>c\<in>set (show_nat n). \<exists>d<10. c = digit_char d"
proof (induction n rule: show_nat.induct)
  case (1 n)
  show ?case
  proof (cases "n < 10")
    case True
    then show ?thesis by (subst show_nat.simps) auto
  next
    case False
    have "n mod 10 < 10" by simp
    then have "\<exists>d<10. digit_char (n mod 10) = digit_char d" by blast
    then show ?thesis using 1 [OF False] False by (subst show_nat.simps) auto
  qed
qed

lemma show_nat_value: "digits_value 10 0 (show_nat n) = Some n"
proof (induction n rule: show_nat.induct)
  case (1 n)
  show ?case
  proof (cases "n < 10")
    case True
    then show ?thesis by (subst show_nat.simps) (simp add: digit_char_facts)
  next
    case False
    then show ?thesis
      using 1 [OF False] digit_char_facts [of "n mod 10"]
      by (subst show_nat.simps) (simp add: digits_value_append mult.commute)
  qed
qed

lemma show_nat_nonempty [simp]: "show_nat n \<noteq> []"
  by (subst show_nat.simps) simp

lemma show_nat_inj: "show_nat m = show_nat n \<Longrightarrow> m = n"
  by (metis show_nat_value option.inject)

lemma trim_id: "\<forall>c\<in>set s. \<not> is_space c \<Longrightarrow> trim s = s"
proof -
  assume a: "\<forall>c\<in>set s. \<not> is_space c"
  have d: "dropWhile is_space xs = xs" if "\<forall>c\<in>set xs. \<not> is_space c" for xs
    using that by (cases xs) auto
  have "dropWhile is_space s = s" "dropWhile is_space (rev s) = rev s" using d [of s] d [of "rev s"] a by auto
  then show ?thesis by (simp add: trim_def)
qed

lemma takeWhile_all: "\<forall>c\<in>set s. P c \<Longrightarrow> takeWhile P s = s \<and> dropWhile P s = []"
  by (induction s) auto

lemma js_number_show_nat: "js_number (show_nat n) = Some (of_nat n)"
proof -
  have dig: "c \<in> set (show_nat n) \<Longrightarrow> \<exists>d<10. c = digit_char d" for c using show_nat_digits by blast
  have sp: "\<forall>c\<in>set (show_nat n). \<not> is_space c" using dig digit_char_facts by blast
  have "\<forall>c\<in>set (show_nat n). is_decimal c"
    using dig digit_char_facts by (fastforce simp: is_decimal_def)
  then have dec: "decimal_value (show_nat n) = Some (of_nat n)"
    by (simp add: decimal_value_def Let_def show_nat_value takeWhile_all)
  obtain c cs where s: "show_nat n = c # cs" by (cases "show_nat n") auto
  have no: "x \<notin> set ''-+xXoObB~''" if "x \<in> set (show_nat n)" for x
    using dig [OF that] digit_char_facts by blast
  have sign: "split_sign (show_nat n) = (False, show_nat n)" using no [of c] s by auto
  have "split_radix (show_nat n) = None"
  proof (cases cs)
    case (Cons d ds)
    then show ?thesis using no [of d] s by auto
  qed (simp add: s)
  then show ?thesis using sign dec by (simp add: js_number_def trim_id [OF sp])
qed

lemma js_integer_show_nat: "js_integer (show_nat n) = Some (int n)"
  by (simp add: js_integer_def js_number_show_nat)

end
