(* ===== verification/Dag_Snapshot.thy ===== *)
theory Dag_Snapshot
  imports Pipeline_Types Js_Number
begin

text \<open>
  Clone instance ids (\<open>runstore/stageInstanceId.ts\<close>) and the DAG snapshot of a run
  (\<open>runstore/pipelineDagSnapshot.ts\<close>): the snapshot taken when a run starts, the linear snapshot
  of old runs, and the fan-out that replaces a catalog stage by its instances.
\<close>

section \<open>Instance ids\<close>

datatype clone_error =
    NotPositiveInteger string
  | UnsafeStageId
  | CatalogNotInSnapshot string
  | PredecessorNotInSnapshot string
  | InstanceAlreadyExists string
  | MissingNodeAfterFanOut string

text \<open>\<open>s.includes(p)\<close>.\<close>

fun includes_sub :: "string \<Rightarrow> string \<Rightarrow> bool" where
  "includes_sub p [] = (p = [])"
| "includes_sub p (c # cs) = (strip_prefix p (c # cs) \<noteq> None \<or> includes_sub p cs)"

definition guardStageId :: "string \<Rightarrow> bool" where
  "guardStageId s = (\<not> (includes_sub ''..'' s \<or> includes_sub ''/'' s \<or> includes_sub [CHR 0x5C] s))"

definition instance_name :: "string \<Rightarrow> nat \<Rightarrow> string" where
  "instance_name catalogId n = catalogId @ ''~'' @ show_nat n"

definition mintCloneInstanceId :: "string \<Rightarrow> nat \<Rightarrow> clone_error + string" where
  "mintCloneInstanceId catalogId n =
     (if n < 1 then Inl (NotPositiveInteger ''n'')
      else if \<not> guardStageId catalogId then Inl UnsafeStageId
      else if \<not> guardStageId (instance_name catalogId n) then Inl UnsafeStageId
      else Inr (instance_name catalogId n))"

fun mint_from :: "string \<Rightarrow> nat \<Rightarrow> nat \<Rightarrow> clone_error + string list" where
  "mint_from catalogId startAt 0 = Inr []"
| "mint_from catalogId startAt (Suc k) =
     (case mintCloneInstanceId catalogId startAt of
        Inl e \<Rightarrow> Inl e
      | Inr i \<Rightarrow> (case mint_from catalogId (Suc startAt) k of Inl e \<Rightarrow> Inl e | Inr is \<Rightarrow> Inr (i # is)))"

definition mintCloneInstanceIds :: "string \<Rightarrow> nat \<Rightarrow> nat \<Rightarrow> clone_error + string list" where
  "mintCloneInstanceIds catalogId count startAt =
     (if count < 1 then Inl (NotPositiveInteger ''count'')
      else if startAt < 1 then Inl (NotPositiveInteger ''startAt'')
      else mint_from catalogId startAt count)"

definition cloneInstanceOrdinal :: "string \<Rightarrow> string \<Rightarrow> int option" where
  "cloneInstanceOrdinal instanceId catalogId =
     (case strip_prefix (catalogId @ ''~'') instanceId of
        None \<Rightarrow> None
      | Some rest \<Rightarrow>
          (case js_integer rest of None \<Rightarrow> None | Some n \<Rightarrow> if n < 1 then None else Some n))"

definition definition_of :: "ResolvedPipelineStageNode \<Rightarrow> string" where
  "definition_of n = (case definition_id n of Some d \<Rightarrow> d | None \<Rightarrow> node_id n)"

definition definitionIdForInstance :: "ResolvedPipelineDag \<Rightarrow> string \<Rightarrow> string" where
  "definitionIdForInstance snapshot i =
     (case find_node snapshot i of None \<Rightarrow> i | Some n \<Rightarrow> definition_of n)"

section \<open>Snapshots\<close>

record LoadedStage =
  loaded_id :: string
  loaded_gate_kinds :: "string list option"
  loaded_clone_input_schema :: "jsval option"

definition collect_field :: "(LoadedStage \<Rightarrow> 'a option) \<Rightarrow> LoadedStage list \<Rightarrow> (string, 'a) jsmap" where
  "collect_field f stages =
     foldl (\<lambda>m s. case f s of None \<Rightarrow> m | Some v \<Rightarrow> jset m (loaded_id s) v) [] stages"

definition buildPipelineDagSnapshotFromLoaded ::
  "string list \<Rightarrow> LoadedStage list \<Rightarrow> ResolvedPipelineDag \<Rightarrow> ResolvedPipelineDag" where
  "buildPipelineDagSnapshotFromLoaded pipeline_stages stages dag =
     \<lparr>nodes = map (\<lambda>n. n\<lparr>definition_id := Some (node_id n)\<rparr>) (nodes dag),
      roots = roots dag, childrenOf = childrenOf dag, stage_ids = Some pipeline_stages,
      gate_kinds = collect_field loaded_gate_kinds stages,
      clone_input_schema = collect_field loaded_clone_input_schema stages\<rparr>"

definition plain_node :: "string \<Rightarrow> ResolvedPipelineStageNode" where
  "plain_node i =
     \<lparr>node_id = i, needs = None, needsEdges = None, ancestors = [], stageIndex = 0, fork = None,
      clone_cap = None, clone_mode = None, clone_array_field = None, definition_id = None,
      completion = None, recovery = None, feedback_loop = None, replay_safe = None, is_entry = False\<rparr>"

definition linear_node :: "string list \<Rightarrow> nat \<Rightarrow> ResolvedPipelineStageNode" where
  "linear_node stageIds index =
     (plain_node (stageIds ! index))
       \<lparr>needs := (if index = 0 then None else Some (stageIds ! (index - 1))),
        needsEdges := Some (if index = 0 then [] else [succeeded_edge (stageIds ! (index - 1))]),
        ancestors := (if index = 0 then [] else take index stageIds),
        stageIndex := index,
        definition_id := Some (stageIds ! index)\<rparr>"

definition linear_children :: "string list \<Rightarrow> (string, string list) jsmap" where
  "linear_children stageIds =
     foldl (\<lambda>m i. jset m (stageIds ! (i - 1)) (jget_or m (stageIds ! (i - 1)) [] @ [stageIds ! i])) []
       [1..<length stageIds]"

definition linearCompatDagSnapshot :: "string list \<Rightarrow> ResolvedPipelineDag" where
  "linearCompatDagSnapshot stageIds =
     \<lparr>nodes = map (linear_node stageIds) [0..<length stageIds],
      roots = (if stageIds \<noteq> [] then [stageIds ! 0] else []),
      childrenOf = linear_children stageIds, stage_ids = Some stageIds, gate_kinds = [],
      clone_input_schema = []\<rparr>"

text \<open>\<open>snapshot.stage_ids\<close>, which the callers of these functions know to be an array.\<close>

definition snapshot_ids :: "ResolvedPipelineDag \<Rightarrow> string list" where
  "snapshot_ids s = (case stage_ids s of Some ids \<Rightarrow> ids | None \<Rightarrow> [])"

definition instancesOfDefinition :: "ResolvedPipelineDag \<Rightarrow> string \<Rightarrow> string list" where
  "instancesOfDefinition snapshot catalogId =
     (let nodeById = jmap_by node_id (nodes snapshot)
      in List.filter (\<lambda>i. map_option definition_of (jget nodeById i) = Some catalogId) (snapshot_ids snapshot))"

section \<open>Fan-out\<close>

definition instance_indices :: "string list \<Rightarrow> string \<Rightarrow> nat list" where
  "instance_indices ids catalogId =
     map fst (List.filter (\<lambda>(i, s). s \<noteq> catalogId \<and> strip_prefix (catalogId @ ''~'') s \<noteq> None) (enumerate 0 ids))"

definition minted_node ::
  "string \<Rightarrow> ResolvedPipelineStageNode \<Rightarrow> ResolvedPipelineStageNode \<Rightarrow> string \<Rightarrow> ResolvedPipelineStageNode" where
  "minted_node catalogId predNode templateNode i =
     (plain_node i)
       \<lparr>needs := Some (node_id predNode),
        needsEdges := Some [succeeded_edge (node_id predNode)],
        ancestors := ancestors predNode @ [node_id predNode],
        definition_id := Some catalogId,
        fork := fork templateNode, completion := completion templateNode,
        recovery := recovery templateNode, feedback_loop := feedback_loop templateNode,
        replay_safe := replay_safe templateNode\<rparr>"

text \<open>\<open>stage_ids.map((id, index) => ...)\<close>, which throws at the first id without a node.\<close>

fun place_nodes ::
  "(string, ResolvedPipelineStageNode) jsmap \<Rightarrow> (string, ResolvedPipelineStageNode) jsmap
   \<Rightarrow> nat \<Rightarrow> string list \<Rightarrow> clone_error + ResolvedPipelineStageNode list" where
  "place_nodes minted remaining index [] = Inr []"
| "place_nodes minted remaining index (i # ids) =
     (case (case jget minted i of Some n \<Rightarrow> Some n | None \<Rightarrow> jget remaining i) of
        None \<Rightarrow> Inl (MissingNodeAfterFanOut i)
      | Some n \<Rightarrow>
          (case place_nodes minted remaining (Suc index) ids of
             Inl e \<Rightarrow> Inl e
           | Inr ns \<Rightarrow> Inr (n\<lparr>stageIndex := index\<rparr> # ns)))"

definition fan_out_children ::
  "(string, string list) jsmap \<Rightarrow> string \<Rightarrow> string \<Rightarrow> string list \<Rightarrow> string option \<Rightarrow> (string, string list) jsmap" where
  "fan_out_children ch catalogId predecessorId instanceIds definitionParent =
     (let predChildren = jget_or ch predecessorId [];
          ch1 = jset ch predecessorId
            (case index_of predChildren catalogId of
               None \<Rightarrow> predChildren @ instanceIds
             | Some k \<Rightarrow> take k predChildren @ instanceIds @ drop (Suc k) predChildren)
      in case definitionParent of
           None \<Rightarrow> ch1
         | Some p \<Rightarrow>
             if p = [] \<or> p = predecessorId then ch1
             else (let kept = List.filter (\<lambda>i. i \<noteq> catalogId) (jget_or ch1 p [])
                   in if kept = [] then jdel (jset ch1 p kept) p else jset ch1 p kept))"

text \<open>The new \<open>stage_ids\<close>: in place of the catalog stage, or after its last instance.\<close>

definition splice_ids :: "string list \<Rightarrow> string \<Rightarrow> string list \<Rightarrow> string list" where
  "splice_ids ids catalogId instanceIds =
     (case index_of ids catalogId of
        Some k \<Rightarrow> take k ids @ instanceIds @ drop (Suc k) ids
      | None \<Rightarrow>
          (let insertAt = Suc (Max (set (instance_indices ids catalogId)))
           in take insertAt ids @ instanceIds @ drop insertAt ids))"

definition template_node :: "ResolvedPipelineDag \<Rightarrow> string \<Rightarrow> ResolvedPipelineStageNode option" where
  "template_node snapshot catalogId =
     (case find_node snapshot catalogId of
        Some n \<Rightarrow> Some n
      | None \<Rightarrow> List.find (\<lambda>n. definition_id n = Some catalogId) (nodes snapshot))"

definition fan_out ::
  "ResolvedPipelineDag \<Rightarrow> string \<Rightarrow> ResolvedPipelineStageNode \<Rightarrow> ResolvedPipelineStageNode \<Rightarrow> string list
   \<Rightarrow> clone_error + (ResolvedPipelineDag \<times> string list)" where
  "fan_out snapshot catalogId predNode templateNode instanceIds =
     (let ids' = splice_ids (snapshot_ids snapshot) catalogId instanceIds;
          minted = jmap_by node_id (map (minted_node catalogId predNode templateNode) instanceIds);
          remaining = jmap_by node_id (List.filter (\<lambda>n. node_id n \<noteq> catalogId) (nodes snapshot))
      in case place_nodes minted remaining 0 ids' of
           Inl e \<Rightarrow> Inl e
         | Inr ns \<Rightarrow>
             Inr (snapshot\<lparr>stage_ids := Some ids', nodes := ns,
                    childrenOf := fan_out_children (childrenOf snapshot) catalogId (node_id predNode)
                      instanceIds (Option.bind (find_node snapshot catalogId) needs)\<rparr>,
                  instanceIds))"

definition appendCloneInstances ::
  "ResolvedPipelineDag \<Rightarrow> string \<Rightarrow> string \<Rightarrow> nat \<Rightarrow> nat
   \<Rightarrow> clone_error + (ResolvedPipelineDag \<times> string list)" where
  "appendCloneInstances snapshot catalogId predecessorId count startAt =
     (let ids = snapshot_ids snapshot in
      if index_of ids catalogId = None \<and> instance_indices ids catalogId = []
      then Inl (CatalogNotInSnapshot catalogId)
      else case find_node snapshot predecessorId of
        None \<Rightarrow> Inl (PredecessorNotInSnapshot predecessorId)
      | Some predNode \<Rightarrow>
        (case mintCloneInstanceIds catalogId count startAt of
           Inl e \<Rightarrow> Inl e
         | Inr instanceIds \<Rightarrow>
           (case List.find (\<lambda>i. i \<in> set ids \<or> i \<in> node_id ` set (nodes snapshot)) instanceIds of
              Some i \<Rightarrow> Inl (InstanceAlreadyExists i)
            | None \<Rightarrow>
              (case template_node snapshot catalogId of
                 None \<Rightarrow> Inl (CatalogNotInSnapshot catalogId)
               | Some templateNode \<Rightarrow> fan_out snapshot catalogId predNode templateNode instanceIds))))"

section \<open>Instance ids read back\<close>

lemma ordinal_of_instance_name:
  "1 \<le> n \<Longrightarrow> cloneInstanceOrdinal (instance_name catalogId n) catalogId = Some (int n)"
  using strip_prefix_append [of "catalogId @ ''~''" "show_nat n"]
  by (simp add: cloneInstanceOrdinal_def instance_name_def js_integer_show_nat)

lemma mint_from_names:
  "mint_from catalogId startAt k = Inr ids \<Longrightarrow>
   ids = map (instance_name catalogId) [startAt..<startAt + k] \<and> (k > 0 \<longrightarrow> 1 \<le> startAt)"
proof (induction k arbitrary: startAt ids)
  case (Suc k)
  then obtain rest where "mint_from catalogId (Suc startAt) k = Inr rest" "mintCloneInstanceId catalogId startAt = Inr (hd ids)"
    "ids = hd ids # rest" by (auto split: sum.splits)
  with Suc.IH [of "Suc startAt" rest] show ?case
    by (auto simp: mintCloneInstanceId_def upt_rec [of startAt] split: if_splits)
qed simp

lemma instance_name_inj: "instance_name c m = instance_name c n \<Longrightarrow> m = n"
  by (auto simp: instance_name_def dest: show_nat_inj)

lemma minted_ids:
  assumes "mintCloneInstanceIds catalogId count startAt = Inr ids"
  shows "ids = map (instance_name catalogId) [startAt..<startAt + count]" "distinct ids" "length ids = count"
    "1 \<le> startAt" "1 \<le> count"
proof -
  show ids: "ids = map (instance_name catalogId) [startAt..<startAt + count]" and "1 \<le> startAt" "1 \<le> count"
    using assms mint_from_names [of catalogId startAt count ids]
    by (auto simp: mintCloneInstanceIds_def split: if_splits)
  show "length ids = count" by (simp add: ids)
  show "distinct ids" unfolding ids distinct_map by (auto intro: inj_onI dest: instance_name_inj)
qed

section \<open>Well-formed snapshots\<close>

definition wf_snapshot :: "ResolvedPipelineDag \<Rightarrow> bool" where
  "wf_snapshot s \<longleftrightarrow> stage_ids s \<noteq> None \<and> distinct (snapshot_ids s) \<and>
     distinct (map node_id (nodes s)) \<and> set (snapshot_ids s) = node_id ` set (nodes s)"

lemma place_nodes_spec:
  "place_nodes minted remaining k ids = Inr ns \<Longrightarrow>
   (\<And>i n. jget minted i = Some n \<Longrightarrow> node_id n = i) \<Longrightarrow> (\<And>i n. jget remaining i = Some n \<Longrightarrow> node_id n = i) \<Longrightarrow>
   map node_id ns = ids \<and>
   (\<forall>n\<in>set ns. \<exists>m j. n = m\<lparr>stageIndex := j\<rparr> \<and>
      (jget minted (node_id n) = Some m \<or> jget minted (node_id n) = None \<and> jget remaining (node_id n) = Some m))"
proof (induction minted remaining k ids arbitrary: ns rule: place_nodes.induct)
  case (2 minted remaining k i ids)
  from "2.prems"(1) obtain n ns' where n: "(case jget minted i of Some n \<Rightarrow> Some n | None \<Rightarrow> jget remaining i) = Some n"
    and ns': "place_nodes minted remaining (Suc k) ids = Inr ns'" and ns: "ns = n\<lparr>stageIndex := k\<rparr> # ns'"
    by (auto split: option.splits sum.splits)
  have i: "node_id n = i" using n "2.prems"(2,3) by (auto split: option.splits)
  have "jget minted i = Some n \<or> jget minted i = None \<and> jget remaining i = Some n"
    using n by (auto split: option.splits)
  with "2.IH" [OF n ns' "2.prems"(2,3)] i show ?case unfolding ns by auto
qed simp

lemma place_nodes_total:
  "(\<And>i. i \<in> set ids \<Longrightarrow> jhas minted i \<or> jhas remaining i) \<Longrightarrow> \<exists>ns. place_nodes minted remaining k ids = Inr ns"
proof (induction ids arbitrary: k)
  case (Cons i ids)
  obtain ns where "place_nodes minted remaining (Suc k) ids = Inr ns" using Cons by auto
  moreover have "jhas minted i \<or> jhas remaining i" using Cons.prems by simp
  ultimately show ?case by (auto split: option.splits)
qed simp

lemma jget_jmap_by_key: "jget (jmap_by f xs) k = Some x \<Longrightarrow> f x = k \<and> x \<in> set xs"
  unfolding jget_jmap_by by (auto dest: find_SomeD)

lemma jhas_jmap_by: "jhas (jmap_by f xs) k \<longleftrightarrow> k \<in> f ` set xs"
  unfolding jget_jmap_by by (auto simp: find_eq_None_iff)

lemma minted_node_simps [simp]:
  "node_id (minted_node c p t i) = i" "definition_of (minted_node c p t i) = c"
  "predecessorEdges (minted_node c p t i) = [succeeded_edge (node_id p)]"
  "needs (minted_node c p t i) = Some (node_id p)"
  by (simp_all add: minted_node_def definition_of_def predecessorEdges_def plain_node_def)

lemma stageIndex_irrelevant [simp]:
  "definition_of (n\<lparr>stageIndex := j\<rparr>) = definition_of n"
  "predecessorEdges (n\<lparr>stageIndex := j\<rparr>) = predecessorEdges n"
  by (simp_all add: definition_of_def predecessorEdges_def nonempty_needs_def split: option.split)

lemma set_splice_ids:
  assumes "distinct ids" "set new \<inter> set ids = {}" "distinct new"
  shows "set (splice_ids ids c new) = set ids - {c} \<union> set new" "distinct (splice_ids ids c new)"
proof -
  have "set (splice_ids ids c new) = set ids - {c} \<union> set new \<and> distinct (splice_ids ids c new)"
  proof (cases "index_of ids c")
    case None
    let ?m = "Suc (Max (set (instance_indices ids c)))"
    have "c \<notin> set ids" using None by (simp add: index_of_None_iff)
    moreover have parts: "set (take ?m ids) \<union> set (drop ?m ids) = set ids" "set (take ?m ids) \<inter> set (drop ?m ids) = {}"
      using set_append [of "take ?m ids" "drop ?m ids"] assms(1) by (simp_all add: set_take_disj_set_drop_if_distinct)
    moreover have "distinct (take ?m ids)" "distinct (drop ?m ids)" using assms(1) by simp_all
    ultimately show ?thesis using assms(2,3) None by (auto simp: splice_ids_def Let_def)
  next
    case (Some k)
    have ids: "ids = take k ids @ c # drop (Suc k) ids"
      using index_of_SomeD [OF Some] by (metis id_take_nth_drop)
    have "distinct (take k ids @ c # drop (Suc k) ids)" using assms(1) ids by simp
    moreover have "set (take k ids) \<union> set (drop (Suc k) ids) = set ids - {c}"
      using arg_cong [OF ids, of set] calculation by auto
    ultimately show ?thesis using assms(2,3) Some by (auto simp: splice_ids_def)
  qed
  then show "set (splice_ids ids c new) = set ids - {c} \<union> set new" "distinct (splice_ids ids c new)" by blast+
qed

text \<open>What an accepted fan-out was computed from.\<close>

lemma append_accepted:
  assumes "appendCloneInstances s c p count startAt = Inr (s', new)"
  obtains predNode templateNode where
    "find_node s p = Some predNode" "mintCloneInstanceIds c count startAt = Inr new"
    "set new \<inter> set (snapshot_ids s) = {}" "set new \<inter> node_id ` set (nodes s) = {}"
    "fan_out s c predNode templateNode new = Inr (s', new)"
proof -
  note d = assms [unfolded appendCloneInstances_def Let_def]
  obtain predNode where p: "find_node s p = Some predNode"
    using d by (cases "find_node s p") (simp_all split: if_splits)
  obtain new' where m: "mintCloneInstanceIds c count startAt = Inr new'"
    using d p by (cases "mintCloneInstanceIds c count startAt") (simp_all split: if_splits)
  let ?clash = "List.find (\<lambda>i. i \<in> set (snapshot_ids s) \<or> i \<in> node_id ` set (nodes s)) new'"
  have f: "?clash = None" using d p m by (cases ?clash) (simp_all split: if_splits)
  obtain t where t: "template_node s c = Some t"
    using d p m f by (cases "template_node s c") (simp_all split: if_splits)
  have fan: "fan_out s c predNode t new' = Inr (s', new)" using d p m f t by (simp split: if_splits)
  then have "new' = new" by (simp add: fan_out_def Let_def split: sum.splits)
  with fan f m p show thesis by (intro that) (auto simp: find_eq_None_iff)
qed

lemma fan_out_spec:
  assumes wf: "wf_snapshot s" and f: "fan_out s c predNode templateNode new = Inr (s', new)"
    and new: "distinct new" "set new \<inter> set (snapshot_ids s) = {}" and pred: "predNode \<in> set (nodes s)"
  shows "snapshot_ids s' = splice_ids (snapshot_ids s) c new" "stage_ids s' \<noteq> None"
    "map node_id (nodes s') = snapshot_ids s'"
    "\<And>n. n \<in> set (nodes s') \<Longrightarrow> node_id n \<in> set new \<Longrightarrow>
       predecessorEdges n = [succeeded_edge (node_id predNode)] \<and> definition_of n = c \<and>
       needs n = Some (node_id predNode)"
    "\<And>n. n \<in> set (nodes s') \<Longrightarrow> node_id n \<notin> set new \<Longrightarrow>
       \<exists>m j. n = m\<lparr>stageIndex := j\<rparr> \<and> m \<in> set (nodes s) \<and> node_id m = node_id n"
proof -
  let ?ids = "splice_ids (snapshot_ids s) c new"
  let ?minted = "jmap_by node_id (map (minted_node c predNode templateNode) new)"
  let ?rem = "jmap_by node_id (List.filter (\<lambda>n. node_id n \<noteq> c) (nodes s))"
  from f obtain ns where ns: "place_nodes ?minted ?rem 0 ?ids = Inr ns"
    and s': "nodes s' = ns" "stage_ids s' = Some ?ids"
    by (auto simp: fan_out_def Let_def split: sum.splits)
  show ids: "snapshot_ids s' = ?ids" "stage_ids s' \<noteq> None" using s' by (simp_all add: snapshot_ids_def)
  have k1: "jget ?minted i = Some n \<Longrightarrow> node_id n = i" for i n by (drule jget_jmap_by_key) simp
  have k2: "jget ?rem i = Some n \<Longrightarrow> node_id n = i" for i n by (drule jget_jmap_by_key) simp
  note spec = place_nodes_spec [OF ns k1 k2]
  show "map node_id (nodes s') = snapshot_ids s'" using spec by (simp add: s' ids)
  have has: "jhas ?minted i \<longleftrightarrow> i \<in> set new" for i unfolding jhas_jmap_by by (simp add: image_image)
  fix n assume n: "n \<in> set (nodes s')"
  with spec s'(1) obtain m j where m: "n = m\<lparr>stageIndex := j\<rparr>"
    "jget ?minted (node_id n) = Some m \<or> jget ?minted (node_id n) = None \<and> jget ?rem (node_id n) = Some m"
    by blast
  { assume "node_id n \<in> set new"
    with has [of "node_id n"] m(2) have "jget ?minted (node_id n) = Some m" by auto
    then have "m \<in> minted_node c predNode templateNode ` set new" using jget_jmap_by_key by fastforce
    then show "predecessorEdges n = [succeeded_edge (node_id predNode)] \<and> definition_of n = c \<and>
        needs n = Some (node_id predNode)" using m(1) by auto }
  { assume "node_id n \<notin> set new"
    with has [of "node_id n"] m(2) have "jget ?rem (node_id n) = Some m" by auto
    from jget_jmap_by_key [OF this] m(1)
    show "\<exists>m j. n = m\<lparr>stageIndex := j\<rparr> \<and> m \<in> set (nodes s) \<and> node_id m = node_id n" by auto }
qed

lemma fan_out_total:
  assumes wf: "wf_snapshot s" and new: "distinct new" "set new \<inter> set (snapshot_ids s) = {}"
  shows "\<exists>s'. fan_out s c predNode templateNode new = Inr (s', new)"
proof -
  let ?minted = "jmap_by node_id (map (minted_node c predNode templateNode) new)"
  let ?rem = "jmap_by node_id (List.filter (\<lambda>n. node_id n \<noteq> c) (nodes s))"
  have d: "distinct (snapshot_ids s)" using wf by (simp add: wf_snapshot_def)
  have "jhas ?minted i \<or> jhas ?rem i" if "i \<in> set (splice_ids (snapshot_ids s) c new)" for i
    using that wf unfolding set_splice_ids(1) [OF d new(2,1)] jhas_jmap_by by (auto simp: wf_snapshot_def image_iff)
  from place_nodes_total [OF this] obtain ns where "place_nodes ?minted ?rem 0 (splice_ids (snapshot_ids s) c new) = Inr ns"
    by blast
  then show ?thesis by (simp add: fan_out_def Let_def)
qed

section \<open>Where the instances stand\<close>

lemma instances_nodes:
  assumes "distinct (map node_id (nodes s))"
  shows "instancesOfDefinition s c =
    List.filter (\<lambda>i. map_option definition_of (find_node s i) = Some c) (snapshot_ids s)"
  by (simp add: instancesOfDefinition_def Let_def jget_jmap_by_distinct [OF assms] find_node_def)

lemma instance_indices_mem:
  "i \<in> set (instance_indices ids c) \<longleftrightarrow>
     i < length ids \<and> ids ! i \<noteq> c \<and> strip_prefix (c @ ''~'') (ids ! i) \<noteq> None"
  by (auto simp: instance_indices_def in_set_enumerate_eq image_iff)

text \<open>
  The instances of a stage \<open>c\<close> carry minted names, and are all there is of \<open>c\<close> once it has been
  fanned out.
\<close>

definition named_instances :: "ResolvedPipelineDag \<Rightarrow> string \<Rightarrow> bool" where
  "named_instances s c \<longleftrightarrow>
     (\<forall>i\<in>set (instancesOfDefinition s c).
        if c \<in> set (snapshot_ids s) then i = c else strip_prefix (c @ ''~'') i \<noteq> None)"

lemma no_instance_after:
  assumes "index_of ids c = None" "j < length ids" "strip_prefix (c @ ''~'') (ids ! j) \<noteq> None"
  shows "j \<le> Max (set (instance_indices ids c))"
proof (rule Max_ge)
  have "ids ! j \<noteq> c" using assms(1,2) by (metis index_of_None_iff nth_mem)
  with assms show "j \<in> set (instance_indices ids c)" by (simp add: instance_indices_mem)
qed simp

lemma filter_splice:
  assumes "distinct ids" "set new \<inter> set ids = {}" "\<And>i. i \<in> set new \<Longrightarrow> P i"
    and "\<And>i. i \<in> set ids \<Longrightarrow> P i \<Longrightarrow> if c \<in> set ids then i = c else strip_prefix (c @ ''~'') i \<noteq> None"
  shows "List.filter P (splice_ids ids c new) = List.filter (\<lambda>i. P i \<and> i \<noteq> c) ids @ new"
proof (cases "index_of ids c")
  case None
  let ?m = "Suc (Max (set (instance_indices ids c)))"
  have c: "c \<notin> set ids" using None by (simp add: index_of_None_iff)
  have after: "List.filter P (drop ?m ids) = []"
  proof (rule ccontr)
    assume "List.filter P (drop ?m ids) \<noteq> []"
    then obtain i where i: "i \<in> set (drop ?m ids)" "P i" by (auto simp: filter_empty_conv)
    then obtain k where k: "k < length (drop ?m ids)" "drop ?m ids ! k = i" by (meson in_set_conv_nth)
    then have "?m + k < length ids" "ids ! (?m + k) = i" by auto
    moreover have "strip_prefix (c @ ''~'') i \<noteq> None" using assms(4) [of i] i c in_set_dropD by fastforce
    ultimately have "?m + k \<le> Max (set (instance_indices ids c))" using no_instance_after [OF None] by blast
    then show False by simp
  qed
  have "List.filter P ids = List.filter P (take ?m ids) @ List.filter P (drop ?m ids)"
    by (metis append_take_drop_id filter_append)
  moreover have "List.filter (\<lambda>i. P i \<and> i \<noteq> c) ids = List.filter P ids"
    using c by (intro filter_cong) auto
  moreover have "List.filter P new = new" using assms(3) by (simp add: filter_id_conv)
  ultimately show ?thesis using after None by (simp add: splice_ids_def Let_def)
next
  case (Some k)
  then have c: "c \<in> set ids" by (metis index_of_None_iff option.distinct(1))
  have ids: "ids = take k ids @ c # drop (Suc k) ids"
    using index_of_SomeD [OF Some] by (metis id_take_nth_drop)
  have only: "i \<in> set ids \<Longrightarrow> P i \<Longrightarrow> i = c" for i using assms(4) [of i] c by simp
  have d: "distinct (take k ids @ c # drop (Suc k) ids)" using ids assms(1) by simp
  have "List.filter P (take k ids) = []" "List.filter P (drop (Suc k) ids) = []"
    using only d by (auto simp: filter_empty_conv dest: in_set_takeD in_set_dropD)
  moreover have "List.filter (\<lambda>i. P i \<and> i \<noteq> c) ids = []" using only by (auto simp: filter_empty_conv)
  moreover have "List.filter P new = new" using assms(3) by (simp add: filter_id_conv)
  ultimately show ?thesis using Some by (simp add: splice_ids_def)
qed

lemma append_instances:
  assumes wf: "wf_snapshot s" and app: "appendCloneInstances s c p count startAt = Inr (s', new)"
    and named: "named_instances s c"
  shows "instancesOfDefinition s' c = List.filter (\<lambda>i. i \<noteq> c) (instancesOfDefinition s c) @ new"
proof -
  from append_accepted [OF app] obtain pn t where a: "find_node s p = Some pn"
    "mintCloneInstanceIds c count startAt = Inr new" "set new \<inter> set (snapshot_ids s) = {}"
    "fan_out s c pn t new = Inr (s', new)" by metis
  have dn: "distinct (map node_id (nodes s))" and di: "distinct (snapshot_ids s)"
    using wf by (simp_all add: wf_snapshot_def)
  note spec = fan_out_spec [OF wf a(4) minted_ids(2) [OF a(2)] a(3) conjunct1 [OF find_node_SomeD [OF a(1)]]]
  have d': "distinct (map node_id (nodes s'))"
    using set_splice_ids(2) [OF di a(3) minted_ids(2) [OF a(2)]] spec(1,3) by simp
  let ?P = "\<lambda>i. map_option definition_of (find_node s i) = Some c"
  let ?P' = "\<lambda>i. map_option definition_of (find_node s' i) = Some c"
  have new': "?P' i" if "i \<in> set new" for i
  proof -
    have "i \<in> set (snapshot_ids s')" using that set_splice_ids(1) [OF di a(3) minted_ids(2) [OF a(2)]] spec(1) by simp
    then have "i \<in> node_id ` set (nodes s')" using spec(3) by (metis set_map)
    then obtain n where n: "n \<in> set (nodes s')" "node_id n = i" by auto
    then show ?thesis using find_node_eq [OF d' n(1)] spec(4) [OF n(1)] that by simp
  qed
  have old: "?P' i \<longleftrightarrow> ?P i" if i: "i \<in> set (snapshot_ids s)" "i \<noteq> c" for i
  proof -
    have ni: "i \<notin> set new" using a(3) i(1) by blast
    have "i \<in> set (snapshot_ids s')" using i set_splice_ids(1) [OF di a(3) minted_ids(2) [OF a(2)]] spec(1) by simp
    then have "i \<in> node_id ` set (nodes s')" using spec(3) by (metis set_map)
    then obtain n where n: "n \<in> set (nodes s')" "node_id n = i" by auto
    from spec(5) [OF n(1)] ni n(2) obtain m j where m: "n = m\<lparr>stageIndex := j\<rparr>" "m \<in> set (nodes s)" "node_id m = i"
      by auto
    show ?thesis using find_node_eq [OF d' n(1)] find_node_eq [OF dn m(2)] n(2) m by simp
  qed
  have "instancesOfDefinition s' c = List.filter ?P' (splice_ids (snapshot_ids s) c new)"
    unfolding instances_nodes [OF d'] spec(1) ..
  also have "\<dots> = List.filter (\<lambda>i. if i \<in> set new then True else ?P i) (splice_ids (snapshot_ids s) c new)"
    using new' old set_splice_ids(1) [OF di a(3) minted_ids(2) [OF a(2)]] by (intro filter_cong) auto
  also have "\<dots> = List.filter (\<lambda>i. (if i \<in> set new then True else ?P i) \<and> i \<noteq> c) (snapshot_ids s) @ new"
  proof (rule filter_splice [OF di a(3)])
    fix i assume i: "i \<in> set (snapshot_ids s)" "if i \<in> set new then True else ?P i"
    then have "i \<in> set (instancesOfDefinition s c)" using a(3) by (auto simp: instances_nodes [OF dn] split: if_splits)
    then show "if c \<in> set (snapshot_ids s) then i = c else strip_prefix (c @ ''~'') i \<noteq> None"
      using named by (simp add: named_instances_def)
  qed simp
  also have "List.filter (\<lambda>i. (if i \<in> set new then True else ?P i) \<and> i \<noteq> c) (snapshot_ids s)
      = List.filter (\<lambda>i. i \<noteq> c) (instancesOfDefinition s c)"
    using a(3) by (auto simp: instances_nodes [OF dn] intro: filter_cong)
  finally show ?thesis .
qed

section \<open>Properties\<close>

definition linear_sample :: ResolvedPipelineDag where
  "linear_sample = linearCompatDagSnapshot [''plan'', ''build'', ''ship'']"

definition fanned_sample :: ResolvedPipelineDag where
  "fanned_sample = fst (projr (appendCloneInstances linear_sample ''build'' ''plan'' 2 1))"

lemma fanned_sample_append:
  "appendCloneInstances linear_sample ''build'' ''plan'' 2 1 = Inr (fanned_sample, [''build~1'', ''build~2''])"
  by code_simp

lemma wf_linear_sample: "wf_snapshot linear_sample"
  by code_simp

text \<open>
  Minted clone ids are pairwise different and read back as their ordinals, in the order the
  code minted them.
\<close>

theorem minted_ids_read_back:
  "mintCloneInstanceIds catalogId count startAt = Inr ids \<Longrightarrow>
   distinct ids \<and> length ids = count \<and>
   map (\<lambda>i. cloneInstanceOrdinal i catalogId) ids = map (\<lambda>n. Some (int n)) [startAt..<startAt + count]"
  using minted_ids [of catalogId count startAt ids] by (auto simp: ordinal_of_instance_name)

theorem minted_ids_read_back_witness: "cloneInstanceOrdinal ''build~12'' ''build'' = Some 12"
proof -
  have "mintCloneInstanceIds ''build'' 2 11 = Inr [''build~11'', ''build~12'']" by code_simp
  from minted_ids_read_back [OF this] show ?thesis by (simp add: upt_conv_Cons)
qed

text \<open>
  a fan-out keeps the snapshot well formed (one node per listed stage, no repetition): the
  catalog stage is replaced by exactly the new instances, each of which has the predecessor as
  its only, succeeded-only, parent and belongs to the catalog stage, and every other node is
  unchanged up to its position.
\<close>

theorem append_clone_instances_snapshot:
  "wf_snapshot s \<Longrightarrow> appendCloneInstances s c p count startAt = Inr (s', new) \<Longrightarrow>
   wf_snapshot s' \<and> map node_id (nodes s') = snapshot_ids s' \<and>
   set (snapshot_ids s') = set (snapshot_ids s) - {c} \<union> set new \<and> set new \<inter> set (snapshot_ids s) = {} \<and>
   (\<forall>n\<in>set (nodes s').
      if node_id n \<in> set new then predecessorEdges n = [succeeded_edge p] \<and> definition_of n = c
      else \<exists>m\<in>set (nodes s). \<exists>j. n = m\<lparr>stageIndex := j\<rparr>)"
proof -
  assume wf: "wf_snapshot s" and app: "appendCloneInstances s c p count startAt = Inr (s', new)"
  from append_accepted [OF app] obtain pn t where a: "find_node s p = Some pn"
    "mintCloneInstanceIds c count startAt = Inr new" "set new \<inter> set (snapshot_ids s) = {}"
    "fan_out s c pn t new = Inr (s', new)" by metis
  have pn: "pn \<in> set (nodes s)" "node_id pn = p" using find_node_SomeD [OF a(1)] by simp_all
  note spec = fan_out_spec [OF wf a(4) minted_ids(2) [OF a(2)] a(3) pn(1)]
  have di: "distinct (snapshot_ids s)" using wf by (simp add: wf_snapshot_def)
  note splice = set_splice_ids [OF di a(3) minted_ids(2) [OF a(2)], of c, folded spec(1)]
  have "wf_snapshot s'" using splice(2) spec(2,3) by (metis wf_snapshot_def set_map)
  moreover have "if node_id n \<in> set new then predecessorEdges n = [succeeded_edge p] \<and> definition_of n = c
      else \<exists>m\<in>set (nodes s). \<exists>j. n = m\<lparr>stageIndex := j\<rparr>" if "n \<in> set (nodes s')" for n
    using spec(4,5) [OF that] pn(2) by auto
  ultimately show ?thesis using splice(1) spec(3) a(3) by blast
qed

theorem append_clone_instances_snapshot_witness:
  "wf_snapshot fanned_sample \<and> set (snapshot_ids fanned_sample) = {''plan'', ''build~1'', ''build~2'', ''ship''}"
proof -
  have ids: "snapshot_ids linear_sample = [''plan'', ''build'', ''ship'']" by code_simp
  show ?thesis
    using append_clone_instances_snapshot [OF wf_linear_sample fanned_sample_append] unfolding ids by auto
qed

text \<open>
  After a fan-out, also one that adds instances to a stage that was fanned out before, the
  instances of the catalog stage are the earlier ones in their order followed by the new ones, so
  the last \<open>n\<close> instances are the latest cohort.
\<close>

lemma append_clone_instances_order:
  "wf_snapshot s \<Longrightarrow> named_instances s c \<Longrightarrow> appendCloneInstances s c p count startAt = Inr (s', new) \<Longrightarrow>
   instancesOfDefinition s' c = List.filter (\<lambda>i. i \<noteq> c) (instancesOfDefinition s c) @ new \<and>
   drop (length (instancesOfDefinition s' c) - count) (instancesOfDefinition s' c) = new"
proof -
  assume wf: "wf_snapshot s" and nm: "named_instances s c"
    and app: "appendCloneInstances s c p count startAt = Inr (s', new)"
  from append_accepted [OF app] have "length new = count" using minted_ids(3) by metis
  with append_instances [OF wf app nm] show ?thesis by simp
qed

theorem append_clone_instances_order_witness:
  "instancesOfDefinition fanned_sample ''build'' = [''build~1'', ''build~2'']"
proof -
  have n: "named_instances linear_sample ''build''" by code_simp
  have i: "instancesOfDefinition linear_sample ''build'' = [''build'']" by code_simp
  show ?thesis
    using append_clone_instances_order [OF wf_linear_sample n fanned_sample_append] unfolding i by simp
qed

end
