(* ===== verification/Traversal.thy ===== *)
theory Traversal
  imports Dag_Snapshot
begin

text \<open>
  The two worklist searches of the runtime: \<open>collectDownstreamStageIds\<close>
  (\<open>runtime/dagTraversal.ts\<close>), which marks a stage when it leaves the queue, and
  \<open>cloneRetryDownstream\<close> (\<open>runtime/cloneSchedule.ts\<close>), which marks it when it enters and never
  reports a seed.  Both satisfy the interface \<open>downstream_search\<close>, from which reachability follows.
\<close>

section \<open>Downstream of one stage\<close>

definition listed_ids :: "('a, 'a list) jsmap \<Rightarrow> 'a set" where
  "listed_ids ch = \<Union> (set ` snd ` set ch)"

lemma finite_listed_ids [simp]: "finite (listed_ids ch)"
  by (auto simp: listed_ids_def)

lemma jget_or_listed: "set (jget_or ch i []) \<subseteq> listed_ids ch"
proof (cases "jget ch i")
  case (Some cs)
  from map_of_SomeD [OF Some] show ?thesis unfolding listed_ids_def using Some by force
qed simp

function downstream_loop :: "('a, 'a list) jsmap \<Rightarrow> 'a list \<Rightarrow> 'a list \<Rightarrow> 'a list" where
  "downstream_loop ch [] downstream = downstream"
| "downstream_loop ch (i # queue) downstream =
     (if i \<in> set downstream then downstream_loop ch queue downstream
      else downstream_loop ch (queue @ jget_or ch i []) (downstream @ [i]))"
  by pat_completeness auto
termination
proof (relation "measures [\<lambda>(ch, q, d). card ((listed_ids ch \<union> set q) - set d), \<lambda>(ch, q, d). length q]", goal_cases)
  case (2 ch i queue downstream)
  have "(listed_ids ch \<union> set queue) - set downstream = (listed_ids ch \<union> set (i # queue)) - set downstream"
    using 2 by auto
  then show ?case by simp
next
  case (3 ch i queue downstream)
  have "(listed_ids ch \<union> set (queue @ jget_or ch i [])) - set (downstream @ [i])
      \<subset> (listed_ids ch \<union> set (i # queue)) - set downstream"
    using 3 jget_or_listed [of ch i] by auto
  then show ?case by (simp add: psubset_card_mono)
qed simp

definition collectDownstreamStageIds :: "ResolvedPipelineDag \<Rightarrow> string \<Rightarrow> string list" where
  "collectDownstreamStageIds dag rootId = downstream_loop (childrenOf dag) (children_of dag rootId) []"

definition collectDownstreamClosure :: "ResolvedPipelineDag \<Rightarrow> string list \<Rightarrow> string list" where
  "collectDownstreamClosure dag rootIds =
     foldl (\<lambda>downstream rootId. foldl jadd downstream (collectDownstreamStageIds dag rootId)) [] rootIds"

section \<open>Downstream of a retry\<close>

definition joinSuccessorIds :: "ResolvedPipelineDag \<Rightarrow> string \<Rightarrow> string list" where
  "joinSuccessorIds dag successorId =
     map node_id (List.filter (\<lambda>n. list_ex (\<lambda>e. edge_id e = successorId) (predecessorEdges n)) (nodes dag))"

definition retry_children :: "ResolvedPipelineDag \<Rightarrow> string \<Rightarrow> string list" where
  "retry_children dag i =
     (let defId = definitionIdForInstance dag i in
      jset_of (children_of dag i @ (if defId \<noteq> i then children_of dag defId else []) @
               joinSuccessorIds dag i @ (if defId \<noteq> i then joinSuccessorIds dag defId else [])))"

fun push_children :: "string list \<Rightarrow> string list \<Rightarrow> string list \<Rightarrow> string list \<Rightarrow> string list \<times> string list" where
  "push_children seeds [] downstream queue = (downstream, queue)"
| "push_children seeds (child # children) downstream queue =
     (if child \<in> set downstream \<or> child \<in> set seeds then push_children seeds children downstream queue
      else push_children seeds children (downstream @ [child]) (queue @ [child]))"

lemma push_children_append:
  "\<exists>news. push_children seeds cs d q = (d @ news, q @ news) \<and> distinct news \<and>
     set news = set cs - set d - set seeds"
proof (induction seeds cs d q rule: push_children.induct)
  case (2 seeds c cs d q)
  show ?case
  proof (cases "c \<in> set d \<or> c \<in> set seeds")
    case True
    with 2(1) [OF True] show ?thesis by auto
  next
    case False
    with 2(2) [OF False] obtain news where
      "push_children seeds cs (d @ [c]) (q @ [c]) = ((d @ [c]) @ news, (q @ [c]) @ news)" "distinct news"
      "set news = set cs - set (d @ [c]) - set seeds" by blast
    with False show ?thesis by (intro exI [of _ "c # news"]) auto
  qed
qed (auto intro: exI [of _ "[]"])

definition dag_ids :: "ResolvedPipelineDag \<Rightarrow> string set" where
  "dag_ids dag = listed_ids (childrenOf dag) \<union> node_id ` set (nodes dag)"

lemma retry_children_ids: "set (retry_children dag i) \<subseteq> dag_ids dag"
  using jget_or_listed [of "childrenOf dag"]
  by (auto simp: retry_children_def Let_def dag_ids_def children_of_def joinSuccessorIds_def split: if_splits)

function retry_loop :: "ResolvedPipelineDag \<Rightarrow> string list \<Rightarrow> string list \<Rightarrow> string list \<Rightarrow> string list" where
  "retry_loop dag seeds [] downstream = downstream"
| "retry_loop dag seeds (i # queue) downstream =
     (case push_children seeds (retry_children dag i) downstream queue of
        (downstream', queue') \<Rightarrow> retry_loop dag seeds queue' downstream')"
  by pat_completeness auto
termination
proof (relation "measure (\<lambda>(dag, seeds, q, d). length q + card (dag_ids dag - set d))", goal_cases)
  case (2 dag seeds i queue downstream downstream' queue')
  obtain news where n: "downstream' = downstream @ news" "queue' = queue @ news" "distinct news"
    "set news = set (retry_children dag i) - set downstream - set seeds"
    using push_children_append [of seeds "retry_children dag i" downstream queue] 2 by auto
  have fin: "finite (dag_ids dag)" by (simp add: dag_ids_def)
  have sub: "set news \<subseteq> dag_ids dag - set downstream" using n(4) retry_children_ids [of dag i] by auto
  have "card (dag_ids dag - set downstream') = card (dag_ids dag - set downstream) - length news"
  proof -
    have "dag_ids dag - set downstream' = (dag_ids dag - set downstream) - set news" using n(1) by auto
    then show ?thesis using sub fin n(3) by (simp add: card_Diff_subset distinct_card)
  qed
  moreover have "length news \<le> card (dag_ids dag - set downstream)"
    using card_mono [OF _ sub] fin n(3) by (simp add: distinct_card)
  ultimately show ?case using n(2) by simp
qed simp

definition cloneRetryDownstream :: "ResolvedPipelineDag \<Rightarrow> string list \<Rightarrow> string list" where
  "cloneRetryDownstream dag stageIds = retry_loop dag stageIds stageIds []"

section \<open>The interface\<close>

text \<open>
  A search from seeds: what it reports is reachable, it is closed under successors except for
  what it must not report, and it reports none of that.
\<close>

locale downstream_search =
  fixes succs :: "'g \<Rightarrow> 'a \<Rightarrow> 'a list"
    and seeds :: "'q \<Rightarrow> 'a set"
    and excluded :: "'q \<Rightarrow> 'a set"
    and result :: "'g \<Rightarrow> 'q \<Rightarrow> 'a list"
  assumes reported_reachable:
      "set (result g q) \<subseteq> {(x, y). y \<in> set (succs g x)}\<^sup>+ `` seeds q"
    and closed: "x \<in> seeds q \<union> set (result g q) \<Longrightarrow> set (succs g x) \<subseteq> set (result g q) \<union> excluded q"
    and none_excluded: "set (result g q) \<inter> excluded q = {}"
    and excluded_seeds: "excluded q \<subseteq> seeds q"
begin

lemma result_eq: "set (result g q) = {(x, y). y \<in> set (succs g x)}\<^sup>+ `` seeds q - excluded q"
proof -
  have "y \<in> set (result g q) \<union> excluded q"
    if "(x, y) \<in> {(x, y). y \<in> set (succs g x)}\<^sup>+" "x \<in> seeds q" for x y
    using that
  proof (induction rule: trancl_induct)
    case (base y)
    then show ?case using closed [of x q g] by auto
  next
    case (step y z)
    then have "y \<in> seeds q \<union> set (result g q)" using excluded_seeds by blast
    with step.hyps closed [of y q g] show ?case by auto
  qed
  then show ?thesis using reported_reachable [of g q] none_excluded [of g q] by blast
qed

end

section \<open>Both searches provide it\<close>

lemma downstream_loop_sound:
  "(\<And>x. x \<in> set q \<union> set d \<Longrightarrow> x \<in> R) \<Longrightarrow>
   (\<And>x. x \<in> R \<Longrightarrow> set (jget_or ch x []) \<subseteq> R) \<Longrightarrow> set (downstream_loop ch q d) \<subseteq> R"
proof (induction ch q d rule: downstream_loop.induct)
  case (2 ch i q d)
  show ?case
  proof (cases "i \<in> set d")
    case True
    then show ?thesis using "2.IH"(1) "2.prems" by auto
  next
    case False
    have "set (downstream_loop ch (q @ jget_or ch i []) (d @ [i])) \<subseteq> R"
    proof (rule "2.IH"(2) [OF False])
      fix x assume "x \<in> set (q @ jget_or ch i []) \<union> set (d @ [i])"
      then show "x \<in> R" using "2.prems"(1) "2.prems"(2) [of i] by auto
    qed (rule "2.prems"(2))
    then show ?thesis using False by simp
  qed
qed auto

lemma downstream_loop_closed:
  "(\<And>x. x \<in> set d \<Longrightarrow> set (jget_or ch x []) \<subseteq> set d \<union> set q) \<Longrightarrow>
   set q \<union> set d \<subseteq> set (downstream_loop ch q d) \<and>
   (\<forall>x\<in>set (downstream_loop ch q d). set (jget_or ch x []) \<subseteq> set (downstream_loop ch q d))"
proof (induction ch q d rule: downstream_loop.induct)
  case (2 ch i q d)
  show ?case
  proof (cases "i \<in> set d")
    case True
    have "set q \<union> set d \<subseteq> set (downstream_loop ch q d) \<and>
      (\<forall>x\<in>set (downstream_loop ch q d). set (jget_or ch x []) \<subseteq> set (downstream_loop ch q d))"
      by (rule "2.IH"(1) [OF True]) (use "2.prems" True in fastforce)
    with True show ?thesis by auto
  next
    case False
    have "set (q @ jget_or ch i []) \<union> set (d @ [i]) \<subseteq> set (downstream_loop ch (q @ jget_or ch i []) (d @ [i])) \<and>
      (\<forall>x\<in>set (downstream_loop ch (q @ jget_or ch i []) (d @ [i])).
         set (jget_or ch x []) \<subseteq> set (downstream_loop ch (q @ jget_or ch i []) (d @ [i])))"
      by (rule "2.IH"(2) [OF False]) (use "2.prems" in fastforce)
    with False show ?thesis by auto
  qed
qed auto

interpretation plain: downstream_search children_of "\<lambda>r. {r}" "\<lambda>_. {}" collectDownstreamStageIds
proof unfold_locales
  fix g :: ResolvedPipelineDag and q x :: string
  let ?R = "{(x, y). y \<in> set (children_of g x)}"
  show "set (collectDownstreamStageIds g q) \<subseteq> ?R\<^sup>+ `` {q}"
    unfolding collectDownstreamStageIds_def
  proof (rule downstream_loop_sound)
    fix x assume "x \<in> set (children_of g q) \<union> set []"
    then show "x \<in> ?R\<^sup>+ `` {q}" by auto
  next
    fix x assume "x \<in> ?R\<^sup>+ `` {q}"
    then show "set (jget_or (childrenOf g) x []) \<subseteq> ?R\<^sup>+ `` {q}"
      by (auto simp: children_of_def elim: trancl_into_trancl)
  qed
  assume "x \<in> {q} \<union> set (collectDownstreamStageIds g q)"
  then show "set (children_of g x) \<subseteq> set (collectDownstreamStageIds g q) \<union> {}"
    using downstream_loop_closed [of "[]" "childrenOf g" "children_of g q"]
    by (auto simp: collectDownstreamStageIds_def children_of_def)
qed auto

lemma retry_loop_sound:
  "set q \<union> set d \<subseteq> R \<Longrightarrow> (\<And>x. x \<in> R \<Longrightarrow> set (retry_children dag x) \<subseteq> R \<union> set seeds) \<Longrightarrow>
   set d \<inter> set seeds = {} \<Longrightarrow>
   set (retry_loop dag seeds q d) \<subseteq> R \<and> set (retry_loop dag seeds q d) \<inter> set seeds = {}"
proof (induction dag seeds q d rule: retry_loop.induct)
  case (2 dag seeds i q d)
  obtain news where n: "push_children seeds (retry_children dag i) d q = (d @ news, q @ news)"
    "set news = set (retry_children dag i) - set d - set seeds"
    using push_children_append by blast
  have "set (retry_children dag i) \<subseteq> R \<union> set seeds" using "2.prems"(1,2) by auto
  with n(2) "2.prems" have "set (q @ news) \<union> set (d @ news) \<subseteq> R" "set (d @ news) \<inter> set seeds = {}" by auto
  from "2.IH" [OF n(1) [symmetric] this(1) "2.prems"(2) this(2)] show ?case using n(1) by simp
qed auto

lemma retry_loop_closed:
  "(\<And>x. x \<in> set seeds \<union> set d \<Longrightarrow> x \<in> set q \<or> set (retry_children dag x) \<subseteq> set d \<union> set seeds) \<Longrightarrow>
   set d \<subseteq> set (retry_loop dag seeds q d) \<and>
   (\<forall>x\<in>set seeds \<union> set (retry_loop dag seeds q d).
      set (retry_children dag x) \<subseteq> set (retry_loop dag seeds q d) \<union> set seeds)"
proof (induction dag seeds q d rule: retry_loop.induct)
  case (2 dag seeds i q d)
  obtain news where n: "push_children seeds (retry_children dag i) d q = (d @ news, q @ news)"
    "set news = set (retry_children dag i) - set d - set seeds"
    using push_children_append by blast
  have "x \<in> set (q @ news) \<or> set (retry_children dag x) \<subseteq> set (d @ news) \<union> set seeds"
    if "x \<in> set seeds \<union> set (d @ news)" for x
    using "2.prems" [of x] that n(2) by auto
  from "2.IH" [OF n(1) [symmetric] this] show ?case using n(1) by auto
qed auto

interpretation retry: downstream_search retry_children set set cloneRetryDownstream
proof unfold_locales
  fix g :: ResolvedPipelineDag and q :: "string list" and x :: string
  let ?R = "{(x, y). y \<in> set (retry_children g x)}"
  have "set (retry_loop g q q []) \<subseteq> set q \<union> ?R\<^sup>+ `` set q \<and> set (retry_loop g q q []) \<inter> set q = {}"
  proof (rule retry_loop_sound)
    fix x assume "x \<in> set q \<union> ?R\<^sup>+ `` set q"
    then show "set (retry_children g x) \<subseteq> set q \<union> ?R\<^sup>+ `` set q \<union> set q"
      by (auto elim: trancl_into_trancl)
  qed auto
  then show "set (cloneRetryDownstream g q) \<subseteq> ?R\<^sup>+ `` set q" "set (cloneRetryDownstream g q) \<inter> set q = {}"
    by (auto simp: cloneRetryDownstream_def)
  assume "x \<in> set q \<union> set (cloneRetryDownstream g q)"
  then show "set (retry_children g x) \<subseteq> set (cloneRetryDownstream g q) \<union> set q"
    using retry_loop_closed [of q "[]" q g] by (auto simp: cloneRetryDownstream_def)
qed auto

section \<open>Properties\<close>

text \<open>
  C38: \<open>collectDownstreamStageIds\<close> returns exactly the stages that \<open>childrenOf\<close> leads to from the
  root in one or more steps.
\<close>

theorem collectDownstreamStageIds_reachable:
  "set (collectDownstreamStageIds dag rootId) = {y. (rootId, y) \<in> {(x, y). y \<in> set (children_of dag x)}\<^sup>+}"
  using plain.result_eq [of dag rootId] by auto

text \<open>
  the stages invalidated by a retry are exactly those reachable from the retried stages
  through \<open>childrenOf\<close> and predecessor edges, each resolved through the clone instance and its
  definition, without the retried stages themselves.
\<close>

theorem cloneRetryDownstream_reachable:
  "set (cloneRetryDownstream dag stageIds) =
     {y. \<exists>x\<in>set stageIds. (x, y) \<in> {(x, y). y \<in> set (retry_children dag x)}\<^sup>+} - set stageIds"
  using retry.result_eq [of dag stageIds] by auto

end
