(* ===== verification/Join_Readiness.thy ===== *)
theory Join_Readiness
  imports Route_If Dag_Snapshot
begin

text \<open>
  When a pending stage may start: \<open>runtime/joinReadiness.ts\<close>.  A join over several parents (or
  over the clone instances a parent was fanned out into) decides once every parent is terminal;
  the last section compares the three tests of the code with one verdict.
\<close>

section \<open>Parents of a join\<close>

definition definitionInstances :: "ResolvedPipelineDag \<Rightarrow> string \<Rightarrow> string list" where
  "definitionInstances dag catalogId =
     (if stage_ids dag \<noteq> None then instancesOfDefinition dag catalogId
      else if list_ex (\<lambda>n. node_id n = catalogId) (nodes dag) then [catalogId] else [])"

definition expandJoinParent :: "ResolvedPipelineDag \<Rightarrow> string \<Rightarrow> string list" where
  "expandJoinParent dag catalogParentId =
     (let minted = List.filter (\<lambda>i. i \<noteq> catalogParentId) (definitionInstances dag catalogParentId)
      in if minted \<noteq> [] then minted else [catalogParentId])"

definition expandJoinParents :: "ResolvedPipelineDag \<Rightarrow> PipelineNeedEdge list \<Rightarrow> string list" where
  "expandJoinParents dag es = concat (map (\<lambda>e. expandJoinParent dag (edge_id e)) es)"

datatype disposition =
    NotAllTerminal
  | AllTerminal (has_failed: bool) (has_succeeded: bool) (has_skipped: bool)

fun disposition_loop :: "sched_states \<Rightarrow> string list \<Rightarrow> bool \<Rightarrow> bool \<Rightarrow> bool \<Rightarrow> disposition" where
  "disposition_loop states [] hasFailed hasSucceeded hasSkipped = AllTerminal hasFailed hasSucceeded hasSkipped"
| "disposition_loop states (i # ids) hasFailed hasSucceeded hasSkipped =
     (case isNeedTerminalState (jget states i) of
        None \<Rightarrow> NotAllTerminal
      | Some st \<Rightarrow>
          disposition_loop states ids (hasFailed \<or> st = NtFailed) (hasSucceeded \<or> st = NtSucceeded)
            (hasSkipped \<or> st = NtSkipped))"

definition joinParentDisposition ::
  "ResolvedPipelineDag \<Rightarrow> PipelineNeedEdge list \<Rightarrow> sched_states \<Rightarrow> disposition option" where
  "joinParentDisposition dag es states =
     (let instances = expandJoinParents dag es
      in if instances = [] then None else Some (disposition_loop states instances False False False))"

section \<open>Conditions on the inbound edges\<close>

definition payload_of :: "envelopes \<Rightarrow> string \<Rightarrow> jsobj option" where
  "payload_of envs i = Option.bind (jget envs i) env_payload"

definition inboundEdgeFired :: "PipelineNeedEdge \<Rightarrow> string \<Rightarrow> sched_states \<Rightarrow> envelopes \<Rightarrow> bool" where
  "inboundEdgeFired e parentId states envs =
     (case edge_if e of
        None \<Rightarrow> True
      | Some p \<Rightarrow>
          if jget states parentId \<noteq> Some Succeeded then False
          else evaluateRouteIf p (payload_of envs parentId) = Fire)"

definition inboundEdgeMissed :: "PipelineNeedEdge \<Rightarrow> string \<Rightarrow> envelopes \<Rightarrow> bool" where
  "inboundEdgeMissed e parentId envs =
     (case edge_if e of None \<Rightarrow> False | Some p \<Rightarrow> evaluateRouteIf p (payload_of envs parentId) = Miss)"

definition everySucceededInboundEdgeFired ::
  "ResolvedPipelineDag \<Rightarrow> PipelineNeedEdge list \<Rightarrow> sched_states \<Rightarrow> envelopes \<Rightarrow> bool" where
  "everySucceededInboundEdgeFired dag es states envs =
     list_all (\<lambda>e. list_all (\<lambda>i. inboundEdgeFired e i states envs) (expandJoinParent dag (edge_id e))) es"

definition anySucceededInboundEdgeMissed ::
  "ResolvedPipelineDag \<Rightarrow> PipelineNeedEdge list \<Rightarrow> envelopes \<Rightarrow> bool" where
  "anySucceededInboundEdgeMissed dag es envs =
     list_ex (\<lambda>e. list_ex (\<lambda>i. inboundEdgeMissed e i envs) (expandJoinParent dag (edge_id e))) es"

section \<open>Readiness\<close>

definition multiParentJoinAllowsRun ::
  "ResolvedPipelineDag \<Rightarrow> ResolvedPipelineStageNode \<Rightarrow> sched_states \<Rightarrow> envelopes \<Rightarrow> bool" where
  "multiParentJoinAllowsRun dag node states envs =
     (let es = predecessorEdges node in
      if length (expandJoinParents dag es) < 2 then False
      else case joinParentDisposition dag es states of
        None \<Rightarrow> False
      | Some NotAllTerminal \<Rightarrow> False
      | Some (AllTerminal hasFailed hasSucceeded hasSkipped) \<Rightarrow>
          if hasFailed then False
          else if \<not> hasSucceeded then False
          else if \<not> hasSkipped then everySucceededInboundEdgeFired dag es states envs
          else True)"

definition isStalledMultiParentJoin ::
  "ResolvedPipelineDag \<Rightarrow> ResolvedPipelineStageNode \<Rightarrow> sched_states \<Rightarrow> envelopes \<Rightarrow> bool" where
  "isStalledMultiParentJoin dag node states envs =
     (let es = predecessorEdges node in
      if length es \<le> 1 then False
      else case joinParentDisposition dag es states of
        None \<Rightarrow> False
      | Some NotAllTerminal \<Rightarrow> False
      | Some (AllTerminal hasFailed hasSucceeded hasSkipped) \<Rightarrow>
          if hasFailed then False
          else if \<not> hasSucceeded then True
          else if hasSkipped then False
          else anySucceededInboundEdgeMissed dag es envs)"

definition joinAllowsRun :: "ResolvedPipelineDag \<Rightarrow> string \<Rightarrow> sched_states \<Rightarrow> envelopes \<Rightarrow> bool" where
  "joinAllowsRun dag stageId states envs =
     (case find_node dag stageId of
        None \<Rightarrow> False
      | Some node \<Rightarrow>
          (case predecessorEdges node of
             [] \<Rightarrow> True
           | e # es \<Rightarrow>
               if length (expandJoinParents dag (e # es)) \<ge> 2
               then multiParentJoinAllowsRun dag node states envs
               else (let parentNeedId = (case nonempty_needs node of Some p \<Rightarrow> p | None \<Rightarrow> edge_id e);
                         parentId = hd (expandJoinParent dag parentNeedId)
                     in if jget states parentId \<noteq> Some Succeeded then False
                        else if edge_if e = None then True
                        else inboundEdgeFired e parentId states envs)))"

datatype InboundAfterSuccess = Ungated | Gated RouteIfEval

definition classifyInboundAfterSuccess ::
  "ResolvedPipelineStageNode \<Rightarrow> string \<Rightarrow> jsobj option \<Rightarrow> InboundAfterSuccess" where
  "classifyInboundAfterSuccess node parentId payload =
     (case Option.bind (List.find (\<lambda>e. edge_id e = parentId) (predecessorEdges node)) edge_if of
        None \<Rightarrow> Ungated
      | Some p \<Rightarrow> Gated (evaluateRouteIf p payload))"

definition isEagerSingleParentIfSkip ::
  "ResolvedPipelineStageNode \<Rightarrow> string \<Rightarrow> jsobj option \<Rightarrow> bool" where
  "isEagerSingleParentIfSkip node parentId payload =
     (if length (predecessorEdges node) \<noteq> 1 then False
      else classifyInboundAfterSuccess node parentId payload = Gated Miss)"

definition pickStalledJoinSkips :: "ResolvedPipelineDag \<Rightarrow> sched_states \<Rightarrow> envelopes \<Rightarrow> string list" where
  "pickStalledJoinSkips dag states completedEnvelopes =
     map node_id (List.filter (\<lambda>n. jget states (node_id n) = Some Pending \<and>
                                   isStalledMultiParentJoin dag n states completedEnvelopes) (nodes dag))"

section \<open>One verdict for a multi-parent join\<close>

datatype join_verdict = JoinRuns | JoinSkips | JoinPends

text \<open>
  The contract, over the set of the parents' states: wait for all of them; any failure pends; all
  skipped skips; a skipped sibling beside a success runs; all succeeded lets the conditions of the
  edges decide.
\<close>

definition parent_states :: "ResolvedPipelineDag \<Rightarrow> ResolvedPipelineStageNode \<Rightarrow> sched_states \<Rightarrow> StageScheduleState option set" where
  "parent_states dag node states = jget states ` set (expandJoinParents dag (predecessorEdges node))"

definition edge_results ::
  "ResolvedPipelineDag \<Rightarrow> ResolvedPipelineStageNode \<Rightarrow> envelopes \<Rightarrow> RouteIfEval set" where
  "edge_results dag node envs =
     {evaluateRouteIf p (payload_of envs i) | e p i. e \<in> set (predecessorEdges node) \<and> edge_if e = Some p \<and>
        i \<in> set (expandJoinParent dag (edge_id e))}"

definition join_verdict ::
  "ResolvedPipelineDag \<Rightarrow> ResolvedPipelineStageNode \<Rightarrow> sched_states \<Rightarrow> envelopes \<Rightarrow> join_verdict" where
  "join_verdict dag node states envs =
     (let S = parent_states dag node states; E = edge_results dag node envs in
      if \<not> S \<subseteq> {Some Succeeded, Some Failed, Some Skipped} \<or> Some Failed \<in> S then JoinPends
      else if Some Succeeded \<notin> S then JoinSkips
      else if Some Skipped \<in> S then JoinRuns
      else if E \<subseteq> {Fire} then JoinRuns
      else if Miss \<in> E then JoinSkips
      else JoinPends)"

lemma expandJoinParent_nonempty [simp]: "expandJoinParent dag p \<noteq> []"
  by (simp add: expandJoinParent_def Let_def)

lemma expandJoinParents_length: "length es \<le> length (expandJoinParents dag es)"
proof (induction es)
  case (Cons e es)
  have "1 \<le> length (expandJoinParent dag (edge_id e))" by (simp add: Suc_le_eq)
  with Cons show ?case by (simp add: expandJoinParents_def)
qed (simp add: expandJoinParents_def)

lemma terminal_cases: "isNeedTerminalState x = None \<or> x \<in> {Some Succeeded, Some Failed, Some Skipped}"
  by (cases x rule: isNeedTerminalState.cases) auto

lemma disposition_loop_eq:
  "disposition_loop states ids f s k =
     (if jget states ` set ids \<subseteq> {Some Succeeded, Some Failed, Some Skipped}
      then AllTerminal (f \<or> Some Failed \<in> jget states ` set ids) (s \<or> Some Succeeded \<in> jget states ` set ids)
             (k \<or> Some Skipped \<in> jget states ` set ids)
      else NotAllTerminal)"
proof (induction ids arbitrary: f s k)
  case (Cons i ids)
  show ?case
  proof (cases "isNeedTerminalState (jget states i)")
    case None
    then have "jget states i \<notin> {Some Succeeded, Some Failed, Some Skipped}" by auto
    with None show ?thesis by simp
  next
    case (Some st)
    then have "jget states i = Some (case st of NtSucceeded \<Rightarrow> Succeeded | NtFailed \<Rightarrow> Failed | NtSkipped \<Rightarrow> Skipped)"
      by (cases st) simp_all
    with Some Cons show ?thesis by (cases st) simp_all
  qed
qed simp

lemma disposition_eq:
  "predecessorEdges node \<noteq> [] \<Longrightarrow>
   joinParentDisposition dag (predecessorEdges node) states =
     Some (if parent_states dag node states \<subseteq> {Some Succeeded, Some Failed, Some Skipped}
           then AllTerminal (Some Failed \<in> parent_states dag node states)
                  (Some Succeeded \<in> parent_states dag node states) (Some Skipped \<in> parent_states dag node states)
           else NotAllTerminal)"
  using expandJoinParents_length [of "predecessorEdges node" dag]
  by (auto simp: joinParentDisposition_def Let_def disposition_loop_eq parent_states_def)

lemma every_fired_iff:
  assumes "parent_states dag node states \<subseteq> {Some Succeeded}"
  shows "everySucceededInboundEdgeFired dag (predecessorEdges node) states envs \<longleftrightarrow>
         edge_results dag node envs \<subseteq> {Fire}"
proof -
  have ok: "jget states i = Some Succeeded"
    if "e \<in> set (predecessorEdges node)" "i \<in> set (expandJoinParent dag (edge_id e))" for e i
    using assms that unfolding parent_states_def expandJoinParents_def by fastforce
  have "inboundEdgeFired e i states envs \<longleftrightarrow> (\<forall>p. edge_if e = Some p \<longrightarrow> evaluateRouteIf p (payload_of envs i) = Fire)"
    if "e \<in> set (predecessorEdges node)" "i \<in> set (expandJoinParent dag (edge_id e))" for e i
    using ok [OF that] by (simp add: inboundEdgeFired_def split: option.split)
  moreover have "edge_results dag node envs \<subseteq> {Fire} \<longleftrightarrow>
      (\<forall>e\<in>set (predecessorEdges node). \<forall>i\<in>set (expandJoinParent dag (edge_id e)).
         \<forall>p. edge_if e = Some p \<longrightarrow> evaluateRouteIf p (payload_of envs i) = Fire)"
    unfolding edge_results_def by blast
  ultimately show ?thesis by (simp add: everySucceededInboundEdgeFired_def list_all_iff)
qed

lemma any_missed_iff:
  "anySucceededInboundEdgeMissed dag (predecessorEdges node) envs \<longleftrightarrow> Miss \<in> edge_results dag node envs"
proof -
  have "inboundEdgeMissed e i envs \<longleftrightarrow> (\<exists>p. edge_if e = Some p \<and> Miss = evaluateRouteIf p (payload_of envs i))" for e i
    by (auto simp: inboundEdgeMissed_def split: option.split)
  then show ?thesis
    by (auto simp: anySucceededInboundEdgeMissed_def edge_results_def list_ex_iff)
qed

lemma join_runs_iff:
  assumes two: "2 \<le> length (expandJoinParents dag (predecessorEdges node))"
  shows "multiParentJoinAllowsRun dag node states envs \<longleftrightarrow> join_verdict dag node states envs = JoinRuns"
proof -
  have ne: "predecessorEdges node \<noteq> []" using two by (auto simp: expandJoinParents_def)
  let ?S = "parent_states dag node states"
  show ?thesis
  proof (cases "?S \<subseteq> {Some Succeeded}")
    case True
    with every_fired_iff [OF True] two show ?thesis
      by (auto simp: multiParentJoinAllowsRun_def disposition_eq [OF ne] join_verdict_def Let_def)
  next
    case False
    with two show ?thesis
      by (auto simp: multiParentJoinAllowsRun_def disposition_eq [OF ne] join_verdict_def Let_def)
  qed
qed

lemma join_stalled_iff:
  assumes "length (predecessorEdges node) > 1"
  shows "isStalledMultiParentJoin dag node states envs \<longleftrightarrow> join_verdict dag node states envs = JoinSkips"
proof -
  have ne: "predecessorEdges node \<noteq> []" using assms by auto
  show ?thesis using assms any_missed_iff [of dag node envs]
    by (auto simp: isStalledMultiParentJoin_def disposition_eq [OF ne] join_verdict_def Let_def)
qed

section \<open>Properties\<close>

text \<open>
  C38: for a pending stage with several parents the readiness test and the forced-skip test of the
  scheduler are the two sides of one verdict on the parents' states and the edges' conditions: the
  stage may run exactly when the verdict is to run, and is force-skipped exactly when it is to
  skip, so never both.
\<close>

theorem multi_parent_join_verdict:
  "distinct (map node_id (nodes dag)) \<Longrightarrow> n \<in> set (nodes dag) \<Longrightarrow> length (predecessorEdges n) > 1 \<Longrightarrow>
   jget states (node_id n) = Some Pending \<Longrightarrow>
   (joinAllowsRun dag (node_id n) states envs \<longleftrightarrow> join_verdict dag n states envs = JoinRuns) \<and>
   (node_id n \<in> set (pickStalledJoinSkips dag states envs) \<longleftrightarrow> join_verdict dag n states envs = JoinSkips)"
proof
  assume d: "distinct (map node_id (nodes dag))" and n: "n \<in> set (nodes dag)" and two: "length (predecessorEdges n) > 1"
    and p: "jget states (node_id n) = Some Pending"
  obtain e es where es: "predecessorEdges n = e # es" using two by (cases "predecessorEdges n") auto
  have wide: "2 \<le> length (expandJoinParents dag (predecessorEdges n))"
    using le_trans [OF Suc_leI [OF two] expandJoinParents_length [of "predecessorEdges n" dag]] by simp
  then have "joinAllowsRun dag (node_id n) states envs = multiParentJoinAllowsRun dag n states envs"
    by (simp add: joinAllowsRun_def find_node_eq [OF d n] es)
  then show "joinAllowsRun dag (node_id n) states envs \<longleftrightarrow> join_verdict dag n states envs = JoinRuns"
    using join_runs_iff [OF wide] by simp
  have uniq: "m = n" if "m \<in> set (nodes dag)" "node_id m = node_id n" for m
    using find_node_eq [OF d n] find_node_eq [OF d that(1)] that(2) by simp
  then show "node_id n \<in> set (pickStalledJoinSkips dag states envs) \<longleftrightarrow> join_verdict dag n states envs = JoinSkips"
    using join_stalled_iff [OF two, of dag states envs] n p
    by (auto simp: pickStalledJoinSkips_def image_iff)
qed

definition join_sample :: ResolvedPipelineDag where
  "join_sample =
     \<lparr>nodes = [plain_node ''a'', plain_node ''b'',
        (plain_node ''c'')\<lparr>needsEdges := Some [succeeded_edge ''a'',
            \<lparr>edge_id = ''b'', edge_on = [OnState NtSucceeded], edge_if = Some (RLeaf ''ok'' OpEq (JBool True))\<rparr>]\<rparr>],
      roots = [''a'', ''b''], childrenOf = [(''a'', [''c'']), (''b'', [''c''])], stage_ids = None,
      gate_kinds = [], clone_input_schema = []\<rparr>"

definition join_sample_states :: sched_states where
  "join_sample_states = [(''a'', Succeeded), (''b'', Succeeded), (''c'', Pending)]"

definition success_envelope :: "jsobj \<Rightarrow> StageEnvelope" where
  "success_envelope p =
     \<lparr>env_status = EnvSuccess, env_summary = ''done'', env_artifacts = [], env_payload = Some p,
      env_fork_choice = None, env_feedback_loop = None, env_attestations = None, env_stage_id = None,
      env_notes = None\<rparr>"

theorem multi_parent_join_verdict_witness:
  "\<exists>n\<in>set (nodes join_sample). node_id n = ''c'' \<and>
     join_verdict join_sample n join_sample_states [(''b'', success_envelope [(''ok'', JBool False)])] = JoinSkips"
proof -
  let ?envs = "[(''b'', success_envelope [(''ok'', JBool False)])]"
  have d: "distinct (map node_id (nodes join_sample))" by code_simp
  have "\<exists>n\<in>set (nodes join_sample). node_id n = ''c'' \<and> length (predecessorEdges n) > 1" by code_simp
  then obtain n where n: "n \<in> set (nodes join_sample)" "node_id n = ''c''" "length (predecessorEdges n) > 1" by blast
  have "jget join_sample_states (node_id n) = Some Pending" using n(2) by (simp add: join_sample_states_def)
  from multi_parent_join_verdict [OF d n(1,3) this, of ?envs] n
  have "''c'' \<in> set (pickStalledJoinSkips join_sample join_sample_states ?envs)
      \<longleftrightarrow> join_verdict join_sample n join_sample_states ?envs = JoinSkips" by simp
  moreover have "''c'' \<in> set (pickStalledJoinSkips join_sample join_sample_states ?envs)" by code_simp
  ultimately show ?thesis using n by blast
qed

end
