(* ===== verification/Clone_Schedule.thy ===== *)
theory Clone_Schedule
  imports Traversal Join_Readiness
begin

text \<open>
  Clone chains at run time and the skip cascade: \<open>runtime/cloneSchedule.ts\<close>.
\<close>

section \<open>Clone instances\<close>

definition asDagSnapshot :: "ResolvedPipelineDag \<Rightarrow> ResolvedPipelineDag" where
  "asDagSnapshot dag =
     (if stage_ids dag \<noteq> None then dag else dag\<lparr>stage_ids := Some (map node_id (nodes dag))\<rparr>)"

definition isCloneInstance :: "ResolvedPipelineDag \<Rightarrow> string \<Rightarrow> bool" where
  "isCloneInstance dag stageId = (definitionIdForInstance (asDagSnapshot dag) stageId \<noteq> stageId)"

text \<open>The non-empty \<open>needs\<close> of a stage, which for a clone instance is its emitter.\<close>

definition emitter_id :: "ResolvedPipelineDag \<Rightarrow> string \<Rightarrow> string option" where
  "emitter_id dag stageId = Option.bind (find_node dag stageId) nonempty_needs"

definition emitterCloneMode :: "ResolvedPipelineDag \<Rightarrow> string \<Rightarrow> CloneMode option" where
  "emitterCloneMode dag stageId =
     (if \<not> isCloneInstance dag stageId then None
      else case emitter_id dag stageId of
        None \<Rightarrow> None
      | Some e \<Rightarrow> Option.bind (find_node dag e) clone_mode)"

definition isParallelCloneInstance :: "ResolvedPipelineDag \<Rightarrow> string \<Rightarrow> bool" where
  "isParallelCloneInstance dag stageId = (emitterCloneMode dag stageId = Some Parallel)"

definition sequentialInstanceList :: "ResolvedPipelineDag \<Rightarrow> string \<Rightarrow> string list option" where
  "sequentialInstanceList dag stageId =
     (if \<not> isCloneInstance dag stageId then None
      else case emitter_id dag stageId of
        None \<Rightarrow> None
      | Some e \<Rightarrow>
          if Option.bind (find_node dag e) clone_mode \<noteq> Some Sequential then None
          else Some (definitionInstances dag (definitionIdForInstance (asDagSnapshot dag) stageId)))"

definition isSequentialCloneInstance :: "ResolvedPipelineDag \<Rightarrow> string \<Rightarrow> bool" where
  "isSequentialCloneInstance dag stageId = (sequentialInstanceList dag stageId \<noteq> None)"

definition sequentialPreviousUnsatisfied :: "ResolvedPipelineDag \<Rightarrow> string \<Rightarrow> sched_states \<Rightarrow> bool" where
  "sequentialPreviousUnsatisfied dag stageId states =
     (case sequentialInstanceList dag stageId of
        None \<Rightarrow> False
      | Some instances \<Rightarrow>
          (case index_of instances stageId of
             None \<Rightarrow> False
           | Some 0 \<Rightarrow> False
           | Some (Suc k) \<Rightarrow> jget states (instances ! k) \<noteq> Some Succeeded))"

definition sequentialLaterCloneIds :: "ResolvedPipelineDag \<Rightarrow> string \<Rightarrow> string list" where
  "sequentialLaterCloneIds dag stageId =
     (case sequentialInstanceList dag stageId of
        None \<Rightarrow> []
      | Some instances \<Rightarrow>
          (case index_of instances stageId of None \<Rightarrow> [] | Some i \<Rightarrow> drop (Suc i) instances))"

section \<open>Observed parent states\<close>

definition parentNeedEdge :: "ResolvedPipelineStageNode \<Rightarrow> string \<Rightarrow> string \<Rightarrow> PipelineNeedEdge option" where
  "parentNeedEdge node parentId parentDefId =
     List.find (\<lambda>e. edge_id e = parentId \<or> edge_id e = parentDefId) (predecessorEdges node)"

definition shouldSkipForObservedNeed ::
  "ResolvedPipelineDag \<Rightarrow> ResolvedPipelineStageNode \<Rightarrow> string \<Rightarrow> string \<Rightarrow> NeedTerminalState \<Rightarrow> bool" where
  "shouldSkipForObservedNeed dag node parentId parentDefId observed =
     (if length (predecessorEdges node) > 1 then False
      else case parentNeedEdge node parentId parentDefId of
        None \<Rightarrow> False
      | Some e \<Rightarrow>
          if on_includes e observed then False
          else if (observed = NtSkipped \<or> observed = NtFailed) \<and> length (predecessorEdges node) = 1 \<and>
                  needs node \<noteq> None \<and> isCloneInstance dag parentId
          then False
          else True)"

text \<open>
  \<open>skipRejectedNeedDependents\<close> with its callback: every caller's callback sets a pending stage
  to \<open>skipped\<close> and records it.  The recursion is run on its call stack; a frame holds the nodes
  still to visit, the observed parent and its state.  The result is the new states and the
  stages skipped, in order.
\<close>

type_synonym skip_frame = "ResolvedPipelineStageNode list \<times> string \<times> NeedTerminalState"

definition skip_now ::
  "ResolvedPipelineDag \<Rightarrow> ResolvedPipelineStageNode \<Rightarrow> string \<Rightarrow> NeedTerminalState \<Rightarrow> sched_states \<Rightarrow> bool" where
  "skip_now dag node parentId observed states =
     (jget states (node_id node) = Some Pending \<and>
      shouldSkipForObservedNeed dag node parentId (definitionIdForInstance (asDagSnapshot dag) parentId) observed)"

definition pending_keys :: "sched_states \<Rightarrow> string set" where
  "pending_keys states = {k. jget states k = Some Pending}"

lemma finite_pending_keys [simp]: "finite (pending_keys states)"
  by (rule finite_subset [of _ "set (jkeys states)"]) (auto simp: pending_keys_def dest: jget_SomeD)

lemma pending_keys_update:
  "x \<noteq> Pending \<Longrightarrow> pending_keys (AList.update k x states) = pending_keys states - {k}"
  by (auto simp: pending_keys_def)

function skip_stack ::
  "ResolvedPipelineDag \<Rightarrow> skip_frame list \<Rightarrow> sched_states \<Rightarrow> string list \<Rightarrow> sched_states \<times> string list" where
  "skip_stack dag [] states skipped = (states, skipped)"
| "skip_stack dag (([], parentId, observed) # frames) states skipped = skip_stack dag frames states skipped"
| "skip_stack dag ((node # ns, parentId, observed) # frames) states skipped =
     (if skip_now dag node parentId observed states
      then skip_stack dag ((nodes dag, node_id node, NtSkipped) # (ns, parentId, observed) # frames)
             (jset states (node_id node) Skipped) (skipped @ [node_id node])
      else skip_stack dag ((ns, parentId, observed) # frames) states skipped)"
  by pat_completeness auto
termination
proof (relation "measures [\<lambda>(dag, frames, states, skipped). card (pending_keys states),
    \<lambda>(dag, frames, states, skipped). sum_list (map (\<lambda>f. Suc (length (fst f))) frames)]", goal_cases)
  case (3 dag node ns parentId observed frames states skipped)
  then have "node_id node \<in> pending_keys states" by (simp add: skip_now_def pending_keys_def)
  then have "card (pending_keys states - {node_id node}) < card (pending_keys states)"
    by (meson card_Diff1_less finite_pending_keys)
  then show ?case by (simp add: pending_keys_update)
qed auto

definition skipRejectedNeedDependents ::
  "ResolvedPipelineDag \<Rightarrow> string \<Rightarrow> sched_states \<Rightarrow> NeedTerminalState \<Rightarrow> sched_states \<times> string list" where
  "skipRejectedNeedDependents dag parentId states observed =
     skip_stack dag [(nodes dag, parentId, observed)] states []"

definition failureIsAccepted :: "ResolvedPipelineDag \<Rightarrow> string \<Rightarrow> sched_states \<Rightarrow> bool" where
  "failureIsAccepted dag failedId states =
     (let defId = definitionIdForInstance (asDagSnapshot dag) failedId in
      list_ex (\<lambda>node.
        (case parentNeedEdge node failedId defId of
           None \<Rightarrow> False
         | Some e \<Rightarrow> on_includes e NtFailed \<and>
             jget states (node_id node) \<noteq> None \<and> jget states (node_id node) \<noteq> Some Skipped)) (nodes dag))"

definition joinAndDownstreamIds :: "ResolvedPipelineDag \<Rightarrow> string \<Rightarrow> string list" where
  "joinAndDownstreamIds dag cloneStageId =
     (let defId = definitionIdForInstance (asDagSnapshot dag) cloneStageId in
      concat (map (\<lambda>joinId.
          (case find_node dag joinId of
             Some node \<Rightarrow>
               if \<not> shouldSkipForObservedNeed dag node cloneStageId defId NtFailed then []
               else joinId # collectDownstreamStageIds dag joinId
           | None \<Rightarrow> joinId # collectDownstreamStageIds dag joinId))
        (joinSuccessorIds dag defId)))"

section \<open>Minting\<close>

definition nextFreeCloneSuffix :: "ResolvedPipelineDag \<Rightarrow> string \<Rightarrow> nat" where
  "nextFreeCloneSuffix snapshot catalogId =
     nat (foldl (\<lambda>m i.
        (case strip_prefix (catalogId @ ''~'') i of
           None \<Rightarrow> m
         | Some rest \<Rightarrow>
             (case js_integer rest of None \<Rightarrow> m | Some n \<Rightarrow> if n > m then n else m)))
       0 (snapshot_ids snapshot) + 1)"

definition catalogCloneChildId :: "ResolvedPipelineDag \<Rightarrow> string \<Rightarrow> string option" where
  "catalogCloneChildId dag emitterId =
     (case List.find (\<lambda>i. case find_node dag i of None \<Rightarrow> False | Some c \<Rightarrow> definition_of c = node_id c)
             (children_of dag emitterId) of
        Some i \<Rightarrow> Some i
      | None \<Rightarrow>
          (case List.find (\<lambda>i. case find_node dag i of None \<Rightarrow> False
                  | Some c \<Rightarrow> definition_id c \<noteq> None \<and> definition_id c \<noteq> Some (node_id c))
                 (children_of dag emitterId) of
             Some i \<Rightarrow> if i = [] then None else Option.bind (find_node dag i) definition_id
           | None \<Rightarrow> None))"

datatype MintResult =
    MintNone
  | MintError string
  | Minted ResolvedPipelineDag string "string list"

text \<open>\<open>Inl\<close> is an exception of \<open>appendCloneInstances\<close>.\<close>

definition mint :: "ResolvedPipelineDag \<Rightarrow> string \<Rightarrow> StageEnvelope \<Rightarrow> clone_error + MintResult" where
  "mint dag emitterId envelope =
     (case Option.bind (find_node dag emitterId) clone_array_field of
        None \<Rightarrow> Inr MintNone
      | Some field \<Rightarrow>
        (case catalogCloneChildId dag emitterId of
           None \<Rightarrow> Inr MintNone
         | Some catalogChildId \<Rightarrow>
           (case Option.bind (env_payload envelope) (\<lambda>p. jget p field) of
              Some (JArr (x # xs)) \<Rightarrow>
                (let snapshot = asDagSnapshot dag in
                 case appendCloneInstances snapshot catalogChildId emitterId (length (x # xs))
                        (nextFreeCloneSuffix snapshot catalogChildId) of
                   Inl e \<Rightarrow> Inl e
                 | Inr (next, instanceIds) \<Rightarrow> Inr (Minted next catalogChildId instanceIds))
            | _ \<Rightarrow> Inr (MintError field))))"

section \<open>The array element of an instance\<close>

datatype assignment_error =
    MissingEmitterEnvelope string
  | MissingArrayElement int string
  | ElementNotObject nat

definition ordinal_rows :: "ResolvedPipelineDag \<Rightarrow> string \<Rightarrow> (string \<times> int) list" where
  "ordinal_rows dag definitionId =
     List.map_filter (\<lambda>i. map_option (Pair i) (cloneInstanceOrdinal i definitionId))
       (instancesOfDefinition dag definitionId)"

definition cloneAssignmentIndex :: "ResolvedPipelineDag \<Rightarrow> string \<Rightarrow> string \<Rightarrow> nat \<Rightarrow> nat option" where
  "cloneAssignmentIndex dag stageId definitionId arrayLength =
     (case cloneInstanceOrdinal stageId definitionId of
        None \<Rightarrow> None
      | Some ordinal \<Rightarrow>
          if stage_ids dag = None \<or> arrayLength < 1 then Some (nat (ordinal - 1))
          else (let siblings = sort_key snd (ordinal_rows dag definitionId);
                    cohort = drop (length siblings - arrayLength) siblings
                in index_of (map fst cohort) stageId))"

definition assignment ::
  "ResolvedPipelineDag \<Rightarrow> string \<Rightarrow> string \<Rightarrow> envelopes \<Rightarrow> (assignment_error + StageEnvelope) option" where
  "assignment dag stageId definitionId completedEnvelopes =
     (case cloneInstanceOrdinal stageId definitionId of
        None \<Rightarrow> None
      | Some ordinal \<Rightarrow>
        (case find_node dag stageId of
           None \<Rightarrow> None
         | Some node \<Rightarrow>
           (case (case nonempty_needs node of
                    Some e \<Rightarrow> Some e
                  | None \<Rightarrow> (case predecessorEdges node of [] \<Rightarrow> None | e # _ \<Rightarrow> Some (edge_id e))) of
              None \<Rightarrow> None
            | Some emitterId \<Rightarrow>
              (case Option.bind (find_node dag emitterId) clone_array_field of
                 None \<Rightarrow> None
               | Some field \<Rightarrow>
                 (case jget completedEnvelopes emitterId of
                    None \<Rightarrow> Some (Inl (MissingEmitterEnvelope emitterId))
                  | Some parent \<Rightarrow>
                    if env_status parent \<noteq> EnvSuccess then Some (Inl (MissingEmitterEnvelope emitterId))
                    else (case Option.bind (env_payload parent) (\<lambda>p. jget p field) of
                       Some (JArr arr) \<Rightarrow>
                         (case cloneAssignmentIndex dag stageId definitionId (length arr) of
                            None \<Rightarrow> Some (Inl (MissingArrayElement ordinal emitterId))
                          | Some index \<Rightarrow>
                              if index \<ge> length arr then Some (Inl (MissingArrayElement ordinal emitterId))
                              else (case arr ! index of
                                 JObj kvs \<Rightarrow>
                                   Some (Inr \<lparr>env_status = EnvSuccess, env_summary = env_summary parent,
                                     env_artifacts = [], env_payload = Some kvs, env_fork_choice = None,
                                     env_feedback_loop = None, env_attestations = None,
                                     env_stage_id = None, env_notes = None\<rparr>)
                               | _ \<Rightarrow> Some (Inl (ElementNotObject (index + 1)))))
                     | _ \<Rightarrow> Some (Inl (MissingArrayElement ordinal emitterId))))))))"

section \<open>What the scheduler asks\<close>

definition protectedClonableChildIds :: "ResolvedPipelineDag \<Rightarrow> string \<Rightarrow> string list" where
  "protectedClonableChildIds dag predecessorId =
     (if Option.bind (find_node dag predecessorId) clone_array_field = None then []
      else jset_of (children_of dag predecessorId))"

definition cloneFailureContinuesSchedule :: "ResolvedPipelineDag \<Rightarrow> string \<Rightarrow> bool" where
  "cloneFailureContinuesSchedule dag stageId =
     (isParallelCloneInstance dag stageId \<or> isSequentialCloneInstance dag stageId)"

definition cloneFailFastSkipIds :: "ResolvedPipelineDag \<Rightarrow> string \<Rightarrow> string list" where
  "cloneFailFastSkipIds dag stageId =
     (if isParallelCloneInstance dag stageId then joinAndDownstreamIds dag stageId
      else if \<not> isSequentialCloneInstance dag stageId then []
      else case sequentialInstanceList dag stageId of
        None \<Rightarrow> []
      | Some instances \<Rightarrow>
          (case index_of instances stageId of
             None \<Rightarrow> instances
           | Some idx \<Rightarrow> drop (Suc idx) instances) @ joinAndDownstreamIds dag stageId)"

definition cloneScheduleAllowsRun :: "ResolvedPipelineDag \<Rightarrow> string \<Rightarrow> sched_states \<Rightarrow> bool" where
  "cloneScheduleAllowsRun dag stageId states =
     (if list_ex (\<lambda>i. i \<noteq> stageId) (definitionInstances dag stageId) then False
      else \<not> sequentialPreviousUnsatisfied dag stageId states)"

section \<open>The skip cascade as a closure\<close>

definition rejects :: "ResolvedPipelineDag \<Rightarrow> string \<Rightarrow> NeedTerminalState \<Rightarrow> ResolvedPipelineStageNode \<Rightarrow> bool" where
  "rejects dag parentId observed node =
     shouldSkipForObservedNeed dag node parentId (definitionIdForInstance (asDagSnapshot dag) parentId) observed"

text \<open>
  The pending stages that a parent's terminal state rejects, and those that a stage so skipped
  rejects in turn.
\<close>

inductive skip_cascade ::
  "ResolvedPipelineDag \<Rightarrow> sched_states \<Rightarrow> string \<Rightarrow> NeedTerminalState \<Rightarrow> string \<Rightarrow> bool"
  for dag states parentId observed where
  direct: "n \<in> set (nodes dag) \<Longrightarrow> jget states (node_id n) = Some Pending \<Longrightarrow> rejects dag parentId observed n \<Longrightarrow>
    skip_cascade dag states parentId observed (node_id n)"
| onward: "skip_cascade dag states parentId observed i \<Longrightarrow> n \<in> set (nodes dag) \<Longrightarrow>
    jget states (node_id n) = Some Pending \<Longrightarrow> rejects dag i NtSkipped n \<Longrightarrow>
    skip_cascade dag states parentId observed (node_id n)"

inductive_cases skip_cascade_lastE: "skip_cascade dag states parentId observed i"

lemma skip_stack_effect:
  "skip_stack dag frames states skipped = (states', skipped') \<Longrightarrow>
   \<exists>news. skipped' = skipped @ news \<and> distinct news \<and> set news \<subseteq> pending_keys states \<and>
     (\<forall>k. jget states' k = (if k \<in> set news then Some Skipped else jget states k))"
proof (induction dag frames states skipped rule: skip_stack.induct)
  case (3 dag n ns p obs frames states skipped)
  show ?case
  proof (cases "skip_now dag n p obs states")
    case True
    then have pend: "node_id n \<in> pending_keys states" by (simp add: skip_now_def pending_keys_def)
    from "3.IH"(1) [OF True] "3.prems" True obtain news where
      news: "skipped' = (skipped @ [node_id n]) @ news" "distinct news"
        "set news \<subseteq> pending_keys (AList.update (node_id n) Skipped states)"
        "\<And>k. jget states' k = (if k \<in> set news then Some Skipped else jget (AList.update (node_id n) Skipped states) k)"
      by auto
    have sub: "set news \<subseteq> pending_keys states - {node_id n}" using news(3) by (simp add: pending_keys_update)
    show ?thesis
    proof (intro exI conjI allI)
      show "skipped' = skipped @ (node_id n # news)" using news(1) by simp
      show "distinct (node_id n # news)" using news(2) sub by auto
      show "set (node_id n # news) \<subseteq> pending_keys states" using sub pend by auto
      show "jget states' k = (if k \<in> set (node_id n # news) then Some Skipped else jget states k)" for k
        using news(4) [of k] by simp
    qed
  next
    case False
    with "3.IH"(2) [OF False] "3.prems" show ?thesis by simp
  qed
qed auto

text \<open>Every frame and every skipped stage leaves no rejected node pending.\<close>

lemma skip_stack_closed:
  "skip_stack dag frames states skipped = (states', skipped') \<Longrightarrow>
   (\<forall>(ns, p, obs)\<in>set frames. \<forall>n\<in>set ns. rejects dag p obs n \<longrightarrow> jget states' (node_id n) \<noteq> Some Pending) \<and>
   (\<forall>i\<in>set skipped' - set skipped. \<forall>n\<in>set (nodes dag). rejects dag i NtSkipped n \<longrightarrow>
      jget states' (node_id n) \<noteq> Some Pending)"
proof (induction dag frames states skipped rule: skip_stack.induct)
  case (3 dag n ns p obs frames states skipped)
  show ?case
  proof (cases "skip_now dag n p obs states")
    case True
    let ?st = "AList.update (node_id n) Skipped states"
    have run: "skip_stack dag ((nodes dag, node_id n, NtSkipped) # (ns, p, obs) # frames) ?st (skipped @ [node_id n])
        = (states', skipped')" using "3.prems" True by simp
    from skip_stack_effect [OF run] obtain news where
      "\<And>k. jget states' k = (if k \<in> set news then Some Skipped else jget ?st k)" by blast
    from this [of "node_id n"] have "jget states' (node_id n) \<noteq> Some Pending" by simp
    with "3.IH"(1) [OF True run] show ?thesis by auto
  next
    case False
    have run: "skip_stack dag ((ns, p, obs) # frames) states skipped = (states', skipped')"
      using "3.prems" False by simp
    have "jget states' (node_id n) \<noteq> Some Pending" if "rejects dag p obs n"
    proof -
      have "jget states (node_id n) \<noteq> Some Pending" using False that by (simp add: skip_now_def rejects_def)
      moreover from skip_stack_effect [OF run] obtain news where
        "\<And>k. jget states' k = (if k \<in> set news then Some Skipped else jget states k)" by blast
      from this [of "node_id n"] have "jget states' (node_id n) \<in> {Some Skipped, jget states (node_id n)}" by simp
      ultimately show ?thesis by auto
    qed
    with "3.IH"(2) [OF False run] show ?thesis by auto
  qed
qed auto

text \<open>Every skipped stage is in the cascade of the first parent.\<close>

lemma skip_stack_sound:
  "skip_stack dag frames states skipped = (states', skipped') \<Longrightarrow>
   pending_keys states \<subseteq> pending_keys states0 \<Longrightarrow>
   (\<forall>(ns, p, obs)\<in>set frames. set ns \<subseteq> set (nodes dag) \<and>
      (p = parentId \<and> obs = observed \<or> obs = NtSkipped \<and> skip_cascade dag states0 parentId observed p)) \<Longrightarrow>
   set skipped \<subseteq> Collect (skip_cascade dag states0 parentId observed) \<Longrightarrow>
   set skipped' \<subseteq> Collect (skip_cascade dag states0 parentId observed)"
proof (induction dag frames states skipped rule: skip_stack.induct)
  case (3 dag n ns p obs frames states skipped)
  show ?case
  proof (cases "skip_now dag n p obs states")
    case True
    let ?st = "AList.update (node_id n) Skipped states"
    have run: "skip_stack dag ((nodes dag, node_id n, NtSkipped) # (ns, p, obs) # frames) ?st (skipped @ [node_id n])
        = (states', skipped')" using "3.prems"(1) True by simp
    have n: "n \<in> set (nodes dag)" using "3.prems"(3) by simp
    have pend: "jget states0 (node_id n) = Some Pending"
      using True "3.prems"(2) by (auto simp: skip_now_def pending_keys_def)
    have rej: "rejects dag p obs n" using True by (simp add: skip_now_def rejects_def)
    have c: "skip_cascade dag states0 parentId observed (node_id n)"
      using "3.prems"(3) rej by (auto intro: direct [OF n pend] onward [OF _ n pend])
    show ?thesis
    proof (rule "3.IH"(1) [OF True run])
      show "pending_keys ?st \<subseteq> pending_keys states0" using "3.prems"(2) by (auto simp: pending_keys_update)
    qed (use "3.prems"(3,4) c in auto)
  next
    case False
    have run: "skip_stack dag ((ns, p, obs) # frames) states skipped = (states', skipped')"
      using "3.prems"(1) False by simp
    show ?thesis by (rule "3.IH"(2) [OF False run]) (use "3.prems"(2-4) in auto)
  qed
qed auto

lemma skip_rejected_exact:
  assumes "skipRejectedNeedDependents dag parentId states observed = (states', ids)"
  shows "distinct ids" "set ids = {i. skip_cascade dag states parentId observed i}"
    "jget states' k = (if k \<in> set ids then Some Skipped else jget states k)"
proof -
  have run: "skip_stack dag [(nodes dag, parentId, observed)] states [] = (states', ids)"
    using assms by (simp add: skipRejectedNeedDependents_def)
  from skip_stack_effect [OF run] show "distinct ids" and
    eff: "jget states' k = (if k \<in> set ids then Some Skipped else jget states k)" for k by auto
  have "set ids \<subseteq> {i. skip_cascade dag states parentId observed i}"
    using skip_stack_sound [OF run subset_refl, of parentId observed] by auto
  moreover have "i \<in> set ids" if "skip_cascade dag states parentId observed i" for i
    using that
  proof induction
    case (direct n)
    then have "jget states' (node_id n) \<noteq> Some Pending"
      using skip_stack_closed [OF run] by auto
    with direct(2) eff show ?case by metis
  next
    case (onward i n)
    then have "jget states' (node_id n) \<noteq> Some Pending"
      using skip_stack_closed [OF run] by auto
    with onward(3) eff show ?case by metis
  qed
  ultimately show "set ids = {i. skip_cascade dag states parentId observed i}" by auto
qed

section \<open>The latest cohort gets the array in order\<close>

lemma sort_key_append_sorted:
  fixes f :: "'a \<Rightarrow> 'b::linorder"
  assumes "sorted (map f ys)" "\<And>x y. x \<in> set xs \<Longrightarrow> y \<in> set ys \<Longrightarrow> f x \<le> f y"
  shows "sort_key f (xs @ ys) = sort_key f xs @ ys"
  using assms(2)
proof (induction xs)
  case Nil
  then show ?case using assms(1) by (simp add: sort_key_id_if_sorted)
next
  case (Cons x xs)
  have "insort_key f x (zs @ ys) = insort_key f x zs @ ys" if "\<forall>y\<in>set ys. f x \<le> f y" for zs
    using that by (induction zs) (cases ys; auto)+
  with Cons show ?case by simp
qed

lemma index_of_nth: "distinct xs \<Longrightarrow> j < length xs \<Longrightarrow> index_of xs (xs ! j) = Some j"
proof (induction xs arbitrary: j)
  case (Cons x xs)
  then show ?case by (cases j) auto
qed simp

lemma map_filter_append: "List.map_filter f (xs @ ys) = List.map_filter f xs @ List.map_filter f ys"
  by (simp add: List.map_filter_def)

lemma map_filter_Some: "(\<And>x. x \<in> set xs \<Longrightarrow> f x = Some (g x)) \<Longrightarrow> List.map_filter f xs = map g xs"
  by (induction xs) (simp_all add: List.map_filter_simps)

lemma mint_accepted:
  assumes "mint dag emitter env = Inr (Minted dag' child new)"
  obtains field x xs where "Option.bind (find_node dag emitter) clone_array_field = Some field"
    "Option.bind (env_payload env) (\<lambda>p. jget p field) = Some (JArr (x # xs))"
    "appendCloneInstances (asDagSnapshot dag) child emitter (length (x # xs))
       (nextFreeCloneSuffix (asDagSnapshot dag) child) = Inr (dag', new)"
proof -
  obtain field where f: "Option.bind (find_node dag emitter) clone_array_field = Some field"
    using assms by (auto simp: mint_def split: option.splits)
  obtain c where c: "catalogCloneChildId dag emitter = Some c"
    using assms f by (auto simp: mint_def split: option.splits)
  note m = assms [unfolded mint_def f option.case c]
  obtain v where v: "Option.bind (env_payload env) (\<lambda>p. jget p field) = Some v"
    using m by (cases "Option.bind (env_payload env) (\<lambda>p. jget p field)") simp_all
  obtain x xs where a: "v = JArr (x # xs)"
    using m v by (auto split: jsval.splits list.splits)
  show thesis
    using m v a f by (intro that [OF f]) (auto simp: Let_def split: sum.splits)
qed

lemma wf_fan_out_ids:
  assumes wf: "wf_snapshot s" and app: "appendCloneInstances s c p count startAt = Inr (s', new)"
  shows "new = map (instance_name c) [startAt..<startAt + count]" "1 \<le> startAt"
    "wf_snapshot s'" "set new \<subseteq> node_id ` set (nodes s')"
    "\<And>i n. i \<in> set new \<Longrightarrow> find_node s' i = Some n \<Longrightarrow> predecessorEdges n = [succeeded_edge p] \<and> needs n = Some p"
    "p \<noteq> c \<Longrightarrow> \<exists>m j. find_node s p = Some m \<and> find_node s' p = Some (m\<lparr>stageIndex := j\<rparr>)"
proof -
  from append_accepted [OF app] obtain pn t where a: "find_node s p = Some pn"
    "mintCloneInstanceIds c count startAt = Inr new" "set new \<inter> set (snapshot_ids s) = {}"
    "set new \<inter> node_id ` set (nodes s) = {}" "fan_out s c pn t new = Inr (s', new)" by metis
  have pn: "pn \<in> set (nodes s)" "node_id pn = p" using find_node_SomeD [OF a(1)] by simp_all
  note spec = fan_out_spec [OF wf a(5) minted_ids(2) [OF a(2)] a(3) pn(1)]
  have dn: "distinct (map node_id (nodes s))" and di: "distinct (snapshot_ids s)" and
    sn: "set (snapshot_ids s) = node_id ` set (nodes s)"
    using wf by (simp_all add: wf_snapshot_def)
  note splice = set_splice_ids [OF di a(3) minted_ids(2) [OF a(2)], of c, folded spec(1)]
  show "new = map (instance_name c) [startAt..<startAt + count]" "1 \<le> startAt"
    using minted_ids(1,4) [OF a(2)] by simp_all
  show wf': "wf_snapshot s'" using splice(2) spec(2,3) by (metis wf_snapshot_def set_map)
  then have d': "distinct (map node_id (nodes s'))" by (simp add: wf_snapshot_def)
  have ids': "node_id ` set (nodes s') = set (snapshot_ids s) - {c} \<union> set new"
    using splice(1) spec(3) by (metis set_map)
  then show "set new \<subseteq> node_id ` set (nodes s')" by auto
  show "predecessorEdges n = [succeeded_edge p] \<and> needs n = Some p" if "i \<in> set new" "find_node s' i = Some n" for i n
    using spec(4) [of n] find_node_SomeD [OF that(2)] that(1) pn(2) by auto
  show "\<exists>m j. find_node s p = Some m \<and> find_node s' p = Some (m\<lparr>stageIndex := j\<rparr>)" if "p \<noteq> c"
  proof -
    have "p \<in> set (snapshot_ids s)" using pn sn by auto
    then have "p \<in> node_id ` set (nodes s')" "p \<notin> set new" using that a(3) ids' by auto
    then obtain n where n: "n \<in> set (nodes s')" "node_id n = p" by auto
    then obtain m j where m: "n = m\<lparr>stageIndex := j\<rparr>" "m \<in> set (nodes s)" "node_id m = p"
      using spec(5) [OF n(1)] \<open>p \<notin> set new\<close> by auto
    have "find_node s' p = Some n" using find_node_eq [OF d' n(1)] n(2) by simp
    moreover have "find_node s p = Some m" using find_node_eq [OF dn m(2)] m(3) by simp
    ultimately show ?thesis using m(1) by blast
  qed
qed

lemma nextFree_bound:
  assumes "i \<in> set (snapshot_ids s)" "cloneInstanceOrdinal i c = Some n"
  shows "n < int (nextFreeCloneSuffix s c)"
proof -
  define step where "step m i = (case strip_prefix (c @ ''~'') i of None \<Rightarrow> m
      | Some rest \<Rightarrow> (case js_integer rest of None \<Rightarrow> m | Some n \<Rightarrow> if n > m then n else m))" for m i
  have ge: "m \<le> foldl step m ids" for m ids
  proof (induction ids arbitrary: m)
    case (Cons i ids)
    have "m \<le> step m i" by (auto simp: step_def split: option.split)
    with Cons [of "step m i"] show ?case by simp
  qed simp
  have "n \<le> foldl step m ids" if "i \<in> set ids" for m ids
    using that
  proof (induction ids arbitrary: m)
    case (Cons k ids)
    show ?case
    proof (cases "i = k")
      case True
      have "n \<le> step m k" using assms(2) True
        by (auto simp: step_def cloneInstanceOrdinal_def split: option.splits if_splits)
      with ge [of "step m k" ids] show ?thesis by simp
    qed (use Cons in auto)
  qed simp
  from this [OF assms(1), of 0] ge [of 0 "snapshot_ids s"] show ?thesis
    by (simp add: nextFreeCloneSuffix_def step_def [abs_def])
qed

lemma latest_cohort_index:
  assumes wf: "wf_snapshot s" and named: "named_instances s c"
    and app: "appendCloneInstances s c p count (nextFreeCloneSuffix s c) = Inr (s', new)" and j: "j < count"
  shows "cloneAssignmentIndex s' (new ! j) c count = Some j"
proof -
  let ?s = "nextFreeCloneSuffix s c" and ?old = "List.filter (\<lambda>i. i \<noteq> c) (instancesOfDefinition s c)"
  let ?row = "\<lambda>i. map_option (Pair i) (cloneInstanceOrdinal i c)"
  note ids = wf_fan_out_ids [OF wf app]
  have inst: "instancesOfDefinition s' c = ?old @ new" by (rule append_instances [OF wf app named])
  have len: "length new = count" using ids(1) by simp
  have ord: "cloneInstanceOrdinal (instance_name c n) c = Some (int n)" if "n \<ge> ?s" for n
    using that ids(2) by (intro ordinal_of_instance_name) simp
  define news where "news = map (\<lambda>n. (instance_name c n, int n)) [?s..<?s + count]"
  have "List.map_filter ?row new = news"
    unfolding ids(1) news_def List.map_filter_def by (induction count) (simp_all add: ord)
  then have rows: "ordinal_rows s' c = List.map_filter ?row ?old @ news"
    by (simp add: ordinal_rows_def inst map_filter_append)
  have "sort_key snd (ordinal_rows s' c) = sort_key snd (List.map_filter ?row ?old) @ news"
    unfolding rows
  proof (rule sort_key_append_sorted)
    have "map snd news = map int [?s..<?s + count]" by (simp add: news_def comp_def)
    then show "sorted (map snd news)" by (simp add: sorted_map sorted_wrt_iff_nth_less)
    fix x y assume "x \<in> set (List.map_filter ?row ?old)" and y: "y \<in> set news"
    then obtain i where i: "i \<in> set ?old" "cloneInstanceOrdinal i c = Some (snd x)"
      by (auto simp: List.map_filter_def)
    then have "i \<in> set (snapshot_ids s)" by (auto simp: instancesOfDefinition_def Let_def)
    from nextFree_bound [OF this i(2)] y show "snd x \<le> snd y" by (auto simp: news_def)
  qed
  moreover have "length news = count" by (simp add: news_def)
  ultimately have cohort: "drop (length (sort_key snd (ordinal_rows s' c)) - count) (sort_key snd (ordinal_rows s' c)) = news"
    by simp
  have fst: "map fst news = new" by (simp add: news_def ids(1))
  have "distinct new" unfolding ids(1) distinct_map by (auto intro: inj_onI dest: instance_name_inj)
  then have "index_of (map fst news) (new ! j) = Some j" unfolding fst using j len by (intro index_of_nth) simp_all
  moreover have "cloneInstanceOrdinal (new ! j) c \<noteq> None" using j ord by (simp add: ids(1))
  moreover have "stage_ids s' \<noteq> None" using ids(3) by (simp add: wf_snapshot_def)
  ultimately show ?thesis using j cohort by (auto simp: cloneAssignmentIndex_def Let_def)
qed

lemma find_node_asDagSnapshot [simp]: "find_node (asDagSnapshot dag) i = find_node dag i"
  by (simp add: asDagSnapshot_def find_node_def)

section \<open>Properties\<close>

text \<open>
  C39: \<open>skipRejectedNeedDependents\<close> skips exactly the pending stages in the closure of rejection:
  those whose single need the parent's state rejects, and onward those that a skipped stage
  rejects; each once, and no other state changes.
\<close>

theorem skip_cascade_exact:
  "skipRejectedNeedDependents dag parentId states observed = (states', ids) \<Longrightarrow>
   distinct ids \<and> set ids = {i. skip_cascade dag states parentId observed i} \<and>
   (\<forall>k. jget states' k = (if k \<in> set ids then Some Skipped else jget states k))"
  using skip_rejected_exact [of dag parentId states observed states' ids] by blast

definition chain_sample :: ResolvedPipelineDag where
  "chain_sample = linearCompatDagSnapshot [''a'', ''b'', ''c'']"

theorem skip_cascade_exact_witness:
  "{i. skip_cascade chain_sample [(''a'', Failed), (''b'', Pending), (''c'', Pending)] ''a'' NtFailed i} = {''b'', ''c''}"
proof -
  have "skipRejectedNeedDependents chain_sample ''a'' [(''a'', Failed), (''b'', Pending), (''c'', Pending)] NtFailed
      = ([(''a'', Failed), (''b'', Skipped), (''c'', Skipped)], [''b'', ''c''])" by code_simp
  from skip_cascade_exact [OF this] show ?thesis by simp
qed

text \<open>
  C40: when a clone chain emitter fans out, also for a second time on a retry, instance \<open>j\<close> of the
  new cohort is assigned element \<open>j\<close> of the emitter's array: as its payload when the element is
  an object, and as the error naming that element otherwise.
\<close>

theorem minted_clones_get_their_elements:
  "wf_snapshot (asDagSnapshot dag) \<Longrightarrow> named_instances (asDagSnapshot dag) child \<Longrightarrow> emitter \<noteq> child \<Longrightarrow>
   mint dag emitter env = Inr (Minted dag' child new) \<Longrightarrow>
   jget envs emitter = Some env \<Longrightarrow> env_status env = EnvSuccess \<Longrightarrow>
   \<exists>field arr. Option.bind (env_payload env) (\<lambda>p. jget p field) = Some (JArr arr) \<and> length new = length arr \<and>
     (\<forall>j<length arr. assignment dag' (new ! j) child envs =
        Some (case arr ! j of
          JObj kvs \<Rightarrow> Inr \<lparr>env_status = EnvSuccess, env_summary = env_summary env, env_artifacts = [],
             env_payload = Some kvs, env_fork_choice = None, env_feedback_loop = None, env_attestations = None,
             env_stage_id = None, env_notes = None\<rparr>
        | _ \<Rightarrow> Inl (ElementNotObject (j + 1))))"
proof -
  assume wf: "wf_snapshot (asDagSnapshot dag)" and named: "named_instances (asDagSnapshot dag) child"
    and ne: "emitter \<noteq> child" and m: "mint dag emitter env = Inr (Minted dag' child new)"
    and env: "jget envs emitter = Some env" "env_status env = EnvSuccess"
  let ?s = "nextFreeCloneSuffix (asDagSnapshot dag) child"
  from mint_accepted [OF m] obtain field x xs where
    f: "Option.bind (find_node dag emitter) clone_array_field = Some field"
    and arr: "Option.bind (env_payload env) (\<lambda>p. jget p field) = Some (JArr (x # xs))"
    and app: "appendCloneInstances (asDagSnapshot dag) child emitter (length (x # xs)) ?s = Inr (dag', new)"
    by metis
  let ?arr = "x # xs"
  note ids = wf_fan_out_ids [OF wf app]
  have len: "length new = length ?arr" using ids(1) by simp
  from ids(6) [OF ne] obtain em k where em: "find_node dag emitter = Some em"
    "find_node dag' emitter = Some (em\<lparr>stageIndex := k\<rparr>)" by auto
  have field': "Option.bind (find_node dag' emitter) clone_array_field = Some field" using f em by simp
  have d': "distinct (map node_id (nodes dag'))" using ids(3) by (simp add: wf_snapshot_def)
  have "assignment dag' (new ! j) child envs =
        Some (case ?arr ! j of
          JObj kvs \<Rightarrow> Inr \<lparr>env_status = EnvSuccess, env_summary = env_summary env, env_artifacts = [],
             env_payload = Some kvs, env_fork_choice = None, env_feedback_loop = None, env_attestations = None,
             env_stage_id = None, env_notes = None\<rparr>
        | _ \<Rightarrow> Inl (ElementNotObject (j + 1)))" if j: "j < length ?arr" for j
  proof -
    have mem: "new ! j \<in> set new" using j len by (metis nth_mem)
    with ids(4) obtain n where n: "n \<in> set (nodes dag')" "node_id n = new ! j" by auto
    have fn: "find_node dag' (new ! j) = Some n" using find_node_eq [OF d' n(1)] n(2) by simp
    have nd: "predecessorEdges n = [succeeded_edge emitter]" "needs n = Some emitter" using ids(5) [OF mem fn] by auto
    have par: "(case nonempty_needs n of Some e \<Rightarrow> Some e
        | None \<Rightarrow> (case predecessorEdges n of [] \<Rightarrow> None | e # _ \<Rightarrow> Some (edge_id e))) = Some emitter"
      using nd by (simp add: nonempty_needs_def succeeded_edge_def)
    have idx: "cloneAssignmentIndex dag' (new ! j) child (length ?arr) = Some j"
      by (rule latest_cohort_index [OF wf named app j])
    then obtain o1 where o1: "cloneInstanceOrdinal (new ! j) child = Some o1"
      by (auto simp: cloneAssignmentIndex_def split: option.splits)
    show ?thesis
      unfolding assignment_def o1 fn option.case par field' env(1) arr
      using idx j env(2) by (simp split: jsval.split)
  qed
  with arr len show ?thesis by blast
qed

definition emitter_sample :: ResolvedPipelineDag where
  "emitter_sample =
     (let d = linearCompatDagSnapshot [''plan'', ''build'', ''ship'']
      in d\<lparr>nodes := map (\<lambda>n. if node_id n = ''plan'' then n\<lparr>clone_array_field := Some ''items''\<rparr> else n) (nodes d)\<rparr>)"

definition emitter_envelope :: StageEnvelope where
  "emitter_envelope = success_envelope [(''items'', JArr [JObj [(''k'', JBool True)], JStr ''x''])]"

theorem minted_clones_get_their_elements_witness:
  "\<exists>dag'. assignment dag' ''build~2'' ''build'' [(''plan'', emitter_envelope)] = Some (Inl (ElementNotObject 2))"
proof -
  have wf: "wf_snapshot (asDagSnapshot emitter_sample)" by code_simp
  have nm: "named_instances (asDagSnapshot emitter_sample) ''build''" by code_simp
  have st: "env_status emitter_envelope = EnvSuccess" by (simp add: emitter_envelope_def success_envelope_def)
  have "(case mint emitter_sample ''plan'' emitter_envelope of
      Inr (Minted d c new) \<Rightarrow> c = ''build'' \<and> new = [''build~1'', ''build~2''] | _ \<Rightarrow> False)" by code_simp
  then obtain d where m: "mint emitter_sample ''plan'' emitter_envelope = Inr (Minted d ''build'' [''build~1'', ''build~2''])"
    by (auto split: sum.splits MintResult.splits)
  have g: "jget [(''plan'', emitter_envelope)] ''plan'' = Some emitter_envelope" by simp
  from minted_clones_get_their_elements [OF wf nm _ m g st] obtain field arr where
    a: "Option.bind (env_payload emitter_envelope) (\<lambda>p. jget p field) = Some (JArr arr)" "length arr = 2"
    and all: "\<forall>j<length arr. assignment d ([''build~1'', ''build~2''] ! j) ''build'' [(''plan'', emitter_envelope)] =
        Some (case arr ! j of
          JObj kvs \<Rightarrow> Inr \<lparr>env_status = EnvSuccess, env_summary = env_summary emitter_envelope, env_artifacts = [],
             env_payload = Some kvs, env_fork_choice = None, env_feedback_loop = None, env_attestations = None,
             env_stage_id = None, env_notes = None\<rparr>
        | _ \<Rightarrow> Inl (ElementNotObject (j + 1)))"
    by (auto simp del: One_nat_def)
  have "arr = [JObj [(''k'', JBool True)], JStr ''x'']"
    using a(1) by (auto simp: emitter_envelope_def success_envelope_def split: if_splits)
  with all [rule_format, of 1] show ?thesis by (auto simp: numeral_2_eq_2)
qed

end
