(* ===== verification/Run_Status.thy ===== *)
theory Run_Status
  imports Clone_Schedule
begin

text \<open>
  Statuses read back from what a run has logged: the stage status derived from the event log and
  the run status derived from the stage snapshots (\<open>runstore/port.ts\<close>), and the run clock
  (\<open>runstore/runStatusClock.ts\<close>).
\<close>

section \<open>Stage status from the event log\<close>

datatype StageStatus =
    SsPending | SsRunning | SsWaitingForInput | SsInterrupted | SsSucceeded | SsFailed | SsSkipped

text \<open>
  The lifecycle events, with the fields the run-time reads; every other line of the log is
  \<open>EvOther\<close> with its event name.
\<close>

datatype StageEvent =
    EvStarted
  | EvResumed
  | EvWaitingForInput
  | EvInterrupted
  | EvSucceeded
  | EvFailed string
  | EvSkipped
  | EvReopened
  | EvFeedbackLoopDecided string string "string option"
  | EvOther string

fun status_after :: "StageStatus \<Rightarrow> StageEvent \<Rightarrow> StageStatus" where
  "status_after s EvStarted = SsRunning"
| "status_after s EvResumed = SsRunning"
| "status_after s EvWaitingForInput = SsWaitingForInput"
| "status_after s EvInterrupted = SsInterrupted"
| "status_after s EvSucceeded = SsSucceeded"
| "status_after s (EvFailed r) = SsFailed"
| "status_after s EvSkipped = SsSkipped"
| "status_after s EvReopened = SsPending"
| "status_after s _ = s"

definition stageStatusFromEvents :: "StageEvent list \<Rightarrow> StageStatus" where
  "stageStatusFromEvents evs = foldl status_after SsPending evs"

lemma status_snoc [simp]: "stageStatusFromEvents (evs @ [e]) = status_after (stageStatusFromEvents evs) e"
  by (simp add: stageStatusFromEvents_def)

lemma status_Nil [simp]: "stageStatusFromEvents [] = SsPending"
  by (simp add: stageStatusFromEvents_def)

text \<open>The parts of a stage snapshot that scheduling and status derivation read.\<close>

record StageSnapshot =
  snap_stage_id :: string
  snap_definition_id :: "string option"
  snap_status :: StageStatus
  snap_envelope :: "StageEnvelope option"

section \<open>Run status from the stages\<close>

datatype RunStatus = RunCreated | RunQueued | RunRunning | RunSucceeded | RunFailed | RunCancelled

type_synonym snaps_by_id = "(string, StageSnapshot) jsmap"

definition definitionIdForStage :: "ResolvedPipelineStageNode list \<Rightarrow> string \<Rightarrow> snaps_by_id \<Rightarrow> string" where
  "definitionIdForStage ns stageId byId =
     (case Option.bind (jget byId stageId) snap_definition_id of
        Some d \<Rightarrow> if d \<noteq> [] then d
                 else (case List.find (\<lambda>n. node_id n = stageId) ns of
                         None \<Rightarrow> stageId | Some n \<Rightarrow> (case definition_id n of None \<Rightarrow> stageId | Some x \<Rightarrow> x))
      | None \<Rightarrow> (case List.find (\<lambda>n. node_id n = stageId) ns of
                  None \<Rightarrow> stageId | Some n \<Rightarrow> (case definition_id n of None \<Rightarrow> stageId | Some x \<Rightarrow> x)))"

definition failureAcceptedByJoin :: "ResolvedPipelineStageNode list \<Rightarrow> string \<Rightarrow> snaps_by_id \<Rightarrow> bool" where
  "failureAcceptedByJoin ns failedId byId =
     (let defId = definitionIdForStage ns failedId byId in
      list_ex (\<lambda>node.
        (case List.find (\<lambda>e. edge_id e = failedId \<or> edge_id e = defId) (predecessorEdges node) of
           None \<Rightarrow> False
         | Some e \<Rightarrow> on_includes e NtFailed \<and>
             (case jget byId (node_id node) of None \<Rightarrow> False | Some j \<Rightarrow> snap_status j \<noteq> SsSkipped))) ns)"

definition findUnhandledFailedStage ::
  "StageSnapshot list \<Rightarrow> ResolvedPipelineStageNode list option \<Rightarrow> StageSnapshot option" where
  "findUnhandledFailedStage stages dag =
     (let byId = jmap_by snap_stage_id stages in
      List.find (\<lambda>s. snap_status s = SsFailed \<and>
        (case dag of None \<Rightarrow> True | Some ns \<Rightarrow> \<not> failureAcceptedByJoin ns (snap_stage_id s) byId)) stages)"

definition stageResolvedForSuccess ::
  "StageSnapshot \<Rightarrow> ResolvedPipelineStageNode list option \<Rightarrow> snaps_by_id \<Rightarrow> bool" where
  "stageResolvedForSuccess stage dag byId =
     (if snap_status stage = SsSucceeded \<or> snap_status stage = SsSkipped then True
      else case dag of
        Some ns \<Rightarrow> snap_status stage = SsFailed \<and> failureAcceptedByJoin ns (snap_stage_id stage) byId
      | None \<Rightarrow> False)"

definition deriveStatusFromStages ::
  "StageSnapshot list \<Rightarrow> ResolvedPipelineStageNode list option \<Rightarrow> RunStatus option \<Rightarrow> RunStatus" where
  "deriveStatusFromStages stages dag currentStatus =
     (case currentStatus of
        Some RunCancelled \<Rightarrow> RunCancelled
      | Some RunQueued \<Rightarrow> RunQueued
      | _ \<Rightarrow>
        if stages = [] then RunCreated
        else if findUnhandledFailedStage stages dag \<noteq> None then RunFailed
        else if list_all (\<lambda>s. stageResolvedForSuccess s dag (jmap_by snap_stage_id stages)) stages
        then RunSucceeded
        else if list_ex (\<lambda>s. snap_status s \<in> {SsRunning, SsWaitingForInput, SsInterrupted, SsSucceeded}) stages
        then RunRunning
        else RunCreated)"

section \<open>The run clock\<close>

definition isRunClockTerminal :: "RunStatus \<Rightarrow> bool" where
  "isRunClockTerminal s = (s = RunSucceeded \<or> s = RunFailed \<or> s = RunCancelled)"

datatype FinishedAtDecision = Stamp nat | Keep | Clear

definition nextFinishedAt :: "RunStatus \<Rightarrow> nat option \<Rightarrow> nat \<Rightarrow> FinishedAtDecision" where
  "nextFinishedAt nextStatus currentFinishedAt time =
     (if isRunClockTerminal nextStatus
      then if currentFinishedAt \<noteq> None then Keep else Stamp time
      else Clear)"

end
