(* ===== verification/Run_Store.thy ===== *)
theory Run_Store
  imports Run_Status "HOL-Library.List_Lexorder" "HOL-Library.Char_ord"
begin

text \<open>
  The run store that the runtime writes through: the tables of one run in
  \<open>runstore/sqlite/SqliteRunStore.ts\<close> with the records of \<open>runstore/port.ts\<close>.  The tables of
  other runs are never touched, so the \<open>run_id\<close> column is left out and the run's row exists.  A
  table is the list of its rows in insertion order; \<open>ORDER BY\<close> is a stable sort.  A method is a
  function from the store to its result or exception and the store it leaves: an exception does
  not undo the writes made before it.  \<open>new Date()\<close> reads the field \<open>now\<close>, and \<open>randomUUID\<close> is
  the next of an unbounded supply, \<open>uuid\<close>, a parameter of the operations that draw one.
\<close>

section \<open>Records\<close>

datatype VerificationOutcome = VNotRun | VPassed | VFailed | VError

record StageExecution =
  ex_stage_id :: string
  ex_attempt :: nat
  ex_status :: StageStatus
  ex_verification_outcome :: VerificationOutcome
  ex_envelope :: "StageEnvelope option"
  ex_finished_at :: "nat option"

datatype FeedbackLoopState = LoopActive | LoopWaitingForHuman | LoopContinued | LoopAbandoned | LoopCompleted

datatype FeedbackReplayStatus =
    ReplayScheduled | ReplayActive | ReplayWaitingForHuman | ReplayCompleted | ReplayFailed | ReplaySuperseded

datatype PassStatus =
    PassPending | PassRunning | PassWaiting | PassSucceeded | PassFailed | PassSuperseded

datatype ForkGenerationStatus = GenActive | GenCompleted | GenSuperseded

record DeferredFeedbackSendBack =
  df_target :: string
  df_envelope :: StageEnvelope
  df_source_attempt :: nat

record FeedbackLoopRecord =
  lr_loop_id :: string
  lr_source_stage_id :: string
  lr_source_attempt :: nat
  lr_policy :: FeedbackLoopConfig
  lr_state :: FeedbackLoopState
  lr_current_replay_id :: "string option"
  lr_current_replay_number :: "nat option"
  lr_deferred :: "DeferredFeedbackSendBack option"
  lr_created_at :: nat
  lr_updated_at :: nat

record FeedbackReplayRecord =
  rr_replay_id :: string
  rr_loop_id :: string
  rr_source_stage_id :: string
  rr_source_attempt :: nat
  rr_target_stage_id :: string
  rr_replay_number :: nat
  rr_max_replays :: int
  rr_replay_session :: replay_session
  rr_route_stage_ids :: "string list"
  rr_feedback_envelope :: StageEnvelope
  rr_status :: FeedbackReplayStatus
  rr_created_at :: nat
  rr_updated_at :: nat

record FeedbackReplayStagePassRecord =
  pr_replay_id :: string
  pr_stage_id :: string
  pr_stage_attempt :: nat
  pr_session_origin_attempt :: "nat option"
  pr_session_mode :: replay_session
  pr_status :: PassStatus
  pr_started_at :: "nat option"
  pr_finished_at :: "nat option"
  pr_emitted_envelope :: "StageEnvelope option"

record ForkGenerationRecord =
  gr_generation_id :: string
  gr_replay_id :: "string option"
  gr_fork_parent_stage_id :: string
  gr_generation_number :: nat
  gr_clone_stage_ids :: "string list"
  gr_status :: ForkGenerationStatus
  gr_created_at :: nat
  gr_updated_at :: nat

record stage_row =
  sr_status :: StageStatus
  sr_envelope :: "StageEnvelope option"

record event_row =
  ev_stage_id :: string
  ev_attempt :: nat
  ev_event :: StageEvent

record run_store =
  rs_status :: RunStatus
  rs_finished_at :: "nat option"
  rs_dag :: "ResolvedPipelineDag option"
  rs_stages :: "(string, stage_row) jsmap"
  rs_executions :: "StageExecution list"
  rs_events :: "event_row list"
  rs_loops :: "FeedbackLoopRecord list"
  rs_replays :: "FeedbackReplayRecord list"
  rs_passes :: "FeedbackReplayStagePassRecord list"
  rs_generations :: "ForkGenerationRecord list"
  rs_uuids :: nat
  now :: nat

datatype store_error =
    BadStageId string
  | ExecutionNotFound string nat
  | EnvelopeNotFound string
  | LoopNotFound string
  | ReplayNotFound string
  | PassNotFound string string
  | GenerationNotFound string
  | ConstraintFailed string
  | Thrown string

type_synonym 'a action = "run_store \<Rightarrow> (store_error + 'a) \<times> run_store"

section \<open>Sequencing\<close>

definition return :: "'a \<Rightarrow> 'a action" where
  "return x = (\<lambda>s. (Inr x, s))"

definition throw :: "store_error \<Rightarrow> 'a action" where
  "throw e = (\<lambda>s. (Inl e, s))"

definition andThen :: "'a action \<Rightarrow> ('a \<Rightarrow> 'b action) \<Rightarrow> 'b action" where
  "andThen m f = (\<lambda>s. case m s of (Inl e, s') \<Rightarrow> (Inl e, s') | (Inr x, s') \<Rightarrow> f x s')"

definition gets :: "(run_store \<Rightarrow> 'a) \<Rightarrow> 'a action" where
  "gets f = (\<lambda>s. (Inr (f s), s))"

definition modify :: "(run_store \<Rightarrow> run_store) \<Rightarrow> unit action" where
  "modify f = (\<lambda>s. (Inr (), f s))"

text \<open>\<open>try { await m } catch {}\<close>.\<close>

definition attempt :: "unit action \<Rightarrow> unit action" where
  "attempt m = (\<lambda>s. (Inr (), snd (m s)))"

fun forEach :: "'a list \<Rightarrow> ('a \<Rightarrow> unit action) \<Rightarrow> unit action" where
  "forEach [] f = return ()"
| "forEach (x # xs) f = andThen (f x) (\<lambda>_. forEach xs f)"

definition onlyIf :: "bool \<Rightarrow> unit action \<Rightarrow> unit action" where
  "onlyIf b m = (if b then m else return ())"

definition fresh_uuid :: "(nat \<Rightarrow> string) \<Rightarrow> string action" where
  "fresh_uuid uuid = (\<lambda>s. (Inr (uuid (rs_uuids s)), s\<lparr>rs_uuids := Suc (rs_uuids s)\<rparr>))"

named_theorems act "running the actions of the run store"

lemma return_run [act]: "return x s = (Inr x, s)" by (simp add: return_def)
lemma throw_run [act]: "throw e s = (Inl e, s)" by (simp add: throw_def)
lemma gets_run [act]: "gets f s = (Inr (f s), s)" by (simp add: gets_def)
lemma modify_run [act]: "modify f s = (Inr (), f s)" by (simp add: modify_def)

lemma andThen_ok: "m s = (Inr x, s') \<Longrightarrow> andThen m f s = f x s'"
  by (simp add: andThen_def)

lemma andThen_error: "m s = (Inl e, s') \<Longrightarrow> andThen m f s = (Inl e, s')"
  by (simp add: andThen_def)

lemma andThen_return [act]: "andThen (return x) f s = f x s"
  by (simp add: andThen_def return_def)

lemma andThen_gets [act]: "andThen (gets g) f s = f (g s) s"
  by (simp add: andThen_def gets_def)

lemma andThen_modify [act]: "andThen (modify g) f s = f () (g s)"
  by (simp add: andThen_def modify_def)

lemma andThen_throw [act]: "andThen (throw e) f s = (Inl e, s)"
  by (simp add: andThen_def throw_def)

lemma andThen_InrE:
  assumes "andThen m f s = (Inr y, s'')"
  obtains x s' where "m s = (Inr x, s')" "f x s' = (Inr y, s'')"
  using assms by (auto simp: andThen_def split: prod.splits sum.splits)

lemma andThen_assoc: "andThen (andThen m f) g = andThen m (\<lambda>x. andThen (f x) g)"
  by (rule ext) (auto simp: andThen_def split: prod.splits sum.splits)

section \<open>Tables\<close>

definition row :: "('r \<Rightarrow> 'k) \<Rightarrow> 'r list \<Rightarrow> 'k \<Rightarrow> 'r option" where
  "row key rows k = List.find (\<lambda>r. key r = k) rows"

definition update_rows :: "('r \<Rightarrow> bool) \<Rightarrow> ('r \<Rightarrow> 'r) \<Rightarrow> 'r list \<Rightarrow> 'r list" where
  "update_rows P f rows = map (\<lambda>r. if P r then f r else r) rows"

section \<open>Stage executions\<close>

definition executions_of :: "run_store \<Rightarrow> string \<Rightarrow> StageExecution list" where
  "executions_of s stageId = List.filter (\<lambda>e. ex_stage_id e = stageId) (rs_executions s)"

definition max_attempt :: "StageExecution list \<Rightarrow> nat" where
  "max_attempt es = foldl max 0 (map ex_attempt es)"

definition new_execution :: "string \<Rightarrow> nat \<Rightarrow> StageExecution" where
  "new_execution stageId n =
     \<lparr>ex_stage_id = stageId, ex_attempt = n, ex_status = SsPending, ex_verification_outcome = VNotRun,
      ex_envelope = None, ex_finished_at = None\<rparr>"

definition createStageExecution :: "string \<Rightarrow> StageExecution action" where
  "createStageExecution stageId = (\<lambda>s.
     let e = new_execution stageId (max_attempt (executions_of s stageId) + 1) in
     (Inr e, s\<lparr>rs_executions := rs_executions s @ [e]\<rparr>))"

text \<open>\<open>ORDER BY attempt DESC LIMIT 1\<close>.\<close>

definition latest_execution :: "run_store \<Rightarrow> string \<Rightarrow> StageExecution option" where
  "latest_execution s stageId =
     List.find (\<lambda>e. ex_attempt e = max_attempt (executions_of s stageId)) (executions_of s stageId)"

definition getLatestStageExecution :: "string \<Rightarrow> StageExecution option action" where
  "getLatestStageExecution stageId = gets (\<lambda>s. latest_execution s stageId)"

definition countStageAttempts :: "string \<Rightarrow> nat action" where
  "countStageAttempts stageId = gets (\<lambda>s. length (executions_of s stageId))"

definition getStageExecution :: "string \<Rightarrow> nat \<Rightarrow> StageExecution action" where
  "getStageExecution stageId n = (\<lambda>s.
     case row (\<lambda>e. (ex_stage_id e, ex_attempt e)) (rs_executions s) (stageId, n) of
       None \<Rightarrow> (Inl (ExecutionNotFound stageId n), s)
     | Some e \<Rightarrow> (Inr e, s))"

record StageExecutionPatch =
  ep_status :: "StageStatus option"
  ep_verification_outcome :: "VerificationOutcome option"
  ep_finished_at :: "nat option"
  ep_envelope :: "StageEnvelope option option"

definition no_patch :: StageExecutionPatch where
  "no_patch = \<lparr>ep_status = None, ep_verification_outcome = None, ep_finished_at = None, ep_envelope = None\<rparr>"

definition or_else :: "'a option \<Rightarrow> 'a \<Rightarrow> 'a" where
  "or_else x d = (case x of None \<Rightarrow> d | Some v \<Rightarrow> v)"

definition patch_execution :: "StageExecutionPatch \<Rightarrow> StageExecution \<Rightarrow> StageExecution" where
  "patch_execution p e = e\<lparr>
     ex_status := or_else (ep_status p) (ex_status e),
     ex_verification_outcome := or_else (ep_verification_outcome p) (ex_verification_outcome e),
     ex_finished_at := (case ep_finished_at p of None \<Rightarrow> ex_finished_at e | Some t \<Rightarrow> Some t),
     ex_envelope := or_else (ep_envelope p) (ex_envelope e)\<rparr>"

definition updateStageExecution :: "string \<Rightarrow> nat \<Rightarrow> StageExecutionPatch \<Rightarrow> unit action" where
  "updateStageExecution stageId n p = (\<lambda>s.
     if p = no_patch then (Inr (), s)
     else if row (\<lambda>e. (ex_stage_id e, ex_attempt e)) (rs_executions s) (stageId, n) = None
     then (Inl (ExecutionNotFound stageId n), s)
     else (Inr (), s\<lparr>rs_executions :=
       update_rows (\<lambda>e. ex_stage_id e = stageId \<and> ex_attempt e = n) (patch_execution p) (rs_executions s)\<rparr>))"

section \<open>Envelopes and events\<close>

text \<open>
  The row of a stage is made with its directory, whose path refuses a stage id with path
  separators; the directories themselves are not modelled.
\<close>

definition ensureAttemptWorkspace :: "string \<Rightarrow> nat \<Rightarrow> unit action" where
  "ensureAttemptWorkspace stageId n = (\<lambda>s.
     if \<not> guardStageId stageId then (Inl (BadStageId stageId), s)
     else (Inr (), s\<lparr>rs_stages :=
       (if jhas (rs_stages s) stageId then rs_stages s
        else jset (rs_stages s) stageId \<lparr>sr_status = SsPending, sr_envelope = None\<rparr>)\<rparr>))"

definition writeEnvelope :: "string \<Rightarrow> StageEnvelope \<Rightarrow> nat option \<Rightarrow> unit action" where
  "writeEnvelope stageId env attemptOpt =
     (let n = or_else attemptOpt 1 in
      andThen (ensureAttemptWorkspace stageId n) (\<lambda>_.
      andThen (modify (\<lambda>s. s\<lparr>rs_stages :=
        (case jget (rs_stages s) stageId of
           Some r \<Rightarrow> jset (rs_stages s) stageId (r\<lparr>sr_envelope := Some env\<rparr>)
         | None \<Rightarrow> jset (rs_stages s) stageId
             \<lparr>sr_status = (if env_status env = EnvSuccess then SsSucceeded else SsFailed),
              sr_envelope = Some env\<rparr>)\<rparr>)) (\<lambda>_.
      updateStageExecution stageId n (no_patch\<lparr>ep_envelope := Some (Some env)\<rparr>))))"

definition readEnvelopeFromDb :: "run_store \<Rightarrow> string \<Rightarrow> StageEnvelope option" where
  "readEnvelopeFromDb s stageId = Option.bind (jget (rs_stages s) stageId) sr_envelope"

definition latest_envelope :: "run_store \<Rightarrow> string \<Rightarrow> StageEnvelope option" where
  "latest_envelope s stageId =
     (case Option.bind (latest_execution s stageId) ex_envelope of
        Some e \<Rightarrow> Some e
      | None \<Rightarrow> readEnvelopeFromDb s stageId)"

definition readEnvelope :: "string \<Rightarrow> nat option \<Rightarrow> StageEnvelope action" where
  "readEnvelope stageId attemptOpt =
     (case attemptOpt of
        Some n \<Rightarrow> andThen (getStageExecution stageId n) (\<lambda>e.
          (case ex_envelope e of Some env \<Rightarrow> return env | None \<Rightarrow> throw (EnvelopeNotFound stageId)))
      | None \<Rightarrow> (\<lambda>s. case latest_envelope s stageId of
          Some env \<Rightarrow> (Inr env, s) | None \<Rightarrow> (Inl (EnvelopeNotFound stageId), s)))"

fun denorm_status :: "StageEvent \<Rightarrow> StageStatus option" where
  "denorm_status EvStarted = Some SsRunning"
| "denorm_status EvResumed = Some SsRunning"
| "denorm_status EvWaitingForInput = Some SsWaitingForInput"
| "denorm_status EvSucceeded = Some SsSucceeded"
| "denorm_status (EvFailed r) = Some SsFailed"
| "denorm_status _ = None"

definition updateStageStatusDenorm :: "string \<Rightarrow> StageEvent \<Rightarrow> run_store \<Rightarrow> run_store" where
  "updateStageStatusDenorm stageId ev s =
     (case (denorm_status ev, jget (rs_stages s) stageId) of
        (Some st, Some r) \<Rightarrow> s\<lparr>rs_stages := jset (rs_stages s) stageId (r\<lparr>sr_status := st\<rparr>)\<rparr>
      | _ \<Rightarrow> s)"

definition appendStageEvent :: "string \<Rightarrow> StageEvent \<Rightarrow> nat option \<Rightarrow> unit action" where
  "appendStageEvent stageId ev attemptOpt =
     (let n = or_else attemptOpt 1 in
      andThen (ensureAttemptWorkspace stageId n) (\<lambda>_.
      modify (\<lambda>s. updateStageStatusDenorm stageId ev
        (s\<lparr>rs_events := rs_events s @ [\<lparr>ev_stage_id = stageId, ev_attempt = n, ev_event = ev\<rparr>]\<rparr>))))"

text \<open>An attempt of 0 would be falsy in \<open>loadEvents\<close>; attempts start at 1.\<close>

definition listStageEvents :: "string \<Rightarrow> nat option \<Rightarrow> run_store \<Rightarrow> StageEvent list" where
  "listStageEvents stageId attemptOpt s =
     map ev_event (List.filter (\<lambda>r. ev_stage_id r = stageId \<and>
       (case attemptOpt of None \<Rightarrow> True | Some n \<Rightarrow> n = 0 \<or> ev_attempt r = n)) (rs_events s))"

text \<open>\<open>buildStageSnapshotFromStore\<close> of \<open>runstore/stageSnapshot.ts\<close>, the fields of the model.\<close>

definition buildStageSnapshotFromStore :: "string \<Rightarrow> run_store \<Rightarrow> StageSnapshot" where
  "buildStageSnapshotFromStore stageId s =
     \<lparr>snap_stage_id = stageId, snap_definition_id = None,
      snap_status = stageStatusFromEvents
        (case latest_execution s stageId of
           Some e \<Rightarrow> listStageEvents stageId (Some (ex_attempt e)) s
         | None \<Rightarrow> listStageEvents stageId None s),
      snap_envelope = latest_envelope s stageId\<rparr>"

section \<open>The status of the run\<close>

definition applyRunStatusUpdate :: "RunStatus \<Rightarrow> RunStatus option \<Rightarrow> bool action" where
  "applyRunStatusUpdate status expected = (\<lambda>s.
     if expected \<noteq> None \<and> expected \<noteq> Some (rs_status s) then (Inr False, s)
     else (Inr True, s\<lparr>rs_status := status,
       rs_finished_at := (case nextFinishedAt status (rs_finished_at s) (now s) of
         Stamp t \<Rightarrow> Some t | Clear \<Rightarrow> None | Keep \<Rightarrow> rs_finished_at s)\<rparr>))"

definition updateRunStatus :: "RunStatus \<Rightarrow> unit action" where
  "updateRunStatus status = andThen (applyRunStatusUpdate status None) (\<lambda>_. return ())"

definition tryUpdateRunStatus :: "RunStatus \<Rightarrow> RunStatus \<Rightarrow> bool action" where
  "tryUpdateRunStatus status expected = applyRunStatusUpdate status (Some expected)"

definition updatePipelineDag :: "ResolvedPipelineDag \<Rightarrow> unit action" where
  "updatePipelineDag dag = modify (\<lambda>s. s\<lparr>rs_dag := Some dag\<rparr>)"

section \<open>The stages of a run\<close>

text \<open>
  The stage list of \<open>readRun\<close>: one snapshot per planned stage, with the definition the DAG names
  (\<open>runstore/runProjection.ts\<close>); a run without a DAG lists the stages that have a row.
\<close>

definition syntheticPendingSnapshot :: "string \<Rightarrow> string option \<Rightarrow> StageSnapshot" where
  "syntheticPendingSnapshot stageId definitionId =
     \<lparr>snap_stage_id = stageId, snap_definition_id = definitionId, snap_status = SsPending, snap_envelope = None\<rparr>"

definition overlay_stage :: "snaps_by_id \<Rightarrow> ResolvedPipelineStageNode list \<Rightarrow> string \<Rightarrow> StageSnapshot" where
  "overlay_stage byId ns i =
     (let definitionId = (case jget (jmap_by node_id ns) i of
            None \<Rightarrow> None | Some n \<Rightarrow> Some (or_else (definition_id n) (node_id n)));
          base = or_else (jget byId i) (syntheticPendingSnapshot i definitionId)
      in if definitionId = None \<or> snap_definition_id base = definitionId then base
         else base\<lparr>snap_definition_id := definitionId\<rparr>)"

definition overlayPlannedStages ::
  "string list \<Rightarrow> StageSnapshot list \<Rightarrow> ResolvedPipelineStageNode list \<Rightarrow> StageSnapshot list" where
  "overlayPlannedStages stageIds snaps ns = map (overlay_stage (jmap_by snap_stage_id snaps) ns) stageIds"

definition loadStageSnapshots :: "string list \<Rightarrow> run_store \<Rightarrow> StageSnapshot list" where
  "loadStageSnapshots stageIds s =
     (if stageIds = [] then map (\<lambda>i. buildStageSnapshotFromStore i s) (sort (jkeys (rs_stages s)))
      else overlayPlannedStages stageIds (map (\<lambda>i. buildStageSnapshotFromStore i s) stageIds) [])"

definition readRun_stages :: "run_store \<Rightarrow> StageSnapshot list" where
  "readRun_stages s =
     (case rs_dag s of
        None \<Rightarrow> loadStageSnapshots [] s
      | Some d \<Rightarrow> overlayPlannedStages (snapshot_ids d) (loadStageSnapshots (snapshot_ids d) s) (nodes d))"

definition resolveListedStatus ::
  "StageSnapshot list \<Rightarrow> RunStatus \<Rightarrow> ResolvedPipelineStageNode list option \<Rightarrow> RunStatus" where
  "resolveListedStatus stages metaStatus dag =
     (if stages = [] then metaStatus
      else let derived = deriveStatusFromStages stages dag (Some metaStatus) in
        if metaStatus = RunSucceeded \<and> derived = RunRunning \<and>
           \<not> list_ex (\<lambda>s. snap_status s = SsRunning \<or> snap_status s = SsWaitingForInput) stages
        then RunSucceeded else derived)"

section \<open>Attempts are numbered from one\<close>

definition attempts_ok :: "run_store \<Rightarrow> bool" where
  "attempts_ok s \<longleftrightarrow> (\<forall>st. map ex_attempt (executions_of s st) = [1..<Suc (length (executions_of s st))])"

lemma foldl_max_upt: "foldl max (0::nat) [1..<Suc n] = n"
  by (induction n) (auto simp: max_def)

lemma max_attempt_count: "attempts_ok s \<Longrightarrow> max_attempt (executions_of s st) = length (executions_of s st)"
  unfolding attempts_ok_def max_attempt_def by (metis foldl_max_upt)

lemma find_last_numbered:
  assumes "map f es = [1..<Suc (length es)]" "es \<noteq> []"
  shows "List.find (\<lambda>e. f e = length es) es = Some (last es)"
proof (rule find_distinct_key)
  show "distinct (map f es)" by (simp add: assms(1))
  show "last es \<in> set es" using assms(2) by simp
  show "f (last es) = length es"
    using assms by (metis diff_Suc_1 last_map last_upt le_add1 length_greater_0_conv less_Suc_eq_le plus_1_eq_Suc upt_conv_Nil
        upt_eq_Nil_conv One_nat_def Suc_leI not_less zero_less_Suc)
qed

lemma attempts_latest:
  "attempts_ok s \<Longrightarrow> latest_execution s st =
     (if executions_of s st = [] then None else Some (last (executions_of s st)))"
  unfolding latest_execution_def using find_last_numbered [of ex_attempt "executions_of s st"]
  by (auto simp: max_attempt_count attempts_ok_def)

lemma latest_attempt:
  assumes "attempts_ok s" "latest_execution s st = Some e"
  shows "ex_attempt e = length (executions_of s st)" "executions_of s st \<noteq> []"
  using assms find_SomeD [of _ "executions_of s st" e]
  by (auto simp: latest_execution_def max_attempt_count split: if_splits)

lemma createStageExecution_run:
  assumes ok: "attempts_ok s"
  shows "createStageExecution st s = (Inr (new_execution st (Suc (length (executions_of s st)))),
     s\<lparr>rs_executions := rs_executions s @ [new_execution st (Suc (length (executions_of s st)))]\<rparr>)"
    "attempts_ok (snd (createStageExecution st s))"
proof -
  show run: "createStageExecution st s = (Inr (new_execution st (Suc (length (executions_of s st)))),
     s\<lparr>rs_executions := rs_executions s @ [new_execution st (Suc (length (executions_of s st)))]\<rparr>)"
    by (simp add: createStageExecution_def max_attempt_count [OF ok] Let_def)
  show "attempts_ok (snd (createStageExecution st s))"
    using ok unfolding run attempts_ok_def by (auto simp: executions_of_def new_execution_def)
qed

section \<open>Properties\<close>

text \<open>
  C32: a new execution of a stage takes the next attempt number, counting from one, and becomes the
  latest; the number of attempts and the number of the latest attempt agree for every stage, and
  no other stage's attempts change.
\<close>

theorem attempts_are_counted:
  "attempts_ok s \<Longrightarrow>
   \<exists>e s'. createStageExecution st s = (Inr e, s') \<and> attempts_ok s' \<and>
     ex_attempt e = length (executions_of s st) + 1 \<and> latest_execution s' st = Some e \<and>
     countStageAttempts st s' = (Inr (ex_attempt e), s') \<and>
     (\<forall>q. q \<noteq> st \<longrightarrow> executions_of s' q = executions_of s q)"
proof -
  assume ok: "attempts_ok s"
  let ?e = "new_execution st (Suc (length (executions_of s st)))"
  let ?s = "s\<lparr>rs_executions := rs_executions s @ [?e]\<rparr>"
  have ok': "attempts_ok ?s" and run: "createStageExecution st s = (Inr ?e, ?s)"
    using createStageExecution_run [OF ok, of st] by simp_all
  have ex: "executions_of ?s st = executions_of s st @ [?e]" "q \<noteq> st \<Longrightarrow> executions_of ?s q = executions_of s q" for q
    by (simp_all add: executions_of_def new_execution_def)
  show ?thesis
    using run ok' ex attempts_latest [OF ok', of st]
    by (intro exI [of _ ?e] exI [of _ ?s]) (simp add: countStageAttempts_def gets_run new_execution_def)
qed

definition blank_store :: run_store where
  "blank_store = \<lparr>rs_status = RunCreated, rs_finished_at = None, rs_dag = None, rs_stages = [], rs_executions = [],
     rs_events = [], rs_loops = [], rs_replays = [], rs_passes = [], rs_generations = [], rs_uuids = 0, now = 0\<rparr>"

definition second_attempt :: run_store where
  "second_attempt = snd (createStageExecution ''build'' (snd (createStageExecution ''build'' blank_store)))"

lemma attempts_ok_blank: "attempts_ok blank_store"
  by (simp add: attempts_ok_def blank_store_def executions_of_def)

lemma attempts_ok_second: "attempts_ok second_attempt"
  unfolding second_attempt_def by (intro createStageExecution_run(2) attempts_ok_blank)

theorem attempts_are_counted_witness:
  "\<exists>e s'. createStageExecution ''build'' second_attempt = (Inr e, s') \<and> ex_attempt e = 3"
proof -
  have "length (executions_of second_attempt ''build'') = 2" by code_simp
  with attempts_are_counted [OF attempts_ok_second, of "''build''"] show ?thesis by auto
qed

text \<open>
  an event appended without an attempt number, as the scheduler appends \<open>skipped\<close> and
  \<open>reopened\<close>, goes to the first attempt: once the stage has a second attempt it does not change
  the status read back from the store.  Appended to the latest attempt it does.
\<close>

theorem event_without_attempt_is_lost:
  "attempts_ok s \<Longrightarrow> guardStageId st \<Longrightarrow> length (executions_of s st) > 1 \<Longrightarrow>
   (\<exists>s'. appendStageEvent st ev None s = (Inr (), s') \<and>
     snap_status (buildStageSnapshotFromStore st s') = snap_status (buildStageSnapshotFromStore st s)) \<and>
   (\<exists>s'. appendStageEvent st ev (Some (length (executions_of s st))) s = (Inr (), s') \<and>
     snap_status (buildStageSnapshotFromStore st s') = status_after (snap_status (buildStageSnapshotFromStore st s)) ev)"
proof -
  assume ok: "attempts_ok s" and g: "guardStageId st" and two: "length (executions_of s st) > 1"
  define n where "n = length (executions_of s st)"
  obtain e where e: "latest_execution s st = Some e" "ex_attempt e = n"
    using attempts_latest [OF ok, of st] latest_attempt(1) [OF ok, of st] two by (cases "executions_of s st = []") (auto simp: n_def)
  have run: "\<exists>s'. appendStageEvent st ev a s = (Inr (), s') \<and> rs_executions s' = rs_executions s \<and>
      rs_events s' = rs_events s @ [\<lparr>ev_stage_id = st, ev_attempt = or_else a 1, ev_event = ev\<rparr>]" for a
    using g by (auto simp: appendStageEvent_def ensureAttemptWorkspace_def updateStageStatusDenorm_def andThen_def modify_def
        Let_def split: option.splits)
  have status: "snap_status (buildStageSnapshotFromStore st s') =
      (if or_else a 1 = n then status_after (snap_status (buildStageSnapshotFromStore st s)) ev
       else snap_status (buildStageSnapshotFromStore st s))"
    if "rs_executions s' = rs_executions s"
      "rs_events s' = rs_events s @ [\<lparr>ev_stage_id = st, ev_attempt = or_else a 1, ev_event = ev\<rparr>]" for s' a
  proof -
    have "latest_execution s' st = Some e" using e that(1) by (simp add: latest_execution_def executions_of_def)
    then show ?thesis using e that(2) two by (auto simp: buildStageSnapshotFromStore_def listStageEvents_def n_def)
  qed
  show ?thesis
    using run [of None] run [of "Some n"] status [of _ None] status [of _ "Some n"] two
    by (auto simp: or_else_def n_def)
qed

theorem event_without_attempt_is_lost_witness:
  "\<exists>s'. appendStageEvent ''build'' EvSkipped None second_attempt = (Inr (), s') \<and>
     snap_status (buildStageSnapshotFromStore ''build'' s') = SsPending"
proof -
  have g: "guardStageId ''build''" and two: "length (executions_of second_attempt ''build'') > 1"
    and p: "snap_status (buildStageSnapshotFromStore ''build'' second_attempt) = SsPending" by code_simp+
  from event_without_attempt_is_lost [OF attempts_ok_second g two, of EvSkipped] p show ?thesis by auto
qed

definition clock_ok :: "run_store \<Rightarrow> bool" where
  "clock_ok s = ((rs_finished_at s \<noteq> None) = isRunClockTerminal (rs_status s))"

text \<open>
  The run clock: the finishing time is set exactly in the terminal statuses, a status update
  keeps that so, and among terminal statuses the first finishing time is kept.
\<close>

theorem run_clock_kept:
  "clock_ok s \<Longrightarrow>
   \<exists>b s'. applyRunStatusUpdate status expected s = (Inr b, s') \<and> clock_ok s' \<and>
     (b \<longleftrightarrow> expected = None \<or> expected = Some (rs_status s)) \<and>
     (if b then rs_status s' = status \<and>
        (isRunClockTerminal status \<longrightarrow> rs_finished_at s' =
           (if isRunClockTerminal (rs_status s) then rs_finished_at s else Some (now s)))
      else s' = s)"
  by (auto simp: applyRunStatusUpdate_def clock_ok_def nextFinishedAt_def)

theorem run_clock_kept_witness:
  "rs_finished_at (snd (updateRunStatus RunFailed (blank_store\<lparr>now := 7\<rparr>))) = Some 7"
proof -
  have ok: "clock_ok (blank_store\<lparr>now := 7\<rparr>)" by code_simp
  from run_clock_kept [OF ok, of RunFailed None] show ?thesis
    by (auto simp: updateRunStatus_def andThen_def return_def isRunClockTerminal_def blank_store_def)
qed

end
