(* ===== verification/Feedback_Store.thy ===== *)
theory Feedback_Store
  imports Run_Store
begin

text \<open>
  The feedback-loop, replay, stage-pass and fork-generation tables of
  \<open>runstore/sqlite/SqliteRunStore.ts\<close>, with the key constraints of \<open>runstore/sqlite/schema.ts\<close>.
\<close>

section \<open>Feedback loops\<close>

record FeedbackLoopPatch =
  lp_state :: "FeedbackLoopState option"
  lp_current_replay_id :: "string option"
  lp_current_replay_number :: "nat option"
  lp_policy :: "FeedbackLoopConfig option"
  lp_deferred :: "DeferredFeedbackSendBack option option"

definition no_loop_patch :: FeedbackLoopPatch where
  "no_loop_patch = \<lparr>lp_state = None, lp_current_replay_id = None, lp_current_replay_number = None,
     lp_policy = None, lp_deferred = None\<rparr>"

definition getFeedbackLoop :: "string \<Rightarrow> FeedbackLoopRecord action" where
  "getFeedbackLoop loopId = (\<lambda>s.
     case row lr_loop_id (rs_loops s) loopId of
       None \<Rightarrow> (Inl (LoopNotFound loopId), s)
     | Some r \<Rightarrow> (Inr r, s))"

text \<open>\<open>createFeedbackLoop\<close> without its optional \<open>state\<close>, which no caller passes.\<close>

definition createFeedbackLoop ::
  "string \<Rightarrow> string \<Rightarrow> nat \<Rightarrow> FeedbackLoopConfig \<Rightarrow> FeedbackLoopRecord action" where
  "createFeedbackLoop loopId sourceStageId sourceAttempt policy = (\<lambda>s.
     if row lr_loop_id (rs_loops s) loopId \<noteq> None then (Inl (ConstraintFailed ''feedback_loops''), s)
     else getFeedbackLoop loopId (s\<lparr>rs_loops := rs_loops s @
       [\<lparr>lr_loop_id = loopId, lr_source_stage_id = sourceStageId, lr_source_attempt = sourceAttempt,
         lr_policy = policy, lr_state = LoopActive, lr_current_replay_id = None,
         lr_current_replay_number = None, lr_deferred = None, lr_created_at = now s, lr_updated_at = now s\<rparr>]\<rparr>))"

definition listFeedbackLoops :: "FeedbackLoopRecord list action" where
  "listFeedbackLoops = gets (\<lambda>s. sort_key lr_created_at (rs_loops s))"

definition patch_loop :: "nat \<Rightarrow> FeedbackLoopPatch \<Rightarrow> FeedbackLoopRecord \<Rightarrow> FeedbackLoopRecord" where
  "patch_loop time p r = r\<lparr>
     lr_updated_at := time,
     lr_state := or_else (lp_state p) (lr_state r),
     lr_current_replay_id :=
       (case lp_current_replay_id p of None \<Rightarrow> lr_current_replay_id r | Some i \<Rightarrow> Some i),
     lr_current_replay_number :=
       (case lp_current_replay_number p of None \<Rightarrow> lr_current_replay_number r | Some n \<Rightarrow> Some n),
     lr_policy := or_else (lp_policy p) (lr_policy r),
     lr_deferred := or_else (lp_deferred p) (lr_deferred r)\<rparr>"

definition updateFeedbackLoop ::
  "string \<Rightarrow> FeedbackLoopPatch \<Rightarrow> FeedbackLoopState option \<Rightarrow> bool action" where
  "updateFeedbackLoop loopId p expected = (\<lambda>s.
     case row lr_loop_id (rs_loops s) loopId of
       None \<Rightarrow> (Inl (LoopNotFound loopId), s)
     | Some r \<Rightarrow>
         if expected \<noteq> None \<and> expected \<noteq> Some (lr_state r) then (Inr False, s)
         else (Inr True, s\<lparr>rs_loops :=
           update_rows (\<lambda>r. lr_loop_id r = loopId) (patch_loop (now s) p) (rs_loops s)\<rparr>))"

section \<open>Replays\<close>

record CreateFeedbackReplayInput =
  ci_replay_id :: string
  ci_loop_id :: string
  ci_source_stage_id :: string
  ci_source_attempt :: nat
  ci_target_stage_id :: string
  ci_replay_number :: nat
  ci_max_replays :: int
  ci_replay_session :: replay_session
  ci_route_stage_ids :: "string list"
  ci_feedback_envelope :: StageEnvelope
  ci_status :: FeedbackReplayStatus

definition getFeedbackReplay :: "string \<Rightarrow> FeedbackReplayRecord action" where
  "getFeedbackReplay replayId = (\<lambda>s.
     case row rr_replay_id (rs_replays s) replayId of
       None \<Rightarrow> (Inl (ReplayNotFound replayId), s)
     | Some r \<Rightarrow> (Inr r, s))"

definition replay_of_input :: "nat \<Rightarrow> CreateFeedbackReplayInput \<Rightarrow> FeedbackReplayRecord" where
  "replay_of_input time i =
     \<lparr>rr_replay_id = ci_replay_id i, rr_loop_id = ci_loop_id i, rr_source_stage_id = ci_source_stage_id i,
      rr_source_attempt = ci_source_attempt i, rr_target_stage_id = ci_target_stage_id i,
      rr_replay_number = ci_replay_number i, rr_max_replays = ci_max_replays i,
      rr_replay_session = ci_replay_session i, rr_route_stage_ids = ci_route_stage_ids i,
      rr_feedback_envelope = ci_feedback_envelope i, rr_status = ci_status i,
      rr_created_at = time, rr_updated_at = time\<rparr>"

definition createFeedbackReplay :: "CreateFeedbackReplayInput \<Rightarrow> FeedbackReplayRecord action" where
  "createFeedbackReplay i =
     andThen (getFeedbackLoop (ci_loop_id i)) (\<lambda>_. \<lambda>s.
       if list_ex (\<lambda>r. rr_replay_id r = ci_replay_id i \<or>
            rr_loop_id r = ci_loop_id i \<and> rr_replay_number r = ci_replay_number i) (rs_replays s)
       then (Inl (ConstraintFailed ''feedback_replays''), s)
       else getFeedbackReplay (ci_replay_id i)
         (s\<lparr>rs_replays := rs_replays s @ [replay_of_input (now s) i]\<rparr>))"

definition replays_of :: "run_store \<Rightarrow> string \<Rightarrow> FeedbackReplayRecord list" where
  "replays_of s loopId =
     sort_key rr_replay_number (List.filter (\<lambda>r. rr_loop_id r = loopId) (rs_replays s))"

definition listFeedbackReplays :: "string \<Rightarrow> FeedbackReplayRecord list action" where
  "listFeedbackReplays loopId = andThen (getFeedbackLoop loopId) (\<lambda>_. gets (\<lambda>s. replays_of s loopId))"

definition updateFeedbackReplay :: "string \<Rightarrow> FeedbackReplayStatus \<Rightarrow> unit action" where
  "updateFeedbackReplay replayId status = (\<lambda>s.
     if row rr_replay_id (rs_replays s) replayId = None then (Inl (ReplayNotFound replayId), s)
     else (Inr (), s\<lparr>rs_replays := update_rows (\<lambda>r. rr_replay_id r = replayId)
       (\<lambda>r. r\<lparr>rr_status := status, rr_updated_at := now s\<rparr>) (rs_replays s)\<rparr>))"

section \<open>Stage passes\<close>

definition pass_key :: "FeedbackReplayStagePassRecord \<Rightarrow> string \<times> string" where
  "pass_key r = (pr_replay_id r, pr_stage_id r)"

text \<open>The times and the envelope of a new pass, which no caller sets, are empty.\<close>

definition createFeedbackReplayStagePass ::
  "string \<Rightarrow> string \<Rightarrow> nat \<Rightarrow> nat option \<Rightarrow> replay_session \<Rightarrow> PassStatus \<Rightarrow> FeedbackReplayStagePassRecord action" where
  "createFeedbackReplayStagePass replayId stageId stageAttempt originAttempt mode status =
     andThen (getFeedbackReplay replayId) (\<lambda>_. \<lambda>s.
       if row pass_key (rs_passes s) (replayId, stageId) \<noteq> None
       then (Inl (ConstraintFailed ''feedback_replay_stage_passes''), s)
       else (let r = \<lparr>pr_replay_id = replayId, pr_stage_id = stageId, pr_stage_attempt = stageAttempt,
               pr_session_origin_attempt = originAttempt, pr_session_mode = mode, pr_status = status,
               pr_started_at = None, pr_finished_at = None, pr_emitted_envelope = None\<rparr>
             in (Inr r, s\<lparr>rs_passes := rs_passes s @ [r]\<rparr>)))"

definition passes_of :: "run_store \<Rightarrow> string \<Rightarrow> FeedbackReplayStagePassRecord list" where
  "passes_of s replayId = sort_key pr_stage_id (List.filter (\<lambda>r. pr_replay_id r = replayId) (rs_passes s))"

definition listFeedbackReplayStagePasses :: "string \<Rightarrow> FeedbackReplayStagePassRecord list action" where
  "listFeedbackReplayStagePasses replayId =
     andThen (getFeedbackReplay replayId) (\<lambda>_. gets (\<lambda>s. passes_of s replayId))"

text \<open>In a patch, \<open>Some None\<close> is the explicit \<open>null\<close> that clears a column.\<close>

record FeedbackReplayStagePassPatch =
  pp_status :: "PassStatus option"
  pp_stage_attempt :: "nat option"
  pp_started_at :: "nat option option"
  pp_finished_at :: "nat option option"
  pp_emitted_envelope :: "StageEnvelope option option"

definition no_pass_patch :: FeedbackReplayStagePassPatch where
  "no_pass_patch = \<lparr>pp_status = None, pp_stage_attempt = None, pp_started_at = None, pp_finished_at = None,
     pp_emitted_envelope = None\<rparr>"

definition patch_pass ::
  "FeedbackReplayStagePassPatch \<Rightarrow> FeedbackReplayStagePassRecord \<Rightarrow> FeedbackReplayStagePassRecord" where
  "patch_pass p r = r\<lparr>
     pr_status := or_else (pp_status p) (pr_status r),
     pr_stage_attempt := or_else (pp_stage_attempt p) (pr_stage_attempt r),
     pr_started_at := or_else (pp_started_at p) (pr_started_at r),
     pr_finished_at := or_else (pp_finished_at p) (pr_finished_at r),
     pr_emitted_envelope := or_else (pp_emitted_envelope p) (pr_emitted_envelope r)\<rparr>"

definition updateFeedbackReplayStagePass ::
  "string \<Rightarrow> string \<Rightarrow> FeedbackReplayStagePassPatch \<Rightarrow> unit action" where
  "updateFeedbackReplayStagePass replayId stageId p = (\<lambda>s.
     if p = no_pass_patch then (Inr (), s)
     else if row pass_key (rs_passes s) (replayId, stageId) = None then (Inl (PassNotFound replayId stageId), s)
     else (Inr (), s\<lparr>rs_passes := update_rows (\<lambda>r. pass_key r = (replayId, stageId)) (patch_pass p) (rs_passes s)\<rparr>))"

section \<open>Fork generations\<close>

definition createForkGeneration ::
  "string \<Rightarrow> string option \<Rightarrow> string \<Rightarrow> nat \<Rightarrow> string list \<Rightarrow> ForkGenerationStatus \<Rightarrow> ForkGenerationRecord action" where
  "createForkGeneration generationId replayId forkParent number cloneIds status =
     andThen (case replayId of None \<Rightarrow> return () | Some r \<Rightarrow> andThen (getFeedbackReplay r) (\<lambda>_. return ())) (\<lambda>_. \<lambda>s.
       if list_ex (\<lambda>g. gr_generation_id g = generationId \<or>
            gr_fork_parent_stage_id g = forkParent \<and> gr_generation_number g = number) (rs_generations s)
       then (Inl (ConstraintFailed ''fork_generations''), s)
       else (let g = \<lparr>gr_generation_id = generationId, gr_replay_id = replayId,
               gr_fork_parent_stage_id = forkParent, gr_generation_number = number,
               gr_clone_stage_ids = cloneIds, gr_status = status, gr_created_at = now s, gr_updated_at = now s\<rparr>
             in (Inr g, s\<lparr>rs_generations := rs_generations s @ [g]\<rparr>)))"

definition listForkGenerations :: "string option \<Rightarrow> string option \<Rightarrow> run_store \<Rightarrow> ForkGenerationRecord list" where
  "listForkGenerations replayId forkParent s =
     sort_key gr_created_at (List.filter (\<lambda>g.
       (replayId = None \<or> gr_replay_id g = replayId) \<and>
       (forkParent = None \<or> Some (gr_fork_parent_stage_id g) = forkParent)) (rs_generations s))"

definition updateForkGeneration :: "string \<Rightarrow> ForkGenerationStatus \<Rightarrow> unit action" where
  "updateForkGeneration generationId status = (\<lambda>s.
     if row gr_generation_id (rs_generations s) generationId = None then (Inl (GenerationNotFound generationId), s)
     else (Inr (), s\<lparr>rs_generations := update_rows (\<lambda>g. gr_generation_id g = generationId)
       (\<lambda>g. g\<lparr>gr_status := status, gr_updated_at := now s\<rparr>) (rs_generations s)\<rparr>))"

end
