(* ===== verification/Fork_Generation.thy ===== *)
theory Fork_Generation
  imports Feedback_Store
begin

text \<open>
  The cohorts of clone instances that a fork parent fans out into, one generation per fan-out:
  \<open>runtime/forkGeneration.ts\<close>.  A \<open>Set\<close> of ids is a list in insertion order.
\<close>

section \<open>Clone emitters and instances of a DAG\<close>

definition isCloneEmitter :: "ResolvedPipelineStageNode option \<Rightarrow> bool" where
  "isCloneEmitter node = (Option.bind node clone_array_field \<noteq> None)"

definition isMintedCloneInstance :: "ResolvedPipelineStageNode option \<Rightarrow> bool" where
  "isMintedCloneInstance node =
     (case node of None \<Rightarrow> False | Some n \<Rightarrow> definition_id n \<noteq> None \<and> definition_id n \<noteq> Some (node_id n))"

definition parentIsCloneEmitter :: "ResolvedPipelineDag \<Rightarrow> ResolvedPipelineStageNode option \<Rightarrow> bool" where
  "parentIsCloneEmitter dag node =
     (case Option.bind node needs of None \<Rightarrow> False | Some p \<Rightarrow> isCloneEmitter (find_node dag p))"

definition needs_of :: "ResolvedPipelineStageNode option \<Rightarrow> string list" where
  "needs_of node = (case Option.bind node needs of None \<Rightarrow> [] | Some p \<Rightarrow> [p])"

definition other_instances :: "ResolvedPipelineDag \<Rightarrow> string \<Rightarrow> string list" where
  "other_instances dag defId =
     List.filter (\<lambda>i. i \<noteq> defId) (instancesOfDefinition (asDagSnapshot dag) defId)"

text \<open>The four loops add to one set, in this order.\<close>

definition routeRelatedForkParentIds :: "ResolvedPipelineDag \<Rightarrow> string list \<Rightarrow> string list" where
  "routeRelatedForkParentIds dag routeStageIds = jset_of
     (List.filter (\<lambda>i. isCloneEmitter (find_node dag i)) routeStageIds
      @ concat (map (\<lambda>i. if parentIsCloneEmitter dag (find_node dag i) then needs_of (find_node dag i) else [])
          routeStageIds)
      @ concat (map (\<lambda>n. if isMintedCloneInstance (Some n)
                        then List.filter (\<lambda>p. p \<in> set routeStageIds) (needs_of (Some n)) else []) (nodes dag))
      @ concat (map (\<lambda>i. if \<not> parentIsCloneEmitter dag (find_node dag i) \<or> isMintedCloneInstance (find_node dag i)
                        then []
                        else if other_instances dag i \<noteq> [] then needs_of (find_node dag i) else [])
          routeStageIds))"

definition cloneInstanceIdsForForkParent :: "ResolvedPipelineDag \<Rightarrow> string \<Rightarrow> string list" where
  "cloneInstanceIdsForForkParent dag forkParent = jset_of
     (concat (map (\<lambda>c.
        if isCloneEmitter (find_node dag forkParent) \<and> \<not> isMintedCloneInstance (find_node dag c)
        then other_instances dag c
        else if isMintedCloneInstance (find_node dag c) then [c] else []) (children_of dag forkParent))
      @ map node_id (List.filter (\<lambda>n. needs n = Some forkParent \<and> isMintedCloneInstance (Some n)) (nodes dag)))"

section \<open>Cohorts\<close>

datatype ActiveCohort = Untracked | AwaitingMint | ActiveIds "string list"

definition activeCohortFromCloneIds :: "string list option \<Rightarrow> ActiveCohort" where
  "activeCohortFromCloneIds ids =
     (case ids of None \<Rightarrow> Untracked | Some xs \<Rightarrow> if xs = [] then AwaitingMint else ActiveIds xs)"

fun cloneIdsFromActiveCohort :: "ActiveCohort \<Rightarrow> string list option" where
  "cloneIdsFromActiveCohort Untracked = None"
| "cloneIdsFromActiveCohort AwaitingMint = Some []"
| "cloneIdsFromActiveCohort (ActiveIds xs) = Some xs"

definition forkParentForNeedsStage :: "ResolvedPipelineDag \<Rightarrow> string \<Rightarrow> string option" where
  "forkParentForNeedsStage dag needsStageId =
     (case other_instances dag needsStageId of
        [] \<Rightarrow> None
      | i # _ \<Rightarrow> Option.bind (find_node dag i) needs)"

fun filterJoinInputs :: "string list \<Rightarrow> ActiveCohort \<Rightarrow> string list" where
  "filterJoinInputs ids Untracked = ids"
| "filterJoinInputs ids AwaitingMint = []"
| "filterJoinInputs ids (ActiveIds xs) = List.filter (\<lambda>i. i \<in> set xs) ids"

definition filterJoinInstanceIds :: "string list \<Rightarrow> string list option \<Rightarrow> string list" where
  "filterJoinInstanceIds ids active = filterJoinInputs ids (activeCohortFromCloneIds active)"

section \<open>Generations in the store\<close>

definition max_generation :: "ForkGenerationRecord list \<Rightarrow> nat" where
  "max_generation gs = foldl max 0 (map gr_generation_number gs)"

definition is_active :: "ForkGenerationRecord \<Rightarrow> bool" where
  "is_active g = (gr_status g = GenActive)"

definition backfillActiveGenerationIfNeeded ::
  "(nat \<Rightarrow> string) \<Rightarrow> ResolvedPipelineDag \<Rightarrow> string \<Rightarrow> ForkGenerationRecord option action" where
  "backfillActiveGenerationIfNeeded uuid dag forkParent =
     andThen (gets (listForkGenerations None (Some forkParent))) (\<lambda>existing.
       if list_ex is_active existing then return (List.find is_active existing)
       else if cloneInstanceIdsForForkParent dag forkParent = [] then return None
       else andThen (fresh_uuid uuid) (\<lambda>i.
         andThen (createForkGeneration i None forkParent (max_generation existing + 1)
             (cloneInstanceIdsForForkParent dag forkParent) GenActive)
           (\<lambda>g. return (Some g))))"

fun supersede_generations ::
  "ForkGenerationRecord list \<Rightarrow> string list \<Rightarrow> ForkGenerationRecord list \<Rightarrow>
   (string list \<times> ForkGenerationRecord list) action" where
  "supersede_generations [] ids retired = return (ids, retired)"
| "supersede_generations (g # gs) ids retired =
     (if \<not> is_active g then supersede_generations gs ids retired
      else andThen (updateForkGeneration (gr_generation_id g) GenSuperseded) (\<lambda>_.
        supersede_generations gs (foldl jadd ids (gr_clone_stage_ids g)) (retired @ [g\<lparr>gr_status := GenSuperseded\<rparr>])))"

fun supersede_parents ::
  "(nat \<Rightarrow> string) \<Rightarrow> ResolvedPipelineDag \<Rightarrow> string list \<Rightarrow> string list \<Rightarrow> ForkGenerationRecord list \<Rightarrow>
   (string list \<times> ForkGenerationRecord list) action" where
  "supersede_parents uuid dag [] ids retired = return (ids, retired)"
| "supersede_parents uuid dag (p # ps) ids retired =
     andThen (backfillActiveGenerationIfNeeded uuid dag p) (\<lambda>_.
     andThen (gets (listForkGenerations None (Some p))) (\<lambda>gens.
     andThen (supersede_generations gens ids retired) (\<lambda>(ids', retired').
       supersede_parents uuid dag ps ids' retired')))"

definition supersedeActiveGenerations ::
  "(nat \<Rightarrow> string) \<Rightarrow> ResolvedPipelineDag \<Rightarrow> string list \<Rightarrow> (string list \<times> ForkGenerationRecord list) action" where
  "supersedeActiveGenerations uuid dag parents = supersede_parents uuid dag parents [] []"

text \<open>The superseded clone ids and the fork parents of the route.\<close>

definition retireCohortsForRoute ::
  "(nat \<Rightarrow> string) \<Rightarrow> ResolvedPipelineDag \<Rightarrow> string list \<Rightarrow> (string list \<times> string list) action" where
  "retireCohortsForRoute uuid dag routeStageIds =
     (let parents = routeRelatedForkParentIds dag routeStageIds in
      andThen (supersedeActiveGenerations uuid dag parents) (\<lambda>(ids, _). return (ids, parents)))"

definition collectSupersededCloneIdsForRoute :: "ResolvedPipelineDag \<Rightarrow> string list \<Rightarrow> run_store \<Rightarrow> string list" where
  "collectSupersededCloneIdsForRoute dag routeStageIds s =
     jset_of (concat (map (\<lambda>p. concat (map gr_clone_stage_ids
         (List.filter (\<lambda>g. gr_status g = GenSuperseded) (listForkGenerations None (Some p) s))))
       (routeRelatedForkParentIds dag routeStageIds)))"

definition createGenerationForFanout ::
  "(nat \<Rightarrow> string) \<Rightarrow> string option \<Rightarrow> string \<Rightarrow> string list \<Rightarrow> ForkGenerationRecord action" where
  "createGenerationForFanout uuid replayId forkParent cloneIds =
     andThen (gets (listForkGenerations None (Some forkParent))) (\<lambda>existing.
     andThen (fresh_uuid uuid) (\<lambda>i.
       createForkGeneration i replayId forkParent (max_generation existing + 1) cloneIds GenActive))"

definition mintCohortForFanout ::
  "(nat \<Rightarrow> string) \<Rightarrow> string option \<Rightarrow> string \<Rightarrow> string list \<Rightarrow> ForkGenerationRecord action" where
  "mintCohortForFanout uuid replayId forkParent cloneIds =
     createGenerationForFanout uuid replayId forkParent cloneIds"

definition activeCohortForParent :: "string \<Rightarrow> run_store \<Rightarrow> ActiveCohort" where
  "activeCohortForParent forkParent s =
     (let gens = listForkGenerations None (Some forkParent) s in
      if gens = [] then Untracked
      else if List.filter is_active gens = [] then AwaitingMint
      else ActiveIds (jset_of (concat (map gr_clone_stage_ids (List.filter is_active gens)))))"

definition activeCloneIdsForParent :: "string \<Rightarrow> run_store \<Rightarrow> string list option" where
  "activeCloneIdsForParent forkParent s = cloneIdsFromActiveCohort (activeCohortForParent forkParent s)"

definition selectActiveInput ::
  "ResolvedPipelineDag \<Rightarrow> string \<Rightarrow> (string, string list) jsmap option \<Rightarrow> run_store \<Rightarrow> ActiveCohort" where
  "selectActiveInput dag needsStageId scheduleOverride s =
     (case forkParentForNeedsStage dag needsStageId of
        None \<Rightarrow> Untracked
      | Some p \<Rightarrow>
          (case scheduleOverride of
             Some m \<Rightarrow>
               if m = [] then Untracked
               else (case jget m p of None \<Rightarrow> Untracked | Some xs \<Rightarrow> activeCohortFromCloneIds (Some xs))
           | None \<Rightarrow> activeCohortForParent p s))"

definition supersededCloneIds :: "run_store \<Rightarrow> string list" where
  "supersededCloneIds s =
     jset_of (concat (map gr_clone_stage_ids
       (List.filter (\<lambda>g. gr_status g = GenSuperseded) (listForkGenerations None None s))))"

definition cohortByForkParent :: "run_store \<Rightarrow> (string, string list) jsmap" where
  "cohortByForkParent s =
     foldl (\<lambda>m g. if is_active g then jset m (gr_fork_parent_stage_id g) (jset_of (gr_clone_stage_ids g)) else m)
       [] (listForkGenerations None None s)"

definition forkCohortMapsFromStore :: "run_store \<Rightarrow> string list \<times> (string, string list) jsmap" where
  "forkCohortMapsFromStore s = (supersededCloneIds s, cohortByForkParent s)"

section \<open>Fork choices during a replay\<close>

definition reaches_source :: "ResolvedPipelineDag \<Rightarrow> ResolvedPipelineStageNode \<Rightarrow> string \<Rightarrow> bool" where
  "reaches_source dag source i =
     (i = node_id source \<or> i \<in> set (ancestors source) \<or> node_id source \<in> set (collectDownstreamStageIds dag i))"

definition forkChoicePreservesReplaySource :: "ResolvedPipelineDag \<Rightarrow> string list \<Rightarrow> string \<Rightarrow> bool" where
  "forkChoicePreservesReplaySource dag chosen sourceStageId =
     (case find_node dag sourceStageId of
        None \<Rightarrow> False
      | Some source \<Rightarrow> list_ex (\<lambda>c.
          reaches_source dag source c \<or>
          (let child = find_node dag c in
           parentIsCloneEmitter dag child \<and> \<not> isMintedCloneInstance child \<and>
           (list_ex (reaches_source dag source) (other_instances dag c) \<or>
            list_ex (\<lambda>n. needs n = Some c \<and> reaches_source dag source (node_id n)) (nodes dag)))) chosen)"

section \<open>Generation numbers never clash\<close>

text \<open>
  The generations drew their ids from the supply, and no two of one fork parent have the same
  number: what the primary key and the unique index of the table ask.
\<close>

definition generations_ok :: "(nat \<Rightarrow> string) \<Rightarrow> run_store \<Rightarrow> bool" where
  "generations_ok uuid s \<longleftrightarrow>
     distinct (map gr_generation_id (rs_generations s)) \<and>
     gr_generation_id ` set (rs_generations s) \<subseteq> uuid ` {..<rs_uuids s} \<and>
     distinct (map (\<lambda>g. (gr_fork_parent_stage_id g, gr_generation_number g)) (rs_generations s))"

definition generations_of :: "run_store \<Rightarrow> string \<Rightarrow> ForkGenerationRecord list" where
  "generations_of s p = List.filter (\<lambda>g. gr_fork_parent_stage_id g = p) (rs_generations s)"

lemma listForkGenerations_parent: "listForkGenerations None (Some p) s = sort_key gr_created_at (generations_of s p)"
  by (simp add: listForkGenerations_def generations_of_def)

lemma fan_out_creates:
  assumes ok: "generations_ok uuid s" and inj: "inj uuid"
    and replay: "\<And>r. replayId = Some r \<Longrightarrow> row rr_replay_id (rs_replays s) r \<noteq> None"
  obtains g where
    "createGenerationForFanout uuid replayId p ids s =
       (Inr g, s\<lparr>rs_generations := rs_generations s @ [g], rs_uuids := Suc (rs_uuids s)\<rparr>)"
    "gr_generation_id g = uuid (rs_uuids s)" "gr_replay_id g = replayId"
    "gr_fork_parent_stage_id g = p" "gr_clone_stage_ids g = ids" "gr_status g = GenActive"
    "\<forall>h\<in>set (generations_of s p). gr_generation_number h < gr_generation_number g"
    "generations_ok uuid (s\<lparr>rs_generations := rs_generations s @ [g], rs_uuids := Suc (rs_uuids s)\<rparr>)"
proof -
  let ?n = "max_generation (listForkGenerations None (Some p) s) + 1"
  define g where "g = \<lparr>gr_generation_id = uuid (rs_uuids s), gr_replay_id = replayId,
    gr_fork_parent_stage_id = p, gr_generation_number = ?n, gr_clone_stage_ids = ids,
    gr_status = GenActive, gr_created_at = now s, gr_updated_at = now s\<rparr>"
  have less: "gr_generation_number h < ?n" if "h \<in> set (generations_of s p)" for h
    using that foldl_max_ge [of "gr_generation_number h" "map gr_generation_number (listForkGenerations None (Some p) s)" 0]
    by (auto simp: max_generation_def listForkGenerations_parent)
  have fresh: "uuid (rs_uuids s) \<notin> gr_generation_id ` set (rs_generations s)"
    using ok inj by (auto simp: generations_ok_def dest: injD)
  have number: "(p, ?n) \<notin> (\<lambda>h. (gr_fork_parent_stage_id h, gr_generation_number h)) ` set (rs_generations s)"
    using less by (fastforce simp: generations_of_def)
  have noclash: "\<not> list_ex (\<lambda>h. gr_generation_id h = uuid (rs_uuids s) \<or>
      gr_fork_parent_stage_id h = p \<and> gr_generation_number h = ?n) (rs_generations s)"
    using fresh number by (force simp: list_ex_iff)
  have check: "(case replayId of None \<Rightarrow> return () | Some r \<Rightarrow> andThen (getFeedbackReplay r) (\<lambda>_. return ())) t = (Inr (), t)"
    if "rs_replays t = rs_replays s" for t
    using replay that by (cases replayId) (auto simp: act andThen_def getFeedbackReplay_def)
  have eq: "createGenerationForFanout uuid replayId p ids s =
       (Inr g, s\<lparr>rs_generations := rs_generations s @ [g], rs_uuids := Suc (rs_uuids s)\<rparr>)"
    using noclash
    by (simp add: createGenerationForFanout_def act andThen_def fresh_uuid_def createForkGeneration_def check g_def Let_def)
  have "generations_ok uuid (s\<lparr>rs_generations := rs_generations s @ [g], rs_uuids := Suc (rs_uuids s)\<rparr>)"
    using ok fresh number by (auto simp: generations_ok_def g_def lessThan_Suc)
  with eq less show thesis by (intro that [of g]) (simp_all add: g_def)
qed

definition superseded :: "nat \<Rightarrow> ForkGenerationRecord \<Rightarrow> ForkGenerationRecord" where
  "superseded time g = g\<lparr>gr_status := GenSuperseded, gr_updated_at := time\<rparr>"

definition supersede_ids :: "string set \<Rightarrow> nat \<Rightarrow> ForkGenerationRecord list \<Rightarrow> ForkGenerationRecord list" where
  "supersede_ids A time gs = map (\<lambda>g. if gr_generation_id g \<in> A then superseded time g else g) gs"

lemma superseded_simps [simp]:
  "gr_generation_id (superseded t g) = gr_generation_id g" "gr_status (superseded t g) = GenSuperseded"
  "gr_fork_parent_stage_id (superseded t g) = gr_fork_parent_stage_id g"
  "gr_generation_number (superseded t g) = gr_generation_number g"
  "gr_clone_stage_ids (superseded t g) = gr_clone_stage_ids g"
  "superseded t (superseded t g) = superseded t g"
  by (simp_all add: superseded_def)

lemma supersede_ids_empty [simp]: "supersede_ids {} t gs = gs"
  by (simp add: supersede_ids_def)

lemma supersede_ids_twice [simp]: "supersede_ids B t (supersede_ids A t gs) = supersede_ids (A \<union> B) t gs"
  by (simp add: supersede_ids_def)

lemma supersede_ids_keys [simp]:
  "map gr_generation_id (supersede_ids A t gs) = map gr_generation_id gs"
  "map (\<lambda>g. (gr_fork_parent_stage_id g, gr_generation_number g)) (supersede_ids A t gs) =
   map (\<lambda>g. (gr_fork_parent_stage_id g, gr_generation_number g)) gs"
  by (simp_all add: supersede_ids_def)

lemma supersede_ids_keys_set [simp]:
  "gr_generation_id ` set (supersede_ids A t gs) = gr_generation_id ` set gs"
  by (metis supersede_ids_keys(1) list.set_map)

lemma supersede_generations_run:
  "gr_generation_id ` set gs \<subseteq> gr_generation_id ` set (rs_generations s) \<Longrightarrow>
   supersede_generations gs ids retired s =
     (Inr (foldl jadd ids (concat (map gr_clone_stage_ids (List.filter is_active gs))),
           retired @ map (\<lambda>g. g\<lparr>gr_status := GenSuperseded\<rparr>) (List.filter is_active gs)),
      s\<lparr>rs_generations := supersede_ids (gr_generation_id ` set (List.filter is_active gs)) (now s) (rs_generations s)\<rparr>)"
proof (induction gs arbitrary: s ids retired)
  case Nil
  then show ?case by (simp add: act)
next
  case (Cons h gs)
  show ?case
  proof (cases "is_active h")
    case True
    let ?s = "s\<lparr>rs_generations := supersede_ids {gr_generation_id h} (now s) (rs_generations s)\<rparr>"
    have "row gr_generation_id (rs_generations s) (gr_generation_id h) \<noteq> None"
      using Cons.prems by (auto simp: row_def find_eq_None_iff)
    then have up: "updateForkGeneration (gr_generation_id h) GenSuperseded s = (Inr (), ?s)"
      by (simp add: updateForkGeneration_def update_rows_def superseded_def supersede_ids_def)
    have "gr_generation_id ` set gs \<subseteq> gr_generation_id ` set (rs_generations ?s)"
      using Cons.prems by simp
    from Cons.IH [OF this] show ?thesis using True up by (simp add: andThen_def)
  next
    case False
    then show ?thesis using Cons.IH [of s] Cons.prems by simp
  qed
qed

section \<open>Retiring the cohorts of a fork parent\<close>

text \<open>The clone ids that retiring a fork parent supersedes: its active ones, or those it backfills.\<close>

definition cohort_ids :: "ResolvedPipelineDag \<Rightarrow> run_store \<Rightarrow> string \<Rightarrow> string set" where
  "cohort_ids dag s p =
     (if \<exists>g\<in>set (generations_of s p). is_active g
      then \<Union>(set ` gr_clone_stage_ids ` {g \<in> set (generations_of s p). is_active g})
      else set (cloneInstanceIdsForForkParent dag p))"

text \<open>Nothing changed but the generations and the ids drawn.\<close>

definition only_generations :: "run_store \<Rightarrow> run_store \<Rightarrow> bool" where
  "only_generations s s' \<longleftrightarrow> s'\<lparr>rs_generations := [], rs_uuids := 0\<rparr> = s\<lparr>rs_generations := [], rs_uuids := 0\<rparr> \<and>
     rs_uuids s \<le> rs_uuids s'"

lemma only_generations_refl [simp]: "only_generations s s"
  by (simp add: only_generations_def)

lemma only_generations_trans: "only_generations s s' \<Longrightarrow> only_generations s' s'' \<Longrightarrow> only_generations s s''"
  by (simp add: only_generations_def)

lemma backfill_run:
  assumes ok: "generations_ok uuid s" and inj: "inj uuid"
  obtains r s' where "backfillActiveGenerationIfNeeded uuid dag p s = (Inr r, s')" "generations_ok uuid s'"
    "only_generations s s'" "\<And>q. q \<noteq> p \<Longrightarrow> generations_of s' q = generations_of s q"
    "\<Union>(set ` gr_clone_stage_ids ` {g \<in> set (generations_of s' p). is_active g}) = cohort_ids dag s p"
    "generations_of s' p = [] \<longleftrightarrow> generations_of s p = [] \<and> cloneInstanceIdsForForkParent dag p = []"
proof (cases "\<exists>g\<in>set (generations_of s p). is_active g")
  case True
  then have run: "\<exists>r. backfillActiveGenerationIfNeeded uuid dag p s = (Inr r, s)"
    by (auto simp: backfillActiveGenerationIfNeeded_def act listForkGenerations_parent list_ex_iff)
  then obtain r where "backfillActiveGenerationIfNeeded uuid dag p s = (Inr r, s)" ..
  moreover have "generations_of s p \<noteq> []" using True by auto
  ultimately show thesis using True ok by (intro that [of r s]) (simp_all add: cohort_ids_def only_generations_refl)
next
  case none: False
  show thesis
  proof (cases "cloneInstanceIdsForForkParent dag p = []")
    case True
    have "backfillActiveGenerationIfNeeded uuid dag p s = (Inr None, s)"
      using True none by (auto simp: backfillActiveGenerationIfNeeded_def act listForkGenerations_parent list_ex_iff)
    moreover have "cohort_ids dag s p = {}" using True none by (simp add: cohort_ids_def)
    moreover have "{g \<in> set (generations_of s p). is_active g} = {}" using none by blast
    ultimately show thesis using ok True by (intro that [of None s]) (auto simp: only_generations_refl)
  next
    case False
    let ?ids = "cloneInstanceIdsForForkParent dag p"
    from fan_out_creates [OF ok inj, of None p ?ids] obtain g where
      g: "createGenerationForFanout uuid None p ?ids s =
          (Inr g, s\<lparr>rs_generations := rs_generations s @ [g], rs_uuids := Suc (rs_uuids s)\<rparr>)"
        "gr_fork_parent_stage_id g = p" "gr_clone_stage_ids g = ?ids" "gr_status g = GenActive"
        "generations_ok uuid (s\<lparr>rs_generations := rs_generations s @ [g], rs_uuids := Suc (rs_uuids s)\<rparr>)"
      by auto
    let ?s = "s\<lparr>rs_generations := rs_generations s @ [g], rs_uuids := Suc (rs_uuids s)\<rparr>"
    have "backfillActiveGenerationIfNeeded uuid dag p s =
        andThen (createGenerationForFanout uuid None p ?ids) (\<lambda>g. return (Some g)) s"
      using False none
      by (auto simp: backfillActiveGenerationIfNeeded_def createGenerationForFanout_def act listForkGenerations_parent
          list_ex_iff andThen_assoc)
    then have "backfillActiveGenerationIfNeeded uuid dag p s = (Inr (Some g), ?s)"
      using g(1) by (simp add: andThen_def act)
    moreover have gens: "generations_of ?s p = generations_of s p @ [g]" using g(2) by (simp add: generations_of_def)
    moreover have "is_active g" using g(4) by (simp add: is_active_def)
    then have "{h \<in> set (generations_of ?s p). is_active h} = {g}" using none gens by auto
    then have "\<Union>(set ` gr_clone_stage_ids ` {h \<in> set (generations_of ?s p). is_active h}) = cohort_ids dag s p"
      using g(3) none by (simp add: cohort_ids_def)
    moreover have "only_generations s ?s"
      by (simp add: only_generations_def)
    moreover have "generations_of ?s q = generations_of s q" if "q \<noteq> p" for q
      using g(2) that by (simp add: generations_of_def)
    moreover have "generations_of ?s p = [] \<longleftrightarrow> generations_of s p = [] \<and> ?ids = []" using gens False by simp
    ultimately show thesis using g(5) that by blast
  qed
qed

lemma generations_of_supersede:
  "generations_of (s\<lparr>rs_generations := supersede_ids A t gs\<rparr>) q =
   supersede_ids A t (List.filter (\<lambda>g. gr_fork_parent_stage_id g = q) gs)"
  by (induction gs) (auto simp: generations_of_def supersede_ids_def)

lemma retire_one:
  assumes ok: "generations_ok uuid s" and inj: "inj uuid"
  obtains ids' retired' s' where
    "supersede_parents uuid dag (p # ps) ids retired s = supersede_parents uuid dag ps ids' retired' s'"
    "set ids' = set ids \<union> cohort_ids dag s p" "generations_ok uuid s'" "only_generations s s'"
    "\<forall>g\<in>set (generations_of s' p). \<not> is_active g"
    "\<And>q. q \<noteq> p \<Longrightarrow> generations_of s' q = generations_of s q"
    "generations_of s' p = [] \<longleftrightarrow> generations_of s p = [] \<and> cloneInstanceIdsForForkParent dag p = []"
proof -
  obtain r s1 where b: "backfillActiveGenerationIfNeeded uuid dag p s = (Inr r, s1)" "generations_ok uuid s1"
    "only_generations s s1" "\<And>q. q \<noteq> p \<Longrightarrow> generations_of s1 q = generations_of s q"
    "\<Union>(set ` gr_clone_stage_ids ` {g \<in> set (generations_of s1 p). is_active g}) = cohort_ids dag s p"
    "generations_of s1 p = [] \<longleftrightarrow> generations_of s p = [] \<and> cloneInstanceIdsForForkParent dag p = []"
    using backfill_run [OF ok inj] by blast
  let ?gs = "sort_key gr_created_at (generations_of s1 p)"
  let ?A = "gr_generation_id ` set (List.filter is_active ?gs)"
  let ?s = "s1\<lparr>rs_generations := supersede_ids ?A (now s1) (rs_generations s1)\<rparr>"
  have sub: "gr_generation_id ` set ?gs \<subseteq> gr_generation_id ` set (rs_generations s1)"
    by (auto simp: generations_of_def)
  have A: "g \<in> set (generations_of s1 p)" if "g \<in> set (rs_generations s1)" "gr_generation_id g \<in> ?A" for g
  proof -
    from that(2) obtain h where "h \<in> set (rs_generations s1)" "gr_generation_id h = gr_generation_id g"
      "gr_fork_parent_stage_id h = p" by (auto simp: generations_of_def)
    moreover have "inj_on gr_generation_id (set (rs_generations s1))"
      using b(2) by (simp add: generations_ok_def distinct_map)
    ultimately have "h = g" using that(1) by (auto dest: inj_onD)
    then show ?thesis using that(1) \<open>gr_fork_parent_stage_id h = p\<close> by (simp add: generations_of_def)
  qed
  have other: "generations_of ?s q = generations_of s1 q" if "q \<noteq> p" for q
    unfolding generations_of_supersede
  proof -
    have "(if gr_generation_id g \<in> ?A then superseded (now s1) g else g) = g"
      if "g \<in> set (List.filter (\<lambda>g. gr_fork_parent_stage_id g = q) (rs_generations s1))" for g
      using A [of g] that \<open>q \<noteq> p\<close> by (auto simp: generations_of_def)
    then show "supersede_ids ?A (now s1) (List.filter (\<lambda>g. gr_fork_parent_stage_id g = q) (rs_generations s1)) =
        generations_of s1 q"
      unfolding supersede_ids_def generations_of_def by (intro map_idI) simp
  qed
  have this_p: "generations_of ?s p = supersede_ids ?A (now s1) (generations_of s1 p)"
    unfolding generations_of_supersede by (simp add: generations_of_def)
  have inactive: "\<forall>g\<in>set (generations_of ?s p). \<not> is_active g"
    unfolding this_p by (auto simp: supersede_ids_def is_active_def)
  show thesis
  proof (rule that)
    show "supersede_parents uuid dag (p # ps) ids retired s = supersede_parents uuid dag ps
        (foldl jadd ids (concat (map gr_clone_stage_ids (List.filter is_active ?gs))))
        (retired @ map (\<lambda>g. g\<lparr>gr_status := GenSuperseded\<rparr>) (List.filter is_active ?gs)) ?s"
      using b(1) supersede_generations_run [OF sub, of ids retired]
      by (simp add: act andThen_def listForkGenerations_parent)
    show "set (foldl jadd ids (concat (map gr_clone_stage_ids (List.filter is_active ?gs)))) = set ids \<union> cohort_ids dag s p"
      using b(5) by (auto simp: set_foldl_jadd)
    show "generations_ok uuid ?s" using b(2) unfolding generations_ok_def by simp
    show "only_generations s ?s"
      using b(3) by (simp add: only_generations_def)
    show "\<forall>g\<in>set (generations_of ?s p). \<not> is_active g" by (rule inactive)
    show "generations_of ?s q = generations_of s q" if "q \<noteq> p" for q using other [OF that] b(4) [OF that] by simp
    show "generations_of ?s p = [] \<longleftrightarrow> generations_of s p = [] \<and> cloneInstanceIdsForForkParent dag p = []"
      using b(6) unfolding this_p by (simp add: supersede_ids_def)
  qed
qed

lemma cohort_ids_cong: "generations_of s q = generations_of s' q \<Longrightarrow> cohort_ids dag s q = cohort_ids dag s' q"
  by (simp add: cohort_ids_def)

lemma retire_parents:
  assumes "generations_ok uuid s" "inj uuid" "distinct ps"
  shows "\<exists>ids' retired' s'. supersede_parents uuid dag ps ids retired s = (Inr (ids', retired'), s') \<and>
    set ids' = set ids \<union> \<Union>(cohort_ids dag s ` set ps) \<and> generations_ok uuid s' \<and> only_generations s s' \<and>
    (\<forall>p\<in>set ps. (\<forall>g\<in>set (generations_of s' p). \<not> is_active g) \<and>
       (generations_of s' p = [] \<longleftrightarrow> generations_of s p = [] \<and> cloneInstanceIdsForForkParent dag p = [])) \<and>
    (\<forall>q. q \<notin> set ps \<longrightarrow> generations_of s' q = generations_of s q)"
  using assms
proof (induction ps arbitrary: s ids retired)
  case Nil
  then show ?case by (simp add: act only_generations_refl)
next
  case (Cons p ps)
  obtain ids1 retired1 s1 where one:
    "supersede_parents uuid dag (p # ps) ids retired s = supersede_parents uuid dag ps ids1 retired1 s1"
    "set ids1 = set ids \<union> cohort_ids dag s p" "generations_ok uuid s1" "only_generations s s1"
    "\<forall>g\<in>set (generations_of s1 p). \<not> is_active g"
    "\<And>q. q \<noteq> p \<Longrightarrow> generations_of s1 q = generations_of s q"
    "generations_of s1 p = [] \<longleftrightarrow> generations_of s p = [] \<and> cloneInstanceIdsForForkParent dag p = []"
    using retire_one [OF Cons.prems(1,2)] by blast
  obtain ids' retired' s' where rest:
    "supersede_parents uuid dag ps ids1 retired1 s1 = (Inr (ids', retired'), s')"
    "set ids' = set ids1 \<union> \<Union>(cohort_ids dag s1 ` set ps)" "generations_ok uuid s'" "only_generations s1 s'"
    "\<forall>p\<in>set ps. (\<forall>g\<in>set (generations_of s' p). \<not> is_active g) \<and>
       (generations_of s' p = [] \<longleftrightarrow> generations_of s1 p = [] \<and> cloneInstanceIdsForForkParent dag p = [])"
    "\<forall>q. q \<notin> set ps \<longrightarrow> generations_of s' q = generations_of s1 q"
    using Cons.IH [OF one(3) Cons.prems(2), of ids1 retired1] Cons.prems(3) by (simp only: distinct.simps) blast
  have p: "p \<notin> set ps" using Cons.prems(3) by simp
  have same: "generations_of s1 q = generations_of s q" if "q \<in> set ps" for q using one(6) [of q] that p by blast
  have "cohort_ids dag s1 q = cohort_ids dag s q" if "q \<in> set ps" for q
    by (rule cohort_ids_cong) (rule same [OF that])
  then have "\<Union>(cohort_ids dag s1 ` set ps) = \<Union>(cohort_ids dag s ` set ps)" by simp
  moreover have "generations_of s' p = generations_of s1 p" using rest(6) p by blast
  ultimately show ?case
    using one rest same p by (intro exI [of _ ids'] exI [of _ retired'] exI [of _ s'])
      (auto intro: only_generations_trans)
qed

lemma distinct_routeRelated: "distinct (routeRelatedForkParentIds dag route)"
  by (simp add: routeRelatedForkParentIds_def)

section \<open>Properties\<close>

text \<open>
  C31: retiring the cohorts of a feedback route never fails on a key of the table; afterwards no fork
  parent of the route has an active generation, the superseded ids it reports are exactly the
  active clone ids of those parents (or, for a parent that was never recorded, its instances in
  the DAG), the generations of every other fork parent are as before, and nothing else in the
  store changes.
\<close>

theorem retire_cohorts_exact:
  "inj uuid \<Longrightarrow> generations_ok uuid s \<Longrightarrow>
   \<exists>ids s'. retireCohortsForRoute uuid dag route s = (Inr (ids, routeRelatedForkParentIds dag route), s') \<and>
     set ids = \<Union>(cohort_ids dag s ` set (routeRelatedForkParentIds dag route)) \<and>
     generations_ok uuid s' \<and> only_generations s s' \<and>
     (\<forall>p\<in>set (routeRelatedForkParentIds dag route).
        activeCohortForParent p s' =
          (if generations_of s p = [] \<and> cloneInstanceIdsForForkParent dag p = [] then Untracked else AwaitingMint)) \<and>
     (\<forall>q. q \<notin> set (routeRelatedForkParentIds dag route) \<longrightarrow> generations_of s' q = generations_of s q)"
proof -
  assume inj: "inj uuid" and ok: "generations_ok uuid s"
  let ?ps = "routeRelatedForkParentIds dag route"
  obtain ids retired s' where r: "supersede_parents uuid dag ?ps [] [] s = (Inr (ids, retired), s')"
    "set ids = set [] \<union> \<Union>(cohort_ids dag s ` set ?ps)" "generations_ok uuid s'" "only_generations s s'"
    "\<forall>p\<in>set ?ps. (\<forall>g\<in>set (generations_of s' p). \<not> is_active g) \<and>
       (generations_of s' p = [] \<longleftrightarrow> generations_of s p = [] \<and> cloneInstanceIdsForForkParent dag p = [])"
    "\<forall>q. q \<notin> set ?ps \<longrightarrow> generations_of s' q = generations_of s q"
    using retire_parents [OF ok inj distinct_routeRelated, of dag dag route "[]" "[]"] by blast
  have run: "retireCohortsForRoute uuid dag route s = (Inr (ids, ?ps), s')"
    using r(1) by (simp add: retireCohortsForRoute_def supersedeActiveGenerations_def andThen_def Let_def return_run)
  have cohort: "activeCohortForParent p s' =
      (if generations_of s p = [] \<and> cloneInstanceIdsForForkParent dag p = [] then Untracked else AwaitingMint)"
    if p: "p \<in> set ?ps" for p
  proof -
    have none: "List.filter is_active (listForkGenerations None (Some p) s') = []"
      using r(5) p by (auto simp: listForkGenerations_parent filter_empty_conv)
    have "listForkGenerations None (Some p) s' = [] \<longleftrightarrow> generations_of s' p = []"
      unfolding listForkGenerations_parent by (metis length_0_conv length_sort)
    with r(5) p none show ?thesis by (simp add: activeCohortForParent_def Let_def)
  qed
  show ?thesis
  proof (intro exI [of _ ids] exI [of _ s'] conjI)
    show "\<forall>p\<in>set ?ps. activeCohortForParent p s' =
        (if generations_of s p = [] \<and> cloneInstanceIdsForForkParent dag p = [] then Untracked else AwaitingMint)"
      using cohort by blast
  qed (use run r in simp_all)
qed

definition sample_uuid :: "nat \<Rightarrow> string" where
  "sample_uuid n = replicate n (CHR ''u'')"

lemma inj_sample_uuid: "inj sample_uuid"
  unfolding sample_uuid_def by (rule injI) (metis length_replicate)

lemma blank_store_ok: "generations_ok uuid blank_store"
  by (simp add: generations_ok_def blank_store_def)

theorem retire_cohorts_exact_witness:
  "\<exists>ids s'. retireCohortsForRoute sample_uuid fanned_sample [''plan''] blank_store = (Inr (ids, [''plan'']), s') \<and>
     set ids = {''build~1'', ''build~2''} \<and> activeCohortForParent ''plan'' s' = AwaitingMint"
proof -
  have parents: "routeRelatedForkParentIds fanned_sample [''plan''] = [''plan'']" by code_simp
  have ids: "cloneInstanceIdsForForkParent fanned_sample ''plan'' = [''build~1'', ''build~2'']" by code_simp
  have none: "generations_of blank_store ''plan'' = []" by (simp add: generations_of_def blank_store_def)
  then have "cohort_ids fanned_sample blank_store ''plan'' = {''build~1'', ''build~2''}" by (simp add: cohort_ids_def ids)
  with retire_cohorts_exact [OF inj_sample_uuid blank_store_ok, of fanned_sample "[''plan'']"] parents ids
  show ?thesis by auto
qed

text \<open>
  A fan-out of a parent that has no active cohort never clashes with an earlier generation and
  makes exactly its clones the active cohort, so a join behind it reads those instances and no
  others.
\<close>

theorem fan_out_becomes_cohort:
  "inj uuid \<Longrightarrow> generations_ok uuid s \<Longrightarrow>
   (replayId = None \<or> row rr_replay_id (rs_replays s) (the replayId) \<noteq> None) \<Longrightarrow>
   \<not> list_ex is_active (generations_of s p) \<Longrightarrow>
   \<exists>g s'. mintCohortForFanout uuid replayId p new s = (Inr g, s') \<and> generations_ok uuid s' \<and>
     activeCohortForParent p s' = ActiveIds (jset_of new) \<and>
     filterJoinInputs instances (activeCohortForParent p s') = List.filter (\<lambda>i. i \<in> set new) instances \<and>
     (\<forall>q. q \<noteq> p \<longrightarrow> activeCohortForParent q s' = activeCohortForParent q s)"
proof -
  assume inj: "inj uuid" and ok: "generations_ok uuid s"
    and replay: "replayId = None \<or> row rr_replay_id (rs_replays s) (the replayId) \<noteq> None"
    and none: "\<not> list_ex is_active (generations_of s p)"
  obtain g where g: "createGenerationForFanout uuid replayId p new s =
       (Inr g, s\<lparr>rs_generations := rs_generations s @ [g], rs_uuids := Suc (rs_uuids s)\<rparr>)"
    "gr_fork_parent_stage_id g = p" "gr_clone_stage_ids g = new" "gr_status g = GenActive"
    "generations_ok uuid (s\<lparr>rs_generations := rs_generations s @ [g], rs_uuids := Suc (rs_uuids s)\<rparr>)"
  proof (rule fan_out_creates [OF ok inj])
    show "row rr_replay_id (rs_replays s) r \<noteq> None" if "replayId = Some r" for r using replay that by simp
  qed (rule that)
  let ?s = "s\<lparr>rs_generations := rs_generations s @ [g], rs_uuids := Suc (rs_uuids s)\<rparr>"
  have gens: "generations_of ?s p = generations_of s p @ [g]" using g(2) by (simp add: generations_of_def)
  have "List.filter is_active (sort_key gr_created_at (generations_of ?s p)) = sort_key gr_created_at [g]"
    using none g(4) by (simp add: gens filter_sort is_active_def filter_empty_conv list_ex_iff)
  moreover have "sort_key gr_created_at (generations_of ?s p) \<noteq> []"
    unfolding gens by (metis append_is_Nil_conv length_0_conv length_sort not_Cons_self2)
  ultimately have cohort: "activeCohortForParent p ?s = ActiveIds (jset_of new)"
    by (simp add: activeCohortForParent_def Let_def listForkGenerations_parent g(3))
  have "activeCohortForParent q ?s = activeCohortForParent q s" if "q \<noteq> p" for q
    using g(2) that by (simp add: activeCohortForParent_def listForkGenerations_parent generations_of_def)
  with cohort g show ?thesis
    by (intro exI [of _ g] exI [of _ ?s]) (simp add: mintCohortForFanout_def)
qed

theorem fan_out_becomes_cohort_witness:
  "\<exists>g s'. mintCohortForFanout sample_uuid None ''a'' [''b~3'', ''b~4''] blank_store = (Inr g, s') \<and>
     filterJoinInputs [''b~1'', ''b~3'', ''b~4''] (activeCohortForParent ''a'' s') = [''b~3'', ''b~4'']"
proof -
  have "\<not> list_ex is_active (generations_of blank_store ''a'')" by (simp add: generations_of_def blank_store_def)
  from fan_out_becomes_cohort [OF inj_sample_uuid blank_store_ok _ this, of None "[''b~3'', ''b~4'']" "[''b~1'', ''b~3'', ''b~4'']"]
  show ?thesis by auto
qed

end
