(* ===== verification/Feedback_Loop.thy ===== *)
theory Feedback_Loop
  imports Fork_Generation
begin

text \<open>
  The coordinator of feedback loops: what a stage that sends its work back to an earlier stage
  does to the store (\<open>runtime/feedbackLoopRoute.ts\<close>, \<open>runtime/feedbackLoopCoordinator.ts\<close>).  Every
  function is an action of the run store; the maps of a launch are JS maps.  The DAG, optional in
  two signatures, is passed by every caller.
\<close>

section \<open>The route of a loop\<close>

definition quoted :: "string \<Rightarrow> string" where
  "quoted s = [CHR 0x22] @ s @ [CHR 0x22]"

text \<open>A target that is not an ancestor throws.\<close>

definition feedbackRouteStageIds :: "ResolvedPipelineStageNode \<Rightarrow> string \<Rightarrow> string list action" where
  "feedbackRouteStageIds sourceNode targetId =
     (case index_of (ancestors sourceNode) targetId of
        None \<Rightarrow> throw (Thrown (''feedback-loop target '' @ quoted targetId @ '' is not an ancestor of '' @
          quoted (node_id sourceNode)))
      | Some i \<Rightarrow> return (drop i (ancestors sourceNode) @ [node_id sourceNode]))"

definition postSourceStageIds :: "ResolvedPipelineDag \<Rightarrow> string \<Rightarrow> string list" where
  "postSourceStageIds dag sourceId = collectDownstreamStageIds dag sourceId"

section \<open>Records of a launch\<close>

datatype StageSessionMode = ModeFresh | ModeWaitingResume | ModeFeedbackResume | ModeTimeoutResume | ModeNewSession

record FeedbackLoopContext =
  cx_loop_id :: string
  cx_replay_id :: string
  cx_source_stage_id :: string
  cx_target_stage_id :: string
  cx_feedback_envelope :: StageEnvelope
  cx_replay_number :: nat
  cx_max_replays :: int
  cx_remaining_replays :: int
  cx_is_final_replay :: bool
  cx_replay_session :: replay_session
  cx_route_stage_ids :: "string list"
  cx_prior_stage_attempt :: "nat option"
  cx_active_fork_generation_id :: "string option"
  cx_active_fork_clone_stage_ids :: "string list option"

record launch_maps =
  lm_contexts :: "(string, FeedbackLoopContext) jsmap"
  lm_session_modes :: "(string, StageSessionMode) jsmap"
  lm_prior_attempts :: "(string, nat) jsmap"
  lm_launch_attempts :: "(string, nat) jsmap"

definition no_launches :: launch_maps where
  "no_launches = \<lparr>lm_contexts = [], lm_session_modes = [], lm_prior_attempts = [], lm_launch_attempts = []\<rparr>"

text \<open>The last two components are the launch: its four maps and the superseded clone ids.\<close>

datatype FeedbackSendBackResult =
    SbAccepted FeedbackLoopRecord FeedbackReplayRecord "string list" launch_maps "string list"
  | SbIdempotent FeedbackLoopRecord FeedbackReplayRecord "string list" launch_maps "string list"
  | SbWaitingForHuman FeedbackLoopRecord DeferredFeedbackSendBack string nat
  | SbRejected string

fun toStageSessionMode :: "replay_session \<Rightarrow> StageSessionMode" where
  "toStageSessionMode Resume = ModeFeedbackResume"
| "toStageSessionMode NewSession = ModeNewSession"

section \<open>Closing the current replay\<close>

definition terminalizeCurrentFeedbackReplay :: "FeedbackLoopRecord \<Rightarrow> FeedbackReplayStatus \<Rightarrow> unit action" where
  "terminalizeCurrentFeedbackReplay loop status =
     (case lr_current_replay_id loop of None \<Rightarrow> return () | Some i \<Rightarrow> updateFeedbackReplay i status)"

definition pass_of :: "FeedbackReplayStagePassRecord list \<Rightarrow> string \<Rightarrow> FeedbackReplayStagePassRecord option" where
  "pass_of passes stageId = List.find (\<lambda>p. pr_stage_id p = stageId) passes"

text \<open>The status is \<open>PassWaiting\<close>, \<open>PassSucceeded\<close> or \<open>PassFailed\<close>.\<close>

definition updateFeedbackReplaySourcePass ::
  "FeedbackLoopRecord \<Rightarrow> string \<Rightarrow> PassStatus \<Rightarrow> StageEnvelope option \<Rightarrow> unit action" where
  "updateFeedbackReplaySourcePass loop sourceStageId status envelope =
     (case lr_current_replay_id loop of
        None \<Rightarrow> return ()
      | Some i \<Rightarrow>
          andThen (listFeedbackReplayStagePasses i) (\<lambda>passes.
          case pass_of passes sourceStageId of
            None \<Rightarrow> return ()
          | Some p \<Rightarrow>
              if pr_status p = PassSucceeded then return ()
              else if status = PassWaiting
              then updateFeedbackReplayStagePass i sourceStageId (no_pass_patch\<lparr>pp_status := Some PassWaiting\<rparr>)
              else andThen (gets now) (\<lambda>t.
                if status = PassSucceeded
                then updateFeedbackReplayStagePass i sourceStageId (no_pass_patch\<lparr>pp_status := Some PassSucceeded,
                  pp_finished_at := Some (Some t), pp_emitted_envelope := map_option Some envelope\<rparr>)
                else updateFeedbackReplayStagePass i sourceStageId (no_pass_patch\<lparr>pp_status := Some PassFailed,
                  pp_finished_at := Some (Some t)\<rparr>))))"

section \<open>The launch of a route stage\<close>

fun first_origin :: "string \<Rightarrow> FeedbackReplayRecord list \<Rightarrow> nat option \<Rightarrow> nat option action" where
  "first_origin stageId [] fallback = return fallback"
| "first_origin stageId (r # rs) fallback =
     andThen (listFeedbackReplayStagePasses (rr_replay_id r)) (\<lambda>passes.
     case List.find (\<lambda>p. pr_stage_id p = stageId \<and> pr_session_origin_attempt p \<noteq> None) passes of
       Some p \<Rightarrow> return (pr_session_origin_attempt p)
     | None \<Rightarrow> first_origin stageId rs fallback)"

definition resolveResumeSessionAttempt :: "string \<Rightarrow> string \<Rightarrow> nat option \<Rightarrow> nat option action" where
  "resolveResumeSessionAttempt loopId stageId fallback =
     andThen (listFeedbackReplays loopId) (\<lambda>rs. first_origin stageId rs fallback)"

definition buildContext :: "FeedbackLoopRecord \<Rightarrow> FeedbackReplayRecord \<Rightarrow> nat option \<Rightarrow> FeedbackLoopContext" where
  "buildContext loop r prior =
     (let remaining = max 0 (rr_max_replays r - int (rr_replay_number r)) in
      \<lparr>cx_loop_id = lr_loop_id loop, cx_replay_id = rr_replay_id r, cx_source_stage_id = rr_source_stage_id r,
       cx_target_stage_id = rr_target_stage_id r, cx_feedback_envelope = rr_feedback_envelope r,
       cx_replay_number = rr_replay_number r, cx_max_replays = rr_max_replays r,
       cx_remaining_replays = remaining, cx_is_final_replay = (remaining = 0),
       cx_replay_session = rr_replay_session r, cx_route_stage_ids = rr_route_stage_ids r,
       cx_prior_stage_attempt = prior, cx_active_fork_generation_id = None,
       cx_active_fork_clone_stage_ids = None\<rparr>)"

definition attach_fork :: "run_store \<Rightarrow> ResolvedPipelineDag \<Rightarrow> string \<Rightarrow> FeedbackLoopContext \<Rightarrow> FeedbackLoopContext" where
  "attach_fork s dag stageId ctx =
     (case Option.bind (find_node dag stageId) needs of
        None \<Rightarrow> ctx
      | Some parent \<Rightarrow>
          (case (if stage_ids dag = None then [] else List.filter (\<lambda>i. i \<noteq> parent) (instancesOfDefinition dag parent)) of
             [] \<Rightarrow> ctx
           | i # _ \<Rightarrow>
               (case Option.bind (find_node dag i) needs of
                  None \<Rightarrow> ctx
                | Some forkParent \<Rightarrow>
                    (case List.find is_active (listForkGenerations None (Some forkParent) s) of
                       None \<Rightarrow> ctx
                     | Some g \<Rightarrow> ctx\<lparr>cx_active_fork_generation_id := Some (gr_generation_id g),
                         cx_active_fork_clone_stage_ids := Some (gr_clone_stage_ids g)\<rparr>))))"

definition attachActiveForkContext ::
  "ResolvedPipelineDag \<Rightarrow> (string, FeedbackLoopContext) jsmap \<Rightarrow> run_store \<Rightarrow> (string, FeedbackLoopContext) jsmap" where
  "attachActiveForkContext dag contexts s = map (\<lambda>(i, ctx). (i, attach_fork s dag i ctx)) contexts"

definition note_launch ::
  "string \<Rightarrow> FeedbackLoopContext \<Rightarrow> StageSessionMode \<Rightarrow> nat option \<Rightarrow> nat \<Rightarrow> launch_maps \<Rightarrow> launch_maps" where
  "note_launch stageId ctx mode prior n m =
     \<lparr>lm_contexts = jset (lm_contexts m) stageId ctx,
      lm_session_modes = jset (lm_session_modes m) stageId mode,
      lm_prior_attempts = (case prior of None \<Rightarrow> lm_prior_attempts m | Some k \<Rightarrow> jset (lm_prior_attempts m) stageId k),
      lm_launch_attempts = jset (lm_launch_attempts m) stageId n\<rparr>"

definition previous_attempt :: "nat \<Rightarrow> nat option" where
  "previous_attempt n = (if n > 1 then Some (n - 1) else None)"

fun rebuild_passes ::
  "FeedbackLoopRecord \<Rightarrow> FeedbackReplayRecord \<Rightarrow> FeedbackReplayStagePassRecord list \<Rightarrow> launch_maps \<Rightarrow> launch_maps action" where
  "rebuild_passes loop r [] m = return m"
| "rebuild_passes loop r (p # ps) m =
     andThen
       (if rr_replay_session r = Resume
        then (case pr_session_origin_attempt p of
                Some k \<Rightarrow> return (Some k)
              | None \<Rightarrow> resolveResumeSessionAttempt (lr_loop_id loop) (pr_stage_id p)
                  (previous_attempt (pr_stage_attempt p)))
        else return (previous_attempt (pr_stage_attempt p)))
       (\<lambda>prior. rebuild_passes loop r ps
         (note_launch (pr_stage_id p) (buildContext loop r prior) (toStageSessionMode (rr_replay_session r)) prior
           (pr_stage_attempt p) m))"

definition rebuildLaunchMaps ::
  "FeedbackLoopRecord \<Rightarrow> FeedbackReplayRecord \<Rightarrow> ResolvedPipelineDag \<Rightarrow> launch_maps action" where
  "rebuildLaunchMaps loop r dag =
     andThen (listFeedbackReplayStagePasses (rr_replay_id r)) (\<lambda>passes.
     andThen (rebuild_passes loop r passes no_launches) (\<lambda>m.
     gets (\<lambda>s. m\<lparr>lm_contexts := attachActiveForkContext dag (lm_contexts m) s\<rparr>)))"

section \<open>Sending back\<close>

definition open_loop :: "FeedbackLoopRecord \<Rightarrow> bool" where
  "open_loop l = (lr_state l = LoopActive \<or> lr_state l = LoopWaitingForHuman)"

definition ensure_loop ::
  "(nat \<Rightarrow> string) \<Rightarrow> string \<Rightarrow> nat \<Rightarrow> FeedbackLoopConfig \<Rightarrow> FeedbackLoopRecord list \<Rightarrow> FeedbackLoopRecord action" where
  "ensure_loop uuid sourceId sourceAttempt policy loops =
     (let found = (case List.find (\<lambda>l. lr_source_stage_id l = sourceId \<and> open_loop l) loops of
            Some l \<Rightarrow> Some l
          | None \<Rightarrow> List.find (\<lambda>l. lr_source_stage_id l = sourceId) loops);
          create = andThen (fresh_uuid uuid) (\<lambda>i. createFeedbackLoop i sourceId sourceAttempt policy)
      in case found of None \<Rightarrow> create | Some l \<Rightarrow> if open_loop l then return l else create)"

text \<open>No replay is left: the loop waits for a decision, or is completed and the send-back refused.\<close>

definition send_back_exhausted ::
  "FeedbackLoopRecord \<Rightarrow> string \<Rightarrow> nat \<Rightarrow> string \<Rightarrow> StageEnvelope \<Rightarrow> FeedbackSendBackResult action" where
  "send_back_exhausted loop sourceId sourceAttempt target envelope =
     (if fl_on_max_replays (lr_policy loop) = WaitForHuman
      then (let deferred = \<lparr>df_target = target, df_envelope = envelope, df_source_attempt = sourceAttempt\<rparr> in
        andThen (terminalizeCurrentFeedbackReplay loop ReplayWaitingForHuman) (\<lambda>_.
        andThen (updateFeedbackReplaySourcePass loop sourceId PassWaiting None) (\<lambda>_.
        andThen (updateFeedbackLoop (lr_loop_id loop)
          (no_loop_patch\<lparr>lp_state := Some LoopWaitingForHuman, lp_deferred := Some (Some deferred)\<rparr>) None) (\<lambda>_.
        andThen (getFeedbackLoop (lr_loop_id loop)) (\<lambda>waiting.
          return (SbWaitingForHuman waiting deferred sourceId sourceAttempt))))))
      else
        andThen (terminalizeCurrentFeedbackReplay loop ReplayFailed) (\<lambda>_.
        andThen (updateFeedbackLoop (lr_loop_id loop) (no_loop_patch\<lparr>lp_state := Some LoopCompleted\<rparr>) None) (\<lambda>_.
          return (SbRejected (''feedback loop exceeded max_replays ('' @ show_nat (nat (fl_max_replays (lr_policy loop))) @
            ''); require_continue'')))))"

fun replay_route ::
  "FeedbackLoopRecord \<Rightarrow> FeedbackReplayRecord \<Rightarrow> string list \<Rightarrow> launch_maps \<Rightarrow> launch_maps action" where
  "replay_route loop r [] m = return m"
| "replay_route loop r (st # sts) m =
     (let mode = rr_replay_session r in
      andThen (getLatestStageExecution st) (\<lambda>latest.
      andThen (if mode = Resume then resolveResumeSessionAttempt (lr_loop_id loop) st (map_option ex_attempt latest)
               else return (map_option ex_attempt latest)) (\<lambda>prior.
      andThen (createStageExecution st) (\<lambda>e.
      andThen (createFeedbackReplayStagePass (rr_replay_id r) st (ex_attempt e)
          (if mode = Resume then prior else None) mode PassPending) (\<lambda>_.
        replay_route loop r sts
          (note_launch st (buildContext loop r prior) (toStageSessionMode mode) prior (ex_attempt e) m))))))"

definition complete_current ::
  "FeedbackLoopRecord \<Rightarrow> string \<Rightarrow> StageEnvelope \<Rightarrow> unit action" where
  "complete_current loop sourceId envelope =
     (case lr_current_replay_id loop of
        None \<Rightarrow> return ()
      | Some i \<Rightarrow>
          andThen (updateFeedbackReplaySourcePass loop sourceId PassSucceeded (Some envelope)) (\<lambda>_.
          updateFeedbackReplay i ReplayCompleted))"

definition next_replay_number :: "FeedbackLoopRecord \<Rightarrow> nat" where
  "next_replay_number loop = or_else (lr_current_replay_number loop) 0 + 1"

definition start_replay ::
  "(nat \<Rightarrow> string) \<Rightarrow> ResolvedPipelineDag \<Rightarrow> ResolvedPipelineStageNode \<Rightarrow> nat \<Rightarrow> string \<Rightarrow> StageEnvelope \<Rightarrow>
   FeedbackLoopRecord \<Rightarrow> FeedbackSendBackResult action" where
  "start_replay uuid dag sourceNode sourceAttempt target envelope loop =
     andThen (complete_current loop (node_id sourceNode) envelope) (\<lambda>_.
     andThen (feedbackRouteStageIds sourceNode target) (\<lambda>route.
     andThen (retireCohortsForRoute uuid dag route) (\<lambda>(superseded, _).
     andThen (fresh_uuid uuid) (\<lambda>replayId.
     andThen (createFeedbackReplay
       \<lparr>ci_replay_id = replayId, ci_loop_id = lr_loop_id loop, ci_source_stage_id = node_id sourceNode,
        ci_source_attempt = sourceAttempt, ci_target_stage_id = target,
        ci_replay_number = next_replay_number loop, ci_max_replays = fl_max_replays (lr_policy loop),
        ci_replay_session = fl_replay_session (lr_policy loop), ci_route_stage_ids = route,
        ci_feedback_envelope = envelope, ci_status = ReplayActive\<rparr>) (\<lambda>r.
     andThen (replay_route loop r route no_launches) (\<lambda>m.
     andThen (gets (attachActiveForkContext dag (lm_contexts m))) (\<lambda>contexts.
     andThen (updateFeedbackLoop (lr_loop_id loop)
       (no_loop_patch\<lparr>lp_state := Some LoopActive, lp_current_replay_id := Some replayId,
          lp_current_replay_number := Some (next_replay_number loop), lp_deferred := Some None\<rparr>) None) (\<lambda>_.
     andThen (getFeedbackLoop (lr_loop_id loop)) (\<lambda>updated.
       return (SbAccepted updated r route (m\<lparr>lm_contexts := contexts\<rparr>) superseded))))))))))"

definition send_back_on ::
  "(nat \<Rightarrow> string) \<Rightarrow> ResolvedPipelineDag \<Rightarrow> ResolvedPipelineStageNode \<Rightarrow> nat \<Rightarrow> string \<Rightarrow> StageEnvelope \<Rightarrow>
   FeedbackLoopRecord \<Rightarrow> FeedbackSendBackResult action" where
  "send_back_on uuid dag sourceNode sourceAttempt target envelope loop =
     andThen (listFeedbackReplays (lr_loop_id loop)) (\<lambda>existing.
     case List.find (\<lambda>r. rr_source_attempt r = sourceAttempt \<and> rr_target_stage_id r = target) existing of
       Some dup \<Rightarrow>
         andThen (rebuildLaunchMaps loop dup dag) (\<lambda>m.
         andThen (gets (collectSupersededCloneIdsForRoute dag (rr_route_stage_ids dup))) (\<lambda>superseded.
           return (SbIdempotent loop dup (rr_route_stage_ids dup) m superseded)))
     | None \<Rightarrow>
         if int (next_replay_number loop) > fl_max_replays (lr_policy loop)
         then send_back_exhausted loop (node_id sourceNode) sourceAttempt target envelope
         else start_replay uuid dag sourceNode sourceAttempt target envelope loop)"

definition acceptFeedbackSendBack ::
  "(nat \<Rightarrow> string) \<Rightarrow> ResolvedPipelineDag \<Rightarrow> ResolvedPipelineStageNode \<Rightarrow> nat \<Rightarrow> StageEnvelope \<Rightarrow>
   FeedbackSendBackResult action" where
  "acceptFeedbackSendBack uuid dag sourceNode sourceAttempt envelope =
     (case env_feedback_loop envelope of
        Some (SendBack target) \<Rightarrow>
          (case feedback_loop sourceNode of
             None \<Rightarrow> return (SbRejected (''stage '' @ quoted (node_id sourceNode) @ '' has no feedback_loop policy''))
           | Some nodePolicy \<Rightarrow>
               andThen listFeedbackLoops (\<lambda>loops.
               case List.find (\<lambda>l. open_loop l \<and> lr_source_stage_id l \<noteq> node_id sourceNode) loops of
                 Some other \<Rightarrow> return (SbRejected (''run already has an active feedback loop from '' @
                   quoted (lr_source_stage_id other)))
               | None \<Rightarrow>
                   andThen (ensure_loop uuid (node_id sourceNode) sourceAttempt nodePolicy loops) (\<lambda>loop.
                     send_back_on uuid dag sourceNode sourceAttempt target envelope loop)))
      | _ \<Rightarrow> return (SbRejected ''envelope is not a feedback_loop send_back''))"

section \<open>Reports from the stages of a route\<close>

definition markFeedbackLoopContinued :: "string \<Rightarrow> StageEnvelope \<Rightarrow> unit action" where
  "markFeedbackLoopContinued sourceStageId envelope =
     andThen listFeedbackLoops (\<lambda>loops.
     case List.find (\<lambda>l. lr_source_stage_id l = sourceStageId \<and> open_loop l) loops of
       None \<Rightarrow> return ()
     | Some loop \<Rightarrow>
         andThen (updateFeedbackReplaySourcePass loop sourceStageId PassSucceeded (Some envelope)) (\<lambda>_.
         andThen (terminalizeCurrentFeedbackReplay loop ReplayCompleted) (\<lambda>_.
         andThen (updateFeedbackLoop (lr_loop_id loop) (no_loop_patch\<lparr>lp_state := Some LoopContinued\<rparr>) None) (\<lambda>_.
           return ()))))"

definition markFeedbackRouteStageSucceeded :: "string option \<Rightarrow> string \<Rightarrow> StageEnvelope \<Rightarrow> unit action" where
  "markFeedbackRouteStageSucceeded replayId stageId envelope =
     (case replayId of
        None \<Rightarrow> return ()
      | Some i \<Rightarrow>
          andThen (listFeedbackReplayStagePasses i) (\<lambda>passes.
          case pass_of passes stageId of
            None \<Rightarrow> return ()
          | Some p \<Rightarrow> andThen (gets now) (\<lambda>t.
              updateFeedbackReplayStagePass i stageId (no_pass_patch\<lparr>pp_status := Some PassSucceeded,
                pp_finished_at := Some (Some t), pp_emitted_envelope := Some (Some envelope)\<rparr>))))"

definition markFeedbackRouteStageFailed :: "string option \<Rightarrow> string \<Rightarrow> unit action" where
  "markFeedbackRouteStageFailed replayId stageId =
     (case replayId of
        None \<Rightarrow> return ()
      | Some i \<Rightarrow>
          andThen (listFeedbackReplayStagePasses i) (\<lambda>passes.
          case pass_of passes stageId of
            None \<Rightarrow> return ()
          | Some p \<Rightarrow>
              if pr_status p = PassSucceeded then return ()
              else andThen (gets now) (\<lambda>t.
                updateFeedbackReplayStagePass i stageId (no_pass_patch\<lparr>pp_status := Some PassFailed,
                  pp_finished_at := Some (Some t)\<rparr>))))"

definition markFeedbackRouteStageRunning :: "string option \<Rightarrow> string \<Rightarrow> unit action" where
  "markFeedbackRouteStageRunning replayId stageId =
     (case replayId of
        None \<Rightarrow> return ()
      | Some i \<Rightarrow>
          andThen (listFeedbackReplayStagePasses i) (\<lambda>passes.
          case pass_of passes stageId of
            None \<Rightarrow> return ()
          | Some p \<Rightarrow>
              if pr_status p \<noteq> PassPending then return ()
              else andThen (gets now) (\<lambda>t.
                updateFeedbackReplayStagePass i stageId (no_pass_patch\<lparr>pp_status := Some PassRunning,
                  pp_started_at := Some (Some t)\<rparr>))))"

definition rebindFeedbackRoutePassAttempts :: "string \<Rightarrow> (string, nat) jsmap \<Rightarrow> unit action" where
  "rebindFeedbackRoutePassAttempts replayId overrides =
     andThen (listFeedbackReplayStagePasses replayId) (\<lambda>passes.
     forEach (List.filter (\<lambda>(st, n). st \<in> pr_stage_id ` set passes) overrides) (\<lambda>(st, n).
       updateFeedbackReplayStagePass replayId st
         \<lparr>pp_status = Some PassPending, pp_stage_attempt = Some n, pp_started_at = Some None,
          pp_finished_at = Some None, pp_emitted_envelope = Some None\<rparr>))"

section \<open>The context of a running stage\<close>

text \<open>Sorted by the time of the last update, latest first.\<close>

definition latest_open_loop :: "FeedbackLoopRecord list \<Rightarrow> FeedbackLoopRecord option" where
  "latest_open_loop loops =
     (case sort_key (\<lambda>l. - int (lr_updated_at l)) (List.filter open_loop loops) of [] \<Rightarrow> None | l # _ \<Rightarrow> Some l)"

definition loadActiveFeedbackLoopContext ::
  "string \<Rightarrow> ResolvedPipelineDag option \<Rightarrow> FeedbackLoopContext option action" where
  "loadActiveFeedbackLoopContext stageId dag =
     andThen listFeedbackLoops (\<lambda>loops.
     case latest_open_loop loops of
       None \<Rightarrow> return None
     | Some loop \<Rightarrow>
         (case lr_current_replay_id loop of
            None \<Rightarrow> return None
          | Some i \<Rightarrow>
              andThen (getFeedbackReplay i) (\<lambda>r.
              if stageId \<notin> set (rr_route_stage_ids r) then return None
              else andThen (listFeedbackReplayStagePasses (rr_replay_id r)) (\<lambda>passes.
                let pass = pass_of passes stageId;
                    fallback = Option.bind pass (\<lambda>p. previous_attempt (pr_stage_attempt p))
                in andThen
                  (if rr_replay_session r = Resume
                   then (case Option.bind pass pr_session_origin_attempt of
                           Some k \<Rightarrow> return (Some k)
                         | None \<Rightarrow> resolveResumeSessionAttempt (lr_loop_id loop) stageId fallback)
                   else return fallback) (\<lambda>prior.
                  let ctx = buildContext loop r prior in
                  case dag of
                    None \<Rightarrow> return (Some ctx)
                  | Some d \<Rightarrow> gets (\<lambda>s. Some (attach_fork s d stageId ctx)))))))"

end
