(* ===== verification/Schedule_Ops.thy ===== *)
theory Schedule_Ops
  imports Fork_Generation
begin

text \<open>
  The schedule of a run: what the scheduler reads from the store when it starts or retries, and
  the operations on the schedule states (\<open>runtime/pipelineScheduler.ts\<close> before and around its main
  loop, \<open>runtime/reopenSkipped.ts\<close>, and \<open>buildCompletedEnvelopesFromRun\<close> of
  \<open>runtime/envelopeRouting.ts\<close>).  An operation that skips stages returns the new states and the ids
  it skipped in order: the ids for which the code then appends a \<open>skipped\<close> event.
\<close>

section \<open>Reading the schedule from the store\<close>

datatype StageExecutionMode = ProcessMode | InProcessMode

definition snapshotToScheduleState ::
  "StageStatus \<Rightarrow> sched_states \<Rightarrow> string \<Rightarrow> StageExecutionMode \<Rightarrow> StageScheduleState" where
  "snapshotToScheduleState status overrides stageId mode =
     (case jget overrides stageId of
        Some st \<Rightarrow> st
      | None \<Rightarrow>
          (case status of
             SsSucceeded \<Rightarrow> Succeeded
           | SsFailed \<Rightarrow> Failed
           | SsRunning \<Rightarrow> Active
           | SsWaitingForInput \<Rightarrow> if mode = ProcessMode then Waiting else Active
           | SsInterrupted \<Rightarrow> Waiting
           | SsSkipped \<Rightarrow> Skipped
           | SsPending \<Rightarrow> Pending))"

definition failure_envelope :: "string \<Rightarrow> StageEnvelope" where
  "failure_envelope reason =
     \<lparr>env_status = EnvFailure, env_summary = reason, env_artifacts = [], env_payload = None,
      env_fork_choice = None, env_feedback_loop = None, env_attestations = None, env_stage_id = None,
      env_notes = None\<rparr>"

text \<open>\<open>buildCompletedEnvelopesFromRun\<close>, called with the stages and the DAG.\<close>

definition add_completed ::
  "run_store \<Rightarrow> ResolvedPipelineDag \<Rightarrow> envelopes \<Rightarrow> StageSnapshot \<Rightarrow> envelopes" where
  "add_completed s dag envs snap =
     (let i = snap_stage_id snap; clone = (definitionIdForInstance dag i \<noteq> i) in
      if snap_status snap \<noteq> SsSucceeded \<and> \<not> (snap_status snap = SsFailed \<and> clone) then envs
      else case (case snap_envelope snap of Some e \<Rightarrow> Some e | None \<Rightarrow> latest_envelope s i) of
        Some e \<Rightarrow> jset envs i e
      | None \<Rightarrow> if snap_status snap = SsFailed \<and> clone then jset envs i (failure_envelope ''stage failed'') else envs)"

definition buildCompletedEnvelopesFromRun ::
  "run_store \<Rightarrow> StageSnapshot list \<Rightarrow> ResolvedPipelineDag \<Rightarrow> envelopes" where
  "buildCompletedEnvelopesFromRun s stages dag = foldl (add_completed s dag) [] stages"

definition pending_nodes :: "ResolvedPipelineDag \<Rightarrow> sched_states" where
  "pending_nodes dag = foldl (\<lambda>m n. jset m (node_id n) Pending) [] (nodes dag)"

definition states_from_snapshots ::
  "sched_states \<Rightarrow> StageExecutionMode \<Rightarrow> StageSnapshot list \<Rightarrow> sched_states \<Rightarrow> sched_states" where
  "states_from_snapshots overrides mode stages states =
     foldl (\<lambda>m snap. jset m (snap_stage_id snap)
       (snapshotToScheduleState (snap_status snap) overrides (snap_stage_id snap) mode)) states stages"

record HydratedSchedule =
  hs_states :: sched_states
  hs_completed :: envelopes
  hs_halted :: bool
  hs_reason :: "string option"
  hs_dag :: "ResolvedPipelineDag option"

section \<open>Reopening skipped stages\<close>

definition isUnchosenForkChild :: "ResolvedPipelineDag \<Rightarrow> string \<Rightarrow> envelopes \<Rightarrow> bool" where
  "isUnchosenForkChild dag stageId envs =
     list_ex (\<lambda>n. case Option.bind (jget envs (node_id n)) env_fork_choice of
         None \<Rightarrow> False
       | Some chosen \<Rightarrow> stageId \<in> set (children_of dag (node_id n)) \<and> stageId \<notin> set chosen) (nodes dag)"

definition eventsShowStarted :: "StageEvent list \<Rightarrow> bool" where
  "eventsShowStarted evs = list_ex (\<lambda>e. e = EvStarted \<or> e = EvResumed) evs"

definition shouldReopenSkippedStage ::
  "ResolvedPipelineDag \<Rightarrow> string \<Rightarrow> sched_states \<Rightarrow> envelopes \<Rightarrow> bool \<Rightarrow> string list \<Rightarrow> bool" where
  "shouldReopenSkippedStage dag stageId states envs hasStarted retired =
     (if hasStarted then False
      else if stageId \<in> set retired then False
      else if jget states stageId \<noteq> Some Skipped then False
      else if isUnchosenForkChild dag stageId envs then False
      else joinAllowsRun dag stageId (jset states stageId Pending) envs)"

fun persistReopenedStages :: "string list \<Rightarrow> sched_states \<Rightarrow> sched_states action" where
  "persistReopenedStages [] states = return states"
| "persistReopenedStages (i # ids) states =
     (if jget states i \<noteq> Some Skipped then persistReopenedStages ids states
      else andThen (appendStageEvent i EvReopened None) (\<lambda>_. persistReopenedStages ids (jset states i Pending)))"

definition reopenable_ids :: "run_store \<Rightarrow> ResolvedPipelineDag \<Rightarrow> sched_states \<Rightarrow> envelopes \<Rightarrow> string list" where
  "reopenable_ids s dag states envs =
     List.filter (\<lambda>i. jget states i = Some Skipped \<and>
         shouldReopenSkippedStage dag i states envs (eventsShowStarted (listStageEvents i None s)) (supersededCloneIds s))
       (jkeys states)"

definition reopenRunnableSkippedStages ::
  "ResolvedPipelineDag \<Rightarrow> sched_states \<Rightarrow> envelopes \<Rightarrow> sched_states action" where
  "reopenRunnableSkippedStages dag states envs =
     andThen (gets (\<lambda>s. reopenable_ids s dag states envs)) (\<lambda>ids. persistReopenedStages ids states)"

section \<open>Hydration\<close>

definition halting_failure :: "ResolvedPipelineDag \<Rightarrow> sched_states \<Rightarrow> string \<Rightarrow> bool" where
  "halting_failure dag states i =
     (jget states i = Some Failed \<and> \<not> cloneFailureContinuesSchedule dag i \<and> \<not> failureIsAccepted dag i states)"

definition hydrateScheduleFromStore ::
  "ResolvedPipelineDag \<Rightarrow> StageExecutionMode \<Rightarrow> HydratedSchedule action" where
  "hydrateScheduleFromStore dag mode =
     andThen (gets (\<lambda>s. s)) (\<lambda>s.
       let stages = readRun_stages s;
           resolvedDag = or_else (rs_dag s) (asDagSnapshot dag);
           completed = buildCompletedEnvelopesFromRun s stages resolvedDag;
           states = states_from_snapshots [] mode stages (pending_nodes resolvedDag)
       in andThen (reopenRunnableSkippedStages resolvedDag states completed) (\<lambda>states'.
         return \<lparr>hs_states = states', hs_completed = completed,
           hs_halted = list_ex (halting_failure resolvedDag states) (jkeys states), hs_reason = None,
           hs_dag = Some resolvedDag\<rparr>))"

definition retry_downstream :: "ResolvedPipelineDag \<Rightarrow> string list \<Rightarrow> string list" where
  "retry_downstream dag rootIds =
     foldl jadd (cloneRetryDownstream dag rootIds) (concat (map (sequentialLaterCloneIds dag) rootIds))"

definition hydrateScheduleForRetryRoots ::
  "ResolvedPipelineDag \<Rightarrow> string list \<Rightarrow> HydratedSchedule action" where
  "hydrateScheduleForRetryRoots dag retryStageIds =
     andThen (gets (\<lambda>s. s)) (\<lambda>s.
       let stages = readRun_stages s;
           resolvedDag = or_else (rs_dag s) (asDagSnapshot dag);
           reset = retryStageIds @ retry_downstream resolvedDag retryStageIds;
           retired = supersededCloneIds s;
           overrides = foldl (\<lambda>m i. jset m i Pending) [] (List.filter (\<lambda>i. i \<notin> set retired) reset);
           states = states_from_snapshots overrides ProcessMode stages (pending_nodes resolvedDag);
           completed = foldl (\<lambda>m snap. if snap_stage_id snap \<in> set reset then jdel m (snap_stage_id snap) else m)
             (buildCompletedEnvelopesFromRun s stages resolvedDag) stages;
           toReopen = map snap_stage_id (List.filter (\<lambda>snap. snap_stage_id snap \<notin> set retired \<and>
             snap_status snap = SsSkipped \<and> snap_stage_id snap \<in> set reset) stages)
       in andThen (persistReopenedStages toReopen (foldl (\<lambda>m i. jset m i Skipped) [] toReopen)) (\<lambda>_.
         return \<lparr>hs_states = states, hs_completed = completed, hs_halted = False, hs_reason = None,
           hs_dag = Some resolvedDag\<rparr>))"

section \<open>Skipping\<close>

type_synonym skip_result = "sched_states \<times> string list"

definition persistSkipRejected ::
  "ResolvedPipelineDag \<Rightarrow> string \<Rightarrow> NeedTerminalState \<Rightarrow> skip_result \<Rightarrow> skip_result" where
  "persistSkipRejected dag parentId observed r =
     (case skipRejectedNeedDependents dag parentId (fst r) observed of (states, ids) \<Rightarrow> (states, snd r @ ids))"

definition skip_pending :: "string \<Rightarrow> skip_result \<Rightarrow> skip_result" where
  "skip_pending i r =
     (if jget (fst r) i = Some Pending then (jset (fst r) i Skipped, snd r @ [i]) else r)"

definition persistSkipPending :: "ResolvedPipelineDag \<Rightarrow> string \<Rightarrow> skip_result \<Rightarrow> skip_result" where
  "persistSkipPending dag i r =
     (if jget (fst r) i \<noteq> Some Pending then r
      else persistSkipRejected dag i NtSkipped (skip_pending i r))"

definition skip_each :: "ResolvedPipelineDag \<Rightarrow> string list \<Rightarrow> skip_result \<Rightarrow> skip_result" where
  "skip_each dag ids r = foldl (\<lambda>r i. persistSkipPending dag i r) r ids"

definition fork_child :: "ResolvedPipelineDag \<Rightarrow> string list \<Rightarrow> string list \<Rightarrow> skip_result \<Rightarrow> string \<Rightarrow> skip_result" where
  "fork_child dag chosen protected_ids r c =
     (if c \<in> set protected_ids \<or> c \<in> set chosen then r
      else persistSkipRejected dag c NtSkipped (skip_pending c r))"

definition applyForkChoiceToSchedule ::
  "ResolvedPipelineDag \<Rightarrow> string \<Rightarrow> string list \<Rightarrow> string list \<Rightarrow> skip_result \<Rightarrow> skip_result" where
  "applyForkChoiceToSchedule dag forkStageId chosen protected_ids r =
     foldl (fork_child dag chosen protected_ids) r (children_of dag forkStageId)"

definition stored_fork_choice :: "StageEnvelope \<Rightarrow> string list" where
  "stored_fork_choice e = (case env_fork_choice e of None \<Rightarrow> [] | Some xs \<Rightarrow> jset_of xs)"

definition applyForkSkipsFromEnvelopes :: "ResolvedPipelineDag \<Rightarrow> envelopes \<Rightarrow> sched_states \<Rightarrow> sched_states" where
  "applyForkSkipsFromEnvelopes dag envs states =
     foldl (\<lambda>states n.
        if fork n = None then states
        else case jget envs (node_id n) of
          None \<Rightarrow> states
        | Some e \<Rightarrow> fst (applyForkChoiceToSchedule dag (node_id n) (stored_fork_choice e) [] (states, [])))
       states (nodes dag)"

text \<open>Over the children of one parent; \<open>True\<close> when a route predicate could not read its field.\<close>

fun eager_children ::
  "ResolvedPipelineDag \<Rightarrow> string \<Rightarrow> jsobj option \<Rightarrow> string list \<Rightarrow> skip_result \<Rightarrow> skip_result \<times> bool" where
  "eager_children dag parentId payload [] r = (r, False)"
| "eager_children dag parentId payload (c # cs) r =
     (case find_node dag c of
        None \<Rightarrow> eager_children dag parentId payload cs r
      | Some child \<Rightarrow>
          if classifyInboundAfterSuccess child parentId payload = Gated MissingField then (r, True)
          else eager_children dag parentId payload cs
            (if isEagerSingleParentIfSkip child parentId payload then persistSkipPending dag c r else r))"

fun applyEagerRouteIfSkipsFromEnvelopes ::
  "ResolvedPipelineDag \<Rightarrow> (string \<times> StageEnvelope) list \<Rightarrow> skip_result \<Rightarrow> skip_result \<times> string option" where
  "applyEagerRouteIfSkipsFromEnvelopes dag [] r = (r, None)"
| "applyEagerRouteIfSkipsFromEnvelopes dag ((parentId, envelope) # es) r =
     (if jget (fst r) parentId \<noteq> Some Succeeded then applyEagerRouteIfSkipsFromEnvelopes dag es r
      else case eager_children dag parentId (env_payload envelope) (children_of dag parentId) r of
        (r', missing) \<Rightarrow>
          if missing then (r', Some parentId) else applyEagerRouteIfSkipsFromEnvelopes dag es r')"

text \<open>The start of a run also skips behind the clones that already failed.\<close>

definition apply_failed_clone_skips :: "ResolvedPipelineDag \<Rightarrow> skip_result \<Rightarrow> skip_result" where
  "apply_failed_clone_skips dag r =
     foldl (\<lambda>r i. if jget (fst r) i \<noteq> Some Failed then r else skip_each dag (cloneFailFastSkipIds dag i) r)
       r (jkeys (fst r))"

section \<open>Retry mutations\<close>

definition delta_reset_ids :: "ResolvedPipelineDag \<Rightarrow> string \<Rightarrow> string list" where
  "delta_reset_ids dag stageId =
     jset_of (stageId # cloneRetryDownstream dag [stageId] @ sequentialLaterCloneIds dag stageId)"

definition applyRetryRootDelta ::
  "ResolvedPipelineDag \<Rightarrow> string \<Rightarrow> nat \<Rightarrow> string list \<Rightarrow>
   sched_states \<times> envelopes \<times> (string, nat) jsmap \<Rightarrow> sched_states \<times> envelopes \<times> (string, nat) jsmap" where
  "applyRetryRootDelta dag stageId attemptNo launched r =
     (case r of (states, envs, retryRoots) \<Rightarrow>
        (foldl (\<lambda>states i.
            if jget states i = Some Active then states
            else if i = stageId \<and> jget states i = Some Succeeded \<and> i \<in> set launched then states
            else jset states i Pending) states (delta_reset_ids dag stageId),
         foldl jdel envs (delta_reset_ids dag stageId),
         jset retryRoots stageId attemptNo))"

definition open_work :: "sched_states \<Rightarrow> string \<Rightarrow> bool" where
  "open_work states i = (jget states i \<in> {Some Pending, Some Active, Some Waiting})"

definition hasWorkOutsideBranch ::
  "ResolvedPipelineDag \<Rightarrow> string \<Rightarrow> sched_states \<Rightarrow> (string, nat) jsmap option \<Rightarrow> string list option \<Rightarrow> bool" where
  "hasWorkOutsideBranch dag branchRootId states retryRoots pendingDelta =
     (let branch = set (branchRootId # cloneRetryDownstream dag [branchRootId]) in
      list_ex (\<lambda>n. node_id n \<notin> branch \<and> open_work states (node_id n)) (nodes dag) \<or>
      (case pendingDelta of None \<Rightarrow> False | Some ids \<Rightarrow> list_ex (\<lambda>i. i \<notin> branch) ids) \<or>
      (case retryRoots of None \<Rightarrow> False
       | Some rs \<Rightarrow> list_ex (\<lambda>i. i \<notin> branch \<and> (open_work states i \<or> jget states i = Some Failed)) (jkeys rs)))"

section \<open>What can run\<close>

definition scheduleHasUnhandledFailure :: "ResolvedPipelineDag \<Rightarrow> sched_states \<Rightarrow> bool" where
  "scheduleHasUnhandledFailure dag states =
     list_ex (\<lambda>i. jget states i = Some Failed \<and> \<not> failureIsAccepted dag i states) (jkeys states)"

definition stage_index_of :: "ResolvedPipelineDag \<Rightarrow> string \<Rightarrow> nat" where
  "stage_index_of dag i = (case jget (jmap_by node_id (nodes dag)) i of None \<Rightarrow> 0 | Some n \<Rightarrow> stageIndex n)"

definition sortRunnableIds :: "ResolvedPipelineDag \<Rightarrow> string list \<Rightarrow> string list" where
  "sortRunnableIds dag ids = sort_key (stage_index_of dag) ids"

text \<open>\<open>held\<close> are the stages a feedback replay holds back; none without feedback.\<close>

definition isRunnable ::
  "ResolvedPipelineDag \<Rightarrow> string \<Rightarrow> sched_states \<Rightarrow> bool \<Rightarrow> envelopes \<Rightarrow> string list \<Rightarrow> bool" where
  "isRunnable dag stageId states halted envs held =
     (if halted then False
      else if stageId \<in> set held then False
      else if jget states stageId \<noteq> Some Pending then False
      else if \<not> joinAllowsRun dag stageId states envs then False
      else cloneScheduleAllowsRun dag stageId states)"

definition hydratedScheduleHasRunnableWork :: "HydratedSchedule \<Rightarrow> bool" where
  "hydratedScheduleHasRunnableWork h =
     (if hs_halted h then False
      else case hs_dag h of
        None \<Rightarrow> False
      | Some dag \<Rightarrow> list_ex (\<lambda>n. isRunnable dag (node_id n) (hs_states h) (hs_halted h) (hs_completed h) []) (nodes dag))"

definition pickRunnable :: "ResolvedPipelineDag \<Rightarrow> sched_states \<Rightarrow> bool \<Rightarrow> envelopes \<Rightarrow> string list \<Rightarrow> string list" where
  "pickRunnable dag states halted envs held =
     sortRunnableIds dag (List.filter (\<lambda>i. isRunnable dag i states halted envs held) (map node_id (nodes dag)))"

definition allTerminal :: "ResolvedPipelineDag \<Rightarrow> sched_states \<Rightarrow> bool" where
  "allTerminal dag states =
     list_all (\<lambda>n. case jget states (node_id n) of None \<Rightarrow> False | Some st \<Rightarrow> terminalState st) (nodes dag)"

definition markSkippedPending :: "ResolvedPipelineDag \<Rightarrow> skip_result \<Rightarrow> skip_result" where
  "markSkippedPending dag r = foldl (\<lambda>r n. skip_pending (node_id n) r) r (nodes dag)"

definition markBranchDownstreamSkipped :: "ResolvedPipelineDag \<Rightarrow> string \<Rightarrow> skip_result \<Rightarrow> skip_result" where
  "markBranchDownstreamSkipped dag stageId r =
     foldl (\<lambda>r i. skip_pending i r) r (cloneRetryDownstream dag [stageId])"

section \<open>Skipping only turns pending stages into skipped ones\<close>

text \<open>
  \<open>only_skips r r'\<close>: the new ids in the log are distinct, were pending, and are skipped now; every
  other state is as before.
\<close>

definition only_skips :: "skip_result \<Rightarrow> skip_result \<Rightarrow> bool" where
  "only_skips r r' \<longleftrightarrow> (\<exists>news. snd r' = snd r @ news \<and> distinct news \<and> set news \<subseteq> pending_keys (fst r) \<and>
     (\<forall>k. jget (fst r') k = (if k \<in> set news then Some Skipped else jget (fst r) k)))"

named_theorems skips "operations that only skip pending stages"

lemma only_skips_refl [skips]: "only_skips r r"
  by (auto simp: only_skips_def intro: exI [of _ "[]"])

lemma only_skips_trans:
  assumes "only_skips r r'" "only_skips r' r''"
  shows "only_skips r r''"
proof -
  from assms(1) obtain xs where x: "snd r' = snd r @ xs" "distinct xs" "set xs \<subseteq> pending_keys (fst r)"
    "\<And>k. jget (fst r') k = (if k \<in> set xs then Some Skipped else jget (fst r) k)" by (auto simp: only_skips_def)
  from assms(2) obtain ys where y: "snd r'' = snd r' @ ys" "distinct ys" "set ys \<subseteq> pending_keys (fst r')"
    "\<And>k. jget (fst r'') k = (if k \<in> set ys then Some Skipped else jget (fst r') k)" by (auto simp: only_skips_def)
  have "pending_keys (fst r') = pending_keys (fst r) - set xs" by (auto simp: pending_keys_def x(4))
  with x y show ?thesis unfolding only_skips_def by (intro exI [of _ "xs @ ys"]) auto
qed

lemma only_skips_foldl: "(\<And>r x. only_skips r (f r x)) \<Longrightarrow> only_skips r (foldl f r xs)"
proof (induction xs arbitrary: r)
  case (Cons x xs)
  from only_skips_trans [OF Cons.prems Cons.IH [OF Cons.prems]] show ?case by simp
qed (simp add: skips)

lemma persistSkipRejected_skips [skips]: "only_skips r (persistSkipRejected dag p obs r)"
proof -
  obtain states ids where run: "skipRejectedNeedDependents dag p (fst r) obs = (states, ids)" by fastforce
  from skip_stack_effect [of dag "[(nodes dag, p, obs)]" "fst r" "[]" states ids] run
  show ?thesis by (auto simp: persistSkipRejected_def only_skips_def skipRejectedNeedDependents_def)
qed

lemma skip_pending_skips [skips]: "only_skips r (skip_pending i r)"
  by (auto simp: only_skips_def skip_pending_def pending_keys_def intro: exI [of _ "[i]"] exI [of _ "[]"])

lemma persistSkipPending_skips [skips]: "only_skips r (persistSkipPending dag i r)"
  by (auto simp: persistSkipPending_def intro: skips only_skips_trans)

lemma skip_each_skips [skips]: "only_skips r (skip_each dag ids r)"
  unfolding skip_each_def by (intro only_skips_foldl skips)

lemma fork_child_skips [skips]: "only_skips r (fork_child dag chosen prot r c)"
  using only_skips_trans [OF skip_pending_skips persistSkipRejected_skips] by (simp add: fork_child_def skips)

lemma applyForkChoice_skips [skips]: "only_skips r (applyForkChoiceToSchedule dag i chosen prot r)"
  unfolding applyForkChoiceToSchedule_def by (intro only_skips_foldl skips)

lemma eager_children_skips [skips]: "only_skips r (fst (eager_children dag p pl cs r))"
proof (induction dag p pl cs r rule: eager_children.induct)
  case (2 dag p pl c cs r)
  then show ?case by (auto split: option.split intro: skips only_skips_trans)
qed (simp add: skips)

lemma applyEager_skips [skips]: "only_skips r (fst (applyEagerRouteIfSkipsFromEnvelopes dag es r))"
proof (induction dag es r rule: applyEagerRouteIfSkipsFromEnvelopes.induct)
  case (2 dag p e es r)
  show ?case
  proof (cases "jget (fst r) p = Some Succeeded")
    case True
    obtain r' m where e: "eager_children dag p (env_payload e) (children_of dag p) r = (r', m)" by fastforce
    have "only_skips r r'" using eager_children_skips [of r dag p "env_payload e" "children_of dag p"] e by simp
    moreover have "only_skips r' (fst (applyEagerRouteIfSkipsFromEnvelopes dag es r'))" if "\<not> m"
      using "2.IH"(2) [OF _ e [symmetric]] True that by simp
    ultimately show ?thesis using True e by (cases m) (auto intro: only_skips_trans)
  qed (use 2 in simp)
qed (simp add: skips)

lemma apply_failed_clone_skips_skips [skips]: "only_skips r (apply_failed_clone_skips dag r)"
  unfolding apply_failed_clone_skips_def by (intro only_skips_foldl) (auto intro: skips)

lemma markSkippedPending_skips [skips]: "only_skips r (markSkippedPending dag r)"
  unfolding markSkippedPending_def by (intro only_skips_foldl skips)

lemma markBranch_skips [skips]: "only_skips r (markBranchDownstreamSkipped dag i r)"
  unfolding markBranchDownstreamSkipped_def by (intro only_skips_foldl skips)

lemma only_skips_pending: "only_skips r r' \<Longrightarrow> pending_keys (fst r') \<subseteq> pending_keys (fst r)"
  by (auto simp: only_skips_def pending_keys_def split: if_splits)

lemma only_skips_get:
  "only_skips r r' \<Longrightarrow> jget (fst r') k = jget (fst r) k \<or> jget (fst r) k = Some Pending \<and> jget (fst r') k = Some Skipped"
proof -
  assume "only_skips r r'"
  then obtain news where "set news \<subseteq> pending_keys (fst r)"
    "jget (fst r') k = (if k \<in> set news then Some Skipped else jget (fst r) k)" by (auto simp: only_skips_def)
  then show ?thesis by (cases "k \<in> set news") (auto simp: pending_keys_def)
qed

lemma persistSkipPending_done: "jget (fst (persistSkipPending dag i r)) i \<noteq> Some Pending"
proof (cases "jget (fst r) i = Some Pending")
  case True
  have "only_skips (skip_pending i r) (persistSkipRejected dag i NtSkipped (skip_pending i r))" by (rule skips)
  from only_skips_get [OF this, of i] True show ?thesis by (auto simp: persistSkipPending_def skip_pending_def)
qed (simp add: persistSkipPending_def)

lemma skip_each_done: "i \<in> set ids \<Longrightarrow> jget (fst (skip_each dag ids r)) i \<noteq> Some Pending"
proof (induction ids arbitrary: r)
  case (Cons j ids)
  have "only_skips (persistSkipPending dag j r) (skip_each dag ids (persistSkipPending dag j r))" by (rule skips)
  from only_skips_get [OF this, of j] persistSkipPending_done [of dag j r]
    Cons.IH [of "persistSkipPending dag j r"] Cons.prems show ?case
    by (cases "i = j") (auto simp: skip_each_def)
qed simp

section \<open>Settling the stalled joins\<close>

text \<open>The loop of \<open>applyStalledJoinSkips\<close>: every round skips at least one pending stage.\<close>

lemma skip_each_decreases:
  assumes "i \<in> set ids" "i \<in> pending_keys (fst r)"
  shows "card (pending_keys (fst (skip_each dag ids r))) < card (pending_keys (fst r))"
proof -
  have "pending_keys (fst (skip_each dag ids r)) \<subseteq> pending_keys (fst r)"
    by (rule only_skips_pending [OF skip_each_skips])
  moreover have "i \<notin> pending_keys (fst (skip_each dag ids r))"
    using skip_each_done [OF assms(1)] by (simp add: pending_keys_def)
  ultimately have "pending_keys (fst (skip_each dag ids r)) \<subset> pending_keys (fst r)" using assms(2) by blast
  then show ?thesis by (simp add: psubset_card_mono)
qed

function applyStalledJoinSkips :: "ResolvedPipelineDag \<Rightarrow> envelopes \<Rightarrow> skip_result \<Rightarrow> skip_result" where
  "applyStalledJoinSkips dag envs r =
     (case pickStalledJoinSkips dag (fst r) envs of
        [] \<Rightarrow> r
      | i # ids \<Rightarrow> applyStalledJoinSkips dag envs (skip_each dag (i # ids) r))"
  by pat_completeness auto
termination
proof (relation "measure (\<lambda>(dag, envs, r). card (pending_keys (fst r)))", goal_cases)
  case (2 dag envs r i ids)
  then have "i \<in> set (pickStalledJoinSkips dag (fst r) envs)" by simp
  then have "i \<in> pending_keys (fst r)" by (auto simp: pickStalledJoinSkips_def pending_keys_def)
  then have "card (pending_keys (fst (skip_each dag (i # ids) r))) < card (pending_keys (fst r))"
    by (intro skip_each_decreases [of i]) simp_all
  then show ?case by (simp only: in_measure prod.case)
qed simp

declare applyStalledJoinSkips.simps [simp del]

lemma applyStalled_Nil: "pickStalledJoinSkips dag (fst r) envs = [] \<Longrightarrow> applyStalledJoinSkips dag envs r = r"
  by (subst applyStalledJoinSkips.simps) simp

lemma applyStalled_Cons:
  "pickStalledJoinSkips dag (fst r) envs = i # ids \<Longrightarrow>
   applyStalledJoinSkips dag envs r = applyStalledJoinSkips dag envs (skip_each dag (i # ids) r)"
  by (subst applyStalledJoinSkips.simps) simp

lemma applyStalled_skips [skips]: "only_skips r (applyStalledJoinSkips dag envs r)"
proof (induction dag envs r rule: applyStalledJoinSkips.induct)
  case (1 dag envs r)
  show ?case
  proof (cases "pickStalledJoinSkips dag (fst r) envs")
    case (Cons i ids)
    show ?thesis unfolding applyStalled_Cons [OF Cons] by (rule only_skips_trans [OF skip_each_skips 1 [OF Cons]])
  qed (simp add: applyStalled_Nil skips)
qed

lemma applyStalled_done: "pickStalledJoinSkips dag (fst (applyStalledJoinSkips dag envs r)) envs = []"
proof (induction dag envs r rule: applyStalledJoinSkips.induct)
  case (1 dag envs r)
  show ?case
  proof (cases "pickStalledJoinSkips dag (fst r) envs")
    case (Cons i ids)
    show ?thesis unfolding applyStalled_Cons [OF Cons] by (rule 1 [OF Cons])
  qed (simp add: applyStalled_Nil)
qed

end
