(* ===== verification/Replay_Lifecycle.thy ===== *)
theory Replay_Lifecycle
  imports Feedback_Loop Schedule_Ops
begin

text \<open>
  What a feedback replay does to the schedule, and the decisions of an operator on a loop that has
  used up its replays: \<open>runtime/feedbackLoopSchedule.ts\<close>, \<open>runtime/replayLifecycle.ts\<close>,
  \<open>runtime/feedbackLoopDecision.ts\<close>.  The maps the code mutates are passed and returned: the states
  and envelopes of the schedule and the feedback state, in one record \<open>replay_view\<close>.
\<close>

section \<open>The feedback state of a schedule\<close>

record FeedbackScheduleState =
  fs_hold :: "string list"
  fs_launch :: launch_maps
  fs_loop_id :: "string option"
  fs_replay_id :: "string option"
  fs_source :: "string option"
  fs_cohorts :: "(string, string list) jsmap"

definition createFeedbackScheduleState :: FeedbackScheduleState where
  "createFeedbackScheduleState = \<lparr>fs_hold = [], fs_launch = no_launches, fs_loop_id = None, fs_replay_id = None,
     fs_source = None, fs_cohorts = []\<rparr>"

record replay_view =
  rv_states :: sched_states
  rv_envelopes :: envelopes
  rv_feedback :: FeedbackScheduleState

type_synonym retire_result = "sched_states \<times> envelopes \<times> string list"

definition retire_descendant :: "string list \<Rightarrow> string list \<Rightarrow> retire_result \<Rightarrow> string \<Rightarrow> retire_result" where
  "retire_descendant route hold r desc =
     (case r of (states, envs, retired) \<Rightarrow>
        if desc \<in> set route \<or> desc \<in> set hold then r
        else if jget states desc \<in> {Some Pending, Some Succeeded, Some Active}
        then (jset states desc Skipped, jdel envs desc, retired @ [desc])
        else r)"

definition retire_clone ::
  "ResolvedPipelineDag \<Rightarrow> string list \<Rightarrow> string list \<Rightarrow> retire_result \<Rightarrow> string \<Rightarrow> retire_result" where
  "retire_clone dag route hold r c =
     (if c \<in> set route then r
      else case r of (states, envs, retired) \<Rightarrow>
        foldl (retire_descendant route hold)
          (if jget states c = Some Skipped then (states, jdel envs c, retired)
           else (jset states c Skipped, jdel envs c, retired @ [c]))
          (postSourceStageIds dag c))"

text \<open>Clones of a retired cohort mean that their fork parent has to fan out again before a join reads it.\<close>

definition await_mint :: "ResolvedPipelineDag \<Rightarrow> string list \<Rightarrow> (string, string list) jsmap \<Rightarrow> (string, string list) jsmap" where
  "await_mint dag sids m =
     foldl (\<lambda>m c. case Option.bind (find_node dag c) needs of None \<Rightarrow> m | Some p \<Rightarrow> jset m p []) m sids"

definition applyFeedbackSendBackToSchedule ::
  "ResolvedPipelineDag \<Rightarrow> string \<Rightarrow> string list \<Rightarrow> string \<Rightarrow> string \<Rightarrow> launch_maps \<Rightarrow> string list \<Rightarrow>
   replay_view \<Rightarrow> replay_view \<times> string list" where
  "applyFeedbackSendBackToSchedule dag sourceId route loopId replayId maps sids v =
     (case foldl (retire_clone dag route (fs_hold (rv_feedback v))) (rv_states v, rv_envelopes v, []) sids of
        (states, envs, retired) \<Rightarrow>
          (\<lparr>rv_states = foldl (\<lambda>m i. jset m i Pending) states route,
            rv_envelopes = foldl jdel envs route,
            rv_feedback = \<lparr>fs_hold = postSourceStageIds dag sourceId, fs_launch = maps, fs_loop_id = Some loopId,
              fs_replay_id = Some replayId, fs_source = Some sourceId,
              fs_cohorts = await_mint dag sids (fs_cohorts (rv_feedback v))\<rparr>\<rparr>, retired))"

definition releaseFeedbackHold :: "FeedbackScheduleState \<Rightarrow> FeedbackScheduleState" where
  "releaseFeedbackHold fb = \<lparr>fs_hold = [], fs_launch = no_launches, fs_loop_id = None, fs_replay_id = None,
     fs_source = None, fs_cohorts = []\<rparr>"

definition isFeedbackHeld :: "FeedbackScheduleState \<Rightarrow> string \<Rightarrow> bool" where
  "isFeedbackHeld fb stageId = (stageId \<in> set (fs_hold fb))"

section \<open>The life of a replay\<close>

datatype ReplayApplyResult =
    RaApplied string string "string list" FeedbackLoopRecord
  | RaIdempotent string string "string list" FeedbackLoopRecord
  | RaWaitingForHuman FeedbackLoopRecord DeferredFeedbackSendBack string nat
  | RaRejected string

record StageLaunchPrep =
  sl_attempt :: nat
  sl_session_mode :: "StageSessionMode option"
  sl_prior_attempt :: "nat option"
  sl_context :: "FeedbackLoopContext option"

definition launchFor :: "FeedbackScheduleState \<Rightarrow> string \<Rightarrow> StageLaunchPrep option" where
  "launchFor fb stageId =
     map_option (\<lambda>n. \<lparr>sl_attempt = n, sl_session_mode = jget (lm_session_modes (fs_launch fb)) stageId,
       sl_prior_attempt = jget (lm_prior_attempts (fs_launch fb)) stageId,
       sl_context = jget (lm_contexts (fs_launch fb)) stageId\<rparr>)
       (jget (lm_launch_attempts (fs_launch fb)) stageId)"

definition launchAttemptFor :: "FeedbackScheduleState \<Rightarrow> string \<Rightarrow> nat option" where
  "launchAttemptFor fb stageId = jget (lm_launch_attempts (fs_launch fb)) stageId"

definition clearLaunchPrep :: "string \<Rightarrow> FeedbackScheduleState \<Rightarrow> FeedbackScheduleState" where
  "clearLaunchPrep stageId fb = fb\<lparr>fs_launch :=
     \<lparr>lm_contexts = jdel (lm_contexts (fs_launch fb)) stageId,
      lm_session_modes = jdel (lm_session_modes (fs_launch fb)) stageId,
      lm_prior_attempts = jdel (lm_prior_attempts (fs_launch fb)) stageId,
      lm_launch_attempts = jdel (lm_launch_attempts (fs_launch fb)) stageId\<rparr>\<rparr>"

definition noteActiveCohort :: "string \<Rightarrow> string list \<Rightarrow> FeedbackScheduleState \<Rightarrow> FeedbackScheduleState" where
  "noteActiveCohort forkParent cloneIds fb = fb\<lparr>fs_cohorts := jset (fs_cohorts fb) forkParent (jset_of cloneIds)\<rparr>"

definition armWaitingHold :: "ResolvedPipelineDag \<Rightarrow> string \<Rightarrow> string \<Rightarrow> FeedbackScheduleState \<Rightarrow> FeedbackScheduleState" where
  "armWaitingHold dag sourceId loopId fb = fb\<lparr>
     fs_hold := (if fs_hold fb = [] then postSourceStageIds dag sourceId else fs_hold fb),
     fs_loop_id := Some loopId, fs_source := Some sourceId\<rparr>"

definition applySendBack ::
  "(nat \<Rightarrow> string) \<Rightarrow> ResolvedPipelineDag \<Rightarrow> ResolvedPipelineStageNode \<Rightarrow> nat \<Rightarrow> StageEnvelope \<Rightarrow> replay_view \<Rightarrow>
   (ReplayApplyResult \<times> replay_view) action" where
  "applySendBack uuid dag sourceNode sourceAttempt envelope v =
     andThen (acceptFeedbackSendBack uuid dag sourceNode sourceAttempt envelope) (\<lambda>res. return
       (case res of
          SbRejected reason \<Rightarrow> (RaRejected reason, v)
        | SbWaitingForHuman loop deferred src n \<Rightarrow>
            (RaWaitingForHuman loop deferred src n,
             v\<lparr>rv_feedback := (armWaitingHold dag src (lr_loop_id loop) (rv_feedback v))\<lparr>fs_replay_id := None\<rparr>\<rparr>)
        | SbAccepted loop r route maps sids \<Rightarrow>
            (case applyFeedbackSendBackToSchedule dag (node_id sourceNode) route (lr_loop_id loop) (rr_replay_id r)
                maps sids v of
               (v', retired) \<Rightarrow> (RaApplied (lr_loop_id loop) (rr_replay_id r) retired loop, v'))
        | SbIdempotent loop r route maps sids \<Rightarrow>
            (case applyFeedbackSendBackToSchedule dag (node_id sourceNode) route (lr_loop_id loop) (rr_replay_id r)
                maps sids v of
               (v', retired) \<Rightarrow> (RaIdempotent (lr_loop_id loop) (rr_replay_id r) retired loop, v'))))"

definition onRouteStageRunning :: "FeedbackScheduleState \<Rightarrow> string \<Rightarrow> unit action" where
  "onRouteStageRunning fb stageId = markFeedbackRouteStageRunning (fs_replay_id fb) stageId"

definition onRouteStageSucceeded :: "string \<Rightarrow> StageEnvelope \<Rightarrow> FeedbackScheduleState \<Rightarrow> FeedbackScheduleState action" where
  "onRouteStageSucceeded stageId envelope fb =
     andThen (markFeedbackRouteStageSucceeded (fs_replay_id fb) stageId envelope) (\<lambda>_.
     return (clearLaunchPrep stageId fb))"

definition onRouteStageFailed :: "FeedbackScheduleState \<Rightarrow> string \<Rightarrow> unit action" where
  "onRouteStageFailed fb stageId = markFeedbackRouteStageFailed (fs_replay_id fb) stageId"

definition rebindRouteAttempts :: "(string, nat) jsmap \<Rightarrow> FeedbackScheduleState \<Rightarrow> FeedbackScheduleState action" where
  "rebindRouteAttempts overrides fb =
     (case fs_replay_id fb of
        None \<Rightarrow> return fb
      | Some i \<Rightarrow>
          if overrides = [] then return fb
          else andThen (rebindFeedbackRoutePassAttempts i overrides) (\<lambda>_.
            return (fb\<lparr>fs_launch := (fs_launch fb)\<lparr>lm_launch_attempts :=
              foldl (\<lambda>m (st, n). if jhas m st then jset m st n else m) (lm_launch_attempts (fs_launch fb)) overrides\<rparr>\<rparr>)))"

definition onContinued :: "string \<Rightarrow> StageEnvelope \<Rightarrow> FeedbackScheduleState \<Rightarrow> FeedbackScheduleState action" where
  "onContinued sourceId envelope fb =
     andThen (markFeedbackLoopContinued sourceId envelope) (\<lambda>_. return (releaseFeedbackHold fb))"

section \<open>Restarting in the middle of a replay\<close>

definition active_loop :: "FeedbackLoopRecord list \<Rightarrow> FeedbackLoopRecord option" where
  "active_loop loops = List.find (\<lambda>l. lr_state l = LoopActive \<and> lr_current_replay_id l \<noteq> None) loops"

definition replay_cohorts :: "string \<Rightarrow> (string, string list) jsmap \<Rightarrow> run_store \<Rightarrow> (string, string list) jsmap" where
  "replay_cohorts replayId m s =
     foldl (\<lambda>m g. if is_active g then jset m (gr_fork_parent_stage_id g) (jset_of (gr_clone_stage_ids g)) else m)
       m (listForkGenerations (Some replayId) None s)"

definition hydrateActiveFeedbackScheduleFromStore ::
  "ResolvedPipelineDag \<Rightarrow> FeedbackScheduleState \<Rightarrow>
   ((FeedbackLoopRecord \<times> FeedbackReplayRecord) option \<times> FeedbackScheduleState) action" where
  "hydrateActiveFeedbackScheduleFromStore dag fb =
     andThen listFeedbackLoops (\<lambda>loops.
     case active_loop loops of
       None \<Rightarrow> return (None, fb)
     | Some loop \<Rightarrow>
         (case lr_current_replay_id loop of
            None \<Rightarrow> return (None, fb)
          | Some i \<Rightarrow>
              andThen (getFeedbackReplay i) (\<lambda>r.
              if rr_status r \<noteq> ReplayActive then return (None, fb)
              else andThen (rebuildLaunchMaps loop r dag) (\<lambda>maps.
                gets (\<lambda>s. (Some (loop, r),
                  \<lparr>fs_hold = postSourceStageIds dag (rr_source_stage_id r), fs_launch = maps,
                   fs_loop_id = Some (lr_loop_id loop), fs_replay_id = Some (rr_replay_id r),
                   fs_source = Some (rr_source_stage_id r),
                   fs_cohorts = replay_cohorts (rr_replay_id r)
                     (await_mint dag (collectSupersededCloneIdsForRoute dag (rr_route_stage_ids r) s) []) s\<rparr>))))))"

section \<open>Decisions on a loop that waits for a human\<close>

datatype FeedbackLoopDecisionKind = Extend | DecideContinue | Abandon

datatype ResolveFeedbackLoopDecisionResult =
    DecExtended FeedbackLoopRecord string
  | DecContinued FeedbackLoopRecord
  | DecAbandoned FeedbackLoopRecord string
  | DecError string

definition attempt_of_latest :: "string \<Rightarrow> nat option action" where
  "attempt_of_latest stageId = andThen (getLatestStageExecution stageId) (\<lambda>e. return (map_option ex_attempt e))"

definition nonempty_trim :: "string option \<Rightarrow> string option" where
  "nonempty_trim r = (case r of None \<Rightarrow> None | Some t \<Rightarrow> if trim t = [] then None else Some (trim t))"

definition appendFeedbackLoopDecided :: "FeedbackLoopRecord \<Rightarrow> string \<Rightarrow> string option \<Rightarrow> unit action" where
  "appendFeedbackLoopDecided loop decision reason =
     andThen (attempt_of_latest (lr_source_stage_id loop)) (\<lambda>n.
     appendStageEvent (lr_source_stage_id loop)
       (EvFeedbackLoopDecided decision (lr_loop_id loop) (nonempty_trim reason)) n)"

definition clearSourceWaiting :: "string \<Rightarrow> bool \<Rightarrow> string \<Rightarrow> unit action" where
  "clearSourceWaiting sourceId failed reason =
     andThen (attempt_of_latest sourceId) (\<lambda>n.
     andThen (appendStageEvent sourceId (if failed then EvFailed reason else EvSucceeded) n) (\<lambda>_.
     case n of
       None \<Rightarrow> return ()
     | Some k \<Rightarrow> andThen (gets now) (\<lambda>t. updateStageExecution sourceId k
         (if failed then no_patch\<lparr>ep_status := Some SsFailed, ep_finished_at := Some t\<rparr>
          else no_patch\<lparr>ep_status := Some SsSucceeded\<rparr>))))"

definition resolveSourceNode ::
  "string \<Rightarrow> (ResolvedPipelineDag \<times> ResolvedPipelineStageNode \<times> replay_view) option \<Rightarrow>
   (string + ResolvedPipelineDag \<times> ResolvedPipelineStageNode) action" where
  "resolveSourceNode sourceId schedule =
     (case schedule of
        Some (dag, n, _) \<Rightarrow> return (Inr (dag, n))
      | None \<Rightarrow> gets (\<lambda>s. case rs_dag s of
          None \<Rightarrow> Inl ''cannot resolve feedback loop decision without pipeline_dag on run''
        | Some dag \<Rightarrow>
            (case find_node dag sourceId of
               None \<Rightarrow> Inl (''source stage '' @ quoted sourceId @ '' missing feedback_loop policy'')
             | Some n \<Rightarrow>
                 if feedback_loop n = None
                 then Inl (''source stage '' @ quoted sourceId @ '' missing feedback_loop policy'')
                 else Inr (dag, n))))"

definition decided_loop :: "string option \<Rightarrow> FeedbackLoopRecord list \<Rightarrow> FeedbackLoopRecord option" where
  "decided_loop loopId loops =
     (case loopId of
        Some i \<Rightarrow> List.find (\<lambda>l. lr_loop_id l = i) loops
      | None \<Rightarrow> (case sort_key (\<lambda>l. - int (lr_updated_at l))
            (List.filter (\<lambda>l. lr_state l = LoopWaitingForHuman) loops) of [] \<Rightarrow> None | l # _ \<Rightarrow> Some l))"

definition conflict :: "FeedbackLoopRecord \<Rightarrow> ResolveFeedbackLoopDecisionResult" where
  "conflict loop = DecError (''feedback loop decision conflict: no longer waiting_for_human (loop='' @ lr_loop_id loop @ '')'')"

definition bump_policy :: "FeedbackLoopConfig \<Rightarrow> FeedbackLoopConfig" where
  "bump_policy p = p\<lparr>fl_max_replays := fl_max_replays p + 1\<rparr>"

definition empty_view :: replay_view where
  "empty_view = \<lparr>rv_states = [], rv_envelopes = [], rv_feedback = createFeedbackScheduleState\<rparr>"

definition decide_extend ::
  "(nat \<Rightarrow> string) \<Rightarrow> FeedbackLoopRecord \<Rightarrow> string option \<Rightarrow>
   (ResolvedPipelineDag \<times> ResolvedPipelineStageNode \<times> replay_view) option \<Rightarrow>
   (ResolveFeedbackLoopDecisionResult \<times> replay_view) action" where
  "decide_extend uuid loop reason schedule =
     (let v = (case schedule of None \<Rightarrow> empty_view | Some (_, _, v) \<Rightarrow> v) in
      case lr_deferred loop of
        None \<Rightarrow> return (DecError (''feedback loop '' @ quoted (lr_loop_id loop) @ '' has no deferred send_back to extend''), v)
      | Some deferred \<Rightarrow>
          andThen (resolveSourceNode (lr_source_stage_id loop) schedule) (\<lambda>resolved.
          case resolved of
            Inl e \<Rightarrow> return (DecError e, v)
          | Inr (dag, sourceNode) \<Rightarrow>
              andThen (updateFeedbackLoop (lr_loop_id loop)
                (no_loop_patch\<lparr>lp_policy := Some (bump_policy (lr_policy loop)), lp_state := Some LoopActive\<rparr>)
                (Some LoopWaitingForHuman)) (\<lambda>ok.
              if \<not> ok then return (conflict loop, v)
              else
                andThen (appendFeedbackLoopDecided loop ''extend'' reason) (\<lambda>_.
                andThen (clearSourceWaiting (lr_source_stage_id loop) False []) (\<lambda>_.
                andThen (applySendBack uuid dag sourceNode (df_source_attempt deferred) (df_envelope deferred) v)
                  (\<lambda>(applied, v').
                  case applied of
                    RaRejected r \<Rightarrow> return (DecError r, v')
                  | RaWaitingForHuman _ _ _ _ \<Rightarrow> return (DecError ''extend still exceeded max_replays after bump'', v')
                  | RaApplied _ replayId _ _ \<Rightarrow>
                      andThen (getFeedbackLoop (lr_loop_id loop)) (\<lambda>updated. return (DecExtended updated replayId, v'))
                  | RaIdempotent _ replayId _ _ \<Rightarrow>
                      andThen (getFeedbackLoop (lr_loop_id loop)) (\<lambda>updated. return (DecExtended updated replayId, v'))))))))"

definition decide_continue ::
  "FeedbackLoopRecord \<Rightarrow> string option \<Rightarrow> (ResolvedPipelineDag \<times> ResolvedPipelineStageNode \<times> replay_view) option \<Rightarrow>
   (ResolveFeedbackLoopDecisionResult \<times> replay_view) action" where
  "decide_continue loop reason schedule =
     (let v = (case schedule of None \<Rightarrow> empty_view | Some (_, _, v) \<Rightarrow> v); src = lr_source_stage_id loop in
      andThen (updateFeedbackLoop (lr_loop_id loop) (no_loop_patch\<lparr>lp_state := Some LoopContinued\<rparr>)
        (Some LoopWaitingForHuman)) (\<lambda>ok.
      if \<not> ok then return (conflict loop, v)
      else
        andThen (appendFeedbackLoopDecided loop ''continue'' reason) (\<lambda>_.
        andThen (terminalizeCurrentFeedbackReplay loop ReplayCompleted) (\<lambda>_.
        andThen (clearSourceWaiting src False []) (\<lambda>_.
        andThen (updateFeedbackReplaySourcePass loop src PassSucceeded (map_option df_envelope (lr_deferred loop))) (\<lambda>_.
        andThen (getFeedbackLoop (lr_loop_id loop)) (\<lambda>updated.
        return (DecContinued updated,
          \<lparr>rv_states = jset (rv_states v) src Succeeded,
           rv_envelopes = (case (jget (rv_envelopes v) src, lr_deferred loop) of
              (None, Some d) \<Rightarrow> jset (rv_envelopes v) src (df_envelope d) | _ \<Rightarrow> rv_envelopes v),
           rv_feedback = releaseFeedbackHold (rv_feedback v)\<rparr>))))))))"

definition abandon_reason :: "FeedbackLoopRecord \<Rightarrow> string option \<Rightarrow> string" where
  "abandon_reason loop reason =
     (case nonempty_trim reason of
        Some t \<Rightarrow> t
      | None \<Rightarrow> ''feedback loop abandoned after max_replays ('' @ show_nat (nat (fl_max_replays (lr_policy loop))) @ '')'')"

definition decide_abandon ::
  "FeedbackLoopRecord \<Rightarrow> string option \<Rightarrow> (ResolvedPipelineDag \<times> ResolvedPipelineStageNode \<times> replay_view) option \<Rightarrow>
   (ResolveFeedbackLoopDecisionResult \<times> replay_view) action" where
  "decide_abandon loop reason schedule =
     (let v = (case schedule of None \<Rightarrow> empty_view | Some (_, _, v) \<Rightarrow> v); src = lr_source_stage_id loop;
          why = abandon_reason loop reason in
      andThen (updateFeedbackLoop (lr_loop_id loop) (no_loop_patch\<lparr>lp_state := Some LoopAbandoned\<rparr>)
        (Some LoopWaitingForHuman)) (\<lambda>ok.
      if \<not> ok then return (conflict loop, v)
      else
        andThen (appendFeedbackLoopDecided loop ''abandon'' (Some why)) (\<lambda>_.
        andThen (terminalizeCurrentFeedbackReplay loop ReplayFailed) (\<lambda>_.
        andThen (clearSourceWaiting src True why) (\<lambda>_.
        andThen (updateFeedbackReplaySourcePass loop src PassFailed None) (\<lambda>_.
        andThen (updateRunStatus RunFailed) (\<lambda>_.
        andThen (getFeedbackLoop (lr_loop_id loop)) (\<lambda>updated.
        return (DecAbandoned updated why,
          v\<lparr>rv_states := jset (rv_states v) src Failed, rv_feedback := releaseFeedbackHold (rv_feedback v)\<rparr>)))))))))"

definition loop_state_name :: "FeedbackLoopState \<Rightarrow> string" where
  "loop_state_name st = (case st of LoopActive \<Rightarrow> ''active'' | LoopWaitingForHuman \<Rightarrow> ''waiting_for_human''
     | LoopContinued \<Rightarrow> ''continued'' | LoopAbandoned \<Rightarrow> ''abandoned'' | LoopCompleted \<Rightarrow> ''completed'')"

text \<open>
  Without a schedule the view starts empty and what it becomes is dropped by the caller, as in the
  code, which passes fresh maps to the send-back and touches no others.
\<close>

definition resolveFeedbackLoopDecision ::
  "(nat \<Rightarrow> string) \<Rightarrow> FeedbackLoopDecisionKind \<Rightarrow> string option \<Rightarrow> string option \<Rightarrow>
   (ResolvedPipelineDag \<times> ResolvedPipelineStageNode \<times> replay_view) option \<Rightarrow>
   (ResolveFeedbackLoopDecisionResult \<times> replay_view) action" where
  "resolveFeedbackLoopDecision uuid decision loopId reason schedule =
     (let v = (case schedule of None \<Rightarrow> empty_view | Some (_, _, v) \<Rightarrow> v) in
      andThen listFeedbackLoops (\<lambda>loops.
      case decided_loop loopId loops of
        None \<Rightarrow> return (DecError (case loopId of
            Some i \<Rightarrow> ''feedback loop not found: '' @ i | None \<Rightarrow> ''no feedback loop is waiting_for_human''), v)
      | Some loop \<Rightarrow>
          if lr_state loop \<noteq> LoopWaitingForHuman
          then return (DecError (''feedback loop '' @ quoted (lr_loop_id loop) @ '' is not waiting_for_human (state='' @
            loop_state_name (lr_state loop) @ '')''), v)
          else case decision of
            Extend \<Rightarrow> decide_extend uuid loop reason schedule
          | DecideContinue \<Rightarrow> decide_continue loop reason schedule
          | Abandon \<Rightarrow> decide_abandon loop reason schedule))"

definition resolveDecision ::
  "(nat \<Rightarrow> string) \<Rightarrow> FeedbackLoopDecisionKind \<Rightarrow> string option \<Rightarrow> string option \<Rightarrow>
   ResolvedPipelineDag \<Rightarrow> ResolvedPipelineStageNode \<Rightarrow> replay_view \<Rightarrow>
   (ResolveFeedbackLoopDecisionResult \<times> replay_view) action" where
  "resolveDecision uuid decision loopId reason dag sourceNode v =
     resolveFeedbackLoopDecision uuid decision loopId reason (Some (dag, sourceNode, v))"

end
