(* ===== verification/Scheduler.thy ===== *)
theory Scheduler
  imports Replay_Lifecycle
begin

text \<open>
  The scheduler of a run: \<open>runPipelineDag\<close> of \<open>runtime/pipelineScheduler.ts\<close> with the closures it
  is made of.  Its local variables are the fields of the record \<open>scheduler\<close>, with the store beside
  them.  A closure is a \<open>step\<close>: it returns a value or a fault and leaves a scheduler, for a fault
  does not undo the assignments made before it.  What a stage answers is data: an \<open>outcome\<close>.

  The stages skipped by one operation are marked first and logged after it, in the same order; the
  code appends each event between two marks, which differs only when the store refuses the id of a
  stage of the DAG.  Disk usage, run manifests, browser teardown and log lines are left out.
\<close>

section \<open>The state\<close>

datatype fault = StoreFault store_error | CloneFault clone_error | ExternalFault string

text \<open>
  An entry of \<open>inFlight\<close>: started and not yet launched, acquiring a browser profile (with its slot
  released once another run holds the profile), executing an attempt, or parked in
  \<open>onFeedbackLoopWaiting\<close>.
\<close>

datatype flight =
    Starting
  | Acquiring nat bool
  | Executing nat
  | Parked string ResolvedPipelineStageNode

datatype PipelineRunResult =
    ResSucceeded
  | ResFailed "string option"
  | ResWaiting "string option"

datatype control = Looping | Draining | Ended PipelineRunResult | Crashed fault

record scheduler =
  sd_store :: run_store
  sd_dag :: ResolvedPipelineDag
  sd_states :: sched_states
  sd_envelopes :: envelopes
  sd_halted :: bool
  sd_reason :: "string option"
  sd_feedback :: FeedbackScheduleState
  sd_retry_roots :: "(string, nat) jsmap option"
  sd_mutations :: "(string \<times> nat) list option"
  sd_launched :: "string list"
  sd_active :: int
  sd_in_flight :: "(string, flight) jsmap"
  sd_notified :: "(string \<times> nat \<times> StageScheduleState) list"
  sd_halt_requested :: bool
  sd_host_shutdown :: bool
  sd_control :: control

text \<open>
  What does not change during a run: the supply of ids, the message of an exception, the cap on
  active stages, whether the caller decides exhausted loops in process, how stages are executed,
  and the stage configurations: which exist, and which ask for a browser profile.
\<close>

record run_config =
  cf_uuid :: "nat \<Rightarrow> string"
  cf_message :: "fault \<Rightarrow> string"
  cf_cap :: int
  cf_parks :: bool
  cf_mode :: StageExecutionMode
  cf_stages :: "string \<Rightarrow> bool"
  cf_profiles :: "string \<Rightarrow> bool"

section \<open>Steps\<close>

type_synonym 'a step = "scheduler \<Rightarrow> (fault + 'a) \<times> scheduler"

definition done_with :: "'a \<Rightarrow> 'a step" where
  "done_with x = (\<lambda>w. (Inr x, w))"

definition raise_fault :: "fault \<Rightarrow> 'a step" where
  "raise_fault e = (\<lambda>w. (Inl e, w))"

definition chain :: "'a step \<Rightarrow> ('a \<Rightarrow> 'b step) \<Rightarrow> 'b step" where
  "chain m f = (\<lambda>w. case m w of (Inl e, w') \<Rightarrow> (Inl e, w') | (Inr x, w') \<Rightarrow> f x w')"

definition look :: "(scheduler \<Rightarrow> 'a) \<Rightarrow> 'a step" where
  "look f = (\<lambda>w. (Inr (f w), w))"

definition change :: "(scheduler \<Rightarrow> scheduler) \<Rightarrow> unit step" where
  "change f = (\<lambda>w. (Inr (), f w))"

definition via_store :: "(scheduler \<Rightarrow> 'a action) \<Rightarrow> 'a step" where
  "via_store m = (\<lambda>w. case m w (sd_store w) of
     (Inl e, s) \<Rightarrow> (Inl (StoreFault e), w\<lparr>sd_store := s\<rparr>) | (Inr x, s) \<Rightarrow> (Inr x, w\<lparr>sd_store := s\<rparr>))"

text \<open>\<open>try { return await m } catch (err) { return await h(err) }\<close>.\<close>

definition rescue :: "'a step \<Rightarrow> (fault \<Rightarrow> 'a step) \<Rightarrow> 'a step" where
  "rescue m h = (\<lambda>w. case m w of (Inl e, w') \<Rightarrow> h e w' | (Inr x, w') \<Rightarrow> (Inr x, w'))"

definition provided :: "(scheduler \<Rightarrow> bool) \<Rightarrow> unit step \<Rightarrow> unit step" where
  "provided P m = (\<lambda>w. if P w then m w else (Inr (), w))"

fun for_each :: "'a list \<Rightarrow> ('a \<Rightarrow> unit step) \<Rightarrow> unit step" where
  "for_each [] f = done_with ()"
| "for_each (x # xs) f = chain (f x) (\<lambda>_. for_each xs f)"

definition set_stage :: "string \<Rightarrow> StageScheduleState \<Rightarrow> scheduler \<Rightarrow> scheduler" where
  "set_stage i st w = w\<lparr>sd_states := jset (sd_states w) i st\<rparr>"

definition log_event :: "string \<Rightarrow> StageEvent \<Rightarrow> nat option \<Rightarrow> unit step" where
  "log_event i ev n = via_store (\<lambda>_. appendStageEvent i ev n)"

definition replaying :: "scheduler \<Rightarrow> bool" where
  "replaying w = (fs_replay_id (sd_feedback w) \<noteq> None)"

definition retrying :: "scheduler \<Rightarrow> bool" where
  "retrying w = (sd_retry_roots w \<noteq> None)"

definition note_reason :: "string \<Rightarrow> scheduler \<Rightarrow> scheduler" where
  "note_reason reason w = (if sd_reason w = None then w\<lparr>sd_reason := Some reason\<rparr> else w)"

section \<open>Skipping\<close>

definition notifyRetryRootTerminal :: "string \<Rightarrow> StageScheduleState \<Rightarrow> scheduler \<Rightarrow> scheduler" where
  "notifyRetryRootTerminal i st w =
     (case sd_retry_roots w of
        None \<Rightarrow> w
      | Some rs \<Rightarrow> (case jget rs i of None \<Rightarrow> w | Some n \<Rightarrow> w\<lparr>sd_notified := sd_notified w @ [(i, n, st)]\<rparr>))"

definition skip_silently :: "(scheduler \<Rightarrow> skip_result \<Rightarrow> skip_result) \<Rightarrow> string list step" where
  "skip_silently f = (\<lambda>w. case f w (sd_states w, []) of (states, ids) \<Rightarrow>
     (Inr ids, foldl (\<lambda>w i. notifyRetryRootTerminal i Skipped w) (w\<lparr>sd_states := states\<rparr>) ids))"

definition skip_and_log :: "(scheduler \<Rightarrow> skip_result \<Rightarrow> skip_result) \<Rightarrow> unit step" where
  "skip_and_log f = chain (skip_silently f) (\<lambda>ids. for_each ids (\<lambda>i. log_event i EvSkipped None))"

text \<open>A condition that cannot be read halts the schedule.\<close>

definition missing_field :: "string \<Rightarrow> string" where
  "missing_field i = ''stage '' @ quoted i @ '': route if field missing from payload''"

definition skip_conditions :: "(scheduler \<Rightarrow> envelopes) \<Rightarrow> bool step" where
  "skip_conditions envs = (\<lambda>w.
     case applyEagerRouteIfSkipsFromEnvelopes (sd_dag w) (envs w) (sd_states w, []) of
       (r, missing) \<Rightarrow>
         chain (skip_and_log (\<lambda>_ _. r)) (\<lambda>_.
         case missing of
           None \<Rightarrow> done_with False
         | Some i \<Rightarrow> chain (change (\<lambda>w. note_reason (missing_field i) (w\<lparr>sd_halted := True\<rparr>))) (\<lambda>_. done_with True)) w)"

section \<open>Retries and repairs\<close>

definition apply_mutation :: "scheduler \<Rightarrow> string \<times> nat \<Rightarrow> scheduler" where
  "apply_mutation w d =
     (case applyRetryRootDelta (sd_dag w) (fst d) (snd d) (sd_launched w)
         (sd_states w, sd_envelopes w, or_else (sd_retry_roots w) []) of
        (states, envs, rs) \<Rightarrow>
          w\<lparr>sd_states := states, sd_envelopes := envs, sd_retry_roots := Some rs, sd_halted := False\<rparr>)"

definition drainRetryMutations :: "scheduler \<Rightarrow> scheduler" where
  "drainRetryMutations w =
     (case (sd_mutations w, sd_retry_roots w) of
        (Some ds, Some _) \<Rightarrow> foldl apply_mutation (w\<lparr>sd_mutations := Some []\<rparr>) ds
      | _ \<Rightarrow> w)"

definition recordCloneFailureEnvelope :: "string \<Rightarrow> string \<Rightarrow> StageEnvelope option \<Rightarrow> unit step" where
  "recordCloneFailureEnvelope i reason envelope = (\<lambda>w.
     if \<not> isCloneInstance (sd_dag w) i
     then (Inr (), case envelope of None \<Rightarrow> w | Some e \<Rightarrow> w\<lparr>sd_envelopes := jset (sd_envelopes w) i e\<rparr>)
     else
       let e = (case envelope of Some e \<Rightarrow> e | None \<Rightarrow> or_else (jget (sd_envelopes w) i) (failure_envelope reason)) in
       chain (change (\<lambda>w. w\<lparr>sd_envelopes := jset (sd_envelopes w) i e\<rparr>)) (\<lambda>_.
       if envelope = None then via_store (\<lambda>_. attempt (writeEnvelope i e None)) else done_with ()) w)"

definition startNextAttempt :: "string \<Rightarrow> unit step" where
  "startNextAttempt i =
     chain (via_store (\<lambda>_. createStageExecution i)) (\<lambda>e.
     chain (change (\<lambda>w. w\<lparr>sd_retry_roots := map_option (\<lambda>rs. jset rs i (ex_attempt e)) (sd_retry_roots w)\<rparr>)) (\<lambda>_.
     chain (provided replaying
       (chain (via_store (\<lambda>w. rebindRouteAttempts [(i, ex_attempt e)] (sd_feedback w))) (\<lambda>fb.
        change (\<lambda>w. w\<lparr>sd_feedback := fb\<rparr>)))) (\<lambda>_.
     change (\<lambda>w. (set_stage i Pending w)\<lparr>sd_envelopes := jdel (sd_envelopes w) i\<rparr>))))"

definition repair_limit :: "ResolvedPipelineDag \<Rightarrow> string \<Rightarrow> int option" where
  "repair_limit dag i = (case Option.bind (find_node dag i) recovery of
     Some (Repair limit _) \<Rightarrow> Some limit | _ \<Rightarrow> None)"

definition scheduleAutomaticRepair :: "string \<Rightarrow> bool step" where
  "scheduleAutomaticRepair i = (\<lambda>w.
     case repair_limit (sd_dag w) i of
       None \<Rightarrow> (Inr False, w)
     | Some limit \<Rightarrow>
         chain (via_store (\<lambda>_. getLatestStageExecution i)) (\<lambda>latest.
         if map_option ex_verification_outcome latest \<noteq> Some VFailed then done_with False
         else chain (via_store (\<lambda>_. countStageAttempts i)) (\<lambda>n.
           if int n \<ge> limit then done_with False
           else chain (startNextAttempt i) (\<lambda>_. done_with True))) w)"

definition blocked_stage_max_attempts :: nat where
  "blocked_stage_max_attempts = 2"

definition retryBlockedStage :: "string \<Rightarrow> bool \<Rightarrow> bool step" where
  "retryBlockedStage i switched =
     (if \<not> switched then done_with False
      else chain (via_store (\<lambda>_. countStageAttempts i)) (\<lambda>n.
        if n \<ge> blocked_stage_max_attempts then done_with False
        else chain (startNextAttempt i) (\<lambda>_. done_with True)))"

section \<open>A stage has failed\<close>

text \<open>The failure of a clone lets the schedule go on; it only skips behind the clone.\<close>

definition clone_failed :: "string \<Rightarrow> string \<Rightarrow> unit step" where
  "clone_failed i reason =
     chain (change (note_reason reason)) (\<lambda>_.
     chain (skip_and_log (\<lambda>w. skip_each (sd_dag w) (cloneFailFastSkipIds (sd_dag w) i))) (\<lambda>_.
     provided retrying (change drainRetryMutations)))"

definition branch_failed :: "string \<Rightarrow> string \<Rightarrow> unit step" where
  "branch_failed i reason = (\<lambda>w.
     let accepted = failureIsAccepted (sd_dag w) i (sd_states w) in
     chain (if accepted then done_with []
            else skip_silently (\<lambda>w. markBranchDownstreamSkipped (sd_dag w) i)) (\<lambda>_.
     chain (change drainRetryMutations) (\<lambda>_.
     chain (provided (\<lambda>w. \<not> accepted \<and> \<not> hasWorkOutsideBranch (sd_dag w) i (sd_states w) (sd_retry_roots w)
              (map_option (\<lambda>ds. jset_of (map fst ds)) (sd_mutations w)))
            (change (\<lambda>w. w\<lparr>sd_halted := True\<rparr>))) (\<lambda>_.
     provided (\<lambda>_. \<not> accepted) (change (note_reason reason))))) w)"

definition run_failed :: "string \<Rightarrow> string \<Rightarrow> unit step" where
  "run_failed i reason =
     provided (\<lambda>w. \<not> failureIsAccepted (sd_dag w) i (sd_states w) \<and> \<not> sd_halted w)
       (change (\<lambda>w. w\<lparr>sd_halted := True, sd_reason := Some reason\<rparr>))"

definition stage_failed :: "string \<Rightarrow> string \<Rightarrow> StageEnvelope option \<Rightarrow> unit step" where
  "stage_failed i reason envelope =
     chain (provided replaying (via_store (\<lambda>w. onRouteStageFailed (sd_feedback w) i))) (\<lambda>_.
     chain (change (\<lambda>w. notifyRetryRootTerminal i Failed (set_stage i Failed w))) (\<lambda>_.
     chain (recordCloneFailureEnvelope i reason envelope) (\<lambda>_.
     chain (skip_and_log (\<lambda>w. persistSkipRejected (sd_dag w) i NtFailed)) (\<lambda>_ w.
       if cloneFailureContinuesSchedule (sd_dag w) i then clone_failed i reason w
       else if retrying w then branch_failed i reason w
       else run_failed i reason w))))"

definition onStageFailure :: "string \<Rightarrow> string \<Rightarrow> StageEnvelope option \<Rightarrow> unit step" where
  "onStageFailure i reason envelope =
     chain (scheduleAutomaticRepair i) (\<lambda>repaired.
     if repaired then done_with () else stage_failed i reason envelope)"

definition handlePostSuccessError :: "string \<Rightarrow> string \<Rightarrow> unit step" where
  "handlePostSuccessError i reason =
     chain (provided (\<lambda>w. jget (sd_states w) i = Some Succeeded)
       (chain (change (\<lambda>w. w\<lparr>sd_envelopes := jdel (sd_envelopes w) i\<rparr>)) (\<lambda>_.
        log_event i (EvFailed reason) None))) (\<lambda>_.
     onStageFailure i reason None)"

section \<open>A stage has succeeded\<close>

definition adopt_clones :: "run_config \<Rightarrow> string \<Rightarrow> ResolvedPipelineDag \<Rightarrow> string \<Rightarrow> string list \<Rightarrow> unit step" where
  "adopt_clones cfg i dag catalogChild ids =
     chain (change (\<lambda>w. w\<lparr>sd_dag := dag\<rparr>)) (\<lambda>_.
     chain (via_store (\<lambda>_. updatePipelineDag dag)) (\<lambda>_.
     chain (change (\<lambda>w. w\<lparr>sd_states := foldl (\<lambda>m c. jset m c Pending) (jdel (sd_states w) catalogChild) ids\<rparr>)) (\<lambda>_.
     provided replaying
       (chain (change (\<lambda>w. w\<lparr>sd_feedback := noteActiveCohort i ids (sd_feedback w)\<rparr>)) (\<lambda>_.
        chain (via_store (\<lambda>w. mintCohortForFanout (cf_uuid cfg) (fs_replay_id (sd_feedback w)) i ids)) (\<lambda>_.
        done_with ()))))))"

definition view_of :: "scheduler \<Rightarrow> replay_view" where
  "view_of w = \<lparr>rv_states = sd_states w, rv_envelopes = sd_envelopes w, rv_feedback = sd_feedback w\<rparr>"

definition put_view :: "replay_view \<Rightarrow> scheduler \<Rightarrow> scheduler" where
  "put_view v w = w\<lparr>sd_states := rv_states v, sd_envelopes := rv_envelopes v, sd_feedback := rv_feedback v\<rparr>"

text \<open>A parked stage stays in flight until a decision comes.\<close>

definition park_or_leave :: "run_config \<Rightarrow> string \<Rightarrow> string \<Rightarrow> ResolvedPipelineStageNode \<Rightarrow> flight option step" where
  "park_or_leave cfg i loopId n =
     chain (change (set_stage i Waiting)) (\<lambda>_. done_with (if cf_parks cfg then Some (Parked loopId n) else None))"

definition after_send_back ::
  "run_config \<Rightarrow> string \<Rightarrow> ResolvedPipelineStageNode \<Rightarrow> nat \<Rightarrow> ReplayApplyResult \<Rightarrow> flight option step" where
  "after_send_back cfg i n k applied =
     (case applied of
        RaRejected reason \<Rightarrow> chain (handlePostSuccessError i reason) (\<lambda>_. done_with None)
      | RaWaitingForHuman loop _ _ _ \<Rightarrow>
          chain (log_event i EvWaitingForInput (Some k)) (\<lambda>_.
          chain (via_store (\<lambda>_. attempt (updateStageExecution i k (no_patch\<lparr>ep_status := Some SsWaitingForInput\<rparr>)))) (\<lambda>_.
          park_or_leave cfg i (lr_loop_id loop) n))
      | RaApplied _ _ retired _ \<Rightarrow>
          chain (for_each retired (\<lambda>c. log_event c EvSkipped None)) (\<lambda>_. done_with None)
      | RaIdempotent _ _ retired _ \<Rightarrow>
          chain (for_each retired (\<lambda>c. log_event c EvSkipped None)) (\<lambda>_. done_with None))"

definition send_back_from ::
  "run_config \<Rightarrow> string \<Rightarrow> StageEnvelope \<Rightarrow> ResolvedPipelineStageNode \<Rightarrow> flight option step" where
  "send_back_from cfg i envelope n =
     chain (via_store (\<lambda>_. getLatestStageExecution i)) (\<lambda>latest.
     let k = or_else (map_option ex_attempt latest) 1 in
     chain (via_store (\<lambda>w. applySendBack (cf_uuid cfg) (sd_dag w) n k envelope (view_of w))) (\<lambda>(applied, v).
     chain (change (put_view v)) (\<lambda>_.
     after_send_back cfg i n k applied)))"

definition on_send_back :: "run_config \<Rightarrow> string \<Rightarrow> StageEnvelope \<Rightarrow> flight option step" where
  "on_send_back cfg i envelope = (\<lambda>w.
     let refuse = chain (handlePostSuccessError i
           (''feedback_loop send_back from stage '' @ quoted i @ '' without feedback_loop policy'')) (\<lambda>_. done_with None) in
     case find_node (sd_dag w) i of
       None \<Rightarrow> refuse w
     | Some n \<Rightarrow> if feedback_loop n = None then refuse w else send_back_from cfg i envelope n w)"

text \<open>\<open>True\<close> when the choice is refused, because it would cut off the source of the running replay.\<close>

definition on_fork_choice :: "string \<Rightarrow> StageEnvelope \<Rightarrow> bool step" where
  "on_fork_choice i envelope = (\<lambda>w.
     if Option.bind (find_node (sd_dag w) i) fork = None then (Inr False, w)
     else
       let chosen = stored_fork_choice envelope;
           cut_off = (case fs_source (sd_feedback w) of
             None \<Rightarrow> None
           | Some src \<Rightarrow> if replaying w \<and> \<not> forkChoicePreservesReplaySource (sd_dag w) chosen src then Some src else None)
       in case cut_off of
         Some src \<Rightarrow> chain (handlePostSuccessError i
           (''fork_choice during feedback replay must preserve a path to source '' @ quoted src)) (\<lambda>_. done_with True) w
       | None \<Rightarrow> chain (skip_and_log (\<lambda>w. applyForkChoiceToSchedule (sd_dag w) i chosen
             (protectedClonableChildIds (sd_dag w) i))) (\<lambda>_. done_with False) w)"

definition on_forward_success :: "string \<Rightarrow> StageEnvelope \<Rightarrow> unit step" where
  "on_forward_success i envelope =
     chain (if env_feedback_loop envelope = Some Continue
            then chain (via_store (\<lambda>w. onContinued i envelope (sd_feedback w))) (\<lambda>fb. change (\<lambda>w. w\<lparr>sd_feedback := fb\<rparr>))
            else provided replaying (chain (via_store (\<lambda>w. onRouteStageSucceeded i envelope (sd_feedback w))) (\<lambda>fb.
              change (\<lambda>w. w\<lparr>sd_feedback := fb\<rparr>)))) (\<lambda>_.
     chain (on_fork_choice i envelope) (\<lambda>refused.
     if refused then done_with ()
     else chain (skip_conditions (\<lambda>_. [(i, envelope)])) (\<lambda>missing.
       if missing then done_with ()
       else chain (via_store (\<lambda>w. reopenRunnableSkippedStages (sd_dag w) (sd_states w) (sd_envelopes w))) (\<lambda>states.
         change (\<lambda>w. w\<lparr>sd_states := states\<rparr>)))))"

definition after_mint :: "run_config \<Rightarrow> string \<Rightarrow> StageEnvelope \<Rightarrow> flight option step" where
  "after_mint cfg i envelope =
     (case env_feedback_loop envelope of
        Some (SendBack _) \<Rightarrow> on_send_back cfg i envelope
      | _ \<Rightarrow> chain (on_forward_success i envelope) (\<lambda>_. done_with None))"

definition onStageSuccess :: "run_config \<Rightarrow> string \<Rightarrow> StageEnvelope \<Rightarrow> flight option step" where
  "onStageSuccess cfg i envelope =
     chain (change (\<lambda>w. notifyRetryRootTerminal i Succeeded
       ((set_stage i Succeeded w)\<lparr>sd_envelopes := jset (sd_envelopes w) i envelope\<rparr>))) (\<lambda>_ w.
     case mint (sd_dag w) i envelope of
       Inl e \<Rightarrow> (Inl (CloneFault e), w)
     | Inr (MintError reason) \<Rightarrow> chain (handlePostSuccessError i reason) (\<lambda>_. done_with None) w
     | Inr MintNone \<Rightarrow> after_mint cfg i envelope w
     | Inr (Minted dag catalogChild ids) \<Rightarrow>
         chain (adopt_clones cfg i dag catalogChild ids) (\<lambda>_. after_mint cfg i envelope) w)"

text \<open>The rest of the handler of a parked stage, once the operator has decided or given up.\<close>

definition on_decision ::
  "run_config \<Rightarrow> string \<Rightarrow> string \<Rightarrow> ResolvedPipelineStageNode \<Rightarrow>
   (FeedbackLoopDecisionKind \<times> string option) option \<Rightarrow> unit step" where
  "on_decision cfg i loopId n decision =
     (case decision of
        None \<Rightarrow> done_with ()
      | Some (kind, reason) \<Rightarrow>
          chain (via_store (\<lambda>w. resolveDecision (cf_uuid cfg) kind (Some loopId) reason (sd_dag w) n (view_of w)))
            (\<lambda>(result, v).
          chain (change (put_view v)) (\<lambda>_.
          case result of
            DecError why \<Rightarrow> handlePostSuccessError i why
          | DecAbandoned _ why \<Rightarrow> change (\<lambda>w. note_reason why (w\<lparr>sd_halted := True\<rparr>))
          | _ \<Rightarrow> done_with ())))"

end
