(* ===== verification/Scheduler_Run.thy ===== *)
theory Scheduler_Run
  imports Scheduler
begin

text \<open>
  The main loop of \<open>runPipelineDag\<close> and its start, the life of a started stage, and the result of
  the run.  The loop and the stages in flight are interleaved: \<open>sched_step\<close> is one round of the
  loop, one move of a stage in flight, or one event from outside.  Between two awaits of one
  handler nothing else runs in the model.
\<close>

section \<open>The start of a run\<close>

record run_options =
  op_schedule :: "HydratedSchedule option"
  op_retry_roots :: "(string, nat) jsmap option"
  op_mutation_queue :: bool
  op_resume_from :: "string option"
  op_initial_prior :: "StageEnvelope option"
  op_start_at :: "nat option"

fun cascade_attempts :: "string list \<Rightarrow> string list \<Rightarrow> (string, nat) jsmap \<Rightarrow> (string, nat) jsmap action" where
  "cascade_attempts route [] m = return m"
| "cascade_attempts route (i # ids) m =
     (if i \<notin> set route then cascade_attempts route ids m
      else if jhas m i then cascade_attempts route ids m
      else andThen (createStageExecution i) (\<lambda>e. cascade_attempts route ids (jset m i (ex_attempt e))))"

definition rebind_for_retry ::
  "ResolvedPipelineDag \<Rightarrow> (string, nat) jsmap option \<Rightarrow> FeedbackScheduleState \<Rightarrow> FeedbackScheduleState action" where
  "rebind_for_retry dag retryRoots fb =
     (case retryRoots of
        None \<Rightarrow> return fb
      | Some rs \<Rightarrow>
          if fs_replay_id fb = None then return fb
          else let route = jkeys (lm_contexts (fs_launch fb)) in
            andThen (cascade_attempts route (cloneRetryDownstream dag (jkeys rs)) (List.filter (\<lambda>(i, n). i \<in> set route) rs))
              (\<lambda>overrides. rebindRouteAttempts overrides fb))"

definition boot :: "run_config \<Rightarrow> run_options \<Rightarrow> ResolvedPipelineDag \<Rightarrow> scheduler action" where
  "boot cfg opts fallback =
     andThen (case op_schedule opts of Some h \<Rightarrow> return h | None \<Rightarrow> hydrateScheduleFromStore fallback (cf_mode cfg)) (\<lambda>h.
     andThen (gets (\<lambda>s. case hs_dag h of Some d \<Rightarrow> d | None \<Rightarrow> or_else (rs_dag s) fallback)) (\<lambda>dag.
     andThen (hydrateActiveFeedbackScheduleFromStore dag createFeedbackScheduleState) (\<lambda>(_, fb).
     andThen (rebind_for_retry dag (op_retry_roots opts) fb) (\<lambda>fb.
     gets (\<lambda>s. \<lparr>sd_store = s, sd_dag = dag, sd_states = hs_states h, sd_envelopes = hs_completed h,
       sd_halted = hs_halted h, sd_reason = hs_reason h, sd_feedback = fb,
       sd_retry_roots = op_retry_roots opts, sd_mutations = (if op_mutation_queue opts then Some [] else None),
       sd_launched = [], sd_active = 0, sd_in_flight = [], sd_notified = [], sd_halt_requested = False,
       sd_host_shutdown = False, sd_control = Looping\<rparr>)))))"

definition load_envelope :: "string \<Rightarrow> scheduler \<Rightarrow> scheduler" where
  "load_envelope i w =
     (case fst (readEnvelope i None (sd_store w)) of
        Inl _ \<Rightarrow> w | Inr e \<Rightarrow> w\<lparr>sd_envelopes := jset (sd_envelopes w) i e\<rparr>)"

definition mark_done :: "string \<Rightarrow> scheduler \<Rightarrow> scheduler" where
  "mark_done i w =
     (let w = set_stage i Succeeded w in if jhas (sd_envelopes w) i then w else load_envelope i w)"

definition resume_at :: "run_options \<Rightarrow> scheduler \<Rightarrow> scheduler" where
  "resume_at opts w =
     (case op_resume_from opts of
        None \<Rightarrow> w
      | Some i \<Rightarrow>
          (case op_initial_prior opts of
             Some e \<Rightarrow> (set_stage i Succeeded w)\<lparr>sd_envelopes := jset (sd_envelopes w) i e\<rparr>
           | None \<Rightarrow> mark_done i w))"

definition skip_ahead :: "run_options \<Rightarrow> scheduler \<Rightarrow> scheduler" where
  "skip_ahead opts w =
     (case op_start_at opts of
        None \<Rightarrow> w
      | Some k \<Rightarrow> foldl (\<lambda>w n. if stageIndex n < k then mark_done (node_id n) w else w) w (nodes (sd_dag w)))"

definition prepare :: "run_options \<Rightarrow> unit step" where
  "prepare opts =
     chain (change (\<lambda>w. let w = skip_ahead opts (resume_at opts w) in
       w\<lparr>sd_states := applyForkSkipsFromEnvelopes (sd_dag w) (sd_envelopes w) (sd_states w)\<rparr>)) (\<lambda>_.
     chain (skip_and_log (\<lambda>w. apply_failed_clone_skips (sd_dag w))) (\<lambda>_.
     chain (skip_conditions sd_envelopes) (\<lambda>_. done_with ())))"

definition crash_on_fault :: "unit step \<Rightarrow> scheduler \<Rightarrow> scheduler" where
  "crash_on_fault m w = (case m w of (Inl e, w') \<Rightarrow> w'\<lparr>sd_control := Crashed e\<rparr> | (Inr _, w') \<Rightarrow> w')"

text \<open>The error is one of the store, thrown before there is a schedule.\<close>

definition start_run ::
  "run_config \<Rightarrow> run_options \<Rightarrow> ResolvedPipelineDag \<Rightarrow> run_store \<Rightarrow> store_error + scheduler" where
  "start_run cfg opts fallback s =
     (case boot cfg opts fallback s of
        (Inl e, _) \<Rightarrow> Inl e | (Inr w, _) \<Rightarrow> Inr (crash_on_fault (prepare opts) w))"

section \<open>Starting stages\<close>

definition startStage :: "string \<Rightarrow> scheduler \<Rightarrow> scheduler" where
  "startStage i w =
     (if jget (sd_states w) i \<noteq> Some Pending then w
      else (set_stage i Active w)\<lparr>sd_launched := jadd (sd_launched w) i, sd_active := sd_active w + 1,
        sd_in_flight := sd_in_flight w @ [(i, Starting)]\<rparr>)"

fun start_stages :: "int \<Rightarrow> string list \<Rightarrow> scheduler \<Rightarrow> scheduler" where
  "start_stages cap [] w = w"
| "start_stages cap (i # ids) w = (if sd_active w \<ge> cap then w else start_stages cap ids (startStage i w))"

definition runnable :: "scheduler \<Rightarrow> string list" where
  "runnable w = pickRunnable (sd_dag w) (sd_states w) (sd_halted w) (sd_envelopes w) (fs_hold (sd_feedback w))"

definition obey_halt :: "scheduler \<Rightarrow> scheduler" where
  "obey_halt w = (if sd_halt_requested w then w\<lparr>sd_halted := True\<rparr> else w)"

definition tick :: "run_config \<Rightarrow> unit step" where
  "tick cfg =
     chain (change (\<lambda>w. drainRetryMutations (obey_halt w))) (\<lambda>_.
     chain (skip_and_log (\<lambda>w. applyStalledJoinSkips (sd_dag w) (sd_envelopes w))) (\<lambda>_.
     change (\<lambda>w. let w = obey_halt w in if sd_halted w then w else start_stages (cf_cap cfg) (runnable w) w)))"

definition skip_rest :: "scheduler \<Rightarrow> scheduler" where
  "skip_rest w = snd (skip_silently (\<lambda>w. markSkippedPending (sd_dag w)) w)"

text \<open>With nothing in flight the loop ends, unless a stage can run and the cap let none start.\<close>

definition after_tick :: "scheduler \<Rightarrow> scheduler" where
  "after_tick w =
     (if sd_in_flight w \<noteq> [] then w
      else if sd_halted w then (skip_rest w)\<lparr>sd_control := Draining\<rparr>
      else if runnable w = [] then w\<lparr>sd_control := Draining\<rparr>
      else w)"

definition loop_round :: "run_config \<Rightarrow> scheduler \<Rightarrow> scheduler" where
  "loop_round cfg w =
     (if allTerminal (sd_dag w) (sd_states w) then w\<lparr>sd_control := Draining\<rparr>
      else case tick cfg w of
        (Inl e, w') \<Rightarrow> w'\<lparr>sd_control := Crashed e\<rparr>
      | (Inr _, w') \<Rightarrow> after_tick w')"

section \<open>A stage in flight\<close>

definition resolveLaunchAttempt :: "string \<Rightarrow> nat step" where
  "resolveLaunchAttempt i = (\<lambda>w.
     case launchAttemptFor (sd_feedback w) i of
       Some n \<Rightarrow> (Inr n, w)
     | None \<Rightarrow>
         (case sd_retry_roots w of
            Some rs \<Rightarrow>
              (case jget rs i of
                 Some n \<Rightarrow> (Inr n, w)
               | None \<Rightarrow> chain (via_store (\<lambda>_. createStageExecution i)) (\<lambda>e. done_with (ex_attempt e)) w)
          | None \<Rightarrow>
              chain (via_store (\<lambda>_. getLatestStageExecution i)) (\<lambda>latest.
              case latest of
                Some e \<Rightarrow> done_with (ex_attempt e)
              | None \<Rightarrow> chain (via_store (\<lambda>_. createStageExecution i)) (\<lambda>e. done_with (ex_attempt e))) w))"

text \<open>With its attempt, and its browser profile if it asks for one, the stage is executed.\<close>

definition begin_attempt :: "string \<Rightarrow> nat \<Rightarrow> flight option step" where
  "begin_attempt i n =
     chain (provided (\<lambda>w. replaying w \<and> Option.bind (launchFor (sd_feedback w) i) sl_context \<noteq> None)
       (via_store (\<lambda>w. onRouteStageRunning (sd_feedback w) i))) (\<lambda>_. done_with (Some (Executing n)))"

text \<open>The attempt whose session file a resumed stage continues.\<close>

definition resume_attempt :: "FeedbackScheduleState \<Rightarrow> string \<Rightarrow> nat option" where
  "resume_attempt fb i =
     (case launchFor fb i of
        None \<Rightarrow> None
      | Some p \<Rightarrow> if sl_session_mode p = Some ModeFeedbackResume then sl_prior_attempt p else None)"

definition launchStage :: "run_config \<Rightarrow> string \<Rightarrow> flight option step" where
  "launchStage cfg i = (\<lambda>w.
     let d = definitionIdForInstance (sd_dag w) i in
     if \<not> cf_stages cfg d
     then chain (onStageFailure i (''stage config missing for '' @ quoted i) None) (\<lambda>_. done_with None) w
     else chain (resolveLaunchAttempt i) (\<lambda>n.
       if cf_profiles cfg d then done_with (Some (Acquiring n False)) else begin_attempt i n) w)"

text \<open>
  The lease of a browser profile.  A stage behind another run's lease gives its slot up and takes
  it back, whatever the slots then in use, once it joins the lease or the run is halted.
\<close>

definition shift_active :: "int \<Rightarrow> scheduler \<Rightarrow> scheduler" where
  "shift_active k w = w\<lparr>sd_active := sd_active w + k\<rparr>"

definition profileBusy :: "string \<Rightarrow> nat \<Rightarrow> bool \<Rightarrow> flight option step" where
  "profileBusy i n released =
     chain (change (shift_active (if released then 0 else - 1))) (\<lambda>_.
     rescue (chain (log_event i (EvOther ''message'') (Some n)) (\<lambda>_. done_with (Some (Acquiring n True))))
       (\<lambda>e. chain (change (shift_active 1)) (\<lambda>_. raise_fault e)))"

definition profileJoined :: "string \<Rightarrow> nat \<Rightarrow> bool \<Rightarrow> flight option step" where
  "profileJoined i n released =
     chain (change (shift_active (if released then 1 else 0))) (\<lambda>_. begin_attempt i n)"

definition profileHalted :: "string \<Rightarrow> bool \<Rightarrow> flight option step" where
  "profileHalted i released =
     chain (change (\<lambda>w. set_stage i Skipped (shift_active (if released then 1 else 0) w))) (\<lambda>_. done_with None)"

text \<open>
  What comes back from a stage: it could not be set up; the process launcher's result; the result
  of a stage run in process; or an exception of the launcher.  The flag of a failure says that the
  browser host moved the stage's profile because a site blocked it.
\<close>

datatype outcome =
    SetupFailed string
  | LaunchSucceeded
  | LaunchWaiting
  | LaunchFailed string bool
  | RanWaiting
  | RanFailed "string option" "StageEnvelope option" bool
  | RanOk "StageEnvelope option"
  | Threw string

definition succeed_or_fail :: "run_config \<Rightarrow> string \<Rightarrow> flight option step \<Rightarrow> flight option step" where
  "succeed_or_fail cfg i m =
     rescue m (\<lambda>e. chain (handlePostSuccessError i (cf_message cfg e)) (\<lambda>_. done_with None))"

definition fail_or_retry :: "string \<Rightarrow> string \<Rightarrow> StageEnvelope option \<Rightarrow> bool \<Rightarrow> unit step" where
  "fail_or_retry i reason envelope switched =
     chain (retryBlockedStage i switched) (\<lambda>again.
     if again then done_with () else onStageFailure i reason envelope)"

definition log_failure :: "string \<Rightarrow> nat \<Rightarrow> string \<Rightarrow> unit step" where
  "log_failure i n reason = (\<lambda>w.
     if list_ex (\<lambda>e. case e of EvFailed _ \<Rightarrow> True | _ \<Rightarrow> False) (listStageEvents i (Some n) (sd_store w))
     then (Inr (), w) else log_event i (EvFailed reason) (Some n) w)"

definition finishStage :: "run_config \<Rightarrow> string \<Rightarrow> nat \<Rightarrow> outcome \<Rightarrow> flight option step" where
  "finishStage cfg i n result = (\<lambda>w.
     case result of
       SetupFailed reason \<Rightarrow> chain (onStageFailure i reason None) (\<lambda>_. done_with None) w
     | Threw reason \<Rightarrow> (Inl (ExternalFault reason), w)
     | LaunchSucceeded \<Rightarrow>
         succeed_or_fail cfg i (chain (via_store (\<lambda>_. readEnvelope i None)) (onStageSuccess cfg i)) w
     | LaunchWaiting \<Rightarrow> (Inr None, set_stage i Waiting w)
     | LaunchFailed reason switched \<Rightarrow>
         if sd_host_shutdown w then (Inr None, set_stage i Waiting w)
         else chain (log_failure i n reason) (\<lambda>_.
              chain (fail_or_retry i reason None switched) (\<lambda>_. done_with None)) w
     | RanWaiting \<Rightarrow>
         chain (onStageFailure i ''stage entered wait without worker dispatch'' None) (\<lambda>_. done_with None) w
     | RanFailed reason envelope switched \<Rightarrow>
         if sd_host_shutdown w then (Inr None, set_stage i Waiting w)
         else chain (fail_or_retry i (or_else reason ''stage failed'') envelope switched) (\<lambda>_. done_with None) w
     | RanOk envelope \<Rightarrow>
         (case envelope of
            Some e \<Rightarrow> succeed_or_fail cfg i (onStageSuccess cfg i e) w
          | None \<Rightarrow> (Inr None, notifyRetryRootTerminal i Succeeded (set_stage i Succeeded w))))"

section \<open>The result of the run\<close>

definition writeTerminalRunStatus :: "RunStatus \<Rightarrow> unit action" where
  "writeTerminalRunStatus status =
     andThen (gets rs_status) (\<lambda>st. if st = RunCancelled then return () else updateRunStatus status)"

definition syncRunStatusFromStages :: "unit action" where
  "syncRunStatusFromStages =
     andThen (gets (\<lambda>s. (rs_status s, deriveStatusFromStages (readRun_stages s) (map_option nodes (rs_dag s)) (Some (rs_status s)))))
       (\<lambda>(st, derived).
        if st = RunSucceeded \<and> derived \<noteq> RunRunning then return ()
        else if st \<noteq> derived then updateRunStatus derived
        else return ())"

definition has_waiting :: "sched_states \<Rightarrow> bool" where
  "has_waiting states = list_ex (\<lambda>(_, st). st = Waiting) states"

definition conclude :: "PipelineRunResult step" where
  "conclude = (\<lambda>w.
     if has_waiting (sd_states w) \<and> \<not> sd_halted w then (Inr (ResWaiting None), w)
     else if sd_halted w then
       chain (change skip_rest) (\<lambda>_.
       chain (provided (\<lambda>w. \<not> retrying w) (via_store (\<lambda>w.
         if sd_host_shutdown w then syncRunStatusFromStages else writeTerminalRunStatus RunFailed))) (\<lambda>_.
       look (\<lambda>w. if sd_host_shutdown w then ResWaiting (sd_reason w) else ResFailed (sd_reason w)))) w
     else if scheduleHasUnhandledFailure (sd_dag w) (sd_states w) \<or> \<not> allTerminal (sd_dag w) (sd_states w) then
       chain (provided (\<lambda>w. \<not> retrying w) (via_store (\<lambda>_. writeTerminalRunStatus RunFailed))) (\<lambda>_.
       look (\<lambda>w. ResFailed (Some (or_else (sd_reason w) ''pipeline incomplete'')))) w
     else chain (via_store (\<lambda>_. writeTerminalRunStatus RunSucceeded)) (\<lambda>_. done_with ResSucceeded) w)"

definition end_run :: "scheduler \<Rightarrow> scheduler" where
  "end_run w = (case conclude w of
     (Inl e, w') \<Rightarrow> w'\<lparr>sd_control := Crashed e\<rparr> | (Inr r, w') \<Rightarrow> w'\<lparr>sd_control := Ended r\<rparr>)"

text \<open>\<open>resumeRun\<close> answers at once when the resumed stage was the last; \<open>None\<close> goes on to \<open>runPipelineDag\<close>.\<close>

definition resumeRun ::
  "run_config \<Rightarrow> ResolvedPipelineDag \<Rightarrow> string \<Rightarrow> StageEnvelope option \<Rightarrow> PipelineRunResult option action" where
  "resumeRun cfg fallback resumeFrom prior =
     andThen (gets (\<lambda>s. or_else (rs_dag s) fallback)) (\<lambda>dag.
     if children_of dag resumeFrom \<noteq> [] then return None
     else andThen (hydrateScheduleFromStore dag (cf_mode cfg)) (\<lambda>h.
       let states = jset (hs_states h) resumeFrom Succeeded in
       if list_ex (\<lambda>(_, st). st = Active) states then return (Some (ResWaiting None))
       else if allTerminal dag states then
         let unhandled = scheduleHasUnhandledFailure dag states in
         andThen (writeTerminalRunStatus (if unhandled then RunFailed else RunSucceeded)) (\<lambda>_.
         return (Some (if unhandled then ResFailed (Some (or_else (hs_reason h) ''pipeline incomplete'')) else ResSucceeded)))
       else return None))"

definition retryRun ::
  "run_config \<Rightarrow> ResolvedPipelineDag \<Rightarrow> (string, nat) jsmap \<Rightarrow> bool \<Rightarrow> run_store \<Rightarrow> store_error + scheduler" where
  "retryRun cfg fallback retryRoots queue s =
     (case hydrateScheduleForRetryRoots fallback (jkeys retryRoots) s of
        (Inl e, _) \<Rightarrow> Inl e
      | (Inr h, s') \<Rightarrow> start_run cfg \<lparr>op_schedule = Some h, op_retry_roots = Some retryRoots,
          op_mutation_queue = queue, op_resume_from = None, op_initial_prior = None, op_start_at = None\<rparr> fallback s')"

section \<open>The run as a transition system\<close>

text \<open>A handler that has ended leaves the set of the stages in flight, also when it throws.\<close>

definition land :: "string \<times> flight \<Rightarrow> scheduler \<Rightarrow> scheduler" where
  "land entry w = w\<lparr>sd_active := sd_active w - 1, sd_in_flight := remove1 entry (sd_in_flight w)\<rparr>"

definition run_handler :: "string \<times> flight \<Rightarrow> flight option step \<Rightarrow> scheduler \<Rightarrow> scheduler" where
  "run_handler entry m w = (case m w of
     (Inl e, w') \<Rightarrow> (land entry w')\<lparr>sd_control := Crashed e\<rparr>
   | (Inr None, w') \<Rightarrow> land entry w'
   | (Inr (Some f), w') \<Rightarrow> w'\<lparr>sd_in_flight := remove1 entry (sd_in_flight w') @ [(fst entry, f)]\<rparr>)"

datatype move =
    Round
  | Launch string
  | ProfileBusy string nat bool
  | ProfileJoined string nat bool
  | ProfileHalted string nat bool
  | Finish string nat outcome
  | Decide string string ResolvedPipelineStageNode "(FeedbackLoopDecisionKind \<times> string option) option"
  | Conclude
  | RequestHalt bool
  | RequestRetry string nat

definition live :: "scheduler \<Rightarrow> bool" where
  "live w = (sd_control w = Looping \<or> sd_control w = Draining)"

fun enabled :: "scheduler \<Rightarrow> move \<Rightarrow> bool" where
  "enabled w Round = (sd_control w = Looping)"
| "enabled w (Launch i) = (live w \<and> (i, Starting) \<in> set (sd_in_flight w))"
| "enabled w (ProfileBusy i n r) = (live w \<and> (i, Acquiring n r) \<in> set (sd_in_flight w))"
| "enabled w (ProfileJoined i n r) = (live w \<and> (i, Acquiring n r) \<in> set (sd_in_flight w))"
| "enabled w (ProfileHalted i n r) = (live w \<and> sd_halt_requested w \<and> (i, Acquiring n r) \<in> set (sd_in_flight w))"
| "enabled w (Finish i n result) = (live w \<and> (i, Executing n) \<in> set (sd_in_flight w))"
| "enabled w (Decide i loopId n d) = (live w \<and> (i, Parked loopId n) \<in> set (sd_in_flight w))"
| "enabled w Conclude = (sd_control w = Draining \<and> sd_in_flight w = [])"
| "enabled w (RequestHalt shutdown) = live w"
| "enabled w (RequestRetry i n) = (live w \<and> sd_mutations w \<noteq> None)"

fun perform :: "run_config \<Rightarrow> move \<Rightarrow> scheduler \<Rightarrow> scheduler" where
  "perform cfg Round w = loop_round cfg w"
| "perform cfg (Launch i) w = run_handler (i, Starting) (launchStage cfg i) w"
| "perform cfg (ProfileBusy i n r) w = run_handler (i, Acquiring n r) (profileBusy i n r) w"
| "perform cfg (ProfileJoined i n r) w = run_handler (i, Acquiring n r) (profileJoined i n r) w"
| "perform cfg (ProfileHalted i n r) w = run_handler (i, Acquiring n r) (profileHalted i r) w"
| "perform cfg (Finish i n result) w = run_handler (i, Executing n) (finishStage cfg i n result) w"
| "perform cfg (Decide i loopId n d) w =
     run_handler (i, Parked loopId n) (succeed_or_fail cfg i (chain (on_decision cfg i loopId n d) (\<lambda>_. done_with None))) w"
| "perform cfg Conclude w = end_run w"
| "perform cfg (RequestHalt shutdown) w = w\<lparr>sd_halt_requested := True, sd_host_shutdown := shutdown\<rparr>"
| "perform cfg (RequestRetry i n) w = w\<lparr>sd_mutations := map_option (\<lambda>ds. ds @ [(i, n)]) (sd_mutations w)\<rparr>"

inductive sched_step :: "run_config \<Rightarrow> scheduler \<Rightarrow> scheduler \<Rightarrow> bool" for cfg where
  move: "enabled w m \<Longrightarrow> sched_step cfg w (perform cfg m w)"

inductive_cases sched_stepE: "sched_step cfg w w'"

inductive reachable :: "run_config \<Rightarrow> run_options \<Rightarrow> ResolvedPipelineDag \<Rightarrow> run_store \<Rightarrow> scheduler \<Rightarrow> bool"
  for cfg opts fallback s where
  start: "start_run cfg opts fallback s = Inr w \<Longrightarrow> reachable cfg opts fallback s w"
| step: "reachable cfg opts fallback s w \<Longrightarrow> sched_step cfg w w' \<Longrightarrow> reachable cfg opts fallback s w'"

end
