(* ===== verification/Scheduler_Logic.thy ===== *)
theory Scheduler_Logic
  imports Scheduler_Run
begin

text \<open>
  Invariants of the handlers of the scheduler.  \<open>gentle\<close> actions of the store leave the attempts
  and the status of the run alone; \<open>keeps P m\<close> says that a step keeps \<open>P\<close>, whether it returns or
  throws.  The locale \<open>handler_invariant\<close> lists what a property must be stable under, and proves
  once that then every handler keeps it.
\<close>

section \<open>Gentle actions\<close>

definition attempt_keys :: "run_store \<Rightarrow> (string \<times> nat) list" where
  "attempt_keys s = map (\<lambda>e. (ex_stage_id e, ex_attempt e)) (rs_executions s)"

definition undisturbed :: "run_store \<Rightarrow> run_store \<Rightarrow> bool" where
  "undisturbed s s' \<longleftrightarrow> attempt_keys s' = attempt_keys s \<and> rs_status s' = rs_status s"

definition gentle :: "'a action \<Rightarrow> bool" where
  "gentle m \<longleftrightarrow> (\<forall>s. undisturbed s (snd (m s)))"

named_theorems gentle "actions that leave attempts and run status alone"

lemma undisturbed_refl [simp]: "undisturbed s s"
  by (simp add: undisturbed_def)

lemma undisturbed_trans: "undisturbed s s' \<Longrightarrow> undisturbed s' s'' \<Longrightarrow> undisturbed s s''"
  by (simp add: undisturbed_def)

lemma gentleI: "(\<And>s. undisturbed s (snd (m s))) \<Longrightarrow> gentle m"
  by (simp add: gentle_def)

lemma gentleD: "gentle m \<Longrightarrow> m s = (r, s') \<Longrightarrow> undisturbed s s'"
  unfolding gentle_def by (metis snd_conv)

lemma gentle_andThen [gentle]: "gentle m \<Longrightarrow> (\<And>x. gentle (f x)) \<Longrightarrow> gentle (andThen m f)"
proof (rule gentleI)
  fix s assume m: "gentle m" and f: "\<And>x. gentle (f x)"
  obtain r s' where run: "m s = (r, s')" by fastforce
  from gentleD [OF m run] have u: "undisturbed s s'" .
  show "undisturbed s (snd (andThen m f s))"
  proof (cases r)
    case (Inr x)
    obtain r2 s2 where run2: "f x s' = (r2, s2)" by fastforce
    with Inr run u show ?thesis by (auto simp: andThen_def intro: undisturbed_trans gentleD [OF f])
  qed (use run u in \<open>simp add: andThen_def\<close>)
qed

lemma gentle_control [gentle]:
  "gentle (return x)" "gentle (throw e)" "gentle (gets f)"
  by (simp_all add: gentle_def act)

lemma gentle_if [gentle]: "gentle a \<Longrightarrow> gentle b \<Longrightarrow> gentle (if c then a else b)"
  by simp

lemma gentle_option [gentle]: "gentle a \<Longrightarrow> (\<And>x. gentle (f x)) \<Longrightarrow> gentle (case v of None \<Rightarrow> a | Some x \<Rightarrow> f x)"
  by (simp split: option.split)

lemma gentle_prod [gentle]: "(\<And>x y. gentle (f x y)) \<Longrightarrow> gentle (case p of (x, y) \<Rightarrow> f x y)"
  by (simp split: prod.split)

lemma gentle_let [gentle]: "(\<And>x. gentle (f x)) \<Longrightarrow> gentle (let x = v in f x)"
  by simp

lemma gentle_modify: "(\<And>s. undisturbed s (f s)) \<Longrightarrow> gentle (modify f)"
  by (simp add: gentle_def act)

lemma gentle_forEach [gentle]: "(\<And>x. gentle (f x)) \<Longrightarrow> gentle (forEach xs f)"
  by (induction xs) (auto intro: gentle)

lemma gentle_attempt [gentle]: "gentle m \<Longrightarrow> gentle (attempt m)"
  by (simp add: gentle_def attempt_def)

lemma gentle_uuid [gentle]: "gentle (fresh_uuid u)"
  by (simp add: gentle_def fresh_uuid_def undisturbed_def attempt_keys_def)

lemma attempt_keys_update [simp]: "(\<And>e. ex_stage_id (f e) = ex_stage_id e \<and> ex_attempt (f e) = ex_attempt e) \<Longrightarrow>
    map (\<lambda>e. (ex_stage_id e, ex_attempt e)) (update_rows Q f es) = map (\<lambda>e. (ex_stage_id e, ex_attempt e)) es"
  by (simp add: update_rows_def)

lemma gentle_executions [gentle]:
  "gentle (getLatestStageExecution i)" "gentle (countStageAttempts i)" "gentle (updateStageExecution i n p)"
  "gentle (getStageExecution i n)"
  by (auto simp: getLatestStageExecution_def countStageAttempts_def updateStageExecution_def getStageExecution_def
      patch_execution_def undisturbed_def attempt_keys_def split: option.split intro: gentle gentleI)

lemma gentle_workspace [gentle]: "gentle (ensureAttemptWorkspace i n)"
  by (auto simp: ensureAttemptWorkspace_def undisturbed_def attempt_keys_def intro: gentleI)

lemma gentle_append [gentle]: "gentle (appendStageEvent i ev n)"
  unfolding appendStageEvent_def Let_def
  by (intro gentle gentle_modify)
    (auto simp: updateStageStatusDenorm_def undisturbed_def attempt_keys_def split: option.split)

lemma gentle_envelopes [gentle]: "gentle (writeEnvelope i e n)" "gentle (readEnvelope i n')"
  unfolding writeEnvelope_def readEnvelope_def Let_def
  by (intro gentle gentle_modify gentleI; auto simp: undisturbed_def attempt_keys_def split: option.split)+

lemma gentle_dag [gentle]: "gentle (updatePipelineDag d)"
  unfolding updatePipelineDag_def by (intro gentle_modify) (simp add: undisturbed_def attempt_keys_def)

lemma gentle_feedback_store [gentle]:
  "gentle listFeedbackLoops" "gentle (getFeedbackLoop l)" "gentle (updateFeedbackLoop l p st)"
  "gentle (getFeedbackReplay r)" "gentle (updateFeedbackReplay r rst)" "gentle (listFeedbackReplayStagePasses r)"
  "gentle (updateFeedbackReplayStagePass r i q)" "gentle (createForkGeneration g rid fp num ids gst)"
        apply (simp add: listFeedbackLoops_def gentle)
       apply (auto simp: getFeedbackLoop_def split: option.split intro: gentleI) [1]
      apply (auto simp: updateFeedbackLoop_def undisturbed_def attempt_keys_def split: option.split intro: gentleI) [1]
     apply (auto simp: getFeedbackReplay_def split: option.split intro: gentleI) [1]
    apply (auto simp: updateFeedbackReplay_def undisturbed_def attempt_keys_def intro: gentleI) [1]
   apply (auto simp: listFeedbackReplayStagePasses_def getFeedbackReplay_def split: option.split intro!: gentle intro: gentleI) [1]
  apply (auto simp: updateFeedbackReplayStagePass_def undisturbed_def attempt_keys_def intro: gentleI) [1]
  unfolding createForkGeneration_def
  by (intro gentle gentleI; auto simp: Let_def getFeedbackReplay_def andThen_def return_def undisturbed_def attempt_keys_def
      split: option.split sum.split prod.split)

lemma gentle_feedback [gentle]:
  "gentle (onRouteStageFailed fb i)" "gentle (onRouteStageRunning fb i)" "gentle (onRouteStageSucceeded i e fb)"
  "gentle (rebindRouteAttempts m fb)" "gentle (mintCohortForFanout u rid p ids)" "gentle (onContinued i e fb)"
  unfolding onRouteStageFailed_def onRouteStageRunning_def onRouteStageSucceeded_def rebindRouteAttempts_def
    mintCohortForFanout_def createGenerationForFanout_def markFeedbackRouteStageFailed_def
    markFeedbackRouteStageRunning_def markFeedbackRouteStageSucceeded_def rebindFeedbackRoutePassAttempts_def
    onContinued_def markFeedbackLoopContinued_def updateFeedbackReplaySourcePass_def terminalizeCurrentFeedbackReplay_def
  by (intro gentle)+

lemma gentle_reopened: "gentle (persistReopenedStages ids states)"
  by (induction ids states rule: persistReopenedStages.induct) (auto intro: gentle)

lemma gentle_reopen [gentle]: "gentle (reopenRunnableSkippedStages dag states envs)"
  unfolding reopenRunnableSkippedStages_def by (intro gentle gentle_reopened)

section \<open>Running steps\<close>

named_theorems running "running the steps of the scheduler"

lemma chain_running [running]:
  "chain (change g) f w = f () (g w)" "chain (done_with x) k w = k x w" "chain (look h) l w = l (h w) w"
  "chain (raise_fault e) q w = (Inl e, w)"
  by (simp_all add: chain_def change_def done_with_def look_def raise_fault_def)

lemma change_running [running]: "change g w = (Inr (), g w)" "done_with x w = (Inr x, w)" "raise_fault e w = (Inl e, w)"
  by (simp_all add: change_def done_with_def raise_fault_def)

lemma provided_running [running]: "provided c m w = (if c w then m w else (Inr (), w))"
  by (simp add: provided_def)

lemma chain_reads [running]:
  "chain (via_store (\<lambda>w. getLatestStageExecution i)) f w = f (latest_execution (sd_store w) i) w"
  "chain (via_store (\<lambda>w. countStageAttempts i)) g w = g (length (executions_of (sd_store w) i)) w"
  by (simp_all add: chain_def via_store_def getLatestStageExecution_def countStageAttempts_def act)

lemma chain_via:
  "chain (via_store m) f w = (case m w (sd_store w) of
     (Inl e, s) \<Rightarrow> (Inl (StoreFault e), w\<lparr>sd_store := s\<rparr>) | (Inr x, s) \<Rightarrow> f x (w\<lparr>sd_store := s\<rparr>))"
  by (simp add: chain_def via_store_def split: prod.split sum.split)

lemma chain_ok: "m w = (Inr x, w') \<Longrightarrow> chain m f w = f x w'"
  by (simp add: chain_def)

lemma chain_fault: "m w = (Inl e, w') \<Longrightarrow> chain m f w = (Inl e, w')"
  by (simp add: chain_def)

section \<open>Invariants of steps\<close>

definition keeps :: "(scheduler \<Rightarrow> bool) \<Rightarrow> 'a step \<Rightarrow> bool" where
  "keeps P m \<longleftrightarrow> (\<forall>w. P w \<longrightarrow> P (snd (m w)))"

named_theorems keeps "steps that keep an invariant"

lemma keepsI: "(\<And>w. P w \<Longrightarrow> P (snd (m w))) \<Longrightarrow> keeps P m"
  by (simp add: keeps_def)

lemma keepsD: "keeps P m \<Longrightarrow> P w \<Longrightarrow> P (snd (m w))"
  by (simp add: keeps_def)

lemma keeps_run: "keeps P m \<Longrightarrow> P w \<Longrightarrow> m w = (r, w') \<Longrightarrow> P w'"
  unfolding keeps_def by (metis snd_conv)

lemma keeps_chain [keeps]: "keeps P m \<Longrightarrow> (\<And>x. keeps P (f x)) \<Longrightarrow> keeps P (chain m f)"
proof (rule keepsI)
  fix w assume m: "keeps P m" and f: "\<And>x. keeps P (f x)" and w: "P w"
  obtain r w' where run: "m w = (r, w')" by fastforce
  have w': "P w'" using keeps_run [OF m w run] .
  show "P (snd (chain m f w))" using run w' keepsD [OF f w'] by (cases r) (simp_all add: chain_def)
qed

lemma keeps_rescue [keeps]: "keeps P m \<Longrightarrow> (\<And>e. keeps P (h e)) \<Longrightarrow> keeps P (rescue m h)"
proof (rule keepsI)
  fix w assume m: "keeps P m" and h: "\<And>e. keeps P (h e)" and w: "P w"
  obtain r w' where run: "m w = (r, w')" by fastforce
  have w': "P w'" using keeps_run [OF m w run] .
  show "P (snd (rescue m h w))" using run w' keepsD [OF h w'] by (cases r) (simp_all add: rescue_def)
qed

lemma keeps_control [keeps]: "keeps P (done_with x)" "keeps P (raise_fault e)" "keeps P (look f)"
  by (simp_all add: keeps_def done_with_def raise_fault_def look_def)

lemma keeps_pair [keeps]: "keeps P (\<lambda>w. (r, w))"
  by (simp add: keeps_def)

lemma keeps_change: "(\<And>w. P w \<Longrightarrow> P (g w)) \<Longrightarrow> keeps P (change g)"
  by (simp add: keeps_def change_def)

lemma keeps_provided [keeps]: "keeps P m \<Longrightarrow> keeps P (provided c m)"
  by (simp add: keeps_def provided_def)

lemma keeps_if [keeps]: "keeps P a \<Longrightarrow> keeps P b \<Longrightarrow> keeps P (if c then a else b)"
  by simp

lemma keeps_if_state [keeps]: "keeps P a \<Longrightarrow> keeps P b \<Longrightarrow> keeps P (\<lambda>w. if c w then a w else b w)"
  by (simp add: keeps_def)

lemma keeps_option [keeps]: "keeps P a \<Longrightarrow> (\<And>x. keeps P (f x)) \<Longrightarrow> keeps P (case v of None \<Rightarrow> a | Some x \<Rightarrow> f x)"
  by (simp split: option.split)

lemma keeps_prod [keeps]: "(\<And>x y. keeps P (f x y)) \<Longrightarrow> keeps P (case p of (x, y) \<Rightarrow> f x y)"
  by (simp split: prod.split)

lemma keeps_for_each [keeps]: "(\<And>x. keeps P (f x)) \<Longrightarrow> keeps P (for_each xs f)"
  by (induction xs) (auto intro: keeps)

lemma keeps_store:
  assumes "\<And>w s. P w \<Longrightarrow> undisturbed (sd_store w) s \<Longrightarrow> P (w\<lparr>sd_store := s\<rparr>)" "\<And>w. gentle (m w)"
  shows "keeps P (via_store m)"
proof (rule keepsI)
  fix w assume w: "P w"
  obtain r s where run: "m w (sd_store w) = (r, s)" by fastforce
  have "P (w\<lparr>sd_store := s\<rparr>)" by (rule assms(1) [OF w gentleD [OF assms(2) run]])
  then show "P (snd (via_store m w))" using run by (cases r) (simp_all add: via_store_def)
qed

lemma keeps_via_if: "keeps P (via_store a) \<Longrightarrow> keeps P (via_store b) \<Longrightarrow> keeps P (via_store (\<lambda>w. if c w then a w else b w))"
  by (simp add: keeps_def via_store_def)

lemma keeps_conclude:
  assumes rest: "\<And>w. P w \<Longrightarrow> P (skip_rest w)" and store: "keeps P (via_store (\<lambda>_. syncRunStatusFromStages))"
    "\<And>st. keeps P (via_store (\<lambda>_. writeTerminalRunStatus st))"
  shows "keeps P conclude"
proof (rule keepsI)
  fix w assume w: "P w"
  have "keeps P (chain (change skip_rest) (\<lambda>_.
       chain (provided (\<lambda>w. \<not> retrying w) (via_store (\<lambda>w.
         if sd_host_shutdown w then syncRunStatusFromStages else writeTerminalRunStatus RunFailed))) (\<lambda>_.
       look (\<lambda>w. if sd_host_shutdown w then ResWaiting (sd_reason w) else ResFailed (sd_reason w)))))"
    "keeps P (chain (provided (\<lambda>w. \<not> retrying w) (via_store (\<lambda>_. writeTerminalRunStatus RunFailed))) (\<lambda>_.
       look (\<lambda>w. ResFailed (Some (or_else (sd_reason w) ''pipeline incomplete'')))))"
    "keeps P (chain (via_store (\<lambda>_. writeTerminalRunStatus RunSucceeded)) (\<lambda>_. done_with ResSucceeded))"
    by (intro keeps keeps_via_if store keeps_change rest; assumption)+
  from this [THEN keepsD, OF w] w show "P (snd (conclude w))" by (simp add: conclude_def)
qed

section \<open>States that only flip\<close>

text \<open>What skipping and reopening do to the states.\<close>

definition flips :: "sched_states \<Rightarrow> sched_states \<Rightarrow> bool" where
  "flips m m' \<longleftrightarrow> (\<forall>k. jget m' k = jget m k \<or>
     jget m k \<in> {Some Pending, Some Skipped} \<and> jget m' k \<in> {Some Pending, Some Skipped})"

lemma flips_skips: "only_skips (m, []) (m', ids) \<Longrightarrow> flips m m'"
  using only_skips_get [of "(m, [])" "(m', ids)"] by (force simp: flips_def)

lemma flips_reopened:
  "persistReopenedStages ids states s = (Inr states', s') \<Longrightarrow> flips states states'"
proof (induction ids states arbitrary: s rule: persistReopenedStages.induct)
  case (2 i ids states)
  show ?case
  proof (cases "jget states i = Some Skipped")
    case True
    with 2 obtain s2 where "persistReopenedStages ids (jset states i Pending) s2 = (Inr states', s')"
      by (auto elim: andThen_InrE)
    from "2.IH"(2) [OF _ this] True have IH: "flips (jset states i Pending) states'" by simp
    show ?thesis unfolding flips_def
    proof
      fix k
      show "jget states' k = jget states k \<or> jget states k \<in> {Some Pending, Some Skipped} \<and>
          jget states' k \<in> {Some Pending, Some Skipped}"
        using spec [OF IH [unfolded flips_def], of k] True by (cases "k = i") auto
    qed
  qed (use 2 in simp)
qed (simp add: return_def flips_def)

lemma flips_reopen: "reopenRunnableSkippedStages dag states envs s = (Inr states', s') \<Longrightarrow> flips states states'"
  by (auto simp: reopenRunnableSkippedStages_def act intro: flips_reopened)

section \<open>The end of a run\<close>

lemma skip_rest_kept: "sd_dag (skip_rest w) = sd_dag w" "sd_reason (skip_rest w) = sd_reason w" "sd_halted (skip_rest w) = sd_halted w"
  "sd_retry_roots (skip_rest w) = sd_retry_roots w" "sd_host_shutdown (skip_rest w) = sd_host_shutdown w"
  "sd_states (skip_rest w) = fst (markSkippedPending (sd_dag w) (sd_states w, []))"
proof -
  have told: "sd_dag (notifyRetryRootTerminal i st v) = sd_dag v \<and>
      sd_reason (notifyRetryRootTerminal i st v) = sd_reason v \<and> sd_halted (notifyRetryRootTerminal i st v) = sd_halted v \<and>
      sd_retry_roots (notifyRetryRootTerminal i st v) = sd_retry_roots v \<and>
      sd_host_shutdown (notifyRetryRootTerminal i st v) = sd_host_shutdown v \<and>
      sd_states (notifyRetryRootTerminal i st v) = sd_states v" for i st v
    by (simp add: notifyRetryRootTerminal_def split: option.split)
  have "sd_dag (foldl (\<lambda>w i. notifyRetryRootTerminal i Skipped w) v ids) = sd_dag v \<and>
      sd_reason (foldl (\<lambda>w i. notifyRetryRootTerminal i Skipped w) v ids) = sd_reason v \<and>
      sd_halted (foldl (\<lambda>w i. notifyRetryRootTerminal i Skipped w) v ids) = sd_halted v \<and>
      sd_retry_roots (foldl (\<lambda>w i. notifyRetryRootTerminal i Skipped w) v ids) = sd_retry_roots v \<and>
      sd_host_shutdown (foldl (\<lambda>w i. notifyRetryRootTerminal i Skipped w) v ids) = sd_host_shutdown v \<and>
      sd_states (foldl (\<lambda>w i. notifyRetryRootTerminal i Skipped w) v ids) = sd_states v" for v ids
    by (induction ids arbitrary: v) (simp_all add: told)
  then show "sd_dag (skip_rest w) = sd_dag w" "sd_reason (skip_rest w) = sd_reason w" "sd_halted (skip_rest w) = sd_halted w"
    "sd_retry_roots (skip_rest w) = sd_retry_roots w" "sd_host_shutdown (skip_rest w) = sd_host_shutdown w"
    "sd_states (skip_rest w) = fst (markSkippedPending (sd_dag w) (sd_states w, []))"
    by (simp_all add: skip_rest_def skip_silently_def split: prod.split)
qed

lemma terminal_status: "writeTerminalRunStatus st s = (r, s') \<Longrightarrow> r = Inr () \<and> rs_status s' \<in> {st, RunCancelled}"
  by (auto simp: writeTerminalRunStatus_def updateRunStatus_def applyRunStatusUpdate_def act andThen_def split: if_splits)

end
