(* ===== verification/Scheduler_Handlers.thy ===== *)
theory Scheduler_Handlers
  imports Scheduler_Logic
begin

text \<open>
  The interface between the handlers of the scheduler and their invariants.  \<open>P i w\<close> is what the
  handlers of the stage \<open>i\<close> have to keep; \<open>sw\<close> says whether a browser host may move the profile of
  a blocked stage.  The moves that give a stage a new attempt, adopt clones, or send work back are
  assumptions of their own, so that an invariant may exclude them.
\<close>

text \<open>Did the browser host move the profile of the failed stage?\<close>

definition switch_of :: "outcome \<Rightarrow> bool" where
  "switch_of r = (case r of LaunchFailed _ s \<Rightarrow> s | RanFailed _ _ s \<Rightarrow> s | _ \<Rightarrow> False)"

locale handler_invariant =
  fixes P :: "string \<Rightarrow> scheduler \<Rightarrow> bool" and sw :: bool
  assumes store: "P i w \<Longrightarrow> undisturbed (sd_store w) s \<Longrightarrow> P i (w\<lparr>sd_store := s\<rparr>)"
    and envelopes: "P i w \<Longrightarrow> P i (w\<lparr>sd_envelopes := e\<rparr>)"
    and halted: "P i w \<Longrightarrow> P i (w\<lparr>sd_halted := b\<rparr>)"
    and reason: "P i w \<Longrightarrow> P i (w\<lparr>sd_reason := r\<rparr>)"
    and feedback: "P i w \<Longrightarrow> P i (w\<lparr>sd_feedback := fb\<rparr>)"
    and notified: "P i w \<Longrightarrow> P i (w\<lparr>sd_notified := l\<rparr>)"
    and flip: "P i w \<Longrightarrow> flips (sd_states w) m \<Longrightarrow> P i (w\<lparr>sd_states := m\<rparr>)"
    and settle: "P i w \<Longrightarrow> st \<in> {Succeeded, Failed, Waiting} \<Longrightarrow> P i (set_stage i st w)"
    and drain: "P i w \<Longrightarrow> P i (drainRetryMutations w)"
    and repair: "P i w \<Longrightarrow> repair_limit (sd_dag w) i = Some limit \<Longrightarrow>
      int (length (executions_of (sd_store w) i)) < limit \<Longrightarrow> P i (snd (startNextAttempt i w))"
    and blocked: "sw \<Longrightarrow> P i w \<Longrightarrow> length (executions_of (sd_store w) i) < blocked_stage_max_attempts \<Longrightarrow>
      P i (snd (startNextAttempt i w))"
    and minted: "P i w \<Longrightarrow> mint (sd_dag w) i env = Inr (Minted d c ids) \<Longrightarrow> P i (snd (adopt_clones cfg i d c ids w))"
    and loop: "P i w \<Longrightarrow> find_node (sd_dag w) i = Some n \<Longrightarrow> feedback_loop n \<noteq> None \<Longrightarrow>
      P i (put_view v (w\<lparr>sd_store := s\<rparr>))"
    and first_attempt: "P i w \<Longrightarrow> sd_retry_roots w \<noteq> None \<or> latest_execution (sd_store w) i = None \<Longrightarrow>
      P i (w\<lparr>sd_store := snd (createStageExecution i (sd_store w))\<rparr>)"
begin

lemma keeps_via [keeps]: "(\<And>w. gentle (m w)) \<Longrightarrow> keeps (P i) (via_store m)"
  by (rule keeps_store) (auto intro: store)

lemma keeps_event [keeps]: "keeps (P i) (log_event j ev n)"
  unfolding log_event_def by (intro keeps gentle)

lemma keeps_notify: "P i w \<Longrightarrow> P i (notifyRetryRootTerminal j st w)"
  by (auto simp: notifyRetryRootTerminal_def intro: notified split: option.split)

lemma keeps_reason: "P i w \<Longrightarrow> P i (note_reason r w)"
  by (simp add: note_reason_def reason)

lemma skip_kept:
  assumes w: "P i w" and skips: "only_skips (sd_states w, []) (f w (sd_states w, []))"
  shows "P i (snd (skip_silently f w))"
proof -
  obtain m ids where run: "f w (sd_states w, []) = (m, ids)" by fastforce
  have "flips (sd_states w) m" using skips flips_skips unfolding run by blast
  with w have start: "P i (w\<lparr>sd_states := m\<rparr>)" by (rule flip)
  have "P i (foldl (\<lambda>w i. notifyRetryRootTerminal i Skipped w) v ids)" if "P i v" for v
    using that by (induction ids arbitrary: v) (auto intro: keeps_notify)
  from this [OF start] show ?thesis by (simp add: skip_silently_def run)
qed

lemma keeps_logged [keeps]: "keeps (P i) (for_each ids (\<lambda>j. log_event j ev n))"
  by (intro keeps)

lemma skip_log_kept:
  assumes "P i w" "only_skips (sd_states w, []) (f w (sd_states w, []))"
  shows "P i (snd (skip_and_log f w))"
proof -
  obtain ids w' where run: "skip_silently f w = (Inr ids, w')"
    by (cases "f w (sd_states w, [])") (simp add: skip_silently_def)
  with skip_kept [of i w f] assms have "P i w'" by simp
  with keepsD [OF keeps_logged] run show ?thesis by (simp add: skip_and_log_def chain_def)
qed

lemma keeps_skip_silently [keeps]:
  "(\<And>w. only_skips (sd_states w, []) (f w (sd_states w, []))) \<Longrightarrow> keeps (P i) (skip_silently f)"
  by (intro keepsI skip_kept)

lemma keeps_skip_and_log [keeps]:
  "(\<And>w. only_skips (sd_states w, []) (f w (sd_states w, []))) \<Longrightarrow> keeps (P i) (skip_and_log f)"
  by (intro keepsI skip_log_kept)

lemma keeps_skip_conditions [keeps]: "keeps (P i) (skip_conditions envs)"
proof (rule keepsI)
  fix w assume w: "P i w"
  obtain r missing where run: "applyEagerRouteIfSkipsFromEnvelopes (sd_dag w) (envs w) (sd_states w, []) = (r, missing)"
    by fastforce
  have "only_skips (sd_states w, []) r" using applyEager_skips [of "(sd_states w, [])" "sd_dag w" "envs w"] run by simp
  then have "P i (snd (skip_and_log (\<lambda>_ _. r) w))" by (intro skip_log_kept w)
  moreover have "keeps (P i) (case missing of None \<Rightarrow> done_with False
      | Some j \<Rightarrow> chain (change (\<lambda>w. note_reason (missing_field j) (w\<lparr>sd_halted := True\<rparr>))) (\<lambda>_. done_with True))"
    by (intro keeps keeps_change keeps_reason halted)
  moreover obtain x w' where "skip_and_log (\<lambda>_ _. r) w = (x, w')" by fastforce
  ultimately show "P i (snd (skip_conditions envs w))"
    by (cases x) (auto simp: skip_conditions_def run chain_def keeps_def)
qed

lemma keeps_clone_envelope [keeps]: "keeps (P i) (recordCloneFailureEnvelope j r e)"
proof (rule keepsI)
  fix w assume w: "P i w"
  have "keeps (P i) (chain (change (\<lambda>w. w\<lparr>sd_envelopes := jset (sd_envelopes w) j x\<rparr>)) (\<lambda>_.
      if e = None then via_store (\<lambda>_. attempt (writeEnvelope j x None)) else done_with ()))" for x
    by (intro keeps keeps_change envelopes gentle)
  then show "P i (snd (recordCloneFailureEnvelope j r e w))"
    using w by (auto simp: recordCloneFailureEnvelope_def Let_def keeps_def intro: envelopes split: option.split)
qed

lemma keeps_repair [keeps]: "keeps (P i) (scheduleAutomaticRepair i)"
proof (rule keepsI)
  fix w assume w: "P i w"
  show "P i (snd (scheduleAutomaticRepair i w))"
  proof (cases "repair_limit (sd_dag w) i")
    case (Some limit)
    with repair [OF w Some] w show ?thesis
      by (cases "startNextAttempt i w")
        (auto simp: scheduleAutomaticRepair_def running chain_def [of "startNextAttempt i"] split: sum.split)
  qed (use w in \<open>simp add: scheduleAutomaticRepair_def\<close>)
qed

lemma keeps_blocked: "(switched \<longrightarrow> sw) \<Longrightarrow> keeps (P i) (retryBlockedStage i switched)"
proof (rule keepsI)
  fix w assume s: "switched \<longrightarrow> sw" and w: "P i w"
  show "P i (snd (retryBlockedStage i switched w))"
    using blocked [OF _ w] s w
    by (cases "startNextAttempt i w")
      (auto simp: retryBlockedStage_def running chain_def [of "startNextAttempt i"] split: sum.split)
qed

section \<open>Failure\<close>

lemma keeps_branch_failed [keeps]: "keeps (P i) (branch_failed j r)"
proof (rule keepsI)
  fix w assume w: "P i w"
  have "keeps (P i) (chain (if a then done_with [] else skip_silently (\<lambda>w. markBranchDownstreamSkipped (sd_dag w) j)) (\<lambda>_.
     chain (change drainRetryMutations) (\<lambda>_.
     chain (provided (\<lambda>w. \<not> a \<and> \<not> hasWorkOutsideBranch (sd_dag w) j (sd_states w) (sd_retry_roots w)
              (map_option (\<lambda>ds. jset_of (map fst ds)) (sd_mutations w)))
            (change (\<lambda>w. w\<lparr>sd_halted := True\<rparr>))) (\<lambda>_.
     provided (\<lambda>_. \<not> a) (change (note_reason r))))))" for a
    by (intro keeps keeps_change drain halted keeps_reason skips)
  then show "P i (snd (branch_failed j r w))" using w by (simp add: branch_failed_def Let_def keeps_def)
qed

lemma keeps_stage_failed [keeps]: "keeps (P i) (stage_failed i r e)"
  unfolding stage_failed_def clone_failed_def run_failed_def
  by (intro keeps keeps_change gentle skips keeps_notify settle drain halted keeps_reason)
    (auto intro: settle keeps_notify halted reason)

lemma keeps_failure [keeps]: "keeps (P i) (onStageFailure i r e)"
  unfolding onStageFailure_def by (intro keeps)

lemma keeps_post_success [keeps]: "keeps (P i) (handlePostSuccessError i r)"
  unfolding handlePostSuccessError_def by (intro keeps keeps_change envelopes)

section \<open>Success\<close>

lemma keeps_refusal [keeps]: "keeps (P i) (chain (handlePostSuccessError i m) (\<lambda>_. done_with x))"
  by (intro keeps)

lemma keeps_after_send_back [keeps]: "keeps (P i) (after_send_back cfg i n k a)"
  unfolding after_send_back_def park_or_leave_def
  by (cases a) (auto intro!: keeps keeps_change settle gentle)

lemma send_back_kept:
  assumes w: "P i w" and n: "find_node (sd_dag w) i = Some n" "feedback_loop n \<noteq> None"
  shows "P i (snd (send_back_from cfg i e n w))"
proof -
  have put: "P i (put_view v (w\<lparr>sd_store := s\<rparr>))" for v s by (rule loop [OF w n])
  have same: "w\<lparr>sd_store := s\<rparr> = put_view (view_of w) (w\<lparr>sd_store := s\<rparr>)" for s by (simp add: put_view_def view_of_def)
  have "P i (w\<lparr>sd_store := s\<rparr>)" for s by (subst same) (rule put)
  then show ?thesis
    using put keepsD [OF keeps_after_send_back]
    by (auto simp: send_back_from_def running Let_def chain_via split: prod.split sum.split)
qed

lemma keeps_send_back [keeps]: "keeps (P i) (on_send_back cfg i e)"
proof (rule keepsI)
  fix w assume w: "P i w"
  show "P i (snd (on_send_back cfg i e w))"
    using keepsD [OF keeps_refusal w] send_back_kept [OF w]
    by (auto simp: on_send_back_def Let_def simp del: append.simps split: option.split)
qed

lemma keeps_fork_choice [keeps]: "keeps (P i) (on_fork_choice i e)"
proof (rule keepsI)
  fix w assume w: "P i w"
  have refuse: "keeps (P i) (chain (handlePostSuccessError i m) (\<lambda>_. done_with True))" for m by (intro keeps)
  have choose: "keeps (P i) (chain (skip_and_log (\<lambda>w. applyForkChoiceToSchedule (sd_dag w) i chosen
             (protectedClonableChildIds (sd_dag w) i))) (\<lambda>_. done_with False))" for chosen by (intro keeps skips)
  show "P i (snd (on_fork_choice i e w))"
    using keepsD [OF refuse w] keepsD [OF choose w] w
    by (auto simp: on_fork_choice_def Let_def split: option.split)
qed

lemma keeps_reopen [keeps]:
  "keeps (P i) (chain (via_store (\<lambda>w. reopenRunnableSkippedStages (sd_dag w) (sd_states w) (sd_envelopes w))) (\<lambda>states.
     change (\<lambda>w. w\<lparr>sd_states := states\<rparr>)))"
proof (rule keepsI)
  fix w assume w: "P i w"
  obtain r s where run: "reopenRunnableSkippedStages (sd_dag w) (sd_states w) (sd_envelopes w) (sd_store w) = (r, s)"
    by fastforce
  from store [OF w gentleD [OF gentle_reopen run]] have w': "P i (w\<lparr>sd_store := s\<rparr>)" .
  have "P i (w\<lparr>sd_store := s\<rparr>\<lparr>sd_states := m\<rparr>)" if "r = Inr m" for m
    using flip [OF w', of m] flips_reopen run that by simp
  then show "P i (snd (chain (via_store (\<lambda>w. reopenRunnableSkippedStages (sd_dag w) (sd_states w) (sd_envelopes w)))
      (\<lambda>states. change (\<lambda>w. w\<lparr>sd_states := states\<rparr>)) w))"
    using w' run by (cases r) (auto simp: chain_def via_store_def change_def)
qed

lemma keeps_forward [keeps]: "keeps (P i) (on_forward_success i e)"
  unfolding on_forward_success_def by (intro keeps gentle keeps_change feedback)

lemma keeps_after_mint [keeps]: "keeps (P i) (after_mint cfg i e)"
  unfolding after_mint_def by (auto intro!: keeps split: option.split FeedbackLoopAction.split)

lemma keeps_success [keeps]: "keeps (P i) (onStageSuccess cfg i e)"
proof (rule keepsI)
  fix w assume w: "P i w"
  let ?w = "notifyRetryRootTerminal i Succeeded ((set_stage i Succeeded w)\<lparr>sd_envelopes := jset (sd_envelopes w) i e\<rparr>)"
  have start: "P i ?w" by (intro keeps_notify envelopes settle w) simp
  have after: "keeps (P i) (after_mint cfg i e)" by (intro keeps)
  have refuse: "keeps (P i) (chain (handlePostSuccessError i m) (\<lambda>_. done_with None))" for m by (intro keeps)
  have adopt: "P i (snd (chain (adopt_clones cfg i d c ids) (\<lambda>_. after_mint cfg i e) ?w))"
    if "mint (sd_dag ?w) i e = Inr (Minted d c ids)" for d c ids
    using minted [OF start that, of cfg] keepsD [OF after]
    by (cases "adopt_clones cfg i d c ids ?w") (auto simp: chain_def split: sum.split)
  show "P i (snd (onStageSuccess cfg i e w))"
    using start keepsD [OF after start] keepsD [OF refuse start] adopt
    by (auto simp: onStageSuccess_def running split: sum.split MintResult.split)
qed

section \<open>The life of a stage in flight\<close>

lemma keeps_begin [keeps]: "keeps (P i) (begin_attempt i n)"
  unfolding begin_attempt_def by (intro keeps gentle)

lemma keeps_attempt [keeps]: "keeps (P i) (resolveLaunchAttempt i)"
proof (rule keepsI)
  fix w assume w: "P i w"
  have new: "P i (snd (chain (via_store (\<lambda>_. createStageExecution i)) (\<lambda>e. done_with (ex_attempt e)) w))"
    if "sd_retry_roots w \<noteq> None \<or> latest_execution (sd_store w) i = None"
    using first_attempt [OF w that] by (auto simp: chain_def via_store_def done_with_def split: prod.split sum.split)
  show "P i (snd (resolveLaunchAttempt i w))"
    using w new by (auto simp: resolveLaunchAttempt_def running split: option.split)
qed

lemma keeps_launch [keeps]: "keeps (P i) (launchStage cfg i)"
proof (rule keepsI)
  fix w assume w: "P i w"
  have a: "keeps (P i) (chain (onStageFailure i m None) (\<lambda>_. done_with (None::flight option)))" for m by (intro keeps)
  have b: "keeps (P i) (chain (resolveLaunchAttempt i) (\<lambda>n.
       if cf_profiles cfg d then done_with (Some (Acquiring n False)) else begin_attempt i n))" for d by (intro keeps)
  show "P i (snd (launchStage cfg i w))" using keepsD [OF a w] keepsD [OF b w] by (simp add: launchStage_def Let_def)
qed

lemma keeps_log_failure [keeps]: "keeps (P i) (log_failure j n r)"
  unfolding log_failure_def by (intro keeps)

lemma keeps_fail_or_retry: "(switched \<longrightarrow> sw) \<Longrightarrow> keeps (P i) (fail_or_retry i r e switched)"
  unfolding fail_or_retry_def by (intro keeps keeps_blocked)

lemma keeps_succeed_or_fail: "keeps (P i) m \<Longrightarrow> keeps (P i) (succeed_or_fail cfg i m)"
  unfolding succeed_or_fail_def by (intro keeps)

lemma keeps_finish: "(switch_of r \<longrightarrow> sw) \<Longrightarrow> keeps (P i) (finishStage cfg i n r)"
proof (rule keepsI)
  fix w assume s: "switch_of r \<longrightarrow> sw" and w: "P i w"
  have fail: "keeps (P i) (chain (onStageFailure i m None) (\<lambda>_. done_with (None::flight option)))" for m by (intro keeps)
  have failed: "switched \<longrightarrow> sw \<Longrightarrow> keeps (P i) (chain (fail_or_retry i m e switched) (\<lambda>_. done_with (None::flight option)))"
    for m e switched by (intro keeps keeps_fail_or_retry)
  have logged: "switched \<longrightarrow> sw \<Longrightarrow> keeps (P i) (chain (log_failure i n m) (\<lambda>_.
      chain (fail_or_retry i m None switched) (\<lambda>_. done_with (None::flight option))))" for m switched
    by (intro keeps keeps_fail_or_retry)
  have read: "keeps (P i) (succeed_or_fail cfg i (chain (via_store (\<lambda>_. readEnvelope i None)) (onStageSuccess cfg i)))"
    by (intro keeps keeps_succeed_or_fail gentle)
  have good: "keeps (P i) (succeed_or_fail cfg i (onStageSuccess cfg i e))" for e by (intro keeps keeps_succeed_or_fail)
  show "P i (snd (finishStage cfg i n r w))"
    using w s keepsD [OF fail w] keepsD [OF failed w] keepsD [OF logged w] keepsD [OF read w] keepsD [OF good w]
    by (cases r) (auto simp: finishStage_def switch_of_def intro: settle keeps_notify split: option.split)
qed

end

end
