(* ===== verification/Scheduler_Slots.thy ===== *)
theory Scheduler_Slots
  imports Scheduler_Handlers
begin

text \<open>
  The slots of a run: the counter of active stages counts the stages in flight that hold a slot,
  and stays within the cap when no stage asks for a browser profile.
\<close>

section \<open>What the handlers leave alone\<close>

definition frame :: "scheduler \<Rightarrow> int \<times> (string \<times> flight) list \<times> string list \<times> control \<times> bool \<times> bool" where
  "frame w = (sd_active w, sd_in_flight w, sd_launched w, sd_control w, sd_halt_requested w, sd_host_shutdown w)"

lemma frame_updates [simp]:
  "frame (w\<lparr>sd_store := s\<rparr>) = frame w" "frame (w\<lparr>sd_dag := d\<rparr>) = frame w" "frame (w\<lparr>sd_states := m\<rparr>) = frame w"
  "frame (w\<lparr>sd_envelopes := e\<rparr>) = frame w" "frame (w\<lparr>sd_halted := b\<rparr>) = frame w" "frame (w\<lparr>sd_reason := r\<rparr>) = frame w"
  "frame (w\<lparr>sd_feedback := fb\<rparr>) = frame w" "frame (w\<lparr>sd_retry_roots := rs\<rparr>) = frame w"
  "frame (w\<lparr>sd_mutations := ds\<rparr>) = frame w" "frame (w\<lparr>sd_notified := l\<rparr>) = frame w"
  "frame (set_stage i st w) = frame w" "frame (put_view v w) = frame w"
  by (simp_all add: frame_def set_stage_def put_view_def)

lemma frame_drain [simp]: "frame (drainRetryMutations w) = frame w"
proof -
  have step: "frame (apply_mutation v d) = frame v" for v d
    by (simp add: apply_mutation_def frame_def split: prod.split)
  have "frame (foldl apply_mutation v ds) = frame v" for v ds
    by (induction ds arbitrary: v) (simp_all add: step)
  then show ?thesis by (auto simp: drainRetryMutations_def split: option.split)
qed

lemma keeps_frame_store: "keeps (\<lambda>w. frame w = c) (via_store m)"
  by (auto simp: keeps_def via_store_def split: prod.split sum.split)

lemma keeps_frame_change: "(\<And>w. frame (g w) = frame w) \<Longrightarrow> keeps (\<lambda>w. frame w = c) (change g)"
  by (simp add: keeps_def running)

lemma keeps_frame_attempt: "keeps (\<lambda>w. frame w = c) (startNextAttempt i)"
  unfolding startNextAttempt_def by (intro keeps keeps_frame_store keeps_frame_change) simp_all

lemma keeps_frame_adopt: "keeps (\<lambda>w. frame w = c) (adopt_clones cfg i d k ids)"
  unfolding adopt_clones_def by (intro keeps keeps_frame_store keeps_frame_change) simp_all

interpretation bystander: handler_invariant "\<lambda>i w. frame w = c" True for c
proof unfold_locales
  show "frame (snd (startNextAttempt i w)) = c" if "frame w = c" for i w
    using keepsD [OF keeps_frame_attempt, of w c i] that by simp
  then show "frame (snd (startNextAttempt i w)) = c" if "frame w = c" for i w using that .
  show "frame (snd (adopt_clones cfg i d k ids w)) = c" if "frame w = c" for cfg i d k ids w
    using keepsD [OF keeps_frame_adopt, of w c cfg i d k ids] that by simp
qed auto

lemma keeps_frame_decision: "keeps (\<lambda>w. frame w = c) (on_decision cfg i l n d)"
  unfolding on_decision_def
  by (auto intro!: keeps keeps_frame_store keeps_frame_change bystander.keeps_post_success
      split: option.split ResolveFeedbackLoopDecisionResult.split simp: note_reason_def)

lemma frames:
  "launchStage cfg i w = (r, w') \<Longrightarrow> frame w' = frame w"
  "finishStage cfg i n result w = (r', w') \<Longrightarrow> frame w' = frame w"
  "begin_attempt i n w = (r, w') \<Longrightarrow> frame w' = frame w"
  "on_decision cfg i l nd d w = (r'', w') \<Longrightarrow> frame w' = frame w"
     apply (rule keeps_run [OF bystander.keeps_launch refl], assumption)
    apply (rule keeps_run [OF bystander.keeps_finish refl], simp, assumption)
   apply (rule keeps_run [OF bystander.keeps_begin refl], assumption)
  apply (rule keeps_run [OF keeps_frame_decision refl], assumption)
  done

section \<open>Where a stage in flight goes on\<close>

definition outputs :: "(flight \<Rightarrow> bool) \<Rightarrow> flight option step \<Rightarrow> bool" where
  "outputs Q m \<longleftrightarrow> (\<forall>w f w'. m w = (Inr (Some f), w') \<longrightarrow> Q f)"

named_theorems outputs "what a handler may leave in flight"

lemma outputs_chain [outputs]: "(\<And>x. outputs Q (f x)) \<Longrightarrow> outputs Q (chain m f)"
  by (auto simp: outputs_def chain_def split: prod.splits sum.splits)

lemma outputs_control [outputs]:
  "outputs Q (done_with None)" "Q f \<Longrightarrow> outputs Q (done_with (Some f))" "outputs Q (raise_fault e)"
  by (simp_all add: outputs_def running)

lemma outputs_rescue [outputs]:
  assumes "outputs Q m" "\<And>e. outputs Q (h e)"
  shows "outputs Q (rescue m h)"
  unfolding outputs_def
proof (intro allI impI)
  fix w f w' assume run: "rescue m h w = (Inr (Some f), w')"
  obtain r w1 where m: "m w = (r, w1)" by fastforce
  show "Q f"
  proof (cases r)
    case (Inl e)
    with run m assms(2) show ?thesis unfolding rescue_def outputs_def by auto
  next
    case (Inr x)
    with run m have "m w = (Inr (Some f), w')" by (simp add: rescue_def)
    with assms(1) show ?thesis unfolding outputs_def by blast
  qed
qed

lemma outputs_if [outputs]: "outputs Q a \<Longrightarrow> outputs Q b \<Longrightarrow> outputs Q (if c then a else b)"
  by simp

lemma outputsI: "(\<And>w f w'. m w = (Inr (Some f), w') \<Longrightarrow> Q f) \<Longrightarrow> outputs Q m"
  by (simp add: outputs_def)

lemma outputsD: "outputs Q m \<Longrightarrow> m w = (Inr (Some f), w') \<Longrightarrow> Q f"
  unfolding outputs_def by blast

lemma outputs_begin [outputs]: "Q (Executing n) \<Longrightarrow> outputs Q (begin_attempt i n)"
  unfolding begin_attempt_def by (intro outputs)

lemma outputs_refusal [outputs]:
  "outputs Q (chain (handlePostSuccessError i m) (\<lambda>_. done_with None))"
  "outputs Q (chain (onStageFailure i m e) (\<lambda>_. done_with None))"
  by (intro outputs)+

lemma outputs_pointwise: "(\<And>w. outputs Q (\<lambda>_. m w)) \<Longrightarrow> outputs Q m"
  unfolding outputs_def by blast

lemma outputs_at: "outputs Q m \<Longrightarrow> outputs Q (\<lambda>_. m w)"
  unfolding outputs_def by blast

lemma outputs_still: "outputs Q (\<lambda>_. (Inl x, w))" "outputs Q (\<lambda>_. (Inr None, w))"
  by (simp_all add: outputs_def)

lemma outputs_launch:
  "outputs (\<lambda>f. (\<exists>n. f = Executing n) \<or> (\<exists>n d. f = Acquiring n False \<and> cf_profiles cfg d)) (launchStage cfg i)"
  (is "outputs ?Q _")
proof (rule outputs_pointwise)
  fix w :: scheduler
  let ?d = "definitionIdForInstance (sd_dag w) i"
  have "outputs ?Q (chain (resolveLaunchAttempt i) (\<lambda>n.
       if cf_profiles cfg ?d then done_with (Some (Acquiring n False)) else begin_attempt i n))"
    by (cases "cf_profiles cfg ?d") (auto intro!: outputs)
  from outputs_at [OF this] show "outputs ?Q (\<lambda>_. launchStage cfg i w)"
    by (simp add: launchStage_def Let_def outputs_at [OF outputs_refusal(2)])
qed

definition is_parked :: "flight \<Rightarrow> bool" where
  "is_parked f = (\<exists>l n. f = Parked l n)"

lemma outputs_send_back_from [outputs]: "outputs is_parked (send_back_from cfg i e n)"
  unfolding send_back_from_def after_send_back_def park_or_leave_def Let_def
  by (auto intro!: outputs simp: is_parked_def split: prod.split ReplayApplyResult.split)

lemma outputs_send_back [outputs]: "outputs is_parked (on_send_back cfg i e)"
  by (rule outputs_pointwise)
    (auto simp: on_send_back_def Let_def simp del: append.simps split: option.split
      intro: outputs_at [OF outputs_refusal(1)] outputs_at [OF outputs_send_back_from])

lemma outputs_after_mint [outputs]: "outputs is_parked (after_mint cfg i e)"
  unfolding after_mint_def by (auto intro!: outputs split: option.split FeedbackLoopAction.split)

lemma outputs_success [outputs]: "outputs is_parked (onStageSuccess cfg i e)"
proof (rule outputs_pointwise)
  fix w :: scheduler
  have adopt: "outputs is_parked (chain (adopt_clones cfg i d c ids) (\<lambda>_. after_mint cfg i e))" for d c ids by (intro outputs)
  show "outputs is_parked (\<lambda>_. onStageSuccess cfg i e w)"
    by (auto simp: onStageSuccess_def running outputs_still split: sum.split MintResult.split
        intro: outputs_at [OF adopt] outputs_at [OF outputs_after_mint] outputs_at [OF outputs_refusal(1)])
qed

lemma outputs_finish: "outputs is_parked (finishStage cfg i n r)"
proof (rule outputs_pointwise)
  fix w :: scheduler
  have a: "outputs is_parked (chain (fail_or_retry i m e sw) (\<lambda>_. done_with None))" for m e sw by (intro outputs)
  have b: "outputs is_parked (chain (log_failure i n m) (\<lambda>_. chain (fail_or_retry i m None sw) (\<lambda>_. done_with None)))" for m sw
    by (intro outputs)
  have c: "outputs is_parked (succeed_or_fail cfg i (chain (via_store (\<lambda>_. readEnvelope i None)) (onStageSuccess cfg i)))"
    unfolding succeed_or_fail_def by (intro outputs)
  have d: "outputs is_parked (succeed_or_fail cfg i (onStageSuccess cfg i env))" for env
    unfolding succeed_or_fail_def by (intro outputs)
  show "outputs is_parked (\<lambda>_. finishStage cfg i n r w)"
    by (cases r; simp add: finishStage_def outputs_at [OF a] outputs_at [OF b] outputs_at [OF c] outputs_at [OF d]
        outputs_at [OF outputs_refusal(2)] outputs_still split: option.split)
qed

section \<open>Counting the slots\<close>

fun holds_slot :: "flight \<Rightarrow> bool" where
  "holds_slot (Acquiring n released) = (\<not> released)"
| "holds_slot _ = True"

definition slots :: "(string \<times> flight) list \<Rightarrow> int" where
  "slots es = int (length (List.filter (\<lambda>e. holds_slot (snd e)) es))"

definition no_profiles :: "run_config \<Rightarrow> bool" where
  "no_profiles cfg \<longleftrightarrow> (\<forall>d. \<not> cf_profiles cfg d)"

definition acquires :: "flight \<Rightarrow> bool" where
  "acquires f \<longleftrightarrow> (\<exists>n r. f = Acquiring n r)"

definition slots_ok :: "run_config \<Rightarrow> scheduler \<Rightarrow> bool" where
  "slots_ok cfg w \<longleftrightarrow> sd_active w = slots (sd_in_flight w) \<and>
     (no_profiles cfg \<longrightarrow> sd_active w \<le> max 0 (cf_cap cfg) \<and> (\<forall>e\<in>set (sd_in_flight w). \<not> acquires (snd e)))"

lemma slots_simps [simp]:
  "slots [] = 0" "slots (e # es) = slots es + (if holds_slot (snd e) then 1 else 0)"
  "slots (es @ fs) = slots es + slots fs"
  by (simp_all add: slots_def)

lemma slots_remove [simp]: "e \<in> set es \<Longrightarrow> slots (remove1 e es) = slots es - (if holds_slot (snd e) then 1 else 0)"
  by (induction es) auto

lemma slots_nonneg [simp]: "0 \<le> slots es"
  by (simp add: slots_def)

lemma not_acquires_simps [simp]:
  "\<not> acquires Starting" "\<not> acquires (Executing n)" "acquires (Acquiring n r)" "is_parked f \<Longrightarrow> holds_slot f"
  "is_parked f \<Longrightarrow> \<not> acquires f"
  by (auto simp: acquires_def is_parked_def)

lemma set_remove1_in: "e \<in> set (remove1 x es) \<Longrightarrow> e \<in> set es"
  by (meson set_remove1_subset subsetD)

text \<open>A handler that leaves the frame alone and keeps its slot.\<close>

lemma handler_slots:
  assumes ok: "slots_ok cfg w" and e: "(i, g) \<in> set (sd_in_flight w)" "holds_slot g"
    and frame: "\<And>r w'. m w = (r, w') \<Longrightarrow> frame w' = frame w"
    and out: "\<And>f w'. m w = (Inr (Some f), w') \<Longrightarrow> holds_slot f \<and> (no_profiles cfg \<longrightarrow> \<not> acquires f)"
  shows "slots_ok cfg (run_handler (i, g) m w)"
proof -
  obtain r w' where run: "m w = (r, w')" by fastforce
  from frame [OF run] have fr: "sd_active w' = sd_active w" "sd_in_flight w' = sd_in_flight w" by (auto simp: frame_def)
  have land: "slots_ok cfg (land (i, g) w')" "slots_ok cfg ((land (i, g) w')\<lparr>sd_control := c\<rparr>)" for c
    using ok e fr by (auto simp: slots_ok_def land_def dest: set_remove1_in)
  show ?thesis
  proof (cases r)
    case (Inr x)
    show ?thesis
    proof (cases x)
      case (Some f)
      with out run Inr have "holds_slot f" "no_profiles cfg \<longrightarrow> \<not> acquires f" by auto
      then show ?thesis using ok e fr run Inr Some by (auto simp: slots_ok_def run_handler_def dest: set_remove1_in)
    qed (use run Inr land in \<open>simp add: run_handler_def\<close>)
  qed (use run land in \<open>simp add: run_handler_def\<close>)
qed

lemma startStage_slots: "slots_ok cfg w \<Longrightarrow> sd_active w < cf_cap cfg \<Longrightarrow> slots_ok cfg (startStage i w)"
  by (auto simp: startStage_def slots_ok_def set_stage_def)

lemma start_stages_slots: "slots_ok cfg w \<Longrightarrow> slots_ok cfg (start_stages (cf_cap cfg) ids w)"
proof (induction ids arbitrary: w)
  case (Cons i ids)
  then show ?case using startStage_slots [of cfg w i] by simp
qed simp

lemma slots_ok_frame: "frame w' = frame w \<Longrightarrow> slots_ok cfg w' = slots_ok cfg w"
  by (simp add: slots_ok_def frame_def)

lemma slots_ok_control [simp]: "slots_ok cfg (w\<lparr>sd_control := c\<rparr>) = slots_ok cfg w"
  by (simp add: slots_ok_def)

lemma obey_halt_simps [simp]:
  "frame (obey_halt w) = frame w" "sd_dag (obey_halt w) = sd_dag w" "sd_store (obey_halt w) = sd_store w"
  "sd_states (obey_halt w) = sd_states w" "sd_envelopes (obey_halt w) = sd_envelopes w"
  "sd_feedback (obey_halt w) = sd_feedback w" "sd_retry_roots (obey_halt w) = sd_retry_roots w"
  by (simp_all add: obey_halt_def frame_def)

text \<open>A round of the loop up to the start of stages.\<close>

definition settle_round :: "unit step" where
  "settle_round = chain (change (\<lambda>w. drainRetryMutations (obey_halt w))) (\<lambda>_.
     skip_and_log (\<lambda>w. applyStalledJoinSkips (sd_dag w) (sd_envelopes w)))"

lemma tick_split:
  "tick cfg = chain settle_round (\<lambda>_. change (\<lambda>w. let w = obey_halt w in
     if sd_halted w then w else start_stages (cf_cap cfg) (runnable w) w))"
  unfolding tick_def settle_round_def by (rule ext) (simp add: chain_def change_def split: prod.split sum.split)

lemma frame_settle: "settle_round w = (r, w') \<Longrightarrow> frame w' = frame w"
proof -
  have "keeps (\<lambda>v. frame v = frame w) settle_round"
    unfolding settle_round_def by (intro keeps keeps_frame_change bystander.keeps_skip_and_log skips) simp
  then show "settle_round w = (r, w') \<Longrightarrow> frame w' = frame w" using keeps_run by blast
qed

lemma frame_skip_rest [simp]: "frame (skip_rest w) = frame w"
  using keepsD [OF bystander.keeps_skip_silently, of "\<lambda>w. markSkippedPending (sd_dag w)" w] markSkippedPending_skips
  unfolding skip_rest_def by blast

lemma frame_after_tick: "sd_in_flight (after_tick w) = sd_in_flight w \<and> sd_active (after_tick w) = sd_active w \<and>
    sd_launched (after_tick w) = sd_launched w"
  using frame_skip_rest [of w] by (simp add: after_tick_def frame_def)

lemma round_slots: "slots_ok cfg w \<Longrightarrow> slots_ok cfg (loop_round cfg w)"
proof -
  assume ok: "slots_ok cfg w"
  obtain r w1 where settle: "settle_round w = (r, w1)" by fastforce
  from slots_ok_frame [OF frame_settle [OF settle]] ok have ok1: "slots_ok cfg w1" by simp
  then have "slots_ok cfg (obey_halt w1)" using slots_ok_frame [OF obey_halt_simps(1)] by blast
  then have started: "slots_ok cfg (let w = obey_halt w1 in if sd_halted w then w else start_stages (cf_cap cfg) (runnable w) w)"
    by (simp add: Let_def start_stages_slots)
  have after: "slots_ok cfg (after_tick v) = slots_ok cfg v" for v
    using frame_after_tick [of v] by (simp add: slots_ok_def)
  have tick: "tick cfg w = (case r of Inl e \<Rightarrow> (Inl e, w1)
      | Inr _ \<Rightarrow> (Inr (), let w = obey_halt w1 in if sd_halted w then w else start_stages (cf_cap cfg) (runnable w) w))"
    by (simp add: tick_split chain_def settle change_def split: sum.split)
  show ?thesis
    using ok ok1 started after by (cases r) (simp_all add: loop_round_def tick Let_def)
qed

lemma profile_slots:
  assumes ok: "slots_ok cfg w" and e: "(i, Acquiring n rel) \<in> set (sd_in_flight w)"
  shows "slots_ok cfg (run_handler (i, Acquiring n rel) (profileBusy i n rel) w)"
    "slots_ok cfg (run_handler (i, Acquiring n rel) (profileJoined i n rel) w)"
    "slots_ok cfg (run_handler (i, Acquiring n rel) (profileHalted i rel) w)"
proof -
  have p: "\<not> no_profiles cfg" using ok e by (force simp: slots_ok_def)
  have active: "sd_active w = slots (sd_in_flight w)" using ok by (simp add: slots_ok_def)
  obtain r s where run: "appendStageEvent i (EvOther ''message'') (Some n) (sd_store w) = (r, s)" by fastforce
  show "slots_ok cfg (run_handler (i, Acquiring n rel) (profileBusy i n rel) w)"
    using p active e run
    by (cases r) (auto simp: slots_ok_def run_handler_def profileBusy_def running shift_active_def land_def rescue_def
        log_event_def chain_via)
  let ?w = "shift_active (if rel then 1 else 0) w"
  obtain r' w' where joined: "begin_attempt i n ?w = (r', w')" by fastforce
  have fr: "sd_active w' = sd_active w + (if rel then 1 else 0)" "sd_in_flight w' = sd_in_flight w"
    using frames(3) [OF joined] by (auto simp: frame_def shift_active_def)
  have out: "f = Executing n" if "r' = Inr (Some f)" for f
    using outputsD [OF outputs_begin [of "\<lambda>f. f = Executing n"]] joined that by blast
  show "slots_ok cfg (run_handler (i, Acquiring n rel) (profileJoined i n rel) w)"
  proof (cases r')
    case (Inr x)
    then show ?thesis using p active e fr out joined
      by (cases x) (auto simp: slots_ok_def run_handler_def profileJoined_def running land_def)
  qed (use p active e fr joined in \<open>simp add: slots_ok_def run_handler_def profileJoined_def running land_def\<close>)
  show "slots_ok cfg (run_handler (i, Acquiring n rel) (profileHalted i rel) w)"
    using p active e by (simp add: slots_ok_def run_handler_def profileHalted_def running land_def shift_active_def set_stage_def)
qed

lemma conclude_frame: "conclude w = (r, w') \<Longrightarrow> frame w' = frame w"
proof -
  have "keeps (\<lambda>v. frame v = frame w) conclude" by (intro keeps_conclude keeps_frame_store) simp
  then show "conclude w = (r, w') \<Longrightarrow> frame w' = frame w" using keeps_run by blast
qed

lemma perform_slots: "slots_ok cfg w \<Longrightarrow> enabled w m \<Longrightarrow> slots_ok cfg (perform cfg m w)"
proof (induction m)
  case (Launch i)
  then show ?case
    by (auto intro!: handler_slots dest: frames outputsD [OF outputs_launch] simp: no_profiles_def)
next
  case (Finish i n r)
  then show ?case
    by (auto intro!: handler_slots dest: frames outputsD [OF outputs_finish])
next
  case (Decide i l n d)
  have k: "keeps (\<lambda>v. frame v = c) (succeed_or_fail cfg i (chain (on_decision cfg i l n d) (\<lambda>_. done_with None)))" for c
    by (intro bystander.keeps_succeed_or_fail keeps keeps_frame_decision)
  have "outputs (\<lambda>_. False) (succeed_or_fail cfg i (chain (on_decision cfg i l n d) (\<lambda>_. done_with None)))"
    unfolding succeed_or_fail_def by (intro outputs)
  with Decide show ?case by (auto intro!: handler_slots dest: keeps_run [OF k refl] outputsD)
next
  case Conclude
  obtain r w' where run: "conclude w = (r, w')" by fastforce
  from slots_ok_frame [OF conclude_frame [OF run]] Conclude show ?case by (cases r) (simp_all add: end_run_def run)
next
  case (RequestHalt b)
  then show ?case by (auto simp: slots_ok_def)
next
  case (RequestRetry i n)
  then show ?case by (auto simp: slots_ok_def)
qed (simp_all add: round_slots profile_slots)

lemma start_frame:
  "start_run cfg opts fallback s = Inr w \<Longrightarrow> sd_active w = 0 \<and> sd_in_flight w = [] \<and> sd_launched w = [] \<and>
     \<not> sd_halt_requested w \<and> (sd_control w = Looping \<or> (\<exists>e. sd_control w = Crashed e))"
proof -
  assume start: "start_run cfg opts fallback s = Inr w"
  then obtain w0 s0 where boot: "boot cfg opts fallback s = (Inr w0, s0)" and w: "w = crash_on_fault (prepare opts) w0"
    by (auto simp: start_run_def split: prod.splits sum.splits)
  have w0: "sd_active w0 = 0 \<and> sd_in_flight w0 = [] \<and> sd_launched w0 = [] \<and> \<not> sd_halt_requested w0 \<and> sd_control w0 = Looping"
    using boot by (auto simp: boot_def act elim!: andThen_InrE split: prod.splits)
  have load: "frame (load_envelope i v) = frame v" for i v by (simp add: load_envelope_def split: sum.split)
  have marked: "frame (mark_done i v) = frame v" for i v by (simp add: mark_done_def Let_def load)
  have fold: "frame (foldl (\<lambda>w n. if stageIndex n < k then mark_done (node_id n) w else w) v ns) = frame v" for k v ns
    by (induction ns arbitrary: v) (simp_all add: marked)
  have init: "frame (skip_ahead opts (resume_at opts v)) = frame v" for v
    by (simp add: skip_ahead_def resume_at_def fold marked split: option.split)
  have "keeps (\<lambda>v. frame v = frame w0) (prepare opts)"
    unfolding prepare_def
    by (intro keeps keeps_frame_change bystander.keeps_skip_and_log bystander.keeps_skip_conditions skips)
      (simp add: Let_def init)
  moreover obtain r w1 where run: "prepare opts w0 = (r, w1)" by fastforce
  ultimately have "frame w1 = frame w0" using keeps_run by blast
  then show ?thesis using w0 run w by (cases r) (auto simp: crash_on_fault_def frame_def)
qed

lemma reachable_slots: "reachable cfg opts fallback s w \<Longrightarrow> slots_ok cfg w"
proof (induction rule: reachable.induct)
  case (start w)
  then show ?case using start_frame by (auto simp: slots_ok_def dest!: start_frame)
next
  case (step w w')
  then show ?case by (auto elim!: sched_stepE intro: perform_slots)
qed

text \<open>
  C4: at every moment of a run the counter of active stages is the number of started stages that
  hold a slot, and when no stage asks for a browser profile it never exceeds the cap.
\<close>

theorem active_stages_within_cap:
  "reachable cfg opts fallback s w \<Longrightarrow>
   sd_active w = int (length (List.filter (\<lambda>e. holds_slot (snd e)) (sd_in_flight w))) \<and>
   (no_profiles cfg \<longrightarrow> int (length (sd_in_flight w)) \<le> max 0 (cf_cap cfg))"
proof -
  assume "reachable cfg opts fallback s w"
  from reachable_slots [OF this] have ok: "slots_ok cfg w" .
  have "holds_slot (snd e)" if "no_profiles cfg" "e \<in> set (sd_in_flight w)" for e
    using ok that by (cases "snd e") (auto simp: slots_ok_def acquires_def)
  then have "List.filter (\<lambda>e. holds_slot (snd e)) (sd_in_flight w) = sd_in_flight w" if "no_profiles cfg"
    using that by (auto intro: filter_True)
  then show ?thesis using ok by (auto simp: slots_ok_def slots_def)
qed

definition plain_config :: run_config where
  "plain_config = \<lparr>cf_uuid = sample_uuid, cf_message = (\<lambda>_. ''error''), cf_cap = 1, cf_parks = False,
     cf_mode = InProcessMode, cf_stages = (\<lambda>_. True), cf_profiles = (\<lambda>_. False)\<rparr>"

definition plain_options :: run_options where
  "plain_options = \<lparr>op_schedule = None, op_retry_roots = None, op_mutation_queue = False, op_resume_from = None,
     op_initial_prior = None, op_start_at = None\<rparr>"

definition chain_start :: scheduler where
  "chain_start = projr (start_run plain_config plain_options chain_sample blank_store)"

lemma perform_reachable:
  "reachable cfg opts fallback s w \<Longrightarrow> enabled w m \<Longrightarrow> reachable cfg opts fallback s (perform cfg m w)"
  by (rule reachable.step [OF _ sched_step.move])

theorem active_stages_within_cap_witness:
  "sd_in_flight (perform plain_config Round chain_start) = [(''a'', Starting)] \<and>
   sd_active (perform plain_config Round chain_start) = 1 \<and>
   int (length (sd_in_flight (perform plain_config Round chain_start))) \<le> 1"
proof -
  have run: "start_run plain_config plain_options chain_sample blank_store = Inr chain_start" by code_simp
  have "enabled chain_start Round" by code_simp
  from perform_reachable [OF reachable.start [OF run] this]
  have r: "reachable plain_config plain_options chain_sample blank_store (perform plain_config Round chain_start)" .
  have p: "no_profiles plain_config" "cf_cap plain_config = 1" by (simp_all add: no_profiles_def plain_config_def)
  have f: "sd_in_flight (perform plain_config Round chain_start) = [(''a'', Starting)]" by code_simp
  from active_stages_within_cap [OF r] show ?thesis unfolding f by (simp add: p)
qed

definition profile_config :: run_config where
  "profile_config = plain_config\<lparr>cf_profiles := (\<lambda>d. d = ''a'')\<rparr>"

definition overtaking :: "move list" where
  "overtaking = [Round, Launch ''a'', ProfileBusy ''a'' 1 False, Round, ProfileJoined ''a'' 1 True]"

fun trace :: "run_config \<Rightarrow> move list \<Rightarrow> scheduler \<Rightarrow> scheduler option" where
  "trace cfg [] w = Some w"
| "trace cfg (m # ms) w = (if enabled w m then trace cfg ms (perform cfg m w) else None)"

lemma trace_reachable: "reachable cfg opts fallback s w \<Longrightarrow> trace cfg ms w = Some w' \<Longrightarrow> reachable cfg opts fallback s w'"
  by (induction ms arbitrary: w) (auto split: if_splits intro: perform_reachable)

text \<open>
  C28: the cap does not hold for browser stages: a stage that gave up its slot behind another run's
  lease takes it back while another stage has it, so that two stages run under a cap of one.
\<close>

theorem browser_stages_exceed_cap:
  "\<exists>w. reachable profile_config plain_options join_sample blank_store w \<and>
     List.filter (\<lambda>e. holds_slot (snd e)) (sd_in_flight w) = [(''b'', Starting), (''a'', Executing 1)] \<and>
     sd_active w = 2 \<and> cf_cap profile_config = 1"
proof -
  let ?w0 = "projr (start_run profile_config plain_options join_sample blank_store)"
  have start: "start_run profile_config plain_options join_sample blank_store = Inr ?w0" by code_simp
  obtain w where run: "trace profile_config overtaking ?w0 = Some w"
    "sd_in_flight w = [(''b'', Starting), (''a'', Executing 1)]" "sd_active w = 2"
  proof -
    have "map_option (\<lambda>w. (sd_in_flight w, sd_active w)) (trace profile_config overtaking ?w0) =
      Some ([(''b'', Starting), (''a'', Executing 1)], 2)" by code_simp
    then show ?thesis using that by auto
  qed
  from trace_reachable [OF reachable.start [OF start] run(1)] run(2,3) show ?thesis
    by (auto simp: profile_config_def plain_config_def)
qed

end
