(* ===== verification/Schedule_Correct.thy ===== *)
theory Schedule_Correct
  imports Schedule_Ops
begin

text \<open>
  What the operations on the schedule achieve: the skips at a fork, the settled joins, the retry
  of a branch, the order of the runnable stages, and the agreement between the schedule and the
  run status derived from the stored stages.
\<close>

section \<open>Fork choices\<close>

lemma skip_cascade_mono:
  assumes "skip_cascade dag states' p obs i" "pending_keys states' \<subseteq> pending_keys states"
  shows "skip_cascade dag states p obs i"
  using assms
proof induction
  case (direct n)
  then show ?case by (intro skip_cascade.direct) (auto simp: pending_keys_def)
next
  case (onward i n)
  then show ?case by (intro skip_cascade.onward [of dag states p obs i]) (auto simp: pending_keys_def)
qed

text \<open>What a fork choice may skip: an unchosen child, or what skipping it rejects.\<close>

definition fork_skips :: "ResolvedPipelineDag \<Rightarrow> sched_states \<Rightarrow> string set \<Rightarrow> string \<Rightarrow> bool" where
  "fork_skips dag states unchosen i \<longleftrightarrow>
     jget states i = Some Pending \<and> (i \<in> unchosen \<or> (\<exists>c\<in>unchosen. skip_cascade dag states c NtSkipped i))"

lemma persistSkipRejected_log:
  "snd (persistSkipRejected dag p obs r) = snd r @ ids \<Longrightarrow>
   set ids = {i. skip_cascade dag (fst r) p obs i}"
proof -
  assume log: "snd (persistSkipRejected dag p obs r) = snd r @ ids"
  obtain states ids' where run: "skipRejectedNeedDependents dag p (fst r) obs = (states, ids')" by fastforce
  with log have "ids = ids'" by (simp add: persistSkipRejected_def)
  with skip_rejected_exact(2) [OF run] show ?thesis by simp
qed

lemma only_skips_log: "only_skips r r' \<Longrightarrow> \<exists>news. snd r' = snd r @ news"
  by (auto simp: only_skips_def)

lemma fork_step_sound:
  assumes "pending_keys (fst r) \<subseteq> pending_keys states" "c \<in> unchosen"
    "\<forall>i\<in>set (snd r) - old. fork_skips dag states unchosen i"
  shows "\<forall>i\<in>set (snd (persistSkipRejected dag c NtSkipped (skip_pending c r))) - old. fork_skips dag states unchosen i"
proof -
  let ?r = "skip_pending c r"
  have pend: "pending_keys (fst ?r) \<subseteq> pending_keys states"
    using only_skips_pending [OF skip_pending_skips, of c r] assms(1) by blast
  obtain ids where ids: "snd (persistSkipRejected dag c NtSkipped ?r) = snd ?r @ ids"
    using only_skips_log [OF persistSkipRejected_skips] by blast
  have "fork_skips dag states unchosen i" if "i \<in> set ids" for i
  proof -
    from persistSkipRejected_log [OF ids] that have "skip_cascade dag (fst ?r) c NtSkipped i" by simp
    then have "skip_cascade dag states c NtSkipped i" by (rule skip_cascade_mono) (rule pend)
    then show ?thesis
      using assms(2) by (auto simp: fork_skips_def elim: skip_cascade_lastE)
  qed
  moreover have "fork_skips dag states unchosen i" if "i \<in> set (snd ?r) - old" for i
    using that assms by (auto simp: skip_pending_def fork_skips_def pending_keys_def split: if_splits)
  ultimately show ?thesis unfolding ids by auto
qed

lemma fork_choice_sound:
  "pending_keys (fst r) \<subseteq> pending_keys states \<Longrightarrow> set cs - set prot - set chosen \<subseteq> unchosen \<Longrightarrow>
   \<forall>i\<in>set (snd r) - old. fork_skips dag states unchosen i \<Longrightarrow>
   \<forall>i\<in>set (snd (foldl (fork_child dag chosen prot) r cs)) - old. fork_skips dag states unchosen i"
proof (induction cs arbitrary: r)
  case (Cons c cs)
  let ?r = "fork_child dag chosen prot r c"
  have "pending_keys (fst ?r) \<subseteq> pending_keys states"
    using only_skips_pending [OF fork_child_skips, of dag chosen prot r c] Cons.prems(1) by (rule subset_trans)
  moreover have "\<forall>i\<in>set (snd ?r) - old. fork_skips dag states unchosen i"
  proof (cases "c \<in> set prot \<or> c \<in> set chosen")
    case False
    then have "c \<in> unchosen" using Cons.prems(2) by auto
    from fork_step_sound [OF Cons.prems(1) this Cons.prems(3)] False show ?thesis by (simp add: fork_child_def)
  qed (use Cons.prems(3) in \<open>simp add: fork_child_def\<close>)
  moreover have "set cs - set prot - set chosen \<subseteq> unchosen" using Cons.prems(2) by auto
  ultimately show ?case using Cons.IH [of ?r] by simp
qed simp

lemma fork_choice_done:
  "c \<in> set cs \<Longrightarrow> c \<notin> set prot \<Longrightarrow> c \<notin> set chosen \<Longrightarrow>
   jget (fst (foldl (fork_child dag chosen prot) r cs)) c \<noteq> Some Pending"
proof (induction cs arbitrary: r)
  case (Cons d cs)
  show ?case
  proof (cases "d = c")
    case True
    have "jget (fst (skip_pending c r)) c \<noteq> Some Pending" by (simp add: skip_pending_def)
    then have "jget (fst (fork_child dag chosen prot r c)) c \<noteq> Some Pending"
      using only_skips_get [OF persistSkipRejected_skips, of dag c NtSkipped "skip_pending c r" c] Cons.prems
      by (auto simp: fork_child_def)
    then show ?thesis
      using only_skips_get [OF only_skips_foldl [of "fork_child dag chosen prot", OF fork_child_skips], of "fork_child dag chosen prot r c" cs c]
        True by auto
  next
    case False
    then show ?thesis using Cons.IH [of "fork_child dag chosen prot r d"] Cons.prems by simp
  qed
qed simp

section \<open>Nothing behind a skipped stage stays pending\<close>

definition skip_closed :: "ResolvedPipelineDag \<Rightarrow> string set \<Rightarrow> sched_states \<Rightarrow> bool" where
  "skip_closed dag A states \<longleftrightarrow>
     (\<forall>i\<in>A. \<forall>n\<in>set (nodes dag). rejects dag i NtSkipped n \<longrightarrow> jget states (node_id n) \<noteq> Some Pending)"

lemma skip_closed_mono: "skip_closed dag A (fst r) \<Longrightarrow> only_skips r r' \<Longrightarrow> skip_closed dag A (fst r')"
  unfolding skip_closed_def using only_skips_pending by (fastforce simp: pending_keys_def)

lemma skip_closed_Un [simp]: "skip_closed dag (A \<union> B) states \<longleftrightarrow> skip_closed dag A states \<and> skip_closed dag B states"
  by (auto simp: skip_closed_def)

lemma skip_closed_insert [simp]:
  "skip_closed dag {} states"
  "skip_closed dag (insert i A) states \<longleftrightarrow>
     (\<forall>n\<in>set (nodes dag). rejects dag i NtSkipped n \<longrightarrow> jget states (node_id n) \<noteq> Some Pending) \<and> skip_closed dag A states"
  by (auto simp: skip_closed_def)

lemma persistSkipRejected_closed:
  assumes "skip_closed dag (set (snd r) - {p}) (fst r)"
  shows "skip_closed dag (set (snd (persistSkipRejected dag p NtSkipped r)) \<union> {p}) (fst (persistSkipRejected dag p NtSkipped r))"
proof -
  obtain states ids where run: "skipRejectedNeedDependents dag p (fst r) NtSkipped = (states, ids)" by fastforce
  then have r': "persistSkipRejected dag p NtSkipped r = (states, snd r @ ids)" by (simp add: persistSkipRejected_def)
  from skip_stack_closed [OF run [unfolded skipRejectedNeedDependents_def]]
  have "skip_closed dag ({p} \<union> set ids) states" by (auto simp: skip_closed_def)
  moreover have "skip_closed dag (set (snd r) - {p}) states"
    using skip_closed_mono [OF assms persistSkipRejected_skips [of r dag p NtSkipped]] r' by simp
  ultimately show ?thesis unfolding r' by (auto simp: skip_closed_def)
qed

lemma skip_pending_closed: "skip_closed dag (set (snd r)) (fst r) \<Longrightarrow> skip_closed dag (set (snd (skip_pending i r)) - {i}) (fst (skip_pending i r))"
  using skip_closed_mono [OF _ skip_pending_skips, of dag _ r i] by (auto simp: skip_pending_def skip_closed_def)

lemma persistSkipPending_closed:
  "skip_closed dag (set (snd r)) (fst r) \<Longrightarrow> skip_closed dag (set (snd (persistSkipPending dag i r))) (fst (persistSkipPending dag i r))"
  using persistSkipRejected_closed [OF skip_pending_closed, of dag r i] by (simp add: persistSkipPending_def)

lemma skip_each_closed:
  "skip_closed dag (set (snd r)) (fst r) \<Longrightarrow> skip_closed dag (set (snd (skip_each dag ids r))) (fst (skip_each dag ids r))"
  by (induction ids arbitrary: r) (simp_all add: skip_each_def persistSkipPending_closed)

lemma fork_choice_closed:
  "skip_closed dag (set (snd r) \<union> U) (fst r) \<Longrightarrow>
   skip_closed dag (set (snd (foldl (fork_child dag chosen prot) r cs)) \<union> (U \<union> (set cs - set prot - set chosen)))
     (fst (foldl (fork_child dag chosen prot) r cs))"
proof (induction cs arbitrary: r U)
  case (Cons c cs)
  let ?r = "fork_child dag chosen prot r c"
  show ?case
  proof (cases "c \<in> set prot \<or> c \<in> set chosen")
    case True
    have "set (c # cs) - set prot - set chosen = set cs - set prot - set chosen" using True by auto
    then show ?thesis using Cons.IH [OF Cons.prems] True by (simp add: fork_child_def)
  next
    case False
    have eq: "?r = persistSkipRejected dag c NtSkipped (skip_pending c r)" using False by (simp add: fork_child_def)
    have "skip_closed dag (set (snd r)) (fst r)" using Cons.prems by simp
    from persistSkipRejected_closed [OF skip_pending_closed [OF this], of c]
    have "skip_closed dag (set (snd ?r) \<union> {c}) (fst ?r)" unfolding eq .
    moreover have "skip_closed dag U (fst ?r)" using skip_closed_mono [OF _ fork_child_skips] Cons.prems by simp
    ultimately have "skip_closed dag (set (snd ?r) \<union> (U \<union> {c})) (fst ?r)" by simp
    from Cons.IH [OF this] have "skip_closed dag (set (snd (foldl (fork_child dag chosen prot) ?r cs)) \<union>
        ((U \<union> {c}) \<union> (set cs - set prot - set chosen))) (fst (foldl (fork_child dag chosen prot) ?r cs))" .
    moreover have "set (c # cs) - set prot - set chosen = insert c (set cs - set prot - set chosen)" using False by auto
    ultimately show ?thesis by (simp only: Un_assoc insert_is_Un [of c "set cs - set prot - set chosen"] foldl.simps)
  qed
qed simp

lemma cascade_done:
  assumes "skip_cascade dag states c NtSkipped i" "skip_closed dag (set skipped \<union> {c}) states'"
    and eff: "\<forall>k. jget states' k = (if k \<in> set skipped then Some Skipped else jget states k)"
  shows "i \<in> set skipped"
  using assms(1)
proof induction
  case (direct n)
  then have "jget states' (node_id n) \<noteq> Some Pending" using assms(2) by (auto simp: skip_closed_def)
  then show ?case using eff direct(2) by (metis (full_types))
next
  case (onward i n)
  then have "jget states' (node_id n) \<noteq> Some Pending" using assms(2) by (auto simp: skip_closed_def)
  then show ?case using eff onward(3) by (metis (full_types))
qed

text \<open>Skipping several stages, each with its cascade: exactly those and what lies behind them.\<close>

definition each_skips :: "ResolvedPipelineDag \<Rightarrow> sched_states \<Rightarrow> string set \<Rightarrow> string set" where
  "each_skips dag states A =
     {k. \<exists>c\<in>A. jget states c = Some Pending \<and> (k = c \<or> skip_cascade dag states c NtSkipped k)}"

lemma persistSkipPending_within:
  assumes "pending_keys (fst r) \<subseteq> pending_keys states" "set (snd r) \<subseteq> B" "each_skips dag states {c} \<subseteq> B"
  shows "set (snd (persistSkipPending dag c r)) \<subseteq> B"
proof (cases "jget (fst r) c = Some Pending")
  case True
  let ?r = "skip_pending c r"
  have p: "jget states c = Some Pending" using True assms(1) by (auto simp: pending_keys_def)
  obtain ids where ids: "snd (persistSkipRejected dag c NtSkipped ?r) = snd ?r @ ids"
    using only_skips_log [OF persistSkipRejected_skips] by blast
  have sub: "pending_keys (fst ?r) \<subseteq> pending_keys states"
    using only_skips_pending [OF skip_pending_skips [of r c]] assms(1) by (rule subset_trans)
  have "set ids \<subseteq> B"
    using persistSkipRejected_log [OF ids] skip_cascade_mono [OF _ sub] assms(3) p by (auto simp: each_skips_def)
  moreover have "set (snd ?r) \<subseteq> B" using assms(2,3) p by (auto simp: skip_pending_def each_skips_def)
  ultimately show ?thesis using True ids by (simp add: persistSkipPending_def)
qed (use assms in \<open>simp add: persistSkipPending_def\<close>)

lemma skip_each_within:
  "pending_keys (fst r) \<subseteq> pending_keys states \<Longrightarrow> set (snd r) \<subseteq> B \<Longrightarrow> each_skips dag states (set cs) \<subseteq> B \<Longrightarrow>
   set (snd (skip_each dag cs r)) \<subseteq> B"
proof (induction cs arbitrary: r)
  case (Cons c cs)
  let ?r = "persistSkipPending dag c r"
  have one: "each_skips dag states {c} \<subseteq> B" and rest: "each_skips dag states (set cs) \<subseteq> B"
    using Cons.prems(3) by (auto simp: each_skips_def)
  have "pending_keys (fst ?r) \<subseteq> pending_keys states"
    using only_skips_pending [OF persistSkipPending_skips [of r dag c]] Cons.prems(1) by (rule subset_trans)
  from Cons.IH [OF this persistSkipPending_within [OF Cons.prems(1,2) one] rest] show ?case by (simp add: skip_each_def)
qed (simp add: skip_each_def)

lemma skip_each_exact:
  assumes r: "only_skips (states, []) r" "skip_closed dag (set (snd r)) (fst r)"
  shows "set (snd (skip_each dag cs r)) = set (snd r) \<union> each_skips dag states (set cs)"
proof
  have "pending_keys (fst r) \<subseteq> pending_keys states" using only_skips_pending [OF r(1)] by simp
  from skip_each_within [OF this, of "set (snd r) \<union> each_skips dag states (set cs)" dag cs]
  show "set (snd (skip_each dag cs r)) \<subseteq> set (snd r) \<union> each_skips dag states (set cs)" by simp
  let ?r = "skip_each dag cs r"
  have all: "only_skips (states, []) ?r" by (rule only_skips_trans [OF r(1) skip_each_skips])
  then have eff: "\<forall>k. jget (fst ?r) k = (if k \<in> set (snd ?r) then Some Skipped else jget states k)" by (auto simp: only_skips_def)
  have closed: "skip_closed dag (set (snd ?r)) (fst ?r)" by (rule skip_each_closed [OF r(2)])
  have "c \<in> set (snd ?r)" if "c \<in> set cs" "jget states c = Some Pending" for c
    using skip_each_done [OF that(1), of dag r] that(2) eff by (metis (full_types))
  moreover have "k \<in> set (snd ?r)" if "c \<in> set (snd ?r)" "skip_cascade dag states c NtSkipped k" for c k
  proof -
    have "skip_closed dag (set (snd ?r) \<union> {c}) (fst ?r)" using closed that(1) by (simp add: insert_absorb)
    from cascade_done [OF that(2) this eff] show ?thesis .
  qed
  moreover have "set (snd r) \<subseteq> set (snd ?r)" using only_skips_log [OF skip_each_skips [of r dag cs]] by auto
  ultimately show "set (snd r) \<union> each_skips dag states (set cs) \<subseteq> set (snd ?r)" by (auto simp: each_skips_def)
qed

text \<open>The log of the skipped ids is only appended to.\<close>

lemma skip_logs:
  "persistSkipRejected dag p obs (m, ids) = (\<lambda>(m', js). (m', ids @ js)) (persistSkipRejected dag p obs (m, []))"
  "skip_pending i (m, ids) = (\<lambda>(m', js). (m', ids @ js)) (skip_pending i (m, []))"
  by (auto simp: persistSkipRejected_def skip_pending_def split: prod.split)

lemma persistSkipPending_logs:
  "persistSkipPending dag i (m, ids) = (\<lambda>(m', js). (m', ids @ js)) (persistSkipPending dag i (m, []))"
  using skip_logs(1) [of dag i NtSkipped "AList.update i Skipped m" "ids @ [i]"]
    skip_logs(1) [of dag i NtSkipped "AList.update i Skipped m" "[i]"]
  by (auto simp: persistSkipPending_def skip_pending_def split: prod.split)

lemma skip_each_logs:
  "skip_each dag cs (m, ids) = (\<lambda>(m', js). (m', ids @ js)) (skip_each dag cs (m, []))"
proof (induction cs arbitrary: m ids)
  case (Cons c cs)
  obtain m1 js where c: "persistSkipPending dag c (m, []) = (m1, js)" by fastforce
  then have "persistSkipPending dag c (m, ids) = (m1, ids @ js)" by (simp add: persistSkipPending_logs [of dag c m ids])
  then show ?case using c Cons.IH [of m1 "ids @ js"] Cons.IH [of m1 js] by (simp add: skip_each_def split: prod.split)
qed (simp add: skip_each_def)

section \<open>Properties\<close>

text \<open>
  C18: a fork choice skips exactly the pending stages that are an unchosen, unprotected child or lie in the
  rejection cascade of one, each once; no other state changes.
\<close>

theorem fork_choice_skips:
  assumes "applyForkChoiceToSchedule dag forkStage chosen prot (states, []) = (states', skipped)"
  shows "distinct skipped \<and>
    set skipped = {i. fork_skips dag states (set (children_of dag forkStage) - set prot - set chosen) i} \<and>
    (\<forall>k. jget states' k = (if k \<in> set skipped then Some Skipped else jget states k))"
proof -
  let ?unchosen = "set (children_of dag forkStage) - set prot - set chosen"
  have "only_skips (states, []) (states', skipped)" unfolding assms [symmetric] by (rule skips)
  then have d: "distinct skipped" and eff: "\<forall>k. jget states' k = (if k \<in> set skipped then Some Skipped else jget states k)"
    by (auto simp: only_skips_def)
  have "set skipped \<subseteq> {i. fork_skips dag states ?unchosen i}"
    using fork_choice_sound [of "(states, [])" states "children_of dag forkStage" prot chosen ?unchosen "{}" dag] assms
    by (auto simp: applyForkChoiceToSchedule_def)
  moreover have "i \<in> set skipped" if "fork_skips dag states ?unchosen i" for i
  proof -
    have closed: "skip_closed dag (set skipped \<union> ?unchosen) states'"
      using fork_choice_closed [of dag "(states, [])" "{}" chosen prot "children_of dag forkStage"] assms
      by (simp add: applyForkChoiceToSchedule_def skip_closed_def)
    from that consider "i \<in> ?unchosen" | c where "c \<in> ?unchosen" "skip_cascade dag states c NtSkipped i"
      by (auto simp: fork_skips_def)
    then show ?thesis
    proof cases
      case 1
      then have "jget states' i \<noteq> Some Pending"
        using fork_choice_done [of i "children_of dag forkStage" prot chosen dag "(states, [])"] assms
        by (auto simp: applyForkChoiceToSchedule_def)
      with eff that show ?thesis by (metis (full_types) fork_skips_def)
    next
      case 2
      then have "skip_closed dag (set skipped \<union> {c}) states'" using closed by (auto simp: skip_closed_def)
      from cascade_done [OF 2(2) this eff] show ?thesis .
    qed
  qed
  ultimately show ?thesis using d eff by blast
qed

theorem fork_choice_skips_witness:
  "\<exists>states'. applyForkChoiceToSchedule chain_sample ''a'' [] [] ([(''a'', Succeeded), (''b'', Pending), (''c'', Pending)], [])
      = (states', [''b'', ''c'']) \<and> jget states' ''c'' = Some Skipped"
proof -
  have run: "applyForkChoiceToSchedule chain_sample ''a'' [] [] ([(''a'', Succeeded), (''b'', Pending), (''c'', Pending)], [])
      = ([(''a'', Succeeded), (''b'', Skipped), (''c'', Skipped)], [''b'', ''c''])" by code_simp
  from fork_choice_skips [OF run] show ?thesis using run by auto
qed

text \<open>
  What settling skips: a pending join of skipped parents, or of succeeded parents with a condition that
  misses, and what lies behind a stage so skipped.
\<close>

inductive settles :: "ResolvedPipelineDag \<Rightarrow> envelopes \<Rightarrow> sched_states \<Rightarrow> string \<Rightarrow> bool"
  for dag envs states where
  all_skipped: "n \<in> set (nodes dag) \<Longrightarrow> length (predecessorEdges n) > 1 \<Longrightarrow> jget states (node_id n) = Some Pending \<Longrightarrow>
    (\<forall>i\<in>set (expandJoinParents dag (predecessorEdges n)). jget states i = Some Skipped \<or> settles dag envs states i) \<Longrightarrow>
    settles dag envs states (node_id n)"
| missed: "n \<in> set (nodes dag) \<Longrightarrow> length (predecessorEdges n) > 1 \<Longrightarrow> jget states (node_id n) = Some Pending \<Longrightarrow>
    parent_states dag n states \<subseteq> {Some Succeeded} \<Longrightarrow> Miss \<in> edge_results dag n envs \<Longrightarrow>
    settles dag envs states (node_id n)"
| behind: "settles dag envs states i \<Longrightarrow> n \<in> set (nodes dag) \<Longrightarrow> jget states (node_id n) = Some Pending \<Longrightarrow>
    rejects dag i NtSkipped n \<Longrightarrow> settles dag envs states (node_id n)"

lemma verdict_skips:
  "join_verdict dag n states envs = JoinSkips \<longleftrightarrow>
   parent_states dag n states \<subseteq> {Some Skipped} \<or>
   parent_states dag n states \<subseteq> {Some Succeeded} \<and> Miss \<in> edge_results dag n envs"
  by (auto simp: join_verdict_def Let_def)

lemma stalled_exact:
  "i \<in> set (pickStalledJoinSkips dag states envs) \<longleftrightarrow> (\<exists>n\<in>set (nodes dag). node_id n = i \<and>
     length (predecessorEdges n) > 1 \<and> jget states i = Some Pending \<and> join_verdict dag n states envs = JoinSkips)"
proof -
  have "length (predecessorEdges n) > 1" if "isStalledMultiParentJoin dag n states envs" for n
    using that by (auto simp: isStalledMultiParentJoin_def Let_def split: if_splits)
  then show ?thesis using join_stalled_iff [of _ dag states envs] by (auto simp: pickStalledJoinSkips_def)
qed

lemma settles_cascade: "skip_cascade dag states i NtSkipped j \<Longrightarrow> settles dag envs states i \<Longrightarrow> settles dag envs states j"
  by (induction rule: skip_cascade.induct) (auto intro: settles.behind)

definition settling :: "ResolvedPipelineDag \<Rightarrow> envelopes \<Rightarrow> sched_states \<Rightarrow> skip_result \<Rightarrow> bool" where
  "settling dag envs states r \<longleftrightarrow> only_skips (states, []) r \<and> (\<forall>i\<in>set (snd r). settles dag envs states i) \<and>
     skip_closed dag (set (snd r)) (fst r)"

lemma settling_get:
  "settling dag envs states r \<Longrightarrow> jget (fst r) k = (if k \<in> set (snd r) then Some Skipped else jget states k)"
  by (auto simp: settling_def only_skips_def)

lemma settling_pending: "settling dag envs states r \<Longrightarrow> jget (fst r) k = Some Pending \<Longrightarrow> jget states k = Some Pending"
  using settling_get [of dag envs states r k] by (auto split: if_splits)

lemma settling_stalled:
  assumes s: "settling dag envs states r" and i: "i \<in> set (pickStalledJoinSkips dag (fst r) envs)"
  shows "settles dag envs states i"
proof -
  from i obtain n where n: "n \<in> set (nodes dag)" "node_id n = i" "length (predecessorEdges n) > 1"
    "jget (fst r) i = Some Pending" "join_verdict dag n (fst r) envs = JoinSkips" by (auto simp: stalled_exact)
  have p: "jget states (node_id n) = Some Pending" using settling_pending [OF s] n(2,4) by simp
  have parent: "jget states j = Some Skipped \<or> settles dag envs states j" if "jget (fst r) j = Some Skipped" for j
    using that s settling_get [OF s, of j] by (auto simp: settling_def split: if_splits)
  have same: "jget states j = Some Succeeded" if "jget (fst r) j = Some Succeeded" for j
    using that settling_get [OF s, of j] by (simp split: if_splits)
  from n(5) consider "parent_states dag n (fst r) \<subseteq> {Some Skipped}"
    | "parent_states dag n (fst r) \<subseteq> {Some Succeeded}" "Miss \<in> edge_results dag n envs" by (auto simp: verdict_skips)
  then show ?thesis
  proof cases
    case 1
    then show ?thesis using settles.all_skipped [OF n(1,3) p] parent n(2) by (fastforce simp: parent_states_def)
  next
    case 2
    then have "parent_states dag n states \<subseteq> {Some Succeeded}" using same by (fastforce simp: parent_states_def)
    with settles.missed [OF n(1,3) p _ 2(2)] n(2) show ?thesis by simp
  qed
qed

lemma settling_step:
  assumes "settling dag envs states r" "settles dag envs states i"
  shows "settling dag envs states (persistSkipPending dag i r)"
proof (cases "jget (fst r) i = Some Pending")
  case True
  let ?r = "skip_pending i r"
  obtain ids where ids: "snd (persistSkipRejected dag i NtSkipped ?r) = snd ?r @ ids"
    using only_skips_log [OF persistSkipRejected_skips] by blast
  have sub: "pending_keys (fst ?r) \<subseteq> pending_keys states"
    using only_skips_pending [OF skip_pending_skips, of i r] settling_pending [OF assms(1)] by (auto simp: pending_keys_def)
  have "settles dag envs states j" if "j \<in> set ids" for j
  proof -
    from persistSkipRejected_log [OF ids] that have "skip_cascade dag (fst ?r) i NtSkipped j" by simp
    from settles_cascade [OF skip_cascade_mono [OF this sub] assms(2)] show ?thesis .
  qed
  moreover have "settles dag envs states j" if "j \<in> set (snd ?r)" for j
    using that assms by (auto simp: skip_pending_def settling_def split: if_splits)
  ultimately have "\<forall>j\<in>set (snd (persistSkipPending dag i r)). settles dag envs states j"
    using True ids by (auto simp: persistSkipPending_def)
  then show ?thesis using assms(1) persistSkipPending_closed only_skips_trans [OF _ persistSkipPending_skips]
    by (auto simp: settling_def)
qed (use assms in \<open>simp add: persistSkipPending_def\<close>)

lemma settling_each:
  "settling dag envs states r \<Longrightarrow> \<forall>i\<in>set ids. settles dag envs states i \<Longrightarrow> settling dag envs states (skip_each dag ids r)"
  by (induction ids arbitrary: r) (simp_all add: skip_each_def settling_step)

lemma settling_all: "settling dag envs states r \<Longrightarrow> settling dag envs states (applyStalledJoinSkips dag envs r)"
proof (induction dag envs r rule: applyStalledJoinSkips.induct)
  case (1 dag envs r)
  show ?case
  proof (cases "pickStalledJoinSkips dag (fst r) envs")
    case (Cons i ids)
    have "\<forall>j\<in>set (i # ids). settles dag envs states j"
      using settling_stalled [OF "1.prems"] unfolding Cons by blast
    from "1.IH" [OF Cons settling_each [OF "1.prems" this]] show ?thesis unfolding applyStalled_Cons [OF Cons] .
  qed (use 1 in \<open>simp add: applyStalled_Nil\<close>)
qed

lemma settled_all:
  assumes s: "settling dag envs states r" and none: "pickStalledJoinSkips dag (fst r) envs = []"
    and "settles dag envs states i"
  shows "i \<in> set (snd r)"
  using assms(3)
proof induction
  case (all_skipped n)
  have "parent_states dag n (fst r) \<subseteq> {Some Skipped}"
    using all_skipped(4) settling_get [OF s] by (auto simp: parent_states_def)
  then have "node_id n \<in> set (pickStalledJoinSkips dag (fst r) envs)" if "jget (fst r) (node_id n) = Some Pending"
    using that all_skipped(1,2) by (auto simp: stalled_exact verdict_skips)
  then show ?case using none all_skipped(3) settling_get [OF s, of "node_id n"] by (auto split: if_splits)
next
  case (missed n)
  have "jget (fst r) j = Some Succeeded" if "jget states j = Some Succeeded" for j
    using that s settling_get [OF s, of j] by (auto simp: settling_def only_skips_def pending_keys_def split: if_splits)
  then have "parent_states dag n (fst r) \<subseteq> {Some Succeeded}" using missed(4) by (fastforce simp: parent_states_def)
  then have "node_id n \<in> set (pickStalledJoinSkips dag (fst r) envs)" if "jget (fst r) (node_id n) = Some Pending"
    using that missed(1,2,5) by (auto simp: stalled_exact verdict_skips)
  then show ?case using none missed(3) settling_get [OF s, of "node_id n"] by (auto split: if_splits)
next
  case (behind i n)
  then have "jget (fst r) (node_id n) \<noteq> Some Pending" using s by (auto simp: settling_def skip_closed_def)
  then show ?case using behind(3) settling_get [OF s, of "node_id n"] by (auto split: if_splits)
qed

text \<open>
  C17: settling skips exactly the pending joins of skipped parents, those of succeeded parents with a
  condition that misses, and what lies behind a stage so skipped, each once, and changes nothing else.  A
  stage with several parents that is pending afterwards may run, or has a parent that is not terminal or has
  failed, or a condition that cannot be read.
\<close>

theorem settled_joins:
  assumes "applyStalledJoinSkips dag envs (states, []) = (states', skipped)"
  shows "distinct skipped \<and> set skipped = {i. settles dag envs states i} \<and>
    (\<forall>k. jget states' k = (if k \<in> set skipped then Some Skipped else jget states k)) \<and>
    (\<forall>n\<in>set (nodes dag). length (predecessorEdges n) > 1 \<longrightarrow> jget states' (node_id n) = Some Pending \<longrightarrow>
      join_verdict dag n states' envs = JoinRuns \<or>
      \<not> parent_states dag n states' \<subseteq> {Some Succeeded, Some Skipped} \<or>
      MissingField \<in> edge_results dag n envs)"
proof -
  have "settling dag envs states (states, [])" by (simp add: settling_def skip_closed_def skips)
  from settling_all [OF this] have s: "settling dag envs states (states', skipped)" unfolding assms .
  then have "only_skips (states, []) (states', skipped)" by (simp add: settling_def)
  then have d: "distinct skipped" and eff: "\<forall>k. jget states' k = (if k \<in> set skipped then Some Skipped else jget states k)"
    by (auto simp: only_skips_def)
  have none: "pickStalledJoinSkips dag (fst (states', skipped)) envs = []"
    using applyStalled_done [of dag envs "(states, [])"] unfolding assms .
  have "set skipped = {i. settles dag envs states i}" using settled_all [OF s none] s by (auto simp: settling_def)
  moreover have "join_verdict dag n states' envs = JoinRuns \<or> \<not> parent_states dag n states' \<subseteq> {Some Succeeded, Some Skipped} \<or>
      MissingField \<in> edge_results dag n envs"
    if n: "n \<in> set (nodes dag)" "length (predecessorEdges n) > 1" "jget states' (node_id n) = Some Pending" for n
  proof -
    have "join_verdict dag n states' envs \<noteq> JoinSkips" using none n stalled_exact [of "node_id n" dag states' envs] by auto
    moreover have "MissingField \<in> edge_results dag n envs"
      if "join_verdict dag n states' envs = JoinPends" "parent_states dag n states' \<subseteq> {Some Succeeded, Some Skipped}"
    proof -
      have "\<not> edge_results dag n envs \<subseteq> {Fire}" "Miss \<notin> edge_results dag n envs"
        using that by (auto simp: join_verdict_def Let_def split: if_splits)
      then obtain x where "x \<in> edge_results dag n envs" "x \<noteq> Fire" "x \<noteq> Miss" by auto
      then show ?thesis by (cases x) auto
    qed
    ultimately show ?thesis by (cases "join_verdict dag n states' envs") auto
  qed
  ultimately show ?thesis using d eff by blast
qed

text \<open>Of two joins one has a skipped parent and a parent that runs, the other two skipped parents.\<close>

definition two_joins :: ResolvedPipelineDag where
  "two_joins =
     join_sample\<lparr>nodes := nodes join_sample @ [(plain_node ''d''), (plain_node ''e'')
        \<lparr>needsEdges := Some [succeeded_edge ''a'', succeeded_edge ''d'']\<rparr>,
        (plain_node ''f'')\<lparr>needsEdges := Some [succeeded_edge ''c'']\<rparr>]\<rparr>"

theorem settled_joins_witness:
  "{i. settles two_joins [] [(''a'', Skipped), (''b'', Skipped), (''c'', Pending), (''d'', Active), (''e'', Pending), (''f'', Pending)] i}
     = {''c'', ''f''}"
proof -
  have "applyStalledJoinSkips two_joins [] ([(''a'', Skipped), (''b'', Skipped), (''c'', Pending), (''d'', Active), (''e'', Pending), (''f'', Pending)], [])
      = ([(''a'', Skipped), (''b'', Skipped), (''c'', Skipped), (''d'', Active), (''e'', Pending), (''f'', Skipped)], [''c'', ''f''])"
    by code_simp
  from settled_joins [OF this] show ?thesis by auto
qed

section \<open>Retry mutations\<close>

lemma foldl_reset_states:
  "distinct ids \<Longrightarrow>
   jget (foldl (\<lambda>states i. if P i (jget states i) then states else jset states i Pending) states ids) k =
   (if k \<in> set ids \<and> \<not> P k (jget states k) then Some Pending else jget states k)"
  by (induction ids arbitrary: states) auto

lemma set_delta_reset_ids:
  "set (delta_reset_ids dag i) =
     insert i ({y. (i, y) \<in> {(x, y). y \<in> set (retry_children dag x)}\<^sup>+} \<union> set (sequentialLaterCloneIds dag i))"
  using retry.result_eq [of dag "[i]"] by (auto simp: delta_reset_ids_def)

text \<open>
  C19: a retry of a running schedule resets exactly the retried stage, the stages it reaches and the
  later clones of a sequential chain: they become pending, except those that are active and a
  retried stage that was already relaunched and succeeded; all their envelopes are dropped, and no
  other stage or envelope changes.
\<close>

theorem retry_delta_exact:
  "applyRetryRootDelta dag stageId n launched (states, envs, rs) = (states', envs', rs') \<Longrightarrow>
   (\<forall>k. let reset = k \<in> insert stageId ({y. (stageId, y) \<in> {(x, y). y \<in> set (retry_children dag x)}\<^sup>+} \<union>
              set (sequentialLaterCloneIds dag stageId));
            kept = jget states k = Some Active \<or> k = stageId \<and> jget states k = Some Succeeded \<and> k \<in> set launched
        in jget states' k = (if reset \<and> \<not> kept then Some Pending else jget states k) \<and>
           jget envs' k = (if reset then None else jget envs k)) \<and>
   rs' = jset rs stageId n"
proof -
  assume run: "applyRetryRootDelta dag stageId n launched (states, envs, rs) = (states', envs', rs')"
  have d: "distinct (delta_reset_ids dag stageId)" by (simp add: delta_reset_ids_def)
  have step: "(if a then x else if b then x else y) = (if a \<or> b then x else y)" for a b and x y :: sched_states by simp
  have states': "states' = foldl (\<lambda>states i. if jget states i = Some Active \<or> i = stageId \<and> jget states i = Some Succeeded \<and>
        i \<in> set launched then states else jset states i Pending) states (delta_reset_ids dag stageId)"
    and rest: "envs' = foldl jdel envs (delta_reset_ids dag stageId)" "rs' = jset rs stageId n"
    using run by (simp_all add: applyRetryRootDelta_def step)
  show ?thesis
    unfolding states' foldl_reset_states [OF d, of "\<lambda>i st. st = Some Active \<or> i = stageId \<and> st = Some Succeeded \<and> i \<in> set launched"]
      rest jget_foldl_jdel set_delta_reset_ids Let_def by simp
qed

theorem retry_delta_exact_witness:
  "\<exists>states' envs'. applyRetryRootDelta chain_sample ''b'' 2 []
      ([(''a'', Succeeded), (''b'', Failed), (''c'', Skipped)], [(''b'', failure_envelope ''no'')], [])
      = (states', envs', [(''b'', 2)]) \<and> jget states' ''b'' = Some Pending \<and> jget envs' ''b'' = None"
proof -
  obtain states' envs' rs' where run: "applyRetryRootDelta chain_sample ''b'' 2 []
      ([(''a'', Succeeded), (''b'', Failed), (''c'', Skipped)], [(''b'', failure_envelope ''no'')], [])
      = (states', envs', rs')" by (metis prod_cases3)
  from retry_delta_exact [OF run] have
    "jget states' ''b'' = Some Pending \<and> jget envs' ''b'' = None" "rs' = [(''b'', 2)]"
    by (auto simp: Let_def dest!: spec [of _ "''b''"])
  then show ?thesis using run by auto
qed

section \<open>Choosing what to run\<close>

text \<open>The \<open>needs\<close> of a stage with one inbound edge names its parent, as the resolver and the fan-out leave it.\<close>

definition needs_agree :: "ResolvedPipelineStageNode \<Rightarrow> bool" where
  "needs_agree n = (case predecessorEdges n of [e] \<Rightarrow> nonempty_needs n \<in> {None, Some (edge_id e)} | _ \<Rightarrow> True)"

lemma runs_by_verdict:
  assumes "distinct (map node_id (nodes dag))" "n \<in> set (nodes dag)" "needs_agree n"
  shows "joinAllowsRun dag (node_id n) states envs \<longleftrightarrow> predecessorEdges n = [] \<or> join_verdict dag n states envs = JoinRuns"
proof (cases "predecessorEdges n")
  case (Cons e es)
  show ?thesis
  proof (cases "2 \<le> length (expandJoinParents dag (predecessorEdges n))")
    case True
    then show ?thesis using Cons join_runs_iff [OF True]
      by (simp add: joinAllowsRun_def find_node_eq [OF assms(1,2)])
  next
    case False
    then have "es = []" using expandJoinParents_length [of "predecessorEdges n" dag] Cons by (cases es) simp_all
    then obtain i where i: "expandJoinParent dag (edge_id e) = [i]"
      using False Cons expandJoinParent_nonempty [of dag "edge_id e"]
      by (cases "expandJoinParent dag (edge_id e)") (auto simp: expandJoinParents_def Suc_le_eq)
    have pred: "predecessorEdges n = [e]" using Cons \<open>es = []\<close> by simp
    have "parent_states dag n states = {jget states i}" using pred i by (simp add: parent_states_def expandJoinParents_def)
    moreover have "edge_results dag n envs = (case edge_if e of None \<Rightarrow> {} | Some q \<Rightarrow> {evaluateRouteIf q (payload_of envs i)})"
      using pred i by (auto simp: edge_results_def split: option.split)
    ultimately have "join_verdict dag n states envs = JoinRuns \<longleftrightarrow>
        jget states i = Some Succeeded \<and> (edge_if e = None \<or> inboundEdgeFired e i states envs)"
      by (auto simp: join_verdict_def Let_def inboundEdgeFired_def split: option.split)
    moreover have "joinAllowsRun dag (node_id n) states envs \<longleftrightarrow>
        jget states i = Some Succeeded \<and> (edge_if e = None \<or> inboundEdgeFired e i states envs)"
      using assms(3) pred i
      by (auto simp: joinAllowsRun_def find_node_eq [OF assms(1,2)] needs_agree_def expandJoinParents_def split: option.split)
    ultimately show ?thesis using pred by simp
  qed
qed (simp add: joinAllowsRun_def find_node_eq [OF assms(1,2)])

lemma index_of_here: "x \<notin> set us \<Longrightarrow> index_of (us @ x # vs) x = Some (length us)"
  by (induction us) auto

lemma previous_clone:
  "\<not> sequentialPreviousUnsatisfied dag i states \<longleftrightarrow>
   (\<forall>us p vs. sequentialInstanceList dag i = Some (us @ p # i # vs) \<and> i \<notin> set (us @ [p]) \<longrightarrow> jget states p = Some Succeeded)"
  (is "_ \<longleftrightarrow> ?rhs")
proof (cases "sequentialInstanceList dag i")
  case seq: (Some xs)
  show ?thesis
  proof (cases "index_of xs i")
    case None
    then have "i \<notin> set xs" by (simp add: index_of_None_iff)
    then show ?thesis using seq None by (auto simp: sequentialPreviousUnsatisfied_def)
  next
    case (Some k)
    define us vs where "us = take k xs" and "vs = drop (Suc k) xs"
    have xs: "xs = us @ i # vs" "length us = k"
      using index_of_SomeD [OF Some] by (auto simp: us_def vs_def id_take_nth_drop)
    have same: "us = us' @ [p] \<and> vs = vs'" if "xs = us' @ p # i # vs'" "i \<notin> set (us' @ [p])" for us' p vs'
    proof -
      have eq: "us @ i # vs = (us' @ [p]) @ i # vs'" using that(1) xs by simp
      have "length us = length (us' @ [p])" using index_of_here [OF that(2), of vs'] eq Some xs by simp
      from append_eq_append_conv [of us "us' @ [p]" "i # vs" "i # vs'"] this eq show ?thesis by blast
    qed
    have out: "i \<notin> set us" using index_of_take [OF Some] by (simp add: us_def)
    have rhs: "?rhs \<longleftrightarrow> (\<forall>us' p. us = us' @ [p] \<longrightarrow> jget states p = Some Succeeded)"
    proof
      assume r: ?rhs
      show "\<forall>us' p. us = us' @ [p] \<longrightarrow> jget states p = Some Succeeded"
      proof (intro allI impI)
        fix us' p assume "us = us' @ [p]"
        then have "sequentialInstanceList dag i = Some (us' @ p # i # vs)" "i \<notin> set (us' @ [p])" using seq xs(1) out by auto
        with r show "jget states p = Some Succeeded" by blast
      qed
    next
      assume l: "\<forall>us' p. us = us' @ [p] \<longrightarrow> jget states p = Some Succeeded"
      show ?rhs
      proof (intro allI impI)
        fix us' p vs' assume *: "sequentialInstanceList dag i = Some (us' @ p # i # vs') \<and> i \<notin> set (us' @ [p])"
        with seq same [of us' p vs'] l show "jget states p = Some Succeeded" by simp
      qed
    qed
    show ?thesis unfolding rhs
    proof (cases us rule: rev_cases)
      case Nil
      then show "\<not> sequentialPreviousUnsatisfied dag i states \<longleftrightarrow> (\<forall>us' p. us = us' @ [p] \<longrightarrow> jget states p = Some Succeeded)"
        using seq Some xs(2) by (simp add: sequentialPreviousUnsatisfied_def)
    next
      case (snoc us' p)
      then have "k = Suc (length us')" "xs ! length us' = p" using xs by simp_all
      then show "\<not> sequentialPreviousUnsatisfied dag i states \<longleftrightarrow> (\<forall>us' p. us = us' @ [p] \<longrightarrow> jget states p = Some Succeeded)"
        using seq Some snoc by (simp add: sequentialPreviousUnsatisfied_def)
    qed
  qed
qed (simp add: sequentialPreviousUnsatisfied_def)

text \<open>
  C16: the stages picked to run are exactly those that are pending and not held, whose parents give the
  verdict to run (or that have none), that have not been fanned out into clones, and whose predecessor in
  a sequential clone chain has succeeded; each once, in the order of their stage index; none when the
  schedule is halted.
\<close>

theorem pickRunnable_exact:
  assumes "distinct (map node_id (nodes dag))" "\<forall>n\<in>set (nodes dag). needs_agree n"
  shows "distinct (pickRunnable dag states halted envs held) \<and>
   sorted (map (stage_index_of dag) (pickRunnable dag states halted envs held)) \<and>
   set (pickRunnable dag states halted envs held) =
     {i. \<not> halted \<and> i \<notin> set held \<and> jget states i = Some Pending \<and>
        (\<exists>n\<in>set (nodes dag). node_id n = i \<and> (predecessorEdges n = [] \<or> join_verdict dag n states envs = JoinRuns)) \<and>
        set (definitionInstances dag i) \<subseteq> {i} \<and>
        (\<forall>us p vs. sequentialInstanceList dag i = Some (us @ p # i # vs) \<and> i \<notin> set (us @ [p]) \<longrightarrow>
           jget states p = Some Succeeded)}"
proof -
  have "joinAllowsRun dag i states envs \<longleftrightarrow>
      (\<exists>n\<in>set (nodes dag). node_id n = i \<and> (predecessorEdges n = [] \<or> join_verdict dag n states envs = JoinRuns))"
    if i: "i \<in> node_id ` set (nodes dag)" for i
  proof -
    from i obtain n where n: "n \<in> set (nodes dag)" "node_id n = i" by auto
    have "m = n" if "m \<in> set (nodes dag)" "node_id m = i" for m
      using find_node_eq [OF assms(1) n(1)] find_node_eq [OF assms(1) that(1)] that(2) n(2) by simp
    then show ?thesis using runs_by_verdict [OF assms(1) n(1)] assms(2) n by blast
  qed
  moreover have "cloneScheduleAllowsRun dag i states \<longleftrightarrow> set (definitionInstances dag i) \<subseteq> {i} \<and> \<not> sequentialPreviousUnsatisfied dag i states"
    for i by (auto simp: cloneScheduleAllowsRun_def list_ex_iff)
  moreover have "distinct (pickRunnable dag states halted envs held) \<and>
      sorted (map (stage_index_of dag) (pickRunnable dag states halted envs held))"
    using assms(1) by (simp add: pickRunnable_def sortRunnableIds_def)
  ultimately show ?thesis
    by (auto simp: pickRunnable_def sortRunnableIds_def isRunnable_def previous_clone)
qed

text \<open>A join whose parents have succeeded runs, and so does nothing else.\<close>

theorem pickRunnable_exact_witness:
  "''c'' \<in> set (pickRunnable join_sample join_sample_states False [(''b'', success_envelope [(''ok'', JBool True)])] []) \<and>
   join_verdict join_sample (nodes join_sample ! 2) join_sample_states [(''b'', success_envelope [(''ok'', JBool True)])] = JoinRuns"
proof -
  let ?envs = "[(''b'', success_envelope [(''ok'', JBool True)])]"
  have d: "distinct (map node_id (nodes join_sample))" and agree: "\<forall>n\<in>set (nodes join_sample). needs_agree n" by code_simp+
  have picked: "''c'' \<in> set (pickRunnable join_sample join_sample_states False ?envs [])" by code_simp
  from pickRunnable_exact [OF d agree, of join_sample_states False ?envs "[]"] picked obtain n where
    n: "n \<in> set (nodes join_sample)" "node_id n = ''c''"
    "predecessorEdges n = [] \<or> join_verdict join_sample n join_sample_states ?envs = JoinRuns" by blast
  have c: "nodes join_sample ! 2 \<in> set (nodes join_sample)" "node_id (nodes join_sample ! 2) = ''c''"
    "predecessorEdges (nodes join_sample ! 2) \<noteq> []" by code_simp+
  have "n = nodes join_sample ! 2"
    using find_node_eq [OF d n(1)] find_node_eq [OF d c(1)] n(2) c(2) by simp
  with n(3) c(3) picked show ?thesis by simp
qed

end
