(* ===== verification/Status_Agreement.thy ===== *)
theory Status_Agreement
  imports Schedule_Correct
begin

text \<open>
  The run status that the store derives from its stage snapshots and the tests of the scheduler on its
  schedule states are computed by different code; they agree on the states hydrated from the same
  snapshots, before skipped stages are reopened (Status_Outcome goes on from there).  The second
  part is the schedule a retry starts from.
\<close>

section \<open>The stages of a planned run\<close>

lemma overlay_stage_id:
  "(\<And>x. jget byId i = Some x \<Longrightarrow> snap_stage_id x = i) \<Longrightarrow> snap_stage_id (overlay_stage byId ns i) = i"
  by (auto simp: overlay_stage_def Let_def or_else_def syntheticPendingSnapshot_def split: option.split)

lemma jmap_by_SomeD: "jget (jmap_by f xs) k = Some x \<Longrightarrow> x \<in> set xs \<and> f x = k"
  unfolding jget_jmap_by by (drule find_SomeD) simp

lemma planned_ids [simp]: "map snap_stage_id (overlayPlannedStages ids snaps ns) = ids"
  by (induction ids) (auto simp: overlayPlannedStages_def intro!: overlay_stage_id dest: jmap_by_SomeD)

lemma overlay_definition:
  assumes "distinct (map node_id ns)" "n \<in> set ns" "node_id n = i"
  shows "snap_definition_id (overlay_stage byId ns i) = Some (definition_of n)"
proof -
  have "jget (jmap_by node_id ns) i = Some n"
    using assms by (simp add: jget_jmap_by_distinct find_distinct_key)
  then show ?thesis
    by (auto simp: overlay_stage_def Let_def or_else_def definition_of_def split: option.split)
qed

text \<open>The stages read back for a well-formed DAG: one per planned id, with the definition of its node.\<close>

definition planned :: "ResolvedPipelineDag \<Rightarrow> StageSnapshot list \<Rightarrow> bool" where
  "planned dag stages \<longleftrightarrow> wf_snapshot dag \<and> map snap_stage_id stages = snapshot_ids dag \<and>
     (\<forall>x\<in>set stages. \<forall>n\<in>set (nodes dag). node_id n = snap_stage_id x \<longrightarrow>
        snap_definition_id x = Some (definition_of n))"

abbreviation by_id :: "StageSnapshot list \<Rightarrow> snaps_by_id" where
  "by_id stages \<equiv> jmap_by snap_stage_id stages"

text \<open>The states that hydration reads off the snapshots, before it reopens skipped stages.\<close>

definition hydrated_states :: "ResolvedPipelineDag \<Rightarrow> StageSnapshot list \<Rightarrow> StageExecutionMode \<Rightarrow> sched_states" where
  "hydrated_states dag stages mode = states_from_snapshots [] mode stages (pending_nodes dag)"

lemma distinct_stages: "planned dag stages \<Longrightarrow> distinct (map snap_stage_id stages)"
  by (simp add: planned_def wf_snapshot_def)

lemma planned_keys:
  assumes "planned dag stages"
  shows "snap_stage_id ` set stages = node_id ` set (nodes dag)"
proof -
  have "set (map snap_stage_id stages) = set (snapshot_ids dag)" using assms by (simp add: planned_def)
  moreover have "set (snapshot_ids dag) = node_id ` set (nodes dag)" using assms by (simp add: planned_def wf_snapshot_def)
  ultimately show ?thesis by simp
qed

lemma stage_of_node:
  assumes "planned dag stages" "n \<in> set (nodes dag)"
  shows "\<exists>x\<in>set stages. snap_stage_id x = node_id n"
proof -
  have "node_id n \<in> snap_stage_id ` set stages" using assms by (simp add: planned_keys)
  then show ?thesis by force
qed

lemma node_of_stage:
  assumes "planned dag stages" "x \<in> set stages"
  shows "\<exists>n\<in>set (nodes dag). node_id n = snap_stage_id x"
proof -
  have "snap_stage_id x \<in> node_id ` set (nodes dag)" using assms planned_keys [OF assms(1)] by blast
  then show ?thesis by force
qed

lemma by_id_eq: "planned dag stages \<Longrightarrow> x \<in> set stages \<Longrightarrow> jget (by_id stages) (snap_stage_id x) = Some x"
  using distinct_stages [of dag stages] by (simp add: jget_jmap_by_distinct find_distinct_key)

lemma states_eq:
  "planned dag stages \<Longrightarrow> x \<in> set stages \<Longrightarrow> jget (hydrated_states dag stages mode) (snap_stage_id x) =
     Some (snapshotToScheduleState (snap_status x) [] (snap_stage_id x) mode)"
  unfolding hydrated_states_def states_from_snapshots_def jget_foldl_jset
  using distinct_stages [of dag stages] by (simp add: find_rev_distinct find_distinct_key)

lemma state_failed_iff: "snapshotToScheduleState st [] i mode = Failed \<longleftrightarrow> st = SsFailed"
  by (cases st) (auto simp: snapshotToScheduleState_def)

lemma state_skipped_iff: "snapshotToScheduleState st [] i mode = Skipped \<longleftrightarrow> st = SsSkipped"
  by (cases st) (auto simp: snapshotToScheduleState_def)

lemma terminal_iff:
  "terminalState (snapshotToScheduleState st [] i mode) \<longleftrightarrow> st = SsSucceeded \<or> st = SsFailed \<or> st = SsSkipped"
  by (cases st) (auto simp: snapshotToScheduleState_def)

lemma definition_eq:
  assumes p: "planned dag stages" and x: "x \<in> set stages"
  shows "definitionIdForStage (nodes dag) (snap_stage_id x) (by_id stages) = definitionIdForInstance (asDagSnapshot dag) (snap_stage_id x)"
proof -
  obtain n where n: "n \<in> set (nodes dag)" "node_id n = snap_stage_id x" using node_of_stage [OF p x] by blast
  have d: "distinct (map node_id (nodes dag))" using p by (simp add: planned_def wf_snapshot_def)
  have found: "find_node dag (snap_stage_id x) = Some n" using find_node_eq [OF d n(1)] n(2) by simp
  have named: "snap_definition_id x = Some (definition_of n)" using p x n by (simp add: planned_def)
  have "List.find (\<lambda>m. node_id m = snap_stage_id x) (nodes dag) = Some n" using found by (simp add: find_node_def)
  then show ?thesis
    using by_id_eq [OF p x] named found n(2)
    by (auto simp: definitionIdForStage_def definitionIdForInstance_def definition_of_def split: option.split)
qed

lemma accepted_eq:
  assumes p: "planned dag stages" and x: "x \<in> set stages"
  shows "failureAcceptedByJoin (nodes dag) (snap_stage_id x) (by_id stages) = failureIsAccepted dag (snap_stage_id x) (hydrated_states dag stages mode)"
proof -
  have "(case jget (by_id stages) (node_id n) of None \<Rightarrow> False | Some j \<Rightarrow> snap_status j \<noteq> SsSkipped) \<longleftrightarrow>
      jget (hydrated_states dag stages mode) (node_id n) \<noteq> None \<and> jget (hydrated_states dag stages mode) (node_id n) \<noteq> Some Skipped"
    if n: "n \<in> set (nodes dag)" for n
  proof -
    obtain y where y: "y \<in> set stages" "snap_stage_id y = node_id n" using stage_of_node [OF p n] by blast
    show ?thesis using by_id_eq [OF p y(1)] states_eq [OF p y(1), of mode] y(2) by (simp add: state_skipped_iff)
  qed
  then show ?thesis
    unfolding failureAcceptedByJoin_def failureIsAccepted_def Let_def definition_eq [OF p x] parentNeedEdge_def list_ex_iff
    by (intro bex_cong refl) (auto split: option.splits)
qed

lemma unhandled_iff:
  assumes p: "planned dag stages"
  shows "findUnhandledFailedStage stages (Some (nodes dag)) \<noteq> None \<longleftrightarrow> scheduleHasUnhandledFailure dag (hydrated_states dag stages mode)"
proof
  assume "findUnhandledFailedStage stages (Some (nodes dag)) \<noteq> None"
  then obtain x where x: "x \<in> set stages" "snap_status x = SsFailed"
    "\<not> failureAcceptedByJoin (nodes dag) (snap_stage_id x) (by_id stages)"
    by (auto simp: findUnhandledFailedStage_def Let_def find_eq_None_iff)
  then have "jget (hydrated_states dag stages mode) (snap_stage_id x) = Some Failed"
    using states_eq [OF p x(1), of mode] by (simp add: state_failed_iff)
  with x(3) accepted_eq [OF p x(1), of mode] show "scheduleHasUnhandledFailure dag (hydrated_states dag stages mode)"
    unfolding scheduleHasUnhandledFailure_def list_ex_iff by (intro bexI [OF _ jget_SomeD]) auto
next
  assume "scheduleHasUnhandledFailure dag (hydrated_states dag stages mode)"
  then obtain i where i: "jget (hydrated_states dag stages mode) i = Some Failed" "\<not> failureIsAccepted dag i (hydrated_states dag stages mode)"
    by (auto simp: scheduleHasUnhandledFailure_def list_ex_iff)
  have pend: "jget (pending_nodes dag) i \<noteq> Some Failed"
    by (auto simp: pending_nodes_def jget_foldl_jset split: option.splits)
  obtain x where x: "x \<in> set stages" "snap_stage_id x = i"
    using i(1) pend unfolding hydrated_states_def states_from_snapshots_def jget_foldl_jset
    by (auto split: option.splits dest: find_SomeD)
  have "snap_status x = SsFailed" using states_eq [OF p x(1), of mode] i(1) x(2) state_failed_iff [of "snap_status x" i mode] by simp
  moreover have "\<not> failureAcceptedByJoin (nodes dag) (snap_stage_id x) (by_id stages)"
    using accepted_eq [OF p x(1), of mode] i(2) x(2) by simp
  ultimately show "findUnhandledFailedStage stages (Some (nodes dag)) \<noteq> None"
    using x(1) by (auto simp: findUnhandledFailedStage_def Let_def find_eq_None_iff)
qed

lemma all_terminal_iff:
  assumes p: "planned dag stages"
  shows "allTerminal dag (hydrated_states dag stages mode) \<longleftrightarrow> (\<forall>x\<in>set stages. snap_status x \<in> {SsSucceeded, SsFailed, SsSkipped})"
proof -
  have "allTerminal dag (hydrated_states dag stages mode) \<longleftrightarrow> (\<forall>x\<in>set stages. terminalState (the (jget (hydrated_states dag stages mode) (snap_stage_id x))))"
    unfolding allTerminal_def list_all_iff
  proof
    assume "\<forall>n\<in>set (nodes dag). case jget (hydrated_states dag stages mode) (node_id n) of None \<Rightarrow> False | Some st \<Rightarrow> terminalState st"
    then show "\<forall>x\<in>set stages. terminalState (the (jget (hydrated_states dag stages mode) (snap_stage_id x)))"
      using node_of_stage [OF p] by (fastforce split: option.splits)
  next
    assume *: "\<forall>x\<in>set stages. terminalState (the (jget (hydrated_states dag stages mode) (snap_stage_id x)))"
    show "\<forall>n\<in>set (nodes dag). case jget (hydrated_states dag stages mode) (node_id n) of None \<Rightarrow> False | Some st \<Rightarrow> terminalState st"
    proof
      fix n assume "n \<in> set (nodes dag)"
      then obtain x where "x \<in> set stages" "snap_stage_id x = node_id n" using stage_of_node [OF p] by blast
      with * states_eq [OF p, of x mode] show "case jget (hydrated_states dag stages mode) (node_id n) of None \<Rightarrow> False | Some st \<Rightarrow> terminalState st"
        by fastforce
    qed
  qed
  also have "\<dots> \<longleftrightarrow> (\<forall>x\<in>set stages. snap_status x \<in> {SsSucceeded, SsFailed, SsSkipped})"
    using states_eq [OF p] terminal_iff by auto
  finally show ?thesis .
qed

lemma status_agrees:
  assumes p: "planned dag stages" and ne: "stages \<noteq> []"
  shows "deriveStatusFromStages stages (Some (nodes dag)) None =
    (if scheduleHasUnhandledFailure dag (hydrated_states dag stages mode) then RunFailed
     else if allTerminal dag (hydrated_states dag stages mode) then RunSucceeded
     else if \<exists>x\<in>set stages. snap_status x \<in> {SsRunning, SsWaitingForInput, SsInterrupted, SsSucceeded} then RunRunning
     else RunCreated)"
proof -
  have "list_all (\<lambda>s. stageResolvedForSuccess s (Some (nodes dag)) (by_id stages)) stages \<longleftrightarrow> allTerminal dag (hydrated_states dag stages mode)"
    if "\<not> scheduleHasUnhandledFailure dag (hydrated_states dag stages mode)"
  proof -
    have "failureAcceptedByJoin (nodes dag) (snap_stage_id x) (by_id stages)" if "x \<in> set stages" "snap_status x = SsFailed" for x
      using unhandled_iff [OF p, of mode] \<open>\<not> scheduleHasUnhandledFailure dag (hydrated_states dag stages mode)\<close> that
      by (auto simp: findUnhandledFailedStage_def Let_def find_eq_None_iff)
    then show ?thesis
      unfolding all_terminal_iff [OF p] list_all_iff by (auto simp: stageResolvedForSuccess_def)
  qed
  with ne unhandled_iff [OF p, of mode] show ?thesis
    by (auto simp: deriveStatusFromStages_def list_ex_iff)
qed

lemma planned_overlay:
  assumes wf: "wf_snapshot dag"
  shows "planned dag (overlayPlannedStages (snapshot_ids dag) snaps (nodes dag))"
  unfolding planned_def
proof (intro conjI ballI impI)
  fix x n assume x: "x \<in> set (overlayPlannedStages (snapshot_ids dag) snaps (nodes dag))" and n: "n \<in> set (nodes dag)"
    and eq: "node_id n = snap_stage_id x"
  from x obtain i where i: "x = overlay_stage (jmap_by snap_stage_id snaps) (nodes dag) i"
    by (auto simp: overlayPlannedStages_def)
  have "snap_stage_id x = i" unfolding i by (rule overlay_stage_id) (drule jmap_by_SomeD, simp)
  with eq have "node_id n = i" by simp
  moreover have "distinct (map node_id (nodes dag))" using wf by (simp add: wf_snapshot_def)
  ultimately show "snap_definition_id x = Some (definition_of n)"
    unfolding i using overlay_definition [OF _ n] by blast
qed (simp_all add: wf)

section \<open>Reopening stages\<close>

lemma appendStageEvent_ok:
  "guardStageId i \<Longrightarrow> \<exists>s'. appendStageEvent i ev n s = (Inr (), s') \<and> rs_executions s' = rs_executions s \<and>
     rs_dag s' = rs_dag s"
  by (auto simp: appendStageEvent_def ensureAttemptWorkspace_def updateStageStatusDenorm_def andThen_def modify_def Let_def
      split: option.splits)

lemma persistReopened_ok:
  "(\<forall>i\<in>set ids. guardStageId i) \<Longrightarrow>
   \<exists>states' s'. persistReopenedStages ids states s = (Inr states', s') \<and>
     (\<forall>k. jget states' k = (if k \<in> set ids \<and> jget states k = Some Skipped then Some Pending else jget states k))"
proof (induction ids arbitrary: states s)
  case Nil
  then show ?case by (simp add: act)
next
  case (Cons i ids)
  show ?case
  proof (cases "jget states i = Some Skipped")
    case True
    obtain s1 where s1: "appendStageEvent i EvReopened None s = (Inr (), s1)"
      using appendStageEvent_ok [of i EvReopened None s] Cons.prems by auto
    obtain states' s' where rest: "persistReopenedStages ids (jset states i Pending) s1 = (Inr states', s')"
      "\<forall>k. jget states' k = (if k \<in> set ids \<and> jget (jset states i Pending) k = Some Skipped then Some Pending
         else jget (jset states i Pending) k)" using Cons.IH [of "jset states i Pending" s1] Cons.prems by auto
    then show ?thesis using True s1 by (intro exI [of _ states'] exI [of _ s']) (auto simp: andThen_def)
  next
    case False
    then show ?thesis using Cons.IH [of states s] Cons.prems by auto
  qed
qed

lemma jget_foldl_jdel_if:
  "jget (foldl (\<lambda>m x. if P x then jdel m (f x) else m) m xs) k =
     (if \<exists>x\<in>set xs. P x \<and> f x = k then None else jget m k)"
  by (induction xs arbitrary: m) auto

lemma set_retry_downstream:
  "set rs \<union> set (retry_downstream dag rs) =
     set rs \<union> {y. \<exists>x\<in>set rs. (x, y) \<in> {(x, y). y \<in> set (retry_children dag x)}\<^sup>+} \<union>
     (\<Union>x\<in>set rs. set (sequentialLaterCloneIds dag x))"
  unfolding retry_downstream_def set_foldl_jadd using retry.result_eq [of dag rs] by auto

section \<open>Properties\<close>

text \<open>
  C20: the schedule of a retry: the retried stages, what they reach and the later clones of their
  sequential chains are pending unless a newer cohort superseded them, and have no envelope; every
  other planned stage keeps the state its snapshot has; the schedule is not halted.
\<close>

theorem retry_hydration:
  "rs_dag s = Some d \<Longrightarrow> wf_snapshot d \<Longrightarrow> (\<forall>i\<in>set (snapshot_ids d). guardStageId i) \<Longrightarrow>
   \<exists>h s'. hydrateScheduleForRetryRoots dag rs s = (Inr h, s') \<and> hs_dag h = Some d \<and> \<not> hs_halted h \<and>
     (\<forall>i\<in>set (snapshot_ids d).
        let reset = i \<in> set rs \<union> {y. \<exists>x\<in>set rs. (x, y) \<in> {(x, y). y \<in> set (retry_children d x)}\<^sup>+} \<union>
              (\<Union>x\<in>set rs. set (sequentialLaterCloneIds d x))
        in jget (hs_states h) i =
             (if reset \<and> i \<notin> set (supersededCloneIds s) then Some Pending
              else jget (hydrated_states d (readRun_stages s) ProcessMode) i) \<and>
           (reset \<longrightarrow> jget (hs_completed h) i = None))"
proof -
  assume dag: "rs_dag s = Some d" and wf: "wf_snapshot d" and g: "\<forall>i\<in>set (snapshot_ids d). guardStageId i"
  let ?stages = "readRun_stages s" and ?reset = "rs @ retry_downstream d rs"
  let ?over = "foldl (\<lambda>m i. jset m i Pending) [] (List.filter (\<lambda>i. i \<notin> set (supersededCloneIds s)) ?reset)"
  let ?states = "states_from_snapshots ?over ProcessMode ?stages (pending_nodes d)"
  let ?completed = "foldl (\<lambda>m snap. if snap_stage_id snap \<in> set ?reset then jdel m (snap_stage_id snap) else m)
             (buildCompletedEnvelopesFromRun s ?stages d) ?stages"
  let ?open = "map snap_stage_id (List.filter (\<lambda>snap. snap_stage_id snap \<notin> set (supersededCloneIds s) \<and>
             snap_status snap = SsSkipped \<and> snap_stage_id snap \<in> set ?reset) ?stages)"
  have p: "planned d ?stages"
    unfolding readRun_stages_def dag option.case by (rule planned_overlay [OF wf])
  have ids: "snap_stage_id ` set ?stages = set (snapshot_ids d)"
    using planned_keys [OF p] wf by (simp add: wf_snapshot_def)
  then have "\<forall>i\<in>set ?open. guardStageId i" using g by auto
  from persistReopened_ok [OF this, of "foldl (\<lambda>m i. jset m i Skipped) [] ?open" s] obtain st' s' where
    reopen: "persistReopenedStages ?open (foldl (\<lambda>m i. jset m i Skipped) [] ?open) s = (Inr st', s')" by blast
  have run: "hydrateScheduleForRetryRoots dag rs s = (Inr \<lparr>hs_states = ?states, hs_completed = ?completed,
      hs_halted = False, hs_reason = None, hs_dag = Some d\<rparr>, s')"
    using reopen by (simp add: hydrateScheduleForRetryRoots_def act dag or_else_def Let_def) (simp add: andThen_def act)
  have over: "jget ?over i = (if i \<in> set ?reset \<and> i \<notin> set (supersededCloneIds s) then Some Pending else None)" for i
    unfolding jget_foldl_jset by (auto split: option.splits dest: find_SomeD simp: find_eq_None_iff)
  have key: "jget ?states i = (if i \<in> set ?reset \<and> i \<notin> set (supersededCloneIds s) then Some Pending
        else jget (hydrated_states d ?stages ProcessMode) i) \<and> (i \<in> set ?reset \<longrightarrow> jget ?completed i = None)"
    if "i \<in> set (snapshot_ids d)" for i
  proof -
    have "i \<in> snap_stage_id ` set ?stages" unfolding ids by (rule that)
    then obtain x where x: "x \<in> set ?stages" "snap_stage_id x = i" by blast
    have "jget ?states i = Some (snapshotToScheduleState (snap_status x) ?over i ProcessMode)"
      unfolding states_from_snapshots_def jget_foldl_jset
      using x distinct_stages [OF p] by (simp add: find_rev_distinct find_distinct_key)
    moreover have "jget (hydrated_states d ?stages ProcessMode) i = Some (snapshotToScheduleState (snap_status x) [] i ProcessMode)"
      using states_eq [OF p x(1), of ProcessMode] x(2) by simp
    moreover have "i \<in> set ?reset \<longrightarrow> jget ?completed i = None" unfolding jget_foldl_jdel_if using x by auto
    moreover have "snapshotToScheduleState st ?over i ProcessMode =
        (if i \<in> set ?reset \<and> i \<notin> set (supersededCloneIds s) then Pending else snapshotToScheduleState st [] i ProcessMode)" for st
      unfolding snapshotToScheduleState_def over by simp
    ultimately show ?thesis by (simp only: if_distrib [of Some])
  qed
  have "set ?reset = set rs \<union> {y. \<exists>x\<in>set rs. (x, y) \<in> {(x, y). y \<in> set (retry_children d x)}\<^sup>+} \<union>
              (\<Union>x\<in>set rs. set (sequentialLaterCloneIds d x))"
    unfolding set_append by (rule set_retry_downstream)
  then show ?thesis unfolding run Let_def using key by auto
qed

theorem retry_hydration_witness:
  "\<exists>h s'. hydrateScheduleForRetryRoots linear_sample [''build''] (blank_store\<lparr>rs_dag := Some linear_sample\<rparr>) = (Inr h, s') \<and>
     hs_dag h = Some linear_sample \<and> \<not> hs_halted h"
proof -
  have "\<forall>i\<in>set (snapshot_ids linear_sample). guardStageId i" by code_simp
  from retry_hydration [OF _ wf_linear_sample this, of "blank_store\<lparr>rs_dag := Some linear_sample\<rparr>" linear_sample "[''build'']"]
  show ?thesis by auto
qed

end
