(* ===== verification/Status_Outcome.thy ===== *)
theory Status_Outcome
  imports Scheduler_Slots Status_Agreement
begin

text \<open>
  The status that the store derives from its stage snapshots, and the outcome that the scheduler
  decides and writes (\<open>conclude\<close>) for the schedule hydrated from the same snapshots, skipped stages
  reopened or not.
\<close>

section \<open>What hydration reopens\<close>

lemma persistReopened_states:
  "persistReopenedStages ids states s = (Inr states', s') \<Longrightarrow>
   jget states' k = (if k \<in> set ids \<and> jget states k = Some Skipped then Some Pending else jget states k)"
proof (induction ids arbitrary: states s)
  case (Cons i ids)
  show ?case
  proof (cases "jget states i = Some Skipped")
    case True
    obtain q s1 where s1: "appendStageEvent i EvReopened None s = (q, s1)" by fastforce
    with Cons.prems True obtain rest: "persistReopenedStages ids (jset states i Pending) s1 = (Inr states', s')"
      by (cases q) (auto simp: andThen_def)
    from Cons.IH [OF rest] True show ?thesis by auto
  next
    case False
    with Cons show ?thesis by auto
  qed
qed (simp add: act)

definition reopened_ids :: "ResolvedPipelineDag \<Rightarrow> StageExecutionMode \<Rightarrow> run_store \<Rightarrow> string list" where
  "reopened_ids d mode s =
     reopenable_ids s d (hydrated_states d (readRun_stages s) mode) (buildCompletedEnvelopesFromRun s (readRun_stages s) d)"

lemma hydrated:
  assumes "rs_dag s = Some d" "hydrateScheduleFromStore fallback mode s = (Inr h, s')"
  shows "hs_halted h = list_ex (halting_failure d (hydrated_states d (readRun_stages s) mode)) (jkeys (hydrated_states d (readRun_stages s) mode))"
    "jget (hs_states h) k = (if k \<in> set (reopened_ids d mode s) then Some Pending else jget (hydrated_states d (readRun_stages s) mode) k)"
proof -
  let ?hyd = "hydrated_states d (readRun_stages s) mode"
  obtain q s1 where run: "persistReopenedStages (reopened_ids d mode s) ?hyd s = (q, s1)" by fastforce
  from assms run have h: "q = Inr (hs_states h)" "hs_halted h = list_ex (halting_failure d ?hyd) (jkeys ?hyd)"
    by (cases q; auto simp: hydrateScheduleFromStore_def reopenRunnableSkippedStages_def act or_else_def Let_def andThen_def
      reopened_ids_def hydrated_states_def)+
  then show "hs_halted h = list_ex (halting_failure d ?hyd) (jkeys ?hyd)" by simp
  have "jget ?hyd k = Some Skipped" if "k \<in> set (reopened_ids d mode s)"
    using that by (simp add: reopened_ids_def reopenable_ids_def)
  with persistReopened_states [of _ ?hyd s "hs_states h" s1 k] run h(1)
  show "jget (hs_states h) k = (if k \<in> set (reopened_ids d mode s) then Some Pending else jget ?hyd k)" by fastforce
qed

lemma reopened_planned:
  assumes "planned d (readRun_stages s)" "k \<in> set (reopened_ids d mode s)"
  shows "k \<in> node_id ` set (nodes d)"
proof -
  have sk: "jget (hydrated_states d (readRun_stages s) mode) k = Some Skipped"
    using assms(2) by (simp add: reopened_ids_def reopenable_ids_def)
  have "jget (pending_nodes d) k \<noteq> Some Skipped"
    by (auto simp: pending_nodes_def jget_foldl_jset split: option.splits)
  with sk have "k \<in> snap_stage_id ` set (readRun_stages s)"
    unfolding hydrated_states_def states_from_snapshots_def jget_foldl_jset by (auto split: option.splits dest: find_SomeD)
  then show ?thesis using planned_keys [OF assms(1)] by simp
qed

section \<open>What is decided\<close>

lemma outcome_cases:
  assumes "conclude w = (Inr r, w')" "\<not> retrying w" "\<not> sd_host_shutdown w"
  shows "r = (if has_waiting (sd_states w) \<and> \<not> sd_halted w then ResWaiting None
      else if sd_halted w then ResFailed (sd_reason w)
      else if scheduleHasUnhandledFailure (sd_dag w) (sd_states w) \<or> \<not> allTerminal (sd_dag w) (sd_states w)
        then ResFailed (Some (or_else (sd_reason w) ''pipeline incomplete''))
      else ResSucceeded) \<and>
    (case r of ResSucceeded \<Rightarrow> rs_status (sd_store w') \<in> {RunSucceeded, RunCancelled}
     | ResFailed _ \<Rightarrow> rs_status (sd_store w') \<in> {RunFailed, RunCancelled}
     | ResWaiting _ \<Rightarrow> w' = w)"
proof -
  obtain r1 s1 where one: "writeTerminalRunStatus RunFailed (sd_store (skip_rest w)) = (r1, s1)" by fastforce
  obtain r2 s2 where two: "writeTerminalRunStatus RunFailed (sd_store w) = (r2, s2)" by fastforce
  obtain r3 s3 where three: "writeTerminalRunStatus RunSucceeded (sd_store w) = (r3, s3)" by fastforce
  from terminal_status [OF one] terminal_status [OF two] terminal_status [OF three] show ?thesis
    using assms one two three
    by (auto simp: conclude_def chain_def change_def provided_def via_store_def look_def done_with_def retrying_def
        skip_rest_kept split: if_splits)
qed

section \<open>Properties\<close>

text \<open>
  C8: the outcome that the scheduler decides for the schedule hydrated from the store is the one that the
  derived status tells.  While a stage waits and the schedule is not halted the run waits.  Otherwise it
  succeeds exactly when the status derived from the stored stages is \<open>succeeded\<close> and the hydration has
  reopened no skipped stage, and fails in every other case, with the stored status written to match (a
  cancelled one is kept); and the hydration halts the schedule only when the derived status is \<open>failed\<close>.
\<close>

theorem run_status_agrees:
  assumes "rs_dag s = Some d" "wf_snapshot d" "nodes d \<noteq> []"
    and "hydrateScheduleFromStore fallback mode s = (Inr h, s')"
    and "sd_dag w = d" "sd_states w = hs_states h" "sd_halted w = hs_halted h" "\<not> retrying w" "\<not> sd_host_shutdown w"
    and "conclude w = (Inr r, w')"
  shows "let derived = deriveStatusFromStages (readRun_stages s) (Some (nodes d)) None in
    r = (if has_waiting (hs_states h) \<and> \<not> hs_halted h then ResWaiting None
         else if derived = RunSucceeded \<and> reopened_ids d mode s = [] then ResSucceeded
         else ResFailed (if hs_halted h then sd_reason w else Some (or_else (sd_reason w) ''pipeline incomplete''))) \<and>
    (case r of ResSucceeded \<Rightarrow> rs_status (sd_store w') \<in> {RunSucceeded, RunCancelled}
     | ResFailed _ \<Rightarrow> rs_status (sd_store w') \<in> {RunFailed, RunCancelled}
     | ResWaiting _ \<Rightarrow> w' = w) \<and>
    (hs_halted h \<longrightarrow> derived = RunFailed)"
proof -
  let ?hyd = "hydrated_states d (readRun_stages s) mode"
  have p: "planned d (readRun_stages s)"
    unfolding readRun_stages_def assms(1) option.case by (rule planned_overlay [OF assms(2)])
  have "snap_stage_id ` set (readRun_stages s) \<noteq> {}" using planned_keys [OF p] assms(3) by simp
  then have ne: "readRun_stages s \<noteq> []" by auto
  note hyd = hydrated [OF assms(1,4)]
  have derived: "deriveStatusFromStages (readRun_stages s) (Some (nodes d)) None = RunFailed \<longleftrightarrow> scheduleHasUnhandledFailure d ?hyd"
    "deriveStatusFromStages (readRun_stages s) (Some (nodes d)) None = RunSucceeded \<longleftrightarrow>
       allTerminal d ?hyd \<and> \<not> scheduleHasUnhandledFailure d ?hyd"
    using status_agrees [OF p ne, of mode] by (auto split: if_splits)
  have halted: "hs_halted h \<Longrightarrow> scheduleHasUnhandledFailure d ?hyd"
    unfolding hyd(1) by (auto simp: scheduleHasUnhandledFailure_def halting_failure_def list_ex_iff)
  have good: "\<not> scheduleHasUnhandledFailure d (hs_states h) \<and> allTerminal d (hs_states h) \<longleftrightarrow>
      \<not> scheduleHasUnhandledFailure d ?hyd \<and> allTerminal d ?hyd" if "reopened_ids d mode s = []"
  proof -
    have eq: "jget (hs_states h) = jget ?hyd" using hyd(2) that by auto
    have acc: "failureIsAccepted d i (hs_states h) = failureIsAccepted d i ?hyd" for i
      unfolding failureIsAccepted_def eq by (rule refl)
    have un: "scheduleHasUnhandledFailure d m \<longleftrightarrow> (\<exists>i. jget m i = Some Failed \<and> \<not> failureIsAccepted d i m)" for m
      unfolding scheduleHasUnhandledFailure_def list_ex_iff by (rule iffI; elim bexE exE) (blast intro: jget_SomeD)+
    show ?thesis unfolding un eq acc allTerminal_def by simp
  qed
  have open_left: "\<not> allTerminal d (hs_states h)" if "reopened_ids d mode s \<noteq> []"
  proof -
    from that obtain k where k: "k \<in> set (reopened_ids d mode s)" by (cases "reopened_ids d mode s") auto
    with reopened_planned [OF p k] hyd(2) [of k] show ?thesis by (auto simp: allTerminal_def list_all_iff intro!: bexI)
  qed
  show ?thesis unfolding Let_def derived
    using outcome_cases [OF assms(10,8,9)] assms(5-7) halted good open_left by (auto split: if_splits)
qed

definition finished_store :: run_store where
  "finished_store = foldl (\<lambda>s i. snd (appendStageEvent i EvSucceeded (Some 1) (snd (appendStageEvent i EvStarted (Some 1) s))))
     (blank_store\<lparr>rs_dag := Some chain_sample\<rparr>) [''a'', ''b'', ''c'']"

definition finished_run :: scheduler where
  "finished_run = (case hydrateScheduleFromStore chain_sample ProcessMode finished_store of
     (Inr h, s) \<Rightarrow> chain_start\<lparr>sd_states := hs_states h, sd_halted := hs_halted h, sd_store := s\<rparr> | _ \<Rightarrow> chain_start)"

theorem run_status_agrees_witness:
  "\<exists>w'. conclude finished_run = (Inr ResSucceeded, w') \<and> rs_status (sd_store w') \<in> {RunSucceeded, RunCancelled} \<and>
     deriveStatusFromStages (readRun_stages finished_store) (Some (nodes chain_sample)) None = RunSucceeded"
proof -
  have dag: "rs_dag finished_store = Some chain_sample" "wf_snapshot chain_sample" "nodes chain_sample \<noteq> []" by code_simp+
  obtain q s' where hyd: "hydrateScheduleFromStore chain_sample ProcessMode finished_store = (q, s')" by fastforce
  have "(case hydrateScheduleFromStore chain_sample ProcessMode finished_store of (Inr h, _) \<Rightarrow>
      (hs_states h, hs_halted h) = ([(''a'', Succeeded), (''b'', Succeeded), (''c'', Succeeded)], False) | _ \<Rightarrow> False)" by code_simp
  with hyd obtain h where h: "hydrateScheduleFromStore chain_sample ProcessMode finished_store = (Inr h, s')"
    "hs_states h = [(''a'', Succeeded), (''b'', Succeeded), (''c'', Succeeded)]" "\<not> hs_halted h" by (cases q) auto
  have w: "sd_dag finished_run = chain_sample" "sd_states finished_run = hs_states h" "sd_halted finished_run = hs_halted h"
    "\<not> retrying finished_run" "\<not> sd_host_shutdown finished_run"
    by (simp_all add: finished_run_def h(1)) (code_simp, simp add: retrying_def, code_simp, code_simp)
  have "case fst (conclude finished_run) of Inr _ \<Rightarrow> True | Inl _ \<Rightarrow> False" by code_simp
  then obtain r w' where run: "conclude finished_run = (Inr r, w')" by (cases "conclude finished_run") (auto split: sum.splits)
  have derived: "deriveStatusFromStages (readRun_stages finished_store) (Some (nodes chain_sample)) None = RunSucceeded"
    "reopened_ids chain_sample ProcessMode finished_store = []" by code_simp+
  have "\<not> has_waiting (hs_states h)" unfolding h(2) by code_simp
  with run_status_agrees [OF dag h(1) w run] derived h(3) have "r = ResSucceeded" "rs_status (sd_store w') \<in> {RunSucceeded, RunCancelled}"
    by (auto simp: Let_def)
  with run derived show ?thesis by blast
qed

end
