(* ===== verification/Store_Logic.thy ===== *)
theory Store_Logic
  imports Feedback_Loop
begin

text \<open>
  Reasoning about actions of the run store: \<open>yields m s P\<close> says that \<open>m\<close>, run in \<open>s\<close>, returns a
  result and not an exception, and that the result and the store it leaves satisfy \<open>P\<close>.  The
  collection \<open>wp\<close> turns it into a condition on \<open>s\<close>, operation by operation.
\<close>

definition yields :: "'a action \<Rightarrow> run_store \<Rightarrow> ('a \<Rightarrow> run_store \<Rightarrow> bool) \<Rightarrow> bool" where
  "yields m s P = (case m s of (Inl e, s') \<Rightarrow> False | (Inr x, s') \<Rightarrow> P x s')"

named_theorems wp "what it takes for an action to yield a postcondition"

lemma yields_iff: "yields m s P \<longleftrightarrow> (\<exists>x s'. m s = (Inr x, s') \<and> P x s')"
  by (auto simp: yields_def split: prod.splits sum.splits)

lemma yieldsI: "m s = (Inr x, s') \<Longrightarrow> P x s' \<Longrightarrow> yields m s P"
  by (simp add: yields_def)

lemma yields_mono: "yields m s Q \<Longrightarrow> (\<And>x s'. Q x s' \<Longrightarrow> P x s') \<Longrightarrow> yields m s P"
  by (auto simp: yields_iff)

lemma yields_conj: "yields m s P \<Longrightarrow> yields m s Q \<Longrightarrow> yields m s (\<lambda>x s'. P x s' \<and> Q x s')"
  by (auto simp: yields_iff)

section \<open>Control\<close>

lemma wp_control [wp]:
  "yields (return x) s P \<longleftrightarrow> P x s"
  "yields (throw e) s P \<longleftrightarrow> False"
  "yields (gets f) s P \<longleftrightarrow> P (f s) s"
  "yields (modify g) s R \<longleftrightarrow> R () (g s)"
  "yields (andThen m k) s Q \<longleftrightarrow> yields m s (\<lambda>x s'. yields (k x) s' Q)"
  "yields (fresh_uuid uuid) s S \<longleftrightarrow> S (uuid (rs_uuids s)) (s\<lparr>rs_uuids := Suc (rs_uuids s)\<rparr>)"
  by (auto simp: yields_def return_def throw_def gets_def modify_def andThen_def fresh_uuid_def
      split: prod.splits sum.splits)

lemma wp_onlyIf [wp]: "yields (onlyIf b m) s P \<longleftrightarrow> (if b then yields m s P else P () s)"
  by (simp add: onlyIf_def wp)

text \<open>A loop over a list keeps what every round keeps.\<close>

lemma yields_forEach:
  assumes "\<And>x s. x \<in> set xs \<Longrightarrow> I s \<Longrightarrow> yields (f x) s (\<lambda>_. I)" "I s"
  shows "yields (forEach xs f) s (\<lambda>_. I)"
  using assms by (induction xs arbitrary: s) (auto simp: wp intro: yields_mono)

section \<open>Rows\<close>

lemma row_eq_None_iff: "row key rows k = None \<longleftrightarrow> k \<notin> key ` set rows"
  by (auto simp: row_def find_eq_None_iff)

lemma row_SomeD: "row key rows k = Some r \<Longrightarrow> r \<in> set rows \<and> key r = k"
  by (auto simp: row_def dest: find_SomeD)

lemma row_unique: "distinct (map key rows) \<Longrightarrow> r \<in> set rows \<Longrightarrow> row key rows (key r) = Some r"
  by (simp add: row_def find_distinct_key)

lemma row_append: "row key (rows @ [r]) k = (if k \<in> key ` set rows then row key rows k else if key r = k then Some r else None)"
  unfolding row_def by (induction rows) auto

lemma update_rows_map [simp]: "(\<And>r. g (f r) = g r) \<Longrightarrow> map g (update_rows P f rows) = map g rows"
  by (simp add: update_rows_def)

lemma update_rows_image [simp]: "(\<And>r. g (f r) = g r) \<Longrightarrow> g ` set (update_rows P f rows) = g ` set rows"
  by (metis update_rows_map list.set_map)

lemma set_update_rows: "set (update_rows P f rows) = {r \<in> set rows. \<not> P r} \<union> f ` {r \<in> set rows. P r}"
  by (auto simp: update_rows_def)

lemma row_update:
  "(\<And>r. key (f r) = key r) \<Longrightarrow>
   row key (update_rows (\<lambda>r. key r = i) f rows) k = map_option (\<lambda>r. if k = i then f r else r) (row key rows k)"
  unfolding row_def update_rows_def by (induction rows) auto

section \<open>The operations of the store\<close>

lemma wp_executions [wp]:
  "yields (getLatestStageExecution st) s A \<longleftrightarrow> A (latest_execution s st) s"
  "yields (countStageAttempts st) s B \<longleftrightarrow> B (length (executions_of s st)) s"
  "yields (createStageExecution st) s P \<longleftrightarrow>
     (let e = new_execution st (max_attempt (executions_of s st) + 1) in P e (s\<lparr>rs_executions := rs_executions s @ [e]\<rparr>))"
  by (simp_all add: getLatestStageExecution_def countStageAttempts_def createStageExecution_def gets_def yields_def Let_def)

lemma wp_loops [wp]:
  "yields listFeedbackLoops s A \<longleftrightarrow> A (sort_key lr_created_at (rs_loops s)) s"
  "yields (getFeedbackLoop i) s B \<longleftrightarrow> (\<exists>r. row lr_loop_id (rs_loops s) i = Some r \<and> B r s)"
  "yields (updateFeedbackLoop i p expected) s P \<longleftrightarrow> (\<exists>r. row lr_loop_id (rs_loops s) i = Some r \<and>
     (if expected \<noteq> None \<and> expected \<noteq> Some (lr_state r) then P False s
      else P True (s\<lparr>rs_loops := update_rows (\<lambda>r. lr_loop_id r = i) (patch_loop (now s) p) (rs_loops s)\<rparr>)))"
  by (auto simp: listFeedbackLoops_def getFeedbackLoop_def updateFeedbackLoop_def yields_def gets_def split: option.splits)

definition new_loop :: "string \<Rightarrow> string \<Rightarrow> nat \<Rightarrow> FeedbackLoopConfig \<Rightarrow> nat \<Rightarrow> FeedbackLoopRecord" where
  "new_loop i src n policy time =
     \<lparr>lr_loop_id = i, lr_source_stage_id = src, lr_source_attempt = n, lr_policy = policy, lr_state = LoopActive,
      lr_current_replay_id = None, lr_current_replay_number = None, lr_deferred = None,
      lr_created_at = time, lr_updated_at = time\<rparr>"

lemma wp_createLoop [wp]:
  "yields (createFeedbackLoop i src n policy) s P \<longleftrightarrow> i \<notin> lr_loop_id ` set (rs_loops s) \<and>
     (let l = new_loop i src n policy (now s) in P l (s\<lparr>rs_loops := rs_loops s @ [l]\<rparr>))"
  by (auto simp: createFeedbackLoop_def new_loop_def yields_def getFeedbackLoop_def row_append row_eq_None_iff Let_def)

lemma wp_replays [wp]:
  "yields (getFeedbackReplay i) s A \<longleftrightarrow> (\<exists>r. row rr_replay_id (rs_replays s) i = Some r \<and> A r s)"
  "yields (updateFeedbackReplay i st) s P \<longleftrightarrow> i \<in> rr_replay_id ` set (rs_replays s) \<and>
     P () (s\<lparr>rs_replays := update_rows (\<lambda>r. rr_replay_id r = i) (\<lambda>r. r\<lparr>rr_status := st, rr_updated_at := now s\<rparr>) (rs_replays s)\<rparr>)"
  "yields (listFeedbackReplays l) s Q \<longleftrightarrow> l \<in> lr_loop_id ` set (rs_loops s) \<and> Q (replays_of s l) s"
    apply (auto simp: getFeedbackReplay_def yields_def split: option.splits) [1]
   apply (auto simp: updateFeedbackReplay_def yields_def row_eq_None_iff) [1]
  apply (simp add: listFeedbackReplays_def wp)
  by (metis row_eq_None_iff not_None_eq)

lemma wp_createReplay [wp]:
  "yields (createFeedbackReplay i) s P \<longleftrightarrow>
     ci_loop_id i \<in> lr_loop_id ` set (rs_loops s) \<and> ci_replay_id i \<notin> rr_replay_id ` set (rs_replays s) \<and>
     (ci_loop_id i, ci_replay_number i) \<notin> (\<lambda>r. (rr_loop_id r, rr_replay_number r)) ` set (rs_replays s) \<and>
     P (replay_of_input (now s) i) (s\<lparr>rs_replays := rs_replays s @ [replay_of_input (now s) i]\<rparr>)"
proof -
  have new: "row rr_replay_id (rs_replays s @ [replay_of_input (now s) i]) (ci_replay_id i) = Some (replay_of_input (now s) i)"
    if "ci_replay_id i \<notin> rr_replay_id ` set (rs_replays s)"
    using that by (auto simp: row_append replay_of_input_def)
  have clash: "list_ex (\<lambda>r. rr_replay_id r = ci_replay_id i \<or>
        rr_loop_id r = ci_loop_id i \<and> rr_replay_number r = ci_replay_number i) (rs_replays s) \<longleftrightarrow>
      ci_replay_id i \<in> rr_replay_id ` set (rs_replays s) \<or>
      (ci_loop_id i, ci_replay_number i) \<in> (\<lambda>r. (rr_loop_id r, rr_replay_number r)) ` set (rs_replays s)"
    by (force simp: list_ex_iff image_iff)
  have loop: "(\<exists>r. row lr_loop_id (rs_loops s) (ci_loop_id i) = Some r) \<longleftrightarrow> ci_loop_id i \<in> lr_loop_id ` set (rs_loops s)"
    by (metis row_eq_None_iff not_None_eq)
  have body: "yields (\<lambda>s. if list_ex (\<lambda>r. rr_replay_id r = ci_replay_id i \<or>
            rr_loop_id r = ci_loop_id i \<and> rr_replay_number r = ci_replay_number i) (rs_replays s)
       then (Inl (ConstraintFailed ''feedback_replays''), s)
       else getFeedbackReplay (ci_replay_id i)
         (s\<lparr>rs_replays := rs_replays s @ [replay_of_input (now s) i]\<rparr>)) s P \<longleftrightarrow>
     ci_replay_id i \<notin> rr_replay_id ` set (rs_replays s) \<and>
     (ci_loop_id i, ci_replay_number i) \<notin> (\<lambda>r. (rr_loop_id r, rr_replay_number r)) ` set (rs_replays s) \<and>
     P (replay_of_input (now s) i) (s\<lparr>rs_replays := rs_replays s @ [replay_of_input (now s) i]\<rparr>)"
    using new by (simp add: yields_def clash getFeedbackReplay_def)
  show ?thesis
    unfolding createFeedbackReplay_def wp body using loop by blast
qed

lemma wp_passes [wp]:
  "yields (listFeedbackReplayStagePasses i) s P \<longleftrightarrow> i \<in> rr_replay_id ` set (rs_replays s) \<and> P (passes_of s i) s"
  "yields (updateFeedbackReplayStagePass i st p) s Q \<longleftrightarrow>
     (if p = no_pass_patch then Q () s
      else (i, st) \<in> pass_key ` set (rs_passes s) \<and>
        Q () (s\<lparr>rs_passes := update_rows (\<lambda>r. pass_key r = (i, st)) (patch_pass p) (rs_passes s)\<rparr>))"
   apply (simp add: listFeedbackReplayStagePasses_def wp)
   apply (metis row_eq_None_iff not_None_eq)
  by (auto simp: updateFeedbackReplayStagePass_def yields_def row_eq_None_iff)

definition new_pass :: "string \<Rightarrow> string \<Rightarrow> nat \<Rightarrow> nat option \<Rightarrow> replay_session \<Rightarrow> PassStatus \<Rightarrow> FeedbackReplayStagePassRecord" where
  "new_pass i st n origin mode status = \<lparr>pr_replay_id = i, pr_stage_id = st, pr_stage_attempt = n,
     pr_session_origin_attempt = origin, pr_session_mode = mode, pr_status = status,
     pr_started_at = None, pr_finished_at = None, pr_emitted_envelope = None\<rparr>"

lemma wp_createPass [wp]:
  "yields (createFeedbackReplayStagePass i st n origin mode status) s P \<longleftrightarrow>
     i \<in> rr_replay_id ` set (rs_replays s) \<and> (i, st) \<notin> pass_key ` set (rs_passes s) \<and>
     (let r = new_pass i st n origin mode status in P r (s\<lparr>rs_passes := rs_passes s @ [r]\<rparr>))"
proof -
  have "(\<exists>r. row rr_replay_id (rs_replays s) i = Some r) \<longleftrightarrow> i \<in> rr_replay_id ` set (rs_replays s)"
    by (metis row_eq_None_iff not_None_eq)
  then show ?thesis
    unfolding createFeedbackReplayStagePass_def wp new_pass_def
    by (auto simp: yields_def row_eq_None_iff Let_def)
qed

lemma patch_pass_keys [simp]:
  "pr_replay_id (patch_pass p r) = pr_replay_id r" "pr_stage_id (patch_pass p r) = pr_stage_id r"
  "pass_key (patch_pass p r) = pass_key r"
  by (simp_all add: patch_pass_def pass_key_def)

lemma patch_loop_keys [simp]:
  "lr_loop_id (patch_loop t p r) = lr_loop_id r" "lr_source_stage_id (patch_loop t p r) = lr_source_stage_id r"
  "lr_created_at (patch_loop t p r) = lr_created_at r"
  by (simp_all add: patch_loop_def)

lemma set_passes_of: "set (passes_of s i) = {p \<in> set (rs_passes s). pr_replay_id p = i}"
  by (simp add: passes_of_def)

lemma set_replays_of: "set (replays_of s i) = {r \<in> set (rs_replays s). rr_loop_id r = i}"
  by (simp add: replays_of_def)

end
