(* ===== verification/Feedback_Ledger.thy ===== *)
theory Feedback_Ledger
  imports Pipeline_Types
begin

text \<open>
  An abstract account of the feedback loops of a run: per loop its source stage, its policy and
  state, and the send-backs it has replayed, each an attempt of the source and a target.  It is the
  specification that \<open>runtime/feedbackLoopCoordinator.ts\<close> and \<open>runtime/feedbackLoopDecision.ts\<close>
  are shown to implement: what a send-back and a decision do, without tables, passes and clones.
\<close>

section \<open>Runs of a deterministic machine\<close>

locale machine =
  fixes step :: "'s \<Rightarrow> 'a \<Rightarrow> 's"
    and inv :: "'s \<Rightarrow> bool"
    and allowed :: "'s \<Rightarrow> 'a \<Rightarrow> bool"
  assumes step_keeps: "inv s \<Longrightarrow> allowed s a \<Longrightarrow> inv (step s a)"
begin

fun admissible :: "'s \<Rightarrow> 'a list \<Rightarrow> bool" where
  "admissible s [] = True"
| "admissible s (a # as) = (allowed s a \<and> admissible (step s a) as)"

lemma run_keeps: "inv s \<Longrightarrow> admissible s as \<Longrightarrow> inv (foldl step s as)"
  by (induction as arbitrary: s) (auto intro: step_keeps)

end

section \<open>The ledger\<close>

datatype entry_state = Running | Deferred nat string | Closed

record loop_entry =
  le_source :: string
  le_policy :: FeedbackLoopConfig
  le_state :: entry_state
  le_sent :: "(nat \<times> string) list"

definition open_entry :: "loop_entry \<Rightarrow> bool" where
  "open_entry e = (le_state e \<noteq> Closed)"

datatype verdict = Blocked | Repeated | Replayed nat | Parked | Refused

definition opened :: "string \<Rightarrow> FeedbackLoopConfig \<Rightarrow> loop_entry list \<Rightarrow> loop_entry list" where
  "opened src policy es =
     (if list_ex open_entry es then es
      else es @ [\<lparr>le_source = src, le_policy = policy, le_state = Running, le_sent = []\<rparr>])"

definition on_open :: "(loop_entry \<Rightarrow> loop_entry) \<Rightarrow> loop_entry list \<Rightarrow> loop_entry list" where
  "on_open f es = map (\<lambda>e. if open_entry e then f e else e) es"

text \<open>What becomes of the open loop when its source sends attempt \<open>n\<close> back to \<open>target\<close>.\<close>

definition entry_send_back :: "nat \<Rightarrow> string \<Rightarrow> loop_entry \<Rightarrow> verdict \<times> loop_entry" where
  "entry_send_back n target e =
     (if (n, target) \<in> set (le_sent e) then (Repeated, e)
      else if int (length (le_sent e)) < fl_max_replays (le_policy e)
      then (Replayed (length (le_sent e) + 1), e\<lparr>le_state := Running, le_sent := le_sent e @ [(n, target)]\<rparr>)
      else if fl_on_max_replays (le_policy e) = WaitForHuman
      then (Parked, e\<lparr>le_state := Deferred n target\<rparr>)
      else (Refused, e\<lparr>le_state := Closed\<rparr>))"

definition ledger_send_back ::
  "string \<Rightarrow> FeedbackLoopConfig \<Rightarrow> nat \<Rightarrow> string \<Rightarrow> loop_entry list \<Rightarrow> verdict \<times> loop_entry list" where
  "ledger_send_back src policy n target es =
     (if list_ex (\<lambda>e. open_entry e \<and> le_source e \<noteq> src) es then (Blocked, es)
      else (case List.find open_entry (opened src policy es) of
              None \<Rightarrow> (Blocked, es)
            | Some e \<Rightarrow> (fst (entry_send_back n target e), on_open (snd \<circ> entry_send_back n target) (opened src policy es))))"

text \<open>
  The decisions on a parked loop: one more replay for the send-back that was deferred, or the end
  of the loop.
\<close>

definition entry_extend :: "loop_entry \<Rightarrow> verdict \<times> loop_entry" where
  "entry_extend e =
     (case le_state e of
        Deferred n target \<Rightarrow> entry_send_back n target
          (e\<lparr>le_state := Running, le_policy := (le_policy e)\<lparr>fl_max_replays := fl_max_replays (le_policy e) + 1\<rparr>\<rparr>)
      | _ \<Rightarrow> (Blocked, e))"

datatype ledger_op =
    LSendBack string FeedbackLoopConfig nat string
  | LExtend
  | LClose

fun ledger_step :: "loop_entry list \<Rightarrow> ledger_op \<Rightarrow> loop_entry list" where
  "ledger_step es (LSendBack src policy n target) = snd (ledger_send_back src policy n target es)"
| "ledger_step es LExtend = on_open (snd \<circ> entry_extend) es"
| "ledger_step es LClose = on_open (\<lambda>e. e\<lparr>le_state := Closed\<rparr>) es"

fun sane_op :: "loop_entry list \<Rightarrow> ledger_op \<Rightarrow> bool" where
  "sane_op es (LSendBack src policy n target) = (0 \<le> fl_max_replays policy)"
| "sane_op es _ = True"

section \<open>The invariant of a ledger\<close>

text \<open>
  At most one loop is open; no send-back is replayed twice and none over the budget; a parked loop
  has used exactly its budget and defers a send-back it has not replayed.
\<close>

definition entry_ok :: "loop_entry \<Rightarrow> bool" where
  "entry_ok e \<longleftrightarrow> distinct (le_sent e) \<and> 0 \<le> fl_max_replays (le_policy e) \<and>
     int (length (le_sent e)) \<le> fl_max_replays (le_policy e) \<and>
     (\<forall>n t. le_state e = Deferred n t \<longrightarrow> (n, t) \<notin> set (le_sent e) \<and>
        int (length (le_sent e)) = fl_max_replays (le_policy e))"

definition ledger_ok :: "loop_entry list \<Rightarrow> bool" where
  "ledger_ok es \<longleftrightarrow> length (List.filter open_entry es) \<le> 1 \<and> (\<forall>e\<in>set es. entry_ok e)"

lemma entry_send_back_ok: "entry_ok e \<Longrightarrow> entry_ok (snd (entry_send_back n t e))"
  by (auto simp: entry_ok_def entry_send_back_def)

lemma entry_extend_ok: "entry_ok e \<Longrightarrow> entry_ok (snd (entry_extend e))"
  by (auto simp: entry_ok_def entry_extend_def entry_send_back_def split: entry_state.splits)

lemma opened_ok:
  assumes "ledger_ok es" "0 \<le> fl_max_replays policy"
  shows "ledger_ok (opened src policy es)"
  using assms
  by (auto simp: ledger_ok_def opened_def entry_ok_def list_ex_iff filter_empty_conv open_entry_def)

lemma on_open_ok:
  assumes ok: "ledger_ok es" and f: "\<And>e. entry_ok e \<Longrightarrow> entry_ok (f e)"
  shows "ledger_ok (on_open f es)"
proof -
  have "length (List.filter open_entry (on_open f es)) \<le> length (List.filter open_entry es)"
    unfolding on_open_def by (induction es) auto
  then show ?thesis using ok f by (auto simp: ledger_ok_def on_open_def)
qed

lemma ledger_send_back_ok:
  assumes "ledger_ok es" "0 \<le> fl_max_replays policy"
  shows "ledger_ok (snd (ledger_send_back src policy n t es))"
  using assms on_open_ok [OF opened_ok [OF assms], of "snd \<circ> entry_send_back n t"]
  by (auto simp: ledger_send_back_def entry_send_back_ok split: option.splits)

interpretation ledger: machine ledger_step ledger_ok sane_op
proof
  fix es a
  assume "ledger_ok es" "sane_op es a"
  moreover have "entry_ok (e\<lparr>le_state := Closed\<rparr>)" if "entry_ok e" for e using that by (simp add: entry_ok_def)
  ultimately show "ledger_ok (ledger_step es a)"
    by (cases a) (auto intro!: ledger_send_back_ok on_open_ok simp: entry_extend_ok)
qed

text \<open>A decision to extend replays the deferred send-back: never a repeat, never over the budget.\<close>

lemma entry_extend_replays:
  assumes "entry_ok e" "le_state e = Deferred n t"
  shows "entry_extend e = (Replayed (length (le_sent e) + 1),
     e\<lparr>le_state := Running, le_sent := le_sent e @ [(n, t)],
       le_policy := (le_policy e)\<lparr>fl_max_replays := fl_max_replays (le_policy e) + 1\<rparr>\<rparr>)"
  using assms by (simp add: entry_extend_def entry_send_back_def entry_ok_def)

end
