(* ===== verification/Feedback_Correct.thy ===== *)
theory Feedback_Correct
  imports Replay_Lifecycle Store_Logic Feedback_Ledger
begin

text \<open>
  The coordinator of feedback loops implements the ledger: a send-back never fails on a key of the
  tables, and what it leaves in the store is what the ledger's step leaves.
\<close>

section \<open>The ledger of a store\<close>

definition loop_replays :: "run_store \<Rightarrow> FeedbackLoopRecord \<Rightarrow> FeedbackReplayRecord list" where
  "loop_replays s l = List.filter (\<lambda>r. rr_loop_id r = lr_loop_id l) (rs_replays s)"

definition sent_back :: "FeedbackReplayRecord \<Rightarrow> nat \<times> string" where
  "sent_back r = (rr_source_attempt r, rr_target_stage_id r)"

definition state_of :: "FeedbackLoopRecord \<Rightarrow> entry_state" where
  "state_of l = (case lr_state l of
     LoopActive \<Rightarrow> Running
   | LoopWaitingForHuman \<Rightarrow> (case lr_deferred l of
       None \<Rightarrow> Running | Some d \<Rightarrow> Deferred (df_source_attempt d) (df_target d))
   | _ \<Rightarrow> Closed)"

definition entry_of :: "run_store \<Rightarrow> FeedbackLoopRecord \<Rightarrow> loop_entry" where
  "entry_of s l = \<lparr>le_source = lr_source_stage_id l, le_policy = lr_policy l, le_state = state_of l,
     le_sent = map sent_back (loop_replays s l)\<rparr>"

definition ledger_of :: "run_store \<Rightarrow> loop_entry list" where
  "ledger_of s = map (entry_of s) (rs_loops s)"

lemma open_entry_of [simp]: "open_entry (entry_of s l) = open_loop l"
  by (auto simp: open_entry_def entry_of_def state_of_def open_loop_def split: FeedbackLoopState.splits option.splits)

lemma entry_of_source [simp]: "le_source (entry_of s l) = lr_source_stage_id l" "le_policy (entry_of s l) = lr_policy l"
  "le_sent (entry_of s l) = map sent_back (loop_replays s l)"
  by (simp_all add: entry_of_def)

section \<open>The invariant of the tables\<close>

definition count_of :: "FeedbackLoopRecord \<Rightarrow> nat" where
  "count_of l = or_else (lr_current_replay_number l) 0"

definition deferred_ok :: "FeedbackLoopRecord \<Rightarrow> bool" where
  "deferred_ok l \<longleftrightarrow> (lr_state l = LoopWaitingForHuman \<longrightarrow>
     (\<exists>d. lr_deferred l = Some d \<and> env_feedback_loop (df_envelope d) = Some (SendBack (df_target d))))"

definition loop_ok :: "FeedbackReplayRecord list \<Rightarrow> FeedbackLoopRecord \<Rightarrow> bool" where
  "loop_ok rs l \<longleftrightarrow> map rr_replay_number rs = [1..<Suc (count_of l)] \<and>
     lr_current_replay_id l = (if rs = [] then None else Some (rr_replay_id (last rs))) \<and> deferred_ok l"

definition keys_ok :: "(nat \<Rightarrow> string) \<Rightarrow> run_store \<Rightarrow> bool" where
  "keys_ok uuid s \<longleftrightarrow>
     distinct (map lr_loop_id (rs_loops s)) \<and> lr_loop_id ` set (rs_loops s) \<subseteq> uuid ` {..<rs_uuids s} \<and>
     distinct (map rr_replay_id (rs_replays s)) \<and> rr_replay_id ` set (rs_replays s) \<subseteq> uuid ` {..<rs_uuids s} \<and>
     rr_loop_id ` set (rs_replays s) \<subseteq> lr_loop_id ` set (rs_loops s) \<and>
     pr_replay_id ` set (rs_passes s) \<subseteq> rr_replay_id ` set (rs_replays s)"

definition loops_ok :: "(nat \<Rightarrow> string) \<Rightarrow> run_store \<Rightarrow> bool" where
  "loops_ok uuid s \<longleftrightarrow> keys_ok uuid s \<and> (\<forall>l\<in>set (rs_loops s). loop_ok (loop_replays s l) l) \<and> ledger_ok (ledger_of s)"

text \<open>What the operations around a replay leave alone: the loops and all of the replays but their status.\<close>

definition replay_core :: "FeedbackReplayRecord \<Rightarrow> FeedbackReplayRecord" where
  "replay_core r = r\<lparr>rr_status := ReplayActive, rr_updated_at := 0\<rparr>"

definition frame :: "(nat \<Rightarrow> string) \<Rightarrow> run_store \<Rightarrow> run_store \<Rightarrow> bool" where
  "frame uuid s s' \<longleftrightarrow> rs_loops s' = rs_loops s \<and> map replay_core (rs_replays s') = map replay_core (rs_replays s) \<and>
     pr_replay_id ` set (rs_passes s') \<subseteq> pr_replay_id ` set (rs_passes s) \<union> rr_replay_id ` set (rs_replays s) \<and>
     rs_uuids s \<le> rs_uuids s' \<and> (generations_ok uuid s \<longrightarrow> generations_ok uuid s')"

lemma core_fields [simp]:
  "rr_replay_id (replay_core r) = rr_replay_id r" "rr_loop_id (replay_core r) = rr_loop_id r"
  "rr_replay_number (replay_core r) = rr_replay_number r" "sent_back (replay_core r) = sent_back r"
  by (simp_all add: replay_core_def sent_back_def)

lemma map_core:
  assumes "map replay_core rs' = map replay_core rs" "\<And>r. f (replay_core r) = f r"
  shows "map f rs' = map f rs"
proof -
  have "map f rs' = map f (map replay_core rs')" by (simp add: assms(2) comp_def)
  also have "\<dots> = map f rs" unfolding assms(1) by (simp add: assms(2) comp_def)
  finally show ?thesis .
qed

lemma filter_core:
  "map replay_core rs' = map replay_core rs \<Longrightarrow>
   map replay_core (List.filter (\<lambda>r. rr_loop_id r = i) rs') = map replay_core (List.filter (\<lambda>r. rr_loop_id r = i) rs)"
  using filter_map [of "\<lambda>r. rr_loop_id r = i" replay_core rs'] filter_map [of "\<lambda>r. rr_loop_id r = i" replay_core rs]
  by (simp add: comp_def)

lemma frame_loop_replays: "frame uuid s s' \<Longrightarrow> map replay_core (loop_replays s' l) = map replay_core (loop_replays s l)"
  unfolding loop_replays_def frame_def by (intro filter_core) simp

lemma frame_ledger: "frame uuid s s' \<Longrightarrow> ledger_of s' = ledger_of s"
  using map_core [OF frame_loop_replays, of uuid s s' sent_back]
  by (simp add: ledger_of_def entry_of_def frame_def)

lemma frame_replay_ids: "frame uuid s s' \<Longrightarrow> rr_replay_id ` set (rs_replays s') = rr_replay_id ` set (rs_replays s)"
  using map_core [of "rs_replays s'" "rs_replays s" rr_replay_id] unfolding frame_def
  by (metis core_fields(1) list.set_map)

lemma frame_trans: "frame uuid s s' \<Longrightarrow> frame uuid s' s'' \<Longrightarrow> frame uuid s s''"
proof -
  assume f: "frame uuid s s'" "frame uuid s' s''"
  then have "pr_replay_id ` set (rs_passes s'') \<subseteq> pr_replay_id ` set (rs_passes s) \<union> rr_replay_id ` set (rs_replays s)"
    using frame_replay_ids [OF f(1)] unfolding frame_def by blast
  with f show ?thesis unfolding frame_def by (metis order_trans)
qed

lemma frame_refl [simp]: "frame uuid s s"
  by (simp add: frame_def)

lemma frame_loop_ok:
  assumes f: "frame uuid s s'" and ok: "loop_ok (loop_replays s l) l'"
  shows "loop_ok (loop_replays s' l) l'"
proof -
  note core = map_core [OF frame_loop_replays [OF f, of l]]
  have len: "length (loop_replays s' l) = length (loop_replays s l)"
    using arg_cong [OF frame_loop_replays [OF f, of l], of length] by simp
  have "rr_replay_id (last (loop_replays s' l)) = rr_replay_id (last (loop_replays s l))" if "loop_replays s l \<noteq> []"
  proof -
    have "loop_replays s' l \<noteq> []" using len that by auto
    then show ?thesis
      using core [of rr_replay_id] that by (metis core_fields(1) last_map)
  qed
  moreover have "loop_replays s' l = [] \<longleftrightarrow> loop_replays s l = []" using len by (metis length_0_conv)
  ultimately show ?thesis using ok core [of rr_replay_number] by (auto simp: loop_ok_def)
qed

lemma frame_keys_ok:
  assumes f: "frame uuid s s'" and ok: "keys_ok uuid s"
  shows "keys_ok uuid s'"
proof -
  have m: "map replay_core (rs_replays s') = map replay_core (rs_replays s)" and l: "rs_loops s' = rs_loops s"
    and u: "rs_uuids s \<le> rs_uuids s'" using f by (simp_all add: frame_def)
  note core = map_core [OF m]
  have ids: "map rr_replay_id (rs_replays s') = map rr_replay_id (rs_replays s)"
    "map rr_loop_id (rs_replays s') = map rr_loop_id (rs_replays s)"
    by (rule core, simp)+
  have loop_ids: "rr_loop_id ` set (rs_replays s') = rr_loop_id ` set (rs_replays s)"
    using arg_cong [OF ids(2), of set] by simp
  have sub: "uuid ` {..<rs_uuids s} \<subseteq> uuid ` {..<rs_uuids s'}" using u by (intro image_mono) simp
  have "pr_replay_id ` set (rs_passes s') \<subseteq> pr_replay_id ` set (rs_passes s) \<union> rr_replay_id ` set (rs_replays s)"
    "pr_replay_id ` set (rs_passes s) \<subseteq> rr_replay_id ` set (rs_replays s)"
    using f ok by (simp_all only: frame_def keys_ok_def)
  then have passes: "pr_replay_id ` set (rs_passes s') \<subseteq> rr_replay_id ` set (rs_replays s)" by blast
  show ?thesis
    using ok passes unfolding keys_ok_def l frame_replay_ids [OF f] ids loop_ids
    by (simp add: subset_trans [OF _ sub])
qed

lemma frame_loops_ok: "frame uuid s s' \<Longrightarrow> loops_ok uuid s \<Longrightarrow> loops_ok uuid s'"
  using frame_loop_ok [of uuid s s'] unfolding loops_ok_def
  by (metis frame_keys_ok frame_ledger frame_def)

definition loop_ids :: "run_store \<Rightarrow> string set" where
  "loop_ids s = lr_loop_id ` set (rs_loops s)"

lemma frame_loop_ids: "frame uuid s s' \<Longrightarrow> loop_ids s' = loop_ids s"
  by (simp add: loop_ids_def frame_def)

section \<open>Operations that keep the frame\<close>

lemma generations_ok_fields [simp]:
  "generations_ok uuid (s\<lparr>rs_passes := ps\<rparr>) = generations_ok uuid s"
  "generations_ok uuid (s\<lparr>rs_replays := rs\<rparr>) = generations_ok uuid s"
  "generations_ok uuid (s\<lparr>rs_loops := ls\<rparr>) = generations_ok uuid s"
  "generations_ok uuid (s\<lparr>rs_executions := es\<rparr>) = generations_ok uuid s"
  by (simp_all add: generations_ok_def)

lemma generations_ok_uuids: "generations_ok uuid s \<Longrightarrow> rs_uuids s \<le> n \<Longrightarrow> generations_ok uuid (s\<lparr>rs_uuids := n\<rparr>)"
  unfolding generations_ok_def by (auto dest!: subsetD)

lemma frame_replays: "map replay_core rs = map replay_core (rs_replays s) \<Longrightarrow> frame uuid s (s\<lparr>rs_replays := rs\<rparr>)"
  by (auto simp: frame_def)

lemma frame_passes:
  "pr_replay_id ` set ps \<subseteq> pr_replay_id ` set (rs_passes s) \<union> rr_replay_id ` set (rs_replays s) \<Longrightarrow>
   frame uuid s (s\<lparr>rs_passes := ps\<rparr>)"
  by (simp add: frame_def)

lemma frame_executions: "frame uuid s (s\<lparr>rs_executions := es\<rparr>)"
  by (simp add: frame_def)

lemma frame_patch_pass: "frame uuid s (s\<lparr>rs_passes := update_rows P (patch_pass p) (rs_passes s)\<rparr>)"
  by (intro frame_passes) simp

lemma frame_replay_status:
  "frame uuid s (s\<lparr>rs_replays := update_rows P (\<lambda>r. r\<lparr>rr_status := st, rr_updated_at := t\<rparr>) (rs_replays s)\<rparr>)"
  by (intro frame_replays) (simp add: replay_core_def)

lemmas frames = frame_patch_pass frame_replay_status frame_executions frame_refl

definition current_known :: "run_store \<Rightarrow> FeedbackLoopRecord \<Rightarrow> bool" where
  "current_known s l \<longleftrightarrow> (\<forall>i. lr_current_replay_id l = Some i \<longrightarrow> i \<in> rr_replay_id ` set (rs_replays s))"

lemma frame_current_known: "frame uuid s s' \<Longrightarrow> current_known s' l = current_known s l"
  by (simp add: current_known_def frame_replay_ids)

lemma current_known_ok:
  assumes "loops_ok uuid s" "l \<in> set (rs_loops s)"
  shows "current_known s l"
proof -
  have "loop_ok (loop_replays s l) l" using assms by (simp add: loops_ok_def)
  moreover have "last (loop_replays s l) \<in> set (rs_replays s)" if "loop_replays s l \<noteq> []"
    using last_in_set [OF that] by (simp add: loop_replays_def)
  ultimately show ?thesis by (auto simp: current_known_def loop_ok_def split: if_splits)
qed

lemma pass_of_key: "pass_of (passes_of s i) st = Some p \<Longrightarrow> (i, st) \<in> pass_key ` set (rs_passes s)"
  unfolding pass_of_def by (auto dest!: find_SomeD simp: set_passes_of pass_key_def image_iff)

lemma source_pass_frames:
  "current_known s l \<Longrightarrow> yields (updateFeedbackReplaySourcePass l src st env) s (\<lambda>_. frame uuid s)"
  unfolding updateFeedbackReplaySourcePass_def current_known_def
  by (auto simp: wp frames no_pass_patch_def pass_of_key split: option.splits)

lemma terminalize_frames:
  "current_known s l \<Longrightarrow> yields (terminalizeCurrentFeedbackReplay l st) s (\<lambda>_. frame uuid s)"
  unfolding terminalizeCurrentFeedbackReplay_def current_known_def
  by (auto simp: wp frames split: option.splits)

lemma yields_frame_then:
  assumes "yields m s (\<lambda>_. frame uuid s)" "\<And>x s'. frame uuid s s' \<Longrightarrow> yields (k x) s' (\<lambda>_. frame uuid s')"
  shows "yields (andThen m k) s (\<lambda>_. frame uuid s)"
  unfolding wp
  by (rule yields_mono [OF assms(1)], rule yields_mono [OF assms(2)]) (auto intro: frame_trans)

lemma complete_current_frames:
  assumes "current_known s l"
  shows "yields (complete_current l src env) s (\<lambda>_. frame uuid s)"
proof (cases "lr_current_replay_id l")
  case (Some i)
  have "i \<in> rr_replay_id ` set (rs_replays s')" if "frame uuid s s'" for s'
    using assms Some by (simp add: current_known_def frame_replay_ids [OF that])
  then have "yields (updateFeedbackReplay i ReplayCompleted) s' (\<lambda>_. frame uuid s')" if "frame uuid s s'" for s'
    using that by (simp add: wp frames)
  with source_pass_frames [OF assms] show ?thesis
    unfolding complete_current_def by (auto simp: Some intro: yields_frame_then)
qed (simp add: complete_current_def wp)

lemma retire_frames:
  assumes "inj uuid" "generations_ok uuid s"
  shows "yields (retireCohortsForRoute uuid dag route) s (\<lambda>_. frame uuid s)"
proof -
  obtain ids retired s' where r: "supersede_parents uuid dag (routeRelatedForkParentIds dag route) [] [] s = (Inr (ids, retired), s')"
    "generations_ok uuid s'" "only_generations s s'"
    using retire_parents [OF assms(2,1) distinct_routeRelated, of dag dag route "[]" "[]"] by blast
  have "rs_loops s' = rs_loops (s'\<lparr>rs_generations := [], rs_uuids := 0\<rparr>)"
    "rs_replays s' = rs_replays (s'\<lparr>rs_generations := [], rs_uuids := 0\<rparr>)"
    "rs_passes s' = rs_passes (s'\<lparr>rs_generations := [], rs_uuids := 0\<rparr>)" by simp_all
  with r(2,3) have "frame uuid s s'" unfolding only_generations_def frame_def by auto
  then show ?thesis
    using r(1) by (intro yieldsI [of _ _ "(ids, routeRelatedForkParentIds dag route)" s'])
      (simp_all add: retireCohortsForRoute_def supersedeActiveGenerations_def andThen_def Let_def return_run)
qed

section \<open>Reading the sessions of earlier replays\<close>

lemma first_origin_reads:
  "rr_replay_id ` set rs \<subseteq> rr_replay_id ` set (rs_replays s) \<Longrightarrow> yields (first_origin st rs fb) s (\<lambda>_ s'. s' = s)"
  by (induction rs) (auto simp: wp split: option.splits)

lemma resolveResume_reads:
  "i \<in> lr_loop_id ` set (rs_loops s) \<Longrightarrow> yields (resolveResumeSessionAttempt i st fb) s (\<lambda>_ s'. s' = s)"
  unfolding resolveResumeSessionAttempt_def wp
  by (auto simp: set_replays_of intro!: first_origin_reads)

lemma yields_reads: "yields m s (\<lambda>_ s'. s' = s) \<Longrightarrow> (\<And>x. P x s) \<Longrightarrow> yields m s P"
  by (auto elim: yields_mono)

section \<open>Launching the stages of a route\<close>

definition next_attempt :: "run_store \<Rightarrow> string \<Rightarrow> nat" where
  "next_attempt s st = max_attempt (executions_of s st) + 1"

definition pass_launch :: "FeedbackReplayStagePassRecord \<Rightarrow> (string \<times> string) \<times> nat \<times> replay_session \<times> PassStatus" where
  "pass_launch p = (pass_key p, pr_stage_attempt p, pr_session_mode p, pr_status p)"

definition note_attempt :: "run_store \<Rightarrow> (string, nat) jsmap \<Rightarrow> string \<Rightarrow> (string, nat) jsmap" where
  "note_attempt s m st = jset m st (next_attempt s st)"

definition launched ::
  "run_store \<Rightarrow> FeedbackReplayRecord \<Rightarrow> string list \<Rightarrow> launch_maps \<Rightarrow> launch_maps \<Rightarrow> run_store \<Rightarrow> bool" where
  "launched s r route m m' s' \<longleftrightarrow> (\<exists>ps.
     s' = s\<lparr>rs_executions := rs_executions s @ map (\<lambda>st. new_execution st (next_attempt s st)) route,
            rs_passes := rs_passes s @ ps\<rparr> \<and>
     map pass_launch ps = map (\<lambda>st. ((rr_replay_id r, st), next_attempt s st, rr_replay_session r, PassPending)) route \<and>
     lm_launch_attempts m' = foldl (note_attempt s) (lm_launch_attempts m) route)"

lemma ex_attempt_new [simp]: "ex_attempt (new_execution st n) = n"
  by (simp add: new_execution_def)

lemma next_attempt_other:
  "q \<noteq> st \<Longrightarrow> next_attempt (s\<lparr>rs_executions := rs_executions s @ [new_execution st n], rs_passes := ps\<rparr>) q = next_attempt s q"
  by (simp add: next_attempt_def executions_of_def new_execution_def)

lemma launched_Cons:
  fixes s :: run_store and st :: string
  assumes "st \<notin> set sts"
    and p: "pass_launch p = ((rr_replay_id r, st), next_attempt s st, rr_replay_session r, PassPending)"
    and rest: "launched (s\<lparr>rs_executions := rs_executions s @ [new_execution st (next_attempt s st)], rs_passes := rs_passes s @ [p]\<rparr>)
      r sts m1 m' s'"
    and m1: "lm_launch_attempts m1 = jset (lm_launch_attempts m) st (next_attempt s st)"
  shows "launched s r (st # sts) m m' s'"
proof -
  let ?s = "s\<lparr>rs_executions := rs_executions s @ [new_execution st (next_attempt s st)], rs_passes := rs_passes s @ [p]\<rparr>"
  have same: "next_attempt ?s q = next_attempt s q" if "q \<in> set sts" for q
    using that assms(1) by (intro next_attempt_other) auto
  have es: "map (\<lambda>q. new_execution q (next_attempt ?s q)) sts = map (\<lambda>q. new_execution q (next_attempt s q)) sts"
    by (intro map_cong refl) (simp add: same)
  have ps: "map (\<lambda>q. ((rr_replay_id r, q), next_attempt ?s q, rr_replay_session r, PassPending)) sts =
      map (\<lambda>q. ((rr_replay_id r, q), next_attempt s q, rr_replay_session r, PassPending)) sts"
    by (intro map_cong refl) (simp add: same)
  have ms: "foldl (note_attempt ?s) x sts = foldl (note_attempt s) x sts" for x
    by (intro foldl_cong refl) (simp add: note_attempt_def same)
  from rest obtain qs where q: "s' = ?s\<lparr>rs_executions := rs_executions ?s @ map (\<lambda>q. new_execution q (next_attempt ?s q)) sts,
      rs_passes := rs_passes ?s @ qs\<rparr>"
    "map pass_launch qs = map (\<lambda>q. ((rr_replay_id r, q), next_attempt ?s q, rr_replay_session r, PassPending)) sts"
    "lm_launch_attempts m' = foldl (note_attempt ?s) (lm_launch_attempts m1) sts"
    unfolding launched_def by blast
  show ?thesis
    unfolding launched_def
  proof (intro exI [of _ "p # qs"] conjI)
    show "s' = s\<lparr>rs_executions := rs_executions s @ map (\<lambda>q. new_execution q (next_attempt s q)) (st # sts),
        rs_passes := rs_passes s @ p # qs\<rparr>"
      using q(1) unfolding es by simp
    show "map pass_launch (p # qs) =
        map (\<lambda>q. ((rr_replay_id r, q), next_attempt s q, rr_replay_session r, PassPending)) (st # sts)"
      using q(2) p unfolding ps by simp
    show "lm_launch_attempts m' = foldl (note_attempt s) (lm_launch_attempts m) (st # sts)"
      using q(3) m1 unfolding ms by (simp add: note_attempt_def)
  qed
qed

lemma replay_route_run:
  assumes "lr_loop_id l \<in> lr_loop_id ` set (rs_loops s)" "rr_replay_id r \<in> rr_replay_id ` set (rs_replays s)"
    "distinct route" "\<And>st. st \<in> set route \<Longrightarrow> (rr_replay_id r, st) \<notin> pass_key ` set (rs_passes s)"
  shows "yields (replay_route l r route m) s (launched s r route m)"
  using assms
proof (induction route arbitrary: s m)
  case Nil
  then show ?case by (simp add: wp launched_def)
next
  case (Cons st sts)
  let ?mode = "rr_replay_session r"
  let ?e = "new_execution st (next_attempt s st)"
  have prior: "yields (if ?mode = Resume
        then resolveResumeSessionAttempt (lr_loop_id l) st (map_option ex_attempt (latest_execution s st))
        else return (map_option ex_attempt (latest_execution s st))) s (\<lambda>_ s'. s' = s)"
    using Cons.prems(1) by (simp add: wp resolveResume_reads)
  have rest: "yields (replay_route l r sts
        (note_launch st (buildContext l r prior) (toStageSessionMode ?mode) prior (next_attempt s st) m))
      (s\<lparr>rs_executions := rs_executions s @ [?e], rs_passes := rs_passes s @ [p]\<rparr>) (launched s r (st # sts) m)"
    if p: "p = new_pass (rr_replay_id r) st (next_attempt s st) origin ?mode PassPending" for prior origin p
  proof (rule yields_mono [OF Cons.IH])
    fix m' s'
    let ?m = "note_launch st (buildContext l r prior) (toStageSessionMode ?mode) prior (next_attempt s st) m"
    assume "launched (s\<lparr>rs_executions := rs_executions s @ [?e], rs_passes := rs_passes s @ [p]\<rparr>) r sts ?m m' s'"
    with Cons.prems(3) show "launched s r (st # sts) m m' s'"
      by (intro launched_Cons [of st sts p r s ?m]) (auto simp: p new_pass_def pass_launch_def pass_key_def note_launch_def)
  qed (use Cons.prems in \<open>auto simp: p pass_key_def new_pass_def\<close>)
  show ?case
    unfolding replay_route.simps Let_def wp
  proof (rule yields_reads [OF prior], goal_cases)
    case (1 prior)
    have "yields (replay_route l r sts (note_launch st (buildContext l r prior) (toStageSessionMode ?mode) prior
          (max_attempt (executions_of s st) + 1) m))
        (s\<lparr>rs_executions := rs_executions s @ [new_execution st (max_attempt (executions_of s st) + 1)],
           rs_passes := rs_passes s @ [new_pass (rr_replay_id r) st (max_attempt (executions_of s st) + 1) origin ?mode PassPending]\<rparr>)
        (launched s r (st # sts) m)" for origin
      using rest [OF refl] by (simp add: next_attempt_def)
    then show ?case using Cons.prems by simp
  qed
qed

lemma launched_frame:
  assumes "launched s r route m m' s'" "rr_replay_id r \<in> rr_replay_id ` set (rs_replays s)"
  shows "frame uuid s s'"
proof -
  from assms(1) obtain ps where s': "s' = s\<lparr>rs_executions := rs_executions s @ map (\<lambda>st. new_execution st (next_attempt s st)) route,
      rs_passes := rs_passes s @ ps\<rparr>"
    and ps: "map pass_launch ps = map (\<lambda>st. ((rr_replay_id r, st), next_attempt s st, rr_replay_session r, PassPending)) route"
    unfolding launched_def by blast
  have "fst (fst (pass_launch p)) = rr_replay_id r" if "p \<in> set ps" for p
  proof -
    have "pass_launch p \<in> set (map pass_launch ps)" using that by simp
    then show ?thesis unfolding ps by auto
  qed
  then have "pr_replay_id ` set ps \<subseteq> {rr_replay_id r}" by (auto simp: pass_launch_def pass_key_def)
  with assms(2) show ?thesis
    unfolding s' by (intro frame_trans [OF frame_executions frame_passes, simplified]) auto
qed

section \<open>The open loop\<close>

lemma sorted_find:
  "List.find P (sort_key k xs) = None \<longleftrightarrow> (\<forall>x\<in>set xs. \<not> P x)"
  "List.find P (sort_key k xs) = Some x \<Longrightarrow> x \<in> set xs \<and> P x"
  by (simp add: find_eq_None_iff) (drule find_SomeD, simp)

lemma one_open:
  assumes "loops_ok uuid s" "l \<in> set (rs_loops s)" "l' \<in> set (rs_loops s)" "open_loop l" "open_loop l'"
  shows "l' = l"
proof -
  have "length (List.filter open_loop (rs_loops s)) \<le> 1"
    using assms(1) by (simp add: loops_ok_def ledger_ok_def ledger_of_def filter_map comp_def)
  moreover have "l \<in> set (List.filter open_loop (rs_loops s))" "l' \<in> set (List.filter open_loop (rs_loops s))"
    using assms by simp_all
  ultimately show ?thesis
    by (cases "List.filter open_loop (rs_loops s)") (auto simp: le_Suc_eq)
qed

lemma any_open_entry: "list_ex open_entry (ledger_of s) \<longleftrightarrow> (\<exists>l\<in>set (rs_loops s). open_loop l)"
  by (auto simp: ledger_of_def list_ex_iff)

lemma ledger_of_cong: "rs_replays s' = rs_replays s \<Longrightarrow> entry_of s' l = entry_of s l"
  by (simp add: entry_of_def loop_replays_def)

lemma loop_added:
  assumes ok: "loops_ok uuid s" and inj: "inj uuid" and closed: "\<forall>l\<in>set (rs_loops s). \<not> open_loop l"
    and policy: "0 \<le> fl_max_replays policy"
    and s': "s' = s\<lparr>rs_uuids := Suc (rs_uuids s), rs_loops := rs_loops s @ [new_loop (uuid (rs_uuids s)) src n policy t]\<rparr>"
  shows "loops_ok uuid s'" "ledger_of s' = opened src policy (ledger_of s)"
proof -
  let ?l = "new_loop (uuid (rs_uuids s)) src n policy t"
  have fresh: "uuid (rs_uuids s) \<notin> lr_loop_id ` set (rs_loops s)" "uuid (rs_uuids s) \<notin> rr_loop_id ` set (rs_replays s)"
    using ok inj unfolding loops_ok_def keys_ok_def by (auto dest!: subsetD dest: injD)
  have none: "loop_replays s ?l = []"
    using fresh(2) by (auto simp: loop_replays_def new_loop_def filter_empty_conv image_iff)
  have same: "loop_replays s' l = loop_replays s l" for l by (simp add: s' loop_replays_def)
  have "\<not> list_ex open_entry (ledger_of s)" using closed by (simp add: any_open_entry)
  then show ledger: "ledger_of s' = opened src policy (ledger_of s)"
    using none
    by (auto simp: opened_def ledger_of_def s' entry_of_def state_of_def loop_replays_def new_loop_def)
  have "loop_ok [] ?l" by (simp add: loop_ok_def new_loop_def count_of_def deferred_ok_def or_else_def)
  moreover have "uuid ` {..<rs_uuids s} \<subseteq> uuid ` {..<Suc (rs_uuids s)}" by auto
  ultimately show "loops_ok uuid s'"
    using ok fresh none opened_ok [of "ledger_of s" policy src] policy
    unfolding loops_ok_def ledger same
    by (auto simp: s' keys_ok_def new_loop_def lessThan_Suc)
qed

definition at_open_loop :: "(nat \<Rightarrow> string) \<Rightarrow> string \<Rightarrow> run_store \<Rightarrow> FeedbackLoopRecord \<Rightarrow> bool" where
  "at_open_loop uuid src s l \<longleftrightarrow> loops_ok uuid s \<and> generations_ok uuid s \<and> l \<in> set (rs_loops s) \<and> open_loop l \<and>
     lr_source_stage_id l = src"

lemma ensure_loop_run:
  assumes ok: "loops_ok uuid s" "generations_ok uuid s" and inj: "inj uuid" and policy: "0 \<le> fl_max_replays policy"
    and src: "\<forall>l\<in>set (rs_loops s). open_loop l \<longrightarrow> lr_source_stage_id l = src"
  shows "yields (ensure_loop uuid src n policy (sort_key lr_created_at (rs_loops s))) s
    (\<lambda>l s'. at_open_loop uuid src s' l \<and> ledger_of s' = opened src policy (ledger_of s) \<and> loop_ids s \<subseteq> loop_ids s')"
proof (cases "\<exists>l\<in>set (rs_loops s). open_loop l")
  case True
  then obtain l where l: "l \<in> set (rs_loops s)" "open_loop l" "lr_source_stage_id l = src" using src by blast
  have "List.find (\<lambda>l. lr_source_stage_id l = src \<and> open_loop l) (sort_key lr_created_at (rs_loops s)) \<noteq> None"
    using l by (auto simp: sorted_find(1))
  then obtain k where k: "List.find (\<lambda>l. lr_source_stage_id l = src \<and> open_loop l) (sort_key lr_created_at (rs_loops s)) = Some k"
    by auto
  from sorted_find(2) [OF k] ok True show ?thesis
    by (simp add: ensure_loop_def k wp at_open_loop_def opened_def any_open_entry)
next
  case False
  let ?create = "andThen (fresh_uuid uuid) (\<lambda>i. createFeedbackLoop i src n policy)"
  have none: "List.find (\<lambda>l. lr_source_stage_id l = src \<and> open_loop l) (sort_key lr_created_at (rs_loops s)) = None"
    using False by (auto simp: sorted_find(1))
  have old: "\<not> open_loop k" if "List.find (\<lambda>l. lr_source_stage_id l = src) (sort_key lr_created_at (rs_loops s)) = Some k" for k
    using sorted_find(2) [OF that] False by blast
  have fresh: "uuid (rs_uuids s) \<notin> lr_loop_id ` set (rs_loops s)"
    using ok(1) inj unfolding loops_ok_def keys_ok_def by (auto dest!: subsetD dest: injD)
  have "generations_ok uuid (s\<lparr>rs_uuids := Suc (rs_uuids s)\<rparr>)" using ok(2) by (simp add: generations_ok_uuids)
  then have "yields ?create s (\<lambda>l s'. at_open_loop uuid src s' l \<and> ledger_of s' = opened src policy (ledger_of s) \<and>
      loop_ids s \<subseteq> loop_ids s')"
    using loop_added [OF ok(1) inj _ policy refl, of src n "now s"] False fresh
    by (auto simp: wp Let_def at_open_loop_def new_loop_def open_loop_def loop_ids_def)
  then show ?thesis using none old by (auto simp: ensure_loop_def Let_def split: option.splits)
qed

section \<open>Writing the open loop\<close>

lemma on_open_cong: "(\<And>e. e \<in> set es \<Longrightarrow> open_entry e \<Longrightarrow> f e = g e) \<Longrightarrow> on_open f es = on_open g es"
  by (simp add: on_open_def)

lemma update_other:
  "distinct (map lr_loop_id ls) \<Longrightarrow> l \<in> set ls \<Longrightarrow> k \<in> set ls \<Longrightarrow> lr_loop_id k = lr_loop_id l \<longleftrightarrow> k = l"
  by (auto simp: distinct_map dest: inj_onD)

lemma loop_written:
  assumes keys: "keys_ok uuid s" and l: "l \<in> set (rs_loops s)" "open_loop l"
    and one: "\<And>k. k \<in> set (rs_loops s) \<Longrightarrow> open_loop k \<Longrightarrow> k = l"
    and s': "s' = s\<lparr>rs_loops := update_rows (\<lambda>r. lr_loop_id r = lr_loop_id l) (patch_loop t p) (rs_loops s)\<rparr>"
  shows "keys_ok uuid s'" "ledger_of s' = on_open (\<lambda>_. entry_of s (patch_loop t p l)) (ledger_of s)"
    "\<lbrakk>\<And>k. k \<in> set (rs_loops s) \<Longrightarrow> k \<noteq> l \<Longrightarrow> loop_ok (loop_replays s k) k; loop_ok (loop_replays s l) (patch_loop t p l);
      ledger_ok (ledger_of s')\<rbrakk> \<Longrightarrow> loops_ok uuid s'"
proof -
  have d: "distinct (map lr_loop_id (rs_loops s))" using keys by (simp add: keys_ok_def)
  have rows: "rs_loops s' = map (\<lambda>k. if k = l then patch_loop t p l else k) (rs_loops s)"
  proof -
    have "(if lr_loop_id k = lr_loop_id l then patch_loop t p k else k) = (if k = l then patch_loop t p l else k)"
      if "k \<in> set (rs_loops s)" for k
      by (simp only: update_other [OF d l(1) that] cong: if_cong)
    then show ?thesis unfolding s' update_rows_def by simp
  qed
  have same: "entry_of s' k = entry_of s k" "loop_replays s' k = loop_replays s k" for k
    by (simp_all add: s' entry_of_def loop_replays_def)
  have key: "loop_replays s (patch_loop t p l) = loop_replays s l" by (simp add: loop_replays_def)
  have ids: "map lr_loop_id (rs_loops s') = map lr_loop_id (rs_loops s)" unfolding rows by (simp add: if_distrib [of lr_loop_id] cong: if_cong)
  have "lr_loop_id ` set (rs_loops s') = lr_loop_id ` set (rs_loops s)" using arg_cong [OF ids, of set] by simp
  then show keys': "keys_ok uuid s'" using keys unfolding keys_ok_def ids by (simp add: s')
  show "ledger_of s' = on_open (\<lambda>_. entry_of s (patch_loop t p l)) (ledger_of s)"
  proof -
    have "entry_of s' (if k = l then patch_loop t p l else k) =
        (if open_entry (entry_of s k) then entry_of s (patch_loop t p l) else entry_of s k)" if "k \<in> set (rs_loops s)" for k
    proof (cases "k = l")
      case False
      then have "\<not> open_loop k" using one [OF that] by blast
      then show ?thesis using False by (simp add: same)
    qed (simp add: same l(2))
    then show ?thesis unfolding ledger_of_def rows on_open_def by simp
  qed
  assume "\<And>k. k \<in> set (rs_loops s) \<Longrightarrow> k \<noteq> l \<Longrightarrow> loop_ok (loop_replays s k) k"
    "loop_ok (loop_replays s l) (patch_loop t p l)" "ledger_ok (ledger_of s')"
  then show "loops_ok uuid s'" using keys' unfolding loops_ok_def rows by (auto simp: same key)
qed

definition write_loop :: "FeedbackLoopRecord \<Rightarrow> FeedbackLoopPatch \<Rightarrow> run_store \<Rightarrow> run_store" where
  "write_loop l p s = s\<lparr>rs_loops := update_rows (\<lambda>r. lr_loop_id r = lr_loop_id l) (patch_loop (now s) p) (rs_loops s)\<rparr>"

lemma loop_ids_write [simp]: "loop_ids (write_loop l p s) = loop_ids s"
  by (simp add: loop_ids_def write_loop_def)

lemma wp_write_loop:
  assumes "keys_ok uuid s" "l \<in> set (rs_loops s)"
  shows "yields (updateFeedbackLoop (lr_loop_id l) p expected) s P \<longleftrightarrow>
      (if expected \<noteq> None \<and> expected \<noteq> Some (lr_state l) then P False s else P True (write_loop l p s))"
    "yields (getFeedbackLoop (lr_loop_id l)) (write_loop l p s) Q \<longleftrightarrow> Q (patch_loop (now s) p l) (write_loop l p s)"
proof -
  have r: "row lr_loop_id (rs_loops s) (lr_loop_id l) = Some l"
    using assms by (simp add: keys_ok_def row_unique)
  then show "yields (updateFeedbackLoop (lr_loop_id l) p expected) s P \<longleftrightarrow>
      (if expected \<noteq> None \<and> expected \<noteq> Some (lr_state l) then P False s else P True (write_loop l p s))"
    by (simp add: wp write_loop_def)
  have "row lr_loop_id (rs_loops (write_loop l p s)) (lr_loop_id l) = Some (patch_loop (now s) p l)"
    using r by (simp add: write_loop_def row_update)
  then show "yields (getFeedbackLoop (lr_loop_id l)) (write_loop l p s) Q \<longleftrightarrow> Q (patch_loop (now s) p l) (write_loop l p s)"
    by (simp add: wp)
qed

section \<open>A send-back on the open loop\<close>

fun agrees :: "FeedbackSendBackResult \<Rightarrow> verdict \<Rightarrow> bool" where
  "agrees (SbAccepted l r route m ids) v = (v = Replayed (rr_replay_number r))"
| "agrees (SbIdempotent l r route m ids) v = (v = Repeated)"
| "agrees (SbWaitingForHuman l d src n) v = (v = Parked)"
| "agrees (SbRejected reason) v = (v = Blocked \<or> v = Refused)"

definition implements ::
  "(nat \<Rightarrow> string) \<Rightarrow> run_store \<Rightarrow> verdict \<times> loop_entry list \<Rightarrow> FeedbackSendBackResult \<Rightarrow> run_store \<Rightarrow> bool" where
  "implements uuid s vl res s' \<longleftrightarrow> loops_ok uuid s' \<and> generations_ok uuid s' \<and> agrees res (fst vl) \<and>
     ledger_of s' = snd vl \<and> loop_ids s \<subseteq> loop_ids s'"

definition open_step :: "nat \<Rightarrow> string \<Rightarrow> run_store \<Rightarrow> FeedbackLoopRecord \<Rightarrow> verdict \<times> loop_entry list" where
  "open_step n target s l =
     (fst (entry_send_back n target (entry_of s l)), on_open (snd \<circ> entry_send_back n target) (ledger_of s))"

lemma open_step_ledger:
  assumes "at_open_loop uuid src s l"
  shows "on_open (\<lambda>_. snd (entry_send_back n target (entry_of s l))) (ledger_of s) = snd (open_step n target s l)"
proof -
  have "e = entry_of s l" if "e \<in> set (ledger_of s)" "open_entry e" for e
    using that assms one_open [of uuid s l] by (auto simp: ledger_of_def at_open_loop_def)
  then show ?thesis unfolding open_step_def snd_conv comp_def by (intro on_open_cong) simp
qed

lemma open_step_ok: "at_open_loop uuid src s l \<Longrightarrow> ledger_ok (snd (open_step n target s l))"
  by (auto simp: open_step_def at_open_loop_def loops_ok_def intro!: on_open_ok simp: entry_send_back_ok)

lemma at_open_loopD:
  assumes "at_open_loop uuid src s l"
  shows "keys_ok uuid s" "l \<in> set (rs_loops s)" "open_loop l" "loop_ok (loop_replays s l) l" "current_known s l"
    "\<And>k. k \<in> set (rs_loops s) \<Longrightarrow> open_loop k \<Longrightarrow> k = l"
    "\<And>k. k \<in> set (rs_loops s) \<Longrightarrow> loop_ok (loop_replays s k) k"
    "loops_ok uuid s" "generations_ok uuid s" "lr_source_stage_id l = src"
  using assms current_known_ok [of uuid s l] one_open [of uuid s l]
  by (auto simp: at_open_loop_def loops_ok_def)

lemma count_sent:
  assumes "loop_ok rs l"
  shows "length rs = count_of l" "next_replay_number l = Suc (length rs)"
proof -
  have "length rs = length [1..<Suc (count_of l)]" using assms unfolding loop_ok_def by (metis length_map)
  then show "length rs = count_of l" by simp
  then show "next_replay_number l = Suc (length rs)" by (simp add: next_replay_number_def count_of_def)
qed

text \<open>The bookkeeping of an operation that only writes the open loop, after a frame.\<close>

lemma write_open:
  assumes open_l: "at_open_loop uuid src s l" and f: "frame uuid s s1"
    and entry: "entry_of s (patch_loop (now s1) p l) = snd (entry_send_back n target (entry_of s l))"
    and ok: "loop_ok (loop_replays s l) (patch_loop (now s1) p l)"
  shows "loops_ok uuid (write_loop l p s1)" "generations_ok uuid (write_loop l p s1)"
    "ledger_of (write_loop l p s1) = snd (open_step n target s l)"
proof -
  note at = at_open_loopD [OF open_l]
  have loops: "rs_loops s1 = rs_loops s" using f by (simp add: frame_def)
  have entry1: "entry_of s1 k = entry_of s k" for k
    using map_core [OF frame_loop_replays [OF f, of k], of sent_back] by (simp add: entry_of_def)
  have l1: "l \<in> set (rs_loops s1)" and one1: "\<And>k. k \<in> set (rs_loops s1) \<Longrightarrow> open_loop k \<Longrightarrow> k = l"
    using at(2,6) unfolding loops by blast+
  note w = loop_written [OF frame_keys_ok [OF f at(1)] l1 at(3), of "write_loop l p s1" "now s1" p, OF one1]
  show ledger: "ledger_of (write_loop l p s1) = snd (open_step n target s l)"
    using w(2) unfolding entry1 frame_ledger [OF f] entry open_step_ledger [OF open_l] by (simp add: write_loop_def)
  show "loops_ok uuid (write_loop l p s1)"
  proof (rule w(3))
    show "write_loop l p s1 = s1\<lparr>rs_loops := update_rows (\<lambda>r. lr_loop_id r = lr_loop_id l) (patch_loop (now s1) p) (rs_loops s1)\<rparr>"
      by (rule write_loop_def)
    show "loop_ok (loop_replays s1 k) k" if "k \<in> set (rs_loops s1)" for k
      using that at(7) frame_loop_ok [OF f] unfolding loops by blast
    show "loop_ok (loop_replays s1 l) (patch_loop (now s1) p l)" by (rule frame_loop_ok [OF f ok])
    show "ledger_ok (ledger_of (write_loop l p s1))" unfolding ledger by (rule open_step_ok [OF open_l])
  qed
  show "generations_ok uuid (write_loop l p s1)"
    using f at(9) by (simp add: write_loop_def frame_def)
qed

lemma wp_write_open:
  assumes "at_open_loop uuid src s l" "frame uuid s s1"
  shows "yields (updateFeedbackLoop (lr_loop_id l) p None) s1 P \<longleftrightarrow> P True (write_loop l p s1)"
    "yields (getFeedbackLoop (lr_loop_id l)) (write_loop l p s1) Q \<longleftrightarrow> Q (patch_loop (now s1) p l) (write_loop l p s1)"
proof -
  have "l \<in> set (rs_loops s1)" using assms(2) at_open_loopD(2) [OF assms(1)] by (simp add: frame_def)
  from wp_write_loop [OF frame_keys_ok [OF assms(2) at_open_loopD(1) [OF assms(1)]] this]
  show "yields (updateFeedbackLoop (lr_loop_id l) p None) s1 P \<longleftrightarrow> P True (write_loop l p s1)"
    "yields (getFeedbackLoop (lr_loop_id l)) (write_loop l p s1) Q \<longleftrightarrow> Q (patch_loop (now s1) p l) (write_loop l p s1)"
    by simp_all
qed

lemma exhausted_run:
  assumes open_l: "at_open_loop uuid src s l" and env: "env_feedback_loop env = Some (SendBack target)"
    and new: "(n, target) \<notin> set (map sent_back (loop_replays s l))"
    and used: "\<not> int (length (loop_replays s l)) < fl_max_replays (lr_policy l)"
  shows "yields (send_back_exhausted l src n target env) s (implements uuid s (open_step n target s l))"
proof -
  note at = at_open_loopD [OF open_l]
  let ?d = "\<lparr>df_target = target, df_envelope = env, df_source_attempt = n\<rparr>"
  have same: "loop_replays s (patch_loop t p l) = loop_replays s l" for t p by (simp add: loop_replays_def)
  note patch = patch_loop_def no_loop_patch_def or_else_def
  have wait: ?thesis if human: "fl_on_max_replays (lr_policy l) = WaitForHuman"
  proof -
    let ?p = "no_loop_patch\<lparr>lp_state := Some LoopWaitingForHuman, lp_deferred := Some (Some ?d)\<rparr>"
    have w: "implements uuid s (open_step n target s l) (SbWaitingForHuman (patch_loop (now s1) ?p l) ?d src n) (write_loop l ?p s1)"
      if f: "frame uuid s s1" for s1
    proof -
      have "entry_of s (patch_loop (now s1) ?p l) = snd (entry_send_back n target (entry_of s l))"
        using new used human
        by (simp add: entry_send_back_def same) (simp add: entry_of_def state_of_def same patch loop_replays_def)
      moreover have "loop_ok (loop_replays s l) (patch_loop (now s1) ?p l)"
        using at(4) env by (auto simp: loop_ok_def patch count_of_def deferred_ok_def)
      moreover have "fst (open_step n target s l) = Parked"
        using new used human by (simp add: open_step_def entry_send_back_def)
      ultimately show ?thesis
        using write_open [OF open_l f] frame_loop_ids [OF f] by (simp add: implements_def)
    qed
    have "yields (andThen (terminalizeCurrentFeedbackReplay l ReplayWaitingForHuman) (\<lambda>_.
        updateFeedbackReplaySourcePass l src PassWaiting None)) s (\<lambda>_. frame uuid s)"
      using at(5) by (intro yields_frame_then terminalize_frames source_pass_frames) (simp_all add: frame_current_known)
    then show ?thesis
      using human w
      by (auto simp: send_back_exhausted_def Let_def andThen_assoc [symmetric] wp(5) wp(1) wp_write_open [OF open_l]
          elim!: yields_mono)
  qed
  have refuse: ?thesis if refuse: "fl_on_max_replays (lr_policy l) \<noteq> WaitForHuman"
  proof -
    let ?p = "no_loop_patch\<lparr>lp_state := Some LoopCompleted\<rparr>"
    have w: "implements uuid s (open_step n target s l) (SbRejected why) (write_loop l ?p s1)"
      if f: "frame uuid s s1" for s1 why
    proof -
      have "entry_of s (patch_loop (now s1) ?p l) = snd (entry_send_back n target (entry_of s l))"
        using new used refuse
        by (simp add: entry_send_back_def same) (simp add: entry_of_def state_of_def same patch loop_replays_def)
      moreover have "loop_ok (loop_replays s l) (patch_loop (now s1) ?p l)"
        using at(4) by (auto simp: loop_ok_def patch count_of_def deferred_ok_def)
      moreover have "fst (open_step n target s l) = Refused"
        using new used refuse by (simp add: open_step_def entry_send_back_def)
      ultimately show ?thesis
        using write_open [OF open_l f] frame_loop_ids [OF f] by (simp add: implements_def)
    qed
    from terminalize_frames [OF at(5), of ReplayFailed uuid] show ?thesis
      using refuse w
      by (auto simp: send_back_exhausted_def Let_def wp(5) wp(1) wp_write_open [OF open_l] elim!: yields_mono)
  qed
  from wait refuse show ?thesis by blast
qed

section \<open>A new replay\<close>

definition replay_input ::
  "string \<Rightarrow> FeedbackLoopRecord \<Rightarrow> string \<Rightarrow> nat \<Rightarrow> string \<Rightarrow> string list \<Rightarrow> StageEnvelope \<Rightarrow> CreateFeedbackReplayInput" where
  "replay_input i l src n target route env =
     \<lparr>ci_replay_id = i, ci_loop_id = lr_loop_id l, ci_source_stage_id = src, ci_source_attempt = n,
      ci_target_stage_id = target, ci_replay_number = next_replay_number l,
      ci_max_replays = fl_max_replays (lr_policy l), ci_replay_session = fl_replay_session (lr_policy l),
      ci_route_stage_ids = route, ci_feedback_envelope = env, ci_status = ReplayActive\<rparr>"

definition active_patch :: "string \<Rightarrow> FeedbackLoopRecord \<Rightarrow> FeedbackLoopPatch" where
  "active_patch i l = no_loop_patch\<lparr>lp_state := Some LoopActive, lp_current_replay_id := Some i,
     lp_current_replay_number := Some (next_replay_number l), lp_deferred := Some None\<rparr>"

definition add_replay :: "FeedbackReplayRecord \<Rightarrow> run_store \<Rightarrow> run_store" where
  "add_replay r s = s\<lparr>rs_replays := rs_replays s @ [r]\<rparr>"

lemma replay_input_fields [simp]:
  "ci_loop_id (replay_input i l src n target route env) = lr_loop_id l"
  "ci_replay_id (replay_input i l src n target route env) = i"
  "ci_replay_number (replay_input i l src n target route env) = next_replay_number l"
  by (simp_all add: replay_input_def)

lemma loop_replays_add:
  "loop_replays (add_replay r s) k = loop_replays s k @ (if rr_loop_id r = lr_loop_id k then [r] else [])"
  by (simp add: loop_replays_def add_replay_def)

text \<open>The keys of a replay that is about to be made are free.\<close>

lemma replay_keys_free:
  assumes open_l: "at_open_loop uuid src s l" and f: "frame uuid s s3" and inj: "inj uuid"
    and i: "i = uuid m" "rs_uuids s \<le> m" "m < rs_uuids s3"
  shows "lr_loop_id l \<in> lr_loop_id ` set (rs_loops s3)" "i \<notin> rr_replay_id ` set (rs_replays s3)"
    "(lr_loop_id l, next_replay_number l) \<notin> (\<lambda>r. (rr_loop_id r, rr_replay_number r)) ` set (rs_replays s3)"
    "(i, st) \<notin> pass_key ` set (rs_passes s3)"
    "rr_replay_id r = i \<Longrightarrow> rr_loop_id r = lr_loop_id l \<Longrightarrow> keys_ok uuid (add_replay r s3)"
proof -
  note at = at_open_loopD [OF open_l]
  have k: "keys_ok uuid s" by (rule at(1))
  show loop: "lr_loop_id l \<in> lr_loop_id ` set (rs_loops s3)" using at(2) f by (simp add: frame_def)
  have "rr_replay_id ` set (rs_replays s3) \<subseteq> uuid ` {..<rs_uuids s}"
    using k by (simp add: frame_replay_ids [OF f] keys_ok_def)
  then show free: "i \<notin> rr_replay_id ` set (rs_replays s3)" using i inj by (auto dest!: subsetD dest: injD)
  have k3: "keys_ok uuid s3" by (rule frame_keys_ok [OF f k])
  show "(i, st) \<notin> pass_key ` set (rs_passes s3)"
    using free k3 by (force simp: keys_ok_def pass_key_def)
  have ok: "loop_ok (loop_replays s3 l) l" by (rule frame_loop_ok [OF f at(4)])
  have "next_replay_number l \<notin> set (map rr_replay_number (loop_replays s3 l))"
    using ok count_sent [OF ok] by (simp add: loop_ok_def)
  then show "(lr_loop_id l, next_replay_number l) \<notin> (\<lambda>r. (rr_loop_id r, rr_replay_number r)) ` set (rs_replays s3)"
    by (auto simp: loop_replays_def)
  assume "rr_replay_id r = i" "rr_loop_id r = lr_loop_id l"
  then show "keys_ok uuid (add_replay r s3)"
    using k3 free loop i unfolding keys_ok_def add_replay_def by (auto simp del: One_nat_def)
qed

lemma replay_written:
  assumes open_l: "at_open_loop uuid src s l" and f: "frame uuid s s3"
    and new: "(n, target) \<notin> set (map sent_back (loop_replays s l))"
    and budget: "int (length (loop_replays s l)) < fl_max_replays (lr_policy l)"
    and r: "r = replay_of_input t (replay_input i l src n target route env)"
    and keys: "keys_ok uuid (add_replay r s3)" and f5: "frame uuid (add_replay r s3) s5"
  shows "implements uuid s (open_step n target s l) (SbAccepted l' r route' m ids) (write_loop l (active_patch i l) s5)"
proof -
  note at = at_open_loopD [OF open_l]
  let ?p = "patch_loop (now s5) (active_patch i l) l"
  have loops: "rs_loops s5 = rs_loops s" using f f5 by (simp add: frame_def add_replay_def)
  have lid: "rr_loop_id r = lr_loop_id l" by (simp add: r replay_of_input_def replay_input_def)
  have d: "distinct (map lr_loop_id (rs_loops s))" using at(1) by (simp add: keys_ok_def)
  note core5 = frame_loop_replays [OF f5]
  note core3 = frame_loop_replays [OF f]
  have sent: "map sent_back (loop_replays s5 k) = map sent_back (loop_replays s k) @ (if k = l then [(n, target)] else [])"
    if "k \<in> set (rs_loops s)" for k
  proof -
    have "map sent_back (loop_replays s5 k) = map sent_back (loop_replays s3 k) @ (if k = l then [sent_back r] else [])"
      using map_core [OF core5, of sent_back] update_other [OF d at(2) that] by (auto simp: loop_replays_add lid)
    moreover have "map sent_back (loop_replays s3 k) = map sent_back (loop_replays s k)"
      by (rule map_core [OF core3]) simp
    moreover have "sent_back r = (n, target)" by (simp add: r replay_of_input_def replay_input_def sent_back_def)
    ultimately show ?thesis by simp
  qed
  have entry: "entry_of s5 ?p = snd (entry_send_back n target (entry_of s l))"
    using new budget sent [OF at(2)]
    by (simp add: entry_send_back_def)
      (simp add: entry_of_def state_of_def loop_replays_def patch_loop_def active_patch_def no_loop_patch_def or_else_def)
  have other: "entry_of s5 k = entry_of s k" if "k \<in> set (rs_loops s)" "k \<noteq> l" for k
    using sent [OF that(1)] that(2) by (simp add: entry_of_def)
  have l5: "l \<in> set (rs_loops s5)" and one5: "\<And>k. k \<in> set (rs_loops s5) \<Longrightarrow> open_loop k \<Longrightarrow> k = l"
    using at(2,6) unfolding loops by blast+
  note w = loop_written [OF frame_keys_ok [OF f5 keys] l5 at(3), of "write_loop l (active_patch i l) s5" "now s5"
      "active_patch i l", OF one5]
  have "on_open (\<lambda>_. X) (ledger_of s5) = on_open (\<lambda>_. X) (ledger_of s)" for X
  proof -
    have "(if open_loop k then X else entry_of s5 k) = (if open_loop k then X else entry_of s k)"
      if "k \<in> set (rs_loops s)" for k
      using other [OF that] at(3) by auto
    then show ?thesis by (simp add: on_open_def ledger_of_def loops)
  qed
  then have ledger: "ledger_of (write_loop l (active_patch i l) s5) = snd (open_step n target s l)"
    using w(2) open_step_ledger [OF open_l, of n target] unfolding entry by (simp add: write_loop_def)
  have replays: "loop_ok (loop_replays (add_replay r s3) l) ?p"
  proof -
    have "loop_ok (loop_replays s3 l) l" by (rule frame_loop_ok [OF f at(4)])
    then show ?thesis
      using count_sent [of "loop_replays s3 l" l]
      by (auto simp: loop_ok_def loop_replays_add lid patch_loop_def active_patch_def no_loop_patch_def or_else_def
          count_of_def deferred_ok_def r replay_of_input_def replay_input_def)
  qed
  have "loops_ok uuid (write_loop l (active_patch i l) s5)"
  proof (rule w(3))
    show "write_loop l (active_patch i l) s5 =
        s5\<lparr>rs_loops := update_rows (\<lambda>r. lr_loop_id r = lr_loop_id l) (patch_loop (now s5) (active_patch i l)) (rs_loops s5)\<rparr>"
      by (rule write_loop_def)
    show "loop_ok (loop_replays s5 k) k" if "k \<in> set (rs_loops s5)" "k \<noteq> l" for k
    proof -
      have "k \<in> set (rs_loops s)" using that(1) by (simp add: loops)
      then have "loop_replays (add_replay r s3) k = loop_replays s3 k"
        using update_other [OF d at(2), of k] that(2) by (auto simp: loop_replays_add lid)
      with frame_loop_ok [OF f at(7) [OF \<open>k \<in> set (rs_loops s)\<close>]] have "loop_ok (loop_replays (add_replay r s3) k) k" by simp
      then show ?thesis by (rule frame_loop_ok [OF f5])
    qed
    show "loop_ok (loop_replays s5 l) ?p" by (rule frame_loop_ok [OF f5 replays])
    show "ledger_ok (ledger_of (write_loop l (active_patch i l) s5))" unfolding ledger by (rule open_step_ok [OF open_l])
  qed
  moreover have "generations_ok uuid (write_loop l (active_patch i l) s5)"
    using f f5 at(9) by (simp add: write_loop_def frame_def add_replay_def)
  moreover have "rr_replay_number r = length (loop_replays s l) + 1"
    using count_sent(2) [OF at(4)] by (simp add: r replay_of_input_def replay_input_def)
  moreover have "loop_ids (write_loop l (active_patch i l) s5) = loop_ids s" by (simp, simp add: loop_ids_def loops)
  ultimately show ?thesis
    using ledger new budget by (simp add: implements_def open_step_def entry_send_back_def)
qed

lemma route_ids:
  assumes "index_of (ancestors node) target = Some k"
  shows "yields (feedbackRouteStageIds node target) s P = P (drop k (ancestors node) @ [node_id node]) s"
  using assms by (simp add: feedbackRouteStageIds_def wp)

definition make_replay ::
  "(nat \<Rightarrow> string) \<Rightarrow> ResolvedPipelineDag \<Rightarrow> ResolvedPipelineStageNode \<Rightarrow> nat \<Rightarrow> string \<Rightarrow> StageEnvelope \<Rightarrow>
   FeedbackLoopRecord \<Rightarrow> string list \<Rightarrow> string list \<Rightarrow> FeedbackSendBackResult action" where
  "make_replay uuid dag node n target env l route ids =
     andThen (fresh_uuid uuid) (\<lambda>replayId.
     andThen (createFeedbackReplay (replay_input replayId l (node_id node) n target route env)) (\<lambda>r.
     andThen (replay_route l r route no_launches) (\<lambda>m.
     andThen (gets (attachActiveForkContext dag (lm_contexts m))) (\<lambda>contexts.
     andThen (updateFeedbackLoop (lr_loop_id l) (active_patch replayId l) None) (\<lambda>_.
     andThen (getFeedbackLoop (lr_loop_id l)) (\<lambda>updated.
       return (SbAccepted updated r route (m\<lparr>lm_contexts := contexts\<rparr>) ids)))))))"

lemma start_replay_split:
  "start_replay uuid dag node n target env l =
     andThen (complete_current l (node_id node) env) (\<lambda>_.
     andThen (feedbackRouteStageIds node target) (\<lambda>route.
     andThen (retireCohortsForRoute uuid dag route) (\<lambda>x. make_replay uuid dag node n target env l route (fst x))))"
  unfolding start_replay_def make_replay_def replay_input_def active_patch_def case_prod_unfold by (rule refl)

lemma start_replay_run:
  assumes open_l: "at_open_loop uuid (node_id node) s l" and inj: "inj uuid"
    and new: "(n, target) \<notin> set (map sent_back (loop_replays s l))"
    and budget: "int (length (loop_replays s l)) < fl_max_replays (lr_policy l)"
    and target: "target \<in> set (ancestors node)" and route: "distinct (ancestors node @ [node_id node])"
  shows "yields (start_replay uuid dag node n target env l) s (implements uuid s (open_step n target s l))"
proof -
  note at = at_open_loopD [OF open_l]
  from target obtain k where k: "index_of (ancestors node) target = Some k" by (metis index_of_None_iff not_None_eq)
  define route where "route = drop k (ancestors node) @ [node_id node]"
  have d: "distinct route" using route set_drop_subset [of k "ancestors node"] by (auto simp: route_def)
  have retire: "yields (retireCohortsForRoute uuid dag route) s1 (\<lambda>_. frame uuid s1)" if "frame uuid s s1" for s1
    using that at(9) by (intro retire_frames inj) (simp add: frame_def)
  have fin: "yields (make_replay uuid dag node n target env l route (fst x)) s2 (implements uuid s (open_step n target s l))" if f: "frame uuid s s2" for x s2
  proof -
    let ?i = "uuid (rs_uuids s2)" and ?s3 = "s2\<lparr>rs_uuids := Suc (rs_uuids s2)\<rparr>"
    let ?in = "replay_input ?i l (node_id node) n target route env"
    let ?r = "replay_of_input (now ?s3) ?in"
    have "frame uuid s2 ?s3" by (simp add: frame_def generations_ok_uuids)
    with f have f3: "frame uuid s ?s3" by (rule frame_trans)
    have u: "rs_uuids s \<le> rs_uuids s2" using f by (simp add: frame_def)
    have rid: "rr_replay_id ?r = ?i" "rr_loop_id ?r = lr_loop_id l" by (simp_all add: replay_of_input_def replay_input_def)
    note free = replay_keys_free [OF open_l f3 inj refl u, simplified]
    have keys: "keys_ok uuid (add_replay ?r ?s3)"
      using replay_keys_free(5) [OF open_l f3 inj refl u _ rid] by simp
    have run: "yields (replay_route l ?r route no_launches) (add_replay ?r ?s3) (launched (add_replay ?r ?s3) ?r route no_launches)"
      using free d rid by (intro replay_route_run) (auto simp: add_replay_def)
    have last: "yields (updateFeedbackLoop (lr_loop_id l) (active_patch ?i l) None) s5 (\<lambda>_ s'.
        yields (getFeedbackLoop (lr_loop_id l)) s' (\<lambda>updated.
          implements uuid s (open_step n target s l) (SbAccepted updated ?r route (m\<lparr>lm_contexts := c\<rparr>) ids)))"
      if l5: "launched (add_replay ?r ?s3) ?r route no_launches m s5" for s5 m c ids
    proof -
      have f5: "frame uuid (add_replay ?r ?s3) s5"
        by (rule launched_frame [OF l5]) (simp add: add_replay_def)
      have "l \<in> set (rs_loops s5)" using f5 f3 at(2) by (simp add: frame_def add_replay_def)
      note w = wp_write_loop [OF frame_keys_ok [OF f5 keys] this]
      from replay_written [OF open_l f3 new budget refl keys f5] show ?thesis by (simp add: w)
    qed
    have "yields (andThen (gets (attachActiveForkContext dag (lm_contexts m))) (\<lambda>contexts.
        andThen (updateFeedbackLoop (lr_loop_id l) (active_patch ?i l) None) (\<lambda>_.
        andThen (getFeedbackLoop (lr_loop_id l)) (\<lambda>updated.
          return (SbAccepted updated ?r route (m\<lparr>lm_contexts := contexts\<rparr>) (fst x)))))) s5 (implements uuid s (open_step n target s l))"
      if "launched (add_replay ?r ?s3) ?r route no_launches m s5" for m s5
      using last [OF that] by (simp add: wp(1,3,5))
    then have "yields (replay_route l ?r route no_launches) (add_replay ?r ?s3) (\<lambda>m s5.
        yields (andThen (gets (attachActiveForkContext dag (lm_contexts m))) (\<lambda>contexts.
        andThen (updateFeedbackLoop (lr_loop_id l) (active_patch ?i l) None) (\<lambda>_.
        andThen (getFeedbackLoop (lr_loop_id l)) (\<lambda>updated.
          return (SbAccepted updated ?r route (m\<lparr>lm_contexts := contexts\<rparr>) (fst x)))))) s5 (implements uuid s (open_step n target s l)))"
      by (rule yields_mono [OF run])
    then show ?thesis
      using free(1-3)
      unfolding make_replay_def wp(6) wp_createReplay wp(5) [of "fresh_uuid uuid"] wp(5) [of "createFeedbackReplay _"]
        wp(5) [of "replay_route _ _ _ _"] add_replay_def [symmetric]
      by simp
  qed
  show ?thesis
    unfolding start_replay_split wp(5)
  proof (rule yields_mono [OF complete_current_frames [OF at(5), where uuid = uuid]])
    fix x s1
    assume f1: "frame uuid s s1"
    show "yields (feedbackRouteStageIds node target) s1 (\<lambda>route s'. yields (retireCohortsForRoute uuid dag route) s'
        (\<lambda>x s2. yields (make_replay uuid dag node n target env l route (fst x)) s2 (implements uuid s (open_step n target s l))))"
      unfolding route_ids [OF k] route_def [symmetric]
      by (rule yields_mono [OF retire [OF f1]]) (rule fin [OF frame_trans [OF f1]])
  qed
qed

lemma rebuild_reads:
  "lr_loop_id l \<in> lr_loop_id ` set (rs_loops s) \<Longrightarrow> yields (rebuild_passes l r ps m) s (\<lambda>_ s'. s' = s)"
proof (induction ps arbitrary: m)
  case (Cons p ps)
  have "yields (if rr_replay_session r = Resume
        then (case pr_session_origin_attempt p of
                Some k \<Rightarrow> return (Some k)
              | None \<Rightarrow> resolveResumeSessionAttempt (lr_loop_id l) (pr_stage_id p) (previous_attempt (pr_stage_attempt p)))
        else return (previous_attempt (pr_stage_attempt p))) s (\<lambda>_ s'. s' = s)"
    using Cons.prems by (simp add: wp(1) resolveResume_reads split: option.splits)
  then show ?case
    unfolding rebuild_passes.simps wp(5) by (rule yields_reads) (rule Cons.IH [OF Cons.prems])
qed (simp add: wp(1))

lemma rebuildLaunchMaps_reads:
  assumes "lr_loop_id l \<in> lr_loop_id ` set (rs_loops s)" "rr_replay_id r \<in> rr_replay_id ` set (rs_replays s)"
  shows "yields (rebuildLaunchMaps l r dag) s (\<lambda>_ s'. s' = s)"
  using assms(2) yields_mono [OF rebuild_reads [OF assms(1)]]
  unfolding rebuildLaunchMaps_def wp(5) wp_passes(1) by (simp add: wp(3))

lemma send_back_on_run:
  assumes open_l: "at_open_loop uuid (node_id node) s l" and inj: "inj uuid"
    and env: "env_feedback_loop env = Some (SendBack target)"
    and target: "target \<in> set (ancestors node)" and route: "distinct (ancestors node @ [node_id node])"
  shows "yields (send_back_on uuid dag node n target env l) s (implements uuid s (open_step n target s l))"
proof -
  note at = at_open_loopD [OF open_l]
  let ?dup = "List.find (\<lambda>r. rr_source_attempt r = n \<and> rr_target_stage_id r = target) (replays_of s (lr_loop_id l))"
  have replays: "set (replays_of s (lr_loop_id l)) = set (loop_replays s l)" by (simp add: set_replays_of loop_replays_def)
  have listed: "yields (listFeedbackReplays (lr_loop_id l)) s P \<longleftrightarrow> P (replays_of s (lr_loop_id l)) s" for P
    using at(2) by (auto simp: wp_replays)
  show ?thesis
  proof (cases ?dup)
    case None
    then have new: "(n, target) \<notin> set (map sent_back (loop_replays s l))"
      by (auto simp: find_eq_None_iff replays sent_back_def)
    have count: "next_replay_number l = Suc (length (loop_replays s l))" by (rule count_sent(2) [OF at(4)])
    show ?thesis
    proof (cases "int (length (loop_replays s l)) < fl_max_replays (lr_policy l)")
      case True
      then show ?thesis
        using start_replay_run [OF open_l inj new True target route] None
        by (simp add: send_back_on_def wp(5) listed count)
    next
      case False
      then show ?thesis
        using exhausted_run [OF open_l env new False] None by (simp add: send_back_on_def wp(5) listed count)
    qed
  next
    case (Some dup)
    then have dup: "dup \<in> set (loop_replays s l)" "sent_back dup = (n, target)"
      using find_SomeD [OF Some] by (auto simp: replays sent_back_def)
    then have sent: "(n, target) \<in> set (map sent_back (loop_replays s l))" by (metis image_eqI list.set_map)
    have rid: "rr_replay_id dup \<in> rr_replay_id ` set (rs_replays s)" using dup(1) by (simp add: loop_replays_def)
    have "on_open (\<lambda>_. entry_of s l) (ledger_of s) = ledger_of s"
    proof -
      have "(if open_loop k then entry_of s l else entry_of s k) = entry_of s k" if "k \<in> set (rs_loops s)" for k
        using at(6) [OF that] by (cases "open_loop k") simp_all
      then show ?thesis by (simp add: on_open_def ledger_of_def)
    qed
    then have "implements uuid s (open_step n target s l) (SbIdempotent l dup (rr_route_stage_ids dup) m ids) s" for m ids
      using open_step_ledger [OF open_l, of n target] sent at(8,9)
      by (simp add: implements_def open_step_def entry_send_back_def)
    then show ?thesis
      using yields_mono [OF rebuildLaunchMaps_reads [OF _ rid, of l]] at(2) Some
      by (simp add: send_back_on_def wp(1,3,5) listed)
  qed
qed

lemma ledger_find:
  assumes "at_open_loop uuid src s l"
  shows "List.find open_entry (ledger_of s) = Some (entry_of s l)"
proof -
  note at = at_open_loopD [OF assms]
  obtain e where e: "List.find open_entry (ledger_of s) = Some e"
    using at(2,3) any_open_entry [of s] by (cases "List.find open_entry (ledger_of s)") (auto simp: find_eq_None_iff list_ex_iff)
  then obtain k where "k \<in> set (rs_loops s)" "e = entry_of s k" "open_loop k"
    using find_SomeD [OF e] by (auto simp: ledger_of_def)
  with at(6) have "e = entry_of s l" by blast
  with e show ?thesis by simp
qed

lemma accept_run:
  assumes inj: "inj uuid" and ok: "loops_ok uuid s" "generations_ok uuid s"
    and env: "env_feedback_loop env = Some (SendBack target)" and node: "feedback_loop node = Some policy"
    and policy: "0 \<le> fl_max_replays policy"
    and target: "target \<in> set (ancestors node)" and route: "distinct (ancestors node @ [node_id node])"
  shows "yields (acceptFeedbackSendBack uuid dag node n env) s
    (implements uuid s (ledger_send_back (node_id node) policy n target (ledger_of s)))"
proof -
  let ?other = "\<lambda>l. open_loop l \<and> lr_source_stage_id l \<noteq> node_id node"
  have blocked: "list_ex (\<lambda>e. open_entry e \<and> le_source e \<noteq> node_id node) (ledger_of s) \<longleftrightarrow> (\<exists>l\<in>set (rs_loops s). ?other l)"
    by (auto simp: ledger_of_def list_ex_iff)
  show ?thesis
  proof (cases "List.find ?other (sort_key lr_created_at (rs_loops s))")
    case (Some l)
    then have "\<exists>l\<in>set (rs_loops s). ?other l" using sorted_find(2) [OF Some] by blast
    then have "ledger_send_back (node_id node) policy n target (ledger_of s) = (Blocked, ledger_of s)"
      using blocked by (simp add: ledger_send_back_def)
    then show ?thesis
      using Some ok by (simp add: acceptFeedbackSendBack_def env node wp(5) wp_loops(1) wp(1) implements_def)
  next
    case None
    then have none: "\<not> (\<exists>l\<in>set (rs_loops s). ?other l)" by (simp add: sorted_find(1))
    then have src: "\<forall>l\<in>set (rs_loops s). open_loop l \<longrightarrow> lr_source_stage_id l = node_id node" by blast
    have "yields (send_back_on uuid dag node n target env l) s1
        (implements uuid s (ledger_send_back (node_id node) policy n target (ledger_of s)))"
      if "at_open_loop uuid (node_id node) s1 l \<and> ledger_of s1 = opened (node_id node) policy (ledger_of s) \<and>
        loop_ids s \<subseteq> loop_ids s1" for l s1
    proof -
      from that have at: "at_open_loop uuid (node_id node) s1 l" by blast
      have "ledger_send_back (node_id node) policy n target (ledger_of s) = open_step n target s1 l"
        using blocked none that ledger_find [OF at] by (simp add: ledger_send_back_def open_step_def)
      with yields_mono [OF send_back_on_run [OF at inj env target route, of dag n]] that show ?thesis
        by (simp add: implements_def subset_trans [of "loop_ids s" "loop_ids s1"])
    qed
    then show ?thesis
      using yields_mono [OF ensure_loop_run [OF ok inj policy src]] None
      by (simp add: acceptFeedbackSendBack_def env node wp(5) wp_loops(1))
  qed
qed

section \<open>Properties\<close>

definition loop_policy :: FeedbackLoopConfig where
  "loop_policy = \<lparr>fl_target = ''plan'', fl_max_replays = 1, fl_on_max_replays = WaitForHuman, fl_replay_session = Resume\<rparr>"

definition loop_dag :: ResolvedPipelineDag where
  "loop_dag = (let d = linearCompatDagSnapshot [''plan'', ''build'', ''review'', ''ship'']
     in d\<lparr>nodes := map (\<lambda>n. if node_id n = ''review''
          then n\<lparr>ancestors := [''plan'', ''build''], feedback_loop := Some loop_policy\<rparr> else n) (nodes d)\<rparr>)"

definition review_node :: ResolvedPipelineStageNode where
  "review_node = (plain_node ''review'')\<lparr>ancestors := [''plan'', ''build''], feedback_loop := Some loop_policy\<rparr>"

definition send_back_envelope :: StageEnvelope where
  "send_back_envelope = (success_envelope [])\<lparr>env_feedback_loop := Some (SendBack ''plan'')\<rparr>"

lemma blank_loops_ok: "loops_ok uuid blank_store"
  by (simp add: loops_ok_def keys_ok_def blank_store_def ledger_ok_def ledger_of_def)

text \<open>
  C6: a stage that sends its work back never clashes with a key of the store, and does what the
  ledger says: the send-back is refused while another stage's loop is open, repeated when the same
  attempt sent the same work back before, replayed as the next replay while the budget of the
  loop lasts, and otherwise parked for a human or refused.  The tables stay consistent: at most
  one loop is open, its replays are numbered from one without gaps and are within its budget.
\<close>

theorem send_back_refines_ledger:
  "inj uuid \<Longrightarrow> loops_ok uuid s \<Longrightarrow> generations_ok uuid s \<Longrightarrow>
   env_feedback_loop env = Some (SendBack target) \<Longrightarrow> feedback_loop node = Some policy \<Longrightarrow> 0 \<le> fl_max_replays policy \<Longrightarrow>
   target \<in> set (ancestors node) \<Longrightarrow> distinct (ancestors node @ [node_id node]) \<Longrightarrow>
   \<exists>res s'. acceptFeedbackSendBack uuid dag node n env s = (Inr res, s') \<and>
     loops_ok uuid s' \<and> generations_ok uuid s' \<and>
     agrees res (fst (ledger_send_back (node_id node) policy n target (ledger_of s))) \<and>
     ledger_of s' = snd (ledger_send_back (node_id node) policy n target (ledger_of s))"
  using accept_run [of uuid s env target node policy dag n] by (auto simp: yields_iff implements_def)

theorem send_back_refines_ledger_witness:
  "\<exists>l r route m ids s'.
     acceptFeedbackSendBack sample_uuid loop_dag review_node 1 send_back_envelope blank_store =
       (Inr (SbAccepted l r route m ids), s') \<and> rr_replay_number r = 1 \<and>
     ledger_of s' = [\<lparr>le_source = ''review'', le_policy = loop_policy, le_state = Running, le_sent = [(1, ''plan'')]\<rparr>]"
proof -
  have hyps: "env_feedback_loop send_back_envelope = Some (SendBack ''plan'')" "feedback_loop review_node = Some loop_policy"
    "0 \<le> fl_max_replays loop_policy" "''plan'' \<in> set (ancestors review_node)"
    "distinct (ancestors review_node @ [node_id review_node])" by code_simp+
  have step: "ledger_send_back (node_id review_node) loop_policy 1 ''plan'' (ledger_of blank_store) =
      (Replayed 1, [\<lparr>le_source = ''review'', le_policy = loop_policy, le_state = Running, le_sent = [(1, ''plan'')]\<rparr>])"
    by code_simp
  from send_back_refines_ledger [OF inj_sample_uuid blank_loops_ok blank_store_ok hyps, of loop_dag 1]
  obtain res s' where r: "acceptFeedbackSendBack sample_uuid loop_dag review_node 1 send_back_envelope blank_store = (Inr res, s')"
    "agrees res (Replayed 1)"
    "ledger_of s' = [\<lparr>le_source = ''review'', le_policy = loop_policy, le_state = Running, le_sent = [(1, ''plan'')]\<rparr>]"
    unfolding step by auto
  then show ?thesis by (cases res) auto
qed

end
