(* ===== verification/Feedback_Decision.thy ===== *)
theory Feedback_Decision
  imports Feedback_Correct
begin

text \<open>
  The decisions of an operator on a parked loop (\<open>runtime/feedbackLoopDecision.ts\<close>) implement the
  ledger's steps, and so does any sequence of send-backs, endings and decisions.
\<close>

section \<open>Events and executions around a decision\<close>

lemma frame_fields [simp]:
  "frame uuid s (s'\<lparr>rs_stages := x\<rparr>) = frame uuid s s'"
  "frame uuid s (s'\<lparr>rs_events := y\<rparr>) = frame uuid s s'"
  "frame uuid s (s'\<lparr>rs_executions := es\<rparr>) = frame uuid s s'"
  "frame uuid s (s'\<lparr>rs_status := st\<rparr>) = frame uuid s s'"
  "frame uuid s (s'\<lparr>rs_finished_at := f\<rparr>) = frame uuid s s'"
  by (simp_all add: frame_def generations_ok_def)

lemma frame_denorm [simp]: "frame uuid s (updateStageStatusDenorm st ev s') = frame uuid s s'"
  by (auto simp: updateStageStatusDenorm_def split: option.splits)

lemma append_frames: "guardStageId st \<Longrightarrow> yields (appendStageEvent st ev n) s (\<lambda>_. frame uuid s)"
  unfolding appendStageEvent_def Let_def wp
  by (simp add: yields_def ensureAttemptWorkspace_def)

lemma append_executions: "guardStageId st \<Longrightarrow> yields (appendStageEvent st ev n) s (\<lambda>_ s'. rs_executions s' = rs_executions s)"
  unfolding appendStageEvent_def Let_def wp
  by (auto simp: yields_def ensureAttemptWorkspace_def updateStageStatusDenorm_def split: option.splits)

lemma latest_execution_row:
  assumes "latest_execution s st = Some e"
  shows "row (\<lambda>e. (ex_stage_id e, ex_attempt e)) (rs_executions s) (st, ex_attempt e) \<noteq> None"
proof -
  have "e \<in> set (rs_executions s)" "ex_stage_id e = st"
    using find_SomeD [OF assms [unfolded latest_execution_def]] by (simp_all add: executions_of_def)
  then show ?thesis by (auto simp: row_def find_eq_None_iff)
qed

lemma decided_frames:
  assumes "guardStageId (lr_source_stage_id l)"
  shows "yields (appendFeedbackLoopDecided l d reason) s (\<lambda>_. frame uuid s)"
  using append_frames [OF assms] by (simp add: appendFeedbackLoopDecided_def attempt_of_latest_def wp)

lemma update_frames:
  "row (\<lambda>e. (ex_stage_id e, ex_attempt e)) (rs_executions s) (st, k) \<noteq> None \<Longrightarrow> frame uuid s0 s \<Longrightarrow>
   yields (updateStageExecution st k p) s (\<lambda>_. frame uuid s0)"
  by (auto simp: yields_def updateStageExecution_def)

lemma cleared_frames:
  assumes g: "guardStageId st"
  shows "yields (clearSourceWaiting st failed reason) s (\<lambda>_. frame uuid s)"
proof (cases "latest_execution s st")
  case None
  then show ?thesis
    using append_frames [OF g] by (simp add: clearSourceWaiting_def attempt_of_latest_def wp)
next
  case (Some e)
  let ?ev = "if failed then EvFailed reason else EvSucceeded"
  have "yields (andThen (gets now) (\<lambda>t. updateStageExecution st (ex_attempt e)
      (if failed then no_patch\<lparr>ep_status := Some SsFailed, ep_finished_at := Some t\<rparr>
       else no_patch\<lparr>ep_status := Some SsSucceeded\<rparr>))) s' (\<lambda>_. frame uuid s)"
    if "frame uuid s s' \<and> rs_executions s' = rs_executions s" for s'
    using that latest_execution_row [OF Some] by (simp add: wp(3,5) update_frames)
  then have "yields (appendStageEvent st ?ev (Some (ex_attempt e))) s (\<lambda>_ s'. yields (andThen (gets now) (\<lambda>t.
      updateStageExecution st (ex_attempt e) (if failed then no_patch\<lparr>ep_status := Some SsFailed, ep_finished_at := Some t\<rparr>
       else no_patch\<lparr>ep_status := Some SsSucceeded\<rparr>))) s' (\<lambda>_. frame uuid s))"
    by (rule yields_mono [OF yields_conj [OF append_frames [OF g] append_executions [OF g]]])
  then show ?thesis
    by (simp add: clearSourceWaiting_def attempt_of_latest_def wp(1,5) wp_executions(1) Some)
qed

lemma status_frames: "yields (updateRunStatus st) s (\<lambda>_. frame uuid s)"
  by (simp add: updateRunStatus_def yields_def applyRunStatusUpdate_def andThen_def return_def)

section \<open>Ending a loop\<close>

definition settled :: "(nat \<Rightarrow> string) \<Rightarrow> loop_entry list \<Rightarrow> run_store \<Rightarrow> bool" where
  "settled uuid es s \<longleftrightarrow> loops_ok uuid s \<and> generations_ok uuid s \<and> ledger_of s = es"

lemma frame_settled: "frame uuid s s' \<Longrightarrow> settled uuid es s \<Longrightarrow> settled uuid es s'"
  using frame_loops_ok [of uuid s s'] frame_ledger [of uuid s s'] by (simp add: settled_def) (simp add: frame_def)

lemma loop_closed:
  assumes open_l: "at_open_loop uuid src s l" and st: "st = LoopContinued \<or> st = LoopAbandoned"
  shows "settled uuid (on_open (\<lambda>e. e\<lparr>le_state := Closed\<rparr>) (ledger_of s)) (write_loop l (no_loop_patch\<lparr>lp_state := Some st\<rparr>) s)"
    "current_known (write_loop l (no_loop_patch\<lparr>lp_state := Some st\<rparr>) s) l"
    "lr_loop_id l \<in> lr_loop_id ` set (rs_loops (write_loop l (no_loop_patch\<lparr>lp_state := Some st\<rparr>) s))"
proof -
  note at = at_open_loopD [OF open_l]
  let ?p = "no_loop_patch\<lparr>lp_state := Some st\<rparr>"
  let ?s = "write_loop l ?p s" and ?l = "patch_loop (now s) ?p l"
  note w = loop_written [OF at(1-3), of ?s "now s" ?p, OF at(6)]
  have entry: "entry_of s ?l = (entry_of s l)\<lparr>le_state := Closed\<rparr>"
    using st by (auto simp: entry_of_def state_of_def patch_loop_def or_else_def no_loop_patch_def loop_replays_def)
  have "on_open (\<lambda>_. (entry_of s l)\<lparr>le_state := Closed\<rparr>) (ledger_of s) = on_open (\<lambda>e. e\<lparr>le_state := Closed\<rparr>) (ledger_of s)"
  proof (rule on_open_cong)
    fix e assume "e \<in> set (ledger_of s)" "open_entry e"
    then have "e = entry_of s l" using at(6) by (auto simp: ledger_of_def)
    then show "(entry_of s l)\<lparr>le_state := Closed\<rparr> = e\<lparr>le_state := Closed\<rparr>" by simp
  qed
  then have ledger: "ledger_of ?s = on_open (\<lambda>e. e\<lparr>le_state := Closed\<rparr>) (ledger_of s)"
    using w(2) unfolding entry by (simp add: write_loop_def)
  have "ledger_ok (ledger_of ?s)"
    unfolding ledger using at(8) by (intro on_open_ok) (auto simp: loops_ok_def entry_ok_def)
  moreover have "loop_ok (loop_replays s l) ?l"
    using at(4) st by (auto simp: loop_ok_def patch_loop_def or_else_def no_loop_patch_def count_of_def deferred_ok_def)
  ultimately have "loops_ok uuid ?s" using at(7) by (intro w(3)) (auto simp: write_loop_def)
  moreover have "generations_ok uuid ?s" using at(9) by (simp add: write_loop_def)
  ultimately show "settled uuid (on_open (\<lambda>e. e\<lparr>le_state := Closed\<rparr>) (ledger_of s)) ?s"
    using ledger by (simp add: settled_def)
  show "current_known ?s l" using at(5) by (simp add: current_known_def write_loop_def)
  show "lr_loop_id l \<in> lr_loop_id ` set (rs_loops ?s)" using at(2) by (simp add: write_loop_def)
qed

lemma then_get:
  assumes "yields m s (\<lambda>_. frame uuid s)" "i \<in> lr_loop_id ` set (rs_loops s)"
  shows "yields (andThen (andThen m (\<lambda>_. getFeedbackLoop i)) (\<lambda>u. return (f u))) s (\<lambda>r s'. (\<exists>u. r = f u) \<and> frame uuid s s')"
  unfolding wp(5) wp(1)
proof (rule yields_mono [OF assms(1)])
  fix x s'
  assume f: "frame uuid s s'"
  then have "row lr_loop_id (rs_loops s') i \<noteq> None" using assms(2) unfolding row_eq_None_iff by (simp add: frame_def)
  then obtain u where "row lr_loop_id (rs_loops s') i = Some u" by auto
  with f show "yields (getFeedbackLoop i) s' (\<lambda>u s'. (\<exists>v. f u = f v) \<and> frame uuid s s')" by (auto simp: wp_loops)
qed

definition view_of :: "(ResolvedPipelineDag \<times> ResolvedPipelineStageNode \<times> replay_view) option \<Rightarrow> replay_view" where
  "view_of schedule = (case schedule of None \<Rightarrow> empty_view | Some (_, _, v) \<Rightarrow> v)"

lemma decide_continue_run:
  assumes open_l: "at_open_loop uuid src s l" and waiting: "lr_state l = LoopWaitingForHuman" and g: "guardStageId src"
  shows "yields (decide_continue l reason schedule) s (\<lambda>r s'. (\<exists>l'. fst r = DecContinued l') \<and>
    settled uuid (on_open (\<lambda>e. e\<lparr>le_state := Closed\<rparr>) (ledger_of s)) s')"
proof -
  note at = at_open_loopD [OF open_l]
  let ?s = "write_loop l (no_loop_patch\<lparr>lp_state := Some LoopContinued\<rparr>) s"
  have closed: "settled uuid (on_open (\<lambda>e. e\<lparr>le_state := Closed\<rparr>) (ledger_of s)) ?s" "current_known ?s l"
    "lr_loop_id l \<in> lr_loop_id ` set (rs_loops ?s)" by (rule loop_closed [OF open_l], simp)+
  have g': "guardStageId (lr_source_stage_id l)" using g at(10) by simp
  have known: "current_known s' l" if "frame uuid ?s s'" for s' using closed(2) frame_current_known [OF that] by simp
  have frames: "yields (andThen (andThen (andThen (appendFeedbackLoopDecided l ''continue'' reason) (\<lambda>_.
      terminalizeCurrentFeedbackReplay l ReplayCompleted)) (\<lambda>_. clearSourceWaiting (lr_source_stage_id l) False []))
      (\<lambda>_. updateFeedbackReplaySourcePass l (lr_source_stage_id l) PassSucceeded e)) ?s (\<lambda>_. frame uuid ?s)" for e
    by (intro yields_frame_then decided_frames terminalize_frames cleared_frames source_pass_frames known g')
  have w: "yields (updateFeedbackLoop (lr_loop_id l) p (Some LoopWaitingForHuman)) s P \<longleftrightarrow> P True (write_loop l p s)" for p P
    using wp_write_loop(1) [OF at(1,2), of p "Some (lr_state l)" P] by (simp add: waiting)
  show ?thesis
    unfolding decide_continue_def Let_def wp(5) [of "updateFeedbackLoop _ _ _"] w
    apply (simp add: andThen_assoc [symmetric])
    apply (rule yields_mono [OF then_get [OF frames closed(3)]])
    using frame_settled closed(1) by fastforce
qed

lemma decide_abandon_run:
  assumes open_l: "at_open_loop uuid src s l" and waiting: "lr_state l = LoopWaitingForHuman" and g: "guardStageId src"
  shows "yields (decide_abandon l reason schedule) s (\<lambda>r s'. (\<exists>l'. fst r = DecAbandoned l' (abandon_reason l reason)) \<and>
    settled uuid (on_open (\<lambda>e. e\<lparr>le_state := Closed\<rparr>) (ledger_of s)) s')"
proof -
  note at = at_open_loopD [OF open_l]
  let ?s = "write_loop l (no_loop_patch\<lparr>lp_state := Some LoopAbandoned\<rparr>) s"
  have closed: "settled uuid (on_open (\<lambda>e. e\<lparr>le_state := Closed\<rparr>) (ledger_of s)) ?s" "current_known ?s l"
    "lr_loop_id l \<in> lr_loop_id ` set (rs_loops ?s)" by (rule loop_closed [OF open_l], simp)+
  have g': "guardStageId (lr_source_stage_id l)" using g at(10) by simp
  have known: "current_known s' l" if "frame uuid ?s s'" for s' using closed(2) frame_current_known [OF that] by simp
  have frames: "yields (andThen (andThen (andThen (andThen (appendFeedbackLoopDecided l ''abandon'' why) (\<lambda>_.
      terminalizeCurrentFeedbackReplay l ReplayFailed)) (\<lambda>_. clearSourceWaiting (lr_source_stage_id l) True t))
      (\<lambda>_. updateFeedbackReplaySourcePass l (lr_source_stage_id l) PassFailed None)) (\<lambda>_. updateRunStatus RunFailed))
      ?s (\<lambda>_. frame uuid ?s)" for why t
    by (intro yields_frame_then decided_frames terminalize_frames cleared_frames source_pass_frames status_frames known g')
  have w: "yields (updateFeedbackLoop (lr_loop_id l) p (Some LoopWaitingForHuman)) s P \<longleftrightarrow> P True (write_loop l p s)" for p P
    using wp_write_loop(1) [OF at(1,2), of p "Some (lr_state l)" P] by (simp add: waiting)
  show ?thesis
    unfolding decide_abandon_def Let_def wp(5) [of "updateFeedbackLoop _ _ _"] w
    apply (simp add: andThen_assoc [symmetric])
    apply (rule yields_mono [OF then_get [OF frames closed(3)]])
    using frame_settled closed(1) by fastforce
qed

section \<open>Extending a loop\<close>

definition bump_entry :: "loop_entry \<Rightarrow> loop_entry" where
  "bump_entry e = e\<lparr>le_state := Running, le_policy := bump_policy (le_policy e)\<rparr>"

definition bump_patch :: "FeedbackLoopRecord \<Rightarrow> FeedbackLoopPatch" where
  "bump_patch l = no_loop_patch\<lparr>lp_policy := Some (bump_policy (lr_policy l)), lp_state := Some LoopActive\<rparr>"

lemma open_bump [simp]: "open_entry (bump_entry e)"
  by (simp add: open_entry_def bump_entry_def)

lemma bump_ok: "entry_ok e \<Longrightarrow> entry_ok (bump_entry e)"
  by (auto simp: entry_ok_def bump_entry_def bump_policy_def)

lemma on_open_only:
  assumes "at_open_loop uuid src s l" "g (entry_of s l) = f (entry_of s l)"
  shows "on_open g (ledger_of s) = on_open f (ledger_of s)"
proof (rule on_open_cong)
  fix e assume "e \<in> set (ledger_of s)" "open_entry e"
  then have "e = entry_of s l" using at_open_loopD(6) [OF assms(1)] by (auto simp: ledger_of_def)
  then show "g e = f e" using assms(2) by simp
qed

lemma loop_bumped:
  assumes open_l: "at_open_loop uuid src s l"
  shows "settled uuid (on_open bump_entry (ledger_of s)) (write_loop l (bump_patch l) s)"
proof -
  note at = at_open_loopD [OF open_l]
  let ?s = "write_loop l (bump_patch l) s" and ?l = "patch_loop (now s) (bump_patch l) l"
  note w = loop_written [OF at(1-3), of ?s "now s" "bump_patch l", OF at(6)]
  have entry: "entry_of s ?l = bump_entry (entry_of s l)"
    by (simp add: entry_of_def state_of_def patch_loop_def bump_patch_def bump_entry_def or_else_def no_loop_patch_def loop_replays_def)
  have ledger: "ledger_of ?s = on_open bump_entry (ledger_of s)"
    using w(2) on_open_only [OF open_l, of "\<lambda>_. bump_entry (entry_of s l)" bump_entry] unfolding entry
    by (simp add: write_loop_def)
  have "ledger_ok (ledger_of ?s)"
    unfolding ledger using at(8) by (intro on_open_ok bump_ok) (simp_all add: loops_ok_def)
  moreover have "loop_ok (loop_replays s l) ?l"
    using at(4) by (auto simp: loop_ok_def patch_loop_def bump_patch_def or_else_def no_loop_patch_def count_of_def deferred_ok_def)
  ultimately have "loops_ok uuid ?s" using at(7) by (intro w(3)) (auto simp: write_loop_def)
  moreover have "generations_ok uuid ?s" using at(9) by (simp add: write_loop_def)
  ultimately show ?thesis using ledger by (simp add: settled_def)
qed

text \<open>After the bump, sending the deferred work back is the ledger's extension.\<close>

lemma ledger_extend:
  assumes open_l: "at_open_loop uuid src s l" and d: "state_of l = Deferred n t"
  shows "ledger_send_back src policy n t (on_open bump_entry (ledger_of s)) =
     (Replayed (length (loop_replays s l) + 1), on_open (snd \<circ> entry_extend) (ledger_of s))"
proof -
  note at = at_open_loopD [OF open_l]
  let ?e = "entry_of s l" and ?L = "ledger_of s"
  have st: "le_state ?e = Deferred n t" using d by (simp add: entry_of_def)
  have "entry_ok ?e" using at(2,8) by (auto simp: loops_ok_def ledger_ok_def ledger_of_def)
  note ext = entry_extend_replays [OF this st]
  have sent: "entry_send_back n t (bump_entry ?e) = entry_extend ?e"
    using st by (simp add: entry_extend_def bump_entry_def bump_policy_def)
  have single: "e = ?e" if "e \<in> set ?L" "open_entry e" for e
    using that at(6) by (auto simp: ledger_of_def)
  have "?e \<in> set ?L" using at(2) by (simp add: ledger_of_def)
  then have mem: "bump_entry ?e \<in> set (on_open bump_entry ?L)" using at(3) by (force simp: on_open_def)
  have only: "e = bump_entry ?e" if "e \<in> set (on_open bump_entry ?L)" "open_entry e" for e
  proof -
    from that(1) obtain k where k: "k \<in> set ?L" "e = (if open_entry k then bump_entry k else k)" by (auto simp: on_open_def)
    with that(2) have "open_entry k" by (auto split: if_splits)
    with k single [of k] show ?thesis by simp
  qed
  have found: "List.find open_entry (on_open bump_entry ?L) = Some (bump_entry ?e)"
  proof (cases "List.find open_entry (on_open bump_entry ?L)")
    case None
    then show ?thesis using mem by (auto simp: find_eq_None_iff)
  next
    case (Some e)
    then show ?thesis using find_SomeD [OF Some] only by blast
  qed
  have "list_ex open_entry (on_open bump_entry ?L)" unfolding list_ex_iff using mem open_bump by blast
  then have opened: "opened src policy (on_open bump_entry ?L) = on_open bump_entry ?L" by (simp add: opened_def)
  have "le_source (bump_entry ?e) = src" using at(10) by (simp add: bump_entry_def)
  then have unblocked: "\<not> list_ex (\<lambda>e. open_entry e \<and> le_source e \<noteq> src) (on_open bump_entry ?L)"
    using only by (auto simp: list_ex_iff)
  have "on_open (snd \<circ> entry_send_back n t) (on_open bump_entry ?L) = on_open (snd \<circ> entry_send_back n t \<circ> bump_entry) ?L"
    by (simp add: on_open_def)
  also have "\<dots> = on_open (snd \<circ> entry_extend) ?L" by (rule on_open_only [OF open_l]) (simp add: sent)
  finally show ?thesis
    using unblocked found ext by (simp add: ledger_send_back_def opened sent)
qed

lemma decide_extend_run:
  assumes open_l: "at_open_loop uuid (node_id node) s l" and waiting: "lr_state l = LoopWaitingForHuman"
    and g: "guardStageId (node_id node)" and inj: "inj uuid"
    and d: "lr_deferred l = Some d" "df_target d \<in> set (ancestors node)" "distinct (ancestors node @ [node_id node])"
    and node: "feedback_loop node = Some policy" "0 \<le> fl_max_replays policy"
    and resolved: "resolveSourceNode (node_id node) schedule s = (Inr (Inr (dag, node)), s)"
  shows "yields (decide_extend uuid l reason schedule) s (\<lambda>r s'. (\<exists>l' i. fst r = DecExtended l' i) \<and>
    settled uuid (on_open (snd \<circ> entry_extend) (ledger_of s)) s')"
proof -
  note at = at_open_loopD [OF open_l]
  let ?s = "write_loop l (bump_patch l) s"
  have env: "env_feedback_loop (df_envelope d) = Some (SendBack (df_target d))"
    using at(4) waiting d(1) by (simp add: loop_ok_def deferred_ok_def)
  have st: "state_of l = Deferred (df_source_attempt d) (df_target d)" by (simp add: state_of_def waiting d(1))
  have bumped: "settled uuid (on_open bump_entry (ledger_of s)) ?s" by (rule loop_bumped [OF open_l])
  have g': "guardStageId (lr_source_stage_id l)" using g at(10) by simp
  have ids: "lr_loop_id l \<in> loop_ids ?s" using at(2) by (simp add: loop_ids_def write_loop_def)
  have frames: "yields (andThen (appendFeedbackLoopDecided l ''extend'' reason) (\<lambda>_.
      clearSourceWaiting (lr_source_stage_id l) False [])) ?s (\<lambda>_. frame uuid ?s)"
    by (intro yields_frame_then decided_frames cleared_frames g')
  have sent: "yields (acceptFeedbackSendBack uuid dag node (df_source_attempt d) (df_envelope d)) s2 (\<lambda>res s'.
      (\<exists>l' r route m ids. res = SbAccepted l' r route m ids) \<and>
      settled uuid (on_open (snd \<circ> entry_extend) (ledger_of s)) s' \<and> lr_loop_id l \<in> loop_ids s')"
    if f: "frame uuid ?s s2" for s2
  proof -
    from frame_settled [OF f bumped] have ok: "loops_ok uuid s2" "generations_ok uuid s2"
      and L: "ledger_of s2 = on_open bump_entry (ledger_of s)" by (simp_all add: settled_def)
    show ?thesis
    proof (rule yields_mono [OF accept_run [OF inj ok env node d(2,3)]])
      fix res s'
      assume i: "implements uuid s2 (ledger_send_back (node_id node) policy (df_source_attempt d) (df_target d) (ledger_of s2)) res s'"
      then have "agrees res (Replayed (length (loop_replays s l) + 1))"
        by (simp add: implements_def L ledger_extend [OF open_l st])
      then have "\<exists>l' r route m ids. res = SbAccepted l' r route m ids" by (cases res) auto
      then show "(\<exists>l' r route m ids. res = SbAccepted l' r route m ids) \<and>
          settled uuid (on_open (snd \<circ> entry_extend) (ledger_of s)) s' \<and> lr_loop_id l \<in> loop_ids s'"
        using i ids frame_loop_ids [OF f] by (auto simp: implements_def settled_def L ledger_extend [OF open_l st])
    qed
  qed
  have got: "yields (getFeedbackLoop (lr_loop_id l)) s' (\<lambda>u. P u)" if "\<And>u. P u s'" "lr_loop_id l \<in> loop_ids s'" for P s'
    using that row_eq_None_iff [of lr_loop_id "rs_loops s'" "lr_loop_id l"] by (auto simp: wp_loops loop_ids_def)
  have tail: "yields (andThen (applySendBack uuid dag node (df_source_attempt d) (df_envelope d) v) (\<lambda>(applied, v').
        case applied of
          RaRejected r \<Rightarrow> return (DecError r, v')
        | RaWaitingForHuman _ _ _ _ \<Rightarrow> return (DecError ''extend still exceeded max_replays after bump'', v')
        | RaApplied _ replayId _ _ \<Rightarrow>
            andThen (getFeedbackLoop (lr_loop_id l)) (\<lambda>updated. return (DecExtended updated replayId, v'))
        | RaIdempotent _ replayId _ _ \<Rightarrow>
            andThen (getFeedbackLoop (lr_loop_id l)) (\<lambda>updated. return (DecExtended updated replayId, v')))) s2
      (\<lambda>r s'. (\<exists>l' i. fst r = DecExtended l' i) \<and> settled uuid (on_open (snd \<circ> entry_extend) (ledger_of s)) s')"
    if f: "frame uuid ?s s2" for s2 v
    unfolding applySendBack_def wp(5) wp(1)
    by (rule yields_mono [OF sent [OF f]]) (auto simp: wp(1,5) case_prod_unfold intro!: got)
  have res: "yields (resolveSourceNode (lr_source_stage_id l) schedule) s P \<longleftrightarrow> P (Inr (dag, node)) s" for P
    using resolved at(10) by (simp add: yields_def)
  have w: "yields (updateFeedbackLoop (lr_loop_id l) p (Some LoopWaitingForHuman)) s P \<longleftrightarrow> P True (write_loop l p s)" for p P
    using wp_write_loop(1) [OF at(1,2), of p "Some (lr_state l)" P] by (simp add: waiting)
  show ?thesis
    using yields_mono [OF frames, OF tail]
    unfolding decide_extend_def Let_def d(1) option.case
    by (simp add: wp(5) [of "resolveSourceNode _ _"] wp(5) [of "updateFeedbackLoop _ _ _"] res w bump_patch_def [symmetric])
      (simp only: wp(5) [of "appendFeedbackLoopDecided _ _ _"] wp(5) [of "clearSourceWaiting _ _ _"])
qed

section \<open>A source that continues\<close>

lemma frame_at_open: "frame uuid s s' \<Longrightarrow> at_open_loop uuid src s l \<Longrightarrow> at_open_loop uuid src s' l"
  using frame_loops_ok [of uuid s s'] by (simp add: at_open_loop_def) (simp add: frame_def)

lemma continued_run:
  assumes ok: "loops_ok uuid s" "generations_ok uuid s"
  shows "yields (markFeedbackLoopContinued src env) s (\<lambda>_. settled uuid
    (if \<exists>l\<in>set (rs_loops s). open_loop l \<and> lr_source_stage_id l = src
     then on_open (\<lambda>e. e\<lparr>le_state := Closed\<rparr>) (ledger_of s) else ledger_of s))"
proof (cases "List.find (\<lambda>l. lr_source_stage_id l = src \<and> open_loop l) (sort_key lr_created_at (rs_loops s))")
  case None
  then have "\<not> (\<exists>l\<in>set (rs_loops s). open_loop l \<and> lr_source_stage_id l = src)" by (auto simp: sorted_find(1))
  then show ?thesis using None ok by (auto simp: markFeedbackLoopContinued_def wp(1,5) wp_loops(1) settled_def)
next
  case (Some l)
  from sorted_find(2) [OF Some] have l: "l \<in> set (rs_loops s)" "open_loop l" "lr_source_stage_id l = src" by auto
  then have open_l: "at_open_loop uuid src s l" using ok by (simp add: at_open_loop_def)
  let ?p = "no_loop_patch\<lparr>lp_state := Some LoopContinued\<rparr>"
  have frames: "yields (andThen (updateFeedbackReplaySourcePass l src PassSucceeded (Some env)) (\<lambda>_.
      terminalizeCurrentFeedbackReplay l ReplayCompleted)) s (\<lambda>_. frame uuid s)"
    using at_open_loopD(5) [OF open_l]
    by (intro yields_frame_then terminalize_frames source_pass_frames) (simp_all add: frame_current_known)
  have "yields (andThen (updateFeedbackLoop (lr_loop_id l) ?p None) (\<lambda>_. return ())) s'
      (\<lambda>_. settled uuid (on_open (\<lambda>e. e\<lparr>le_state := Closed\<rparr>) (ledger_of s)))" if f: "frame uuid s s'" for s'
    using loop_closed(1) [OF frame_at_open [OF f open_l], of LoopContinued] wp_write_open(1) [OF open_l f, of ?p]
    by (simp add: wp(1,5) frame_ledger [OF f])
  with frames have "yields (andThen (andThen (updateFeedbackReplaySourcePass l src PassSucceeded (Some env)) (\<lambda>_.
      terminalizeCurrentFeedbackReplay l ReplayCompleted)) (\<lambda>_.
        andThen (updateFeedbackLoop (lr_loop_id l) ?p None) (\<lambda>_. return ()))) s
      (\<lambda>_. settled uuid (on_open (\<lambda>e. e\<lparr>le_state := Closed\<rparr>) (ledger_of s)))"
    unfolding wp(5) [of "andThen _ _"] by (rule yields_mono)
  moreover have "\<exists>l\<in>set (rs_loops s). open_loop l \<and> lr_source_stage_id l = src" using l by blast
  ultimately show ?thesis
    using Some by (simp add: markFeedbackLoopContinued_def wp(5) [of listFeedbackLoops] wp_loops(1) andThen_assoc)
qed

section \<open>Sequences of operations\<close>

definition source_node_ok :: "ResolvedPipelineStageNode \<Rightarrow> bool" where
  "source_node_ok n \<longleftrightarrow> distinct (ancestors n @ [node_id n]) \<and> guardStageId (node_id n) \<and>
     (\<exists>p. feedback_loop n = Some p \<and> 0 \<le> fl_max_replays p)"

text \<open>The decision names a loop that waits, and the node is the source of that loop.\<close>

definition decides_on :: "string option \<Rightarrow> ResolvedPipelineStageNode \<Rightarrow> run_store \<Rightarrow> FeedbackLoopRecord \<Rightarrow> bool" where
  "decides_on loopId n s l \<longleftrightarrow> decided_loop loopId (sort_key lr_created_at (rs_loops s)) = Some l \<and>
     lr_state l = LoopWaitingForHuman \<and> lr_source_stage_id l = node_id n \<and>
     (\<forall>d. lr_deferred l = Some d \<longrightarrow> df_target d \<in> set (ancestors n))"

fun decision_op :: "FeedbackLoopDecisionKind \<Rightarrow> ledger_op" where
  "decision_op Extend = LExtend"
| "decision_op DecideContinue = LClose"
| "decision_op Abandon = LClose"

fun effect_of :: "FeedbackLoopDecisionKind \<Rightarrow> ResolveFeedbackLoopDecisionResult \<Rightarrow> bool" where
  "effect_of Extend (DecExtended l i) = True"
| "effect_of DecideContinue (DecContinued l) = True"
| "effect_of Abandon (DecAbandoned l r) = True"
| "effect_of _ _ = False"

lemma decided_loop_mem: "decided_loop i ls = Some l \<Longrightarrow> l \<in> set ls"
  unfolding decided_loop_def
proof (cases i)
  case None
  assume "(case i of Some i \<Rightarrow> List.find (\<lambda>l. lr_loop_id l = i) ls
      | None \<Rightarrow> (case sort_key (\<lambda>l. - int (lr_updated_at l)) (List.filter (\<lambda>l. lr_state l = LoopWaitingForHuman) ls) of
          [] \<Rightarrow> None | l # _ \<Rightarrow> Some l)) = Some l"
  with None obtain xs where "sort_key (\<lambda>l. - int (lr_updated_at l)) (List.filter (\<lambda>l. lr_state l = LoopWaitingForHuman) ls) = l # xs"
    by (auto split: list.splits)
  then have "l \<in> set (sort_key (\<lambda>l. - int (lr_updated_at l)) (List.filter (\<lambda>l. lr_state l = LoopWaitingForHuman) ls))" by simp
  then show ?thesis by simp
qed (auto dest: find_SomeD)

lemma decision_run:
  assumes inj: "inj uuid" and ok: "loops_ok uuid s" "generations_ok uuid s"
    and n: "source_node_ok n" and l: "decides_on loopId n s l"
  shows "yields (resolveDecision uuid decision loopId reason dag n v) s (\<lambda>r s'.
    effect_of decision (fst r) \<and> settled uuid (ledger_step (ledger_of s) (decision_op decision)) s')"
proof -
  from l have d: "decided_loop loopId (sort_key lr_created_at (rs_loops s)) = Some l" and w: "lr_state l = LoopWaitingForHuman"
    and src: "lr_source_stage_id l = node_id n" by (simp_all add: decides_on_def)
  have mem: "l \<in> set (rs_loops s)" using decided_loop_mem [OF d] by simp
  then have open_l: "at_open_loop uuid (node_id n) s l" using ok src w by (simp add: at_open_loop_def open_loop_def)
  obtain df where df: "lr_deferred l = Some df" "df_target df \<in> set (ancestors n)"
    using at_open_loopD(4) [OF open_l] w l by (auto simp: loop_ok_def deferred_ok_def decides_on_def)
  obtain p where p: "distinct (ancestors n @ [node_id n])" "guardStageId (node_id n)" "feedback_loop n = Some p" "0 \<le> fl_max_replays p"
    using n by (auto simp: source_node_ok_def)
  have res: "resolveSourceNode (node_id n) (Some (dag, n, v)) s = (Inr (Inr (dag, n)), s)"
    by (simp add: resolveSourceNode_def act)
  have run: "yields (resolveDecision uuid decision loopId reason dag n v) s P \<longleftrightarrow>
      yields (case decision of Extend \<Rightarrow> decide_extend uuid l reason (Some (dag, n, v))
        | DecideContinue \<Rightarrow> decide_continue l reason (Some (dag, n, v))
        | Abandon \<Rightarrow> decide_abandon l reason (Some (dag, n, v))) s P" for P
    by (simp add: resolveDecision_def resolveFeedbackLoopDecision_def wp(5) wp_loops(1) d w)
  show ?thesis
    unfolding run
    using decide_extend_run [OF open_l w p(2) inj df p(1,3,4) res, of reason]
      decide_continue_run [OF open_l w p(2), of reason "Some (dag, n, v)"]
      decide_abandon_run [OF open_l w p(2), of reason "Some (dag, n, v)"]
    by (cases decision) (auto elim!: yields_mono)
qed

datatype feedback_op =
    OpSendBack ResolvedPipelineDag ResolvedPipelineStageNode nat StageEnvelope
  | OpContinue string StageEnvelope
  | OpDecide FeedbackLoopDecisionKind "string option" "string option" ResolvedPipelineDag ResolvedPipelineStageNode replay_view

fun feedback_step :: "(nat \<Rightarrow> string) \<Rightarrow> run_store \<Rightarrow> feedback_op \<Rightarrow> run_store" where
  "feedback_step uuid s (OpSendBack dag n k env) = snd (acceptFeedbackSendBack uuid dag n k env s)"
| "feedback_step uuid s (OpContinue src env) = snd (markFeedbackLoopContinued src env s)"
| "feedback_step uuid s (OpDecide d loopId reason dag n v) = snd (resolveDecision uuid d loopId reason dag n v s)"

fun allowed_op :: "run_store \<Rightarrow> feedback_op \<Rightarrow> bool" where
  "allowed_op s (OpSendBack dag n k env) \<longleftrightarrow> source_node_ok n \<and>
     (\<exists>t\<in>set (ancestors n). env_feedback_loop env = Some (SendBack t))"
| "allowed_op s (OpContinue src env) \<longleftrightarrow> True"
| "allowed_op s (OpDecide d loopId reason dag n v) \<longleftrightarrow> source_node_ok n \<and> (\<exists>l. decides_on loopId n s l)"

definition tables_ok :: "(nat \<Rightarrow> string) \<Rightarrow> run_store \<Rightarrow> bool" where
  "tables_ok uuid s \<longleftrightarrow> inj uuid \<and> loops_ok uuid s \<and> generations_ok uuid s"

lemma yields_snd: "yields m s (\<lambda>_. P) \<Longrightarrow> P (snd (m s))"
  by (auto simp: yields_iff)

interpretation feedback: machine "feedback_step uuid" "tables_ok uuid" allowed_op for uuid
proof
  fix s a
  assume ok: "tables_ok uuid s" and a: "allowed_op s a"
  show "tables_ok uuid (feedback_step uuid s a)"
  proof (cases a)
    case (OpSendBack dag n k env)
    with a obtain t p where "env_feedback_loop env = Some (SendBack t)" "t \<in> set (ancestors n)"
      "feedback_loop n = Some p" "0 \<le> fl_max_replays p" "distinct (ancestors n @ [node_id n])"
      by (auto simp: source_node_ok_def)
    then have "yields (acceptFeedbackSendBack uuid dag n k env) s
        (implements uuid s (ledger_send_back (node_id n) p k t (ledger_of s)))"
      using ok by (intro accept_run) (simp_all add: tables_ok_def)
    then have "yields (acceptFeedbackSendBack uuid dag n k env) s (\<lambda>_ s'. loops_ok uuid s' \<and> generations_ok uuid s')"
      by (rule yields_mono) (simp add: implements_def)
    from yields_snd [OF this] show ?thesis using ok by (simp add: OpSendBack tables_ok_def)
  next
    case (OpContinue src env)
    from ok have "loops_ok uuid s" "generations_ok uuid s" by (simp_all add: tables_ok_def)
    from yields_snd [OF continued_run [OF this, of src env]] ok show ?thesis
      by (simp add: OpContinue tables_ok_def settled_def)
  next
    case (OpDecide d loopId reason dag n v)
    with a obtain l where "source_node_ok n" "decides_on loopId n s l" by auto
    with ok have "yields (resolveDecision uuid d loopId reason dag n v) s (\<lambda>r s'.
        effect_of d (fst r) \<and> settled uuid (ledger_step (ledger_of s) (decision_op d)) s')"
      by (intro decision_run) (simp_all add: tables_ok_def)
    then have "yields (resolveDecision uuid d loopId reason dag n v) s
        (\<lambda>_. settled uuid (ledger_step (ledger_of s) (decision_op d)))"
      by (rule yields_mono) simp
    from yields_snd [OF this] ok show ?thesis by (simp add: OpDecide tables_ok_def settled_def)
  qed
qed

lemma replays_numbered:
  assumes ok: "loops_ok uuid s" and l: "l \<in> set (rs_loops s)"
  shows "replays_of s (lr_loop_id l) = loop_replays s l"
    "map rr_replay_number (loop_replays s l) = [1..<Suc (length (loop_replays s l))]"
proof -
  have lo: "loop_ok (loop_replays s l) l" using ok l by (simp add: loops_ok_def)
  then show n: "map rr_replay_number (loop_replays s l) = [1..<Suc (length (loop_replays s l))]"
    using count_sent(1) [OF lo] by (simp add: loop_ok_def)
  have "sorted (map rr_replay_number (loop_replays s l))" unfolding n by (rule sorted_upt)
  then show "replays_of s (lr_loop_id l) = loop_replays s l"
    by (simp add: replays_of_def loop_replays_def sort_key_id_if_sorted)
qed

section \<open>Properties\<close>

text \<open>
  C29: a decision on a loop that waits for a human takes effect: to extend replays the deferred
  send-back once, with one more replay in the budget, never a repeat and never over the budget; to
  continue or to abandon closes the loop.  The tables stay consistent.
\<close>

theorem decision_refines_ledger:
  "inj uuid \<Longrightarrow> loops_ok uuid s \<Longrightarrow> generations_ok uuid s \<Longrightarrow> source_node_ok n \<Longrightarrow> decides_on loopId n s l \<Longrightarrow>
   \<exists>res v' s'. resolveDecision uuid decision loopId reason dag n v s = (Inr (res, v'), s') \<and>
     effect_of decision res \<and> loops_ok uuid s' \<and> generations_ok uuid s' \<and>
     ledger_of s' = ledger_step (ledger_of s) (decision_op decision)"
  using decision_run [of uuid s n loopId l decision reason dag v] by (auto simp: yields_iff settled_def)

definition two_send_backs :: "feedback_op list" where
  "two_send_backs = [OpSendBack loop_dag review_node 1 send_back_envelope, OpSendBack loop_dag review_node 2 send_back_envelope]"

definition parked_store :: run_store where
  "parked_store = foldl (feedback_step sample_uuid) blank_store two_send_backs"

definition parked_loop :: FeedbackLoopRecord where
  "parked_loop = hd (rs_loops parked_store)"

lemma review_ok: "source_node_ok review_node"
  unfolding source_node_ok_def
  by (intro conjI exI [of _ loop_policy]) code_simp+

lemma two_send_backs_admissible: "feedback.admissible uuid blank_store two_send_backs"
  using review_ok by (simp add: two_send_backs_def send_back_envelope_def review_node_def)

lemma parked_ok: "loops_ok sample_uuid parked_store" "generations_ok sample_uuid parked_store"
proof -
  have "tables_ok sample_uuid blank_store" by (simp add: tables_ok_def blank_loops_ok blank_store_ok inj_sample_uuid)
  from feedback.run_keeps [OF this two_send_backs_admissible]
  show "loops_ok sample_uuid parked_store" "generations_ok sample_uuid parked_store"
    by (simp_all add: parked_store_def tables_ok_def)
qed

lemma parked_decides: "decides_on None review_node parked_store parked_loop"
proof -
  have d: "lr_deferred parked_loop = Some \<lparr>df_target = ''plan'', df_envelope = send_back_envelope, df_source_attempt = 2\<rparr>"
    by code_simp
  have "decided_loop None (sort_key lr_created_at (rs_loops parked_store)) = Some parked_loop"
    "lr_state parked_loop = LoopWaitingForHuman" "lr_source_stage_id parked_loop = node_id review_node" by code_simp+
  then show ?thesis by (simp add: decides_on_def d review_node_def)
qed

theorem decision_refines_ledger_witness:
  "\<exists>l i v' s'. resolveDecision sample_uuid Extend None None loop_dag review_node empty_view parked_store =
       (Inr (DecExtended l i, v'), s') \<and>
     map le_sent (ledger_of s') = [[(1, ''plan''), (2, ''plan'')]]"
proof -
  have step: "map le_sent (ledger_step (ledger_of parked_store) (decision_op Extend)) = [[(1, ''plan''), (2, ''plan'')]]"
    by code_simp
  from decision_refines_ledger [OF inj_sample_uuid parked_ok review_ok parked_decides, of Extend None loop_dag empty_view]
  obtain res v' s' where r: "resolveDecision sample_uuid Extend None None loop_dag review_node empty_view parked_store =
      (Inr (res, v'), s')" "effect_of Extend res" "ledger_of s' = ledger_step (ledger_of parked_store) (decision_op Extend)"
    by blast
  then show ?thesis using step by (cases res) auto
qed

text \<open>
  C7: over any sequence of send-backs, continuations and decisions of a run, at most one loop is
  open, the replays of every loop are numbered from one without gaps, no attempt is sent back
  twice to the same stage, and no loop has more replays than its policy allows.
\<close>

theorem replays_within_budget:
  "inj uuid \<Longrightarrow> feedback.admissible uuid blank_store ops \<Longrightarrow> s = foldl (feedback_step uuid) blank_store ops \<Longrightarrow>
   l \<in> set (rs_loops s) \<Longrightarrow>
   length (List.filter open_loop (rs_loops s)) \<le> 1 \<and>
   map rr_replay_number (replays_of s (lr_loop_id l)) = [1..<Suc (length (replays_of s (lr_loop_id l)))] \<and>
   distinct (map sent_back (replays_of s (lr_loop_id l))) \<and>
   int (length (replays_of s (lr_loop_id l))) \<le> fl_max_replays (lr_policy l)"
proof -
  assume inj: "inj uuid" and ops: "feedback.admissible uuid blank_store ops"
    and s: "s = foldl (feedback_step uuid) blank_store ops" and l: "l \<in> set (rs_loops s)"
  have "tables_ok uuid blank_store" using inj by (simp add: tables_ok_def blank_loops_ok blank_store_ok)
  from feedback.run_keeps [OF this ops] have ok: "loops_ok uuid s" by (simp add: s tables_ok_def)
  then have L: "ledger_ok (ledger_of s)" by (simp add: loops_ok_def)
  then have "entry_ok (entry_of s l)" using l by (auto simp: ledger_ok_def ledger_of_def)
  moreover have "length (List.filter open_loop (rs_loops s)) \<le> 1"
    using L by (simp add: ledger_ok_def ledger_of_def filter_map comp_def)
  ultimately show ?thesis
    using replays_numbered [OF ok l] by (simp add: entry_ok_def)
qed

theorem replays_within_budget_witness:
  "length (List.filter open_loop (rs_loops parked_store)) \<le> 1 \<and>
   int (length (replays_of parked_store (lr_loop_id parked_loop))) \<le> fl_max_replays (lr_policy parked_loop)"
proof -
  have "rs_loops parked_store \<noteq> []" by code_simp
  then have mem: "parked_loop \<in> set (rs_loops parked_store)" by (simp add: parked_loop_def)
  from replays_within_budget [OF inj_sample_uuid two_send_backs_admissible parked_store_def mem] show ?thesis by blast
qed

end
