(* ===== verification/Replay_Schedule.thy ===== *)
theory Replay_Schedule
  imports Replay_Lifecycle Schedule_Correct
begin

text \<open>
  The effect of an accepted send-back on the schedule
  (\<open>applyFeedbackSendBackToSchedule\<close> of \<open>runtime/feedbackLoopSchedule.ts\<close>), stage by stage.
\<close>

section \<open>Retiring a cohort\<close>

text \<open>
  The stages a send-back retires besides the clones: those behind an off-route clone that are on
  neither the route nor the hold of an earlier replay.
\<close>

definition behind :: "ResolvedPipelineDag \<Rightarrow> string list \<Rightarrow> string list \<Rightarrow> string list \<Rightarrow> string set" where
  "behind dag route hold sids =
     {i. i \<notin> set route \<and> i \<notin> set hold \<and> (\<exists>c\<in>set sids - set route. i \<in> set (postSourceStageIds dag c))}"

definition busy :: "StageScheduleState option \<Rightarrow> bool" where
  "busy st \<longleftrightarrow> st \<in> {Some Pending, Some Succeeded, Some Active}"

definition retire_state :: "string set \<Rightarrow> string set \<Rightarrow> string \<Rightarrow> StageScheduleState option \<Rightarrow> StageScheduleState option" where
  "retire_state C D i st = (if i \<in> C \<or> i \<in> D \<and> busy st then Some Skipped else st)"

definition retires ::
  "string set \<Rightarrow> string set \<Rightarrow> retire_result \<Rightarrow> retire_result \<Rightarrow> bool" where
  "retires C D r r' \<longleftrightarrow> (case (r, r') of ((states, envs, ids), (states', envs', ids')) \<Rightarrow>
     (\<forall>i. jget states' i = retire_state C D i (jget states i)) \<and>
     (\<forall>i. jget envs' i = (if i \<in> C \<or> i \<in> D \<and> busy (jget states i) then None else jget envs i)) \<and>
     (\<exists>news. ids' = ids @ news \<and> distinct news \<and>
        set news = {i. i \<in> C \<and> jget states i \<noteq> Some Skipped \<or> i \<in> D \<and> busy (jget states i)}))"

lemma retires_refl: "retires {} {} r r"
  by (cases r) (simp add: retires_def retire_state_def)

lemma retires_trans:
  assumes "retires C D r r'" "retires C' D' r' r''"
  shows "retires (C \<union> C') (D \<union> D') r r''"
proof -
  obtain states envs ids states' envs' ids' states'' envs'' ids''
    where r: "r = (states, envs, ids)" "r' = (states', envs', ids')" "r'' = (states'', envs'', ids'')"
    by (metis prod_cases3)
  from assms(1) obtain news where 1: "\<And>i. jget states' i = retire_state C D i (jget states i)"
    "\<And>i. jget envs' i = (if i \<in> C \<or> i \<in> D \<and> busy (jget states i) then None else jget envs i)"
    "ids' = ids @ news" "distinct news"
    "set news = {i. i \<in> C \<and> jget states i \<noteq> Some Skipped \<or> i \<in> D \<and> busy (jget states i)}"
    by (auto simp: r retires_def)
  from assms(2) obtain news' where 2: "\<And>i. jget states'' i = retire_state C' D' i (jget states' i)"
    "\<And>i. jget envs'' i = (if i \<in> C' \<or> i \<in> D' \<and> busy (jget states' i) then None else jget envs' i)"
    "ids'' = ids' @ news'" "distinct news'"
    "set news' = {i. i \<in> C' \<and> jget states' i \<noteq> Some Skipped \<or> i \<in> D' \<and> busy (jget states' i)}"
    by (auto simp: r retires_def)
  have nb: "\<not> busy (Some Skipped)" by (simp add: busy_def)
  have disj: "set news \<inter> set news' = {}" unfolding 1(5) 2(5) by (auto simp: 1(1) retire_state_def nb)
  have un: "set news \<union> set news' = {i. i \<in> C \<union> C' \<and> jget states i \<noteq> Some Skipped \<or> i \<in> D \<union> D' \<and> busy (jget states i)}"
    unfolding 1(5) 2(5) by (auto simp: 1(1) retire_state_def busy_def split: if_splits)
  show ?thesis
    unfolding r retires_def prod.case
  proof (intro conjI allI exI [of _ "news @ news'"])
    show "jget states'' i = retire_state (C \<union> C') (D \<union> D') i (jget states i)" for i
      by (auto simp: 1(1) 2(1) retire_state_def nb)
    show "jget envs'' i = (if i \<in> C \<union> C' \<or> i \<in> D \<union> D' \<and> busy (jget states i) then None else jget envs i)" for i
      by (auto simp: 1(1,2) 2(2) retire_state_def nb)
    show "distinct (news @ news')" using 1(4) 2(4) disj by simp
    show "set (news @ news') = {i. i \<in> C \<union> C' \<and> jget states i \<noteq> Some Skipped \<or> i \<in> D \<union> D' \<and> busy (jget states i)}"
      using un by simp
  qed (simp add: 1(3) 2(3))
qed

lemma retire_descendant_retires:
  "retires {} (if d \<in> set route \<or> d \<in> set hold then {} else {d}) r (retire_descendant route hold r d)"
  by (cases r) (auto simp: retires_def retire_state_def retire_descendant_def busy_def)

lemma retire_descendants:
  "retires {} {d \<in> set ds. d \<notin> set route \<and> d \<notin> set hold} r (foldl (retire_descendant route hold) r ds)"
proof (induction ds arbitrary: r)
  case (Cons d ds)
  have sets: "{} \<union> {} = ({} :: string set)"
    "(if d \<in> set route \<or> d \<in> set hold then {} else {d}) \<union> {d \<in> set ds. d \<notin> set route \<and> d \<notin> set hold} =
      {x \<in> set (d # ds). x \<notin> set route \<and> x \<notin> set hold}" by auto
  from retires_trans [OF retire_descendant_retires [of d route hold r] Cons.IH [of "retire_descendant route hold r d"]]
  show ?case unfolding sets by simp
qed (simp add: retires_refl)

lemma retire_clone_retires:
  "retires (if c \<in> set route then {} else {c}) (behind dag route hold [c]) r (retire_clone dag route hold r c)"
proof (cases "c \<in> set route")
  case True
  then show ?thesis using retires_refl by (simp add: retire_clone_def behind_def)
next
  case False
  obtain states envs ids where r: "r = (states, envs, ids)" by (metis prod_cases3)
  let ?r = "if jget states c = Some Skipped then (states, jdel envs c, ids) else (jset states c Skipped, jdel envs c, ids @ [c])"
  have "retires {c} {} r ?r" by (auto simp: r retires_def retire_state_def)
  from retires_trans [OF this retire_descendants [of "postSourceStageIds dag c" route hold ?r]]
  have "retires {c} {d \<in> set (postSourceStageIds dag c). d \<notin> set route \<and> d \<notin> set hold} r (retire_clone dag route hold r c)"
    using False by (simp add: r retire_clone_def)
  moreover have "behind dag route hold [c] = {d \<in> set (postSourceStageIds dag c). d \<notin> set route \<and> d \<notin> set hold}"
    using False by (auto simp: behind_def)
  ultimately show ?thesis using False by simp
qed

lemma retire_clones:
  "retires (set sids - set route) (behind dag route hold sids) r (foldl (retire_clone dag route hold) r sids)"
proof (induction sids arbitrary: r)
  case Nil
  then show ?case using retires_refl by (simp add: behind_def)
next
  case (Cons c sids)
  have sets: "(if c \<in> set route then {} else {c}) \<union> (set sids - set route) = set (c # sids) - set route"
    "behind dag route hold [c] \<union> behind dag route hold sids = behind dag route hold (c # sids)"
    by (auto simp: behind_def)
  from retires_trans [OF retire_clone_retires [of c route dag hold r] Cons.IH [of "retire_clone dag route hold r c"]]
  show ?case unfolding sets by simp
qed

section \<open>Properties\<close>

text \<open>
  C30: an accepted send-back makes every stage of its route pending and drops its envelope; off the
  route it skips exactly the retired clones and, behind them, the stages that were pending,
  running or done and are not held by an earlier replay, drops their envelopes, and reports each
  newly skipped stage once; every other stage keeps its state and envelope.  It holds back exactly
  the stages downstream of the source, so none of them is picked to run.
\<close>

theorem send_back_schedule:
  "applyFeedbackSendBackToSchedule dag src route loopId replayId maps sids v = (v', retired) \<Longrightarrow>
   (let gone = (\<lambda>i. i \<in> set sids \<or>
          i \<in> behind dag route (fs_hold (rv_feedback v)) sids \<and> busy (jget (rv_states v) i)) in
    (\<forall>i. jget (rv_states v') i = (if i \<in> set route then Some Pending else if gone i then Some Skipped else jget (rv_states v) i)) \<and>
    (\<forall>i. jget (rv_envelopes v') i = (if i \<in> set route \<or> gone i then None else jget (rv_envelopes v) i)) \<and>
    distinct retired \<and> set retired = {i. i \<notin> set route \<and> gone i \<and> jget (rv_states v) i \<noteq> Some Skipped} \<and>
    fs_hold (rv_feedback v') = collectDownstreamStageIds dag src \<and> fs_launch (rv_feedback v') = maps \<and>
    fs_replay_id (rv_feedback v') = Some replayId \<and>
    set (pickRunnable dag (rv_states v') False (rv_envelopes v') (fs_hold (rv_feedback v')))
      \<inter> set (collectDownstreamStageIds dag src) = {})"
proof -
  assume run: "applyFeedbackSendBackToSchedule dag src route loopId replayId maps sids v = (v', retired)"
  let ?hold = "fs_hold (rv_feedback v)"
  obtain states envs ids where f: "foldl (retire_clone dag route ?hold) (rv_states v, rv_envelopes v, []) sids = (states, envs, ids)"
    by (metis prod_cases3)
  have r: "retires (set sids - set route) (behind dag route ?hold sids) (rv_states v, rv_envelopes v, []) (states, envs, ids)"
    unfolding f [symmetric] by (rule retire_clones)
  have v': "rv_states v' = foldl (\<lambda>m i. jset m i Pending) states route" "rv_envelopes v' = foldl jdel envs route"
    "fs_hold (rv_feedback v') = collectDownstreamStageIds dag src" "fs_launch (rv_feedback v') = maps"
    "fs_replay_id (rv_feedback v') = Some replayId" "retired = ids"
    using run by (auto simp: applyFeedbackSendBackToSchedule_def f postSourceStageIds_def)
  have pend: "jget (foldl (\<lambda>m i. jset m i Pending) states route) i = (if i \<in> set route then Some Pending else jget states i)" for i
    by (induction route arbitrary: states) auto
  have off: "i \<in> behind dag route ?hold sids \<Longrightarrow> i \<notin> set route" for i by (simp add: behind_def)
  have nb: "\<not> busy (Some Skipped)" by (simp add: busy_def)
  show ?thesis
    using r off nb
    unfolding Let_def v' pend jget_foldl_jdel retires_def prod.case retire_state_def pickRunnable_def isRunnable_def
    by (auto simp: sortRunnableIds_def)
qed

theorem send_back_schedule_witness:
  "\<exists>v' retired. applyFeedbackSendBackToSchedule chain_sample ''b'' [''a'', ''b''] ''L'' ''R'' no_launches []
       \<lparr>rv_states = [(''a'', Succeeded), (''b'', Succeeded), (''c'', Pending)], rv_envelopes = [],
        rv_feedback = createFeedbackScheduleState\<rparr> = (v', retired) \<and>
     jget (rv_states v') ''a'' = Some Pending \<and> fs_hold (rv_feedback v') = [''c''] \<and> retired = []"
proof -
  let ?v = "\<lparr>rv_states = [(''a'', Succeeded), (''b'', Succeeded), (''c'', Pending)], rv_envelopes = [],
        rv_feedback = createFeedbackScheduleState\<rparr>"
  obtain v' retired where run: "applyFeedbackSendBackToSchedule chain_sample ''b'' [''a'', ''b''] ''L'' ''R'' no_launches [] ?v = (v', retired)"
    by fastforce
  have down: "collectDownstreamStageIds chain_sample ''b'' = [''c'']" by code_simp
  have "behind chain_sample [''a'', ''b''] hold [] = {}" for hold by (simp add: behind_def)
  with send_back_schedule [OF run] run down show ?thesis by (auto simp: Let_def)
qed

end
