(* ===== verification/Scheduler_Ends.thy ===== *)
theory Scheduler_Ends
  imports Scheduler_Slots
begin

text \<open>
  Runs end: without retries, repairs, clones, feedback loops and site switches every stage is
  started at most once, every move but the idle ones brings the run nearer to its end, and as long
  as the run is live such a move is possible.
\<close>

section \<open>Stages that run at most once\<close>

definition forward_only :: "ResolvedPipelineDag \<Rightarrow> bool" where
  "forward_only dag \<longleftrightarrow> (\<forall>n\<in>set (nodes dag). clone_array_field n = None \<and> feedback_loop n = None)"

definition single_pass :: "ResolvedPipelineDag \<Rightarrow> bool" where
  "single_pass dag \<longleftrightarrow> forward_only dag \<and>
     (\<forall>n\<in>set (nodes dag). case recovery n of Some (Repair _ _) \<Rightarrow> False | _ \<Rightarrow> True)"

lemma find_node_in: "find_node dag i = Some n \<Longrightarrow> n \<in> set (nodes dag)"
  by (auto simp: find_node_def dest: find_SomeD)

lemma forward_only_node:
  "forward_only dag \<Longrightarrow> find_node dag i = Some n \<Longrightarrow> clone_array_field n = None \<and> feedback_loop n = None"
  by (auto simp: forward_only_def dest: find_node_in)

lemma forward_only_mint: "forward_only dag \<Longrightarrow> mint dag i e = Inr MintNone"
  using forward_only_node [of dag i] by (cases "find_node dag i") (simp_all add: mint_def)

lemma single_pass_repair: "single_pass dag \<Longrightarrow> repair_limit dag i = None"
  by (cases "find_node dag i")
    (auto simp: repair_limit_def single_pass_def dest!: find_node_in split: option.split RecoveryPolicy.splits)

lemma single_pass_forward: "single_pass dag \<Longrightarrow> forward_only dag"
  by (simp add: single_pass_def)

section \<open>What a handler does to the states\<close>

definition moved :: "bool \<Rightarrow> StageScheduleState option \<Rightarrow> StageScheduleState option \<Rightarrow> bool" where
  "moved own old new \<longleftrightarrow> new = old \<or> own \<and> new \<in> {Some Succeeded, Some Failed, Some Waiting} \<or>
     old \<in> {Some Pending, Some Skipped} \<and> new \<in> {Some Pending, Some Skipped}"

definition settled ::
  "int \<times> (string \<times> flight) list \<times> string list \<times> control \<times> bool \<times> bool \<Rightarrow> ResolvedPipelineDag \<Rightarrow> sched_states \<Rightarrow>
   string \<Rightarrow> scheduler \<Rightarrow> bool" where
  "settled c dag states i w \<longleftrightarrow> frame w = c \<and> sd_dag w = dag \<and> single_pass dag \<and> sd_retry_roots w = None \<and>
     (\<forall>k. moved (k = i) (jget states k) (jget (sd_states w) k))"

lemma moved_flip: "moved own old mid \<Longrightarrow> mid = new \<or> mid \<in> {Some Pending, Some Skipped} \<and> new \<in> {Some Pending, Some Skipped} \<Longrightarrow>
    moved own old new"
  by (auto simp: moved_def)

lemma drain_idle: "sd_retry_roots w = None \<Longrightarrow> drainRetryMutations w = w"
  by (simp add: drainRetryMutations_def split: option.split)

interpretation once: handler_invariant "settled c dag states" False for c dag states
proof unfold_locales
  fix i w m assume w: "settled c dag states i w" and m: "flips (sd_states w) m"
  have "moved (k = i) (jget states k) (jget m k)" for k
  proof (rule moved_flip)
    show "moved (k = i) (jget states k) (jget (sd_states w) k)" using w by (simp add: settled_def)
    show "jget (sd_states w) k = jget m k \<or>
        jget (sd_states w) k \<in> {Some Pending, Some Skipped} \<and> jget m k \<in> {Some Pending, Some Skipped}"
      using m unfolding flips_def by metis
  qed
  with w show "settled c dag states i (w\<lparr>sd_states := m\<rparr>)" by (simp add: settled_def)
next
  fix i w st assume "settled c dag states i w" "st \<in> {Succeeded, Failed, Waiting}"
  then show "settled c dag states i (set_stage i st w)" by (auto simp: settled_def set_stage_def moved_def)
qed (auto simp: settled_def drain_idle forward_only_mint single_pass_repair dest!: single_pass_forward dest: forward_only_node)

lemma settled_start: "single_pass (sd_dag w) \<Longrightarrow> sd_retry_roots w = None \<Longrightarrow> settled (frame w) (sd_dag w) (sd_states w) i w"
  by (simp add: settled_def moved_def)

section \<open>The invariant of the run\<close>

definition ids_of :: "ResolvedPipelineDag \<Rightarrow> string set" where
  "ids_of dag = node_id ` set (nodes dag)"

definition spent :: "StageScheduleState option \<Rightarrow> bool" where
  "spent st \<longleftrightarrow> st \<notin> {Some Pending, Some Skipped}"

definition launches_once :: "ResolvedPipelineDag \<Rightarrow> scheduler \<Rightarrow> bool" where
  "launches_once dag w \<longleftrightarrow> single_pass dag \<and> sd_dag w = dag \<and> sd_retry_roots w = None \<and>
     distinct (sd_launched w) \<and> set (sd_launched w) \<subseteq> ids_of dag \<and>
     (sd_halt_requested w \<or> (\<forall>k\<in>set (sd_launched w). spent (jget (sd_states w) k))) \<and>
     (\<forall>e\<in>set (sd_in_flight w). \<not> is_parked (snd e))"

lemma spent_moved: "moved own old new \<Longrightarrow> spent old \<Longrightarrow> spent new"
  by (auto simp: moved_def spent_def)

lemma launches_once_settled:
  "launches_once dag w \<Longrightarrow> settled (frame w) dag (sd_states w) i w' \<Longrightarrow> launches_once dag w'"
proof -
  assume w: "launches_once dag w" and w': "settled (frame w) dag (sd_states w) i w'"
  have fr: "sd_launched w' = sd_launched w" "sd_halt_requested w' = sd_halt_requested w" "sd_in_flight w' = sd_in_flight w"
    using w' by (auto simp: settled_def frame_def)
  have "spent (jget (sd_states w') k)" if "spent (jget (sd_states w) k)" for k
    using w' that spent_moved by (auto simp: settled_def)
  then show ?thesis using w w' by (auto simp: launches_once_def fr settled_def)
qed

lemma settled_keeps:
  "launches_once dag w \<Longrightarrow> keeps (settled (frame w) dag (sd_states w) i) m \<Longrightarrow> m w = (r, w') \<Longrightarrow>
   launches_once dag w' \<and> frame w' = frame w"
proof -
  assume w: "launches_once dag w" and m: "keeps (settled (frame w) dag (sd_states w) i) m" "m w = (r, w')"
  have "settled (frame w) dag (sd_states w) i w" using w settled_start [of w i] by (simp add: launches_once_def)
  from keeps_run [OF m(1) this m(2)] launches_once_settled [OF w]
  show ?thesis by (auto simp: settled_def)
qed

section \<open>The distance to the end\<close>

fun flight_weight :: "flight \<Rightarrow> nat" where
  "flight_weight Starting = 5"
| "flight_weight (Acquiring n released) = (if released then 3 else 4)"
| "flight_weight (Executing n) = 2"
| "flight_weight (Parked l n) = 1"

fun control_weight :: "control \<Rightarrow> nat" where
  "control_weight Looping = 2"
| "control_weight Draining = 1"
| "control_weight _ = 0"

definition weight :: "(string \<times> flight) list \<Rightarrow> nat" where
  "weight es = sum_list (map (\<lambda>e. flight_weight (snd e)) es)"

definition distance :: "scheduler \<Rightarrow> nat" where
  "distance w = 6 * (card (ids_of (sd_dag w)) - length (sd_launched w)) + weight (sd_in_flight w) +
     control_weight (sd_control w)"

lemma weight_simps [simp]:
  "weight [] = 0" "weight (e # es) = flight_weight (snd e) + weight es" "weight (es @ fs) = weight es + weight fs"
  by (simp_all add: weight_def)

lemma weight_remove: "e \<in> set es \<Longrightarrow> weight es = flight_weight (snd e) + weight (remove1 e es)"
  by (induction es) auto

lemma flight_weight_pos [simp]: "0 < flight_weight f"
  by (cases f) auto

text \<open>A handler lands, or goes on with less weight.\<close>

lemma handler_distance:
  assumes e: "(i, g) \<in> set (sd_in_flight w)" and run: "m w = (r, w')"
    and same: "sd_in_flight w' = sd_in_flight w" "sd_launched w' = sd_launched w" "sd_dag w' = sd_dag w"
      "sd_control w' = sd_control w"
    and out: "\<And>f. r = Inr (Some f) \<Longrightarrow> flight_weight f < flight_weight g"
  shows "distance (run_handler (i, g) m w) < distance w"
proof -
  have W: "weight (sd_in_flight w) = flight_weight g + weight (remove1 (i, g) (sd_in_flight w))"
    using weight_remove [OF e] by simp
  have land: "distance (land (i, g) w') < distance w" "distance ((land (i, g) w')\<lparr>sd_control := Crashed x\<rparr>) < distance w" for x
    using W flight_weight_pos [of g] by (simp_all add: land_def distance_def same)
  have go: "distance (w'\<lparr>sd_in_flight := remove1 (i, g) (sd_in_flight w') @ [(i, f)]\<rparr>) < distance w"
    if "r = Inr (Some f)" for f
    using W out [OF that] by (simp add: distance_def same)
  show ?thesis
  proof (cases r)
    case (Inr x)
    with land go run show ?thesis by (cases x) (simp_all add: run_handler_def)
  qed (use land run in \<open>simp add: run_handler_def\<close>)
qed

lemma handler_once:
  assumes w: "launches_once dag w'" "sd_in_flight w' = sd_in_flight w" and run: "m w = (r, w')"
    and out: "\<And>f. r = Inr (Some f) \<Longrightarrow> \<not> is_parked f"
  shows "launches_once dag (run_handler e m w)"
proof -
  have still: "\<forall>e\<in>set (remove1 e (sd_in_flight w')). \<not> is_parked (snd e)"
    using w(1) by (auto simp: launches_once_def dest: set_remove1_in)
  have land: "launches_once dag (land e w')" "launches_once dag ((land e w')\<lparr>sd_control := c\<rparr>)" for c
    using w(1) still by (simp_all add: land_def launches_once_def)
  have go: "launches_once dag (w'\<lparr>sd_in_flight := remove1 e (sd_in_flight w') @ [(fst e, f)]\<rparr>)" if "\<not> is_parked f" for f
    using w(1) still that by (simp add: launches_once_def ball_Un)
  show ?thesis
  proof (cases r)
    case (Inr x)
    with land go run out show ?thesis by (cases x) (simp_all add: run_handler_def)
  qed (use land run in \<open>simp add: run_handler_def\<close>)
qed

section \<open>A round of the loop\<close>

lemma once_startStage:
  assumes w: "launches_once dag w" and i: "i \<in> ids_of dag" "jget (sd_states w) i = Some Pending" and go: "\<not> sd_halt_requested w"
  shows "launches_once dag (startStage i w)" "sd_launched (startStage i w) = sd_launched w @ [i]"
    "sd_in_flight (startStage i w) = sd_in_flight w @ [(i, Starting)]"
    "sd_control (startStage i w) = sd_control w" "\<not> sd_halt_requested (startStage i w)" "sd_dag (startStage i w) = sd_dag w"
proof -
  have new: "i \<notin> set (sd_launched w)" using w i go by (auto simp: launches_once_def spent_def)
  have start: "startStage i w = (set_stage i Active w)\<lparr>sd_launched := sd_launched w @ [i], sd_active := sd_active w + 1,
        sd_in_flight := sd_in_flight w @ [(i, Starting)]\<rparr>"
    using i new by (simp add: startStage_def jadd_def)
  show "launches_once dag (startStage i w)"
    unfolding start using w i new go by (auto simp: launches_once_def set_stage_def spent_def is_parked_def)
  show "sd_launched (startStage i w) = sd_launched w @ [i]"
    "sd_in_flight (startStage i w) = sd_in_flight w @ [(i, Starting)]"
    "sd_control (startStage i w) = sd_control w" "\<not> sd_halt_requested (startStage i w)" "sd_dag (startStage i w) = sd_dag w"
    unfolding start using go by (simp_all add: set_stage_def)
qed

lemma once_start_stages:
  "launches_once dag w \<Longrightarrow> set ids \<subseteq> ids_of dag \<Longrightarrow> \<not> sd_halt_requested w \<Longrightarrow>
   \<exists>news. sd_launched (start_stages cap ids w) = sd_launched w @ news \<and>
     sd_in_flight (start_stages cap ids w) = sd_in_flight w @ map (\<lambda>i. (i, Starting)) news \<and>
     sd_control (start_stages cap ids w) = sd_control w \<and> launches_once dag (start_stages cap ids w) \<and>
     sd_dag (start_stages cap ids w) = sd_dag w"
proof (induction ids arbitrary: w)
  case (Cons i ids)
  show ?case
  proof (cases "sd_active w \<ge> cap")
    case False
    show ?thesis
    proof (cases "jget (sd_states w) i = Some Pending")
      case True
      note S = once_startStage [OF Cons.prems(1) _ True Cons.prems(3)]
      from Cons.prems(2) have i: "i \<in> ids_of dag" by simp
      from Cons.IH [OF S(1) [OF i] _ S(5) [OF i]] Cons.prems(2) obtain news where
        "sd_launched (start_stages cap ids (startStage i w)) = sd_launched (startStage i w) @ news"
        "sd_in_flight (start_stages cap ids (startStage i w)) = sd_in_flight (startStage i w) @ map (\<lambda>i. (i, Starting)) news"
        "sd_control (start_stages cap ids (startStage i w)) = sd_control (startStage i w)"
        "launches_once dag (start_stages cap ids (startStage i w))"
        "sd_dag (start_stages cap ids (startStage i w)) = sd_dag (startStage i w)" by auto
      with False S(2-6) [OF i] show ?thesis by (intro exI [of _ "i # news"]) simp
    qed (use Cons False in \<open>simp add: startStage_def\<close>)
  qed (use Cons.prems in simp)
qed simp

lemma once_length: "launches_once dag w \<Longrightarrow> length (sd_launched w) \<le> card (ids_of dag)"
  by (metis launches_once_def distinct_card card_mono ids_of_def finite_imageI finite_set)

lemma once_distance:
  assumes "launches_once dag w" "launches_once dag w'" "sd_launched w' = sd_launched w @ news"
    "sd_in_flight w' = sd_in_flight w @ map (\<lambda>i. (i, Starting)) news" "sd_control w' = sd_control w"
  shows "distance w' + length news = distance w"
proof -
  have "length (sd_launched w) + length news \<le> card (ids_of dag)" using once_length [OF assms(2)] assms(3) by simp
  moreover have "sd_dag w = dag" "sd_dag w' = dag" using assms by (simp_all add: launches_once_def)
  moreover have "weight (map (\<lambda>i. (i, Starting)) news) = 5 * length news" by (induction news) simp_all
  ultimately show ?thesis using assms(3-5) by (simp add: distance_def)
qed

lemma runnable_ids: "i \<in> set (runnable w) \<Longrightarrow> i \<in> ids_of (sd_dag w) \<and> jget (sd_states w) i = Some Pending"
  by (auto simp: runnable_def pickRunnable_def sortRunnableIds_def isRunnable_def ids_of_def split: if_splits)

lemma once_skip_rest: "launches_once dag w \<Longrightarrow> launches_once dag (skip_rest w) \<and> sd_dag (skip_rest w) = sd_dag w"
proof -
  assume w: "launches_once dag w"
  have k: "keeps (settled (frame w) dag (sd_states w) i) (skip_silently (\<lambda>w. markSkippedPending (sd_dag w)))" for i
    by (intro once.keeps_skip_silently skips)
  obtain r w' where "skip_silently (\<lambda>w. markSkippedPending (sd_dag w)) w = (r, w')" by fastforce
  with settled_keeps [OF w k] w show ?thesis by (auto simp: skip_rest_def launches_once_def)
qed

lemma once_control [simp]: "launches_once dag (w\<lparr>sd_control := c\<rparr>) = launches_once dag w"
  by (simp add: launches_once_def)

lemma distance_control: "distance (w\<lparr>sd_control := c\<rparr>) + control_weight (sd_control w) = distance w + control_weight c"
  by (simp add: distance_def)

lemma once_after_tick:
  assumes w: "launches_once dag w"
  shows "launches_once dag (after_tick w)"
    "distance (after_tick w) + control_weight (sd_control w) = distance w + control_weight (sd_control (after_tick w))"
    "sd_control (after_tick w) \<in> {sd_control w, Draining}"
  using w once_skip_rest [OF w] frame_skip_rest [of w]
  by (auto simp: after_tick_def distance_def frame_def)

lemma once_settle:
  assumes w: "launches_once dag w" and run: "settle_round w = (r, w')"
  shows "launches_once dag w'" "frame w' = frame w" "distance w' = distance w"
proof -
  have start: "settled (frame w) dag (sd_states w) i (drainRetryMutations (obey_halt v))"
    if "settled (frame w) dag (sd_states w) i v" for i v
    using that once.halted [OF that, of True] by (intro once.drain) (simp add: obey_halt_def)
  have "keeps (settled (frame w) dag (sd_states w) i) settle_round" for i
    unfolding settle_round_def by (intro keeps keeps_change once.keeps_skip_and_log skips start)
  from settled_keeps [OF w this run] show a: "launches_once dag w'" and b: "frame w' = frame w" by auto
  show "distance w' = distance w" using a b w by (simp add: distance_def launches_once_def frame_def)
qed

lemma once_obey: "launches_once dag w \<Longrightarrow> launches_once dag (obey_halt w) \<and> distance (obey_halt w) = distance w"
  by (auto simp: obey_halt_def launches_once_def distance_def)

text \<open>What a round starts, from the state it has settled.\<close>

definition start_some :: "run_config \<Rightarrow> scheduler \<Rightarrow> scheduler" where
  "start_some cfg w = (let w = obey_halt w in if sd_halted w then w else start_stages (cf_cap cfg) (runnable w) w)"

lemma loop_round_cases:
  "loop_round cfg w =
     (if allTerminal (sd_dag w) (sd_states w) then w\<lparr>sd_control := Draining\<rparr>
      else case settle_round w of
        (Inl e, w') \<Rightarrow> w'\<lparr>sd_control := Crashed e\<rparr>
      | (Inr _, w') \<Rightarrow> after_tick (start_some cfg w'))"
  by (simp add: loop_round_def tick_split start_some_def chain_def change_def split: prod.split sum.split)

lemma once_start_some:
  assumes w: "launches_once dag w"
  shows "\<exists>news. launches_once dag (start_some cfg w) \<and> sd_launched (start_some cfg w) = sd_launched w @ news \<and>
    sd_in_flight (start_some cfg w) = sd_in_flight w @ map (\<lambda>i. (i, Starting)) news \<and>
    distance (start_some cfg w) + length news = distance w \<and> sd_control (start_some cfg w) = sd_control w"
proof (cases "sd_halted (obey_halt w)")
  case True
  then show ?thesis using once_obey [OF w] frame_def obey_halt_simps(1) [of w]
    by (intro exI [of _ "[]"]) (simp add: start_some_def frame_def)
next
  case False
  let ?w = "obey_halt w"
  have go: "\<not> sd_halt_requested ?w" using False by (simp add: obey_halt_def split: if_splits)
  have ids: "set (runnable ?w) \<subseteq> ids_of dag" using runnable_ids [of _ ?w] once_obey [OF w] by (auto simp: launches_once_def)
  from once_start_stages [OF conjunct1 [OF once_obey [OF w]] ids go, of "cf_cap cfg"] obtain news where
    n: "sd_launched (start_stages (cf_cap cfg) (runnable ?w) ?w) = sd_launched ?w @ news"
      "sd_in_flight (start_stages (cf_cap cfg) (runnable ?w) ?w) = sd_in_flight ?w @ map (\<lambda>i. (i, Starting)) news"
      "sd_control (start_stages (cf_cap cfg) (runnable ?w) ?w) = sd_control ?w"
      "launches_once dag (start_stages (cf_cap cfg) (runnable ?w) ?w)" by blast
  from once_distance [OF conjunct1 [OF once_obey [OF w]] n(4,1,2,3)] n once_obey [OF w] False obey_halt_simps(1) [of w]
  show ?thesis by (intro exI [of _ news]) (simp add: start_some_def frame_def Let_def)
qed

text \<open>A round never goes back, and goes on when it starts a stage or leaves the loop.\<close>

lemma once_round:
  assumes w: "launches_once dag w" "sd_control w = Looping"
  shows "launches_once dag (loop_round cfg w)" "distance (loop_round cfg w) \<le> distance w"
    "sd_launched (loop_round cfg w) \<noteq> sd_launched w \<or> sd_control (loop_round cfg w) \<noteq> Looping \<Longrightarrow>
     distance (loop_round cfg w) < distance w"
proof -
  let ?r = "loop_round cfg w"
  have "launches_once dag ?r \<and> distance ?r \<le> distance w \<and>
      (sd_launched ?r \<noteq> sd_launched w \<or> sd_control ?r \<noteq> Looping \<longrightarrow> distance ?r < distance w)"
  proof (cases "allTerminal (sd_dag w) (sd_states w)")
    case True
    then show ?thesis using w distance_control [where c = Draining and w = w] by (simp add: loop_round_cases)
  next
    case False
    obtain r w1 where settle: "settle_round w = (r, w1)" by fastforce
    note S = once_settle [OF w(1) settle]
    have c1: "sd_control w1 = Looping" "sd_launched w1 = sd_launched w" using S(2) w(2) by (auto simp: frame_def)
    show ?thesis
    proof (cases r)
      case (Inl e)
      then show ?thesis using False settle S c1 distance_control [where c = "Crashed e" and w = w1] by (simp add: loop_round_cases)
    next
      case (Inr u)
      obtain news where n: "launches_once dag (start_some cfg w1)" "sd_launched (start_some cfg w1) = sd_launched w1 @ news"
        "distance (start_some cfg w1) + length news = distance w1" "sd_control (start_some cfg w1) = sd_control w1"
        using once_start_some [OF S(1)] by blast
      note A = once_after_tick [OF n(1)]
      have r: "?r = after_tick (start_some cfg w1)" using False settle Inr by (simp add: loop_round_cases)
      have launched: "sd_launched ?r = sd_launched w @ news" using frame_after_tick [of "start_some cfg w1"] n(2) c1 r by simp
      show ?thesis using A n S c1 r launched by (cases news) auto
    qed
  qed
  then show "launches_once dag ?r" "distance ?r \<le> distance w"
    "sd_launched ?r \<noteq> sd_launched w \<or> sd_control ?r \<noteq> Looping \<Longrightarrow> distance ?r < distance w" by auto
qed

text \<open>With nothing in flight a round does go on.\<close>

lemma start_some_none:
  assumes "sd_in_flight (start_some cfg w) = []" "sd_active w = 0" "0 < cf_cap cfg"
  shows "sd_halted (start_some cfg w) \<or> runnable (start_some cfg w) = []"
proof (cases "sd_halted (obey_halt w)")
  case False
  have grow: "sd_in_flight w \<noteq> [] \<Longrightarrow> sd_in_flight (start_stages cap ids w) \<noteq> []" for cap ids and w :: scheduler
    by (induction ids arbitrary: w) (simp_all add: startStage_def set_stage_def)
  have "runnable (obey_halt w) = []"
  proof (cases "runnable (obey_halt w)")
    case (Cons i ids)
    have "jget (sd_states (obey_halt w)) i = Some Pending" using runnable_ids [of i "obey_halt w"] Cons by simp
    then have "sd_in_flight (startStage i (obey_halt w)) \<noteq> []" by (simp add: startStage_def)
    moreover have "sd_active (obey_halt w) = 0" using assms(2) obey_halt_simps(1) [of w] by (simp add: frame_def)
    ultimately show ?thesis using assms(1,3) False Cons grow by (simp add: start_some_def)
  qed
  with False show ?thesis by (simp add: start_some_def)
qed (simp add: start_some_def)

lemma round_goes_on:
  assumes "sd_in_flight w = []" "slots_ok cfg w" "0 < cf_cap cfg" "launches_once dag w" "sd_control w = Looping"
  shows "sd_launched (loop_round cfg w) \<noteq> sd_launched w \<or> sd_control (loop_round cfg w) \<noteq> Looping"
proof (cases "allTerminal (sd_dag w) (sd_states w)")
  case False
  obtain r w1 where settle: "settle_round w = (r, w1)" by fastforce
  from frame_settle [OF settle] assms(1,2) have w1: "sd_active w1 = 0" "sd_in_flight w1 = []" "sd_launched w1 = sd_launched w"
    by (auto simp: frame_def slots_ok_def)
  show ?thesis
  proof (cases r)
    case (Inr u)
    have r: "loop_round cfg w = after_tick (start_some cfg w1)" using False settle Inr by (simp add: loop_round_cases)
    show ?thesis
    proof (cases "sd_in_flight (start_some cfg w1) = []")
      case True
      from start_some_none [OF this w1(1) assms(3)] True show ?thesis by (auto simp: r after_tick_def)
    next
      case flying: False
      obtain news where n: "sd_launched (start_some cfg w1) = sd_launched w1 @ news"
        "sd_in_flight (start_some cfg w1) = sd_in_flight w1 @ map (\<lambda>i. (i, Starting)) news"
        using once_start_some [OF once_settle(1) [OF assms(4) settle]] by blast
      with flying w1 have "news \<noteq> []" by auto
      with n r frame_after_tick [of "start_some cfg w1"] w1 show ?thesis by simp
    qed
  qed (use False settle in \<open>simp add: loop_round_cases\<close>)
qed (simp add: loop_round_cases)

section \<open>Every move\<close>

text \<open>
  Calm moves: no browser host moves a profile.  Idle are the rounds that start nothing and stay in
  the loop (a poll of the loop while stages run), a repeated notice of a busy profile, and what is
  asked from outside.
\<close>

definition calm :: "move \<Rightarrow> bool" where
  "calm m = (case m of Finish _ _ r \<Rightarrow> \<not> switch_of r | _ \<Rightarrow> True)"

definition productive :: "run_config \<Rightarrow> scheduler \<Rightarrow> move \<Rightarrow> bool" where
  "productive cfg w m \<longleftrightarrow> enabled w m \<and>
     (case m of
        Round \<Rightarrow> sd_launched (loop_round cfg w) \<noteq> sd_launched w \<or> sd_control (loop_round cfg w) \<noteq> Looping
      | ProfileBusy _ _ released \<Rightarrow> \<not> released
      | RequestHalt _ \<Rightarrow> False
      | RequestRetry _ _ \<Rightarrow> False
      | _ \<Rightarrow> True)"

text \<open>A handler that only settles the states of its stage.\<close>

lemma once_handler:
  assumes w: "launches_once dag w" and e: "(i, g) \<in> set (sd_in_flight w)"
    and m: "keeps (settled (frame w) dag (sd_states w) i) m" and out: "outputs Q m"
    and less: "\<And>f. Q f \<Longrightarrow> flight_weight f < flight_weight g"
  shows "launches_once dag (run_handler (i, g) m w) \<or> (\<exists>f. Q f \<and> is_parked f)"
    "distance (run_handler (i, g) m w) < distance w"
proof -
  obtain r w' where run: "m w = (r, w')" by fastforce
  from settled_keeps [OF w m run] have k: "launches_once dag w'" "frame w' = frame w" by auto
  then have same: "sd_in_flight w' = sd_in_flight w" "sd_launched w' = sd_launched w" "sd_dag w' = sd_dag w"
    "sd_control w' = sd_control w" using w by (auto simp: frame_def launches_once_def)
  have q: "Q f" if "r = Inr (Some f)" for f using outputsD [OF out] run that by blast
  show "distance (run_handler (i, g) m w) < distance w" using e run same less [OF q] by (rule handler_distance)
  show "launches_once dag (run_handler (i, g) m w) \<or> (\<exists>f. Q f \<and> is_parked f)"
    using handler_once [of dag w' w m r "(i, g)"] k(1) same(1) run q by blast
qed

lemma live_weight: "live w \<Longrightarrow> 0 < control_weight (sd_control w)"
  by (auto simp: live_def)

lemma once_profile:
  assumes w: "launches_once dag w" and e: "(i, Acquiring n rel) \<in> set (sd_in_flight w)"
  shows "launches_once dag (run_handler (i, Acquiring n rel) (profileBusy i n rel) w)"
    "distance (run_handler (i, Acquiring n rel) (profileBusy i n rel) w) < distance w + (if rel then 1 else 0)"
    "launches_once dag (run_handler (i, Acquiring n rel) (profileJoined i n rel) w)"
    "distance (run_handler (i, Acquiring n rel) (profileJoined i n rel) w) < distance w"
    "sd_halt_requested w \<Longrightarrow> launches_once dag (run_handler (i, Acquiring n rel) (profileHalted i rel) w)"
    "distance (run_handler (i, Acquiring n rel) (profileHalted i rel) w) < distance w"
proof -
  let ?g = "Acquiring n rel"
  have moved_active: "launches_once dag (v\<lparr>sd_active := k\<rparr>) = launches_once dag v" "distance (v\<lparr>sd_active := k\<rparr>) = distance v"
    for v k by (simp_all add: launches_once_def distance_def)
  obtain r s where run: "appendStageEvent i (EvOther ''message'') (Some n) (sd_store w) = (r, s)" by fastforce
  note W = weight_remove [OF e]
  have still: "\<forall>x\<in>set (remove1 (i, ?g) (sd_in_flight w)). \<not> is_parked (snd x)"
    using w by (auto simp: launches_once_def dest: set_remove1_in)
  show "launches_once dag (run_handler (i, ?g) (profileBusy i n rel) w)"
    using w still run
    by (cases r) (auto simp: run_handler_def profileBusy_def running shift_active_def land_def rescue_def
        log_event_def chain_via launches_once_def is_parked_def)
  show "distance (run_handler (i, ?g) (profileBusy i n rel) w) < distance w + (if rel then 1 else 0)"
    using W run
    by (cases r) (auto simp: run_handler_def profileBusy_def running shift_active_def land_def rescue_def
        log_event_def chain_via distance_def)
  let ?w = "shift_active (if rel then 1 else 0) w"
  have w1: "launches_once dag ?w" "distance ?w = distance w" "(i, ?g) \<in> set (sd_in_flight ?w)"
    using w e by (simp_all add: shift_active_def moved_active)
  have joined: "run_handler (i, ?g) (profileJoined i n rel) w = run_handler (i, ?g) (begin_attempt i n) ?w"
    by (simp add: run_handler_def profileJoined_def running)
  note J = once_handler [OF w1(1,3) once.keeps_begin outputs_begin [of "\<lambda>f. f = Executing n", OF refl]]
  show "launches_once dag (run_handler (i, ?g) (profileJoined i n rel) w)"
    using J(1) unfolding joined by (auto simp: is_parked_def)
  show "distance (run_handler (i, ?g) (profileJoined i n rel) w) < distance w"
    using J(2) unfolding joined w1(2) by simp
  show "launches_once dag (run_handler (i, ?g) (profileHalted i rel) w)" if "sd_halt_requested w"
    using w still that by (auto simp: run_handler_def profileHalted_def running land_def shift_active_def set_stage_def launches_once_def)
  show "distance (run_handler (i, ?g) (profileHalted i rel) w) < distance w"
    using W by (simp add: run_handler_def profileHalted_def running land_def shift_active_def set_stage_def distance_def)
qed

lemma once_conclude: "launches_once dag w \<Longrightarrow> conclude w = (r, w') \<Longrightarrow> launches_once dag w' \<and> frame w' = frame w"
proof -
  assume w: "launches_once dag w" and run: "conclude w = (r, w')"
  let ?P = "settled (frame w) dag (sd_states w) []"
  have store: "keeps ?P (via_store m)" for m :: "scheduler \<Rightarrow> unit action"
    by (auto simp: keeps_def via_store_def settled_def split: prod.split sum.split)
  have "?P v \<Longrightarrow> ?P (skip_rest v)" for v
    using once.keeps_skip_silently [of "\<lambda>w. markSkippedPending (sd_dag w)"] markSkippedPending_skips
    by (simp add: keeps_def skip_rest_def)
  then have "keeps ?P conclude" by (intro keeps_conclude store)
  from settled_keeps [OF w this run] show ?thesis .
qed

lemma once_end: "launches_once dag w \<Longrightarrow> sd_control w = Draining \<Longrightarrow>
    launches_once dag (end_run w) \<and> distance (end_run w) < distance w"
proof -
  assume w: "launches_once dag w" "sd_control w = Draining"
  obtain r w' where run: "conclude w = (r, w')" by fastforce
  from once_conclude [OF w(1) run] have k: "launches_once dag w'" "frame w' = frame w" by auto
  then have "distance w' = distance w" using w(1) by (simp add: distance_def launches_once_def frame_def)
  moreover have "sd_control w' = Draining" using k(2) w(2) by (simp add: frame_def)
  ultimately have "distance (w'\<lparr>sd_control := c\<rparr>) + 1 = distance w + control_weight c" for c
    using distance_control [where c = c and w = w'] by simp
  from this [of "Crashed _"] this [of "Ended _"] k(1) show ?thesis
    by (cases r) (simp_all add: end_run_def run Suc_le_eq [symmetric])
qed

text \<open>Without feedback loops no stage is parked.\<close>

lemma success_never_parks: "forward_only (sd_dag w) \<Longrightarrow> onStageSuccess cfg i e w \<noteq> (Inr (Some f), w')"
proof
  assume s: "forward_only (sd_dag w)" and run: "onStageSuccess cfg i e w = (Inr (Some f), w')"
  let ?w = "notifyRetryRootTerminal i Succeeded ((set_stage i Succeeded w)\<lparr>sd_envelopes := jset (sd_envelopes w) i e\<rparr>)"
  have d: "sd_dag ?w = sd_dag w" by (simp add: notifyRetryRootTerminal_def set_stage_def split: option.split)
  have none: "outputs (\<lambda>_. False) (chain m (\<lambda>_. done_with None))" for m :: "unit step" by (intro outputs)
  have send: "on_send_back cfg i e ?w \<noteq> (Inr (Some f), w')"
    using outputsD [OF outputs_refusal(1)] forward_only_node [OF s]
    by (auto simp: on_send_back_def d Let_def simp del: append.simps split: option.split)
  have "after_mint cfg i e ?w \<noteq> (Inr (Some f), w')"
    using send outputsD [OF none] by (auto simp: after_mint_def split: option.split FeedbackLoopAction.split)
  then show False using run by (simp add: onStageSuccess_def running d forward_only_mint [OF s])
qed

lemma finish_never_parks: "forward_only (sd_dag w) \<Longrightarrow> finishStage cfg i n r w \<noteq> (Inr (Some f), w')"
proof
  assume s: "forward_only (sd_dag w)" and run: "finishStage cfg i n r w = (Inr (Some f), w')"
  have none: "outputs (\<lambda>_. False) (chain m (\<lambda>_. done_with None))" for m :: "unit step" by (intro outputs)
  have logged: "outputs (\<lambda>_. False) (chain (log_failure i n m) (\<lambda>_. chain k (\<lambda>_. done_with None)))" for m k
    by (intro outputs)
  have tried: "succeed_or_fail cfg i m w \<noteq> (Inr (Some f), w')" if "m w \<noteq> (Inr (Some f), w')" for m
    using that outputsD [OF outputs_refusal(1)]
    by (auto simp: succeed_or_fail_def rescue_def split: prod.split sum.split)
  have read: "chain (via_store (\<lambda>_. readEnvelope i None)) (onStageSuccess cfg i) w \<noteq> (Inr (Some f), w')"
    using success_never_parks s by (auto simp: chain_via split: prod.split sum.split)
  show False
    using run tried [of "chain (via_store (\<lambda>_. readEnvelope i None)) (onStageSuccess cfg i)"] read
      tried [of "onStageSuccess cfg i e" for e] success_never_parks [OF s] outputsD [OF none] outputsD [OF logged]
    by (cases r) (auto simp: finishStage_def split: option.splits if_splits)
qed

lemma perform_once:
  assumes w: "launches_once dag w" and m: "enabled w m" "calm m"
  shows "launches_once dag (perform cfg m w)" "distance (perform cfg m w) \<le> distance w"
    "productive cfg w m \<Longrightarrow> distance (perform cfg m w) < distance w"
proof -
  have "launches_once dag (perform cfg m w) \<and> distance (perform cfg m w) \<le> distance w \<and>
    (productive cfg w m \<longrightarrow> distance (perform cfg m w) < distance w)"
  proof (cases m)
    case Round
    with m have "sd_control w = Looping" by simp
    from once_round [OF w this, of cfg] Round show ?thesis by (auto simp: productive_def)
  next
    case (Launch i)
    with m have e: "(i, Starting) \<in> set (sd_in_flight w)" by simp
    let ?Q = "\<lambda>f. (\<exists>n. f = Executing n) \<or> (\<exists>n d. f = Acquiring n False \<and> cf_profiles cfg d)"
    have less: "flight_weight f < flight_weight Starting" "\<not> is_parked f" if "?Q f" for f
      using that by (auto simp: is_parked_def)
    from once_handler [OF w e once.keeps_launch outputs_launch [of cfg i] less(1)] less(2) Launch show ?thesis by auto
  next
    case (ProfileBusy i n r)
    with m have e: "(i, Acquiring n r) \<in> set (sd_in_flight w)" by simp
    from once_profile(1,2) [OF w e] ProfileBusy show ?thesis by (auto simp: productive_def split: if_splits)
  next
    case (ProfileJoined i n r)
    with m have e: "(i, Acquiring n r) \<in> set (sd_in_flight w)" by simp
    from once_profile(3,4) [OF w e] ProfileJoined show ?thesis by auto
  next
    case (ProfileHalted i n r)
    with m have e: "(i, Acquiring n r) \<in> set (sd_in_flight w)" by simp
    from once_profile(5,6) [OF w e] ProfileHalted m show ?thesis by auto
  next
    case (Finish i n r)
    with m have e: "(i, Executing n) \<in> set (sd_in_flight w)" by simp
    have k: "keeps (settled (frame w) dag (sd_states w) i) (finishStage cfg i n r)"
      using Finish m by (intro once.keeps_finish) (simp add: calm_def)
    have "forward_only (sd_dag w)" using w by (simp add: launches_once_def single_pass_def)
    then have "outputs (\<lambda>_. False) (\<lambda>v. if v = w then finishStage cfg i n r v else (Inr None, v))"
      using finish_never_parks [of w cfg i n r] by (auto simp: outputs_def)
    moreover have "keeps (settled (frame w) dag (sd_states w) i) (\<lambda>v. if v = w then finishStage cfg i n r v else (Inr None, v))"
      using k by (simp add: keeps_def)
    ultimately have "launches_once dag (run_handler (i, Executing n) (finishStage cfg i n r) w) \<and>
        distance (run_handler (i, Executing n) (finishStage cfg i n r) w) < distance w"
      using once_handler [OF w e, of "\<lambda>v. if v = w then finishStage cfg i n r v else (Inr None, v)" "\<lambda>_. False"]
      by (simp add: run_handler_def)
    with Finish show ?thesis by simp
  next
    case (Decide i l n d)
    with w m show ?thesis by (force simp: launches_once_def is_parked_def)
  next
    case Conclude
    with once_end [OF w] m show ?thesis by auto
  next
    case (RequestHalt b)
    with w show ?thesis by (auto simp: productive_def launches_once_def distance_def)
  next
    case (RequestRetry i n)
    with w show ?thesis by (auto simp: productive_def launches_once_def distance_def)
  qed
  then show "launches_once dag (perform cfg m w)" "distance (perform cfg m w) \<le> distance w"
    "productive cfg w m \<Longrightarrow> distance (perform cfg m w) < distance w" by auto
qed

section \<open>Runs end\<close>

fun progress_of :: "run_config \<Rightarrow> move list \<Rightarrow> scheduler \<Rightarrow> nat" where
  "progress_of cfg [] w = 0"
| "progress_of cfg (m # ms) w = (if productive cfg w m then 1 else 0) + progress_of cfg ms (perform cfg m w)"

lemma trace_once:
  "launches_once dag w \<Longrightarrow> \<forall>m\<in>set ms. calm m \<Longrightarrow> trace cfg ms w = Some w' \<Longrightarrow>
   launches_once dag w' \<and> progress_of cfg ms w + distance w' \<le> distance w"
proof (induction ms arbitrary: w)
  case (Cons m ms)
  then have m: "enabled w m" "calm m" "trace cfg ms (perform cfg m w) = Some w'" by (auto split: if_splits)
  note P = perform_once [OF Cons.prems(1) m(1,2), of cfg]
  from Cons.IH [OF P(1) _ m(3)] Cons.prems(2) P(2,3) show ?case by (cases "productive cfg w m") auto
qed simp

lemma once_goes_on:
  assumes w: "launches_once dag w" "slots_ok cfg w" "0 < cf_cap cfg" "live w"
  shows "\<exists>m. calm m \<and> productive cfg w m"
proof (cases "sd_in_flight w")
  case Nil
  show ?thesis
  proof (cases "sd_control w = Looping")
    case True
    from round_goes_on [OF Nil w(2,3,1) True] True show ?thesis
      by (intro exI [of _ Round]) (simp add: productive_def calm_def)
  next
    case False
    with w(4) Nil show ?thesis by (intro exI [of _ Conclude]) (simp add: productive_def calm_def live_def)
  qed
next
  case (Cons e es)
  obtain i f where e: "e = (i, f)" by fastforce
  show ?thesis
  proof (cases f)
    case Starting
    then show ?thesis using w(4) Cons e by (intro exI [of _ "Launch i"]) (simp add: productive_def calm_def)
  next
    case (Acquiring n r)
    then show ?thesis using w(4) Cons e by (intro exI [of _ "ProfileJoined i n r"]) (simp add: productive_def calm_def)
  next
    case (Executing n)
    then show ?thesis using w(4) Cons e
      by (intro exI [of _ "Finish i n (RanOk None)"]) (simp add: productive_def calm_def switch_of_def)
  next
    case (Parked l n)
    then show ?thesis using w(1) Cons e by (auto simp: launches_once_def is_parked_def)
  qed
qed

lemma keeps_no_retry_store: "keeps (\<lambda>w. sd_retry_roots w = None) (via_store m)"
  by (auto simp: keeps_def via_store_def split: prod.split sum.split)

lemma keeps_no_retry_moves:
  "keeps (\<lambda>w. sd_retry_roots w = None) (startNextAttempt i)"
  "keeps (\<lambda>w. sd_retry_roots w = None) (adopt_clones cfg i d k ids)"
  unfolding startNextAttempt_def adopt_clones_def
  by (intro keeps keeps_change keeps_no_retry_store; simp add: set_stage_def)+

interpretation no_retry: handler_invariant "\<lambda>i w. sd_retry_roots w = None" True
  using keepsD [OF keeps_no_retry_moves(1)] keepsD [OF keeps_no_retry_moves(2)]
  by unfold_locales (simp_all add: set_stage_def put_view_def drain_idle)

lemma start_no_retry:
  "start_run cfg opts fallback s = Inr w \<Longrightarrow> op_retry_roots opts = None \<Longrightarrow> sd_retry_roots w = None"
proof -
  assume start: "start_run cfg opts fallback s = Inr w" and retry: "op_retry_roots opts = None"
  then obtain w0 s0 where boot: "boot cfg opts fallback s = (Inr w0, s0)" and w: "w = crash_on_fault (prepare opts) w0"
    by (auto simp: start_run_def split: prod.splits sum.splits)
  have w0: "sd_retry_roots w0 = None"
    using boot retry by (auto simp: boot_def act elim!: andThen_InrE split: prod.splits)
  have load: "sd_retry_roots (load_envelope i v) = sd_retry_roots v" for i v by (simp add: load_envelope_def split: sum.split)
  have marked: "sd_retry_roots (mark_done i v) = sd_retry_roots v" for i v by (simp add: mark_done_def Let_def load set_stage_def)
  have fold: "sd_retry_roots (foldl (\<lambda>w n. if stageIndex n < k then mark_done (node_id n) w else w) v ns) = sd_retry_roots v"
    for k v ns by (induction ns arbitrary: v) (simp_all add: marked)
  have init: "sd_retry_roots (skip_ahead opts (resume_at opts v)) = sd_retry_roots v" for v
    by (simp add: skip_ahead_def resume_at_def fold marked set_stage_def split: option.split)
  have "keeps (\<lambda>w. sd_retry_roots w = None) (prepare opts)"
    unfolding prepare_def
    by (intro keeps keeps_change no_retry.keeps_skip_and_log no_retry.keeps_skip_conditions skips) (simp add: Let_def init)
  moreover obtain r w1 where run: "prepare opts w0 = (r, w1)" by fastforce
  ultimately have "sd_retry_roots w1 = None" using keeps_run w0 by blast
  then show ?thesis using run w by (cases r) (auto simp: crash_on_fault_def)
qed

text \<open>
  C1: a run of a pipeline whose stages run at most once (no clones, feedback loops, automatic
  repairs, retries or profile switches) ends: whatever the stages answer and however they
  interleave, at most 6 n + 2 of its moves are productive for n stages, and as long as the run is
  live a productive move is possible: a stage in flight can move on, or the loop starts a stage or
  is left.
\<close>

theorem runs_end:
  "start_run cfg opts fallback s = Inr w0 \<Longrightarrow> op_retry_roots opts = None \<Longrightarrow> single_pass (sd_dag w0) \<Longrightarrow>
   0 < cf_cap cfg \<Longrightarrow> \<forall>m\<in>set ms. calm m \<Longrightarrow> trace cfg ms w0 = Some w \<Longrightarrow>
   progress_of cfg ms w0 \<le> 6 * card (ids_of (sd_dag w0)) + 2 \<and>
   (live w \<longrightarrow> (\<exists>m. calm m \<and> productive cfg w m))"
proof -
  assume start: "start_run cfg opts fallback s = Inr w0" and retry: "op_retry_roots opts = None"
    and dag: "single_pass (sd_dag w0)" and cap: "0 < cf_cap cfg" and ms: "\<forall>m\<in>set ms. calm m"
    and run: "trace cfg ms w0 = Some w"
  have "launches_once (sd_dag w0) w0"
    using start_frame [OF start] start_no_retry [OF start retry] dag by (simp add: launches_once_def)
  from trace_once [OF this ms run] have t: "launches_once (sd_dag w0) w" "progress_of cfg ms w0 \<le> distance w0" by auto
  have "control_weight (sd_control w0) \<le> 2" by (cases "sd_control w0") simp_all
  then have "distance w0 \<le> 6 * card (ids_of (sd_dag w0)) + 2" using start_frame [OF start] by (simp add: distance_def)
  moreover have "slots_ok cfg w" by (rule reachable_slots [OF trace_reachable [OF reachable.start [OF start] run]])
  ultimately show ?thesis using t once_goes_on [OF t(1) _ cap] by auto
qed

theorem runs_end_witness:
  "\<exists>w. trace plain_config [Round, Launch ''a'', Finish ''a'' 1 (RanFailed None None False)] chain_start = Some w \<and>
     progress_of plain_config [Round, Launch ''a'', Finish ''a'' 1 (RanFailed None None False)] chain_start \<le> 20 \<and>
     live w \<and> (\<exists>m. calm m \<and> productive plain_config w m)"
proof -
  let ?ms = "[Round, Launch ''a'', Finish ''a'' 1 (RanFailed None None False)]"
  have start: "start_run plain_config plain_options chain_sample blank_store = Inr chain_start" by code_simp
  have retry: "op_retry_roots plain_options = None" by (simp add: plain_options_def)
  have dag: "single_pass (sd_dag chain_start)" by code_simp
  have cap: "0 < cf_cap plain_config" by (simp add: plain_config_def)
  have calm: "\<forall>m\<in>set ?ms. calm m" by (simp add: calm_def switch_of_def)
  have "map_option live (trace plain_config ?ms chain_start) = Some True" by code_simp
  then obtain w where run: "trace plain_config ?ms chain_start = Some w" and live: "live w" by auto
  have "card (ids_of (sd_dag chain_start)) = 3" by code_simp
  with runs_end [OF start retry dag cap calm run] live run show ?thesis by auto
qed

end
