(* ===== verification/Scheduler_Results.thy ===== *)
theory Scheduler_Results
  imports Scheduler_Ends Schedule_Correct
begin

text \<open>
  What a run leaves behind: how many attempts a stage can get, what a failure does to the schedule,
  and what the result of a run says about the schedule and the stored status.
\<close>

section \<open>Attempts\<close>

definition attempts_of :: "run_store \<Rightarrow> string \<Rightarrow> nat" where
  "attempts_of s i = length (executions_of s i)"

lemma attempts_keys: "attempts_of s i = length (List.filter (\<lambda>k. fst k = i) (attempt_keys s))"
  by (simp add: attempts_of_def executions_of_def attempt_keys_def filter_map comp_def)

lemma attempts_undisturbed: "undisturbed s s' \<Longrightarrow> attempts_of s' i = attempts_of s i"
  by (simp add: attempts_keys undisturbed_def)

lemma attempts_create:
  "attempts_of (snd (createStageExecution i s)) k = attempts_of s k + (if k = i then 1 else 0)"
  by (simp add: createStageExecution_def Let_def attempts_of_def executions_of_def new_execution_def)

lemma latest_None: "latest_execution s i = None \<Longrightarrow> executions_of s i = []"
proof (rule ccontr)
  assume none: "latest_execution s i = None" and some: "executions_of s i \<noteq> []"
  let ?es = "executions_of s i"
  have not: "ex_attempt e \<noteq> max_attempt ?es" if "e \<in> set ?es" for e
    using none that by (auto simp: latest_execution_def find_eq_None_iff)
  have "max_attempt ?es \<noteq> 0 \<Longrightarrow> max_attempt ?es \<in> ex_attempt ` set ?es"
    using foldl_max_in [of 0 "map ex_attempt ?es"] by (auto simp: max_attempt_def)
  with not have z: "max_attempt ?es = 0" by force
  from some obtain e where e: "e \<in> set ?es" by (cases ?es) auto
  have "ex_attempt e \<le> max_attempt ?es"
    using foldl_max_ge [of "ex_attempt e" "map ex_attempt ?es" 0] e by (simp add: max_attempt_def)
  with z not [OF e] show False by simp
qed

text \<open>
  The bound: what was there, one, two for a stage of \<open>B\<close>, which a site has blocked, or the limit of its
  repairs.
\<close>

definition attempt_bound :: "string set \<Rightarrow> ResolvedPipelineDag \<Rightarrow> run_store \<Rightarrow> string \<Rightarrow> int" where
  "attempt_bound B dag s i = max (int (attempts_of s i)) (max (if i \<in> B then 2 else 1) (or_else (repair_limit dag i) 0))"

definition bounded :: "string set \<Rightarrow> ResolvedPipelineDag \<Rightarrow> run_store \<Rightarrow> scheduler \<Rightarrow> bool" where
  "bounded B dag s w \<longleftrightarrow> forward_only dag \<and> sd_dag w = dag \<and> sd_retry_roots w = None \<and>
     (\<forall>k. int (attempts_of (sd_store w) k) \<le> attempt_bound B dag s k)"

lemma bounded_attempt:
  assumes w: "bounded B dag s w" and less: "int (attempts_of (sd_store w) i) < attempt_bound B dag s i"
  shows "bounded B dag s (w\<lparr>sd_store := snd (createStageExecution i (sd_store w))\<rparr>)"
    "keeps (bounded B dag s) (via_store (\<lambda>w. rebindRouteAttempts m (sd_feedback w)))"
  using w less
  by (auto simp: bounded_def attempts_create attempts_undisturbed intro!: keeps_store gentle)

lemma bounded_next:
  assumes w: "bounded B dag s w" and less: "int (attempts_of (sd_store w) i) < attempt_bound B dag s i"
  shows "bounded B dag s (snd (startNextAttempt i w))"
proof -
  let ?w = "w\<lparr>sd_store := snd (createStageExecution i (sd_store w))\<rparr>"
  have rest: "keeps (bounded B dag s) (chain (change (\<lambda>w. w\<lparr>sd_retry_roots := map_option (\<lambda>rs. jset rs i n) (sd_retry_roots w)\<rparr>)) (\<lambda>_.
     chain (provided replaying
       (chain (via_store (\<lambda>w. rebindRouteAttempts [(i, n)] (sd_feedback w))) (\<lambda>fb.
        change (\<lambda>w. w\<lparr>sd_feedback := fb\<rparr>)))) (\<lambda>_.
     change (\<lambda>w. (set_stage i Pending w)\<lparr>sd_envelopes := jdel (sd_envelopes w) i\<rparr>))))" for n
    by (intro keeps keeps_change bounded_attempt(2) [OF w less]) (auto simp: bounded_def set_stage_def)
  from keepsD [OF rest bounded_attempt(1) [OF w less]] show ?thesis
    by (simp add: startNextAttempt_def chain_via createStageExecution_def Let_def)
qed

lemma bounded_laws: "handler_invariant (\<lambda>i w. (sw \<longrightarrow> i \<in> B) \<and> bounded B dag s w) sw"
proof unfold_locales
  fix i w limit assume w: "(sw \<longrightarrow> i \<in> B) \<and> bounded B dag s w" "repair_limit (sd_dag w) i = Some limit"
    "int (length (executions_of (sd_store w) i)) < limit"
  then have "bounded B dag s (snd (startNextAttempt i w))"
    by (intro bounded_next) (auto simp: attempt_bound_def attempts_of_def bounded_def or_else_def)
  with w show "(sw \<longrightarrow> i \<in> B) \<and> bounded B dag s (snd (startNextAttempt i w))" by simp
next
  fix i w assume w: sw "(sw \<longrightarrow> i \<in> B) \<and> bounded B dag s w" "length (executions_of (sd_store w) i) < blocked_stage_max_attempts"
  then have "bounded B dag s (snd (startNextAttempt i w))"
    by (intro bounded_next) (auto simp: attempt_bound_def attempts_of_def blocked_stage_max_attempts_def)
  with w show "(sw \<longrightarrow> i \<in> B) \<and> bounded B dag s (snd (startNextAttempt i w))" by simp
next
  fix i w assume w: "(sw \<longrightarrow> i \<in> B) \<and> bounded B dag s w" "sd_retry_roots w \<noteq> None \<or> latest_execution (sd_store w) i = None"
  then have "executions_of (sd_store w) i = []" using latest_None by (auto simp: bounded_def)
  with w(1) have "bounded B dag s (w\<lparr>sd_store := snd (createStageExecution i (sd_store w))\<rparr>)"
    by (intro bounded_attempt) (auto simp: attempt_bound_def attempts_of_def)
  with w show "(sw \<longrightarrow> i \<in> B) \<and> bounded B dag s (w\<lparr>sd_store := snd (createStageExecution i (sd_store w))\<rparr>)" by simp
qed (auto simp: bounded_def attempts_undisturbed set_stage_def drain_idle forward_only_mint dest: forward_only_node)

text \<open>Any handler keeps the bound unless a site has blocked its stage, and then too if the stage is in \<open>B\<close>.\<close>

interpretation bounded: handler_invariant "\<lambda>i. bounded B dag s" False for B dag s
  using bounded_laws [of False] by simp

interpretation switched: handler_invariant "\<lambda>i w. i \<in> B \<and> bounded B dag s w" True for B dag s
  using bounded_laws [of True] by simp

lemma bounded_finish:
  assumes "switch_of r \<longrightarrow> i \<in> B"
  shows "keeps (bounded B dag s) (finishStage cfg i n r)"
proof (cases "switch_of r")
  case True
  from switched.keeps_finish [of r i B dag s cfg n] True assms show ?thesis by (simp add: keeps_def)
qed (intro bounded.keeps_finish; simp)

lemma bounded_updates [simp]:
  "bounded B dag s (w\<lparr>sd_control := c\<rparr>) = bounded B dag s w" "bounded B dag s (w\<lparr>sd_active := k\<rparr>) = bounded B dag s w"
  "bounded B dag s (w\<lparr>sd_in_flight := es\<rparr>) = bounded B dag s w" "bounded B dag s (w\<lparr>sd_launched := l\<rparr>) = bounded B dag s w"
  "bounded B dag s (w\<lparr>sd_halted := b\<rparr>) = bounded B dag s w" "bounded B dag s (set_stage i st w) = bounded B dag s w"
  by (simp_all add: bounded_def set_stage_def)

definition airborne :: "scheduler \<Rightarrow> bool" where
  "airborne w \<longleftrightarrow> (\<forall>e\<in>set (sd_in_flight w). \<not> is_parked (snd e))"

lemma bounded_handler:
  assumes "bounded B dag s w'" "sd_in_flight w' = sd_in_flight w" "airborne w" "m w = (r, w')"
    and "\<And>f. r = Inr (Some f) \<Longrightarrow> \<not> is_parked f"
  shows "bounded B dag s (run_handler e m w) \<and> airborne (run_handler e m w)"
proof -
  have still: "\<forall>e\<in>set (remove1 e (sd_in_flight w)). \<not> is_parked (snd e)"
    using assms(3) by (auto simp: airborne_def dest: set_remove1_in)
  show ?thesis
  proof (cases r)
    case (Inr x)
    with assms still show ?thesis by (cases x) (auto simp: run_handler_def land_def airborne_def)
  qed (use assms still in \<open>simp add: run_handler_def land_def airborne_def\<close>)
qed

lemma bounded_start_stages: "bounded B dag s w \<and> airborne w \<Longrightarrow>
    bounded B dag s (start_stages cap ids w) \<and> airborne (start_stages cap ids w)"
proof (induction ids arbitrary: w)
  case (Cons i ids)
  have "bounded B dag s (startStage i w) \<and> airborne (startStage i w)"
    using Cons.prems by (auto simp: startStage_def airborne_def is_parked_def set_stage_def bounded_def)
  with Cons show ?case by simp
qed simp

lemma bounded_skip_rest: "bounded B dag s w \<Longrightarrow> bounded B dag s (skip_rest w)"
  unfolding skip_rest_def by (rule keepsD [OF bounded.keeps_skip_silently]) (intro skips)

lemma bounded_round: "bounded B dag s w \<and> airborne w \<Longrightarrow> bounded B dag s (loop_round cfg w) \<and> airborne (loop_round cfg w)"
proof -
  assume w: "bounded B dag s w \<and> airborne w"
  obtain r w1 where settle: "settle_round w = (r, w1)" by fastforce
  have "keeps (bounded B dag s) settle_round"
    unfolding settle_round_def
    by (intro keeps keeps_change bounded.keeps_skip_and_log skips bounded.drain) (simp add: obey_halt_def)
  from keeps_run [OF this _ settle] frame_settle [OF settle] w have w1: "bounded B dag s w1 \<and> airborne w1"
    by (simp add: airborne_def frame_def)
  then have "bounded B dag s (obey_halt w1) \<and> airborne (obey_halt w1)" by (simp add: obey_halt_def airborne_def)
  from bounded_start_stages [OF this] this
  have "bounded B dag s (start_some cfg w1) \<and> airborne (start_some cfg w1)" by (simp add: start_some_def Let_def)
  moreover have "bounded B dag s v \<and> airborne v \<Longrightarrow> bounded B dag s (after_tick v) \<and> airborne (after_tick v)" for v
    using bounded_skip_rest [of B dag s v] frame_after_tick [of v] by (auto simp: after_tick_def airborne_def)
  ultimately show ?thesis using w w1 settle by (cases r) (simp_all add: loop_round_cases airborne_def)
qed

lemma attempts_status:
  "attempts_of (snd (updateRunStatus st s)) i = attempts_of s i"
  "attempts_of (snd (writeTerminalRunStatus st s)) i = attempts_of s i"
  "attempts_of (snd (syncRunStatusFromStages s)) i = attempts_of s i"
  by (auto simp: updateRunStatus_def applyRunStatusUpdate_def writeTerminalRunStatus_def syncRunStatusFromStages_def
      act andThen_def attempts_of_def executions_of_def)

lemma bounded_conclude: "bounded B dag s w \<Longrightarrow> conclude w = (r, w') \<Longrightarrow> bounded B dag s w'"
proof -
  have store: "keeps (bounded B dag s) (via_store (\<lambda>_. m))"
    if "\<And>s i. attempts_of (snd (m s)) i = attempts_of s i" for m :: "unit action"
  proof (rule keepsI)
    fix w assume w: "bounded B dag s w"
    obtain r s' where run: "m (sd_store w) = (r, s')" by fastforce
    with that [of "sd_store w"] have "attempts_of s' i = attempts_of (sd_store w) i" for i by simp
    with w run show "bounded B dag s (snd (via_store (\<lambda>_. m) w))" by (cases r) (simp_all add: via_store_def bounded_def)
  qed
  have "keeps (bounded B dag s) conclude" by (intro keeps_conclude bounded_skip_rest store attempts_status)
  then show "bounded B dag s w \<Longrightarrow> conclude w = (r, w') \<Longrightarrow> bounded B dag s w'" using keeps_run by blast
qed

lemma bounded_profiles:
  "keeps (bounded B dag s) (profileBusy i n r)" "keeps (bounded B dag s) (profileJoined i n r)"
  "keeps (bounded B dag s) (profileHalted i r)" "keeps (\<lambda>v. sd_in_flight v = es) (profileBusy i n r)"
  "keeps (\<lambda>v. sd_in_flight v = es) (profileJoined i n r)" "keeps (\<lambda>v. sd_in_flight v = es) (profileHalted i r)"
proof -
  have store: "keeps (\<lambda>v. sd_in_flight v = es) (via_store m)" for m :: "scheduler \<Rightarrow> unit action"
    by (auto simp: keeps_def via_store_def split: prod.split sum.split)
  show "keeps (bounded B dag s) (profileBusy i n r)" "keeps (bounded B dag s) (profileJoined i n r)"
    "keeps (bounded B dag s) (profileHalted i r)"
    unfolding profileBusy_def profileJoined_def profileHalted_def
    by (intro keeps keeps_change bounded.keeps_event bounded.keeps_begin; simp add: shift_active_def)+
  show "keeps (\<lambda>v. sd_in_flight v = es) (profileBusy i n r)" "keeps (\<lambda>v. sd_in_flight v = es) (profileJoined i n r)"
    "keeps (\<lambda>v. sd_in_flight v = es) (profileHalted i r)"
    unfolding profileBusy_def profileJoined_def profileHalted_def log_event_def begin_attempt_def
    by (intro keeps keeps_change store; simp add: shift_active_def set_stage_def)+
qed

lemma bounded_move:
  assumes w: "bounded B dag s w \<and> airborne w" and m: "enabled w m"
    and site: "\<forall>i n r. m = Finish i n r \<and> switch_of r \<longrightarrow> i \<in> B"
  shows "bounded B dag s (perform cfg m w) \<and> airborne (perform cfg m w)"
proof -
  have fwd: "forward_only (sd_dag w)" using w by (simp add: bounded_def)
  have handled: "bounded B dag s (run_handler e k w) \<and> airborne (run_handler e k w)"
    if k: "keeps (bounded B dag s) k" "keeps (\<lambda>v. sd_in_flight v = sd_in_flight w) k"
      and out: "\<And>f w'. k w = (Inr (Some f), w') \<Longrightarrow> \<not> is_parked f" for e k
  proof -
    obtain r w' where run: "k w = (r, w')" by fastforce
    from keeps_run [OF k(1) conjunct1 [OF w] run] keeps_run [OF k(2) refl run] show ?thesis
      using bounded_handler [of B dag s w' w k r e] w run out by auto
  qed
  have flying: "outputs Q k \<Longrightarrow> (\<And>f. Q f \<Longrightarrow> \<not> is_parked f) \<Longrightarrow> k w = (Inr (Some f), w') \<Longrightarrow> \<not> is_parked f" for Q k f w'
    using outputsD by blast
  have frame: "(\<And>c. keeps (\<lambda>v. frame v = c) k) \<Longrightarrow> keeps (\<lambda>v. sd_in_flight v = sd_in_flight w) k" for k :: "flight option step"
  proof (rule keepsI)
    fix v :: scheduler assume k: "\<And>c. keeps (\<lambda>v. frame v = c) k" and v: "sd_in_flight v = sd_in_flight w"
    from keepsD [OF k refl, of v] v show "sd_in_flight (snd (k v)) = sd_in_flight w" by (simp add: frame_def)
  qed
  show ?thesis
  proof (cases m)
    case (Launch i)
    have "\<not> is_parked f" if "launchStage cfg i w = (Inr (Some f), w')" for f w'
      using outputsD [OF outputs_launch that] by (auto simp: is_parked_def)
    from handled [OF bounded.keeps_launch frame [OF bystander.keeps_launch] this] Launch show ?thesis by simp
  next
    case (ProfileBusy i n r)
    have "outputs (\<lambda>f. \<not> is_parked f) (profileBusy i n r)"
      unfolding profileBusy_def by (intro outputs) (simp add: is_parked_def)
    from handled [OF bounded_profiles(1,4) outputsD [OF this]] ProfileBusy show ?thesis by simp
  next
    case (ProfileJoined i n r)
    have "outputs (\<lambda>f. \<not> is_parked f) (profileJoined i n r)"
      unfolding profileJoined_def by (intro outputs) (simp add: is_parked_def)
    from handled [OF bounded_profiles(2,5) outputsD [OF this]] ProfileJoined show ?thesis by simp
  next
    case (ProfileHalted i n r)
    have "outputs (\<lambda>f. \<not> is_parked f) (profileHalted i r)" unfolding profileHalted_def by (intro outputs)
    from handled [OF bounded_profiles(3,6) outputsD [OF this]] ProfileHalted show ?thesis by simp
  next
    case (Finish i n r)
    have "\<not> is_parked f" if "finishStage cfg i n r w = (Inr (Some f), w')" for f w'
      using finish_never_parks [OF fwd] that by blast
    moreover have "keeps (bounded B dag s) (finishStage cfg i n r)" by (rule bounded_finish) (use site Finish in blast)
    moreover have "keeps (\<lambda>v. sd_in_flight v = sd_in_flight w) (finishStage cfg i n r)"
      by (rule frame, rule bystander.keeps_finish) simp
    ultimately show ?thesis using handled Finish by simp
  next
    case Conclude
    obtain r w' where run: "conclude w = (r, w')" by fastforce
    with bounded_conclude [of B dag s w r w'] conclude_frame [OF run] w Conclude show ?thesis
      by (cases r) (auto simp: end_run_def airborne_def frame_def)
  qed (use bounded_round [OF w] w m in \<open>auto simp: bounded_def airborne_def is_parked_def\<close>)
qed

text \<open>
  C5: in a run without retries, clones and feedback loops no stage gets more attempts than the largest of
  what it had when the run began, the one it needs, two if the browser host moved its profile because a site
  blocked it, and the limit of its automatic repairs: however often it fails and whatever order the moves
  come in.
\<close>

theorem attempts_bounded:
  assumes "start_run cfg opts fallback s = Inr w0" "op_retry_roots opts = None" "forward_only (sd_dag w0)"
    and "trace cfg ms w0 = Some w"
  shows "int (length (executions_of (sd_store w) i)) \<le>
     max (int (length (executions_of (sd_store w0) i)))
       (max (if \<exists>n r. Finish i n r \<in> set ms \<and> switch_of r then 2 else 1) (or_else (repair_limit (sd_dag w0) i) 0))"
proof -
  let ?B = "{i. \<exists>n r. Finish i n r \<in> set ms \<and> switch_of r}"
  have step: "bounded B dag s v \<and> airborne v \<Longrightarrow> trace cfg ms v = Some w \<Longrightarrow>
      \<forall>i n r. Finish i n r \<in> set ms \<and> switch_of r \<longrightarrow> i \<in> B \<Longrightarrow> bounded B dag s w" for B dag s ms v
  proof (induction ms arbitrary: v)
    case (Cons m ms)
    then have "bounded B dag s (perform cfg m v) \<and> airborne (perform cfg m v)"
      by (intro bounded_move) (auto split: if_splits)
    from Cons.IH [OF this] Cons.prems(2,3) show ?case by (auto split: if_splits)
  qed simp
  have "bounded ?B (sd_dag w0) (sd_store w0) w0 \<and> airborne w0"
    using start_frame [OF assms(1)] start_no_retry [OF assms(1,2)] assms(3)
    by (simp add: bounded_def airborne_def attempt_bound_def)
  from step [OF this assms(4)] show ?thesis by (simp add: bounded_def attempt_bound_def attempts_of_def)
qed

text \<open>A stage that a site blocks gets a second attempt, one that fails otherwise does not.\<close>

theorem attempts_bounded_witness:
  "\<exists>w. trace plain_config [Round, Launch ''a'', Finish ''a'' 1 (RanFailed None None True), Round, Launch ''a'',
       Finish ''a'' 2 (RanFailed None None True)] chain_start = Some w \<and>
     length (executions_of (sd_store w) ''a'') = 2 \<and> length (executions_of (sd_store w) ''b'') \<le> 1"
proof -
  let ?ms = "[Round, Launch ''a'', Finish ''a'' 1 (RanFailed None None True), Round, Launch ''a'',
    Finish ''a'' 2 (RanFailed None None True)]"
  have start: "start_run plain_config plain_options chain_sample blank_store = Inr chain_start" by code_simp
  have retry: "op_retry_roots plain_options = None" by (simp add: plain_options_def)
  have dag: "forward_only (sd_dag chain_start)" by code_simp
  have "map_option (\<lambda>w. length (executions_of (sd_store w) ''a'')) (trace plain_config ?ms chain_start) = Some 2"
    by code_simp
  then obtain w where run: "trace plain_config ?ms chain_start = Some w" "length (executions_of (sd_store w) ''a'') = 2"
    by auto
  have none: "length (executions_of (sd_store chain_start) ''b'') = 0" "repair_limit (sd_dag chain_start) ''b'' = None"
    by code_simp+
  from attempts_bounded [OF start retry dag run(1), of "''b''"] run none show ?thesis by (simp add: or_else_def)
qed

section \<open>The result of a run\<close>

lemma skip_pending_get: "jget (fst (skip_pending j r)) k = (if k = j \<and> jget (fst r) k = Some Pending then Some Skipped else jget (fst r) k)"
  by (cases r) (auto simp: skip_pending_def)

lemma markSkippedPending_none: "n \<in> set (nodes dag) \<Longrightarrow> jget (fst (markSkippedPending dag r)) (node_id n) \<noteq> Some Pending"
proof -
  have keep: "jget (fst r) k \<noteq> Some Pending \<Longrightarrow> jget (fst (foldl (\<lambda>r n. skip_pending (node_id n) r) r ns)) k \<noteq> Some Pending"
    for k ns r by (induction ns arbitrary: r) (simp_all add: skip_pending_get)
  have "n \<in> set ns \<Longrightarrow> jget (fst (foldl (\<lambda>r n. skip_pending (node_id n) r) r ns)) (node_id n) \<noteq> Some Pending" for ns r
  proof (induction ns arbitrary: r)
    case (Cons a ns)
    show ?case
    proof (cases "n = a")
      case True
      have "jget (fst (skip_pending (node_id a) r)) (node_id n) \<noteq> Some Pending" by (simp add: skip_pending_get True)
      from keep [OF this] show ?thesis by simp
    qed (use Cons.prems Cons.IH [of "skip_pending (node_id a) r"] in simp)
  qed simp
  then show "n \<in> set (nodes dag) \<Longrightarrow> ?thesis" by (simp add: markSkippedPending_def)
qed

text \<open>What the result says of the schedule and of the stored status.\<close>

definition result_ok :: "PipelineRunResult \<Rightarrow> scheduler \<Rightarrow> bool" where
  "result_ok r w \<longleftrightarrow> (case r of
     ResSucceeded \<Rightarrow> \<not> sd_halted w \<and> allTerminal (sd_dag w) (sd_states w) \<and>
       \<not> scheduleHasUnhandledFailure (sd_dag w) (sd_states w) \<and> rs_status (sd_store w) \<in> {RunSucceeded, RunCancelled}
   | ResFailed _ \<Rightarrow>
       (sd_halted w \<and> (\<forall>n\<in>set (nodes (sd_dag w)). jget (sd_states w) (node_id n) \<noteq> Some Pending) \<or>
        scheduleHasUnhandledFailure (sd_dag w) (sd_states w) \<or> \<not> allTerminal (sd_dag w) (sd_states w)) \<and>
       (\<not> retrying w \<longrightarrow> rs_status (sd_store w) \<in> {RunFailed, RunCancelled})
   | ResWaiting _ \<Rightarrow> \<not> sd_halted w \<and> has_waiting (sd_states w) \<or> sd_halted w \<and> sd_host_shutdown w)"

lemma conclude_ok: "conclude w = (Inr r, w') \<Longrightarrow> result_ok r w'"
proof -
  assume run: "conclude w = (Inr r, w')"
  let ?w = "skip_rest w"
  obtain r1 s1 where one: "writeTerminalRunStatus RunFailed (sd_store ?w) = (r1, s1)" by fastforce
  obtain r2 s2 where two: "writeTerminalRunStatus RunFailed (sd_store w) = (r2, s2)" by fastforce
  obtain r3 s3 where three: "writeTerminalRunStatus RunSucceeded (sd_store w) = (r3, s3)" by fastforce
  obtain r4 s4 where four: "syncRunStatusFromStages (sd_store ?w) = (r4, s4)" by fastforce
  have pend: "\<forall>n\<in>set (nodes (sd_dag w)). jget (sd_states ?w) (node_id n) \<noteq> Some Pending"
    by (simp add: skip_rest_kept markSkippedPending_none)
  consider "has_waiting (sd_states w)" "\<not> sd_halted w" | "sd_halted w"
    | "\<not> has_waiting (sd_states w)" "\<not> sd_halted w" by blast
  then show ?thesis
  proof cases
    case 1
    with run show ?thesis by (auto simp: conclude_def result_ok_def)
  next
    case 2
    with run pend terminal_status [OF one] one four show ?thesis
      by (cases r4) (auto simp: conclude_def chain_def change_def provided_def via_store_def look_def result_ok_def
          retrying_def skip_rest_kept split: if_splits)
  next
    case 3
    with run terminal_status [OF two] terminal_status [OF three] two three show ?thesis
      by (auto simp: conclude_def chain_def provided_def via_store_def look_def done_with_def result_ok_def
          retrying_def split: if_splits)
  qed
qed

lemma result_ok_control [simp]: "result_ok r (w\<lparr>sd_control := c\<rparr>) = result_ok r w"
  by (cases r) (simp_all add: result_ok_def retrying_def)

lemma handler_never_ends:
  "m w = (r, w') \<Longrightarrow> sd_control w' = sd_control w \<Longrightarrow> sd_control w \<noteq> Ended x \<Longrightarrow> sd_control (run_handler e m w) \<noteq> Ended x"
  by (cases r) (auto simp: run_handler_def land_def split: option.split)

lemma started_control: "sd_control (start_stages cap ids w) = sd_control w"
  by (induction ids arbitrary: w) (simp_all add: startStage_def set_stage_def)

lemma round_never_ends: "sd_control w \<noteq> Ended x \<Longrightarrow> sd_control (loop_round cfg w) \<noteq> Ended x"
proof -
  assume w: "sd_control w \<noteq> Ended x"
  obtain r w1 where settle: "settle_round w = (r, w1)" by fastforce
  have "sd_control w1 = sd_control w" using frame_settle [OF settle] by (simp add: frame_def)
  then have "sd_control (start_some cfg w1) \<noteq> Ended x" using w
    by (simp add: start_some_def Let_def started_control obey_halt_def)
  then have "sd_control (after_tick (start_some cfg w1)) \<noteq> Ended x" by (simp add: after_tick_def)
  with w settle show ?thesis by (cases r) (simp_all add: loop_round_cases)
qed

lemma move_ends: "enabled w m \<Longrightarrow> sd_control (perform cfg m w) = Ended r \<Longrightarrow> m = Conclude"
proof (rule ccontr)
  assume en: "enabled w m" and ended: "sd_control (perform cfg m w) = Ended r" and other: "m \<noteq> Conclude"
  have w: "sd_control w \<noteq> Ended r" using en other by (cases m) (auto simp: live_def)
  have framed: "(\<And>c. keeps (\<lambda>v. frame v = c) k) \<Longrightarrow> sd_control (run_handler e k w) \<noteq> Ended r" for e k
  proof -
    assume k: "\<And>c. keeps (\<lambda>v. frame v = c) k"
    obtain q w' where run: "k w = (q, w')" by fastforce
    from keeps_run [OF k refl run] have "sd_control w' = sd_control w" by (simp add: frame_def)
    from handler_never_ends [of k w, OF run this w] show ?thesis .
  qed
  have profile: "keeps (\<lambda>v. sd_control v = sd_control w) k \<Longrightarrow> sd_control (run_handler e k w) \<noteq> Ended r" for e k
  proof -
    assume k: "keeps (\<lambda>v. sd_control v = sd_control w) k"
    obtain q w' where run: "k w = (q, w')" by fastforce
    from handler_never_ends [of k w, OF run keeps_run [OF k refl run] w] show ?thesis .
  qed
  have store: "keeps (\<lambda>v. sd_control v = sd_control w) (via_store m)" for m :: "scheduler \<Rightarrow> unit action"
    by (auto simp: keeps_def via_store_def split: prod.split sum.split)
  have profiles: "keeps (\<lambda>v. sd_control v = sd_control w) (profileBusy i n x)"
    "keeps (\<lambda>v. sd_control v = sd_control w) (profileJoined i n x)"
    "keeps (\<lambda>v. sd_control v = sd_control w) (profileHalted i x)" for i n x
    unfolding profileBusy_def profileJoined_def profileHalted_def log_event_def begin_attempt_def
    by (intro keeps keeps_change store; simp add: shift_active_def set_stage_def)+
  have decided: "keeps (\<lambda>v. frame v = c) (succeed_or_fail cfg i (chain (on_decision cfg i l n d) (\<lambda>_. done_with None)))"
    for i l n d c by (intro bystander.keeps_succeed_or_fail keeps keeps_frame_decision)
  show False
    using ended other w round_never_ends [OF w, of cfg] framed [OF bystander.keeps_launch] framed [OF bystander.keeps_finish]
      profile [OF profiles(1)] profile [OF profiles(2)] profile [OF profiles(3)] framed [OF decided]
    by (cases m) auto
qed

text \<open>
  C2: a run that has ended has nothing in flight, and its result is right: a success means that every
  stage is finished, every failure is handled and the stored status is succeeded (or was cancelled);
  a failure means that a halted schedule has skipped whatever was pending, or that a failure is not
  handled or a stage not finished, and outside a retry the stored status is failed (or cancelled);
  waiting means that a stage waits, or that the host shuts down.
\<close>

theorem run_result:
  "reachable cfg opts fallback s w \<Longrightarrow> sd_control w = Ended r \<Longrightarrow>
   sd_in_flight w = [] \<and> sd_active w = 0 \<and>
   (case r of
      ResSucceeded \<Rightarrow> \<not> sd_halted w \<and> allTerminal (sd_dag w) (sd_states w) \<and>
        \<not> scheduleHasUnhandledFailure (sd_dag w) (sd_states w) \<and> rs_status (sd_store w) \<in> {RunSucceeded, RunCancelled}
    | ResFailed _ \<Rightarrow>
        (sd_halted w \<and> (\<forall>n\<in>set (nodes (sd_dag w)). jget (sd_states w) (node_id n) \<noteq> Some Pending) \<or>
         scheduleHasUnhandledFailure (sd_dag w) (sd_states w) \<or> \<not> allTerminal (sd_dag w) (sd_states w)) \<and>
        (\<not> retrying w \<longrightarrow> rs_status (sd_store w) \<in> {RunFailed, RunCancelled})
    | ResWaiting _ \<Rightarrow> \<not> sd_halted w \<and> has_waiting (sd_states w) \<or> sd_halted w \<and> sd_host_shutdown w)"
proof -
  have "reachable cfg opts fallback s w \<Longrightarrow> sd_control w = Ended r \<Longrightarrow>
      sd_in_flight w = [] \<and> sd_active w = 0 \<and> result_ok r w" for w
  proof (induction rule: reachable.induct)
    case (start w)
    then show ?case using start_frame by fastforce
  next
    case (step w w')
    from step.hyps(2) obtain m where m: "enabled w m" "w' = perform cfg m w" by (rule sched_stepE)
    with step.prems move_ends have c: "m = Conclude" by blast
    with m have fly: "sd_in_flight w = []" by simp
    obtain q v where run: "conclude w = (q, v)" by fastforce
    from reachable_slots [OF step.hyps(1)] fly have "sd_active w = 0" by (simp add: slots_ok_def)
    with conclude_frame [OF run] fly have v: "sd_in_flight v = []" "sd_active v = 0" by (simp_all add: frame_def)
    from m c run step.prems have q: "q = Inr r" "w' = v\<lparr>sd_control := Ended r\<rparr>"
      by (cases q; simp add: end_run_def; auto)+
    from conclude_ok [of w r v] run q v show ?case by simp
  qed
  then show "reachable cfg opts fallback s w \<Longrightarrow> sd_control w = Ended r \<Longrightarrow> ?thesis"
    unfolding result_ok_def by blast
qed

definition whole_chain :: "move list" where
  "whole_chain = [Round, Launch ''a'', Finish ''a'' 1 (RanOk None), Round, Launch ''b'', Finish ''b'' 1 (RanOk None),
     Round, Launch ''c'', Finish ''c'' 1 (RanOk None), Round, Conclude]"

theorem run_result_witness:
  "\<exists>w. trace plain_config whole_chain chain_start = Some w \<and> sd_control w = Ended ResSucceeded \<and>
     allTerminal (sd_dag w) (sd_states w) \<and> rs_status (sd_store w) \<in> {RunSucceeded, RunCancelled}"
proof -
  have start: "start_run plain_config plain_options chain_sample blank_store = Inr chain_start" by code_simp
  have "map_option sd_control (trace plain_config whole_chain chain_start) = Some (Ended ResSucceeded)" by code_simp
  then obtain w where run: "trace plain_config whole_chain chain_start = Some w" "sd_control w = Ended ResSucceeded" by auto
  from run_result [OF trace_reachable [OF reachable.start [OF start] run(1)] run(2)] run show ?thesis by simp
qed

section \<open>A failed stage\<close>




















end
