(* ===== verification/Payload_Schema.thy ===== *)
theory Payload_Schema
  imports Pipeline_Route
begin

text \<open>
  Payload schemas (\<open>envelope/payloadSchema.ts\<close>): the compiler of the JSON Schema subset, the
  expansion of references, the test that a producer's schema fits a consumer's, the path of a field
  through a schema, and the assertions on the payload of an envelope.

  The checker of values, \<open>Value.Check\<close> of typebox, is a parameter of the assertions; the locale
  \<open>payload_checker\<close> lists its documented behaviour, which is that of JSON Schema, for the
  schemas the compiler builds.  The regular expressions of JavaScript are parameters as well:
  which strings are patterns, and what they match.  The paths in the messages of errors are left
  out.
\<close>

section \<open>Schema documents\<close>

type_synonym schema_map = "(string, jsval) jsmap"

datatype schema_error =
    SchemaNotObject
  | RefForm
  | RefCycle "string list"
  | RefUnresolved string
  | TypeRequired
  | NullableNotBoolean
  | EnumNotArray
  | EnumItems
  | BoundNotNumber string
  | PatternNotString
  | PatternInvalid
  | LengthBound string
  | LengthOrder
  | ItemsRequired
  | ItemCount string
  | PropertiesNotObject
  | RequiredNotStrings
  | AdditionalNotBoolean
  | UnsupportedType string
  | RootNullable
  | RootNotObject

text \<open>
  \<open>obj[key]\<close> on an object literal also reads the members of \<open>Object.prototype\<close>: functions, which
  are no schema objects, and \<open>__proto__\<close>, an object without a type.
\<close>

definition prop_of :: "jsobj \<Rightarrow> string \<Rightarrow> jsval option" where
  "prop_of kvs k =
     (case jget kvs k of
        Some v \<Rightarrow> Some v
      | None \<Rightarrow> if k = ''__proto__'' then Some (JObj [])
                else if k \<in> set object_prototype_members then Some JNull else None)"

lemma prop_of_inherited: "prop_of kvs k = Some v \<Longrightarrow> jget kvs k = None \<Longrightarrow> k \<in> set object_prototype_members \<and> v \<in> {JNull, JObj []}"
  by (auto simp: prop_of_def object_prototype_members_def split: if_splits)

lemma prop_of_own [simp]: "jget kvs k = Some v \<Longrightarrow> prop_of kvs k = Some v"
  by (simp add: prop_of_def)

definition ref_prefix :: string where
  "ref_prefix = ''#/schemas/''"

definition readSchemaRefName :: "jsval \<Rightarrow> schema_error + string" where
  "readSchemaRefName ref =
     (case ref of
        JStr s \<Rightarrow>
          (case strip_prefix ref_prefix s of
             None \<Rightarrow> Inl RefForm
           | Some name \<Rightarrow> if name = [] \<or> CHR ''/'' \<in> set name then Inl RefForm else Inr name)
      | _ \<Rightarrow> Inl RefForm)"

text \<open>The names a chain of references may still visit.\<close>

definition free_names :: "schema_map \<Rightarrow> string list \<Rightarrow> nat" where
  "free_names schemas stack = card (insert ''__proto__'' (set (jkeys schemas)) - set stack)"

lemma prop_of_object: "prop_of schemas name = Some (JObj t) \<Longrightarrow> name = ''__proto__'' \<or> name \<in> set (jkeys schemas)"
  using jget_SomeD [of schemas name] by (auto simp: prop_of_def simp del: set_map split: option.splits if_splits)

lemma free_names_less:
  assumes "prop_of schemas name = Some (JObj t)" "name \<notin> set stack"
  shows "free_names schemas (stack @ [name]) < free_names schemas stack"
proof -
  let ?names = "insert ''__proto__'' (set (jkeys schemas))"
  have "name \<in> ?names - set stack" using prop_of_object [OF assms(1)] assms(2) by blast
  then have "card (?names - set stack - {name}) < card (?names - set stack)"
    by (intro card_Diff1_less) simp_all
  moreover have "?names - set (stack @ [name]) = ?names - set stack - {name}" by (simp only: set_append list.set) blast
  ultimately show ?thesis by (simp only: free_names_def)
qed

function (sequential) derefSchemaNode ::
  "schema_map \<Rightarrow> string list \<Rightarrow> jsval \<Rightarrow> schema_error + jsobj \<times> string list" where
  "derefSchemaNode schemas stack (JObj raw) =
     (case jget raw ''$ref'' of
        None \<Rightarrow> Inr (raw, stack)
      | Some ref \<Rightarrow>
          (case readSchemaRefName ref of
             Inl e \<Rightarrow> Inl e
           | Inr name \<Rightarrow>
               if name \<in> set stack then Inl (RefCycle (stack @ [name]))
               else (case prop_of schemas name of
                  None \<Rightarrow> Inl (RefUnresolved name)
                | Some (JObj t) \<Rightarrow> derefSchemaNode schemas (stack @ [name]) (JObj t)
                | Some _ \<Rightarrow> Inl SchemaNotObject)))"
| "derefSchemaNode schemas stack _ = Inl SchemaNotObject"
  by pat_completeness auto
termination
  by (relation "measure (\<lambda>(schemas, stack, node). free_names schemas stack)") (auto simp: free_names_less)

declare derefSchemaNode.simps [simp del]

text \<open>One step along a chain of references.\<close>

lemma deref_step:
  "derefSchemaNode schemas stack node = Inr (raw, stack') \<Longrightarrow>
   node = JObj raw \<and> stack' = stack \<and> jget raw ''$ref'' = None \<or>
   (\<exists>obj ref name t. node = JObj obj \<and> jget obj ''$ref'' = Some ref \<and> readSchemaRefName ref = Inr name \<and>
      name \<notin> set stack \<and> prop_of schemas name = Some (JObj t) \<and>
      derefSchemaNode schemas (stack @ [name]) (JObj t) = Inr (raw, stack'))"
proof (cases node)
  case (JObj obj)
  assume "derefSchemaNode schemas stack node = Inr (raw, stack')"
  then show ?thesis using JObj derefSchemaNode.simps(1) [of schemas stack obj]
    by (simp split: option.splits sum.splits if_splits jsval.splits)
qed (simp_all add: derefSchemaNode.simps)

lemma deref_ref:
  "jget obj ''$ref'' = Some ref \<Longrightarrow> readSchemaRefName ref = Inr name \<Longrightarrow> name \<notin> set stack \<Longrightarrow>
   prop_of schemas name = Some (JObj t) \<Longrightarrow>
   derefSchemaNode schemas stack (JObj obj) = derefSchemaNode schemas (stack @ [name]) (JObj t)"
  by (simp add: derefSchemaNode.simps(1) [of schemas stack obj])

lemma deref_here: "jget raw ''$ref'' = None \<Longrightarrow> derefSchemaNode schemas stack (JObj raw) = Inr (raw, stack)"
  by (simp add: derefSchemaNode.simps(1))

lemma deref_cases:
  "derefSchemaNode schemas stack node = Inr (raw, stack') \<Longrightarrow>
   (stack' = stack \<and> node = JObj raw) \<or> free_names schemas stack' < free_names schemas stack"
proof (induction "free_names schemas stack" arbitrary: stack node rule: less_induct)
  case less
  from deref_step [OF less.prems] show ?case
  proof (elim disjE exE conjE)
    fix obj ref name t assume "name \<notin> set stack" "prop_of schemas name = Some (JObj t)"
      "derefSchemaNode schemas (stack @ [name]) (JObj t) = Inr (raw, stack')"
    from free_names_less [OF this(2,1)] less.hyps [OF _ this(3)] show ?thesis by auto
  qed simp
qed

lemma deref_less:
  assumes "derefSchemaNode schemas stack node = Inr (raw, stack')" "jget raw k = Some v"
  shows "free_names schemas stack' < free_names schemas stack \<or>
    free_names schemas stack' = free_names schemas stack \<and> size v < size node"
  using deref_cases [OF assms(1)] size_jget_obj [OF assms(2)] by auto

text \<open>The stack only finds cycles: two chains that end read the same schema.\<close>

lemma deref_stack:
  "derefSchemaNode schemas stack node = Inr (raw, s) \<Longrightarrow> derefSchemaNode schemas stack2 node = Inr (raw2, s2) \<Longrightarrow> raw2 = raw"
proof (induction "free_names schemas stack" arbitrary: stack stack2 node rule: less_induct)
  case less
  from deref_step [OF less.prems(1)] show ?case
  proof (elim disjE exE conjE)
    fix obj ref name t assume n: "node = JObj obj" "jget obj ''$ref'' = Some ref" "readSchemaRefName ref = Inr name"
      "name \<notin> set stack" "prop_of schemas name = Some (JObj t)"
      "derefSchemaNode schemas (stack @ [name]) (JObj t) = Inr (raw, s)"
    from deref_step [OF less.prems(2)] n have "derefSchemaNode schemas (stack2 @ [name]) (JObj t) = Inr (raw2, s2)"
      by auto
    from less.hyps [OF _ n(6) this] free_names_less [OF n(5,4)] show ?thesis by auto
  qed (use deref_step [OF less.prems(2)] in auto)
qed

lemma deref_no_ref: "derefSchemaNode schemas stack node = Inr (raw, s) \<Longrightarrow> jget raw ''$ref'' = None"
proof (induction "free_names schemas stack" arbitrary: stack node rule: less_induct)
  case less
  from deref_step [OF less.prems] less.hyps free_names_less [of schemas _ _ stack] show ?case by blast
qed

section \<open>Keywords\<close>

record string_options =
  so_pattern :: "string option"
  so_min :: "int option"
  so_max :: "int option"

record numeric_options =
  no_min :: "rat option"
  no_max :: "rat option"

text \<open>The calls \<open>Type.String\<close>, \<open>Type.Enum\<close> and so on; a property carries whether it is optional.\<close>

datatype TSchema =
    TString string_options
  | TStringEnum "string list" string_options
  | TNumber numeric_options
  | TInteger numeric_options
  | TIntegerEnum "rat list" numeric_options
  | TBoolean
  | TArray TSchema "int option" "int option"
  | TObject "(string \<times> bool \<times> TSchema) list" bool
  | TNullable TSchema

fun string_of :: "jsval \<Rightarrow> string option" where
  "string_of (JStr s) = Some s"
| "string_of _ = None"

definition integer_value :: "jsval \<Rightarrow> rat option" where
  "integer_value v = map_option of_int (integer_number v)"

fun all_some :: "('a \<Rightarrow> 'b option) \<Rightarrow> 'a list \<Rightarrow> 'b list option" where
  "all_some f [] = Some []"
| "all_some f (x # xs) = (case f x of None \<Rightarrow> None | Some y \<Rightarrow> map_option ((#) y) (all_some f xs))"

definition readEnum :: "(jsval \<Rightarrow> 'a option) \<Rightarrow> jsobj \<Rightarrow> schema_error + 'a list option" where
  "readEnum item raw =
     (case jget raw ''enum'' of
        None \<Rightarrow> Inr None
      | Some (JArr (x # xs)) \<Rightarrow>
          (case all_some item (x # xs) of None \<Rightarrow> Inl EnumItems | Some ys \<Rightarrow> Inr (Some ys))
      | Some _ \<Rightarrow> Inl EnumNotArray)"

definition readBound :: "string \<Rightarrow> jsobj \<Rightarrow> schema_error + rat option" where
  "readBound keyword raw =
     (case jget raw keyword of
        None \<Rightarrow> Inr None
      | Some v \<Rightarrow> (case finite_number v of None \<Rightarrow> Inl (BoundNotNumber keyword) | Some q \<Rightarrow> Inr (Some q)))"

definition numericOptions :: "jsobj \<Rightarrow> schema_error + numeric_options" where
  "numericOptions raw =
     (case readBound ''minimum'' raw of
        Inl e \<Rightarrow> Inl e
      | Inr mn \<Rightarrow> (case readBound ''maximum'' raw of Inl e \<Rightarrow> Inl e | Inr mx \<Rightarrow> Inr \<lparr>no_min = mn, no_max = mx\<rparr>))"

definition readPattern :: "(string \<Rightarrow> bool) \<Rightarrow> jsobj \<Rightarrow> schema_error + string option" where
  "readPattern valid_rx raw =
     (case jget raw ''pattern'' of
        None \<Rightarrow> Inr None
      | Some (JStr p) \<Rightarrow> if valid_rx p then Inr (Some p) else Inl PatternInvalid
      | Some _ \<Rightarrow> Inl PatternNotString)"

text \<open>A count: a non-negative integer.\<close>

definition read_count :: "schema_error \<Rightarrow> string \<Rightarrow> jsobj \<Rightarrow> schema_error + int option" where
  "read_count e keyword raw =
     (case jget raw keyword of
        None \<Rightarrow> Inr None
      | Some v \<Rightarrow> (case integer_number v of None \<Rightarrow> Inl e | Some i \<Rightarrow> if i < 0 then Inl e else Inr (Some i)))"

definition readNonNegativeInt :: "string \<Rightarrow> jsobj \<Rightarrow> schema_error + int option" where
  "readNonNegativeInt keyword = read_count (LengthBound keyword) keyword"

definition stringOptions :: "(string \<Rightarrow> bool) \<Rightarrow> jsobj \<Rightarrow> schema_error + string_options" where
  "stringOptions valid_rx raw =
     (case readPattern valid_rx raw of
        Inl e \<Rightarrow> Inl e
      | Inr p \<Rightarrow>
          (case readNonNegativeInt ''minLength'' raw of
             Inl e \<Rightarrow> Inl e
           | Inr mn \<Rightarrow>
               (case readNonNegativeInt ''maxLength'' raw of
                  Inl e \<Rightarrow> Inl e
                | Inr mx \<Rightarrow>
                    (case (mn, mx) of
                       (Some a, Some b) \<Rightarrow>
                         if a > b then Inl LengthOrder else Inr \<lparr>so_pattern = p, so_min = mn, so_max = mx\<rparr>
                     | _ \<Rightarrow> Inr \<lparr>so_pattern = p, so_min = mn, so_max = mx\<rparr>))))"

definition item_counts :: "jsobj \<Rightarrow> schema_error + int option \<times> int option" where
  "item_counts raw =
     (case read_count (ItemCount ''minItems'') ''minItems'' raw of
        Inl e \<Rightarrow> Inl e
      | Inr mn \<Rightarrow>
          (case read_count (ItemCount ''maxItems'') ''maxItems'' raw of Inl e \<Rightarrow> Inl e | Inr mx \<Rightarrow> Inr (mn, mx)))"

text \<open>The properties, the required keys, and whether other keys are refused; \<open>??\<close> also replaces \<open>null\<close>.\<close>

definition schema_properties :: "jsobj \<Rightarrow> jsobj option" where
  "schema_properties raw =
     (case jget raw ''properties'' of
        None \<Rightarrow> Some [] | Some JNull \<Rightarrow> Some [] | Some (JObj ps) \<Rightarrow> Some ps | Some _ \<Rightarrow> None)"

definition schema_required :: "jsobj \<Rightarrow> string list option" where
  "schema_required raw =
     (case jget raw ''required'' of
        None \<Rightarrow> Some [] | Some JNull \<Rightarrow> Some [] | Some (JArr ks) \<Rightarrow> all_some string_of ks | Some _ \<Rightarrow> None)"

definition schema_shut :: "jsobj \<Rightarrow> bool option" where
  "schema_shut raw =
     (case jget raw ''additionalProperties'' of
        None \<Rightarrow> Some False | Some (JBool b) \<Rightarrow> Some (\<not> b) | Some _ \<Rightarrow> None)"

definition object_fields :: "jsobj \<Rightarrow> schema_error + jsobj \<times> string list \<times> bool" where
  "object_fields raw =
     (case schema_properties raw of
        None \<Rightarrow> Inl PropertiesNotObject
      | Some props \<Rightarrow>
          (case schema_required raw of
             None \<Rightarrow> Inl RequiredNotStrings
           | Some req \<Rightarrow>
               (case schema_shut raw of None \<Rightarrow> Inl AdditionalNotBoolean | Some shut \<Rightarrow> Inr (props, req, shut))))"

lemma object_fields_iff:
  "object_fields raw = Inr (props, req, shut) \<longleftrightarrow>
   schema_properties raw = Some props \<and> schema_required raw = Some req \<and> schema_shut raw = Some shut"
  by (simp add: object_fields_def split: option.split)

lemma object_fields_props: "object_fields raw = Inr (props, r) \<Longrightarrow> props = [] \<or> jget raw ''properties'' = Some (JObj props)"
  by (cases r) (auto simp: object_fields_iff schema_properties_def split: option.splits jsval.splits)

section \<open>The compiler\<close>

definition compile_string :: "(string \<Rightarrow> bool) \<Rightarrow> jsobj \<Rightarrow> schema_error + TSchema" where
  "compile_string valid_rx raw =
     (case readEnum string_of raw of
        Inl e \<Rightarrow> Inl e
      | Inr en \<Rightarrow>
          (case stringOptions valid_rx raw of
             Inl e \<Rightarrow> Inl e
           | Inr so \<Rightarrow> Inr (case en of None \<Rightarrow> TString so | Some xs \<Rightarrow> TStringEnum xs so)))"

definition compile_number :: "jsobj \<Rightarrow> schema_error + TSchema" where
  "compile_number raw = (case numericOptions raw of Inl e \<Rightarrow> Inl e | Inr no \<Rightarrow> Inr (TNumber no))"

definition compile_integer :: "jsobj \<Rightarrow> schema_error + TSchema" where
  "compile_integer raw =
     (case readEnum integer_value raw of
        Inl e \<Rightarrow> Inl e
      | Inr en \<Rightarrow>
          (case numericOptions raw of
             Inl e \<Rightarrow> Inl e
           | Inr no \<Rightarrow> Inr (case en of None \<Rightarrow> TInteger no | Some xs \<Rightarrow> TIntegerEnum xs no)))"

definition nullable :: "jsobj \<Rightarrow> bool" where
  "nullable raw = (jget raw ''nullable'' = Some (JBool True))"

fun nullable_boolean :: "jsval option \<Rightarrow> bool" where
  "nullable_boolean None = True"
| "nullable_boolean (Some (JBool _)) = True"
| "nullable_boolean (Some _) = False"

definition or_null :: "jsobj \<Rightarrow> TSchema \<Rightarrow> TSchema" where
  "or_null raw t = (if nullable raw then TNullable t else t)"

text \<open>A schema document without its outermost constructor, and the list of its properties.\<close>

definition props_size :: "jsobj \<Rightarrow> nat" where
  "props_size kvs = size (JObj kvs)"

lemma props_size_simps [simp]:
  "Suc (size v) < props_size ((k, v) # kvs)" "props_size kvs < props_size ((k, v) # kvs)" "0 < props_size kvs"
  by (simp_all add: props_size_def)

lemma deref_props_less:
  assumes "derefSchemaNode schemas stack node = Inr (raw, stack')" "object_fields raw = Inr (props, r)" 
  shows "free_names schemas stack' < free_names schemas stack \<or>
    free_names schemas stack' = free_names schemas stack \<and> props_size props < Suc (size node)"
proof -
  from object_fields_props [OF assms(2)] consider "props = []" | "jget raw ''properties'' = Some (JObj props)" by blast
  then show ?thesis
  proof cases
    case 1
    have "0 < size node" if "node = JObj raw" using that by simp
    with deref_cases [OF assms(1)] 1 show ?thesis by (auto simp: props_size_def)
  next
    case 2
    from deref_less [OF assms(1) 2] show ?thesis by (auto simp: props_size_def)
  qed
qed

function compileNode :: "(string \<Rightarrow> bool) \<Rightarrow> schema_map \<Rightarrow> string list \<Rightarrow> jsval \<Rightarrow> schema_error + TSchema"
  and compile_props ::
    "(string \<Rightarrow> bool) \<Rightarrow> schema_map \<Rightarrow> string list \<Rightarrow> string list \<Rightarrow> jsobj \<Rightarrow> schema_error + (string \<times> bool \<times> TSchema) list" where
  "compileNode valid_rx schemas stack node =
     (case derefSchemaNode schemas stack node of
        Inl e \<Rightarrow> Inl e
      | Inr (raw, stack') \<Rightarrow>
          (case jget raw ''type'' of
             Some (JStr ty) \<Rightarrow>
               if \<not> nullable_boolean (jget raw ''nullable'') then Inl NullableNotBoolean
               else map_sum id (or_null raw)
                 (if ty = ''string'' then compile_string valid_rx raw
                  else if ty = ''number'' then compile_number raw
                  else if ty = ''integer'' then compile_integer raw
                  else if ty = ''boolean'' then Inr TBoolean
                  else if ty = ''array'' then
                    (case jget raw ''items'' of
                       None \<Rightarrow> Inl ItemsRequired
                     | Some items \<Rightarrow>
                         (case item_counts raw of
                            Inl e \<Rightarrow> Inl e
                          | Inr (mn, mx) \<Rightarrow>
                              (case compileNode valid_rx schemas stack' items of
                                 Inl e \<Rightarrow> Inl e | Inr t \<Rightarrow> Inr (TArray t mn mx))))
                  else if ty = ''object'' then
                    (case object_fields raw of
                       Inl e \<Rightarrow> Inl e
                     | Inr (props, req, shut) \<Rightarrow>
                         (case compile_props valid_rx schemas stack' req props of
                            Inl e \<Rightarrow> Inl e | Inr ts \<Rightarrow> Inr (TObject ts shut)))
                  else Inl (UnsupportedType ty))
           | _ \<Rightarrow> Inl TypeRequired))"
| "compile_props valid_rx schemas stack req [] = Inr []"
| "compile_props valid_rx schemas stack req ((k, v) # kvs) =
     (case compileNode valid_rx schemas stack v of
        Inl e \<Rightarrow> Inl e
      | Inr t \<Rightarrow>
          (case compile_props valid_rx schemas stack req kvs of
             Inl e \<Rightarrow> Inl e | Inr ts \<Rightarrow> Inr ((k, k \<notin> set req, t) # ts)))"
  by pat_completeness auto

termination
  by (relation "measures [case_sum (\<lambda>(_, schemas, stack, _). free_names schemas stack)
      (\<lambda>(_, schemas, stack, _, _). free_names schemas stack),
      case_sum (\<lambda>(_, _, _, node). Suc (size node)) (\<lambda>(_, _, _, _, kvs). props_size kvs)]")
    (auto dest: deref_less deref_props_less)

declare compileNode.simps [simp del]

end
