(* ===== verification/Payload_Subset.thy ===== *)
theory Payload_Subset
  imports Payload_Schema
begin

text \<open>
  When a producer's schema fits a consumer's (\<open>isPayloadSchemaSubset\<close> of
  \<open>envelope/payloadSchema.ts\<close>), the assertions on payloads, and the checks of a loaded pipeline that
  rest on them (\<open>config/loadPipeline.ts\<close>).  A positive answer is sound for the values up to what the
  test does not look at: the largest length of an array, and the keys an open producer does not
  declare.
\<close>

section \<open>The values of a schema\<close>

definition in_bounds :: "'a::linorder option \<Rightarrow> 'a option \<Rightarrow> 'a \<Rightarrow> bool" where
  "in_bounds mn mx x \<longleftrightarrow> (case mn of None \<Rightarrow> True | Some a \<Rightarrow> a \<le> x) \<and> (case mx of None \<Rightarrow> True | Some b \<Rightarrow> x \<le> b)"

definition string_ok :: "(string \<Rightarrow> string \<Rightarrow> bool) \<Rightarrow> (string \<Rightarrow> nat) \<Rightarrow> string_options \<Rightarrow> string \<Rightarrow> bool" where
  "string_ok rx len so s \<longleftrightarrow> (case so_pattern so of None \<Rightarrow> True | Some p \<Rightarrow> rx p s) \<and>
     in_bounds (so_min so) (so_max so) (int (len s))"

definition number_ok :: "numeric_options \<Rightarrow> rat \<Rightarrow> bool" where
  "number_ok no q \<longleftrightarrow> in_bounds (no_min no) (no_max no) q"

text \<open>
  The interface to typebox: \<open>check t v\<close> is \<open>Value.Check\<close>, \<open>rx p s\<close> that the pattern matches, \<open>len\<close> the
  length of a string.  The laws are the meaning of the keywords in JSON Schema.
\<close>

locale payload_checker =
  fixes rx :: "string \<Rightarrow> string \<Rightarrow> bool" and len :: "string \<Rightarrow> nat" and check :: "TSchema \<Rightarrow> jsval \<Rightarrow> bool"
  assumes check_string: "check (TString so) v \<longleftrightarrow> (\<exists>s. v = JStr s \<and> string_ok rx len so s)"
    and check_string_enum: "check (TStringEnum xs so) v \<longleftrightarrow> (\<exists>s\<in>set xs. v = JStr s \<and> string_ok rx len so s)"
    and check_number: "check (TNumber no) v \<longleftrightarrow> (\<exists>q. v = JNum (Fin q) \<and> number_ok no q)"
    and check_integer: "check (TInteger no) v \<longleftrightarrow> (\<exists>q. v = JNum (Fin q) \<and> of_int \<lfloor>q\<rfloor> = q \<and> number_ok no q)"
    and check_integer_enum: "check (TIntegerEnum qs no) v \<longleftrightarrow> (\<exists>q\<in>set qs. v = JNum (Fin q) \<and> number_ok no q)"
    and check_boolean: "check TBoolean v \<longleftrightarrow> (\<exists>b. v = JBool b)"
    and check_array: "check (TArray t mn mx) v \<longleftrightarrow>
      (\<exists>xs. v = JArr xs \<and> (\<forall>x\<in>set xs. check t x) \<and> in_bounds mn mx (int (length xs)))"
    and check_object: "check (TObject ts shut) v \<longleftrightarrow>
      (\<exists>kvs. v = JObj kvs \<and>
        (\<forall>(k, optional, t)\<in>set ts. case jget kvs k of None \<Rightarrow> optional | Some x \<Rightarrow> check t x) \<and>
        (shut \<longrightarrow> set (jkeys kvs) \<subseteq> fst ` set ts))"
    and check_nullable: "check (TNullable t) v \<longleftrightarrow> v = JNull \<or> check t v"

text \<open>A checker with these laws: the reading of a compiled schema as a set of values.\<close>

lemma size_property [termination_simp]: "(k, b, t) \<in> set ts \<Longrightarrow> size t < Suc (size_list (size_prod f (size_prod g size)) ts)"
  by (induction ts) auto

fun conforms :: "(string \<Rightarrow> string \<Rightarrow> bool) \<Rightarrow> (string \<Rightarrow> nat) \<Rightarrow> TSchema \<Rightarrow> jsval \<Rightarrow> bool" where
  "conforms rx len (TString so) v = (case v of JStr s \<Rightarrow> string_ok rx len so s | _ \<Rightarrow> False)"
| "conforms rx len (TStringEnum xs so) v = (case v of JStr s \<Rightarrow> s \<in> set xs \<and> string_ok rx len so s | _ \<Rightarrow> False)"
| "conforms rx len (TNumber no) v = (case v of JNum (Fin q) \<Rightarrow> number_ok no q | _ \<Rightarrow> False)"
| "conforms rx len (TInteger no) v = (case v of JNum (Fin q) \<Rightarrow> of_int \<lfloor>q\<rfloor> = q \<and> number_ok no q | _ \<Rightarrow> False)"
| "conforms rx len (TIntegerEnum qs no) v = (case v of JNum (Fin q) \<Rightarrow> q \<in> set qs \<and> number_ok no q | _ \<Rightarrow> False)"
| "conforms rx len TBoolean v = (case v of JBool b \<Rightarrow> True | _ \<Rightarrow> False)"
| "conforms rx len (TArray t mn mx) v =
     (case v of JArr xs \<Rightarrow> list_all (conforms rx len t) xs \<and> in_bounds mn mx (int (length xs)) | _ \<Rightarrow> False)"
| "conforms rx len (TObject ts shut) v =
     (case v of
        JObj kvs \<Rightarrow> list_all (\<lambda>(k, optional, t). case jget kvs k of None \<Rightarrow> optional | Some x \<Rightarrow> conforms rx len t x) ts \<and>
          (shut \<longrightarrow> list_all (\<lambda>k. k \<in> set (map fst ts)) (jkeys kvs))
      | _ \<Rightarrow> False)"
| "conforms rx len (TNullable t) v = (v = JNull \<or> conforms rx len t v)"

interpretation conforming: payload_checker rx len "conforms rx len" for rx len
  by unfold_locales
    (auto simp: list_all_iff subset_iff split: jsval.splits jsnum.splits option.splits)

section \<open>The test\<close>

definition typesCompatible :: "string \<Rightarrow> string \<Rightarrow> bool" where
  "typesCompatible consumerType producerType =
     (consumerType = producerType \<or> consumerType = ''number'' \<and> producerType = ''integer'')"

definition readRequiredKeys :: "jsobj \<Rightarrow> string list" where
  "readRequiredKeys raw = 
     (case jget raw ''required'' of
        Some (JArr ks) \<Rightarrow> (case all_some string_of ks of None \<Rightarrow> [] | Some req \<Rightarrow> req)
      | _ \<Rightarrow> [])"

definition readProperties :: "jsobj \<Rightarrow> jsobj" where
  "readProperties raw = (case jget raw ''properties'' of Some (JObj ps) \<Rightarrow> ps | _ \<Rightarrow> [])"

definition readEnumValues :: "jsobj \<Rightarrow> jsval list option" where
  "readEnumValues raw = (case jget raw ''enum'' of Some (JArr (x # xs)) \<Rightarrow> Some (x # xs) | _ \<Rightarrow> None)"

definition enumCompatible :: "jsobj \<Rightarrow> jsobj \<Rightarrow> string \<Rightarrow> bool" where
  "enumCompatible consumer producer ty =
     (if ty \<noteq> ''string'' \<and> ty \<noteq> ''integer'' then True
      else case readEnumValues consumer of
        None \<Rightarrow> True
      | Some allowed \<Rightarrow>
          (case readEnumValues producer of None \<Rightarrow> False | Some xs \<Rightarrow> list_all (\<lambda>x. js_includes allowed x) xs))"

definition patternCompatible :: "jsobj \<Rightarrow> jsobj \<Rightarrow> bool" where
  "patternCompatible consumer producer =
     (case Option.bind (jget consumer ''pattern'') string_of of
        None \<Rightarrow> True
      | Some p \<Rightarrow> Option.bind (jget producer ''pattern'') string_of = Some p)"

definition numericBound :: "string \<Rightarrow> jsobj \<Rightarrow> rat option" where
  "numericBound keyword raw = Option.bind (jget raw keyword) finite_number"

definition minBoundFits :: "string \<Rightarrow> jsobj \<Rightarrow> jsobj \<Rightarrow> bool" where
  "minBoundFits keyword consumer producer =
     (case numericBound keyword consumer of
        None \<Rightarrow> True
      | Some c \<Rightarrow> (case numericBound keyword producer of None \<Rightarrow> False | Some p \<Rightarrow> p \<ge> c))"

definition maxBoundFits :: "string \<Rightarrow> jsobj \<Rightarrow> jsobj \<Rightarrow> bool" where
  "maxBoundFits keyword consumer producer =
     (case numericBound keyword consumer of
        None \<Rightarrow> True
      | Some c \<Rightarrow> (case numericBound keyword producer of None \<Rightarrow> False | Some p \<Rightarrow> p \<le> c))"

definition scalar_fits :: "string \<Rightarrow> jsobj \<Rightarrow> jsobj \<Rightarrow> bool" where
  "scalar_fits ty consumer producer =
     (enumCompatible consumer producer ty \<and>
      (ty = ''string'' \<longrightarrow> patternCompatible consumer producer \<and>
         minBoundFits ''minLength'' consumer producer \<and> maxBoundFits ''maxLength'' consumer producer) \<and>
      (ty = ''number'' \<or> ty = ''integer'' \<longrightarrow>
         minBoundFits ''minimum'' consumer producer \<and> maxBoundFits ''maximum'' consumer producer))"

definition requires_met :: "jsobj \<Rightarrow> jsobj \<Rightarrow> bool" where
  "requires_met consumer producer =
     list_all (\<lambda>k. prop_of (readProperties producer) k \<noteq> None \<and> k \<in> set (readRequiredKeys producer))
       (readRequiredKeys consumer)"

definition extras_met :: "jsobj \<Rightarrow> jsobj \<Rightarrow> bool" where
  "extras_met consumer producer =
     (jget consumer ''additionalProperties'' = Some (JBool False) \<longrightarrow>
      jget producer ''additionalProperties'' = Some (JBool False) \<and>
      list_all (\<lambda>k. prop_of (readProperties consumer) k \<noteq> None) (jkeys (readProperties producer)))"

lemma readProperties_props: "readProperties raw = [] \<or> jget raw ''properties'' = Some (JObj (readProperties raw))"
  by (simp add: readProperties_def split: option.split jsval.split)

lemma deref_properties_less:
  assumes "derefSchemaNode schemas stack node = Inr (raw, stack')"
  shows "free_names schemas stack' < free_names schemas stack \<or>
    free_names schemas stack' = free_names schemas stack \<and> props_size (readProperties raw) < Suc (size node)"
proof -
  from readProperties_props [of raw] show ?thesis
  proof
    assume "readProperties raw = []"
    moreover have "0 < size node" if "node = JObj raw" using that by simp
    ultimately show ?thesis using deref_cases [OF assms] by (auto simp: props_size_def)
  next
    assume "jget raw ''properties'' = Some (JObj (readProperties raw))"
    from deref_less [OF assms this] show ?thesis by (auto simp: props_size_def)
  qed
qed

function isSubsetNode :: "schema_map \<Rightarrow> string list \<Rightarrow> jsval \<Rightarrow> jsval \<Rightarrow> schema_error + bool"
  and subset_props :: "schema_map \<Rightarrow> string list \<Rightarrow> jsobj \<Rightarrow> jsobj \<Rightarrow> schema_error + bool" where
  "isSubsetNode schemas stack consumer producer =
     (case derefSchemaNode schemas stack consumer of
        Inl e \<Rightarrow> Inl e
      | Inr (cn, cstack) \<Rightarrow>
          (case derefSchemaNode schemas stack producer of
             Inl e \<Rightarrow> Inl e
           | Inr (pn, _) \<Rightarrow>
               (case (jget cn ''type'', jget pn ''type'') of
                  (Some (JStr ct), Some (JStr pt)) \<Rightarrow>
                    if \<not> typesCompatible ct pt then Inr False
                    else if nullable pn \<and> \<not> nullable cn then Inr False
                    else if ct = ''array'' then
                      (case (jget cn ''items'', jget pn ''items'') of
                         (Some ci, Some sent) \<Rightarrow>
                           (case isSubsetNode schemas cstack ci sent of
                              Inl e \<Rightarrow> Inl e
                            | Inr b \<Rightarrow> Inr (b \<and> minBoundFits ''minItems'' cn pn))
                       | _ \<Rightarrow> Inr False)
                    else if ct = ''object'' then
                      if \<not> requires_met cn pn then Inr False
                      else (case subset_props schemas cstack (readProperties cn) (readProperties pn) of
                              Inl e \<Rightarrow> Inl e
                            | Inr b \<Rightarrow> Inr (b \<and> extras_met cn pn))
                    else Inr (scalar_fits ct cn pn)
                | _ \<Rightarrow> Inr False)))"
| "subset_props schemas stack [] pp = Inr True"
| "subset_props schemas stack ((k, c) # cs) pp =
     (case prop_of pp k of
        None \<Rightarrow> subset_props schemas stack cs pp
      | Some p \<Rightarrow>
          (case isSubsetNode schemas stack c p of
             Inl e \<Rightarrow> Inl e
           | Inr b \<Rightarrow> if b then subset_props schemas stack cs pp else Inr False))"
  by pat_completeness auto
termination
  by (relation "measures [case_sum (\<lambda>(schemas, stack, _). free_names schemas stack)
      (\<lambda>(schemas, stack, _). free_names schemas stack),
      case_sum (\<lambda>(_, _, node, _). Suc (size node)) (\<lambda>(_, _, kvs, _). props_size kvs)]")
    (auto dest: deref_less [OF _ sym] deref_properties_less)

declare isSubsetNode.simps [simp del]

definition isPayloadSchemaSubset :: "schema_map \<Rightarrow> jsval \<Rightarrow> jsval \<Rightarrow> schema_error + bool" where
  "isPayloadSchemaSubset schemas consumer producer = isSubsetNode schemas [] consumer producer"

definition compilePayloadSchema :: "(string \<Rightarrow> bool) \<Rightarrow> schema_map \<Rightarrow> jsval \<Rightarrow> schema_error + TSchema" where
  "compilePayloadSchema valid_rx schemas raw =
     (case derefSchemaNode schemas [] raw of
        Inl e \<Rightarrow> Inl e
      | Inr (resolved, _) \<Rightarrow>
          if nullable resolved then Inl RootNullable
          else (case compileNode valid_rx schemas [] raw of
             Inl e \<Rightarrow> Inl e
           | Inr t \<Rightarrow> (case t of TObject _ _ \<Rightarrow> Inr t | _ \<Rightarrow> Inl RootNotObject)))"

section \<open>What the compiler accepts\<close>

definition base_of :: "(string \<Rightarrow> bool) \<Rightarrow> schema_map \<Rightarrow> string list \<Rightarrow> jsobj \<Rightarrow> string \<Rightarrow> TSchema \<Rightarrow> bool" where
  "base_of valid_rx schemas stack raw ty b \<longleftrightarrow>
     ty = ''string'' \<and> compile_string valid_rx raw = Inr b \<or>
     ty = ''number'' \<and> compile_number raw = Inr b \<or>
     ty = ''integer'' \<and> compile_integer raw = Inr b \<or>
     ty = ''boolean'' \<and> b = TBoolean \<or>
     ty = ''array'' \<and> (\<exists>items mn mx t. jget raw ''items'' = Some items \<and> item_counts raw = Inr (mn, mx) \<and>
        compileNode valid_rx schemas stack items = Inr t \<and> b = TArray t mn mx) \<or>
     ty = ''object'' \<and> (\<exists>props req shut ts. object_fields raw = Inr (props, req, shut) \<and>
        compile_props valid_rx schemas stack req props = Inr ts \<and> b = TObject ts shut)"

lemma compile_base:
  assumes "compileNode valid_rx schemas stack node = Inr t"
  shows "\<exists>raw stack' ty b. derefSchemaNode schemas stack node = Inr (raw, stack') \<and> jget raw ''type'' = Some (JStr ty) \<and>
     t = or_null raw b \<and> base_of valid_rx schemas stack' raw ty b"
proof -
  note step = assms [unfolded compileNode.simps [of valid_rx schemas stack node]]
  obtain raw stack' where d: "derefSchemaNode schemas stack node = Inr (raw, stack')"
    using step by (cases "derefSchemaNode schemas stack node") auto
  obtain ty where ty: "jget raw ''type'' = Some (JStr ty)"
    using step d by (auto split: option.splits jsval.splits)
  let ?base = "if ty = ''string'' then compile_string valid_rx raw
    else if ty = ''number'' then compile_number raw
    else if ty = ''integer'' then compile_integer raw
    else if ty = ''boolean'' then Inr TBoolean
    else if ty = ''array'' then
      (case jget raw ''items'' of
         None \<Rightarrow> Inl ItemsRequired
       | Some items \<Rightarrow>
           (case item_counts raw of
              Inl e \<Rightarrow> Inl e
            | Inr (mn, mx) \<Rightarrow>
                (case compileNode valid_rx schemas stack' items of Inl e \<Rightarrow> Inl e | Inr t \<Rightarrow> Inr (TArray t mn mx))))
    else if ty = ''object'' then
      (case object_fields raw of
         Inl e \<Rightarrow> Inl e
       | Inr (props, req, shut) \<Rightarrow>
           (case compile_props valid_rx schemas stack' req props of Inl e \<Rightarrow> Inl e | Inr ts \<Rightarrow> Inr (TObject ts shut)))
    else Inl (UnsupportedType ty)"
  obtain b where b: "?base = Inr b" "t = or_null raw b"
    using step d ty by (cases ?base) (simp_all split: if_split_asm)
  from b(1) have "base_of valid_rx schemas stack' raw ty b"
    by (simp add: base_of_def split: if_split_asm option.splits sum.splits prod.splits)
  with d ty b(2) show ?thesis by blast
qed

lemma compile_props_in:
  "compile_props valid_rx schemas stack req kvs = Inr ts \<Longrightarrow> (k, optional, t) \<in> set ts \<Longrightarrow>
   optional = (k \<notin> set req) \<and> (\<exists>v. (k, v) \<in> set kvs \<and> compileNode valid_rx schemas stack v = Inr t)"
proof (induction kvs arbitrary: ts)
  case (Cons kv kvs)
  obtain k' v' where kv: "kv = (k', v')" by fastforce
  with Cons.prems obtain t' ts' where c: "compileNode valid_rx schemas stack v' = Inr t'"
    "compile_props valid_rx schemas stack req kvs = Inr ts'" "ts = (k', k' \<notin> set req, t') # ts'"
    by (auto split: sum.splits)
  show ?case
  proof (cases "(k, optional, t) \<in> set ts'")
    case True
    with Cons.IH [OF c(2)] show ?thesis by auto
  qed (use Cons.prems c kv in auto)
qed simp

lemma compile_props_get:
  "compile_props valid_rx schemas stack req kvs = Inr ts \<Longrightarrow> jget kvs k = Some v \<Longrightarrow>
   \<exists>t. jget ts k = Some (k \<notin> set req, t) \<and> compileNode valid_rx schemas stack v = Inr t"
  by (induction kvs arbitrary: ts) (auto split: sum.splits if_splits)

lemma compile_props_none:
  "compile_props valid_rx schemas stack req kvs = Inr ts \<Longrightarrow> jget kvs k = None \<Longrightarrow> jget ts k = None"
  by (induction kvs arbitrary: ts) (auto split: sum.splits if_splits)

lemma compile_props_keys: "compile_props valid_rx schemas stack req kvs = Inr ts \<Longrightarrow> jkeys ts = jkeys kvs"
  by (induction kvs arbitrary: ts) (auto split: sum.splits)

lemma or_null_base: "base_of valid_rx schemas stack raw ty b \<Longrightarrow> b \<noteq> TNullable t"
  by (auto simp: base_of_def compile_string_def compile_number_def compile_integer_def split: sum.splits option.splits)

section \<open>Scalars\<close>

lemma all_some_set: "all_some f xs = Some ys \<Longrightarrow> (y \<in> set ys \<longleftrightarrow> (\<exists>x\<in>set xs. f x = Some y))"
  by (induction xs arbitrary: ys) (auto split: option.splits)

lemma js_includes_in: "js_includes xs v \<Longrightarrow> v \<in> set xs"
  using same_value_zero_imp_eq by (fastforce simp: js_includes_def list_ex_iff)

lemma readEnum_values:
  "readEnum f raw = Inr (Some ys) \<Longrightarrow> \<exists>xs. readEnumValues raw = Some xs \<and> all_some f xs = Some ys"
  "readEnum f raw = Inr None \<Longrightarrow> readEnumValues raw = None"
  by (auto simp: readEnum_def readEnumValues_def split: option.splits jsval.splits list.splits)

lemma enum_subset:
  assumes "enumCompatible consumer producer ty" "ty = ''string'' \<or> ty = ''integer''"
    and "readEnum f consumer = Inr (Some ys)"
  shows "\<exists>zs. readEnumValues producer \<noteq> None \<and> (readEnum f producer = Inr (Some zs) \<longrightarrow> set zs \<subseteq> set ys)"
    "readEnum f producer = Inr (Some zs) \<Longrightarrow> set zs \<subseteq> set ys"
    "readEnum f producer \<noteq> Inr None"
proof -
  from readEnum_values(1) [OF assms(3)] obtain xs where xs: "readEnumValues consumer = Some xs" "all_some f xs = Some ys" by blast
  with assms(1,2) obtain ps where ps: "readEnumValues producer = Some ps" "list_all (\<lambda>x. js_includes xs x) ps"
    by (auto simp: enumCompatible_def split: option.splits)
  show sub: "set zs \<subseteq> set ys" if "readEnum f producer = Inr (Some zs)" for zs
  proof
    fix z assume "z \<in> set zs"
    with readEnum_values(1) [OF that] ps(1) obtain x where "x \<in> set ps" "f x = Some z"
      using all_some_set [of f ps zs] by auto
    with ps(2) xs(2) show "z \<in> set ys" using js_includes_in all_some_set [OF xs(2)] by (auto simp: list_all_iff)
  qed
  then show "\<exists>zs. readEnumValues producer \<noteq> None \<and> (readEnum f producer = Inr (Some zs) \<longrightarrow> set zs \<subseteq> set ys)"
    using ps by auto
  show "readEnum f producer \<noteq> Inr None" using readEnum_values(2) ps(1) by fastforce
qed

lemma readBound_bound: "readBound k raw = Inr b \<Longrightarrow> numericBound k raw = b"
  by (auto simp: readBound_def numericBound_def split: option.splits)

lemma integer_finite: "integer_number v = Some i \<Longrightarrow> finite_number v = Some (of_int i)"
  by (cases v rule: finite_number.cases) (auto split: if_splits)

lemma read_count_bound: "read_count e k raw = Inr b \<Longrightarrow> numericBound k raw = map_option of_int b"
proof (cases "jget raw k")
  case (Some v)
  assume r: "read_count e k raw = Inr b"
  show ?thesis
  proof (cases "integer_number v")
    case i: (Some i)
    with r Some have "b = Some i" by (simp add: read_count_def split: if_split_asm)
    with Some integer_finite [OF i] show ?thesis by (simp add: numericBound_def)
  qed (use r Some in \<open>simp add: read_count_def\<close>)
qed (simp add: read_count_def numericBound_def)

lemma bounds_fit:
  assumes "minBoundFits mn consumer producer" "maxBoundFits mx consumer producer"
  shows "in_bounds (numericBound mn producer) (numericBound mx producer) q \<Longrightarrow>
    in_bounds (numericBound mn consumer) (numericBound mx consumer) q"
  using assms by (auto simp: minBoundFits_def maxBoundFits_def in_bounds_def split: option.splits)

lemma in_bounds_of_int: "in_bounds (map_option of_int a) (map_option of_int b) (of_int i :: rat) = in_bounds a b i"
  by (simp add: in_bounds_def split: option.split)

lemma string_fits:
  assumes c: "stringOptions valid_rx consumer = Inr sc" and p: "stringOptions valid_rx producer = Inr sp"
    and fits: "scalar_fits ''string'' consumer producer" and ok: "string_ok rx len sp s"
  shows "string_ok rx len sc s"
proof -
  have opts: "so_pattern so = Option.bind (jget raw ''pattern'') string_of \<and>
      numericBound ''minLength'' raw = map_option of_int (so_min so) \<and>
      numericBound ''maxLength'' raw = map_option of_int (so_max so)" if "stringOptions valid_rx raw = Inr so" for raw so
    using that
    by (auto simp: stringOptions_def readPattern_def readNonNegativeInt_def dest!: read_count_bound
        split: sum.splits option.splits if_splits jsval.splits)
  from ok opts [OF p] have bp: "in_bounds (numericBound ''minLength'' producer) (numericBound ''maxLength'' producer) (of_int (int (len s)))"
    by (simp add: string_ok_def in_bounds_of_int del: of_int_of_nat_eq)
  have "in_bounds (numericBound ''minLength'' consumer) (numericBound ''maxLength'' consumer) (of_int (int (len s)))"
    by (rule bounds_fit [OF _ _ bp]) (use fits in \<open>simp_all add: scalar_fits_def\<close>)
  then have "in_bounds (so_min sc) (so_max sc) (int (len s))"
    using opts [OF c] by (simp add: in_bounds_of_int del: of_int_of_nat_eq)
  moreover have "case so_pattern sc of None \<Rightarrow> True | Some q \<Rightarrow> rx q s"
    using fits ok opts [OF c] opts [OF p]
    by (auto simp: scalar_fits_def patternCompatible_def string_ok_def split: option.splits)
  ultimately show ?thesis by (simp add: string_ok_def)
qed

lemma number_fits:
  assumes c: "numericOptions consumer = Inr nc" and p: "numericOptions producer = Inr np"
    and fits: "scalar_fits ty consumer producer" "ty = ''number'' \<or> ty = ''integer''" and ok: "number_ok np q"
  shows "number_ok nc q"
proof -
  have opts: "no_min no = numericBound ''minimum'' raw \<and> no_max no = numericBound ''maximum'' raw"
    if "numericOptions raw = Inr no" for raw no
    using that by (auto simp: numericOptions_def dest!: readBound_bound split: sum.splits)
  show ?thesis using bounds_fit [of "''minimum''" consumer producer "''maximum''" q] fits ok opts [OF c] opts [OF p]
    by (auto simp: number_ok_def scalar_fits_def)
qed

section \<open>Soundness\<close>

text \<open>
  What the test leaves open: an array of the consumer without a largest length, and a property of the
  consumer that the producer declares too, unless the producer refuses undeclared keys; and no
  key of the producer that only \<open>in\<close> finds in the consumer.
\<close>

fun covered :: "TSchema \<Rightarrow> TSchema \<Rightarrow> bool" where
  "covered (TNullable c) p = covered c (case p of TNullable p \<Rightarrow> p | _ \<Rightarrow> p)"
| "covered (TArray c mn mx) p = (case p of TArray p _ _ \<Rightarrow> mx = None \<and> covered c p | _ \<Rightarrow> True)"
| "covered (TObject cs b) p =
     (case p of
        TObject ps shut \<Rightarrow>
          list_all (\<lambda>(k, _, c). case jget ps k of None \<Rightarrow> shut | Some (_, p) \<Rightarrow> covered c p) cs \<and>
          list_all (\<lambda>k. k \<in> set object_prototype_members \<longrightarrow> k \<in> set (jkeys cs)) (jkeys ps)
      | _ \<Rightarrow> True)"
| "covered _ _ = True"

lemma covered_or_null:
  "covered (or_null cn bc) (or_null pn bp) \<Longrightarrow> base_of v1 s1 st1 pn pt bp \<Longrightarrow> nullable pn \<longrightarrow> nullable cn \<Longrightarrow> covered bc bp"
  using or_null_base [of v1 s1 st1 pn pt bp] by (cases bp) (auto simp: or_null_def split: if_splits)

lemma object_fields_read:
  assumes "object_fields raw = Inr (props, req, shut)"
  shows "readProperties raw = props \<and> readRequiredKeys raw = req \<and>
    (shut \<longleftrightarrow> jget raw ''additionalProperties'' = Some (JBool False))"
proof (intro conjI)
  show "readProperties raw = props"
    using assms by (auto simp: object_fields_iff schema_properties_def readProperties_def split: option.splits jsval.splits)
  show "readRequiredKeys raw = req"
    using assms by (auto simp: object_fields_iff schema_required_def readRequiredKeys_def split: option.splits jsval.splits)
  show "shut \<longleftrightarrow> jget raw ''additionalProperties'' = Some (JBool False)"
    using assms by (auto simp: object_fields_iff schema_shut_def split: option.splits jsval.splits)
qed

lemma min_items_fit:
  "minBoundFits ''minItems'' cn pn \<Longrightarrow> item_counts cn = Inr (cmn, cmx) \<Longrightarrow> item_counts pn = Inr (pmn, pmx) \<Longrightarrow>
   cmn = Some c \<Longrightarrow> \<exists>p. pmn = Some p \<and> c \<le> p"
  by (auto simp: item_counts_def minBoundFits_def dest!: read_count_bound split: sum.splits option.splits)

lemma inherited_never_fits:
  assumes "prop_of kvs k = Some u" "jget kvs k = None"
  shows "isSubsetNode schemas stack w u \<noteq> Inr True"
proof -
  have "u = JNull \<or> u = JObj []" using prop_of_inherited [OF assms] by simp
  moreover have "derefSchemaNode schemas stack JNull = Inl SchemaNotObject" by (simp add: derefSchemaNode.simps)
  moreover have "derefSchemaNode schemas stack (JObj []) = Inr ([], stack)" by (rule deref_here) simp
  ultimately show ?thesis
    by (subst isSubsetNode.simps) (auto split: sum.split option.split jsval.split)
qed

context payload_checker
begin

lemma check_or_null: "check (or_null raw b) v \<longleftrightarrow> nullable raw \<and> v = JNull \<or> check b v"
  by (auto simp: or_null_def check_nullable)

lemma string_sound:
  assumes "compile_string valid_rx cn = Inr bc" "compile_string valid_rx pn = Inr bp"
    "scalar_fits ''string'' cn pn" "check bp v"
  shows "check bc v"
proof -
  obtain ec sc where c: "readEnum string_of cn = Inr ec" "stringOptions valid_rx cn = Inr sc"
    "bc = (case ec of None \<Rightarrow> TString sc | Some xs \<Rightarrow> TStringEnum xs sc)"
    using assms(1) by (auto simp: compile_string_def split: sum.splits)
  obtain ep sp where p: "readEnum string_of pn = Inr ep" "stringOptions valid_rx pn = Inr sp"
    "bp = (case ep of None \<Rightarrow> TString sp | Some xs \<Rightarrow> TStringEnum xs sp)"
    using assms(2) by (auto simp: compile_string_def split: sum.splits)
  obtain s where v: "v = JStr s" "string_ok rx len sp s" "\<forall>xs. ep = Some xs \<longrightarrow> s \<in> set xs"
    using assms(4) p(3) by (auto simp: check_string check_string_enum split: option.splits)
  have ok: "string_ok rx len sc s" by (rule string_fits [OF c(2) p(2) assms(3) v(2)])
  have en: "enumCompatible cn pn ''string''" using assms(3) by (simp add: scalar_fits_def)
  show ?thesis
  proof (cases ec)
    case None
    with c(3) v ok show ?thesis by (simp add: check_string)
  next
    case (Some xs)
    from enum_subset(2,3) [OF en _ c(1) [unfolded Some]] p(1) v(3) have "s \<in> set xs" by (cases ep) auto
    with Some c(3) v ok show ?thesis by (simp add: check_string_enum)
  qed
qed

lemma integer_sound:
  assumes "compile_integer cn = Inr bc" "compile_integer pn = Inr bp" "scalar_fits ''integer'' cn pn" "check bp v"
  shows "check bc v"
proof -
  obtain ec nc where c: "readEnum integer_value cn = Inr ec" "numericOptions cn = Inr nc"
    "bc = (case ec of None \<Rightarrow> TInteger nc | Some xs \<Rightarrow> TIntegerEnum xs nc)"
    using assms(1) by (auto simp: compile_integer_def split: sum.splits)
  obtain ep np where p: "readEnum integer_value pn = Inr ep" "numericOptions pn = Inr np"
    "bp = (case ep of None \<Rightarrow> TInteger np | Some xs \<Rightarrow> TIntegerEnum xs np)"
    using assms(2) by (auto simp: compile_integer_def split: sum.splits)
  have whole: "of_int \<lfloor>q\<rfloor> = q" if "ep = Some xs" "q \<in> set xs" for xs and q :: rat
    using readEnum_values(1) [of integer_value pn xs] p(1) that all_some_set [of integer_value _ xs q]
    by (auto simp: integer_value_def)
  obtain q where v: "v = JNum (Fin q)" "of_int \<lfloor>q\<rfloor> = q" "number_ok np q" "\<forall>xs. ep = Some xs \<longrightarrow> q \<in> set xs"
    using assms(4) p(3) whole by (auto simp: check_integer check_integer_enum split: option.splits)
  have ok: "number_ok nc q" by (rule number_fits [OF c(2) p(2) assms(3) _ v(3)]) simp
  have en: "enumCompatible cn pn ''integer''" using assms(3) by (simp add: scalar_fits_def)
  show ?thesis
  proof (cases ec)
    case None
    with c(3) v ok show ?thesis by (simp add: check_integer)
  next
    case (Some xs)
    from enum_subset(2,3) [OF en _ c(1) [unfolded Some]] p(1) v(4) have "q \<in> set xs" by (cases ep) auto
    with Some c(3) v ok show ?thesis by (simp add: check_integer_enum)
  qed
qed

lemma number_sound:
  assumes "compile_number cn = Inr bc" "compile_number pn = Inr bp \<or> compile_integer pn = Inr bp"
    "scalar_fits ''number'' cn pn" "check bp v"
  shows "check bc v"
proof -
  obtain nc where c: "numericOptions cn = Inr nc" "bc = TNumber nc"
    using assms(1) by (auto simp: compile_number_def split: sum.splits)
  obtain np q where p: "numericOptions pn = Inr np" "v = JNum (Fin q)" "number_ok np q"
    using assms(2,4) by (auto simp: compile_number_def compile_integer_def check_number check_integer check_integer_enum
        split: sum.splits option.splits)
  have "number_ok nc q" by (rule number_fits [OF c(1) p(1) assms(3) _ p(3)]) simp
  with c p show ?thesis by (simp add: check_number)
qed

lemma scalar_sound:
  assumes "base_of valid_rx schemas st1 cn ct bc" "base_of valid_rx schemas st2 pn pt bp" "typesCompatible ct pt"
    "ct \<noteq> ''array''" "ct \<noteq> ''object''" "scalar_fits ct cn pn" "check bp v"
  shows "check bc v"
proof -
  have ct: "ct = ''string'' \<and> compile_string valid_rx cn = Inr bc \<or> ct = ''number'' \<and> compile_number cn = Inr bc \<or>
      ct = ''integer'' \<and> compile_integer cn = Inr bc \<or> ct = ''boolean'' \<and> bc = TBoolean"
    using assms(1) [unfolded base_of_def] assms(4,5) by (elim disjE) simp_all
  then show ?thesis
  proof (elim disjE conjE)
    assume c: "ct = ''string''" "compile_string valid_rx cn = Inr bc"
    with assms(3) have "pt = ''string''" by (simp add: typesCompatible_def)
    with assms(2) have "compile_string valid_rx pn = Inr bp" by (simp add: base_of_def)
    from string_sound [OF c(2) this] assms(6,7) c(1) show ?thesis by simp
  next
    assume c: "ct = ''number''" "compile_number cn = Inr bc"
    with assms(3) have "pt = ''number'' \<or> pt = ''integer''" by (auto simp: typesCompatible_def)
    with assms(2) have "compile_number pn = Inr bp \<or> compile_integer pn = Inr bp" by (auto simp: base_of_def)
    from number_sound [OF c(2) this] assms(6,7) c(1) show ?thesis by simp
  next
    assume c: "ct = ''integer''" "compile_integer cn = Inr bc"
    with assms(3) have "pt = ''integer''" by (simp add: typesCompatible_def)
    with assms(2) have "compile_integer pn = Inr bp" by (simp add: base_of_def)
    from integer_sound [OF c(2) this] assms(6,7) c(1) show ?thesis by simp
  next
    assume c: "ct = ''boolean''" "bc = TBoolean"
    with assms(3) have "pt = ''boolean''" by (simp add: typesCompatible_def)
    with assms(2) have "bp = TBoolean" by (simp add: base_of_def)
    with assms(7) c show ?thesis by simp
  qed
qed

lemma object_sound:
  assumes c: "object_fields cn = Inr (cprops, creq, cshut)" "compile_props valid_rx schemas st1 creq cprops = Inr cs"
    and p: "object_fields pn = Inr (pprops, preq, pshut)" "compile_props valid_rx schemas st2 preq pprops = Inr ps"
    and met: "requires_met cn pn" "extras_met cn pn"
    and props: "\<And>k w u tc tp v. (k, w) \<in> set (readProperties cn) \<Longrightarrow> prop_of (readProperties pn) k = Some u \<Longrightarrow>
      compileNode valid_rx schemas st1 w = Inr tc \<Longrightarrow> compileNode valid_rx schemas st2 u = Inr tp \<Longrightarrow> covered tc tp \<Longrightarrow>
      check tp v \<Longrightarrow> check tc v"
    and own: "\<And>k w. (k, w) \<in> set (readProperties cn) \<Longrightarrow> jget (readProperties pn) k = None \<Longrightarrow>
      prop_of (readProperties pn) k = None"
    and cov: "covered (TObject cs cshut) (TObject ps pshut)" and v: "check (TObject ps pshut) v"
  shows "check (TObject cs cshut) v"
proof -
  have fields: "readProperties raw = props \<and> readRequiredKeys raw = req \<and>
      (shut \<longleftrightarrow> jget raw ''additionalProperties'' = Some (JBool False))"
    if "object_fields raw = Inr (props, req, shut)" for raw props req shut
    by (rule object_fields_read [OF that])
  note C = fields [OF c(1)] and P = fields [OF p(1)]
  obtain kvs where v': "v = JObj kvs" "\<And>k optional t. (k, optional, t) \<in> set ps \<Longrightarrow>
      (case jget kvs k of None \<Rightarrow> optional | Some x \<Rightarrow> check t x)" "pshut \<Longrightarrow> set (jkeys kvs) \<subseteq> fst ` set ps"
    using v unfolding check_object by blast
  have "case jget kvs k of None \<Rightarrow> optional | Some x \<Rightarrow> check t x" if kt: "(k, optional, t) \<in> set cs" for k optional t
  proof -
    from compile_props_in [OF c(2) kt] obtain w where w: "optional = (k \<notin> set creq)" "(k, w) \<in> set cprops"
      "compileNode valid_rx schemas st1 w = Inr t" by blast
    show ?thesis
    proof (cases "jget pprops k")
      case (Some u)
      from compile_props_get [OF p(2) Some] obtain tp where tp: "jget ps k = Some (k \<notin> set preq, tp)"
        "compileNode valid_rx schemas st2 u = Inr tp" by blast
      have cov': "covered t tp" using cov kt tp(1) by (auto simp: list_all_iff)
      have "k \<in> set preq" if "k \<in> set creq" using met(1) that C P by (auto simp: requires_met_def list_all_iff)
      with v'(2) [OF map_of_SomeD [OF tp(1)]] w props [OF _ _ w(3) tp(2) cov'] C P Some show ?thesis
        by (auto simp: prop_of_def split: option.splits)
    next
      case None
      have gone: "jget ps k = None" by (rule compile_props_none [OF p(2) None])
      then have "pshut" using cov kt by (auto simp: list_all_iff)
      moreover have "k \<notin> fst ` set ps" using gone by (simp add: map_of_eq_None_iff)
      ultimately have absent: "jget kvs k = None" using v'(3) by (auto simp: map_of_eq_None_iff)
      have "k \<notin> set creq" using met(1) None own [of k w] w(2) C P by (auto simp: requires_met_def list_all_iff)
      with absent w(1) show ?thesis by simp
    qed
  qed
  moreover have "set (jkeys kvs) \<subseteq> fst ` set cs" if "cshut"
  proof -
    have ext: "pshut" "list_all (\<lambda>k. prop_of cprops k \<noteq> None) (jkeys pprops)"
      using met(2) that C P by (auto simp: extras_met_def)
    have "set (jkeys kvs) \<subseteq> set (jkeys pprops)"
      using v'(3) [OF ext(1)] compile_props_keys [OF p(2)] by (metis set_map)
    moreover have "k \<in> set (jkeys cprops)" if k: "k \<in> set (jkeys pprops)" for k
    proof (cases "jget cprops k")
      case None
      from ext(2) k obtain v where "prop_of cprops k = Some v" by (auto simp: list_all_iff simp del: set_map)
      from prop_of_inherited [OF this None] have "k \<in> set object_prototype_members" by simp
      moreover have "list_all (\<lambda>k. k \<in> set object_prototype_members \<longrightarrow> k \<in> set (jkeys cs)) (jkeys ps)" using cov by simp
      ultimately have "k \<in> set (jkeys cs)"
        using k unfolding compile_props_keys [OF p(2)] list_all_iff by blast
      then show ?thesis unfolding compile_props_keys [OF c(2)] .
    qed (simp add: jget_SomeD del: set_map)
    ultimately show ?thesis unfolding set_map [symmetric] compile_props_keys [OF c(2)] by blast
  qed
  ultimately show ?thesis unfolding check_object using v'(1) by blast
qed

lemma subset_sound:
  "isSubsetNode schemas stack c p = Inr True \<Longrightarrow> compileNode valid_rx schemas st1 c = Inr tc \<Longrightarrow>
   compileNode valid_rx schemas st2 p = Inr tp \<Longrightarrow> covered tc tp \<Longrightarrow> check tp v \<Longrightarrow> check tc v"
  "subset_props schemas stack cs pp = Inr True \<Longrightarrow> (k, w) \<in> set cs \<Longrightarrow>
   prop_of pp k = None \<or> (\<exists>u. prop_of pp k = Some u \<and> isSubsetNode schemas stack w u = Inr True \<and>
     (\<forall>st1 st2 tc tp v. compileNode valid_rx schemas st1 w = Inr tc \<longrightarrow> compileNode valid_rx schemas st2 u = Inr tp \<longrightarrow>
        covered tc tp \<longrightarrow> check tp v \<longrightarrow> check tc v))"
proof (induction schemas stack c p and schemas stack cs pp arbitrary: st1 st2 tc tp v and k w
    rule: isSubsetNode_subset_props.induct)
  case (1 schemas stack c p)
  from compile_base [OF "1.prems"(2)] obtain cn s1 ct bc where c: "derefSchemaNode schemas st1 c = Inr (cn, s1)"
    "jget cn ''type'' = Some (JStr ct)" "tc = or_null cn bc" "base_of valid_rx schemas s1 cn ct bc" by blast
  from compile_base [OF "1.prems"(3)] obtain pn s2 pt bp where p: "derefSchemaNode schemas st2 p = Inr (pn, s2)"
    "jget pn ''type'' = Some (JStr pt)" "tp = or_null pn bp" "base_of valid_rx schemas s2 pn pt bp" by blast
  obtain cn' cst where dc: "derefSchemaNode schemas stack c = Inr (cn', cst)"
    using "1.prems"(1) by (subst (asm) isSubsetNode.simps) (auto split: sum.splits)
  obtain pn' pst where dp: "derefSchemaNode schemas stack p = Inr (pn', pst)"
    using "1.prems"(1) dc by (subst (asm) isSubsetNode.simps) (auto split: sum.splits)
  have same: "cn' = cn" "pn' = pn" using deref_stack [OF c(1) dc] deref_stack [OF p(1) dp] by simp_all
  note dc = dc [unfolded same] and dp = dp [unfolded same]
  note step = "1.prems"(1) [unfolded isSubsetNode.simps [of schemas stack c p] dc dp sum.case prod.case c(2) p(2)
      option.case jsval.case]
  have compat: "typesCompatible ct pt" "nullable pn \<longrightarrow> nullable cn" using step by (simp_all split: if_split_asm)
  have cov: "covered bc bp" by (rule covered_or_null [OF _ p(4) compat(2)]) (use "1.prems"(4) c(3) p(3) in simp)
  have "check bc v" if v: "check bp v"
  proof -
    consider "ct = ''array''" | "ct = ''object''" | "ct \<noteq> ''array''" "ct \<noteq> ''object''" by blast
    then show ?thesis
    proof cases
      case 1
      with compat have pt: "pt = ''array''" by (simp add: typesCompatible_def)
      obtain ci cmn cmx tc' where ca: "jget cn ''items'' = Some ci" "compileNode valid_rx schemas s1 ci = Inr tc'"
        "bc = TArray tc' cmn cmx" "item_counts cn = Inr (cmn, cmx)" using c(4) 1 by (auto simp: base_of_def)
      obtain sent pmn pmx tp' where pa: "jget pn ''items'' = Some sent" "compileNode valid_rx schemas s2 sent = Inr tp'"
        "bp = TArray tp' pmn pmx" "item_counts pn = Inr (pmn, pmx)" using p(4) pt by (auto simp: base_of_def)
      have sub: "isSubsetNode schemas cst ci sent = Inr True" "minBoundFits ''minItems'' cn pn"
        using step 1 compat ca(1) pa(1) by (auto split: if_split_asm sum.splits)
      have cv: "cmx = None" "covered tc' tp'" using cov ca(3) pa(3) by simp_all
      have items: "check tp' x \<Longrightarrow> check tc' x" for x
        by (rule "1.IH"(1) [OF dc refl dp refl refl _ refl _ refl _ _ 1 refl _ _ sub(1) ca(2) pa(2) cv(2)])
          (use c(2) p(2) ca(1) pa(1) compat same in simp_all)
      have "in_bounds pmn pmx n \<Longrightarrow> in_bounds cmn None n" for n
        using min_items_fit [OF sub(2) ca(4) pa(4)] by (auto simp: in_bounds_def split: option.splits)
      with v items show ?thesis unfolding ca(3) pa(3) check_array cv(1) by blast
    next
      case 2
      with compat have pt: "pt = ''object''" by (simp add: typesCompatible_def)
      obtain cprops creq cshut cs where co: "object_fields cn = Inr (cprops, creq, cshut)"
        "compile_props valid_rx schemas s1 creq cprops = Inr cs" "bc = TObject cs cshut"
        using c(4) 2 by (auto simp: base_of_def)
      obtain pprops preq pshut ps where po: "object_fields pn = Inr (pprops, preq, pshut)"
        "compile_props valid_rx schemas s2 preq pprops = Inr ps" "bp = TObject ps pshut"
        using p(4) pt by (auto simp: base_of_def)
      have met: "requires_met cn pn" using step 2 compat by (auto split: if_split_asm)
      have sub: "subset_props schemas cst (readProperties cn) (readProperties pn) = Inr True" "extras_met cn pn"
        using step 2 compat met by (auto split: if_split_asm sum.splits)
      have props: "prop_of (readProperties pn) k = None \<or>
          (\<exists>u. prop_of (readProperties pn) k = Some u \<and> isSubsetNode schemas cst w u = Inr True \<and>
           (\<forall>st1 st2 tc tp v. compileNode valid_rx schemas st1 w = Inr tc \<longrightarrow> compileNode valid_rx schemas st2 u = Inr tp \<longrightarrow>
              covered tc tp \<longrightarrow> check tp v \<longrightarrow> check tc v))" if "(k, w) \<in> set (readProperties cn)" for k w
        by (rule "1.IH"(2) [OF dc refl dp refl refl _ refl _ refl _ _ _ 2 _ _ that])
          (use c(2) p(2) compat same met sub(1) 2 in simp_all)
      have own: "prop_of (readProperties pn) k = None"
        if "(k, w) \<in> set (readProperties cn)" "jget (readProperties pn) k = None" for k w
        using props [OF that(1)] inherited_never_fits [OF _ that(2)] by blast
      have fit: "check tc v"
        if "(k, w) \<in> set (readProperties cn)" "prop_of (readProperties pn) k = Some u"
          "compileNode valid_rx schemas s1 w = Inr tc" "compileNode valid_rx schemas s2 u = Inr tp" "covered tc tp" "check tp v"
        for k w u tc tp v
      proof -
        from props [OF that(1)] that(2) have "compileNode valid_rx schemas s1 w = Inr tc \<longrightarrow>
            compileNode valid_rx schemas s2 u = Inr tp \<longrightarrow> covered tc tp \<longrightarrow> check tp v \<longrightarrow> check tc v" by simp
        with that(3-6) show ?thesis by blast
      qed
      have "check (TObject cs cshut) v"
        by (rule object_sound [OF co(1,2) po(1,2) met sub(2) fit own])
          (assumption | rule cov [unfolded co(3) po(3)] v [unfolded po(3)])+
      with co(3) show ?thesis by simp
    next
      case 3
      with step compat have "scalar_fits ct cn pn" by (simp split: if_split_asm)
      from scalar_sound [OF c(4) p(4) compat(1) 3 this v] show ?thesis .
    qed
  qed
  with "1.prems"(5) c(3) p(3) compat(2) show ?case by (auto simp: check_or_null)
next
  case (2 schemas stack pp)
  then show ?case by simp
next
  case (3 schemas stack k' w' cs pp)
  show ?case
  proof (cases "prop_of pp k'")
    case None
    with "3.prems" "3.IH"(1) show ?thesis by auto
  next
    case (Some u)
    with "3.prems"(1) have one: "isSubsetNode schemas stack w' u = Inr True" and rest: "subset_props schemas stack cs pp = Inr True"
      by (auto split: sum.splits if_split_asm)
    from "3.prems"(2) show ?thesis
    proof (cases "(k, w) \<in> set cs")
      case True
      from "3.IH"(3) [OF Some one TrueI rest True] show ?thesis .
    next
      case False
      with "3.prems"(2) have "k = k'" "w = w'" by auto
      with Some one "3.IH"(2) [OF Some one] show ?thesis by blast
    qed
  qed
qed

end

end
