(* ===== verification/Payload_Edges.thy ===== *)
theory Payload_Edges
  imports Payload_Subset Dag_Snapshot
begin

text \<open>
  The payload of an envelope on its way along an edge: the assertions of
  \<open>envelope/payloadSchema.ts\<close> on what a stage emits and on what its successor is given, and
  \<open>checkSequentialIoCompatibility\<close> of \<open>config/loadPipeline.ts\<close>, which is to make sure when the
  pipeline is loaded that the second assertion holds whenever the first does.
\<close>

section \<open>The assertions\<close>

datatype payload_error = BadSchema schema_error | PayloadRequired | PayloadMismatch

type_synonym value_check = "TSchema \<Rightarrow> jsval \<Rightarrow> bool"

definition payloadInstanceMismatch ::
  "value_check \<Rightarrow> (string \<Rightarrow> bool) \<Rightarrow> schema_map \<Rightarrow> jsval \<Rightarrow> jsval \<Rightarrow> schema_error + payload_error option" where
  "payloadInstanceMismatch check valid_rx schemas inst schema =
     (case compilePayloadSchema valid_rx schemas schema of
        Inl e \<Rightarrow> Inl e
      | Inr t \<Rightarrow> Inr (if check t inst then None else Some PayloadMismatch))"

definition assert_success_payload ::
  "value_check \<Rightarrow> (string \<Rightarrow> bool) \<Rightarrow> schema_map \<Rightarrow> StageEnvelope \<Rightarrow> jsval \<Rightarrow> payload_error + unit" where
  "assert_success_payload check valid_rx schemas envelope schema =
     (if env_status envelope \<noteq> EnvSuccess then Inr ()
      else case compilePayloadSchema valid_rx schemas schema of
        Inl e \<Rightarrow> Inl (BadSchema e)
      | Inr t \<Rightarrow>
          (case env_payload envelope of
             None \<Rightarrow> Inl PayloadRequired
           | Some payload \<Rightarrow> if check t (JObj payload) then Inr () else Inl PayloadMismatch))"

definition assertEnvelopePayload ::
  "value_check \<Rightarrow> (string \<Rightarrow> bool) \<Rightarrow> schema_map \<Rightarrow> StageEnvelope \<Rightarrow> jsval option \<Rightarrow> payload_error + unit" where
  "assertEnvelopePayload check valid_rx schemas envelope schema =
     (case schema of None \<Rightarrow> Inr () | Some sch \<Rightarrow> assert_success_payload check valid_rx schemas envelope sch)"

definition assertCloneAssignmentPayload ::
  "value_check \<Rightarrow> (string \<Rightarrow> bool) \<Rightarrow> schema_map \<Rightarrow> StageEnvelope \<Rightarrow> jsval \<Rightarrow> payload_error + unit" where
  "assertCloneAssignmentPayload = assert_success_payload"

definition assertPriorInputPayload ::
  "value_check \<Rightarrow> (string \<Rightarrow> bool) \<Rightarrow> schema_map \<Rightarrow> StageEnvelope \<Rightarrow> jsval \<Rightarrow> payload_error + unit" where
  "assertPriorInputPayload = assert_success_payload"

section \<open>The check of a loaded pipeline\<close>

record stage_io =
  io_id :: string
  io_output :: "jsval option"
  io_input :: "jsval option"

fun truthy :: "jsval \<Rightarrow> bool" where
  "truthy JNull = False"
| "truthy (JBool b) = b"
| "truthy (JNum n) = (n \<noteq> Fin 0 \<and> n \<noteq> NaN)"
| "truthy (JStr s) = (s \<noteq> [])"
| "truthy _ = True"

text \<open>The first issue of a list, and the exception that stops the search.\<close>

fun first_issue :: "('a \<Rightarrow> 'e + 'b option) \<Rightarrow> 'a list \<Rightarrow> 'e + 'b option" where
  "first_issue f [] = Inr None"
| "first_issue f (x # xs) =
     (case f x of Inl e \<Rightarrow> Inl e | Inr (Some i) \<Rightarrow> Inr (Some i) | Inr None \<Rightarrow> first_issue f xs)"

definition edge_issue ::
  "schema_map \<Rightarrow> (string, stage_io) jsmap \<Rightarrow> (string, ResolvedPipelineStageNode) jsmap \<Rightarrow> stage_io \<Rightarrow> string \<Rightarrow>
   schema_error + (string \<times> string) option" where
  "edge_issue schemas stageById nodeById child parentId =
     (if Option.bind (jget nodeById parentId) clone_array_field \<noteq> None then Inr None
      else case (Option.bind (jget stageById parentId) io_output, io_input child) of
        (Some sent, Some wanted) \<Rightarrow>
          if \<not> truthy sent then Inr None
          else (case isPayloadSchemaSubset schemas wanted sent of
             Inl e \<Rightarrow> Inl e
           | Inr fits \<Rightarrow> Inr (if fits then None else Some (io_id child, parentId)))
      | _ \<Rightarrow> Inr None)"

definition checkSequentialIoCompatibility ::
  "schema_map \<Rightarrow> stage_io list \<Rightarrow> ResolvedPipelineDag \<Rightarrow> schema_error + (string \<times> string) option" where
  "checkSequentialIoCompatibility schemas stages dag =
     (let stageById = jmap_by io_id stages; nodeById = jmap_by node_id (nodes dag) in
      first_issue (\<lambda>child.
        case jget nodeById (io_id child) of
          None \<Rightarrow> Inr None
        | Some node \<Rightarrow>
            first_issue (\<lambda>e. edge_issue schemas stageById nodeById child (edge_id e)) (predecessorEdges node)) stages)"

lemma first_issue_none: "first_issue f xs = Inr None \<Longrightarrow> x \<in> set xs \<Longrightarrow> f x = Inr None"
  by (induction xs) (auto split: sum.splits option.splits)

text \<open>
  C21: when a pipeline passes the check, an envelope its stage may emit is one its successor accepts:
  for an edge from a stage that does not fan out, if the envelope passes the assertion on the
  parent's output schema then it passes the assertion on the child's input schema, for every checker
  of values that follows JSON Schema.  The check does not look at the largest length of an array, at
  keys an open output schema does not declare, and at inherited names: \<open>covered\<close> excludes them.
\<close>

theorem checked_edges_accept:
  assumes "payload_checker rx len check" "checkSequentialIoCompatibility schemas stages dag = Inr None"
    and "child \<in> set stages" "jget (jmap_by node_id (nodes dag)) (io_id child) = Some node"
    and "e \<in> set (predecessorEdges node)"
    and "Option.bind (jget (jmap_by node_id (nodes dag)) (edge_id e)) clone_array_field = None"
    and "jget (jmap_by io_id stages) (edge_id e) = Some parent"
    and "io_output parent = Some sent" "io_input child = Some wanted"
    and "compilePayloadSchema valid_rx schemas sent = Inr tp" "compilePayloadSchema valid_rx schemas wanted = Inr tc"
    and "covered tc tp" "assertEnvelopePayload check valid_rx schemas envelope (io_output parent) = Inr ()"
  shows "assertPriorInputPayload check valid_rx schemas envelope wanted = Inr ()"
proof -
  have "truthy sent" using assms(10)
    by (cases sent) (simp_all add: compilePayloadSchema_def derefSchemaNode.simps)
  moreover have "first_issue (\<lambda>e. edge_issue schemas (jmap_by io_id stages) (jmap_by node_id (nodes dag)) child (edge_id e))
      (predecessorEdges node) = Inr None"
    using first_issue_none [OF assms(2) [unfolded checkSequentialIoCompatibility_def Let_def] assms(3)] assms(4) by simp
  from first_issue_none [OF this assms(5)] have
    "edge_issue schemas (jmap_by io_id stages) (jmap_by node_id (nodes dag)) child (edge_id e) = Inr None" .
  ultimately have sub: "isPayloadSchemaSubset schemas wanted sent = Inr True"
    using assms(6-9) by (simp add: edge_issue_def split: sum.splits if_split_asm)
  have tc: "compileNode valid_rx schemas [] wanted = Inr tc" and tp: "compileNode valid_rx schemas [] sent = Inr tp"
    using assms(10,11) by (auto simp: compilePayloadSchema_def split: sum.splits prod.splits if_split_asm TSchema.splits)
  show ?thesis
    using payload_checker.subset_sound(1) [OF assms(1) sub [unfolded isPayloadSchemaSubset_def] tc tp assms(12)] assms(8,10,11,13)
    by (auto simp: assertEnvelopePayload_def assertPriorInputPayload_def assert_success_payload_def
        split: option.splits if_split_asm)
qed

text \<open>A writer whose output a reader takes: the review text and at least one finding.\<close>

definition string_schema :: jsval where
  "string_schema = JObj [(''type'', JStr ''string'')]"

definition review_schema :: "(string \<times> jsval) list \<Rightarrow> jsval" where
  "review_schema list_keywords =
     JObj [(''type'', JStr ''object''), (''required'', JArr [JStr ''findings'']),
       (''properties'', JObj [(''findings'',
          JObj ([(''type'', JStr ''array''), (''items'', string_schema)] @ list_keywords))])]"

definition min_items :: "int \<Rightarrow> string \<times> jsval" where
  "min_items n = (''minItems'', JNum (Fin (of_int n)))"

definition max_items :: "int \<Rightarrow> string \<times> jsval" where
  "max_items n = (''maxItems'', JNum (Fin (of_int n)))"

definition review_stages :: "(string \<times> jsval) list \<Rightarrow> (string \<times> jsval) list \<Rightarrow> stage_io list" where
  "review_stages sent wanted =
     [\<lparr>io_id = ''a'', io_output = Some (review_schema sent), io_input = None\<rparr>,
      \<lparr>io_id = ''b'', io_output = None, io_input = Some (review_schema wanted)\<rparr>]"

definition findings :: "string list \<Rightarrow> StageEnvelope" where
  "findings xs = \<lparr>env_status = EnvSuccess, env_summary = ''done'', env_artifacts = [],
     env_payload = Some [(''findings'', JArr (map JStr xs))], env_fork_choice = None, env_feedback_loop = None,
     env_attestations = None, env_stage_id = None, env_notes = None\<rparr>"

abbreviation plain_check :: value_check where
  "plain_check \<equiv> conforms (\<lambda>_ _. True) length"

definition two_stages :: ResolvedPipelineDag where
  "two_stages = linearCompatDagSnapshot [''a'', ''b'']"

theorem checked_edges_accept_witness:
  "assertPriorInputPayload plain_check (\<lambda>_. True) [] (findings [''x'', ''y'']) (review_schema [min_items 1]) = Inr ()"
proof -
  let ?node = "the (jget (jmap_by node_id (nodes two_stages)) ''b'')"
  let ?tp = "projr (compilePayloadSchema (\<lambda>_. True) [] (review_schema [min_items 2]))"
  let ?tc = "projr (compilePayloadSchema (\<lambda>_. True) [] (review_schema [min_items 1]))"
  let ?stages = "review_stages [min_items 2] [min_items 1]"
  have law: "payload_checker (\<lambda>_ _. True) length plain_check" by (rule conforming.payload_checker_axioms)
  have ok: "checkSequentialIoCompatibility [] ?stages two_stages = Inr None" by code_simp
  have child: "?stages ! 1 \<in> set ?stages" by (simp add: review_stages_def)
  have node: "jget (jmap_by node_id (nodes two_stages)) (io_id (?stages ! 1)) = Some ?node" by code_simp
  have edge: "succeeded_edge ''a'' \<in> set (predecessorEdges ?node)" by code_simp
  have plain: "Option.bind (jget (jmap_by node_id (nodes two_stages)) (edge_id (succeeded_edge ''a''))) clone_array_field = None"
    by code_simp
  have parent: "jget (jmap_by io_id ?stages) (edge_id (succeeded_edge ''a'')) = Some (?stages ! 0)" by code_simp
  have io: "io_output (?stages ! 0) = Some (review_schema [min_items 2])" "io_input (?stages ! 1) = Some (review_schema [min_items 1])"
    by (simp_all add: review_stages_def)
  have types: "compilePayloadSchema (\<lambda>_. True) [] (review_schema [min_items 2]) = Inr ?tp"
    "compilePayloadSchema (\<lambda>_. True) [] (review_schema [min_items 1]) = Inr ?tc" by code_simp+
  have cov: "covered ?tc ?tp" by code_simp
  have sent: "assertEnvelopePayload plain_check (\<lambda>_. True) [] (findings [''x'', ''y'']) (io_output (?stages ! 0)) = Inr ()"
    by code_simp
  show ?thesis by (rule checked_edges_accept [OF law ok child node edge plain parent io types cov sent])
qed

text \<open>
  the check accepts a pipeline whose stage may emit more elements than its successor takes:
  \<open>isPayloadSchemaSubset\<close> compares \<open>minItems\<close> only, so that an envelope with two findings passes the
  assertion on the output schema and fails the assertion on the input schema with \<open>maxItems: 1\<close>.
\<close>

theorem check_ignores_array_limit:
  "checkSequentialIoCompatibility [] (review_stages [] [max_items 1]) two_stages = Inr None \<and>
   assertEnvelopePayload plain_check (\<lambda>_. True) [] (findings [''x'', ''y'']) (Some (review_schema [])) = Inr () \<and>
   assertPriorInputPayload plain_check (\<lambda>_. True) [] (findings [''x'', ''y'']) (review_schema [max_items 1]) = Inl PayloadMismatch"
  by code_simp

end
