(* ===== verification/Payload_Expand.thy ===== *)
theory Payload_Expand
  imports Payload_Edges
begin

text \<open>
  The expansion of the references of a payload schema (\<open>expandPayloadSchemaRefs\<close> of
  \<open>envelope/payloadSchema.ts\<close>): the expanded schema means what the schema means.  A property of a
  schema called \<open>__proto__\<close>, which an assignment to a fresh object does not create, is outside the
  model.
\<close>

section \<open>Expansion\<close>

lemma deref_fields_less:
  "derefSchemaNode schemas stack node = Inr (raw, stack') \<Longrightarrow>
   free_names schemas stack' < free_names schemas stack \<or>
   free_names schemas stack' = free_names schemas stack \<and> props_size raw < Suc (size node)"
  using deref_cases [of schemas stack node raw stack'] by (auto simp: props_size_def)

lemma props_size_value: "props_size ps < props_size ((k, JObj ps) # kvs)"
  by (simp add: props_size_def)

function expandSchemaNode :: "schema_map \<Rightarrow> string list \<Rightarrow> jsval \<Rightarrow> schema_error + jsval"
  and expand_fields :: "schema_map \<Rightarrow> string list \<Rightarrow> jsobj \<Rightarrow> schema_error + jsobj"
  and expand_props :: "schema_map \<Rightarrow> string list \<Rightarrow> jsobj \<Rightarrow> schema_error + jsobj" where
  "expandSchemaNode schemas stack node =
     (case derefSchemaNode schemas stack node of
        Inl e \<Rightarrow> Inl e
      | Inr (raw, stack') \<Rightarrow> map_sum id JObj (expand_fields schemas stack' raw))"
| "expand_fields schemas stack [] = Inr []"
| "expand_fields schemas stack ((k, v) # kvs) =
     (if k = ''$ref'' then expand_fields schemas stack kvs
      else case (if k = ''properties'' then
                   (case v of JObj ps \<Rightarrow> map_sum id JObj (expand_props schemas stack ps) | _ \<Rightarrow> Inr v)
                 else if k = ''items'' then expandSchemaNode schemas stack v
                 else Inr v) of
        Inl e \<Rightarrow> Inl e
      | Inr v' \<Rightarrow> map_sum id ((#) (k, v')) (expand_fields schemas stack kvs))"
| "expand_props schemas stack [] = Inr []"
| "expand_props schemas stack ((k, v) # kvs) =
     (case expandSchemaNode schemas stack v of
        Inl e \<Rightarrow> Inl e
      | Inr v' \<Rightarrow> map_sum id ((#) (k, v')) (expand_props schemas stack kvs))"
  by pat_completeness auto

termination
  by (relation "measures [case_sum (\<lambda>(schemas, stack, _). free_names schemas stack)
      (case_sum (\<lambda>(schemas, stack, _). free_names schemas stack) (\<lambda>(schemas, stack, _). free_names schemas stack)),
      case_sum (\<lambda>(_, _, node). Suc (size node)) (case_sum (\<lambda>(_, _, kvs). props_size kvs) (\<lambda>(_, _, kvs). props_size kvs))]")
    (auto dest: deref_fields_less simp: props_size_value)

declare expandSchemaNode.simps [simp del]

definition expandPayloadSchemaRefs :: "schema_map \<Rightarrow> jsval \<Rightarrow> schema_error + jsval" where
  "expandPayloadSchemaRefs schemas raw = expandSchemaNode schemas [] raw"

text \<open>What the compiler reads of a schema is the same before and after.\<close>

definition reads_alike ::
  "(string \<Rightarrow> bool) \<Rightarrow> schema_map \<Rightarrow> string list \<Rightarrow> schema_map \<Rightarrow> string list \<Rightarrow> jsobj \<Rightarrow> jsobj \<Rightarrow> bool" where
  "reads_alike valid_rx schemas stack schemas' stack' kvs kvs' \<longleftrightarrow>
     jget kvs' ''$ref'' = None \<and>
     (\<forall>k. k \<notin> {''$ref'', ''properties'', ''items''} \<longrightarrow> jget kvs' k = jget kvs k) \<and>
     (case jget kvs ''items'' of
        None \<Rightarrow> jget kvs' ''items'' = None
      | Some v \<Rightarrow> (\<exists>v'. jget kvs' ''items'' = Some v' \<and>
          compileNode valid_rx schemas' stack' v' = compileNode valid_rx schemas stack v)) \<and>
     (case jget kvs ''properties'' of
        Some (JObj ps) \<Rightarrow> (\<exists>ps'. jget kvs' ''properties'' = Some (JObj ps') \<and>
          (\<forall>req. compile_props valid_rx schemas' stack' req ps' = compile_props valid_rx schemas stack req ps))
      | other \<Rightarrow> jget kvs' ''properties'' = other)"

lemma keyword_cong:
  assumes "\<forall>k. k \<notin> {''$ref'', ''properties'', ''items''} \<longrightarrow> jget kvs' k = jget kvs k"
  shows "compile_string valid_rx kvs' = compile_string valid_rx kvs" "compile_number kvs' = compile_number kvs"
    "compile_integer kvs' = compile_integer kvs" "item_counts kvs' = item_counts kvs" "nullable kvs' = nullable kvs"
    "jget kvs' ''type'' = jget kvs ''type''" "jget kvs' ''nullable'' = jget kvs ''nullable''" "or_null kvs' = or_null kvs"
    "schema_required kvs' = schema_required kvs" "schema_shut kvs' = schema_shut kvs"
proof -
  have e: "readEnum f kvs' = readEnum f kvs" for f :: "jsval \<Rightarrow> 'a option" by (simp add: readEnum_def assms)
  have e2: "readEnum f kvs' = readEnum f kvs" for f :: "jsval \<Rightarrow> rat option" by (simp add: readEnum_def assms)
  have e3: "readEnum f kvs' = readEnum f kvs" for f :: "jsval \<Rightarrow> string option" by (simp add: readEnum_def assms)
  have b: "readBound ''minimum'' kvs' = readBound ''minimum'' kvs" "readBound ''maximum'' kvs' = readBound ''maximum'' kvs"
    by (simp_all add: readBound_def assms)
  have p: "readPattern valid_rx kvs' = readPattern valid_rx kvs" by (simp add: readPattern_def assms)
  have c: "read_count x ''minLength'' kvs' = read_count x ''minLength'' kvs"
    "read_count x ''maxLength'' kvs' = read_count x ''maxLength'' kvs"
    "read_count x ''minItems'' kvs' = read_count x ''minItems'' kvs"
    "read_count x ''maxItems'' kvs' = read_count x ''maxItems'' kvs" for x
    by (simp_all add: read_count_def assms)
  show "compile_string valid_rx kvs' = compile_string valid_rx kvs"
    unfolding compile_string_def stringOptions_def readNonNegativeInt_def e3 p c ..
  show "compile_number kvs' = compile_number kvs" unfolding compile_number_def numericOptions_def b ..
  show "compile_integer kvs' = compile_integer kvs" unfolding compile_integer_def numericOptions_def e2 b ..
  show "item_counts kvs' = item_counts kvs" unfolding item_counts_def c ..
  show n: "nullable kvs' = nullable kvs" by (simp add: nullable_def assms)
  show "jget kvs' ''type'' = jget kvs ''type''" "jget kvs' ''nullable'' = jget kvs ''nullable''" by (simp_all add: assms)
  show "or_null kvs' = or_null kvs" by (simp add: or_null_def fun_eq_iff n)
  show "schema_required kvs' = schema_required kvs" by (simp add: schema_required_def assms)
  show "schema_shut kvs' = schema_shut kvs" by (simp add: schema_shut_def assms)
qed

lemma reads_alike_compile:
  assumes alike: "reads_alike valid_rx schemas stack schemas' stack' kvs kvs'"
    and raw: "derefSchemaNode schemas st node = Inr (kvs, stack)" and raw': "derefSchemaNode schemas' st' node' = Inr (kvs', stack')"
  shows "compileNode valid_rx schemas' st' node' = compileNode valid_rx schemas st node"
proof -
  have keys: "\<forall>k. k \<notin> {''$ref'', ''properties'', ''items''} \<longrightarrow> jget kvs' k = jget kvs k"
    using alike unfolding reads_alike_def by blast
  note same = keyword_cong [OF keys]
  let ?array = "\<lambda>schemas stack raw. case jget raw ''items'' of
       None \<Rightarrow> Inl ItemsRequired
     | Some items \<Rightarrow>
         (case item_counts raw of
            Inl e \<Rightarrow> Inl e
          | Inr (mn, mx) \<Rightarrow>
              (case compileNode valid_rx schemas stack items of Inl e \<Rightarrow> Inl e | Inr t \<Rightarrow> Inr (TArray t mn mx)))"
  let ?object = "\<lambda>schemas stack raw. case object_fields raw of
       Inl e \<Rightarrow> Inl e
     | Inr (props, req, shut) \<Rightarrow>
         (case compile_props valid_rx schemas stack req props of Inl e \<Rightarrow> Inl e | Inr ts \<Rightarrow> Inr (TObject ts shut))"
  have array: "?array schemas' stack' kvs' = ?array schemas stack kvs"
  proof (cases "jget kvs ''items''")
    case None
    with alike show ?thesis unfolding reads_alike_def by simp
  next
    case (Some v)
    with alike obtain v' where v': "jget kvs' ''items'' = Some v'"
      "compileNode valid_rx schemas' stack' v' = compileNode valid_rx schemas stack v"
      unfolding reads_alike_def by auto
    show ?thesis by (simp only: v' Some option.case same(4))
  qed
  have props: "schema_properties kvs' = None \<and> schema_properties kvs = None \<or>
      (\<exists>ps ps'. schema_properties kvs = Some ps \<and> schema_properties kvs' = Some ps' \<and>
        (\<forall>req. compile_props valid_rx schemas' stack' req ps' = compile_props valid_rx schemas stack req ps))"
  proof (cases "\<exists>ps. jget kvs ''properties'' = Some (JObj ps)")
    case True
    then obtain ps where ps: "jget kvs ''properties'' = Some (JObj ps)" by blast
    with alike obtain ps' where "jget kvs' ''properties'' = Some (JObj ps')"
      "\<forall>req. compile_props valid_rx schemas' stack' req ps' = compile_props valid_rx schemas stack req ps"
      unfolding reads_alike_def by auto
    with ps show ?thesis by (auto simp: schema_properties_def)
  next
    case False
    with alike have "jget kvs' ''properties'' = jget kvs ''properties''"
      unfolding reads_alike_def by (cases "jget kvs ''properties''" ; cases "the (jget kvs ''properties'')") simp_all
    then have "schema_properties kvs' = schema_properties kvs" by (simp only: schema_properties_def)
    moreover have "ps = []" if "schema_properties kvs = Some ps" for ps
      using that False by (cases "jget kvs ''properties''"; cases "the (jget kvs ''properties'')") (simp_all add: schema_properties_def)
    ultimately show ?thesis by (cases "schema_properties kvs") auto
  qed
  have object: "?object schemas' stack' kvs' = ?object schemas stack kvs"
    using props
  proof
    assume "schema_properties kvs' = None \<and> schema_properties kvs = None"
    then show ?thesis by (simp add: object_fields_def)
  next
    assume "\<exists>ps ps'. schema_properties kvs = Some ps \<and> schema_properties kvs' = Some ps' \<and>
      (\<forall>req. compile_props valid_rx schemas' stack' req ps' = compile_props valid_rx schemas stack req ps)"
    then obtain ps ps' where p: "schema_properties kvs = Some ps" "schema_properties kvs' = Some ps'"
      "\<And>req. compile_props valid_rx schemas' stack' req ps' = compile_props valid_rx schemas stack req ps" by blast
    show ?thesis
      by (cases "schema_required kvs"; cases "schema_shut kvs") (simp_all add: object_fields_def p same(9,10))
  qed
  show ?thesis
    unfolding compileNode.simps [of valid_rx schemas' st' node'] compileNode.simps [of valid_rx schemas st node]
      raw raw' sum.case prod.case same(1-3,6-8) array object ..
qed

text \<open>A key in front of schemas that are read alike.\<close>

lemma other_properties:
  "(case x of Some (JObj ps) \<Rightarrow> P ps | other \<Rightarrow> y = other) \<longleftrightarrow>
   (\<exists>ps. x = Some (JObj ps) \<and> P ps) \<or> (\<nexists>ps. x = Some (JObj ps)) \<and> y = x"
proof (cases x)
  case (Some v)
  then show ?thesis by (cases v) simp_all
qed simp

lemma items_cons: "k \<noteq> ''items'' \<Longrightarrow> jget ((k, v) # kvs) ''items'' = jget kvs ''items''"
  by simp

lemma properties_cons: "k \<noteq> ''properties'' \<Longrightarrow> jget ((k, v) # kvs) ''properties'' = jget kvs ''properties''"
  by simp

lemma keys_cons:
  assumes "\<forall>k. k \<notin> S \<longrightarrow> jget kvs' k = jget kvs k" "k \<in> S \<or> v' = v"
  shows "\<forall>k'. k' \<notin> S \<longrightarrow> jget ((k, v') # kvs') k' = jget ((k, v) # kvs) k'"
  using assms by auto

lemma alike_properties:
  assumes "reads_alike valid_rx schemas stack schemas' stack' kvs kvs'"
    and "\<forall>req. compile_props valid_rx schemas' stack' req qs = compile_props valid_rx schemas stack req ps"
  shows "reads_alike valid_rx schemas stack schemas' stack' ((''properties'', JObj ps) # kvs) ((''properties'', JObj qs) # kvs')"
proof -
  have it: "''properties'' \<noteq> ''items''" by simp
  show ?thesis
    using assms keys_cons [of "{''$ref'', ''properties'', ''items''}" kvs' kvs "''properties''" "JObj qs" "JObj ps"]
    unfolding reads_alike_def other_properties items_cons [OF it] by simp
qed

lemma alike_odd_properties:
  assumes "reads_alike valid_rx schemas stack schemas' stack' kvs kvs'" "\<nexists>ps. v = JObj ps"
  shows "reads_alike valid_rx schemas stack schemas' stack' ((''properties'', v) # kvs) ((''properties'', v) # kvs')"
proof -
  have it: "''properties'' \<noteq> ''items''" by simp
  show ?thesis
    using assms keys_cons [of "{''$ref'', ''properties'', ''items''}" kvs' kvs "''properties''" v v]
    unfolding reads_alike_def other_properties items_cons [OF it] by simp
qed

lemma alike_items:
  assumes "reads_alike valid_rx schemas stack schemas' stack' kvs kvs'"
    and "compileNode valid_rx schemas' stack' v' = compileNode valid_rx schemas stack v"
  shows "reads_alike valid_rx schemas stack schemas' stack' ((''items'', v) # kvs) ((''items'', v') # kvs')"
proof -
  have it: "''items'' \<noteq> ''properties''" by simp
  show ?thesis
    using assms keys_cons [of "{''$ref'', ''properties'', ''items''}" kvs' kvs "''items''" v' v]
    unfolding reads_alike_def other_properties properties_cons [OF it] by simp
qed

lemma alike_other:
  assumes "reads_alike valid_rx schemas stack schemas' stack' kvs kvs'"
    and k: "k \<noteq> ''properties''" "k \<noteq> ''items''" "k \<noteq> ''$ref''"
  shows "reads_alike valid_rx schemas stack schemas' stack' ((k, v) # kvs) ((k, v) # kvs')"
  using assms(1) k(3) keys_cons [of "{''$ref'', ''properties'', ''items''}" kvs' kvs k v v]
  unfolding reads_alike_def other_properties properties_cons [OF k(1)] items_cons [OF k(2)] by simp

lemma expansion:
  "expandSchemaNode schemas stack node = Inr e \<Longrightarrow>
   (\<forall>schemas' stack'. compileNode valid_rx schemas' stack' e = compileNode valid_rx schemas stack node) \<and>
   (\<exists>raw st raw'. derefSchemaNode schemas stack node = Inr (raw, st) \<and> e = JObj raw' \<and>
      (\<forall>schemas' stack'. reads_alike valid_rx schemas st schemas' stack' raw raw'))"
  "expand_fields schemas stack kvs = Inr kvs' \<Longrightarrow> \<forall>schemas' stack'. reads_alike valid_rx schemas stack schemas' stack' kvs kvs'"
  "expand_props schemas stack ps = Inr ps' \<Longrightarrow>
   \<forall>schemas' stack' req. compile_props valid_rx schemas' stack' req ps' = compile_props valid_rx schemas stack req ps"
proof (induction schemas stack node and schemas stack kvs and schemas stack ps arbitrary: e and kvs' and ps'
    rule: expandSchemaNode_expand_fields_expand_props.induct)
  case (1 schemas stack node)
  obtain raw st where d: "derefSchemaNode schemas stack node = Inr (raw, st)"
    using "1.prems" by (subst (asm) expandSchemaNode.simps) (auto split: sum.splits)
  obtain raw' where f: "expand_fields schemas st raw = Inr raw'" "e = JObj raw'"
    using "1.prems" d by (subst (asm) expandSchemaNode.simps) (cases "expand_fields schemas st raw"; simp)
  have alike: "reads_alike valid_rx schemas st schemas' stack' raw raw'" for schemas' stack'
    using "1.IH" [OF d refl f(1)] by blast
  have here: "derefSchemaNode schemas' stack' e = Inr (raw', stack')" for schemas' stack'
    using alike unfolding f(2) by (intro deref_here) (simp add: reads_alike_def)
  have "compileNode valid_rx schemas' stack' e = compileNode valid_rx schemas stack node" for schemas' stack'
    by (rule reads_alike_compile [OF alike d here])
  with d f(2) alike show ?case by blast
next
  case (2 schemas stack)
  then show ?case by (simp add: reads_alike_def)
next
  case (3 schemas stack k v kvs)
  let ?field = "if k = ''properties'' then
        (case v of JObj ps \<Rightarrow> map_sum id JObj (expand_props schemas stack ps) | _ \<Rightarrow> Inr v)
      else if k = ''items'' then expandSchemaNode schemas stack v else Inr v"
  show ?case
  proof (cases "k = ''$ref''")
    case True
    with "3.prems" "3.IH"(1) have "reads_alike valid_rx schemas stack schemas' stack' kvs kvs'" for schemas' stack' by simp
    then show ?thesis using True by (simp add: reads_alike_def)
  next
    case False
    with "3.prems" obtain v' where v': "?field = Inr v'" by (cases ?field) simp_all
    from False "3.prems" v' obtain rest where rest: "expand_fields schemas stack kvs = Inr rest" "kvs' = (k, v') # rest"
      by (cases "expand_fields schemas stack kvs") simp_all
    have alike: "reads_alike valid_rx schemas stack schemas' stack' kvs rest" for schemas' stack'
      using "3.IH"(4) [OF False v' rest(1)] by blast
    consider "k = ''properties''" "\<exists>ps. v = JObj ps" | "k = ''properties''" "\<nexists>ps. v = JObj ps" | "k = ''items''"
      | "k \<noteq> ''properties''" "k \<noteq> ''items''" by blast
    then show ?thesis
    proof cases
      case 1
      then obtain ps where ps: "v = JObj ps" by blast
      with v' 1 obtain qs where qs: "expand_props schemas stack ps = Inr qs" "v' = JObj qs"
        by (cases "expand_props schemas stack ps") simp_all
      have "compile_props valid_rx schemas' stack' req qs = compile_props valid_rx schemas stack req ps" for schemas' stack' req
        using "3.IH"(2) [OF False 1(1) ps qs(1)] by blast
      then show ?thesis unfolding rest(2) 1(1) ps qs(2) by (blast intro: alike_properties [OF alike])
    next
      case 2
      then have "v' = v" using v' by (cases v) simp_all
      then show ?thesis unfolding rest(2) 2(1) using 2(2) by (blast intro: alike_odd_properties [OF alike])
    next
      case 3
      with v' have e: "expandSchemaNode schemas stack v = Inr v'" by simp
      have "compileNode valid_rx schemas' stack' v' = compileNode valid_rx schemas stack v" for schemas' stack'
        using "3.IH"(3) [OF False _ 3 e] 3 by simp
      then show ?thesis unfolding rest(2) 3 by (blast intro: alike_items [OF alike])
    next
      case 4
      with v' have "v' = v" by simp
      then show ?thesis unfolding rest(2) using 4 False by (blast intro: alike_other [OF alike])
    qed
  qed
next
  case (4 schemas stack)
  then show ?case by simp
next
  case (5 schemas stack k v kvs)
  from "5.prems" obtain v' where v': "expandSchemaNode schemas stack v = Inr v'"
    by (cases "expandSchemaNode schemas stack v") simp_all
  with "5.prems" obtain ps2 where ps2: "expand_props schemas stack kvs = Inr ps2" "ps' = (k, v') # ps2"
    by (cases "expand_props schemas stack kvs") simp_all
  have same: "compileNode valid_rx schemas' stack' v' = compileNode valid_rx schemas stack v"
    "compile_props valid_rx schemas' stack' req ps2 = compile_props valid_rx schemas stack req kvs" for schemas' stack' req
    using "5.IH"(1) [OF v'] "5.IH"(2) [OF v' ps2(1)] by blast+
  show ?case unfolding ps2(2) compile_props.simps same by (intro allI refl)
qed

lemma expansion_compiles:
  assumes "expandPayloadSchemaRefs schemas raw = Inr e"
  shows "compilePayloadSchema valid_rx schemas' e = compilePayloadSchema valid_rx schemas raw"
proof -
  note ex = expansion(1) [OF assms [unfolded expandPayloadSchemaRefs_def], of valid_rx]
  then obtain kvs st kvs' where d: "derefSchemaNode schemas [] raw = Inr (kvs, st)" "e = JObj kvs'"
    "reads_alike valid_rx schemas st schemas' [] kvs kvs'" by blast
  have "derefSchemaNode schemas' [] e = Inr (kvs', [])" using d(3) unfolding d(2) by (intro deref_here) (simp add: reads_alike_def)
  moreover have "nullable kvs' = nullable kvs" by (rule keyword_cong(5)) (use d(3) in \<open>simp add: reads_alike_def\<close>)
  moreover have "compileNode valid_rx schemas' [] e = compileNode valid_rx schemas [] raw" using ex by blast
  ultimately show ?thesis unfolding compilePayloadSchema_def d(1) by simp
qed

text \<open>
  C23: a schema without its references means what it meant with them: the expansion of a schema
  compiles to the same checks as the schema, or to the same error, whatever schemas are at hand.
\<close>

theorem expanded_schema_compiles_alike:
  assumes "expandPayloadSchemaRefs schemas raw = Inr e"
  shows "compilePayloadSchema valid_rx schemas' e = compilePayloadSchema valid_rx schemas raw"
  by (rule expansion_compiles [OF assms])

text \<open>A stage whose output names the schema of a ticket.\<close>

definition ticket_schemas :: schema_map where
  "ticket_schemas =
     [(''ticket'', JObj [(''type'', JStr ''object''), (''required'', JArr [JStr ''id'']),
        (''properties'', JObj [(''id'', JObj [(''type'', JStr ''string'')])])])]"

definition ticket_output :: jsval where
  "ticket_output =
     JObj [(''type'', JStr ''object''),
       (''properties'', JObj [(''tickets'', JObj [(''type'', JStr ''array''),
          (''items'', JObj [(''$ref'', JStr ''#/schemas/ticket'')])])])]"

theorem expanded_schema_compiles_alike_witness:
  "compilePayloadSchema (\<lambda>_. True) [] (projr (expandPayloadSchemaRefs ticket_schemas ticket_output)) =
   compilePayloadSchema (\<lambda>_. True) ticket_schemas ticket_output"
proof -
  have "expandPayloadSchemaRefs ticket_schemas ticket_output = Inr (projr (expandPayloadSchemaRefs ticket_schemas ticket_output))"
    by code_simp
  from expanded_schema_compiles_alike [OF this] show ?thesis .
qed

end
