(* ===== verification/Payload_Path.thy ===== *)
theory Payload_Path
  imports Payload_Expand
begin

text \<open>
  Fields of payloads: \<open>resolvePayloadSchemaFieldPath\<close> of \<open>envelope/payloadSchema.ts\<close>, the lint of the
  conditions of routes that rests on it (\<open>config/routeIf.ts\<close>), and the schemas of a loaded pipeline
  (\<open>config/loadPipeline.ts\<close>).  A condition that passes the lint can be evaluated on every payload
  the stage may emit, unless its path runs through a field that need not be an object.
\<close>

section \<open>The path of a field\<close>

datatype path_issue = EmptySegment | ArrayIndex | PathMissing | PathOptional | Untyped

definition index_segment :: "string \<Rightarrow> bool" where
  "index_segment s = (s \<noteq> [] \<and> list_all (\<lambda>c. c \<in> set ''0123456789'') s)"

definition schemaNodeType :: "jsobj \<Rightarrow> string option" where
  "schemaNodeType raw = Option.bind (jget raw ''type'') string_of"

definition tryExpandSchema :: "schema_map \<Rightarrow> jsval \<Rightarrow> jsval" where
  "tryExpandSchema schemas node = (case expandPayloadSchemaRefs schemas node of Inl _ \<Rightarrow> node | Inr e \<Rightarrow> e)"

text \<open>A node the expansion could not replace, and one whose values have elements.\<close>

definition bare_ref :: "jsobj \<Rightarrow> bool" where
  "bare_ref raw = (jget raw ''$ref'' \<noteq> None \<and> jget raw ''properties'' = None)"

definition indexed :: "jsobj \<Rightarrow> bool" where
  "indexed raw = (schemaNodeType raw = Some ''array'' \<or>
     jget raw ''items'' \<noteq> None \<and> schemaNodeType raw \<noteq> Some ''object'')"

definition path_step :: "jsobj \<Rightarrow> string \<Rightarrow> path_issue + jsval" where
  "path_step raw segment =
     (if bare_ref raw then Inl PathMissing
      else if indexed raw then Inl ArrayIndex
      else case jget (readProperties raw) segment of
        None \<Rightarrow> Inl PathMissing
      | Some next \<Rightarrow> if segment \<in> set (readRequiredKeys raw) then Inr next else Inl PathOptional)"

fun walk_path :: "jsval \<Rightarrow> string list \<Rightarrow> path_issue + jsval" where
  "walk_path current [] = Inr current"
| "walk_path (JObj raw) (segment # segments) =
     (case path_step raw segment of Inl i \<Rightarrow> Inl i | Inr next \<Rightarrow> walk_path next segments)"
| "walk_path _ (segment # segments) = Inl PathMissing"

definition leaf_type :: "schema_map \<Rightarrow> jsval \<Rightarrow> path_issue + string" where
  "leaf_type schemas current =
     (case current of
        JObj _ \<Rightarrow>
          (case tryExpandSchema schemas current of
             JObj leaf \<Rightarrow>
               if bare_ref leaf then Inl Untyped
               else (case schemaNodeType leaf of None \<Rightarrow> Inl Untyped | Some ty \<Rightarrow> Inr ty)
           | _ \<Rightarrow> Inl Untyped)
      | _ \<Rightarrow> Inl Untyped)"

definition resolvePayloadSchemaFieldPath ::
  "schema_map \<Rightarrow> jsval option \<Rightarrow> string \<Rightarrow> path_issue + string" where
  "resolvePayloadSchemaFieldPath schemas schema field =
     (let segments = split_dot field in
      if list_ex (\<lambda>s. s = []) segments then Inl EmptySegment
      else if list_ex index_segment segments then Inl ArrayIndex
      else case schema of
        None \<Rightarrow> Inl PathMissing
      | Some sch \<Rightarrow>
          (case walk_path (tryExpandSchema schemas sch) segments of
             Inl i \<Rightarrow> Inl i
           | Inr current \<Rightarrow> leaf_type schemas current))"

section \<open>The lint of conditions\<close>

definition scalar_types :: "string list" where
  "scalar_types = [''string'', ''number'', ''integer'', ''boolean'']"

definition valueMatchesScalarType :: "jsval \<Rightarrow> string \<Rightarrow> bool" where
  "valueMatchesScalarType v ty =
     (if ty = ''string'' then string_of v \<noteq> None
      else if ty = ''boolean'' then (case v of JBool _ \<Rightarrow> True | _ \<Rightarrow> False)
      else if ty = ''number'' then finite_number v \<noteq> None
      else if ty = ''integer'' then integer_number v \<noteq> None
      else False)"

definition numeric_op :: "RouteIfOp \<Rightarrow> bool" where
  "numeric_op op = (op \<in> {OpGt, OpGte, OpLt, OpLte})"

datatype lint_issue =
    LintArrayIndex string
  | LintOptional string
  | LintNotProperty string
  | LintNumericOnly RouteIfOp
  | LintScalarOnly RouteIfOp
  | LintListEmpty RouteIfOp
  | LintListType RouteIfOp string

definition op_issue :: "string \<Rightarrow> RouteIfOp \<Rightarrow> jsval \<Rightarrow> string \<Rightarrow> lint_issue option" where
  "op_issue field op v ty =
     (if numeric_op op then
        (if ty \<in> {''number'', ''integer''} then None else Some (LintNumericOnly op))
      else if ty \<notin> set scalar_types then Some (LintScalarOnly op)
      else if membership_op op then
        (case v of
           JArr (x # xs) \<Rightarrow>
             if list_all (\<lambda>item. valueMatchesScalarType item ty) (x # xs) then None else Some (LintListType op field)
         | _ \<Rightarrow> Some (LintListEmpty op))
      else None)"

definition routeIfLeafSchemaIssue :: "string \<Rightarrow> RouteIfOp \<Rightarrow> jsval \<Rightarrow> jsval option \<Rightarrow> lint_issue option" where
  "routeIfLeafSchemaIssue field op v schema =
     (case resolvePayloadSchemaFieldPath [] schema field of
        Inl ArrayIndex \<Rightarrow> Some (LintArrayIndex field)
      | Inl PathOptional \<Rightarrow> Some (LintOptional field)
      | Inl _ \<Rightarrow> Some (LintNotProperty field)
      | Inr ty \<Rightarrow> op_issue field op v ty)"

fun routeIfFieldSchemaIssue :: "RouteIfPredicate \<Rightarrow> jsval option \<Rightarrow> lint_issue option"
  and children_issue :: "RouteIfPredicate list \<Rightarrow> jsval option \<Rightarrow> lint_issue option" where
  "routeIfFieldSchemaIssue (RAll ps) schema = children_issue ps schema"
| "routeIfFieldSchemaIssue (RAny ps) schema = children_issue ps schema"
| "routeIfFieldSchemaIssue (RNot p) schema = routeIfFieldSchemaIssue p schema"
| "routeIfFieldSchemaIssue (RLeaf field op v) schema = routeIfLeafSchemaIssue field op v schema"
| "children_issue [] schema = None"
| "children_issue (p # ps) schema =
     (case routeIfFieldSchemaIssue p schema of Some i \<Rightarrow> Some i | None \<Rightarrow> children_issue ps schema)"

record wiring_ref =
  wr_id :: string
  wr_route :: "PipelineRouteEntry list option"

fun entry_issue :: "jsval option \<Rightarrow> string \<Rightarrow> PipelineRouteEntry \<Rightarrow> (string \<times> string \<times> lint_issue) list" where
  "entry_issue schema source (Forward to on (Some p)) =
     (case routeIfFieldSchemaIssue p schema of None \<Rightarrow> [] | Some i \<Rightarrow> [(source, to, i)])"
| "entry_issue schema source _ = []"

definition collectRouteIfSchemaIssues ::
  "stage_io list \<Rightarrow> wiring_ref list \<Rightarrow> (string \<times> string \<times> lint_issue) list" where
  "collectRouteIfSchemaIssues stages refs =
     (let stageById = jmap_by io_id stages in
      concat (map (\<lambda>ref.
        case wr_route ref of
          None \<Rightarrow> []
        | Some route \<Rightarrow>
            concat (map (entry_issue (Option.bind (jget stageById (wr_id ref)) io_output) (wr_id ref)) route)) refs))"

fun gate_of :: "PipelineRouteEntry \<Rightarrow> RouteIfPredicate option option" where
  "gate_of (Forward _ _ p) = Some p"
| "gate_of (Loop _) = None"

definition all_gated :: "PipelineRouteEntry list \<Rightarrow> bool" where
  "all_gated route =
     (let gates = List.map_filter gate_of route in gates \<noteq> [] \<and> list_all (\<lambda>g. g \<noteq> None) gates)"

definition collectRouteAllGatedWarnings :: "wiring_ref list \<Rightarrow> string list" where
  "collectRouteAllGatedWarnings refs =
     map wr_id (filter (\<lambda>ref. case wr_route ref of None \<Rightarrow> False | Some route \<Rightarrow> all_gated route) refs)"

section \<open>The schemas of a loaded pipeline\<close>

datatype schema_field = PayloadSchemaField | CloneInputSchemaField

definition attach_schema :: "(string \<Rightarrow> bool) \<Rightarrow> schema_map \<Rightarrow> jsval option \<Rightarrow> schema_error + jsval option" where
  "attach_schema valid_rx schemas schema =
     (case schema of
        None \<Rightarrow> Inr None
      | Some sch \<Rightarrow>
          (case compilePayloadSchema valid_rx schemas sch of
             Inl e \<Rightarrow> Inl e
           | Inr _ \<Rightarrow> map_sum id Some (expandPayloadSchemaRefs schemas sch)))"

fun attachPipelineSchemas ::
  "(string \<Rightarrow> bool) \<Rightarrow> schema_map \<Rightarrow> stage_io list \<Rightarrow> (string \<times> schema_field \<times> schema_error) + stage_io list" where
  "attachPipelineSchemas valid_rx schemas [] = Inr []"
| "attachPipelineSchemas valid_rx schemas (stage # stages) =
     (case attach_schema valid_rx schemas (io_output stage) of
        Inl e \<Rightarrow> Inl (io_id stage, PayloadSchemaField, e)
      | Inr sent \<Rightarrow>
          (case attach_schema valid_rx schemas (io_input stage) of
             Inl e \<Rightarrow> Inl (io_id stage, CloneInputSchemaField, e)
           | Inr wanted \<Rightarrow>
               map_sum id ((#) (stage\<lparr>io_output := sent, io_input := wanted\<rparr>))
                 (attachPipelineSchemas valid_rx schemas stages)))"

section \<open>What a path reads\<close>

text \<open>The results of an expansion, the shape the lint works on.\<close>

definition expanded :: "jsval \<Rightarrow> bool" where
  "expanded e \<longleftrightarrow> (\<exists>schemas stack node. expandSchemaNode schemas stack node = Inr e)"

lemma expand_props_get:
  "expand_props schemas stack ps = Inr qs \<Longrightarrow> jget qs k = Some v \<Longrightarrow> expanded v"
proof (induction ps arbitrary: qs)
  case (Cons kv ps)
  obtain k' v' where kv: "kv = (k', v')" by fastforce
  with Cons.prems(1) obtain w rest where w: "expandSchemaNode schemas stack v' = Inr w" "expand_props schemas stack ps = Inr rest"
    "qs = (k', w) # rest"
    by (cases "expandSchemaNode schemas stack v'"; cases "expand_props schemas stack ps") simp_all
  with Cons.prems(2) Cons.IH [OF w(2)] show ?case by (auto simp: expanded_def split: if_splits)
qed simp

lemma expand_fields_properties:
  "expand_fields schemas stack kvs = Inr kvs' \<Longrightarrow> jget kvs' ''properties'' = Some (JObj qs) \<Longrightarrow>
   \<exists>ps. expand_props schemas stack ps = Inr qs"
proof (induction kvs arbitrary: kvs')
  case (Cons kv kvs)
  obtain k v where kv: "kv = (k, v)" by fastforce
  show ?case
  proof (cases "k = ''$ref''")
    case True
    with Cons.IH Cons.prems kv show ?thesis by simp
  next
    case False
    let ?field = "if k = ''properties'' then
          (case v of JObj ps \<Rightarrow> map_sum id JObj (expand_props schemas stack ps) | _ \<Rightarrow> Inr v)
        else if k = ''items'' then expandSchemaNode schemas stack v else Inr v"
    from False Cons.prems(1) kv obtain v' where v': "?field = Inr v'" by (cases ?field) simp_all
    from False Cons.prems(1) kv v' obtain rest where rest: "expand_fields schemas stack kvs = Inr rest" "kvs' = (k, v') # rest"
      by (cases "expand_fields schemas stack kvs") simp_all
    show ?thesis
    proof (cases "k = ''properties''")
      case True
      with Cons.prems(2) rest(2) have q: "v' = JObj qs" by simp
      show ?thesis
      proof (cases v)
        case (JObj ps)
        with True q v' show ?thesis by (cases "expand_props schemas stack ps") auto
      qed (use True q v' in simp_all)
    next
      case False
      with Cons.IH [OF rest(1)] Cons.prems(2) rest(2) show ?thesis by simp
    qed
  qed
qed simp

lemma expanded_node:
  assumes "expanded e"
  obtains kvs where "e = JObj kvs" "jget kvs ''$ref'' = None" "\<And>k v. jget (readProperties kvs) k = Some v \<Longrightarrow> expanded v"
proof -
  from assms obtain schemas stack node where ex: "expandSchemaNode schemas stack node = Inr e" by (auto simp: expanded_def)
  then obtain raw st where d: "derefSchemaNode schemas stack node = Inr (raw, st)"
    by (subst (asm) expandSchemaNode.simps) (auto split: sum.splits)
  with ex obtain kvs where f: "expand_fields schemas st raw = Inr kvs" "e = JObj kvs"
    by (subst (asm) expandSchemaNode.simps) (cases "expand_fields schemas st raw"; simp)
  have "jget kvs ''$ref'' = None" using expansion(2) [OF f(1)] by (simp add: reads_alike_def)
  moreover have "expanded v" if "jget (readProperties kvs) k = Some v" for k v
  proof -
    from that have "jget kvs ''properties'' = Some (JObj (readProperties kvs))"
      using readProperties_props [of kvs] by auto
    from expand_fields_properties [OF f(1) this] that show ?thesis using expand_props_get by blast
  qed
  ultimately show ?thesis using that f(2) by blast
qed

lemma path_step_ok:
  "path_step raw s = Inr next \<longleftrightarrow>
   \<not> bare_ref raw \<and> \<not> indexed raw \<and> jget (readProperties raw) s = Some next \<and> s \<in> set (readRequiredKeys raw)"
  by (auto simp: path_step_def split: option.splits)

text \<open>No value on the way to the last segment may be something else than an object.\<close>

fun plain_path :: "TSchema \<Rightarrow> string list \<Rightarrow> bool" where
  "plain_path t [] = True"
| "plain_path (TObject ts shut) (s # rest) =
     (case jget ts s of None \<Rightarrow> True | Some (_, t) \<Rightarrow> plain_path t rest)"
| "plain_path _ (s # rest) = False"

context payload_checker
begin

lemma walk_sound:
  "walk_path node segs = Inr leaf \<Longrightarrow> expanded node \<Longrightarrow> compileNode valid_rx schemas stack node = Inr t \<Longrightarrow>
   plain_path t segs \<Longrightarrow> check t v \<Longrightarrow>
   \<exists>x tl. read_path v segs = Some x \<and> compileNode valid_rx schemas stack leaf = Inr tl \<and> check tl x \<and> expanded leaf"
proof (induction segs arbitrary: node t v)
  case (Cons s rest)
  from expanded_node [OF Cons.prems(2)] obtain kvs where node: "node = JObj kvs" "jget kvs ''$ref'' = None"
    "\<And>k v. jget (readProperties kvs) k = Some v \<Longrightarrow> expanded v" by blast
  with Cons.prems(1) obtain nxt where step: "path_step kvs s = Inr nxt" "walk_path nxt rest = Inr leaf"
    by (cases "path_step kvs s") simp_all
  from compile_base [OF Cons.prems(3)] obtain ty b where b: "t = or_null kvs b" "base_of valid_rx schemas stack kvs ty b"
    unfolding node(1) deref_here [OF node(2)] by auto
  from Cons.prems(4) obtain ts shut where ts: "t = TObject ts shut" by (cases t) simp_all
  with b have "b = TObject ts shut" by (auto simp: or_null_def split: if_splits)
  with b(2) obtain props req where obj: "object_fields kvs = Inr (props, req, shut)"
    "compile_props valid_rx schemas stack req props = Inr ts"
    by (auto simp: base_of_def compile_string_def compile_number_def compile_integer_def split: sum.splits option.splits)
  from object_fields_read [OF obj(1)] step(1) have s: "jget props s = Some nxt" "s \<in> set req"
    by (simp_all add: path_step_ok)
  from compile_props_get [OF obj(2) s(1)] s(2) obtain t' where t': "jget ts s = Some (False, t')"
    "compileNode valid_rx schemas stack nxt = Inr t'" by auto
  from Cons.prems(5) ts obtain vs where vs: "v = JObj vs"
    "\<forall>(k, optional, t)\<in>set ts. case jget vs k of None \<Rightarrow> optional | Some x \<Rightarrow> check t x"
    by (auto simp: check_object)
  from vs(2) map_of_SomeD [OF t'(1)] obtain x where x: "jget vs s = Some x" "check t' x"
    by (fastforce split: option.splits)
  have plain: "plain_path t' rest" using Cons.prems(4) ts t'(1) by simp
  have "isPlainObject x" if rest: "rest \<noteq> []"
  proof -
    from rest plain obtain us shut' where "t' = TObject us shut'" by (cases rest; cases t') simp_all
    with x(2) show ?thesis by (auto simp: check_object)
  qed
  moreover have "expanded nxt" using node(3) step(1) by (auto simp: path_step_ok)
  ultimately show ?case using Cons.IH [OF step(2) _ t'(2) plain x(2)] vs(1) x(1) by auto
qed auto

text \<open>The values of a compiled schema have the type it names.\<close>

lemma base_type_check:
  assumes "base_of valid_rx schemas stack raw ty b" "ty \<in> set scalar_types" "check b v"
  shows "valueMatchesScalarType v ty"
proof -
  from assms(1,2) consider "ty = ''string''" "compile_string valid_rx raw = Inr b" | "ty = ''number''" "compile_number raw = Inr b"
    | "ty = ''integer''" "compile_integer raw = Inr b" | "ty = ''boolean''" "b = TBoolean"
    by (auto simp: base_of_def scalar_types_def)
  then show ?thesis
  proof cases
    case 1
    with assms(3) show ?thesis
      by (auto simp: compile_string_def valueMatchesScalarType_def check_string check_string_enum split: sum.splits option.splits)
  next
    case 2
    with assms(3) show ?thesis
      by (auto simp: compile_number_def valueMatchesScalarType_def check_number split: sum.splits)
  next
    case 3
    then obtain no en where o: "readEnum integer_value raw = Inr en"
      "b = (case en of None \<Rightarrow> TInteger no | Some xs \<Rightarrow> TIntegerEnum xs no)"
      by (auto simp: compile_integer_def split: sum.splits)
    have "\<exists>q. v = JNum (Fin q) \<and> of_int \<lfloor>q\<rfloor> = q"
    proof (cases en)
      case (Some qs)
      with o(1) have "\<forall>q\<in>set qs. \<exists>i. q = of_int i"
        using readEnum_values(1) [of integer_value raw qs] all_some_set [of integer_value _ qs] by (auto simp: integer_value_def)
      with o(2) Some assms(3) show ?thesis by (auto simp: check_integer_enum)
    qed (use o(2) assms(3) in \<open>auto simp: check_integer\<close>)
    with 3(1) show ?thesis by (auto simp: valueMatchesScalarType_def)
  next
    case 4
    with assms(3) show ?thesis by (auto simp: valueMatchesScalarType_def check_boolean)
  qed
qed

end

lemma expanded_compiles:
  assumes "expanded e"
  shows "compileNode valid_rx schemas stack e = compileNode valid_rx schemas' stack' e"
proof -
  from assms obtain schemas0 stack0 node where "expandSchemaNode schemas0 stack0 node = Inr e" by (auto simp: expanded_def)
  from expansion(1) [OF this, of valid_rx] show ?thesis by simp
qed

lemma tryExpand_expanded:
  assumes "expanded e"
  shows "expanded (tryExpandSchema schemas e) \<and>
    compileNode valid_rx schemas' stack' (tryExpandSchema schemas e) = compileNode valid_rx schemas' stack' e"
proof (cases "expandPayloadSchemaRefs schemas e")
  case (Inl i)
  with assms show ?thesis by (simp add: tryExpandSchema_def)
next
  case (Inr e')
  then have ex: "expandSchemaNode schemas [] e = Inr e'" by (simp add: expandPayloadSchemaRefs_def)
  have "compileNode valid_rx schemas' stack' e' = compileNode valid_rx schemas [] e"
    using expansion(1) [OF ex, of valid_rx] by blast
  also have "\<dots> = compileNode valid_rx schemas' stack' e" by (rule expanded_compiles [OF assms])
  moreover have "expanded e'" using ex by (auto simp: expanded_def)
  ultimately show ?thesis using Inr by (simp add: tryExpandSchema_def)
qed

lemma resolve_ok:
  "resolvePayloadSchemaFieldPath schemas schema field = Inr ty \<longleftrightarrow>
   (\<exists>sch leaf. schema = Some sch \<and> list_all (\<lambda>s. s \<noteq> [] \<and> \<not> index_segment s) (split_dot field) \<and>
      walk_path (tryExpandSchema schemas sch) (split_dot field) = Inr leaf \<and> leaf_type schemas leaf = Inr ty)"
  by (auto simp: resolvePayloadSchemaFieldPath_def Let_def list_ex_iff list_all_iff split: option.split sum.split)

lemma leaf_type_ok:
  assumes "leaf_type schemas leaf = Inr ty"
  obtains raw where "tryExpandSchema schemas leaf = JObj raw" "schemaNodeType raw = Some ty"
  using assms by (auto simp: leaf_type_def split: jsval.splits if_split_asm option.splits)

context payload_checker
begin

lemma leaf_sound:
  assumes "leaf_type schemas leaf = Inr ty" "expanded leaf" "compileNode valid_rx schemas' stack' leaf = Inr t"
    "ty \<in> set scalar_types" "check t x"
  shows "x = JNull \<or> valueMatchesScalarType x ty"
proof -
  from leaf_type_ok [OF assms(1)] obtain raw where raw: "tryExpandSchema schemas leaf = JObj raw" "schemaNodeType raw = Some ty" .
  note same = tryExpand_expanded [OF assms(2), of schemas valid_rx schemas' stack', unfolded raw(1) assms(3)]
  then have "jget raw ''$ref'' = None" by (auto elim: expanded_node)
  from compile_base [OF same [THEN conjunct2]] obtain ty' b where b: "jget raw ''type'' = Some (JStr ty')" "t = or_null raw b"
    "base_of valid_rx schemas' stack' raw ty' b"
    unfolding deref_here [OF \<open>jget raw ''$ref'' = None\<close>] by auto
  with raw(2) have "ty' = ty" by (simp add: schemaNodeType_def)
  with base_type_check [OF b(3)] assms(4,5) b(2) show ?thesis by (auto simp: check_or_null)
qed

lemma path_sound:
  assumes "resolvePayloadSchemaFieldPath schemas (Some e) field = Inr ty" "expanded e"
    and "compileNode valid_rx schemas' stack' e = Inr t" "plain_path t (split_dot field)" "check t v"
  shows "\<exists>x. read_path v (split_dot field) = Some x \<and>
    (ty \<in> set scalar_types \<longrightarrow> x = JNull \<or> valueMatchesScalarType x ty)"
proof -
  from assms(1) obtain leaf where leaf: "walk_path (tryExpandSchema schemas e) (split_dot field) = Inr leaf"
    "leaf_type schemas leaf = Inr ty" by (auto simp: resolve_ok)
  note e' = tryExpand_expanded [OF assms(2), of schemas valid_rx schemas' stack']
  with walk_sound [OF leaf(1) _ _ assms(4,5), of valid_rx schemas' stack'] assms(3) obtain x tl where
    x: "read_path v (split_dot field) = Some x" "compileNode valid_rx schemas' stack' leaf = Inr tl" "check tl x" "expanded leaf"
    by auto
  with leaf_sound [OF leaf(2) x(4,2) _ x(3)] show ?thesis by blast
qed

end

section \<open>The lint of a loaded pipeline\<close>

lemma leaf_issue_none:
  "routeIfLeafSchemaIssue field op v schema = None \<Longrightarrow> \<exists>ty. resolvePayloadSchemaFieldPath [] schema field = Inr ty"
  by (auto simp: routeIfLeafSchemaIssue_def split: sum.splits path_issue.splits)

lemma lint_none:
  "routeIfFieldSchemaIssue p schema = None \<Longrightarrow> f \<in> leaf_fields p \<Longrightarrow>
     \<exists>ty. resolvePayloadSchemaFieldPath [] schema f = Inr ty"
  "children_issue ps schema = None \<Longrightarrow> p' \<in> set ps \<Longrightarrow> f \<in> leaf_fields p' \<Longrightarrow>
     \<exists>ty. resolvePayloadSchemaFieldPath [] schema f = Inr ty"
  by (induction p schema and ps schema arbitrary: and p' rule: routeIfFieldSchemaIssue_children_issue.induct)
    (auto dest: leaf_issue_none split: option.splits)

lemma collect_none:
  assumes "collectRouteIfSchemaIssues stages refs = []" "ref \<in> set refs" "wr_route ref = Some route"
    and "Forward to on (Some p) \<in> set route"
  shows "routeIfFieldSchemaIssue p (Option.bind (jget (jmap_by io_id stages) (wr_id ref)) io_output) = None"
proof -
  let ?schema = "Option.bind (jget (jmap_by io_id stages) (wr_id ref)) io_output"
  have "concat (map (entry_issue ?schema (wr_id ref)) route) = []"
    using assms(1-3) by (fastforce simp: collectRouteIfSchemaIssues_def Let_def)
  with assms(4) have "entry_issue ?schema (wr_id ref) (Forward to on (Some p)) = []" by fastforce
  then show ?thesis by (simp split: option.splits)
qed

lemma attached_expanded:
  "attachPipelineSchemas valid_rx schemas stages = Inr loaded \<Longrightarrow> stage \<in> set loaded \<Longrightarrow> io_output stage = Some e \<Longrightarrow> expanded e"
proof (induction stages arbitrary: loaded)
  case (Cons s stages)
  from Cons.prems(1) obtain sent where sent: "attach_schema valid_rx schemas (io_output s) = Inr sent"
    by (cases "attach_schema valid_rx schemas (io_output s)") simp_all
  with Cons.prems(1) obtain wanted where "attach_schema valid_rx schemas (io_input s) = Inr wanted"
    by (cases "attach_schema valid_rx schemas (io_input s)") simp_all
  with Cons.prems(1) sent obtain rest where rest: "attachPipelineSchemas valid_rx schemas stages = Inr rest"
    "loaded = s\<lparr>io_output := sent, io_input := wanted\<rparr> # rest"
    by (cases "attachPipelineSchemas valid_rx schemas stages") simp_all
  show ?case
  proof (cases "stage \<in> set rest")
    case True
    from Cons.IH [OF rest(1) True Cons.prems(3)] show ?thesis .
  next
    case False
    with Cons.prems(2,3) rest(2) have "sent = Some e" by simp
    with sent obtain sch where "map_sum id Some (expandSchemaNode schemas [] sch) = Inr (Some e)"
      by (auto simp: attach_schema_def expandPayloadSchemaRefs_def split: option.splits sum.splits)
    then show ?thesis unfolding expanded_def by (cases "expandSchemaNode schemas [] sch") auto
  qed
qed simp

text \<open>
  C22: in a loaded pipeline whose conditions pass the lint, a condition never meets a missing field:
  on the payload of every envelope that passes the assertion on the stage's output schema, each
  condition of the stage's routes fires or misses, provided that every property on the way to its
  fields, short of the last, is declared as an object that may not be null.
\<close>

theorem loaded_conditions_readable:
  assumes "payload_checker rx len check" "attachPipelineSchemas valid_rx schemas stages = Inr loaded"
    and "collectRouteIfSchemaIssues loaded refs = []"
    and "ref \<in> set refs" "wr_route ref = Some route" "Forward to on (Some p) \<in> set route"
    and "jget (jmap_by io_id loaded) (wr_id ref) = Some stage" "io_output stage = Some e"
    and "compilePayloadSchema valid_rx schemas e = Inr t" "\<forall>f\<in>leaf_fields p. plain_path t (split_dot f)"
    and "assertEnvelopePayload check valid_rx schemas envelope (io_output stage) = Inr ()" "env_status envelope = EnvSuccess"
  shows "evaluateRouteIf p (env_payload envelope) \<noteq> MissingField"
proof -
  have issue: "routeIfFieldSchemaIssue p (Some e) = None"
    using collect_none [OF assms(3-6)] assms(7,8) by simp
  have "stage \<in> set loaded" using jget_jmap_by_key [OF assms(7)] by simp
  from attached_expanded [OF assms(2) this assms(8)] have ex: "expanded e" .
  have tc: "compileNode valid_rx schemas [] e = Inr t"
    using assms(9) by (auto simp: compilePayloadSchema_def split: sum.splits prod.splits if_split_asm TSchema.splits)
  obtain payload where pl: "env_payload envelope = Some payload" "check t (JObj payload)"
    using assms(8,9,11,12) by (auto simp: assertEnvelopePayload_def assert_success_payload_def split: option.splits if_split_asm)
  have "readPayloadPath (Some payload) f \<noteq> None" if f: "f \<in> leaf_fields p" for f
  proof -
    from lint_none(1) [OF issue f] obtain ty where ty: "resolvePayloadSchemaFieldPath [] (Some e) f = Inr ty" by blast
    from payload_checker.path_sound [OF assms(1) ty ex tc _ pl(2)] assms(10) f
    obtain x where "read_path (JObj payload) (split_dot f) = Some x" by blast
    then show ?thesis by (simp add: readPayloadPath_def)
  qed
  then have "readable (Some payload) p" by (auto simp: readable_def)
  then show ?thesis unfolding pl(1) evaluate_strict(1) by (simp add: fire_if_def)
qed

text \<open>A review with a score, in a schema the stage refers to by name; the route is taken for a low score.\<close>

definition score_schema :: "(string \<times> jsval) list \<Rightarrow> jsval" where
  "score_schema keywords =
     JObj ([(''type'', JStr ''object''), (''required'', JArr [JStr ''score'']),
       (''properties'', JObj [(''score'', JObj [(''type'', JStr ''number'')])])] @ keywords)"

definition scored_schema :: jsval where
  "scored_schema =
     JObj [(''type'', JStr ''object''), (''required'', JArr [JStr ''review'']),
       (''properties'', JObj [(''review'', JObj [(''$ref'', JStr ''#/schemas/review'')])])]"

definition low_score :: RouteIfPredicate where
  "low_score = RLeaf ''review.score'' OpLt (JNum (Fin 3))"

definition scored_stage :: stage_io where
  "scored_stage = \<lparr>io_id = ''review'', io_output = Some scored_schema, io_input = None\<rparr>"

definition scored_refs :: "wiring_ref list" where
  "scored_refs = [\<lparr>wr_id = ''review'', wr_route = Some [Forward ''rework'' None (Some low_score)]\<rparr>]"

definition scored :: "jsval \<Rightarrow> StageEnvelope" where
  "scored review = (findings [])\<lparr>env_payload := Some [(''review'', review)]\<rparr>"

theorem loaded_conditions_readable_witness:
  "evaluateRouteIf low_score (env_payload (scored (JObj [(''score'', JNum (Fin 2))]))) \<noteq> MissingField"
proof -
  let ?schemas = "[(''review'', score_schema [])]"
  let ?loaded = "projr (attachPipelineSchemas (\<lambda>_. True) ?schemas [scored_stage])"
  let ?stage = "hd ?loaded"
  let ?e = "the (io_output ?stage)"
  let ?t = "projr (compilePayloadSchema (\<lambda>_. True) ?schemas ?e)"
  have law: "payload_checker (\<lambda>_ _. True) length plain_check" by (rule conforming.payload_checker_axioms)
  have loaded: "attachPipelineSchemas (\<lambda>_. True) ?schemas [scored_stage] = Inr ?loaded" by code_simp
  have lint: "collectRouteIfSchemaIssues ?loaded scored_refs = []" by code_simp
  have ref: "hd scored_refs \<in> set scored_refs" by (simp add: scored_refs_def)
  have route: "wr_route (hd scored_refs) = Some [Forward ''rework'' None (Some low_score)]" by (simp add: scored_refs_def)
  have stage: "jget (jmap_by io_id ?loaded) (wr_id (hd scored_refs)) = Some ?stage" by code_simp
  have e: "io_output ?stage = Some ?e" by code_simp
  have t: "compilePayloadSchema (\<lambda>_. True) ?schemas ?e = Inr ?t" by code_simp
  have "plain_path ?t (split_dot ''review.score'')" by code_simp
  then have plain: "\<forall>f\<in>leaf_fields low_score. plain_path ?t (split_dot f)" by (simp add: low_score_def)
  have sent: "assertEnvelopePayload plain_check (\<lambda>_. True) ?schemas (scored (JObj [(''score'', JNum (Fin 2))]))
      (io_output ?stage) = Inr ()" by code_simp
  show ?thesis
    by (rule loaded_conditions_readable [OF law loaded lint ref route _ stage e t plain sent])
      (simp_all add: scored_def findings_def)
qed

text \<open>
  The lint lets a condition pass whose path runs through a nullable object, which
  \<open>resolvePayloadSchemaFieldPath\<close> takes for an object: the payload with \<open>null\<close> there passes the
  assertion on the output schema, and the condition meets a missing field.
\<close>

theorem lint_ignores_null:
  "case attachPipelineSchemas (\<lambda>_. True) [(''review'', score_schema [(''nullable'', JBool True)])] [scored_stage] of
     Inl _ \<Rightarrow> False
   | Inr loaded \<Rightarrow>
       collectRouteIfSchemaIssues loaded scored_refs = [] \<and>
       assertEnvelopePayload plain_check (\<lambda>_. True) [] (scored JNull) (io_output (hd loaded)) = Inr () \<and>
       evaluateRouteIf low_score (env_payload (scored JNull)) = MissingField"
  by code_simp

end
