(* ===== verification/Admission_Queue.thy ===== *)
theory Admission_Queue
  imports Prelude "HOL-Library.Multiset"
begin

text \<open>
  The admission queue of the host (class \<open>AdmissionQueue\<close> of \<open>runtime/runManager.ts\<close>): the runs that
  wait for a slot, first in first out within a project, the projects in turn.  The ring of projects
  with a pointer into it refines a list of queues whose first one is next; a run is served after a
  bounded number of turns as long as no further project joins, and may starve when projects come and go.
\<close>

section \<open>The queue\<close>

record AdmissionQueueEntry =
  qe_run :: string
  qe_created :: string
  qe_caller :: "string option"

record AdmissionQueue =
  byRoot :: "(string, AdmissionQueueEntry list) jsmap"
  rrOrder :: "string list"
  rrIndex :: nat

definition cleared :: AdmissionQueue where
  "cleared = \<lparr>byRoot = [], rrOrder = [], rrIndex = 0\<rparr>"

definition queue_size :: "AdmissionQueue \<Rightarrow> nat" where
  "queue_size q = sum_list (map (length \<circ> snd) (byRoot q))"

text \<open>\<open>Array.prototype.splice(i, 1)\<close> and \<open>findIndex\<close>.\<close>

definition delete_at :: "nat \<Rightarrow> 'a list \<Rightarrow> 'a list" where
  "delete_at i xs = take i xs @ drop (Suc i) xs"

fun find_index :: "('a \<Rightarrow> bool) \<Rightarrow> 'a list \<Rightarrow> nat option" where
  "find_index P [] = None"
| "find_index P (x # xs) = (if P x then Some 0 else map_option Suc (find_index P xs))"

text \<open>The list of a project, created when it has none.\<close>

definition change_list ::
  "(AdmissionQueueEntry list \<Rightarrow> AdmissionQueueEntry list) \<Rightarrow> string \<Rightarrow> AdmissionQueue \<Rightarrow> AdmissionQueue" where
  "change_list f proj q =
     (case jget (byRoot q) proj of
        None \<Rightarrow> q\<lparr>byRoot := jset (byRoot q) proj (f []), rrOrder := rrOrder q @ [proj]\<rparr>
      | Some es \<Rightarrow> q\<lparr>byRoot := jset (byRoot q) proj (f es)\<rparr>)"

definition enqueue :: "string \<Rightarrow> AdmissionQueueEntry \<Rightarrow> AdmissionQueue \<Rightarrow> nat \<times> AdmissionQueue" where
  "enqueue proj e q = (let q' = change_list (\<lambda>es. es @ [e]) proj q in (queue_size q', q'))"

definition requeueFront :: "string \<Rightarrow> AdmissionQueueEntry \<Rightarrow> AdmissionQueue \<Rightarrow> AdmissionQueue" where
  "requeueFront proj e q = change_list (\<lambda>es. e # es) proj q"

definition leave_ring :: "string \<Rightarrow> AdmissionQueue \<Rightarrow> AdmissionQueue" where
  "leave_ring proj q =
     (case index_of (rrOrder q) proj of
        None \<Rightarrow> q
      | Some i \<Rightarrow>
          (let order = delete_at i (rrOrder q) in
           q\<lparr>rrOrder := order,
             rrIndex := if order = [] then 0 else if i < rrIndex q then rrIndex q - 1
               else if rrIndex q \<ge> length order then 0 else rrIndex q\<rparr>))"

definition remove_run :: "string \<Rightarrow> AdmissionQueue \<Rightarrow> bool \<times> AdmissionQueue" where
  "remove_run run q =
     (case List.find (\<lambda>(proj, es). find_index (\<lambda>e. qe_run e = run) es \<noteq> None) (byRoot q) of
        None \<Rightarrow> (False, q)
      | Some (proj, es) \<Rightarrow>
          (let es' = delete_at (the (find_index (\<lambda>e. qe_run e = run) es)) es in
           (True, if es' = [] then leave_ring proj (q\<lparr>byRoot := jdel (byRoot q) proj\<rparr>)
                  else q\<lparr>byRoot := jset (byRoot q) proj es'\<rparr>)))"

text \<open>\<open>toLowerCase\<close> on the letters of ASCII.\<close>

definition lower_char :: "char \<Rightarrow> char" where
  "lower_char c = (if 65 \<le> (of_char c :: nat) \<and> (of_char c :: nat) \<le> 90 then char_of ((of_char c :: nat) + 32) else c)"

definition to_lower :: "string \<Rightarrow> string" where
  "to_lower s = map lower_char s"

definition caller_free :: "string list \<Rightarrow> AdmissionQueueEntry \<Rightarrow> bool" where
  "caller_free skipCallers e =
     (case qe_caller e of None \<Rightarrow> True | Some c \<Rightarrow> c = [] \<or> to_lower c \<notin> set skipCallers)"

definition pick_index :: "string list \<Rightarrow> AdmissionQueueEntry list \<Rightarrow> nat option" where
  "pick_index skipCallers es =
     (if es = [] then None else if skipCallers = [] then Some 0 else find_index (caller_free skipCallers) es)"

definition slot_pick :: "AdmissionQueue \<Rightarrow> string list \<Rightarrow> string list \<Rightarrow> nat \<Rightarrow> nat option" where
  "slot_pick q skipRoots skipCallers idx =
     (let proj = rrOrder q ! idx in
      if proj \<in> set skipRoots then None
      else case jget (byRoot q) proj of None \<Rightarrow> None | Some es \<Rightarrow> pick_index skipCallers es)"

definition take_pick :: "AdmissionQueue \<Rightarrow> nat \<Rightarrow> nat \<Rightarrow> string \<times> AdmissionQueueEntry \<times> AdmissionQueue" where
  "take_pick q idx i =
     (let proj = rrOrder q ! idx; es = jget_or (byRoot q) proj []; es' = delete_at i es in
      (proj, es ! i,
       if es' = [] then
         (let order = delete_at idx (rrOrder q) in
          q\<lparr>byRoot := jdel (byRoot q) proj, rrOrder := order,
            rrIndex := if order = [] then 0 else idx mod length order\<rparr>)
       else q\<lparr>byRoot := jset (byRoot q) proj es', rrIndex := (idx + 1) mod length (rrOrder q)\<rparr>))"

definition ring_from :: "AdmissionQueue \<Rightarrow> nat list" where
  "ring_from q = (let n = length (rrOrder q) in map (\<lambda>step. (rrIndex q mod n + step) mod n) [0..<n])"

definition dequeueNext ::
  "string list \<Rightarrow> string list \<Rightarrow> AdmissionQueue \<Rightarrow> (string \<times> AdmissionQueueEntry \<times> AdmissionQueue) option" where
  "dequeueNext skipRoots skipCallers q =
     (if rrOrder q = [] then None
      else case List.find (\<lambda>idx. slot_pick q skipRoots skipCallers idx \<noteq> None) (ring_from q) of
        None \<Rightarrow> None
      | Some idx \<Rightarrow> Some (take_pick q idx (the (slot_pick q skipRoots skipCallers idx))))"

section \<open>Queues in turn\<close>

text \<open>What the queue promises: the projects that wait, the next one first, each with its runs.\<close>

type_synonym turns = "(string \<times> AdmissionQueueEntry list) list"

definition rotation :: "AdmissionQueue \<Rightarrow> turns" where
  "rotation q = map (\<lambda>r. (r, jget_or (byRoot q) r [])) (rotate (rrIndex q) (rrOrder q))"

fun next_turn :: "string list \<Rightarrow> string list \<Rightarrow> turns \<Rightarrow> turns \<Rightarrow> (string \<times> AdmissionQueueEntry \<times> turns) option" where
  "next_turn skipRoots skipCallers before [] = None"
| "next_turn skipRoots skipCallers before ((r, es) # rest) =
     (case if r \<in> set skipRoots then None else pick_index skipCallers es of
        None \<Rightarrow> next_turn skipRoots skipCallers (before @ [(r, es)]) rest
      | Some i \<Rightarrow>
          Some (r, es ! i, rest @ before @ (if delete_at i es = [] then [] else [(r, delete_at i es)])))"

definition wf_queue :: "AdmissionQueue \<Rightarrow> bool" where
  "wf_queue q \<longleftrightarrow> distinct (rrOrder q) \<and> distinct (jkeys (byRoot q)) \<and> set (rrOrder q) = set (jkeys (byRoot q)) \<and>
     (\<forall>x\<in>set (byRoot q). snd x \<noteq> []) \<and>
     (if rrOrder q = [] then rrIndex q = 0 else rrIndex q < length (rrOrder q))"

lemma wf_cleared [simp]: "wf_queue cleared"
  by (simp add: wf_queue_def cleared_def)

lemma wf_get: "wf_queue q \<Longrightarrow> r \<in> set (rrOrder q) \<longleftrightarrow> (\<exists>e es. jget (byRoot q) r = Some (e # es))"
proof -
  assume wf: "wf_queue q"
  have "es \<noteq> []" if "jget (byRoot q) r = Some es" for es
    using wf map_of_SomeD [OF that] by (fastforce simp: wf_queue_def)
  moreover have "r \<in> set (rrOrder q) \<longleftrightarrow> jget (byRoot q) r \<noteq> None"
    using wf by (simp add: wf_queue_def jget_eq_None_iff del: set_map)
  ultimately show ?thesis by (cases "jget (byRoot q) r") (auto simp: neq_Nil_conv)
qed

lemma set_delete_at: "distinct xs \<Longrightarrow> i < length xs \<Longrightarrow> set (delete_at i xs) = set xs - {xs ! i}"
proof (induction xs arbitrary: i)
  case (Cons x xs)
  then show ?case by (cases i) (auto simp: delete_at_def nth_mem)
qed simp

lemma distinct_delete_at: "distinct xs \<Longrightarrow> distinct (delete_at i xs)"
proof -
  assume d: "distinct xs"
  have "set (take i xs) \<inter> set (drop (Suc i) xs) = {}" using d set_take_disj_set_drop_if_distinct [of xs i "Suc i"] by simp
  with d show ?thesis by (simp add: delete_at_def)
qed

lemma length_delete_at: "i < length xs \<Longrightarrow> length (delete_at i xs) = length xs - 1"
  by (simp add: delete_at_def)

lemma find_nth: "List.find P xs = map_option ((!) xs) (find_index P xs)"
  by (induction xs) (auto simp: option.map_comp comp_def)

lemma find_index_cong:
  "list_all2 (\<lambda>x y. P x = Q y) xs ys \<Longrightarrow> find_index P xs = find_index Q ys"
  by (induction rule: list_all2_induct) auto

lemma find_index_SomeD: "find_index P xs = Some i \<Longrightarrow> i < length xs \<and> P (xs ! i)"
  by (induction xs arbitrary: i) (auto split: if_splits)

lemma find_index_None: "find_index P xs = None \<longleftrightarrow> (\<forall>x\<in>set xs. \<not> P x)"
  by (induction xs) auto

lemma pick_index_less: "pick_index C es = Some i \<Longrightarrow> i < length es"
  by (auto simp: pick_index_def dest: find_index_SomeD split: if_splits)

definition choice :: "string list \<Rightarrow> string list \<Rightarrow> string \<times> AdmissionQueueEntry list \<Rightarrow> nat option" where
  "choice R C x = (if fst x \<in> set R then None else pick_index C (snd x))"

lemma next_turn_index:
  "next_turn R C before L =
     map_option (\<lambda>k. (fst (L ! k), snd (L ! k) ! the (choice R C (L ! k)),
       drop (Suc k) L @ before @ take k L @
         (let es = delete_at (the (choice R C (L ! k))) (snd (L ! k)) in if es = [] then [] else [(fst (L ! k), es)])))
       (find_index (\<lambda>x. choice R C x \<noteq> None) L)"
proof (induction L arbitrary: before)
  case (Cons x L)
  obtain r es where x: "x = (r, es)" by fastforce
  show ?case
  proof (cases "choice R C x")
    case None
    with x have "next_turn R C before (x # L) = next_turn R C (before @ [x]) L"
      by (cases "r \<in> set R") (simp_all add: choice_def)
    with None Cons.IH [of "before @ [x]"] show ?thesis
      by (cases "find_index (\<lambda>x. choice R C x \<noteq> None) L") (simp_all add: Let_def)
  next
    case (Some i)
    then have "r \<notin> set R" "pick_index C es = Some i" by (simp_all add: x choice_def split: if_splits)
    with Some show ?thesis by (simp add: x Let_def)
  qed
qed simp

lemma rotation_nth:
  assumes "k < length (rrOrder q)"
  shows "rotation q ! k = (rrOrder q ! ((rrIndex q + k) mod length (rrOrder q)),
    jget_or (byRoot q) (rrOrder q ! ((rrIndex q + k) mod length (rrOrder q))) [])"
  using assms by (simp add: rotation_def nth_rotate)

lemma length_rotation [simp]: "length (rotation q) = length (rrOrder q)"
  by (simp add: rotation_def)

lemma length_ring_from [simp]: "length (ring_from q) = length (rrOrder q)"
  by (simp add: ring_from_def Let_def)

lemma ring_from_nth: "wf_queue q \<Longrightarrow> k < length (rrOrder q) \<Longrightarrow> ring_from q ! k = (rrIndex q + k) mod length (rrOrder q)"
  by (simp add: ring_from_def Let_def mod_add_left_eq)

lemma slot_choice:
  assumes wf: "wf_queue q" and k: "k < length (rrOrder q)"
  shows "slot_pick q R C (ring_from q ! k) = choice R C (rotation q ! k)"
proof -
  let ?r = "rrOrder q ! ((rrIndex q + k) mod length (rrOrder q))"
  have "?r \<in> set (rrOrder q)" using k by (intro nth_mem) (auto intro: mod_less_divisor simp del: mod_less)
  then obtain e es where "jget (byRoot q) ?r = Some (e # es)" using wf_get [OF wf] by blast
  then show ?thesis by (simp add: slot_pick_def choice_def rotation_nth [OF k] ring_from_nth [OF wf k] Let_def)
qed

lemma rotate_delete_at: "i < length xs \<Longrightarrow> rotate i (delete_at i xs) = drop (Suc i) xs @ take i xs"
  using rotate_append [of "take i xs" "drop (Suc i) xs"] by (simp add: delete_at_def min_def)

lemma rotate_split: "s \<le> length xs \<Longrightarrow> rotate s xs = drop s xs @ take s xs"
proof -
  assume "s \<le> length xs"
  then have l: "length (take s xs) = s" by simp
  show ?thesis using rotate_append [of "take s xs" "drop s xs"] unfolding l append_take_drop_id .
qed

lemma rotate_Suc_split: "k < length xs \<Longrightarrow> rotate (Suc k) xs = drop (Suc k) xs @ take k xs @ [xs ! k]"
  using rotate_split [of "Suc k" xs] by (simp only: Suc_le_eq take_Suc_conv_app_nth)

lemma rotate_past:
  assumes "k < length xs" "s < length xs"
  shows "drop (Suc ((s + k) mod length xs)) xs @ take ((s + k) mod length xs) xs = drop (Suc k) (rotate s xs) @ take k (rotate s xs)"
proof -
  let ?i = "(s + k) mod length xs"
  have i: "?i < length xs" using assms by (intro mod_less_divisor) auto
  have "rotate (Suc ?i) xs = rotate (Suc k) (rotate s xs)"
    by (metis (no_types, lifting) add.commute add_Suc_right mod_Suc_eq rotate_conv_mod rotate_rotate)
  then have "(drop (Suc ?i) xs @ take ?i xs) @ [xs ! ?i] = (drop (Suc k) (rotate s xs) @ take k (rotate s xs)) @ [rotate s xs ! k]"
    using rotate_Suc_split [OF i] rotate_Suc_split [of k "rotate s xs"] assms(1) by simp
  then show ?thesis by simp
qed

lemma rotation_off:
  "map (\<lambda>r. (r, jget_or (jdel m p) r [])) (delete_at i xs) = map (\<lambda>r. (r, jget_or m r [])) (delete_at i xs)"
  if "distinct xs" "i < length xs" "xs ! i = p"
  using set_delete_at [OF that(1,2)] that(3) by (auto simp: jget_or_def)

lemma wf_change:
  assumes "wf_queue q" "r \<in> set (rrOrder q)" "es \<noteq> []" "j < length (rrOrder q)"
  shows "wf_queue (q\<lparr>byRoot := jset (byRoot q) r es, rrIndex := j\<rparr>)"
proof -
  have "r \<in> set (jkeys (byRoot q))" using assms(1,2) by (simp add: wf_queue_def del: set_map)
  note keys = jkeys_jset_present [OF this, of es]
  have "snd x \<noteq> []" if "x \<in> set (jset (byRoot q) r es)" for x
    using jvals_jset [of "snd x" r es "byRoot q"] that assms(1,3) by (auto simp: wf_queue_def)
  then show ?thesis using assms keys by (auto simp: wf_queue_def simp del: set_map)
qed

lemma wf_drop:
  assumes "wf_queue q" "idx < length (rrOrder q)" "p = rrOrder q ! idx"
    and "if delete_at idx (rrOrder q) = [] then j = 0 else j < length (delete_at idx (rrOrder q))"
  shows "wf_queue (q\<lparr>byRoot := jdel (byRoot q) p, rrOrder := delete_at idx (rrOrder q), rrIndex := j\<rparr>)"
proof -
  have d: "distinct (rrOrder q)" using assms(1) by (simp add: wf_queue_def)
  have "jkeys (jdel (byRoot q) p) = removeAll p (jkeys (byRoot q))" by (rule delete_keys)
  moreover have "set (delete_at idx (rrOrder q)) = set (rrOrder q) - {p}" using set_delete_at [OF d assms(2)] assms(3) by simp
  moreover have "\<forall>x\<in>set (jdel (byRoot q) p). snd x \<noteq> []" using assms(1) by (simp add: wf_queue_def AList.delete_eq)
  ultimately show ?thesis using assms(1,4) distinct_delete_at [OF d]
    by (simp add: wf_queue_def distinct_removeAll del: set_map)
qed

lemma take_pick_rotation:
  assumes wf: "wf_queue q" and k: "k < length (rrOrder q)" and pick: "choice R C (rotation q ! k) = Some i"
    and eq: "take_pick q (ring_from q ! k) i = (p, e, q')"
  shows "p = fst (rotation q ! k) \<and> e = snd (rotation q ! k) ! i \<and> wf_queue q' \<and>
    rotation q' = drop (Suc k) (rotation q) @ take k (rotation q) @
      (let es = delete_at i (snd (rotation q ! k)) in if es = [] then [] else [(fst (rotation q ! k), es)])"
proof -
  let ?n = "length (rrOrder q)" and ?m = "\<lambda>r. (r, jget_or (byRoot q) r [])"
  let ?idx = "(rrIndex q + k) mod ?n"
  have n: "0 < ?n" using k by (cases "rrOrder q") simp_all
  then have idx: "?idx < ?n" by (rule mod_less_divisor)
  have s: "rrIndex q < ?n" and d: "distinct (rrOrder q)" using wf k by (auto simp: wf_queue_def split: if_splits)
  let ?p = "rrOrder q ! ?idx"
  have p: "rotation q ! k = (?p, jget_or (byRoot q) ?p [])" by (rule rotation_nth [OF k])
  let ?es = "jget_or (byRoot q) ?p []"
  note eq' = eq [unfolded take_pick_def Let_def ring_from_nth [OF wf k]]
  note parts = eq' [unfolded prod.inject]
  have pe: "p = ?p" "e = ?es ! i" using parts by blast+
  have shift: "map ?m (drop (Suc ?idx) (rrOrder q) @ take ?idx (rrOrder q)) = drop (Suc k) (rotation q) @ take k (rotation q)"
    unfolding rotation_def drop_map take_map map_append [symmetric] rotate_past [OF k s] ..
  show ?thesis
  proof (cases "delete_at i ?es = []")
    case True
    let ?order = "delete_at ?idx (rrOrder q)"
    have q': "q' = q\<lparr>byRoot := jdel (byRoot q) ?p, rrOrder := ?order,
        rrIndex := if ?order = [] then 0 else ?idx mod length ?order\<rparr>" 
      using parts [THEN conjunct2, THEN conjunct2] unfolding if_P [OF True] by (rule sym)
    have "rotation q' = map (\<lambda>r. (r, jget_or (jdel (byRoot q) ?p) r [])) (rotate (rrIndex q') ?order)"
      by (simp add: rotation_def q')
    also have "\<dots> = map ?m (rotate (rrIndex q') ?order)"
      unfolding rotate_map [symmetric] rotation_off [OF d idx refl] ..
    also have "rotate (rrIndex q') ?order = rotate ?idx ?order"
      by (simp add: q' rotate_conv_mod [of ?idx ?order])
    also have "\<dots> = drop (Suc ?idx) (rrOrder q) @ take ?idx (rrOrder q)" by (rule rotate_delete_at [OF idx])
    finally have rot: "rotation q' = drop (Suc k) (rotation q) @ take k (rotation q)" using shift by simp
    have "wf_queue q'" unfolding q' by (rule wf_drop [OF wf idx refl]) simp
    with rot True pe p show ?thesis by simp
  next
    case False
    have q': "q' = q\<lparr>byRoot := jset (byRoot q) ?p (delete_at i ?es), rrIndex := (?idx + 1) mod ?n\<rparr>" 
      using parts [THEN conjunct2, THEN conjunct2] unfolding if_not_P [OF False] by (rule sym)
    let ?m' = "\<lambda>r. (r, jget_or (jset (byRoot q) ?p (delete_at i ?es)) r [])"
    have "rotation q' = map ?m' (rotate (Suc ?idx) (rrOrder q))"
      unfolding rotation_def q' by (simp add: rotate_conv_mod [of "Suc ?idx" "rrOrder q", symmetric] del: rotate_Suc)
    also have "\<dots> = map ?m' (drop (Suc ?idx) (rrOrder q) @ take ?idx (rrOrder q)) @ [(?p, delete_at i ?es)]"
      by (simp add: rotate_Suc_split [OF idx] del: rotate_Suc)
    also have "map ?m' (drop (Suc ?idx) (rrOrder q) @ take ?idx (rrOrder q)) =
        map ?m (drop (Suc ?idx) (rrOrder q) @ take ?idx (rrOrder q))"
    proof (rule map_cong [OF refl])
      fix r assume "r \<in> set (drop (Suc ?idx) (rrOrder q) @ take ?idx (rrOrder q))"
      then have "r \<noteq> ?p" using set_delete_at [OF d idx] by (auto simp: delete_at_def)
      then show "?m' r = ?m r" by simp
    qed
    finally have rot: "rotation q' = drop (Suc k) (rotation q) @ take k (rotation q) @ [(?p, delete_at i ?es)]" using shift by simp
    have "wf_queue q'" unfolding q'
      by (rule wf_change [OF wf _ False]) (use idx mod_less_divisor [OF n, of "Suc ?idx"] in simp_all)
    with rot False pe p show ?thesis by simp
  qed
qed

lemma dequeue_turn:
  assumes wf: "wf_queue q"
  shows "case dequeueNext R C q of
      None \<Rightarrow> next_turn R C [] (rotation q) = None
    | Some (p, e, q') \<Rightarrow> wf_queue q' \<and> next_turn R C [] (rotation q) = Some (p, e, rotation q')"
proof (cases "rrOrder q = []")
  case True
  then show ?thesis by (simp add: dequeueNext_def rotation_def)
next
  case False
  have "find_index (\<lambda>idx. slot_pick q R C idx \<noteq> None) (ring_from q) = find_index (\<lambda>x. choice R C x \<noteq> None) (rotation q)"
    by (rule find_index_cong) (simp add: list_all2_conv_all_nth slot_choice [OF wf])
  then have found: "List.find (\<lambda>idx. slot_pick q R C idx \<noteq> None) (ring_from q) =
      map_option ((!) (ring_from q)) (find_index (\<lambda>x. choice R C x \<noteq> None) (rotation q))"
    by (simp only: find_nth)
  show ?thesis
  proof (cases "find_index (\<lambda>x. choice R C x \<noteq> None) (rotation q)")
    case None
    with False found show ?thesis by (simp add: dequeueNext_def next_turn_index)
  next
    case (Some k)
    then have k: "k < length (rrOrder q)" and "choice R C (rotation q ! k) \<noteq> None"
      using find_index_SomeD [OF Some] by simp_all
    then obtain i where i: "choice R C (rotation q ! k) = Some i" by blast
    obtain p e q' where t: "take_pick q (ring_from q ! k) i = (p, e, q')" by (metis prod_cases3)
    have "dequeueNext R C q = Some (p, e, q')"
      using False found Some t i by (simp add: dequeueNext_def slot_choice [OF wf k])
    moreover have "next_turn R C [] (rotation q) = Some (p, e, rotation q')"
      using take_pick_rotation [OF wf k i t] Some i by (simp add: next_turn_index Let_def)
    ultimately show ?thesis using take_pick_rotation [OF wf k i t] by simp
  qed
qed

text \<open>A run that joins a project already waiting goes behind the project's runs.\<close>

definition add_run :: "(AdmissionQueueEntry list \<Rightarrow> AdmissionQueueEntry list) \<Rightarrow> string \<Rightarrow> turns \<Rightarrow> turns" where
  "add_run f p L = map (\<lambda>(r, es). (r, if r = p then f es else es)) L"

lemma wf_change_list:
  assumes wf: "wf_queue q" and f: "\<And>es. f es \<noteq> []"
  shows "wf_queue (change_list f p q)"
proof (cases "jget (byRoot q) p")
  case None
  then have new: "p \<notin> set (jkeys (byRoot q))" by (simp add: jget_eq_None_iff del: set_map)
  have "snd x \<noteq> []" if "x \<in> set (jset (byRoot q) p (f []))" for x
    using jvals_jset [of "snd x" p "f []" "byRoot q"] that wf f by (auto simp: wf_queue_def)
  moreover have "rrIndex q < Suc (length (rrOrder q))" using wf by (cases "rrOrder q = []") (simp_all add: wf_queue_def)
  ultimately show ?thesis using None new jkeys_jset_absent [OF new, of "f []"] wf
    by (simp add: change_list_def wf_queue_def del: set_map)
next
  case (Some es)
  then have p: "p \<in> set (rrOrder q)" using jget_SomeD [OF Some] wf by (simp add: wf_queue_def del: set_map)
  moreover from p wf have "rrIndex q < length (rrOrder q)" by (cases "rrOrder q = []") (simp_all add: wf_queue_def)
  ultimately show ?thesis using wf_change [OF wf p f [of es], of "rrIndex q"] Some by (simp add: change_list_def)
qed

lemma change_list_rotation:
  assumes "wf_queue q" "p \<in> set (map fst (rotation q))"
  shows "rotation (change_list f p q) = add_run f p (rotation q)"
proof -
  from assms obtain es where "jget (byRoot q) p = Some es"
    using wf_get [OF assms(1), of p] by (auto simp: rotation_def)
  then show ?thesis by (simp add: change_list_def rotation_def add_run_def)
qed

text \<open>A project that joins is put before the pointer of the ring, so possibly ahead of others.\<close>

lemma change_list_joins:
  assumes "wf_queue q" "p \<notin> set (map fst (rotation q))"
  shows "\<exists>xs ys. rotation q = xs @ ys \<and> rotation (change_list f p q) = xs @ (p, f []) # ys"
proof -
  let ?s = "rrIndex q"
  have new: "jget (byRoot q) p = None" "p \<notin> set (rrOrder q)"
    using assms by (simp_all add: rotation_def wf_queue_def jget_eq_None_iff image_comp comp_def)
  let ?m = "\<lambda>r. (r, jget_or (byRoot q) r [])" and ?m' = "\<lambda>r. (r, jget_or (jset (byRoot q) p (f [])) r [])"
  have s: "?s \<le> length (rrOrder q)" using assms(1) by (auto simp: wf_queue_def split: if_splits)
  have "rotate ?s (rrOrder q @ [p]) = drop ?s (rrOrder q) @ p # take ?s (rrOrder q)"
    using rotate_split [of ?s "rrOrder q @ [p]"] s by simp
  moreover have "rotate ?s (rrOrder q) = drop ?s (rrOrder q) @ take ?s (rrOrder q)" by (rule rotate_split [OF s])
  moreover have "map ?m' xs = map ?m xs" if "set xs \<subseteq> set (rrOrder q)" for xs
    using that new(2) by auto
  moreover have "set (drop ?s (rrOrder q)) \<subseteq> set (rrOrder q)" "set (take ?s (rrOrder q)) \<subseteq> set (rrOrder q)"
    by (simp_all add: set_drop_subset set_take_subset)
  ultimately have "rotation q = map ?m (drop ?s (rrOrder q)) @ map ?m (take ?s (rrOrder q))"
    "rotation (change_list f p q) = map ?m (drop ?s (rrOrder q)) @ (p, f []) # map ?m (take ?s (rrOrder q))"
    using new(1) by (simp_all add: rotation_def change_list_def)
  then show ?thesis by blast
qed

section \<open>Leaving the queue\<close>

definition waiting :: "turns \<Rightarrow> string list" where
  "waiting L = map qe_run (concat (map snd L))"

definition without :: "string \<Rightarrow> turns \<Rightarrow> turns" where
  "without run L = filter (\<lambda>x. snd x \<noteq> []) (map (\<lambda>(r, es). (r, filter (\<lambda>e. qe_run e \<noteq> run) es)) L)"

lemma waiting_simps [simp]:
  "waiting [] = []" "waiting (x # L) = map qe_run (snd x) @ waiting L" "waiting (K @ L) = waiting K @ waiting L"
  by (simp_all add: waiting_def)

lemma waiting_without: "waiting (without run L) = filter (\<lambda>r. r \<noteq> run) (waiting L)"
  by (induction L) (auto simp: without_def filter_map comp_def)

lemma delete_at_found:
  "distinct (map f xs) \<Longrightarrow> find_index (\<lambda>x. f x = a) xs = Some i \<Longrightarrow> delete_at i xs = filter (\<lambda>x. f x \<noteq> a) xs"
proof (induction xs arbitrary: i)
  case (Cons x xs)
  show ?case
  proof (cases "f x = a")
    case True
    with Cons.prems(1) have "filter (\<lambda>x. f x \<noteq> a) xs = xs" by (force simp: filter_id_conv image_iff)
    with True Cons.prems(2) show ?thesis by (simp add: delete_at_def)
  next
    case False
    with Cons.prems obtain j where "find_index (\<lambda>x. f x = a) xs = Some j" "i = Suc j" by auto
    with Cons.IH [of j] Cons.prems(1) False show ?thesis by (simp add: delete_at_def)
  qed
qed simp

lemma leave_ring_rotation:
  assumes d: "distinct xs" and i: "index_of xs p = Some i" and s: "s < length xs"
    and t: "t = (if delete_at i xs = [] then 0 else if i < s then s - 1 else if s \<ge> length (delete_at i xs) then 0 else s)"
  shows "rotate t (delete_at i xs) = removeAll p (rotate s xs)"
proof -
  have ip: "i < length xs" "xs ! i = p" using index_of_SomeD [OF i] by simp_all
  have del: "delete_at i xs = removeAll p xs"
  proof -
    have eq: "xs = take i xs @ p # drop (Suc i) xs" using ip by (metis id_take_nth_drop)
    with d have "p \<notin> set (take i xs)" "p \<notin> set (drop (Suc i) xs)"
      by (metis distinct.simps(2) distinct_append not_distinct_conv_prefix, metis distinct.simps(2) distinct_append)
    then show ?thesis by (subst (2) eq) (simp add: delete_at_def removeAll_id)
  qed
  let ?a = "removeAll p (take s xs)" and ?b = "removeAll p (drop s xs)"
  have ab: "delete_at i xs = ?a @ ?b" unfolding del by (metis append_take_drop_id removeAll_append)
  have rot: "removeAll p (rotate s xs) = ?b @ ?a" using rotate_split [of s xs] s by simp
  have "p \<in> set (take s xs) \<longleftrightarrow> i < s"
    using ip s d by (auto simp: in_set_conv_nth nth_eq_iff_index_eq)
  then have la: "length ?a = (if i < s then s - 1 else s)"
    using d s by (simp add: distinct_remove1_removeAll [symmetric] length_remove1)
  have lab: "length (delete_at i xs) = length xs - 1" using ip by (simp add: length_delete_at)
  have "t = length ?a \<or> ?b = [] \<and> t = 0"
    using t la lab ab s by (auto split: if_splits)
  then show ?thesis unfolding rot ab using rotate_append [of ?a ?b] by auto
qed

lemma waiting_in: "(r, us) \<in> set L \<Longrightarrow> qe_run ` set us \<subseteq> set (waiting L)"
  by (induction L) (fastforce simp: waiting_def)+

lemma waiting_apart:
  "distinct (waiting L) \<Longrightarrow> (r, us) \<in> set L \<Longrightarrow> (p, es) \<in> set L \<Longrightarrow> r \<noteq> p \<Longrightarrow> qe_run ` set us \<inter> qe_run ` set es = {}"
proof (induction L)
  case (Cons x L)
  have "qe_run ` set (snd x) \<inter> set (waiting L) = {}" using Cons.prems(1) by simp
  with Cons waiting_in [of r us L] waiting_in [of p es L] show ?case by (cases x) (simp, blast)
qed simp

lemma remove_run_rotation:
  assumes wf: "wf_queue q" and d: "distinct (waiting (rotation q))"
    and eq: "remove_run run q = (removed, q')"
  shows "wf_queue q' \<and> (removed \<longleftrightarrow> run \<in> set (waiting (rotation q))) \<and> rotation q' = without run (rotation q)"
proof -
  have full: "snd x \<noteq> []" if "x \<in> set (rotation q)" for x
    using that wf_get [OF wf] by (fastforce simp: rotation_def)
  have inside: "(r, es) \<in> set (rotation q) \<longleftrightarrow> (r, es) \<in> set (byRoot q)" for r es
  proof
    assume "(r, es) \<in> set (rotation q)"
    then have "r \<in> set (rrOrder q)" "es = jget_or (byRoot q) r []" by (auto simp: rotation_def)
    then show "(r, es) \<in> set (byRoot q)" using wf_get [OF wf] by (fastforce dest: map_of_SomeD)
  next
    assume m: "(r, es) \<in> set (byRoot q)"
    then have "jget (byRoot q) r = Some es" using wf by (intro map_of_is_SomeI) (simp_all add: wf_queue_def del: set_map)
    moreover have "r \<in> set (rrOrder q)" using m wf by (force simp: wf_queue_def)
    ultimately show "(r, es) \<in> set (rotation q)" by (force simp: rotation_def)
  qed
  have in_waiting: "r \<in> set (waiting (rotation q)) \<longleftrightarrow> (\<exists>(p, es)\<in>set (byRoot q). r \<in> qe_run ` set es)" for r
    using inside by (fastforce simp: waiting_def)
  let ?has = "\<lambda>(p, es). find_index (\<lambda>e. qe_run e = run) es \<noteq> None"
  have has: "?has (p, es) \<longleftrightarrow> run \<in> qe_run ` set es" for p es
    using find_index_None [of "\<lambda>e. qe_run e = run" es] by auto
  show ?thesis
  proof (cases "List.find ?has (byRoot q)")
    case None
    then have "\<not> ?has (p, es)" if "(p, es) \<in> set (byRoot q)" for p es using that unfolding find_eq_None_iff by blast
    then have no: "run \<notin> set (waiting (rotation q))" using in_waiting has by fast
    have "map (\<lambda>(r, es). (r, filter (\<lambda>e. qe_run e \<noteq> run) es)) (rotation q) = rotation q"
      using no by (intro map_idI) (force simp: waiting_def filter_id_conv)
    moreover have "filter (\<lambda>x. snd x \<noteq> []) (rotation q) = rotation q" using full by (simp add: filter_id_conv)
    ultimately have "without run (rotation q) = rotation q" by (simp add: without_def)
    with None no eq wf show ?thesis by (simp add: remove_run_def)
  next
    case (Some x)
    obtain p es where x: "x = (p, es)" by fastforce
    from find_SomeD [OF Some] x have m: "(p, es) \<in> set (byRoot q)" "run \<in> qe_run ` set es" using has by auto
    then have get: "jget (byRoot q) p = Some es" using wf by (intro map_of_is_SomeI) (simp_all add: wf_queue_def del: set_map)
    have p: "p \<in> set (rrOrder q)" using m(1) wf by (force simp: wf_queue_def)
    have dist: "distinct (rrOrder q)" using wf by (simp add: wf_queue_def)
    have de: "distinct (map qe_run es)" and other: "\<And>r us. (r, us) \<in> set (rotation q) \<Longrightarrow> r \<noteq> p \<Longrightarrow> run \<notin> qe_run ` set us"
    proof -
      obtain L1 L2 where L: "rotation q = L1 @ (p, es) # L2" using inside m(1) by (metis split_list)
      show "distinct (map qe_run es)" using d L by simp
      fix r us assume u: "(r, us) \<in> set (rotation q)" "r \<noteq> p"
      from waiting_apart [OF d u(1) _ u(2)] inside m(1) have "qe_run ` set us \<inter> qe_run ` set es = {}" by blast
      then show "run \<notin> qe_run ` set us" using m(2) by blast
    qed
    obtain i where i: "find_index (\<lambda>e. qe_run e = run) es = Some i" using has [of p es] m(2) by auto
    let ?es = "filter (\<lambda>e. qe_run e \<noteq> run) es"
    have del: "delete_at i es = ?es" by (rule delete_at_found [OF de i])
    let ?m = "\<lambda>r. (r, filter (\<lambda>e. qe_run e \<noteq> run) (jget_or (byRoot q) r []))"
    have keep: "filter (\<lambda>e. qe_run e \<noteq> run) (jget_or (byRoot q) r []) = jget_or (byRoot q) r []"
      if "r \<in> set (rrOrder q)" "r \<noteq> p" for r
      using other [of r "jget_or (byRoot q) r []"] that by (auto simp: rotation_def filter_id_conv)
    have w: "without run (rotation q) = filter (\<lambda>x. snd x \<noteq> []) (map ?m (rotate (rrIndex q) (rrOrder q)))"
      by (simp add: without_def rotation_def comp_def)
    have stays: "jget_or (byRoot q) r [] \<noteq> []" if "r \<in> set (rrOrder q)" for r using wf_get [OF wf, of r] that by auto
    have found: "remove_run run q = (True, if ?es = [] then leave_ring p (q\<lparr>byRoot := jdel (byRoot q) p\<rparr>)
        else q\<lparr>byRoot := jset (byRoot q) p ?es\<rparr>)"
      using Some x i del by (simp add: remove_run_def Let_def)
    have rm: "removed" using found eq by simp
    have yes: "run \<in> set (waiting (rotation q))" using in_waiting m by blast
    show ?thesis
    proof (cases "?es = []")
      case True
      obtain j where j: "index_of (rrOrder q) p = Some j" using p index_of_None_iff [of "rrOrder q" p] by auto
      have jl: "j < length (rrOrder q)" "rrOrder q ! j = p" using index_of_SomeD [OF j] by simp_all
      let ?order = "delete_at j (rrOrder q)"
      let ?t = "if ?order = [] then 0 else if j < rrIndex q then rrIndex q - 1
        else if rrIndex q \<ge> length ?order then 0 else rrIndex q"
      have q': "q' = q\<lparr>byRoot := jdel (byRoot q) p, rrOrder := ?order, rrIndex := ?t\<rparr>"
        using found eq True j by (simp add: leave_ring_def Let_def)
      have s: "rrIndex q < length (rrOrder q)" using wf jl(1) by (cases "rrOrder q = []") (simp_all add: wf_queue_def)
      have rot: "rotate ?t ?order = removeAll p (rotate (rrIndex q) (rrOrder q))"
        by (rule leave_ring_rotation [OF dist j s refl])
      have "wf_queue q'" unfolding q' by (rule wf_drop [OF wf jl(1) jl(2) [symmetric]])
          (use s length_delete_at [OF jl(1)] length_greater_0_conv [of ?order] in auto)
      moreover have "rotation q' = map (\<lambda>r. (r, jget_or (jdel (byRoot q) p) r [])) (removeAll p (rotate (rrIndex q) (rrOrder q)))"
        unfolding rotation_def q' by (simp add: rot [symmetric])
      moreover have "\<dots> = without run (rotation q)"
      proof -
        have "map (\<lambda>r. (r, jget_or (jdel (byRoot q) p) r [])) (removeAll p xs) = filter (\<lambda>x. snd x \<noteq> []) (map ?m xs)"
          if "set xs \<subseteq> set (rrOrder q)" for xs
          using that True get keep stays by (induction xs) (auto simp: jget_or_def [of "AList.delete p (byRoot q)"] jget_or_def)
        then show ?thesis unfolding w by simp
      qed
      ultimately show ?thesis using rm yes by simp
    next
      case False
      then have q': "q' = q\<lparr>byRoot := jset (byRoot q) p ?es\<rparr>" using found eq by simp
      have s: "rrIndex q < length (rrOrder q)" using wf p by (cases "rrOrder q = []") (simp_all add: wf_queue_def)
      have "wf_queue q'" using wf_change [OF wf p False s] by (simp add: q')
      moreover have "map (\<lambda>r. (r, jget_or (jset (byRoot q) p ?es) r [])) xs = filter (\<lambda>x. snd x \<noteq> []) (map ?m xs)"
        if "set xs \<subseteq> set (rrOrder q)" for xs
        using that False get keep stays by (induction xs) auto
      then have "rotation q' = without run (rotation q)" unfolding w by (simp add: rotation_def q')
      ultimately show ?thesis using rm yes by simp
    qed
  qed
qed

section \<open>Fairness\<close>

text \<open>
  The moves of the drain and of the runs that join, with the runs that were served: a turn is taken while
  some projects and callers are blocked, and the run starts, or it cannot start and goes back to the front.
\<close>

datatype queue_op = Join string AdmissionQueueEntry | Serve "string list" "string list" | PutBack "string list" "string list"

fun play :: "queue_op list \<Rightarrow> AdmissionQueue \<Rightarrow> string list \<times> AdmissionQueue" where
  "play [] q = ([], q)"
| "play (Join p e # ops) q = play ops (snd (enqueue p e q))"
| "play (Serve R C # ops) q =
     (case dequeueNext R C q of
        None \<Rightarrow> play ops q
      | Some (p, e, q') \<Rightarrow> (case play ops q' of (served, left) \<Rightarrow> (qe_run e # served, left)))"
| "play (PutBack R C # ops) q =
     (case dequeueNext R C q of None \<Rightarrow> play ops q | Some (p, e, q') \<Rightarrow> play ops (requeueFront p e q'))"

text \<open>
  No further project joins, neither the project \<open>p\<close> nor the caller of the entry \<open>x\<close> is blocked, and no run of \<open>p\<close>
  is put back.
\<close>

fun unhindered :: "string \<Rightarrow> AdmissionQueueEntry \<Rightarrow> queue_op list \<Rightarrow> AdmissionQueue \<Rightarrow> bool" where
  "unhindered p x [] q = True"
| "unhindered p x (Join p' e # ops) q = (p' \<in> set (rrOrder q) \<and> unhindered p x ops (snd (enqueue p' e q)))"
| "unhindered p x (Serve R C # ops) q = (p \<notin> set R \<and> caller_free C x \<and>
     (case dequeueNext R C q of None \<Rightarrow> unhindered p x ops q | Some (p', e, q') \<Rightarrow> unhindered p x ops q'))"
| "unhindered p x (PutBack R C # ops) q = (p \<notin> set R \<and> caller_free C x \<and>
     (case dequeueNext R C q of
        None \<Rightarrow> unhindered p x ops q
      | Some (p', e, q') \<Rightarrow> p' \<noteq> p \<and> unhindered p x ops (requeueFront p' e q')))"

fun is_serve :: "queue_op \<Rightarrow> bool" where
  "is_serve (Serve R C) = True"
| "is_serve _ = False"

lemma next_turn_first: "next_turn [] [] [] ((p, e # es) # L) = Some (p, e, L @ (if es = [] then [] else [(p, es)]))"
  by (simp add: pick_index_def delete_at_def)

lemma dequeue_first:
  assumes "wf_queue q" "rotation q = (p, e # es) # L"
  shows "\<exists>q'. dequeueNext [] [] q = Some (p, e, q') \<and> wf_queue q' \<and> rotation q' = L @ (if es = [] then [] else [(p, es)])"
  using dequeue_turn [OF assms(1), of "[]" "[]"] unfolding assms(2) next_turn_first
  by (auto split: option.splits prod.splits)

lemma rotation_entry: "wf_queue q \<Longrightarrow> (p, es) \<in> set (rotation q) \<Longrightarrow> es \<noteq> []"
  using wf_get [of q p] by (fastforce simp: rotation_def)

text \<open>
  C24: the queue serves the projects in turn: the next run is the oldest of the first project, with
  the blocked projects and callers passed over, and the project goes to the end of the line.
\<close>

theorem dequeue_round_robin:
  assumes "wf_queue q"
  shows "case dequeueNext skipRoots skipCallers q of
      None \<Rightarrow> next_turn skipRoots skipCallers [] (rotation q) = None
    | Some (p, e, q') \<Rightarrow> wf_queue q' \<and> next_turn skipRoots skipCallers [] (rotation q) = Some (p, e, rotation q')"
  by (rule dequeue_turn [OF assms])

text \<open>A run keeps its place when another one joins a project in line, and comes nearer when one is served.\<close>

lemma join_keeps_place:
  assumes "wf_queue q" "rotation q ! k = (p, es)" "k < length (rotation q)" "i < length es" "p' \<in> set (rrOrder q)"
  shows "\<exists>es'. wf_queue (snd (enqueue p' e q)) \<and> rotation (snd (enqueue p' e q)) ! k = (p, es') \<and>
    length (rotation (snd (enqueue p' e q))) = length (rotation q) \<and> i < length es' \<and> es' ! i = es ! i"
proof -
  have p': "p' \<in> set (map fst (rotation q))" using assms(5) by (simp add: rotation_def comp_def)
  let ?q = "snd (enqueue p' e q)"
  have q: "?q = change_list (\<lambda>es. es @ [e]) p' q" by (simp add: enqueue_def Let_def)
  have rot: "rotation ?q = add_run (\<lambda>es. es @ [e]) p' (rotation q)" unfolding q by (rule change_list_rotation [OF assms(1) p'])
  have wf: "wf_queue ?q" unfolding q by (rule wf_change_list [OF assms(1)]) simp
  let ?es = "if p = p' then es @ [e] else es"
  have "rotation ?q ! k = (p, ?es)" "length (rotation ?q) = length (rotation q)"
    unfolding rot using assms(2,3) by (simp_all add: add_run_def)
  with wf assms(4) show ?thesis by (intro exI [of _ ?es]) (simp add: nth_append)
qed

text \<open>A turn goes to the run, or to another one of its project before it, or to a project before its own.\<close>

lemma caller_free_pick:
  assumes "i < length es" "caller_free C (es ! i)"
  shows "\<exists>j\<le>i. pick_index C es = Some j"
proof (cases "C = []")
  case False
  have "\<exists>j\<le>i. find_index (caller_free C) es = Some j" using assms
  proof (induction es arbitrary: i)
    case (Cons y es)
    show ?case
    proof (cases "caller_free C y")
      case False
      then obtain m where m: "i = Suc m" using Cons.prems by (cases i) auto
      with Cons.prems Cons.IH [of m] False show ?thesis by auto
    qed simp
  qed simp
  with False assms(1) show ?thesis by (auto simp: pick_index_def)
qed (use assms(1) in \<open>auto simp: pick_index_def\<close>)

lemma find_index_le:
  assumes "k < length xs" "P (xs ! k)"
  shows "\<exists>m\<le>k. find_index P xs = Some m"
  using assms
proof (induction xs arbitrary: k)
  case (Cons y xs)
  show ?case
  proof (cases "P y")
    case False
    then obtain m where m: "k = Suc m" using Cons.prems by (cases k) auto
    with Cons.prems Cons.IH [of m] False show ?thesis by auto
  qed simp
qed simp

lemma turn_taken:
  assumes wf: "wf_queue q" and at: "rotation q ! k = (p, es)" "k < length (rotation q)" "i < length es"
    and free: "p \<notin> set R" "caller_free C (es ! i)"
  shows "\<exists>r u q'. dequeueNext R C q = Some (r, u, q') \<and> wf_queue q' \<and>
    (r = p \<and> u = es ! i \<or>
     r = p \<and> (\<exists>es' i'. i = Suc i' \<and> rotation q' ! (length (rotation q) - 1) = (p, es') \<and>
       length (rotation q') = length (rotation q) \<and> i' < length es' \<and> es' ! i' = es ! i) \<or>
     (\<exists>m<k. r = fst (rotation q ! m) \<and> rotation q' ! (k - Suc m) = (p, es) \<and> k - Suc m < length (rotation q') \<and>
       length (rotation q') = (if r \<in> set (map fst (rotation q')) then length (rotation q) else length (rotation q) - 1)))"
proof -
  let ?L = "rotation q"
  obtain j where j: "j \<le> i" "pick_index C es = Some j" using caller_free_pick [OF at(3) free(2)] by blast
  then have "choice R C (?L ! k) \<noteq> None" using at(1) free(1) by (simp add: choice_def)
  from find_index_le [OF at(2), of "\<lambda>x. choice R C x \<noteq> None", OF this] obtain m where
    m: "m \<le> k" "find_index (\<lambda>x. choice R C x \<noteq> None) ?L = Some m" by blast
  obtain r us where us: "?L ! m = (r, us)" by fastforce
  let ?c = "the (choice R C (?L ! m))"
  let ?tail = "let es = delete_at ?c us in if es = [] then [] else [(r, es)]"
  have "next_turn R C [] ?L = Some (r, us ! ?c, drop (Suc m) ?L @ take m ?L @ ?tail)"
    using next_turn_index [of R C "[]" ?L] m(2) us by (simp cong: if_cong)
  then obtain q' where q': "dequeueNext R C q = Some (r, us ! ?c, q')" "wf_queue q'"
    "rotation q' = drop (Suc m) ?L @ take m ?L @ ?tail"
    using dequeue_turn [OF wf, of R C] by (auto split: option.splits)
  have d: "distinct (map fst ?L)" using wf by (simp add: rotation_def comp_def wf_queue_def)
  have ml: "m < length ?L" using m(1) at(2) by simp
  have "?L = take m ?L @ (r, us) # drop (Suc m) ?L" using id_take_nth_drop [OF ml] us by simp
  then have "distinct (map fst (take m ?L @ (r, us) # drop (Suc m) ?L))" using d by simp
  then have rout: "r \<notin> set (map fst (drop (Suc m) ?L)) \<and> r \<notin> set (map fst (take m ?L))" by auto
  show ?thesis
  proof (cases "m = k")
    case True
    then have r: "r = p" "us = es" using us at(1) by simp_all
    then have c: "?c = j" using True at(1) j(2) free(1) by (simp add: choice_def)
    show ?thesis
    proof (cases "j = i")
      case True
      with q' r c show ?thesis by blast
    next
      case False
      then obtain i' where i': "i = Suc i'" "j \<le> i'" using j(1) by (cases i) auto
      let ?es = "delete_at j es"
      have jl: "j < length es" using j(1) at(3) by simp
      have "i' < length ?es" "?es ! i' = es ! i"
        using i' at(3) length_delete_at [OF jl] by (simp_all add: delete_at_def nth_append min_def)
      moreover from this(1) have "?tail = [(p, ?es)]" using r c by (auto simp: Let_def)
      then have rot: "rotation q' = (drop (Suc m) ?L @ take m ?L) @ [(p, ?es)]" using q'(3) by simp
      moreover have "length (drop (Suc m) ?L @ take m ?L) = length ?L - 1" using ml by simp
      moreover have "rotation q' ! (length ?L - 1) = (p, ?es)" unfolding rot using calculation(4) by (metis nth_append_length)
      moreover have "length (rotation q') = length ?L" unfolding rot using ml by simp
      ultimately show ?thesis using q'(1,2) r c i'(1) by blast
    qed
  next
    case False
    with m(1) have mk: "m < k" by simp
    have "k - Suc m < length (drop (Suc m) ?L)" using mk at(2) by simp
    moreover from this have "rotation q' ! (k - Suc m) = (p, es)" unfolding q'(3) using mk at by (simp add: nth_append)
    moreover have "length (rotation q') = (if r \<in> set (map fst (rotation q')) then length ?L else length ?L - 1)"
      unfolding q'(3) using rout ml by (auto simp: Let_def)
    moreover have "k - Suc m < length (rotation q')" using calculation(1) q'(3) by simp
    moreover have "r = fst (?L ! m)" using us by simp
    ultimately show ?thesis using q'(1,2) mk by blast
  qed
qed

text \<open>A run of another project that is put back does not push the run away.\<close>

lemma put_back_keeps_place:
  assumes wf: "wf_queue q'" and at: "rotation q' ! k = (p, es)" "k < length (rotation q')" and r: "r \<noteq> p"
    and n: "length (rotation q') = (if r \<in> set (map fst (rotation q')) then n else n - 1)" "0 < n"
  shows "wf_queue (requeueFront r u q') \<and> (\<exists>k'\<le>Suc k. rotation (requeueFront r u q') ! k' = (p, es) \<and>
    k' < length (rotation (requeueFront r u q')) \<and> length (rotation (requeueFront r u q')) = n)"
proof
  show "wf_queue (requeueFront r u q')" unfolding requeueFront_def by (rule wf_change_list [OF wf]) simp
  show "\<exists>k'\<le>Suc k. rotation (requeueFront r u q') ! k' = (p, es) \<and> k' < length (rotation (requeueFront r u q')) \<and>
    length (rotation (requeueFront r u q')) = n"
  proof (cases "r \<in> set (map fst (rotation q'))")
    case True
    have "rotation (requeueFront r u q') = add_run (\<lambda>es. u # es) r (rotation q')"
      unfolding requeueFront_def by (rule change_list_rotation [OF wf True])
    with at r n True show ?thesis by (intro exI [of _ k]) (simp add: add_run_def)
  next
    case False
    from change_list_joins [OF wf False, of "\<lambda>es. u # es"] obtain xs ys where
      x: "rotation q' = xs @ ys" "rotation (requeueFront r u q') = xs @ (r, [u]) # ys" unfolding requeueFront_def by blast
    have l: "length (xs @ (r, [u]) # ys) = n" using n False x(1) by simp
    show ?thesis
    proof (cases "k < length xs")
      case True
      then show ?thesis using at x l by (intro exI [of _ k]) (simp add: nth_append)
    next
      case False
      then show ?thesis using at x l by (intro exI [of _ "Suc k"]) (auto simp: nth_append Suc_diff_le)
    qed
  qed
qed

text \<open>
  C25: no run starves as long as the projects in line stay the same and nothing blocks it: of \<open>n\<close> projects,
  a run behind \<open>i\<close> others of its project, which has \<open>k\<close> projects before it, is among the next \<open>i n + k + 1\<close>
  runs that start, whatever runs join the projects in line, whatever other projects and callers are
  blocked and whatever runs of other projects are put back meanwhile; its own project and caller
  are never blocked and no run of its own project is put back.
\<close>

theorem fair_share:
  assumes "wf_queue q" "rotation q ! k = (p, es)" "k < length (rotation q)" "i < length es" "es ! i = x" "qe_run x = run"
    and "unhindered p x ops q" "i * length (rotation q) + k + 1 \<le> length (filter is_serve ops)"
  shows "run \<in> set (fst (play ops q))"
  using assms
proof (induction ops q arbitrary: k es i rule: play.induct)
  case (1 q)
  then show ?case by simp
next
  case (2 p' e ops q)
  have "p' \<in> set (rrOrder q)" using "2.prems"(7) by simp
  from join_keeps_place [OF "2.prems"(1-4) this] obtain es' where
    j: "wf_queue (snd (enqueue p' e q))" "rotation (snd (enqueue p' e q)) ! k = (p, es')"
      "length (rotation (snd (enqueue p' e q))) = length (rotation q)" "i < length es'" "es' ! i = es ! i" by blast
  show ?case using "2.IH" [OF j(1,2) _ j(4)] j(3,5) "2.prems"(3,5-8) by simp
next
  case (3 R C ops q)
  have free: "p \<notin> set R" "caller_free C (es ! i)" using "3.prems"(5,7) by simp_all
  from turn_taken [OF "3.prems"(1-4) free] obtain r u q' where d: "dequeueNext R C q = Some (r, u, q')" "wf_queue q'"
    and near: "r = p \<and> u = es ! i \<or>
     r = p \<and> (\<exists>es' i'. i = Suc i' \<and> rotation q' ! (length (rotation q) - 1) = (p, es') \<and>
       length (rotation q') = length (rotation q) \<and> i' < length es' \<and> es' ! i' = es ! i) \<or>
     (\<exists>m<k. r = fst (rotation q ! m) \<and> rotation q' ! (k - Suc m) = (p, es) \<and> k - Suc m < length (rotation q') \<and>
       length (rotation q') = (if r \<in> set (map fst (rotation q')) then length (rotation q) else length (rotation q) - 1))" by blast
  obtain served left where pl: "play ops q' = (served, left)" by fastforce
  have rest: "unhindered p x ops q'" using "3.prems"(7) d(1) by simp
  note IH = "3.IH"(2) [OF d(1) refl refl d(2)]
  from near have "qe_run u = run \<or> run \<in> set served"
  proof (elim disjE exE conjE)
    fix es' i' assume n: "i = Suc i'" "rotation q' ! (length (rotation q) - 1) = (p, es')"
      "length (rotation q') = length (rotation q)" "i' < length es'" "es' ! i' = es ! i"
    have "run \<in> set (fst (play ops q'))"
      by (rule IH [OF n(2) _ n(4) _ "3.prems"(6) rest]) (use n "3.prems"(3,5,8) in simp_all)
    then show ?thesis by (simp add: pl)
  next
    fix m assume n: "m < k" "rotation q' ! (k - Suc m) = (p, es)" "k - Suc m < length (rotation q')"
      "length (rotation q') = (if r \<in> set (map fst (rotation q')) then length (rotation q) else length (rotation q) - 1)"
    have "i * length (rotation q') \<le> i * length (rotation q)" by (rule mult_le_mono2) (use n(4) in simp)
    moreover have "i * length (rotation q) + k \<le> length (filter is_serve ops)" using "3.prems"(8) by simp
    ultimately have "i * length (rotation q') + (k - Suc m) + 1 \<le> length (filter is_serve ops)" using n(1) by linarith
    then have "run \<in> set (fst (play ops q'))" by (rule IH [OF n(2,3) "3.prems"(4,5,6) rest])
    then show ?thesis by (simp add: pl)
  qed (use "3.prems"(5,6) in simp)
  then show ?case using d(1) pl by auto
next
  case (4 R C ops q)
  have free: "p \<notin> set R" "caller_free C (es ! i)" using "4.prems"(5,7) by simp_all
  from turn_taken [OF "4.prems"(1-4) free] obtain r u q' where d: "dequeueNext R C q = Some (r, u, q')" "wf_queue q'"
    and near: "r = p \<or> (\<exists>m<k. rotation q' ! (k - Suc m) = (p, es) \<and> k - Suc m < length (rotation q') \<and>
       length (rotation q') = (if r \<in> set (map fst (rotation q')) then length (rotation q) else length (rotation q) - 1))" by blast
  have rest: "r \<noteq> p" "unhindered p x ops (requeueFront r u q')" using "4.prems"(7) d(1) by simp_all
  with near obtain m where m: "m < k" "rotation q' ! (k - Suc m) = (p, es)" "k - Suc m < length (rotation q')"
    "length (rotation q') = (if r \<in> set (map fst (rotation q')) then length (rotation q) else length (rotation q) - 1)" by blast
  have "0 < length (rotation q)" by (rule le_less_trans [OF _ "4.prems"(3)]) simp
  from put_back_keeps_place [OF d(2) m(2,3) rest(1) m(4) this, of u] obtain k' where
    b: "wf_queue (requeueFront r u q')" "k' \<le> k" "rotation (requeueFront r u q') ! k' = (p, es)"
      "k' < length (rotation (requeueFront r u q'))" "length (rotation (requeueFront r u q')) = length (rotation q)"
    using m(1) by (metis Suc_diff_Suc Suc_leI diff_le_self le_trans)
  have "run \<in> set (fst (play ops (requeueFront r u q')))"
    by (rule "4.IH"(2) [OF d(1) refl refl b(1,3,4) "4.prems"(4,5,6) rest(2)]) (use b(2,5) "4.prems"(8) in simp)
  then show ?case using d(1) by simp
qed

definition run_entry :: "string \<Rightarrow> AdmissionQueueEntry" where
  "run_entry run = \<lparr>qe_run = run, qe_created = ''2025-01-01'', qe_caller = None\<rparr>"

text \<open>Two runs of a project and two of another one; the last of all is served within its four turns.\<close>

definition two_projects :: AdmissionQueue where
  "two_projects = snd (play [Join ''a'' (run_entry ''a1''), Join ''a'' (run_entry ''a2''), Join ''b'' (run_entry ''b1''),
     Join ''b'' (run_entry ''b2'')] cleared)"

definition busy_turns :: "queue_op list" where
  "busy_turns = [PutBack [] [], Serve [''a''] [], Join ''a'' (run_entry ''a3''), PutBack [''c''] [], Serve [] [''ann''],
     Serve [] [], Join ''a'' (run_entry ''a4''), Serve [] []]"

lemma two_projects_wf: "wf_queue two_projects"
  by code_simp

theorem fair_share_witness: "''b2'' \<in> set (fst (play busy_turns two_projects))"
proof -
  have k: "rotation two_projects ! 1 = (''b'', [run_entry ''b1'', run_entry ''b2''])" by code_simp
  have n: "1 < length (rotation two_projects)" by code_simp
  have i: "1 < length [run_entry ''b1'', run_entry ''b2'']" by simp
  have e: "[run_entry ''b1'', run_entry ''b2''] ! 1 = run_entry ''b2''" by simp
  have r: "qe_run (run_entry ''b2'') = ''b2''" by (simp add: run_entry_def)
  have o: "unhindered ''b'' (run_entry ''b2'') busy_turns two_projects" by code_simp
  have l: "1 * length (rotation two_projects) + 1 + 1 \<le> length (filter is_serve busy_turns)" by code_simp
  show ?thesis by (rule fair_share [OF two_projects_wf k n i e r o l])
qed

theorem dequeue_round_robin_witness:
  "case dequeueNext [''a''] [] two_projects of
      None \<Rightarrow> next_turn [''a''] [] [] (rotation two_projects) = None
    | Some (p, e, q') \<Rightarrow> wf_queue q' \<and> next_turn [''a''] [] [] (rotation two_projects) = Some (p, e, rotation q')"
  by (rule dequeue_round_robin [OF two_projects_wf])

text \<open>
  Two projects that keep one run each in line: whenever one of them is served, the other has joined
  again just before.
\<close>

fun steady :: "nat \<Rightarrow> queue_op list" where
  "steady 0 = []"
| "steady (Suc n) =
     [Join ''b'' (run_entry (''b'' @ replicate n CHR ''x'')), Serve [] [],
      Join ''c'' (run_entry (''c'' @ replicate n CHR ''x'')), Serve [] []] @ steady n"

definition behind :: AdmissionQueue where
  "behind = snd (play [Join ''a'' (run_entry ''a1''), Join ''a'' (run_entry ''a2''), Join ''c'' (run_entry ''c''), Serve [] []] cleared)"

definition a_waits :: "string \<Rightarrow> AdmissionQueue" where
  "a_waits run = \<lparr>byRoot = [(''a'', [run_entry ''a2'']), (''c'', [run_entry run])], rrOrder = [''a'', ''c''], rrIndex = 1\<rparr>"

lemma behind_waits: "behind = a_waits ''c''"
  by code_simp

lemma steady_round:
  "play [Join ''b'' (run_entry r), Serve [] [], Join ''c'' (run_entry s), Serve [] []] (a_waits t) = ([t, r], a_waits s)"
  by (simp add: a_waits_def run_entry_def enqueue_def change_list_def dequeueNext_def ring_from_def slot_pick_def
      pick_index_def take_pick_def delete_at_def Let_def upt_rec numeral_2_eq_2)

lemma play_append: "play (xs @ ys) q = (case play xs q of (s, q') \<Rightarrow> case play ys q' of (t, q'') \<Rightarrow> (s @ t, q''))"
proof (induction xs q rule: play.induct)
  case (3 R C ops q)
  then show ?case by (cases "dequeueNext R C q") (auto split: prod.splits)
next
  case (4 R C ops q)
  then show ?case by (cases "dequeueNext R C q") (auto split: prod.splits)
qed (auto split: prod.splits)

text \<open>
  C26: the queue can starve a project: when the project's second run is next but one, two other
  projects that join in turn, each before the other is served, are served for ever, because a
  project that joins goes to the end of the ring, ahead of those before its pointer.
\<close>

theorem queue_starves:
  "length (fst (play (steady n) behind)) = 2 * n \<and> ''a2'' \<notin> set (fst (play (steady n) behind)) \<and>
   ''a2'' \<in> set (waiting (rotation (snd (play (steady n) behind))))"
proof -
  have waits: "''a2'' \<in> set (waiting (rotation (a_waits t)))" for t
    by (simp add: a_waits_def rotation_def waiting_def run_entry_def jget_or_def)
  have "length (fst (play (steady n) (a_waits t))) = 2 * n \<and> ''a2'' \<notin> set (fst (play (steady n) (a_waits t))) \<and>
      (\<exists>t'. snd (play (steady n) (a_waits t)) = a_waits t')" if "t \<noteq> ''a2''" for t
    using that
  proof (induction n arbitrary: t)
    case (Suc n)
    let ?s = "''c'' @ replicate n CHR ''x''"
    have eq: "play (steady (Suc n)) (a_waits t) =
        (case play (steady n) (a_waits ?s) of (served, left) \<Rightarrow> ([t, ''b'' @ replicate n CHR ''x''] @ served, left))"
      unfolding steady.simps play_append steady_round by simp
    have "?s \<noteq> ''a2''" by simp
    from Suc.IH [OF this] Suc.prems show ?case unfolding eq by (auto split: prod.split)
  qed auto
  from this [of "''c''"] waits show ?thesis unfolding behind_waits by auto
qed

text \<open>
  A project whose first run waits for the quota of its caller: each drain takes that run, puts it back
  and goes on to the next project, so that with one free slot at a time the run behind it, of another
  caller, has to wait as long as the other project has runs.
\<close>

definition quota_waits :: "string \<Rightarrow> AdmissionQueue" where
  "quota_waits run = \<lparr>byRoot = [(''a'', [(run_entry ''a1'')\<lparr>qe_caller := Some ''ann''\<rparr>, run_entry ''a2'']), (''b'', [run_entry run])],
     rrOrder = [''a'', ''b''], rrIndex = 0\<rparr>"

fun one_slot :: "nat \<Rightarrow> queue_op list" where
  "one_slot 0 = []"
| "one_slot (Suc n) = [Join ''b'' (run_entry (''b'' @ replicate n CHR ''x'')), PutBack [] [], Serve [] [''ann'']] @ one_slot n"

lemma one_slot_round: "play [Join ''b'' (run_entry r), PutBack [] [], Serve [] [''ann'']] (quota_waits t) = ([t], quota_waits r)"
  by (simp add: quota_waits_def run_entry_def enqueue_def requeueFront_def change_list_def dequeueNext_def ring_from_def slot_pick_def
      pick_index_def take_pick_def delete_at_def caller_free_def Let_def upt_rec numeral_2_eq_2)

lemma quota_holds_up:
  "t \<noteq> ''a2'' \<Longrightarrow> length (fst (play (one_slot n) (quota_waits t))) = n \<and> ''a2'' \<notin> set (fst (play (one_slot n) (quota_waits t))) \<and>
   (\<exists>u. snd (play (one_slot n) (quota_waits t)) = quota_waits u)"
proof (induction n arbitrary: t)
  case (Suc n)
  let ?s = "''b'' @ replicate n CHR ''x''"
  have eq: "play (one_slot (Suc n)) (quota_waits t) = (case play (one_slot n) (quota_waits ?s) of (served, left) \<Rightarrow> (t # served, left))"
    unfolding one_slot.simps play_append one_slot_round by simp
  have "?s \<noteq> ''a2''" by simp
  from Suc.IH [OF this] Suc.prems show ?case unfolding eq by (auto split: prod.split)
qed auto

end
