(* ===== verification/Run_Admission.thy ===== *)
theory Run_Admission
  imports Admission_Queue Run_Status "HOL-Library.List_Lexorder" "HOL-Library.Char_ord"
begin

text \<open>
  How the host admits runs (\<open>RunManager\<close> of \<open>runtime/runManager.ts\<close>): the slots, the checkout leases,
  the admission queue and its drain, the resumption and the end of runs.  The host is a transition
  system: an event is a call from outside or the continuation of an asynchronous operation at one of
  the points where it waits, so that the operations interleave as the promises of the code may.
  What a start, a preparation or a materialisation comes to is part of the event; path resolution and
  \<open>randomUUID\<close> are functions of the configuration.  Beside the fields of the manager a state holds
  the status and caller of the stored runs, the starts that hold a reservation, the queued runs between
  their admission and the queue, the ends that are still to come (run and generation, \<open>done.finally\<close>) and
  the resumptions that wait.  A cancellation is one step: the stages it interrupts are no business of
  the slots.  Of a start that is put off only what the admission reads is kept.  The read of a run by the
  drain, its checks and its cancellations may also fail; what then becomes of the rejected promise of the drain
  is left open.  A restart attaches and resumes runs on an empty queue before the queued runs join it again;
  this last part is one step, though the code reads the rows one after the other.
\<close>

section \<open>The state of the host\<close>

record host_config =
  hc_max_queued :: nat
  hc_per_project :: "nat option"
  hc_quotas :: "(string, nat) jsmap"
  hc_root :: string
  hc_resolve :: "string \<Rightarrow> string"
  hc_uuid :: "nat \<Rightarrow> string"

record ActiveEntry =
  ae_checkout :: "string option"
  ae_durable :: "string option"
  ae_project :: "string option"
  ae_caller :: "string option"
  ae_generation :: nat

record PendingQueuedStart =
  pq_project :: string
  pq_checkout :: "string option"
  pq_caller :: "string option"

record SchedulingHalt =
  sh_halted :: bool
  sh_shutdown :: bool

text \<open>What the store knows of a run, and where a start that the queue takes is.\<close>

record run_row =
  rw_status :: RunStatus
  rw_created :: string
  rw_project :: "string option"
  rw_caller :: "string option"

text \<open>The drain: not running, or at one of the points where it waits, with the projects and callers it passed over.\<close>

datatype drain_stage = ReadingMeta | Preparing "string option" | Materializing string | Launching string

datatype drain =
    NoDrain
  | Draining "string list" "string list" string AdmissionQueueEntry drain_stage

record host =
  ho_active :: "(string, ActiveEntry) jsmap"
  ho_leases :: "(string, string) jsmap"
  ho_provisional :: "string list"
  ho_queue :: AdmissionQueue
  ho_pending :: "(string, PendingQueuedStart) jsmap"
  ho_halts :: "(string, SchedulingHalt) jsmap"
  ho_accepting :: bool
  ho_generation :: nat
  ho_max :: nat
  ho_uuids :: nat
  ho_runs :: "(string, run_row) jsmap"
  ho_starting :: "(string, string) jsmap"
  ho_joining :: "(string, PendingQueuedStart) jsmap"
  ho_done :: "(string \<times> nat) list"
  ho_resuming :: "string list"
  ho_drain :: drain

section \<open>Slots and leases\<close>

definition countActiveForProject :: "host_config \<Rightarrow> string \<Rightarrow> host \<Rightarrow> nat" where
  "countActiveForProject cfg proj h =
     length (filter (\<lambda>(_, e). hc_resolve cfg (case ae_project e of None \<Rightarrow> hc_root cfg | Some p \<Rightarrow> p) = hc_resolve cfg proj)
       (ho_active h))"

definition countActiveForCaller :: "string \<Rightarrow> host \<Rightarrow> nat" where
  "countActiveForCaller caller h =
     length (filter (\<lambda>(_, e). map_option to_lower (ae_caller e) = Some (to_lower caller)) (ho_active h))"

definition callerQuotaLimit :: "host_config \<Rightarrow> string option \<Rightarrow> nat option" where
  "callerQuotaLimit cfg caller =
     (case caller of None \<Rightarrow> None | Some c \<Rightarrow> if c = [] then None else jget (hc_quotas cfg) (to_lower c))"

datatype busy = BusyCheckout "string option" string | BusyProject string nat nat | BusyCaller string nat nat | BusyCapacity

datatype enqueue_reason = CapacityFull | CallerQuotaFull

datatype admission = Reserved string | Enqueued enqueue_reason | Rejected busy

definition reserve :: "host_config \<Rightarrow> string option \<Rightarrow> string \<Rightarrow> string option \<Rightarrow> host \<Rightarrow> string \<times> host" where
  "reserve cfg key proj caller h =
     (let pid = hc_uuid cfg (ho_uuids h); gen = Suc (ho_generation h);
          entry = \<lparr>ae_checkout = key, ae_durable = None, ae_project = Some proj, ae_caller = caller, ae_generation = gen\<rparr> in
      (pid, h\<lparr>ho_uuids := Suc (ho_uuids h), ho_generation := gen, ho_provisional := ho_provisional h @ [pid],
        ho_active := jset (ho_active h) pid entry,
        ho_leases := (case key of None \<Rightarrow> ho_leases h | Some k \<Rightarrow> jset (ho_leases h) k pid)\<rparr>))"

definition over_quota :: "host_config \<Rightarrow> string option \<Rightarrow> host \<Rightarrow> (string \<times> nat) option" where
  "over_quota cfg caller h =
     (case (caller, callerQuotaLimit cfg caller) of
        (Some c, Some quota) \<Rightarrow> if countActiveForCaller c h \<ge> quota then Some (c, quota) else None
      | _ \<Rightarrow> None)"

definition lease_holder :: "string option \<Rightarrow> host \<Rightarrow> (string \<times> string) option" where
  "lease_holder key h = (case key of None \<Rightarrow> None | Some k \<Rightarrow> map_option (Pair k) (jget (ho_leases h) k))"

definition project_full :: "host_config \<Rightarrow> string \<Rightarrow> host \<Rightarrow> nat option" where
  "project_full cfg proj h =
     (case hc_per_project cfg of
        None \<Rightarrow> None
      | Some n \<Rightarrow> if countActiveForProject cfg proj h \<ge> n then Some n else None)"

definition tryAdmitOrEnqueue ::
  "host_config \<Rightarrow> string option \<Rightarrow> string \<Rightarrow> string option \<Rightarrow> host \<Rightarrow> admission \<times> host" where
  "tryAdmitOrEnqueue cfg key proj caller h =
     (let proj' = hc_resolve cfg proj; room = queue_size (ho_queue h) < hc_max_queued cfg in
      case lease_holder key h of
        Some (k, holder) \<Rightarrow>
          (Rejected (BusyCheckout (if holder \<in> set (ho_provisional h) then None else Some holder) k), h)
      | None \<Rightarrow>
          (case project_full cfg proj' h of
             Some n \<Rightarrow> (Rejected (BusyProject proj' (countActiveForProject cfg proj' h) n), h)
           | None \<Rightarrow>
               if length (ho_active h) < ho_max h then
                 (case over_quota cfg caller h of
                    Some (c, quota) \<Rightarrow>
                      (if room then Enqueued CallerQuotaFull
                       else Rejected (BusyCaller c (countActiveForCaller c h) quota), h)
                  | None \<Rightarrow> (case reserve cfg key proj' caller h of (pid, h') \<Rightarrow> (Reserved pid, h')))
               else (if room then Enqueued CapacityFull else Rejected BusyCapacity, h)))"

definition tryReserve ::
  "host_config \<Rightarrow> string option \<Rightarrow> string \<Rightarrow> string option \<Rightarrow> host \<Rightarrow> (busy + string) \<times> host" where
  "tryReserve cfg key proj caller h =
     (case tryAdmitOrEnqueue cfg key proj caller h of
        (Reserved pid, h') \<Rightarrow> (Inr pid, h')
      | (Enqueued CallerQuotaFull, h') \<Rightarrow>
          (Inl (BusyCaller (case caller of None \<Rightarrow> [] | Some c \<Rightarrow> c)
             (case caller of None \<Rightarrow> 0 | Some c \<Rightarrow> countActiveForCaller c h)
             (case callerQuotaLimit cfg caller of None \<Rightarrow> 0 | Some n \<Rightarrow> n)), h')
      | (Enqueued CapacityFull, h') \<Rightarrow> (Inl BusyCapacity, h')
      | (Rejected b, h') \<Rightarrow> (Inl b, h'))"

definition ensureSchedulingHalt :: "string \<Rightarrow> host \<Rightarrow> host" where
  "ensureSchedulingHalt run h =
     (case jget (ho_halts h) run of
        Some _ \<Rightarrow> h
      | None \<Rightarrow> h\<lparr>ho_halts := jset (ho_halts h) run
          \<lparr>sh_halted = \<not> ho_accepting h, sh_shutdown = \<not> ho_accepting h\<rparr>\<rparr>)"

section \<open>The drain of the queue\<close>

definition drain_loop :: "string list \<Rightarrow> string list \<Rightarrow> host \<Rightarrow> host" where
  "drain_loop skipped callers h =
     (if ho_accepting h \<and> length (ho_active h) < ho_max h then
        (case dequeueNext skipped callers (ho_queue h) of
           None \<Rightarrow> h\<lparr>ho_drain := NoDrain\<rparr>
         | Some (proj, e, q) \<Rightarrow> h\<lparr>ho_queue := q, ho_drain := Draining skipped callers proj e ReadingMeta\<rparr>)
      else h\<lparr>ho_drain := NoDrain\<rparr>)"

definition drainAdmissionQueue :: "host \<Rightarrow> host" where
  "drainAdmissionQueue h = (if \<not> ho_accepting h \<or> ho_drain h \<noteq> NoDrain then h else drain_loop [] [] h)"

definition drop_entry :: "string \<Rightarrow> ActiveEntry \<Rightarrow> host \<Rightarrow> host" where
  "drop_entry ident entry h =
     h\<lparr>ho_active := jdel (ho_active h) ident, ho_halts := jdel (ho_halts h) ident,
       ho_leases := (case ae_checkout entry of
           None \<Rightarrow> ho_leases h
         | Some k \<Rightarrow> if jget (ho_leases h) k = Some ident then jdel (ho_leases h) k else ho_leases h)\<rparr>"

definition removeActiveEntry :: "string \<Rightarrow> bool \<Rightarrow> host \<Rightarrow> host" where
  "removeActiveEntry ident isProvisional h =
     (case jget (ho_active h) ident of
        None \<Rightarrow> h
      | Some entry \<Rightarrow>
          if isProvisional then (drop_entry ident entry h)\<lparr>ho_provisional := removeAll ident (ho_provisional h)\<rparr>
          else drainAdmissionQueue (drop_entry ident entry h))"

definition clearReservation :: "string \<Rightarrow> host \<Rightarrow> host" where
  "clearReservation pid h = removeActiveEntry pid True h"

definition track :: "string \<Rightarrow> string \<Rightarrow> host \<Rightarrow> host" where
  "track pid run h =
     (let fresh = Suc (ho_generation h);
          (entry, gen) = (case jget (ho_active h) pid of
             Some e \<Rightarrow> (e, ho_generation h)
           | None \<Rightarrow> (\<lparr>ae_checkout = None, ae_durable = None, ae_project = None, ae_caller = None, ae_generation = fresh\<rparr>, fresh)) in
      h\<lparr>ho_active := jset (jdel (ho_active h) pid) run (entry\<lparr>ae_generation := Suc gen\<rparr>),
        ho_provisional := removeAll pid (ho_provisional h), ho_generation := Suc gen,
        ho_leases := (case ae_checkout entry of None \<Rightarrow> ho_leases h | Some k \<Rightarrow> jset (ho_leases h) k run),
        ho_done := ho_done h @ [(run, Suc gen)]\<rparr>)"

definition untrackIfGeneration :: "string \<Rightarrow> nat \<Rightarrow> host \<Rightarrow> host" where
  "untrackIfGeneration run gen h =
     (case jget (ho_active h) run of
        None \<Rightarrow> h
      | Some entry \<Rightarrow> if ae_generation entry \<noteq> gen then h else removeActiveEntry run False h)"

definition row_status :: "string \<Rightarrow> host \<Rightarrow> RunStatus option" where
  "row_status run h = map_option rw_status (jget (ho_runs h) run)"

definition set_status :: "string \<Rightarrow> RunStatus \<Rightarrow> host \<Rightarrow> host" where
  "set_status run st h =
     (case jget (ho_runs h) run of
        None \<Rightarrow> h
      | Some row \<Rightarrow> h\<lparr>ho_runs := jset (ho_runs h) run (row\<lparr>rw_status := st\<rparr>)\<rparr>)"

definition halt_run :: "string \<Rightarrow> host \<Rightarrow> host" where
  "halt_run run h =
     (case jget (ho_halts h) run of
        None \<Rightarrow> h
      | Some s \<Rightarrow> h\<lparr>ho_halts := jset (ho_halts h) run (s\<lparr>sh_halted := True\<rparr>)\<rparr>)"

text \<open>\<open>reason.trim() === ""\<close>, for the blanks of ASCII.\<close>

definition blank :: "string \<Rightarrow> bool" where
  "blank s = list_all (\<lambda>c. c \<in> {CHR '' '', CHR 0x09, CHR 0x0A, CHR 0x0B, CHR 0x0C, CHR 0x0D}) s"

datatype cancel_result = Cancelled | CancelNotFound | CancelReasonMissing | CancelFinished RunStatus

definition cancelRun :: "string \<Rightarrow> string \<Rightarrow> host \<Rightarrow> cancel_result \<times> host" where
  "cancelRun run reason h =
     (case row_status run h of
        None \<Rightarrow> (CancelNotFound, h)
      | Some st \<Rightarrow>
          if blank reason then (CancelReasonMissing, h)
          else if st = RunCancelled then (Cancelled, removeActiveEntry run False (halt_run run h))
          else if st = RunSucceeded \<or> st = RunFailed then (CancelFinished st, h)
          else
            (let h1 = halt_run run (set_status run RunCancelled h);
                 h2 = h1\<lparr>ho_queue := snd (remove_run run (ho_queue h1)), ho_pending := jdel (ho_pending h1) run\<rparr> in
             (Cancelled, removeActiveEntry run False h2)))"

text \<open>What \<open>drainAdmissionQueue\<close> does with the outcome of a dequeued start.\<close>

datatype dequeue_outcome = Started | CheckoutBusy | ProjectCapacityBusy | CallerQuotaBusy | CapacityBusy | StartCancelled

definition requeue :: "string \<Rightarrow> AdmissionQueueEntry \<Rightarrow> host \<Rightarrow> host" where
  "requeue proj e h = h\<lparr>ho_queue := requeueFront proj e (ho_queue h)\<rparr>"

definition go_on :: "dequeue_outcome \<Rightarrow> string list \<Rightarrow> string list \<Rightarrow> string \<Rightarrow> AdmissionQueueEntry \<Rightarrow> host \<Rightarrow> host" where
  "go_on out skipped callers proj e h =
     (case out of
        CheckoutBusy \<Rightarrow> drain_loop (jadd skipped proj) callers (requeue proj e h)
      | ProjectCapacityBusy \<Rightarrow> drain_loop (jadd skipped proj) callers h
      | CapacityBusy \<Rightarrow> h\<lparr>ho_drain := NoDrain\<rparr>
      | _ \<Rightarrow> drain_loop skipped callers h)"

text \<open>The steps of \<open>startDequeuedAdmission\<close>, one for each point where it waits.\<close>

definition forget_pending :: "string \<Rightarrow> host \<Rightarrow> host" where
  "forget_pending run h = h\<lparr>ho_pending := jdel (ho_pending h) run\<rparr>"

definition meta_read :: "string list \<Rightarrow> string list \<Rightarrow> string \<Rightarrow> AdmissionQueueEntry \<Rightarrow> host \<Rightarrow> host" where
  "meta_read skipped callers proj e h =
     (case jget (ho_runs h) (qe_run e) of
        Some row \<Rightarrow>
          if rw_status row = RunQueued then h\<lparr>ho_drain := Draining skipped callers proj e (Preparing (rw_caller row))\<rparr>
          else go_on StartCancelled skipped callers proj e (forget_pending (qe_run e) h)
      | None \<Rightarrow> go_on StartCancelled skipped callers proj e (forget_pending (qe_run e) h))"

text \<open>
  The catch of the read: whatever made it fail, the run is out of the queue and stays as it is in the store.
\<close>

definition meta_unreadable :: "string list \<Rightarrow> string list \<Rightarrow> string \<Rightarrow> AdmissionQueueEntry \<Rightarrow> host \<Rightarrow> host" where
  "meta_unreadable skipped callers proj e h = go_on StartCancelled skipped callers proj e (forget_pending (qe_run e) h)"

text \<open>A check or a cancellation throws: the drain ends, and the run it has taken is in no line.\<close>

definition check_throws :: "host \<Rightarrow> host" where
  "check_throws h = h\<lparr>ho_drain := NoDrain\<rparr>"

text \<open>
  What the checks of a dequeued run come to: the project is gone or the disk is full, or the data of
  the start cannot be had, or they can; they are rebuilt from the store when the process restarted.
\<close>

datatype prepared = Unavailable string | BadStart string | Ready "string option" string

definition cancel_and_go_on :: "string \<Rightarrow> string list \<Rightarrow> string list \<Rightarrow> string \<Rightarrow> AdmissionQueueEntry \<Rightarrow> host \<Rightarrow> host" where
  "cancel_and_go_on reason skipped callers proj e h =
     go_on StartCancelled skipped callers proj e (snd (cancelRun (qe_run e) reason h))"

definition or_caller :: "string option \<Rightarrow> string option \<Rightarrow> string option" where
  "or_caller a b = (case a of None \<Rightarrow> b | Some _ \<Rightarrow> a)"

definition caller_blocked :: "string option \<Rightarrow> string list \<Rightarrow> bool" where
  "caller_blocked caller callers = (case caller of None \<Rightarrow> False | Some c \<Rightarrow> to_lower c \<in> set callers)"

definition stamp :: "string option \<Rightarrow> AdmissionQueueEntry \<Rightarrow> AdmissionQueueEntry" where
  "stamp caller e = e\<lparr>qe_caller := or_caller (qe_caller e) caller\<rparr>"

definition reserve_dequeued ::
  "host_config \<Rightarrow> string option \<Rightarrow> string \<Rightarrow> string option \<Rightarrow> string list \<Rightarrow> string list \<Rightarrow> string \<Rightarrow> AdmissionQueueEntry \<Rightarrow>
   host \<Rightarrow> host" where
  "reserve_dequeued cfg key start_proj caller skipped callers proj e h =
     (case tryReserve cfg key start_proj caller h of
        (Inr pid, h') \<Rightarrow> h'\<lparr>ho_drain := Draining skipped callers proj e (Materializing pid)\<rparr>
      | (Inl (BusyCheckout _ _), h') \<Rightarrow> go_on CheckoutBusy skipped callers proj e h'
      | (Inl (BusyProject _ _ _), h') \<Rightarrow> go_on ProjectCapacityBusy skipped callers proj e (requeue proj e h')
      | (Inl (BusyCaller _ _ _), h') \<Rightarrow>
          (case caller of
             None \<Rightarrow> go_on CallerQuotaBusy skipped callers proj e (requeue proj e h')
           | Some c \<Rightarrow>
               go_on CallerQuotaBusy skipped (jadd callers (to_lower c)) proj e (requeue proj (stamp caller e) h'))
      | (Inl BusyCapacity, h') \<Rightarrow> go_on CapacityBusy skipped callers proj e (requeue proj e h'))"

definition prepare_dequeued ::
  "host_config \<Rightarrow> prepared \<Rightarrow> string option \<Rightarrow> string list \<Rightarrow> string list \<Rightarrow> string \<Rightarrow> AdmissionQueueEntry \<Rightarrow> host \<Rightarrow> host" where
  "prepare_dequeued cfg ans meta_caller skipped callers proj e h =
     (case ans of
        Unavailable reason \<Rightarrow> cancel_and_go_on reason skipped callers proj e h
      | _ \<Rightarrow>
        (let queued = jget (ho_pending h) (qe_run e);
             caller = or_caller (Option.bind queued pq_caller) meta_caller in
         if caller_blocked caller callers then
           go_on CallerQuotaBusy skipped callers proj e (requeue proj (stamp caller e) h)
         else case ans of
           BadStart reason \<Rightarrow> cancel_and_go_on reason skipped callers proj e h
         | Ready key start_proj \<Rightarrow>
             (case queued of
                Some pq \<Rightarrow> reserve_dequeued cfg (pq_checkout pq) (pq_project pq) caller skipped callers proj e h
              | None \<Rightarrow> reserve_dequeued cfg key start_proj caller skipped callers proj e h)
         | Unavailable _ \<Rightarrow> h))"

definition give_up :: "string \<Rightarrow> string \<Rightarrow> host \<Rightarrow> host" where
  "give_up pid run h =
     (let h' = forget_pending run (clearReservation pid h) in h'\<lparr>ho_halts := jdel (ho_halts h') run\<rparr>)"

text \<open>
  The workspace is there, or it failed (then the reason); and \<open>startPipeline\<close> returned: the run is
  activated only from the status \<open>queued\<close>.
\<close>

definition materialized ::
  "string option \<Rightarrow> string \<Rightarrow> string list \<Rightarrow> string list \<Rightarrow> string \<Rightarrow> AdmissionQueueEntry \<Rightarrow> host \<Rightarrow> host" where
  "materialized failure pid skipped callers proj e h =
     (let run = qe_run e in
      case failure of
        Some reason \<Rightarrow> cancel_and_go_on reason skipped callers proj e (give_up pid run h)
      | None \<Rightarrow>
          (case row_status run h of
             None \<Rightarrow> go_on StartCancelled skipped callers proj e (forget_pending run (clearReservation pid h))
           | Some st \<Rightarrow>
               if st = RunQueued then
                 (ensureSchedulingHalt run h)\<lparr>ho_drain := Draining skipped callers proj e (Launching pid)\<rparr>
               else go_on StartCancelled skipped callers proj e (give_up pid run h)))"

definition launched ::
  "string option \<Rightarrow> string \<Rightarrow> string list \<Rightarrow> string list \<Rightarrow> string \<Rightarrow> AdmissionQueueEntry \<Rightarrow> host \<Rightarrow> host" where
  "launched failure pid skipped callers proj e h =
     (let run = qe_run e in
      case failure of
        Some reason \<Rightarrow> cancel_and_go_on reason skipped callers proj e (give_up pid run h)
      | None \<Rightarrow>
          if row_status run h = Some RunQueued then
            go_on Started skipped callers proj e (track pid run (forget_pending run (set_status run RunRunning h)))
          else go_on StartCancelled skipped callers proj e (give_up pid run h))"

text \<open>The second read fails; and the cancellation of a start that failed throws.\<close>

definition second_read_fails ::
  "string \<Rightarrow> string list \<Rightarrow> string list \<Rightarrow> string \<Rightarrow> AdmissionQueueEntry \<Rightarrow> host \<Rightarrow> host" where
  "second_read_fails pid skipped callers proj e h =
     go_on StartCancelled skipped callers proj e (forget_pending (qe_run e) (clearReservation pid h))"

definition cancel_throws :: "string \<Rightarrow> AdmissionQueueEntry \<Rightarrow> host \<Rightarrow> host" where
  "cancel_throws pid e h = (give_up pid (qe_run e) h)\<lparr>ho_drain := NoDrain\<rparr>"

section \<open>Resuming runs\<close>

definition findActiveCheckoutConflict :: "string \<Rightarrow> string option \<Rightarrow> string option \<Rightarrow> host \<Rightarrow> string option" where
  "findActiveCheckoutConflict run key durable h =
     (case Option.bind key (\<lambda>k. case jget (ho_leases h) k of None \<Rightarrow> None | Some i \<Rightarrow> if i \<noteq> run then Some i else None) of
        Some i \<Rightarrow> Some i
      | None \<Rightarrow>
          map_option fst (List.find (\<lambda>(i, e). i \<noteq> run \<and>
            (key \<noteq> None \<and> ae_checkout e = key \<or> durable \<noteq> None \<and> durable \<noteq> Some [] \<and> ae_durable e = durable)) (ho_active h)))"

text \<open>
  \<open>ensureResumeTracked\<close> waits between its first test and the rest, where it reads the run and the lease key of
  its checkout; a run without a checkout of its own has no key.
\<close>

definition begin_resume :: "string \<Rightarrow> host \<Rightarrow> host" where
  "begin_resume run h = (if jhas (ho_active h) run then h else h\<lparr>ho_resuming := ho_resuming h @ [run]\<rparr>)"

definition ensureResumeTracked ::
  "string \<Rightarrow> string option \<Rightarrow> string option \<Rightarrow> string option \<Rightarrow> string option \<Rightarrow> host \<Rightarrow> (string + unit) \<times> host" where
  "ensureResumeTracked run checkout lease_key proj caller h =
     (let durable = (if checkout = Some [] then None else checkout);
          key = (if durable = None then None else lease_key) in
      case findActiveCheckoutConflict run key durable h of
        Some holder \<Rightarrow> (Inl holder, h)
      | None \<Rightarrow>
          (Inr (), h\<lparr>ho_generation := Suc (ho_generation h),
             ho_leases := (case key of None \<Rightarrow> ho_leases h | Some k \<Rightarrow> jset (ho_leases h) k run),
             ho_active := jset (ho_active h) run \<lparr>ae_checkout = key, ae_durable = durable, ae_project = proj,
               ae_caller = caller, ae_generation = Suc (ho_generation h)\<rparr>\<rparr>))"

text \<open>
  \<open>attachWaitingStages\<close>, for one running run with stages that wait for input: it takes its slot and its lease
  again, over the limits if need be; a run whose checkout another one holds is failed.
\<close>

definition attach_waiting ::
  "string \<Rightarrow> string option \<Rightarrow> string option \<Rightarrow> string option \<Rightarrow> string option \<Rightarrow> host \<Rightarrow> host" where
  "attach_waiting run checkout lease_key proj caller h =
     (if jhas (ho_active h) run then h
      else case ensureResumeTracked run checkout lease_key proj caller h of
        (Inl _, h') \<Rightarrow> set_status run RunFailed h'
      | (Inr _, h') \<Rightarrow> h')"

definition registerResumeUntrack :: "string \<Rightarrow> host \<Rightarrow> host" where
  "registerResumeUntrack run h =
     (case jget (ho_active h) run of
        None \<Rightarrow> h
      | Some entry \<Rightarrow>
          (let gen = Suc (ho_generation h) in
           h\<lparr>ho_generation := gen, ho_active := jset (ho_active h) run (entry\<lparr>ae_generation := gen\<rparr>),
             ho_done := ho_done h @ [(run, gen)]\<rparr>))"

definition stopAcceptingWork :: "host \<Rightarrow> host" where
  "stopAcceptingWork h =
     h\<lparr>ho_accepting := False, ho_halts := map (\<lambda>(run, s). (run, \<lparr>sh_halted = True, sh_shutdown = True\<rparr>)) (ho_halts h)\<rparr>"

definition setMaxConcurrent :: "nat \<Rightarrow> host \<Rightarrow> host" where
  "setMaxConcurrent n h = (if n = 0 then h else h\<lparr>ho_max := n\<rparr>)"

text \<open>
  When the process starts, the runs that are still queued in the store join the queue again, the oldest first;
  what their starts need is rebuilt from the store when their turn comes.
\<close>

definition join_persisted :: "host_config \<Rightarrow> string \<times> run_row \<Rightarrow> AdmissionQueue \<Rightarrow> AdmissionQueue" where
  "join_persisted cfg r q =
     snd (enqueue (hc_resolve cfg (case rw_project (snd r) of None \<Rightarrow> hc_root cfg | Some p \<Rightarrow> p))
       \<lparr>qe_run = fst r, qe_created = rw_created (snd r), qe_caller = rw_caller (snd r)\<rparr> q)"

definition persisted :: "host \<Rightarrow> (string \<times> run_row) list" where
  "persisted h = sort_key (\<lambda>r. rw_created (snd r)) (filter (\<lambda>r. rw_status (snd r) = RunQueued) (ho_runs h))"

definition reenqueuePersistedQueuedRuns :: "host_config \<Rightarrow> host \<Rightarrow> host" where
  "reenqueuePersistedQueuedRuns cfg h =
     drainAdmissionQueue (h\<lparr>ho_queue := foldl (\<lambda>q r. join_persisted cfg r q) cleared (persisted h)\<rparr>)"

section \<open>Events\<close>

datatype event =
    StartRun string string "string option" "string option"
  | StartReturned string "string option"
  | StartFailed string
  | CreateQueued string string
  | CreateFailed string
  | JoinQueue string
  | JoinFailed string
  | RunEnds string nat RunStatus
  | CancelRun string string
  | SetMax nat
  | StopAccepting
  | ResumeRun string
  | ResumeTracked string "string option" "string option" "string option" "string option"
  | ResumeStarted string
  | ResumeFailed string
  | AttachRun string "string option" "string option" "string option" "string option"
  | MetaRead
  | MetaUnreadable
  | DrainThrows
  | Prepared prepared
  | Materialized "string option"
  | Launched "string option"

definition fresh_run :: "string \<Rightarrow> host \<Rightarrow> bool" where
  "fresh_run run h \<longleftrightarrow> \<not> jhas (ho_runs h) run \<and> run \<notin> snd ` set (ho_starting h) \<and> \<not> jhas (ho_joining h) run \<and>
     \<not> jhas (ho_active h) run"

text \<open>
  The admission of a start (\<open>reserveAndStartPipeline\<close>), after its checks.  Whether work is accepted is
  tested when the call begins, so that a start may still be admitted after the host stopped accepting.
\<close>

definition admit_start :: "host_config \<Rightarrow> string \<Rightarrow> string \<Rightarrow> string option \<Rightarrow> string option \<Rightarrow> host \<Rightarrow> host" where
  "admit_start cfg run proj key caller h =
     (case tryAdmitOrEnqueue cfg key (hc_resolve cfg proj) caller h of
        (Reserved pid, h') \<Rightarrow> h'\<lparr>ho_starting := jset (ho_starting h') pid run\<rparr>
      | (Enqueued _, h') \<Rightarrow>
          h'\<lparr>ho_joining := jset (ho_joining h') run
              \<lparr>pq_project = hc_resolve cfg proj, pq_checkout = key, pq_caller = caller\<rparr>\<rparr>
      | (Rejected _, h') \<Rightarrow> h')"

text \<open>\<open>startPipeline\<close> returned: the run was created, at the given time, or its dispatch had one already.\<close>

definition start_returned :: "string \<Rightarrow> string option \<Rightarrow> string \<Rightarrow> host \<Rightarrow> host" where
  "start_returned pid created run h =
     (let h' = h\<lparr>ho_starting := jdel (ho_starting h) pid\<rparr>; entry = jget (ho_active h) pid in
      case created of
        Some t \<Rightarrow>
          track pid run ((ensureSchedulingHalt run h')\<lparr>ho_runs := jset (ho_runs h') run
            \<lparr>rw_status = RunRunning, rw_created = t, rw_project = Option.bind entry ae_project,
             rw_caller = Option.bind entry ae_caller\<rparr>\<rparr>)
      | None \<Rightarrow> clearReservation pid h')"

definition create_queued :: "string \<Rightarrow> string \<Rightarrow> PendingQueuedStart \<Rightarrow> host \<Rightarrow> host" where
  "create_queued run created pq h = h\<lparr>ho_runs := jset (ho_runs h) run
     \<lparr>rw_status = RunQueued, rw_created = created, rw_project = Some (pq_project pq), rw_caller = pq_caller pq\<rparr>\<rparr>"

definition join_queue :: "string \<Rightarrow> run_row \<Rightarrow> PendingQueuedStart \<Rightarrow> host \<Rightarrow> host" where
  "join_queue run row pq h =
     h\<lparr>ho_joining := jdel (ho_joining h) run,
       ho_queue := snd (enqueue (pq_project pq)
         \<lparr>qe_run = run, qe_created = rw_created row, qe_caller = or_caller (pq_caller pq) (rw_caller row)\<rparr> (ho_queue h)),
       ho_pending := jset (ho_pending h) run pq\<rparr>"

definition leave_joining :: "string \<Rightarrow> host \<Rightarrow> host" where
  "leave_joining run h = h\<lparr>ho_joining := jdel (ho_joining h) run\<rparr>"

definition at_drain :: "host \<Rightarrow> (string list \<Rightarrow> string list \<Rightarrow> string \<Rightarrow> AdmissionQueueEntry \<Rightarrow> drain_stage \<Rightarrow> host option) \<Rightarrow> host option" where
  "at_drain h f = (case ho_drain h of NoDrain \<Rightarrow> None | Draining skipped callers proj e st \<Rightarrow> f skipped callers proj e st)"

fun host_step :: "host_config \<Rightarrow> event \<Rightarrow> host \<Rightarrow> host option" where
  "host_step cfg (StartRun run proj key caller) h =
     (if fresh_run run h then Some (admit_start cfg run proj key caller h) else None)"
| "host_step cfg (StartReturned pid created) h =
     map_option (\<lambda>run. start_returned pid created run h) (jget (ho_starting h) pid)"
| "host_step cfg (StartFailed pid) h =
     map_option (\<lambda>_. clearReservation pid (h\<lparr>ho_starting := jdel (ho_starting h) pid\<rparr>)) (jget (ho_starting h) pid)"
| "host_step cfg (CreateQueued run created) h =
     (if jhas (ho_runs h) run then None else map_option (\<lambda>pq. create_queued run created pq h) (jget (ho_joining h) run))"
| "host_step cfg (CreateFailed run) h =
     (if \<not> jhas (ho_runs h) run \<and> jhas (ho_joining h) run then Some (leave_joining run h) else None)"
| "host_step cfg (JoinQueue run) h =
     (case (jget (ho_runs h) run, jget (ho_joining h) run) of
        (Some row, Some pq) \<Rightarrow> Some (join_queue run row pq h) | _ \<Rightarrow> None)"
| "host_step cfg (JoinFailed run) h =
     (if jhas (ho_runs h) run \<and> jhas (ho_joining h) run then Some (leave_joining run h) else None)"
| "host_step cfg (RunEnds run gen st) h =
     (if (run, gen) \<in> set (ho_done h) \<and> st \<notin> {RunQueued, RunCreated} then
        Some (untrackIfGeneration run gen ((if row_status run h = Some RunCancelled then h else set_status run st h)
          \<lparr>ho_done := remove1 (run, gen) (ho_done h)\<rparr>))
      else None)"
| "host_step cfg (CancelRun run reason) h = Some (snd (cancelRun run reason h))"
| "host_step cfg (SetMax n) h = Some (setMaxConcurrent n h)"
| "host_step cfg StopAccepting h = Some (stopAcceptingWork h)"
| "host_step cfg (ResumeRun run) h =
     (if row_status run h \<in> {None, Some RunQueued, Some RunCreated} then None else Some (begin_resume run h))"
| "host_step cfg (ResumeTracked run checkout key proj caller) h =
     (if run \<in> set (ho_resuming h) then
        Some (snd (ensureResumeTracked run checkout key proj caller (h\<lparr>ho_resuming := remove1 run (ho_resuming h)\<rparr>)))
      else None)"
| "host_step cfg (ResumeStarted run) h = (if jhas (ho_runs h) run then Some (registerResumeUntrack run h) else None)"
| "host_step cfg (ResumeFailed run) h = (if jhas (ho_runs h) run then Some (removeActiveEntry run False h) else None)"
| "host_step cfg (AttachRun run checkout key proj caller) h =
     (if row_status run h = Some RunRunning then Some (attach_waiting run checkout key proj caller h) else None)"
| "host_step cfg MetaUnreadable h =
     at_drain h (\<lambda>skipped callers proj e st. case st of
       ReadingMeta \<Rightarrow> Some (meta_unreadable skipped callers proj e h)
     | Materializing pid \<Rightarrow> Some (second_read_fails pid skipped callers proj e h)
     | _ \<Rightarrow> None)"
| "host_step cfg DrainThrows h =
     at_drain h (\<lambda>skipped callers proj e st. case st of
       ReadingMeta \<Rightarrow> None
     | Preparing _ \<Rightarrow> Some (check_throws h)
     | Materializing pid \<Rightarrow> Some (cancel_throws pid e h)
     | Launching pid \<Rightarrow> Some (cancel_throws pid e h))"
| "host_step cfg MetaRead h =
     at_drain h (\<lambda>skipped callers proj e st. case st of ReadingMeta \<Rightarrow> Some (meta_read skipped callers proj e h) | _ \<Rightarrow> None)"
| "host_step cfg (Prepared ans) h =
     at_drain h (\<lambda>skipped callers proj e st. case st of
       Preparing caller \<Rightarrow> Some (prepare_dequeued cfg ans caller skipped callers proj e h) | _ \<Rightarrow> None)"
| "host_step cfg (Materialized failure) h =
     at_drain h (\<lambda>skipped callers proj e st. case st of
       Materializing pid \<Rightarrow> Some (materialized failure pid skipped callers proj e h) | _ \<Rightarrow> None)"
| "host_step cfg (Launched failure) h =
     at_drain h (\<lambda>skipped callers proj e st. case st of
       Launching pid \<Rightarrow> Some (launched failure pid skipped callers proj e h) | _ \<Rightarrow> None)"

fun host_steps :: "host_config \<Rightarrow> event list \<Rightarrow> host \<Rightarrow> host option" where
  "host_steps cfg [] h = Some h"
| "host_steps cfg (ev # evs) h = Option.bind (host_step cfg ev h) (host_steps cfg evs)"

definition new_host :: "nat \<Rightarrow> host" where
  "new_host n =
     \<lparr>ho_active = [], ho_leases = [], ho_provisional = [], ho_queue = cleared, ho_pending = [], ho_halts = [],
      ho_accepting = True, ho_generation = 0, ho_max = n, ho_uuids = 0, ho_runs = [], ho_starting = [], ho_joining = [],
      ho_done = [], ho_resuming = [], ho_drain = NoDrain\<rparr>"

text \<open>
  The process starts: the runs with waiting stages are attached and interrupted ones resumed, on an empty
  queue; only then the queued runs join the queue again.
\<close>

definition booting :: "event \<Rightarrow> bool" where
  "booting ev \<longleftrightarrow> (case ev of AttachRun _ _ _ _ _ \<Rightarrow> True | ResumeRun _ \<Rightarrow> True | ResumeTracked _ _ _ _ _ \<Rightarrow> True
     | ResumeStarted _ \<Rightarrow> True | ResumeFailed _ \<Rightarrow> True | RunEnds _ _ _ \<Rightarrow> True | _ \<Rightarrow> False)"

definition restarted :: "host_config \<Rightarrow> nat \<Rightarrow> event list \<Rightarrow> (string, run_row) jsmap \<Rightarrow> host option" where
  "restarted cfg n boot rows =
     (if list_all booting boot
      then map_option (reenqueuePersistedQueuedRuns cfg) (host_steps cfg boot ((new_host n)\<lparr>ho_runs := rows\<rparr>))
      else None)"

end
