(* ===== verification/Admission_Slots.thy ===== *)
theory Admission_Slots
  imports Run_Admission
begin

text \<open>
  The slots and the checkouts of the host: a locale for statements about them, proved once for every
  event of the host, and its first interpretation, that no checkout is held by two active runs.
\<close>

section \<open>Frames\<close>

lemma host_frame_loop [simp]:
  "ho_active (drain_loop R C h) = ho_active h" "ho_leases (drain_loop R C h) = ho_leases h"
  "ho_max (drain_loop R C h) = ho_max h" "ho_uuids (drain_loop R C h) = ho_uuids h"
  "ho_runs (drain_loop R C h) = ho_runs h" "ho_starting (drain_loop R C h) = ho_starting h"
  "ho_joining (drain_loop R C h) = ho_joining h" "ho_done (drain_loop R C h) = ho_done h"
  by (auto simp: drain_loop_def split: option.splits)

lemma host_frame_drain [simp]:
  "ho_active (drainAdmissionQueue h) = ho_active h" "ho_leases (drainAdmissionQueue h) = ho_leases h"
  "ho_max (drainAdmissionQueue h) = ho_max h" "ho_uuids (drainAdmissionQueue h) = ho_uuids h"
  "ho_runs (drainAdmissionQueue h) = ho_runs h" "ho_starting (drainAdmissionQueue h) = ho_starting h"
  "ho_joining (drainAdmissionQueue h) = ho_joining h" "ho_done (drainAdmissionQueue h) = ho_done h"
  by (simp_all add: drainAdmissionQueue_def)

lemma host_frame_go_on [simp]:
  "ho_active (go_on out R C p e h) = ho_active h" "ho_leases (go_on out R C p e h) = ho_leases h"
  "ho_max (go_on out R C p e h) = ho_max h" "ho_uuids (go_on out R C p e h) = ho_uuids h"
  "ho_runs (go_on out R C p e h) = ho_runs h" "ho_starting (go_on out R C p e h) = ho_starting h"
  "ho_joining (go_on out R C p e h) = ho_joining h" "ho_done (go_on out R C p e h) = ho_done h"
  by (cases out; simp add: go_on_def requeue_def)+

lemma host_frame_status [simp]:
  "ho_active (set_status run st h) = ho_active h" "ho_leases (set_status run st h) = ho_leases h"
  "ho_max (set_status run st h) = ho_max h" "ho_uuids (set_status run st h) = ho_uuids h"
  "ho_starting (set_status run st h) = ho_starting h" "ho_queue (set_status run st h) = ho_queue h"
  "ho_joining (set_status run st h) = ho_joining h" "ho_done (set_status run st h) = ho_done h"
  "ho_drain (set_status run st h) = ho_drain h" "ho_pending (set_status run st h) = ho_pending h"
  "ho_accepting (set_status run st h) = ho_accepting h" "ho_generation (set_status run st h) = ho_generation h"
  by (auto simp: set_status_def split: option.splits)

lemma host_frame_halt [simp]:
  "ho_active (halt_run run h) = ho_active h" "ho_leases (halt_run run h) = ho_leases h"
  "ho_max (halt_run run h) = ho_max h" "ho_uuids (halt_run run h) = ho_uuids h"
  "ho_starting (halt_run run h) = ho_starting h" "ho_queue (halt_run run h) = ho_queue h"
  "ho_joining (halt_run run h) = ho_joining h" "ho_done (halt_run run h) = ho_done h"
  "ho_drain (halt_run run h) = ho_drain h" "ho_pending (halt_run run h) = ho_pending h"
  "ho_accepting (halt_run run h) = ho_accepting h" "ho_generation (halt_run run h) = ho_generation h"
  "ho_runs (halt_run run h) = ho_runs h"
  by (auto simp: halt_run_def split: option.splits)

lemma host_frame_ensure [simp]:
  "ho_active (ensureSchedulingHalt run h) = ho_active h" "ho_leases (ensureSchedulingHalt run h) = ho_leases h"
  "ho_max (ensureSchedulingHalt run h) = ho_max h" "ho_uuids (ensureSchedulingHalt run h) = ho_uuids h"
  "ho_starting (ensureSchedulingHalt run h) = ho_starting h" "ho_queue (ensureSchedulingHalt run h) = ho_queue h"
  "ho_joining (ensureSchedulingHalt run h) = ho_joining h" "ho_done (ensureSchedulingHalt run h) = ho_done h"
  "ho_drain (ensureSchedulingHalt run h) = ho_drain h" "ho_generation (ensureSchedulingHalt run h) = ho_generation h"
  "ho_runs (ensureSchedulingHalt run h) = ho_runs h"
  by (auto simp: ensureSchedulingHalt_def split: option.splits)

lemma row_status_set [simp]:
  "row_status i (set_status run st h) = (if i = run \<and> jhas (ho_runs h) run then Some st else row_status i h)"
  by (auto simp: row_status_def set_status_def split: option.splits)

lemma row_status_cong: "ho_runs h' = ho_runs h \<Longrightarrow> row_status i h' = row_status i h"
  by (simp add: row_status_def)

lemma set_status_keys: "jhas (ho_runs (set_status run st h)) i = jhas (ho_runs h) i"
  by (auto simp: set_status_def split: option.splits)

section \<open>Laws of the slots\<close>

text \<open>
  Everything the host does to its slots and leases is a reservation, the end of an entry, the change of a
  reservation into a run, or a resumption.  A statement about the slots that these four keep holds
  in every state; \<open>slotted\<close> says whether it needs that a start holds its reservation.
\<close>

definition drain_claim :: "drain \<Rightarrow> string option" where
  "drain_claim d = (case d of Draining _ _ _ _ (Materializing i) \<Rightarrow> Some i | Draining _ _ _ _ (Launching i) \<Rightarrow> Some i | _ \<Rightarrow> None)"

definition holds :: "string \<Rightarrow> host \<Rightarrow> bool" where
  "holds pid h \<longleftrightarrow> pid \<in> set (jkeys (ho_starting h)) \<or> drain_claim (ho_drain h) = Some pid"

locale slot_laws =
  fixes cfg :: host_config and slotted :: bool and may :: "event \<Rightarrow> bool" and I :: "host \<Rightarrow> bool"
  assumes frame: "\<lbrakk>I h; ho_active h' = ho_active h; ho_leases h' = ho_leases h; ho_max h' = ho_max h\<rbrakk> \<Longrightarrow> I h'"
    and admits: "\<lbrakk>I h; tryAdmitOrEnqueue cfg key p caller h = (Reserved pid, h')\<rbrakk> \<Longrightarrow> I h'"
    and ends: "\<lbrakk>I h; jget (ho_active h) i = Some e\<rbrakk> \<Longrightarrow> I (drop_entry i e h)"
    and tracks: "\<lbrakk>I h; slotted \<longrightarrow> jhas (ho_active h) pid\<rbrakk> \<Longrightarrow> I (track pid run h)"
    and resumes: "\<lbrakk>I h; may (ResumeTracked run checkout key proj caller) \<or> may (AttachRun run checkout key proj caller);
      ensureResumeTracked run checkout key proj caller h = (r, h')\<rbrakk> \<Longrightarrow> I h'"
    and follows: "I h \<Longrightarrow> I (registerResumeUntrack run h)"
    and limits: "\<lbrakk>I h; may (SetMax n)\<rbrakk> \<Longrightarrow> I (setMaxConcurrent n h)"
begin

lemma admission: "I h \<Longrightarrow> tryAdmitOrEnqueue cfg key p caller h = (a, h') \<Longrightarrow> I h'"
proof (cases a)
  case (Reserved pid)
  then show "I h \<Longrightarrow> tryAdmitOrEnqueue cfg key p caller h = (a, h') \<Longrightarrow> I h'" using admits by blast
qed (auto simp: tryAdmitOrEnqueue_def Let_def split: option.splits prod.splits if_splits)

lemma remove: "I h \<Longrightarrow> I (removeActiveEntry i prov h)"
proof (cases "jget (ho_active h) i")
  case (Some e)
  assume "I h"
  from ends [OF this Some] show ?thesis using Some by (auto simp: removeActiveEntry_def elim!: frame)
qed (simp add: removeActiveEntry_def)

lemma cancel: "I h \<Longrightarrow> I (snd (cancelRun run reason h))"
  by (auto simp: cancelRun_def Let_def split: option.splits intro!: remove elim!: frame)

lemma go: "I (go_on out R C p e h) = I h"
  by (auto elim: frame)

lemma cancel_go: "I h \<Longrightarrow> I (cancel_and_go_on reason R C p e h)"
  by (simp add: cancel_and_go_on_def go cancel)

lemma gives_up: "I h \<Longrightarrow> I (give_up pid run h)"
  by (auto simp: give_up_def clearReservation_def forget_pending_def Let_def intro: frame [OF remove])

lemma reserving: "I h \<Longrightarrow> I (reserve_dequeued cfg key sp caller R C p e h)"
proof -
  assume h: "I h"
  obtain r h' where r: "tryReserve cfg key sp caller h = (r, h')" by fastforce
  then obtain a where "tryAdmitOrEnqueue cfg key sp caller h = (a, h')"
    by (auto simp: tryReserve_def split: prod.splits admission.splits enqueue_reason.splits)
  from admission [OF h this] have "I h'" .
  then show ?thesis
    by (auto simp: reserve_dequeued_def r requeue_def split: sum.splits busy.splits option.splits intro: frame)
qed

lemma preparing: "I h \<Longrightarrow> I (prepare_dequeued cfg ans mc R C p e h)"
  by (cases ans) (auto simp: prepare_dequeued_def Let_def requeue_def split: option.splits
      intro: cancel_go reserving frame)

lemma materializing: "I h \<Longrightarrow> I (materialized failure pid R C p e h)"
  by (auto simp: materialized_def Let_def forget_pending_def clearReservation_def split: option.splits
      intro: cancel_go gives_up frame [OF remove] frame)

lemma launching: "I h \<Longrightarrow> (slotted \<longrightarrow> jhas (ho_active h) pid) \<Longrightarrow> I (launched failure pid R C p e h)"
proof (cases failure)
  case None
  assume h: "I h" "slotted \<longrightarrow> jhas (ho_active h) pid"
  let ?h = "forget_pending (qe_run e) (set_status (qe_run e) RunRunning h)"
  have "I ?h" by (rule frame [OF h(1)]) (simp_all add: forget_pending_def)
  then have "I (track pid (qe_run e) ?h)" by (rule tracks) (use h in \<open>simp add: forget_pending_def\<close>)
  with None h show ?thesis by (auto simp: launched_def Let_def go intro: gives_up)
qed (simp add: launched_def Let_def cancel_go gives_up)

lemma starting: "I h \<Longrightarrow> I (admit_start cfg run p key caller h)"
proof -
  assume h: "I h"
  obtain a h' where a: "tryAdmitOrEnqueue cfg key (hc_resolve cfg p) caller h = (a, h')" by fastforce
  from admission [OF h a] have "I h'" .
  then show ?thesis by (cases a) (auto simp: admit_start_def a intro: frame)
qed

lemma returning:
  assumes "I h" "slotted \<longrightarrow> jhas (ho_active h) pid"
  shows "I (start_returned pid created run h)"
proof (cases created)
  case None
  have "I (h\<lparr>ho_starting := jdel (ho_starting h) pid\<rparr>)" by (rule frame [OF assms(1)]) simp_all
  with None show ?thesis by (simp add: start_returned_def clearReservation_def remove)
next
  case (Some t)
  show ?thesis
    by (simp only: start_returned_def Some Let_def option.case, rule tracks [OF frame [OF assms(1)]]) (use assms(2) in simp_all)
qed

lemma attaching:
  assumes "I h" "may (AttachRun run checkout key proj caller)"
  shows "I (attach_waiting run checkout key proj caller h)"
proof -
  obtain r h' where r: "ensureResumeTracked run checkout key proj caller h = (r, h')" by fastforce
  have "I h'" by (rule resumes [OF assms(1) disjI2 [OF assms(2)] r])
  with assms(1) show ?thesis by (auto simp: attach_waiting_def r split: sum.split intro: frame)
qed

lemma giving_way: "I h \<Longrightarrow> I (meta_unreadable R C p e h)" "I h \<Longrightarrow> I (check_throws h)"
  "I h \<Longrightarrow> I (second_read_fails pid R C p e h)" "I h \<Longrightarrow> I (cancel_throws pid e h)"
  by (auto simp: meta_unreadable_def check_throws_def second_read_fails_def cancel_throws_def forget_pending_def
      clearReservation_def intro: frame [OF remove] frame [OF gives_up] frame)

lemma requeues: "I h \<Longrightarrow> I (reenqueuePersistedQueuedRuns cfg h)"
  by (auto simp: reenqueuePersistedQueuedRuns_def intro: frame)

lemma step:
  assumes "I h" "slotted \<longrightarrow> (\<forall>pid. holds pid h \<longrightarrow> jhas (ho_active h) pid)" "may ev" "host_step cfg ev h = Some h'"
  shows "I h'"
proof -
  have st: "pid \<in> set (jkeys (ho_starting h)) \<Longrightarrow> slotted \<longrightarrow> jhas (ho_active h) pid" for pid
    using assms(2) by (simp add: holds_def)
  have re: "I (removeActiveEntry pid prov (h\<lparr>ho_starting := m\<rparr>))" for pid prov m
    by (rule remove, rule frame [OF assms(1)]) simp_all
  have un: "I (untrackIfGeneration i g h1)" if "I h1" for i g h1
    using that by (auto simp: untrackIfGeneration_def intro: remove split: option.split)
  have tr: "I (snd (ensureResumeTracked run ck key q caller (h\<lparr>ho_resuming := rs\<rparr>)))"
    if "may (ResumeTracked run ck key q caller)" for run ck key q caller rs
    by (rule resumes [OF frame [OF assms(1)] disjI1 [OF that] prod.collapse [symmetric]]) simp_all
  show ?thesis
  proof (cases ev)
    case (StartReturned pid created)
    with assms(4) show ?thesis by (auto intro!: returning [OF assms(1)] st dest: jget_SomeD)
  next
    case (StartFailed pid)
    with assms(4) show ?thesis by (auto simp: clearReservation_def re)
  next
    case (RunEnds run gen st)
    with assms(4) show ?thesis by (auto split: if_splits intro!: un frame [OF assms(1)])
  next
    case (ResumeTracked run ck key q caller)
    with assms(3,4) show ?thesis by (auto split: if_splits intro!: tr)
  next
    case (AttachRun run ck key q caller)
    with assms(3,4) show ?thesis by (auto split: if_splits intro!: attaching [OF assms(1)])
  next
    case MetaUnreadable
    with assms(4) show ?thesis
      by (auto simp: at_drain_def split: drain.splits drain_stage.splits intro: giving_way [OF assms(1)])
  next
    case DrainThrows
    with assms(4) show ?thesis
      by (auto simp: at_drain_def split: drain.splits drain_stage.splits intro: giving_way [OF assms(1)])
  next
    case MetaRead
    with assms(4) show ?thesis
      by (auto simp: at_drain_def meta_read_def go forget_pending_def split: drain.splits drain_stage.splits option.splits
          intro: frame [OF assms(1)])
  next
    case (Prepared ans)
    with assms(4) show ?thesis
      by (auto simp: at_drain_def split: drain.splits drain_stage.splits intro: preparing [OF assms(1)])
  next
    case (Materialized f)
    with assms(4) show ?thesis
      by (auto simp: at_drain_def split: drain.splits drain_stage.splits intro: materializing [OF assms(1)])
  next
    case (Launched f)
    with assms(2,4) show ?thesis
      by (auto simp: at_drain_def holds_def drain_claim_def split: drain.splits drain_stage.splits intro!: launching [OF assms(1)])
  next
    case (CancelRun run reason)
    with assms(4) show ?thesis by (auto simp: cancel [OF assms(1)])
  next
    case (SetMax n)
    with assms(3,4) show ?thesis by (auto intro: limits [OF assms(1)])
  next
    case (ResumeStarted run)
    with assms(4) show ?thesis by (auto split: if_splits intro: follows [OF assms(1)])
  next
    case (ResumeFailed run)
    with assms(4) show ?thesis by (auto split: if_splits intro: remove [OF assms(1)])
  next
    case (StartRun run p key caller)
    with assms(4) show ?thesis by (auto split: if_splits intro: starting [OF assms(1)])
  next
    case (JoinQueue run)
    with assms(4) show ?thesis by (auto simp: join_queue_def split: option.splits intro: frame [OF assms(1)])
  qed (use assms(4) in \<open>auto simp: create_queued_def leave_joining_def stopAcceptingWork_def begin_resume_def split: if_splits
      intro: frame [OF assms(1)]\<close>)
qed

end

lemma host_steps_invariant:
  assumes "host_steps cfg evs h = Some h'" "P h"
    and "\<And>ev h h'. \<lbrakk>ev \<in> set evs; host_step cfg ev h = Some h'; P h\<rbrakk> \<Longrightarrow> P h'"
  shows "P h'"
  using assms
proof (induction evs arbitrary: h)
  case (Cons ev evs)
  then obtain h1 where h1: "host_step cfg ev h = Some h1" "host_steps cfg evs h1 = Some h'"
    by (cases "host_step cfg ev h") auto
  have "P h1" by (rule Cons.prems(3) [OF _ h1(1) Cons.prems(2)]) simp
  show ?case
  proof (rule Cons.IH [OF h1(2) \<open>P h1\<close>])
    fix a k k' assume "a \<in> set evs" "host_step cfg a k = Some k'" "P k"
    then show "P k'" using Cons.prems(3) [of a k k'] by simp
  qed
qed simp

lemma restarted_invariant:
  assumes "restarted cfg n boot rows = Some h" "P ((new_host n)\<lparr>ho_runs := rows\<rparr>)"
    and "\<And>ev h h'. \<lbrakk>ev \<in> set boot; booting ev; host_step cfg ev h = Some h'; P h\<rbrakk> \<Longrightarrow> P h'"
    and "\<And>h. P h \<Longrightarrow> P (reenqueuePersistedQueuedRuns cfg h)"
  shows "P h"
proof -
  from assms(1) obtain h1 where h1: "host_steps cfg boot ((new_host n)\<lparr>ho_runs := rows\<rparr>) = Some h1"
    "h = reenqueuePersistedQueuedRuns cfg h1" "\<forall>ev\<in>set boot. booting ev"
    by (auto simp: restarted_def list_all_iff split: if_splits)
  have "P h1" by (rule host_steps_invariant [OF h1(1), where P = P]) (use assms(2,3) h1(3) in blast)+
  with assms(4) h1(2) show ?thesis by simp
qed

text \<open>Both phases together, for an invariant that the queue does not touch.\<close>

lemma run_invariant:
  assumes "restarted cfg n boot rows = Some h0" "host_steps cfg evs h0 = Some h" "P ((new_host n)\<lparr>ho_runs := rows\<rparr>)"
    and "\<And>ev h h'. \<lbrakk>ev \<in> set (boot @ evs); host_step cfg ev h = Some h'; P h\<rbrakk> \<Longrightarrow> P h'"
    and "\<And>h. P h \<Longrightarrow> P (reenqueuePersistedQueuedRuns cfg h)"
  shows "P h"
proof (rule host_steps_invariant [OF assms(2), where P = P])
  show "P h0" by (rule restarted_invariant [OF assms(1,3) _ assms(5)]) (use assms(4) in auto)
qed (use assms(4) in auto)

lemma admit_cases:
  assumes "tryAdmitOrEnqueue cfg key p caller h = (Reserved pid, h')"
  shows "lease_holder key h = None" "project_full cfg (hc_resolve cfg p) h = None" "length (ho_active h) < ho_max h"
    "over_quota cfg caller h = None" "(pid, h') = reserve cfg key (hc_resolve cfg p) caller h"
  using assms by (auto simp: tryAdmitOrEnqueue_def Let_def split: option.splits if_splits prod.splits)

section \<open>Checkouts\<close>

text \<open>Every active run with a checkout key holds its lease; a durable checkout belongs to one active run.\<close>

definition leased :: "(string \<Rightarrow> ActiveEntry option) \<Rightarrow> (string \<Rightarrow> string option) \<Rightarrow> bool" where
  "leased act lea \<longleftrightarrow> (\<forall>i e k. act i = Some e \<longrightarrow> ae_checkout e = Some k \<longrightarrow> lea k = Some i)"

definition durable_once :: "(string \<Rightarrow> ActiveEntry option) \<Rightarrow> bool" where
  "durable_once act \<longleftrightarrow> (\<forall>i j e f d. act i = Some e \<longrightarrow> act j = Some f \<longrightarrow> ae_durable e = Some d \<longrightarrow>
     ae_durable f = Some d \<longrightarrow> i = j)"

definition exclusive :: "host \<Rightarrow> bool" where
  "exclusive h \<longleftrightarrow> leased (jget (ho_active h)) (jget (ho_leases h)) \<and> durable_once (jget (ho_active h))"

lemma leasedD: "leased act lea \<Longrightarrow> act i = Some e \<Longrightarrow> ae_checkout e = Some k \<Longrightarrow> lea k = Some i"
  unfolding leased_def by blast

lemma leasedI: "(\<And>i e k. act i = Some e \<Longrightarrow> ae_checkout e = Some k \<Longrightarrow> lea k = Some i) \<Longrightarrow> leased act lea"
  unfolding leased_def by blast

lemma durable_onceD: "durable_once act \<Longrightarrow> act i = Some e \<Longrightarrow> act j = Some f \<Longrightarrow> ae_durable e = Some d \<Longrightarrow> ae_durable f = Some d \<Longrightarrow> i = j"
  unfolding durable_once_def by blast

lemma durable_onceI:
  "(\<And>i j e f d. act i = Some e \<Longrightarrow> act j = Some f \<Longrightarrow> ae_durable e = Some d \<Longrightarrow> ae_durable f = Some d \<Longrightarrow> i = j) \<Longrightarrow>
    durable_once act"
  unfolding durable_once_def by blast

text \<open>An entry takes the place of another one, or joins with a checkout that is free.\<close>

lemma exclusive_put:
  assumes ex: "exclusive h" and m: "\<And>j. jget (ho_active h') j = (if j = i then Some e else if j = out then None else jget (ho_active h) j)"
    and l: "\<And>k. jget (ho_leases h') k = (if ae_checkout e = Some k then Some i else jget (ho_leases h) k)"
    and free: "\<And>j f k. jget (ho_active h) j = Some f \<Longrightarrow> ae_checkout e = Some k \<Longrightarrow> ae_checkout f = Some k \<Longrightarrow> j = i \<or> j = out"
    and once: "\<And>j f d. jget (ho_active h) j = Some f \<Longrightarrow> ae_durable e = Some d \<Longrightarrow> ae_durable f = Some d \<Longrightarrow> j = i \<or> j = out"
  shows "exclusive h'"
proof -
  have L: "leased (jget (ho_active h)) (jget (ho_leases h))" and D: "durable_once (jget (ho_active h))"
    using ex by (simp_all add: exclusive_def)
  have "leased (jget (ho_active h')) (jget (ho_leases h'))"
  proof (rule leasedI)
    fix j f k assume a: "jget (ho_active h') j = Some f" "ae_checkout f = Some k"
    show "jget (ho_leases h') k = Some j"
    proof (cases "j = i")
      case False
      then have b: "j \<noteq> out" "jget (ho_active h) j = Some f" using a(1) m by (auto split: if_splits)
      then have "ae_checkout e \<noteq> Some k" using free [OF b(2) _ a(2)] False by blast
      then show ?thesis using leasedD [OF L b(2) a(2)] l by simp
    qed (use a m l in simp)
  qed
  moreover have "durable_once (jget (ho_active h'))"
  proof (rule durable_onceI)
    fix j k f g d
    assume a: "jget (ho_active h') j = Some f" "jget (ho_active h') k = Some g" "ae_durable f = Some d" "ae_durable g = Some d"
    have old: "j' = i \<or> j' \<noteq> out \<and> jget (ho_active h) j' = Some f'" if "jget (ho_active h') j' = Some f'" for j' f'
      using that m by (auto split: if_splits)
    have self: "jget (ho_active h') i = Some e" using m by simp
    show "j = k"
    proof (cases "j = i \<or> k = i")
      case True
      then show ?thesis using old [OF a(1)] old [OF a(2)] a self once by (metis option.inject)
    next
      case False
      then show ?thesis using old [OF a(1)] old [OF a(2)] durable_onceD [OF D _ _ a(3,4)] by blast
    qed
  qed
  ultimately show ?thesis by (simp add: exclusive_def)
qed

lemma exclusive_resume:
  assumes ex: "exclusive h" and eq: "ensureResumeTracked run checkout key proj caller h = (r, h')"
  shows "exclusive h'"
proof -
  define durable where "durable = (if checkout = Some [] then None else checkout)"
  define lkey where "lkey = (if durable = None then None else key)"
  note defs = durable_def [symmetric] lkey_def [symmetric]
  show ?thesis
  proof (cases "findActiveCheckoutConflict run lkey durable h")
    case (Some holder)
    with eq ex show ?thesis by (simp add: ensureResumeTracked_def Let_def defs)
  next
    case None
    then have "List.find (\<lambda>(i, e). i \<noteq> run \<and> (lkey \<noteq> None \<and> ae_checkout e = lkey \<or>
        durable \<noteq> None \<and> durable \<noteq> Some [] \<and> ae_durable e = durable)) (ho_active h) = None"
      by (auto simp: findActiveCheckoutConflict_def split: option.splits)
    then have none: "\<not> (\<exists>x\<in>set (ho_active h). case x of (i, e) \<Rightarrow> i \<noteq> run \<and> (lkey \<noteq> None \<and> ae_checkout e = lkey \<or>
        durable \<noteq> None \<and> durable \<noteq> Some [] \<and> ae_durable e = durable))"
      unfolding find_None_iff by blast
    have full: "durable \<noteq> Some []" by (simp add: durable_def)
    have free: "(lkey = None \<or> ae_checkout e \<noteq> lkey) \<and> (durable = None \<or> ae_durable e \<noteq> durable)"
      if "jget (ho_active h) i = Some e" "i \<noteq> run" for i e
      using none full map_of_SomeD [OF that(1)] that(2) by blast
    have h': "h' = h\<lparr>ho_generation := Suc (ho_generation h),
             ho_leases := (case lkey of None \<Rightarrow> ho_leases h | Some k \<Rightarrow> jset (ho_leases h) k run),
             ho_active := jset (ho_active h) run \<lparr>ae_checkout = lkey, ae_durable = durable, ae_project = proj,
               ae_caller = caller, ae_generation = Suc (ho_generation h)\<rparr>\<rparr>"
      using eq None by (simp add: ensureResumeTracked_def Let_def defs)
    show ?thesis
    proof (rule exclusive_put [OF ex, where i = run and out = run and e = "\<lparr>ae_checkout = lkey, ae_durable = durable,
          ae_project = proj, ae_caller = caller, ae_generation = Suc (ho_generation h)\<rparr>"])
      fix k show "jget (ho_leases h') k = (if ae_checkout \<lparr>ae_checkout = lkey, ae_durable = durable,
          ae_project = proj, ae_caller = caller, ae_generation = Suc (ho_generation h)\<rparr> = Some k then Some run else jget (ho_leases h) k)"
        by (simp add: h' split: option.split)
    qed (use free in \<open>auto simp: h'\<close>)
  qed
qed

lemma exclusive_drop: "exclusive h \<Longrightarrow> jget (ho_active h) i = Some e \<Longrightarrow> exclusive (drop_entry i e h)"
proof -
  assume ex: "exclusive h" and e: "jget (ho_active h) i = Some e"
  have L: "leased (jget (ho_active h)) (jget (ho_leases h))" and D: "durable_once (jget (ho_active h))"
    using ex by (simp_all add: exclusive_def)
  have "leased (jget (ho_active (drop_entry i e h))) (jget (ho_leases (drop_entry i e h)))"
  proof (rule leasedI)
    fix j f k assume a: "jget (ho_active (drop_entry i e h)) j = Some f" "ae_checkout f = Some k"
    then have j: "j \<noteq> i" "jget (ho_active h) j = Some f" by (simp_all add: drop_entry_def split: if_splits)
    from leasedD [OF L j(2) a(2)] j(1) show "jget (ho_leases (drop_entry i e h)) k = Some j"
      by (auto simp: drop_entry_def split: option.splits)
  qed
  moreover have "durable_once (jget (ho_active (drop_entry i e h)))"
    by (rule durable_onceI) (use durable_onceD [OF D] in \<open>auto simp: drop_entry_def split: if_splits\<close>)
  ultimately show ?thesis by (simp add: exclusive_def)
qed

lemma exclusive_reserve:
  assumes ex: "exclusive h" and adm: "tryAdmitOrEnqueue cfg key p caller h = (Reserved pid, h')"
  shows "exclusive h'"
proof -
  have "lease_holder key h = None" by (rule admit_cases [OF adm])
  then have "\<And>k. key = Some k \<Longrightarrow> jget (ho_leases h) k = None" by (auto simp: lease_holder_def)
  then have free: "\<And>j f k. jget (ho_active h) j = Some f \<Longrightarrow> key = Some k \<Longrightarrow> ae_checkout f = Some k \<Longrightarrow> False"
    using ex leasedD unfolding exclusive_def by fastforce
  let ?e = "\<lparr>ae_checkout = key, ae_durable = None, ae_project = Some (hc_resolve cfg p), ae_caller = caller,
    ae_generation = Suc (ho_generation h)\<rparr>"
  note r = admit_cases(5) [OF adm, unfolded reserve_def Let_def, simplified]
  show ?thesis
    by (rule exclusive_put [OF ex, where i = pid and out = pid and e = ?e]) (use r free in \<open>auto split: option.splits\<close>)
qed

lemma exclusive_track: "exclusive h \<Longrightarrow> exclusive (track pid run h)"
proof -
  assume ex: "exclusive h"
  show ?thesis
  proof (cases "jget (ho_active h) pid")
    case None
    show ?thesis
      by (rule exclusive_put [OF ex, where i = run and out = pid and e = "\<lparr>ae_checkout = None, ae_durable = None,
            ae_project = None, ae_caller = None, ae_generation = Suc (Suc (ho_generation h))\<rparr>"])
        (simp_all add: track_def Let_def None)
  next
    case (Some e)
    have L: "leased (jget (ho_active h)) (jget (ho_leases h))" and D: "durable_once (jget (ho_active h))"
      using ex by (simp_all add: exclusive_def)
    show ?thesis
    proof (rule exclusive_put [OF ex, where i = run and out = pid and e = "e\<lparr>ae_generation := Suc (ho_generation h)\<rparr>"])
      fix j f k assume "jget (ho_active h) j = Some f" "ae_checkout (e\<lparr>ae_generation := Suc (ho_generation h)\<rparr>) = Some k"
        "ae_checkout f = Some k"
      then show "j = run \<or> j = pid" using leasedD [OF L Some, of k] leasedD [OF L, of j f k] by simp
    next
      fix j f d assume "jget (ho_active h) j = Some f" "ae_durable (e\<lparr>ae_generation := Suc (ho_generation h)\<rparr>) = Some d"
        "ae_durable f = Some d"
      then show "j = run \<or> j = pid" using durable_onceD [OF D Some, of j f d] by simp
    qed (simp_all add: track_def Let_def Some split: option.split)
  qed
qed

lemma exclusive_follow: "exclusive h \<Longrightarrow> exclusive (registerResumeUntrack run h)"
proof -
  assume ex: "exclusive h"
  show ?thesis
  proof (cases "jget (ho_active h) run")
    case (Some e)
    have L: "leased (jget (ho_active h)) (jget (ho_leases h))" and D: "durable_once (jget (ho_active h))"
      using ex by (simp_all add: exclusive_def)
    show ?thesis
    proof (rule exclusive_put [OF ex, where i = run and out = run and e = "e\<lparr>ae_generation := Suc (ho_generation h)\<rparr>"])
      fix k show "jget (ho_leases (registerResumeUntrack run h)) k =
          (if ae_checkout (e\<lparr>ae_generation := Suc (ho_generation h)\<rparr>) = Some k then Some run else jget (ho_leases h) k)"
        using leasedD [OF L Some, of k] by (simp add: registerResumeUntrack_def Let_def Some)
    next
      fix j f k assume "jget (ho_active h) j = Some f" "ae_checkout (e\<lparr>ae_generation := Suc (ho_generation h)\<rparr>) = Some k"
        "ae_checkout f = Some k"
      then show "j = run \<or> j = run" using leasedD [OF L Some, of k] leasedD [OF L, of j f k] by simp
    next
      fix j f d assume "jget (ho_active h) j = Some f" "ae_durable (e\<lparr>ae_generation := Suc (ho_generation h)\<rparr>) = Some d"
        "ae_durable f = Some d"
      then show "j = run \<or> j = run" using durable_onceD [OF D Some, of j f d] by simp
    qed (simp_all add: registerResumeUntrack_def Let_def Some)
  qed (use ex in \<open>simp add: registerResumeUntrack_def\<close>)
qed

lemma exclusive_cong: "exclusive h \<Longrightarrow> ho_active h' = ho_active h \<Longrightarrow> ho_leases h' = ho_leases h \<Longrightarrow> exclusive h'"
  by (simp add: exclusive_def)

lemma exclusive_max: "exclusive h \<Longrightarrow> exclusive (setMaxConcurrent n h)"
  by (erule exclusive_cong) (simp_all add: setMaxConcurrent_def)

lemma exclusive_new: "exclusive ((new_host n)\<lparr>ho_runs := rows\<rparr>)"
  by (simp add: exclusive_def new_host_def leased_def durable_once_def)

interpretation checkout: slot_laws cfg False "\<lambda>_. True" exclusive for cfg
  by unfold_locales (auto intro: exclusive_cong exclusive_max exclusive_reserve exclusive_drop exclusive_track exclusive_resume exclusive_follow)

text \<open>
  C10: in every state the host reaches, whatever runs it attached and resumed when it started, and whatever
  starts, ends, cancellations, resumptions and errors of the drain came in whatever order, no two active
  runs share a checkout, and an active run holds the lease of its own.
\<close>

theorem checkout_exclusive:
  assumes "restarted cfg n boot rows = Some h0" "host_steps cfg evs h0 = Some h"
    and "jget (ho_active h) i = Some a" "jget (ho_active h) j = Some b" "i \<noteq> j"
  shows "(ae_checkout a = None \<or> ae_checkout a \<noteq> ae_checkout b) \<and> (ae_durable a = None \<or> ae_durable a \<noteq> ae_durable b) \<and>
    (\<forall>k. ae_checkout a = Some k \<longrightarrow> jget (ho_leases h) k = Some i)"
proof -
  have "exclusive h"
    by (rule run_invariant [OF assms(1,2), where P = exclusive, OF exclusive_new]) (auto intro: checkout.step checkout.requeues)
  then have L: "leased (jget (ho_active h)) (jget (ho_leases h))" and D: "durable_once (jget (ho_active h))"
    by (simp_all add: exclusive_def)
  show ?thesis
    using leasedD [OF L assms(3)] leasedD [OF L assms(4)] durable_onceD [OF D assms(3,4)] assms(5)
    by (cases "ae_checkout a"; cases "ae_durable a") auto
qed

end
