(* ===== verification/Admission_Limits.thy ===== *)
theory Admission_Limits
  imports Admission_Slots
begin

text \<open>
  The limits of the active runs: a start that is under way holds its reservation, so that the slots,
  the quotas of the callers and the shares of the projects are kept in every state without resumptions.
\<close>

section \<open>Reservations\<close>

lemma claims [simp]:
  "drain_claim NoDrain = None" "drain_claim (Draining R C p e ReadingMeta) = None"
  "drain_claim (Draining R C p e (Preparing c)) = None" "drain_claim (Draining R C p e (Materializing i)) = Some i"
  "drain_claim (Draining R C p e (Launching i)) = Some i"
  by (simp_all add: drain_claim_def)

lemma claim_loop [simp]: "drain_claim (ho_drain (drain_loop R C h)) = None"
  by (auto simp: drain_loop_def split: option.split)

lemma claim_drain [simp]: "drain_claim (ho_drain (drainAdmissionQueue h)) = drain_claim (ho_drain h)"
  by (simp add: drainAdmissionQueue_def)

lemma claim_go [simp]: "drain_claim (ho_drain (go_on out R C p e h)) = None"
  by (cases out) (simp_all add: go_on_def)

lemma remove_frame [simp]:
  "drain_claim (ho_drain (removeActiveEntry i prov h)) = drain_claim (ho_drain h)"
  "ho_starting (removeActiveEntry i prov h) = ho_starting h" "ho_uuids (removeActiveEntry i prov h) = ho_uuids h"
  "ho_runs (removeActiveEntry i prov h) = ho_runs h" "ho_joining (removeActiveEntry i prov h) = ho_joining h"
  "ho_done (removeActiveEntry i prov h) = ho_done h"
  by (auto simp: removeActiveEntry_def drop_entry_def split: option.split)

lemma remove_active [simp]: "ho_active (removeActiveEntry i prov h) = jdel (ho_active h) i"
  by (auto simp: removeActiveEntry_def drop_entry_def jget_eq_None_iff image_iff AList.delete_notin_dom split: option.split)

definition names :: "host \<Rightarrow> string set" where
  "names h = set (jkeys (ho_runs h)) \<union> snd ` set (ho_starting h) \<union> set (jkeys (ho_joining h)) \<union> fst ` set (ho_done h)"

text \<open>A start that is under way holds its reservation, and no run has the name of a reservation.\<close>

definition slots :: "host_config \<Rightarrow> host \<Rightarrow> bool" where
  "slots cfg h \<longleftrightarrow>
     (\<forall>pid. holds pid h \<longrightarrow> jhas (ho_active h) pid \<and> pid \<in> hc_uuid cfg ` {..<ho_uuids h}) \<and>
     (\<forall>pid. drain_claim (ho_drain h) = Some pid \<longrightarrow> pid \<notin> set (jkeys (ho_starting h))) \<and>
     names h \<inter> range (hc_uuid cfg) = {}"

lemma slotsD: "slots cfg h \<Longrightarrow> holds pid h \<Longrightarrow> jhas (ho_active h) pid"
  unfolding slots_def by blast

lemma slots_keep:
  assumes "slots cfg h" "set (jkeys (ho_starting h')) \<subseteq> set (jkeys (ho_starting h))"
    "drain_claim (ho_drain h') = None \<or> drain_claim (ho_drain h') = drain_claim (ho_drain h)"
    "\<And>pid. holds pid h' \<Longrightarrow> pid \<in> range (hc_uuid cfg) \<Longrightarrow> jhas (ho_active h) pid \<Longrightarrow> jhas (ho_active h') pid"
    "ho_uuids h' = ho_uuids h" "names h' \<inter> range (hc_uuid cfg) = {}"
  shows "slots cfg h'"
proof -
  have old: "holds pid h" if "holds pid h'" for pid using that assms(2,3) by (auto simp: holds_def)
  have "jhas (ho_active h') pid \<and> pid \<in> hc_uuid cfg ` {..<ho_uuids h'}" if p: "holds pid h'" for pid
  proof -
    have a: "jhas (ho_active h) pid" "pid \<in> hc_uuid cfg ` {..<ho_uuids h}" using old [OF p] assms(1) unfolding slots_def by blast+
    then have "jhas (ho_active h') pid" by (intro assms(4) [OF p]) auto
    with a(2) assms(5) show ?thesis by simp
  qed
  moreover have "pid \<notin> set (jkeys (ho_starting h'))" if "drain_claim (ho_drain h') = Some pid" for pid
  proof -
    from that assms(3) have "drain_claim (ho_drain h) = Some pid" by auto
    with assms(1) have "pid \<notin> set (jkeys (ho_starting h))" unfolding slots_def by blast
    with assms(2) show ?thesis by blast
  qed
  ultimately show ?thesis using assms(6) unfolding slots_def by blast
qed

lemma names_remove [simp]: "names (removeActiveEntry i prov h) = names h"
  by (simp add: names_def)

lemma reserved_remove: "slots cfg h \<Longrightarrow> \<not> holds i h \<or> i \<notin> range (hc_uuid cfg) \<Longrightarrow> slots cfg (removeActiveEntry i prov h)"
  by (rule slots_keep) (auto simp: holds_def slots_def)

text \<open>The end of a reservation: it is given up, or a run takes its place.\<close>

lemma slots_let_go:
  assumes "slots cfg h" "ho_starting h' = ho_starting h" "drain_claim (ho_drain h') = None"
    "\<And>pid. pid \<in> set (jkeys (ho_starting h)) \<Longrightarrow> jhas (ho_active h) pid \<Longrightarrow> jhas (ho_active h') pid"
    "ho_uuids h' = ho_uuids h" "names h' \<inter> range (hc_uuid cfg) = {}"
  shows "slots cfg h'"
  by (rule slots_keep [OF assms(1)]) (use assms in \<open>auto simp: holds_def\<close>)

lemma names_cancel [simp]: "names (snd (cancelRun run reason h)) = names h"
proof -
  have "set (jkeys (ho_runs (set_status run st h))) = set (jkeys (ho_runs h))" for st
    using set_status_keys [of run st h] by (auto simp: jget_eq_None_iff simp del: set_map)
  then show ?thesis by (auto simp: cancelRun_def Let_def names_def split: option.split simp del: set_map)
qed

lemma cancel_frame [simp]:
  "drain_claim (ho_drain (snd (cancelRun run reason h))) = drain_claim (ho_drain h)"
  "ho_starting (snd (cancelRun run reason h)) = ho_starting h" "ho_uuids (snd (cancelRun run reason h)) = ho_uuids h"
  by (auto simp: cancelRun_def Let_def split: option.split)

lemma cancel_active:
  "i \<noteq> run \<or> \<not> jhas (ho_runs h) run \<Longrightarrow> jget (ho_active (snd (cancelRun run reason h))) i = jget (ho_active h) i"
  by (auto simp: cancelRun_def Let_def row_status_def split: option.split)


lemma row_name: "slots cfg h \<Longrightarrow> jhas (ho_runs h) run \<Longrightarrow> run \<notin> range (hc_uuid cfg)"
proof -
  assume "slots cfg h" "jhas (ho_runs h) run"
  then have "run \<in> names h" "names h \<inter> range (hc_uuid cfg) = {}"
    by (simp_all add: names_def jget_eq_None_iff slots_def del: set_map)
  then show ?thesis by blast
qed

lemma slots_cancel: "slots cfg h \<Longrightarrow> slots cfg (snd (cancelRun run reason h))"
proof (rule slots_keep)
  assume s: "slots cfg h"
  fix pid assume "pid \<in> range (hc_uuid cfg)" "jhas (ho_active h) pid"
  then have "pid \<noteq> run \<or> \<not> jhas (ho_runs h) run" using row_name [OF s] by blast
  then show "jhas (ho_active (snd (cancelRun run reason h))) pid" using cancel_active \<open>jhas (ho_active h) pid\<close> by simp
qed (auto simp: slots_def)

lemma go_frame_claims [simp]: "names (go_on out R C p e h) = names h"
  by (simp add: names_def)

lemma slots_go: "slots cfg h \<Longrightarrow> slots cfg (go_on out R C p e h)"
  by (rule slots_let_go) (auto simp: slots_def)

lemma slots_cancel_go: "slots cfg h \<Longrightarrow> slots cfg (cancel_and_go_on reason R C p e h)"
  by (simp add: cancel_and_go_on_def slots_go slots_cancel)

lemma slots_still:
  assumes "slots cfg h" "ho_starting h' = ho_starting h" "drain_claim (ho_drain h') = None \<or> ho_drain h' = ho_drain h"
    "ho_active h' = ho_active h" "ho_uuids h' = ho_uuids h" "names h' = names h"
  shows "slots cfg h'"
  by (rule slots_keep [OF assms(1)]) (use assms in \<open>auto simp: slots_def\<close>)

lemma admit_slots:
  assumes s: "slots cfg h" and i: "inj (hc_uuid cfg)" and adm: "tryAdmitOrEnqueue cfg key p caller h = (a, h')"
  shows "slots cfg h' \<and> names h' = names h \<and> ho_starting h' = ho_starting h \<and> ho_drain h' = ho_drain h \<and>
    (\<forall>pid. a = Reserved pid \<longrightarrow> jhas (ho_active h') pid \<and> pid \<in> hc_uuid cfg ` {..<ho_uuids h'} \<and> \<not> holds pid h)"
proof (cases a)
  case (Reserved pid)
  have h': "pid = hc_uuid cfg (ho_uuids h)" "ho_starting h' = ho_starting h" "ho_drain h' = ho_drain h"
    "ho_uuids h' = Suc (ho_uuids h)" "names h' = names h" "jhas (ho_active h') pid"
    "\<And>i. jhas (ho_active h) i \<Longrightarrow> jhas (ho_active h') i"
    using admit_cases(5) [OF adm [unfolded Reserved]] by (auto simp: reserve_def Let_def names_def)
  have "pid \<notin> hc_uuid cfg ` {..<ho_uuids h}" using i unfolding h'(1) by (auto dest: injD)
  then have "\<not> holds pid h" using s unfolding slots_def by blast
  moreover have "holds i h' = holds i h" for i by (simp add: holds_def h')
  then have "slots cfg h'" using s h'(2-) unfolding slots_def by (auto simp: lessThan_Suc)
  ultimately show ?thesis using Reserved h' by (auto simp: lessThan_Suc)
qed (use s adm in \<open>auto simp: tryAdmitOrEnqueue_def Let_def split: option.splits prod.splits if_splits\<close>)

lemma starting_names: "snd ` set (jset m i v) \<subseteq> insert v (snd ` set m)"
  using jvals_jset [of _ i v m] by auto

lemma deleted_names: "snd ` set (jdel m i) \<subseteq> snd ` set m"
  by (auto simp: AList.delete_eq)

lemma claim_apart: "slots cfg h \<Longrightarrow> drain_claim (ho_drain h) = Some pid \<Longrightarrow> i \<in> set (jkeys (ho_starting h)) \<Longrightarrow> i \<noteq> pid"
  unfolding slots_def by blast

lemma names_apart: "slots cfg h \<Longrightarrow> names h \<inter> range (hc_uuid cfg) = {}"
  unfolding slots_def by blast

lemma slots_start:
  assumes s: "slots cfg h" and i: "inj (hc_uuid cfg)" and run: "run \<notin> range (hc_uuid cfg)"
  shows "slots cfg (admit_start cfg run p key caller h)"
proof -
  obtain a h' where a: "tryAdmitOrEnqueue cfg key (hc_resolve cfg p) caller h = (a, h')" by fastforce
  note A = admit_slots [OF s i a]
  show ?thesis
  proof (cases a)
    case (Reserved pid)
    let ?h = "h'\<lparr>ho_starting := jset (ho_starting h') pid run\<rparr>"
    have hold: "holds j ?h \<longleftrightarrow> j = pid \<or> holds j h'" for j by (auto simp: holds_def set_jkeys_jset simp del: set_map)
    have "names ?h \<subseteq> insert run (names h')" using starting_names [of pid run "ho_starting h'"] by (auto simp: names_def)
    then have "names ?h \<inter> range (hc_uuid cfg) = {}" using names_apart [of cfg h'] A run by blast
    moreover have "\<not> holds pid h'" using A Reserved by (simp add: holds_def)
    moreover have "jhas (ho_active ?h) j \<and> j \<in> hc_uuid cfg ` {..<ho_uuids ?h}" if "holds j ?h" for j
    proof (cases "j = pid")
      case False
      with that hold A show ?thesis unfolding slots_def by simp
    qed (use A Reserved in simp)
    moreover have "j \<notin> set (jkeys (ho_starting ?h))" if "drain_claim (ho_drain ?h) = Some j" for j
    proof -
      have "holds j h'" "j \<notin> set (jkeys (ho_starting h'))"
        using that claim_apart [of cfg h' j j] A by (simp_all add: holds_def del: set_map, blast)
      moreover from this(1) have "j \<noteq> pid" using \<open>\<not> holds pid h'\<close> by blast
      ultimately show ?thesis by (simp add: set_jkeys_jset del: set_map)
    qed
    ultimately have "slots cfg ?h" unfolding slots_def by blast
    then show ?thesis by (simp add: admit_start_def a Reserved)
  next
    case (Enqueued r)
    let ?h = "h'\<lparr>ho_joining := jset (ho_joining h') run \<lparr>pq_project = hc_resolve cfg p, pq_checkout = key, pq_caller = caller\<rparr>\<rparr>"
    have s': "slots cfg h'" using A by simp
    have "names ?h = insert run (names h')" by (simp add: names_def set_jkeys_jset del: set_map)
    then have "names ?h \<inter> range (hc_uuid cfg) = {}" using names_apart [OF s'] run by simp
    then have "slots cfg ?h" by (rule slots_keep [OF s', rotated -1]) (simp_all add: holds_def)
    then show ?thesis by (simp add: admit_start_def a Enqueued)
  next
    case (Rejected b)
    with A show ?thesis by (simp add: admit_start_def a)
  qed
qed

lemma track_frame [simp]:
  "ho_starting (track pid run h) = ho_starting h" "ho_drain (track pid run h) = ho_drain h"
  "ho_uuids (track pid run h) = ho_uuids h" "names (track pid run h) = insert run (names h)"
  "jhas (ho_active (track pid run h)) i \<longleftrightarrow> i = run \<or> i \<noteq> pid \<and> jhas (ho_active h) i"
  by (auto simp: track_def Let_def names_def split: option.split)

lemma track_active [simp]:
  "(\<exists>y. jget (ho_active (track pid run h)) i = Some y) \<longleftrightarrow> i = run \<or> i \<noteq> pid \<and> (\<exists>y. jget (ho_active h) i = Some y)"
  using track_frame(5) [of pid run h i] by simp

lemma clear_frame [simp]: "clearReservation pid h = removeActiveEntry pid True h"
  by (simp add: clearReservation_def)

lemma slots_returned:
  assumes s: "slots cfg h" and run: "jget (ho_starting h) pid = Some run"
  shows "slots cfg (start_returned pid created run h)"
proof -
  let ?h = "h\<lparr>ho_starting := jdel (ho_starting h) pid\<rparr>"
  have "(pid, run) \<in> set (ho_starting h)" using run by (rule map_of_SomeD)
  then have "run \<in> names h" "pid \<in> set (jkeys (ho_starting h))" by (force simp: names_def)+
  then have r: "run \<notin> range (hc_uuid cfg)" "drain_claim (ho_drain h) \<noteq> Some pid" using s unfolding slots_def by blast+
  have k: "set (jkeys (jdel (ho_starting h) pid)) = set (jkeys (ho_starting h)) - {pid}"
    by (simp add: delete_keys del: set_map)
  have n: "names ?h \<subseteq> names h" using deleted_names [of pid "ho_starting h"] by (auto simp: names_def AList.delete_eq)
  have h: "slots cfg ?h" by (rule slots_keep [OF s]) (use k n s in \<open>auto simp: slots_def simp del: set_map\<close>)
  have no: "\<not> holds pid ?h" using r k by (simp add: holds_def del: set_map)
  show ?thesis
  proof (cases created)
    case None
    then show ?thesis using reserved_remove [OF h] no by (simp add: start_returned_def)
  next
    case (Some t)
    let ?h' = "start_returned pid created run h"
    have h': "ho_starting ?h' = ho_starting ?h" "ho_drain ?h' = ho_drain ?h" "ho_uuids ?h' = ho_uuids ?h"
      "\<And>i. jhas (ho_active ?h') i \<longleftrightarrow> i = run \<or> i \<noteq> pid \<and> jhas (ho_active ?h) i"
      by (simp_all add: start_returned_def Some Let_def)
    let ?g = "(ensureSchedulingHalt run ?h)\<lparr>ho_runs := jset (ho_runs ?h) run
        \<lparr>rw_status = RunRunning, rw_created = t, rw_project = Option.bind (jget (ho_active h) pid) ae_project,
         rw_caller = Option.bind (jget (ho_active h) pid) ae_caller\<rparr>\<rparr>"
    have "names ?g \<subseteq> insert run (names ?h)" by (auto simp: names_def set_jkeys_jset simp del: set_map)
    moreover have "names ?h' = insert run (names ?g)" by (simp add: start_returned_def Some Let_def)
    ultimately have "names ?h' \<subseteq> insert run (names ?h)" by blast
    then have "names ?h' \<inter> range (hc_uuid cfg) = {}" using names_apart [OF h] r(1) by blast
    then show ?thesis by (rule slots_keep [OF h, rotated -1]) (use h' no in \<open>auto simp: holds_def\<close>)
  qed
qed

lemma give_up_frame [simp]:
  "ho_starting (give_up pid run h) = ho_starting h" "ho_uuids (give_up pid run h) = ho_uuids h"
  "names (give_up pid run h) = names h" "ho_runs (give_up pid run h) = ho_runs h"
  "ho_active (give_up pid run h) = jdel (ho_active h) pid"
  by (simp_all add: give_up_def forget_pending_def Let_def names_def)

lemma slots_give_up:
  assumes s: "slots cfg h" and c: "drain_claim (ho_drain h) = Some pid"
  shows "slots cfg (go_on out R C p e (give_up pid run h))" "slots cfg (cancel_and_go_on reason R C p e (give_up pid run h))"
proof -
  show "slots cfg (go_on out R C p e (give_up pid run h))"
    by (rule slots_let_go [OF s]) (use claim_apart [OF s c] s in \<open>auto simp: slots_def\<close>)
  have "jhas (ho_active (snd (cancelRun (qe_run e) reason (give_up pid run h)))) i"
    if i: "i \<in> set (jkeys (ho_starting h))" "jhas (ho_active h) i" for i
  proof -
    have "holds i h" using i(1) by (simp add: holds_def del: set_map)
    then have "i \<in> range (hc_uuid cfg)" using s unfolding slots_def by blast
    then have "i \<noteq> qe_run e \<or> \<not> jhas (ho_runs (give_up pid run h)) (qe_run e)"
      using row_name [OF s, of "qe_run e"] by (metis give_up_frame(4))
    from cancel_active [OF this] claim_apart [OF s c i(1)] i(2) show ?thesis by simp
  qed
  then show "slots cfg (cancel_and_go_on reason R C p e (give_up pid run h))"
    by (intro slots_let_go [OF s]) (use s in \<open>auto simp: cancel_and_go_on_def slots_def\<close>)
qed

lemma slots_second_read:
  assumes s: "slots cfg h" and c: "ho_drain h = Draining R C p e (Materializing pid)"
  shows "slots cfg (second_read_fails pid R C p e h)"
  unfolding second_read_fails_def
  by (rule slots_let_go [OF s]) (use claim_apart [OF s, of pid] s c in \<open>auto simp: slots_def forget_pending_def names_def\<close>)

lemma slots_cancel_throws:
  assumes s: "slots cfg h" and c: "drain_claim (ho_drain h) = Some pid"
  shows "slots cfg (cancel_throws pid e h)"
  unfolding cancel_throws_def
proof (rule slots_let_go [OF s])
  show "names ((give_up pid (qe_run e) h)\<lparr>ho_drain := NoDrain\<rparr>) \<inter> range (hc_uuid cfg) = {}"
    using names_apart [OF s] give_up_frame(3) [of pid "qe_run e" h] by (simp add: names_def)
qed (use claim_apart [OF s c] in auto)

lemma slots_check_throws: "slots cfg h \<Longrightarrow> slots cfg (check_throws h)"
  unfolding check_throws_def by (rule slots_let_go) (auto simp: slots_def names_def)

lemma slots_unreadable: "slots cfg h \<Longrightarrow> slots cfg (meta_unreadable R C p e h)"
  unfolding meta_unreadable_def by (rule slots_go, erule slots_still) (simp_all add: forget_pending_def names_def)

lemma slots_materialized:
  assumes s: "slots cfg h" and c: "ho_drain h = Draining R C p e (Materializing pid)"
  shows "slots cfg (materialized failure pid R C p e h)"
proof (cases failure)
  case (Some reason)
  then show ?thesis using slots_give_up(2) [OF s] c by (simp add: materialized_def Let_def)
next
  case None
  have 1: "slots cfg ((ensureSchedulingHalt (qe_run e) h)\<lparr>ho_drain := Draining R C p e (Launching pid)\<rparr>)"
    by (rule slots_keep [OF s]) (use s c in \<open>auto simp: slots_def names_def\<close>)
  have 2: "slots cfg (go_on StartCancelled R C p e (forget_pending (qe_run e) (clearReservation pid h)))"
    using slots_second_read [OF s c] unfolding second_read_fails_def .
  from None 1 2 slots_give_up(1) [OF s] c show ?thesis by (simp add: materialized_def Let_def split: option.split)
qed

lemma slots_launched:
  assumes s: "slots cfg h" and c: "ho_drain h = Draining R C p e (Launching pid)"
  shows "slots cfg (launched failure pid R C p e h)"
proof (cases "failure = None \<and> row_status (qe_run e) h = Some RunQueued")
  case True
  let ?h = "track pid (qe_run e) (forget_pending (qe_run e) (set_status (qe_run e) RunRunning h))"
  have q: "jhas (ho_runs h) (qe_run e)" using True by (auto simp: row_status_def)
  have "set (jkeys (ho_runs (set_status (qe_run e) RunRunning h))) = set (jkeys (ho_runs h))"
    using set_status_keys [of "qe_run e" RunRunning h] by (auto simp: jget_eq_None_iff simp del: set_map)
  then have "names (forget_pending (qe_run e) (set_status (qe_run e) RunRunning h)) = names h"
    by (simp add: forget_pending_def names_def del: set_map)
  then have "names ?h = insert (qe_run e) (names h)" by simp
  then have "names ?h \<inter> range (hc_uuid cfg) = {}" using names_apart [OF s] row_name [OF s q] by simp
  moreover have "jhas (ho_active ?h) i" if "i \<in> set (jkeys (ho_starting h))" "jhas (ho_active h) i" for i
    using claim_apart [OF s _ that(1), of pid] that(2) c by (simp add: forget_pending_def)
  ultimately have "slots cfg (go_on Started R C p e ?h)"
    by (intro slots_let_go [OF s]) (simp_all add: forget_pending_def)
  with True show ?thesis by (simp add: launched_def Let_def)
next
  case False
  then show ?thesis using slots_give_up [OF s] c by (auto simp: launched_def Let_def split: option.split)
qed

lemma slots_prepare:
  assumes s: "slots cfg h" and i: "inj (hc_uuid cfg)" and c: "ho_drain h = Draining R C p e (Preparing mc)"
  shows "slots cfg (prepare_dequeued cfg ans mc R C p e h)"
proof -
  have re: "slots cfg (requeue p e' h')" if "slots cfg h'" for e' h'
    by (rule slots_still [OF that]) (simp_all add: requeue_def names_def)
  have rd: "slots cfg (reserve_dequeued cfg key sp caller R C p e h)" for key sp caller
  proof -
    obtain a h' where a: "tryAdmitOrEnqueue cfg key sp caller h = (a, h')" by fastforce
    note A = admit_slots [OF s i a]
    have d: "slots cfg (h'\<lparr>ho_drain := Draining R C p e (Materializing pid)\<rparr>)" if "a = Reserved pid" for pid
    proof -
      have "\<not> holds pid h" "slots cfg h'" "ho_starting h' = ho_starting h" "names h' = names h" 
        "jhas (ho_active h') pid" "pid \<in> hc_uuid cfg ` {..<ho_uuids h'}" using A that by auto
      then show ?thesis unfolding slots_def by (auto simp: holds_def names_def)
    qed
    show ?thesis
      by (cases a) (use A d in \<open>auto simp: reserve_dequeued_def tryReserve_def a intro!: slots_go re
        split: busy.split option.split enqueue_reason.split\<close>)
  qed
  show ?thesis
    by (cases ans) (auto simp: prepare_dequeued_def Let_def intro!: slots_cancel_go slots_go re rd s split: option.split)
qed

definition apart :: "host_config \<Rightarrow> event \<Rightarrow> bool" where
  "apart cfg ev \<longleftrightarrow> (case ev of StartRun run _ _ _ \<Rightarrow> run \<notin> range (hc_uuid cfg) | _ \<Rightarrow> True)"

lemma follow_frame [simp]:
  "ho_starting (registerResumeUntrack run h) = ho_starting h" "ho_drain (registerResumeUntrack run h) = ho_drain h"
  "ho_uuids (registerResumeUntrack run h) = ho_uuids h" "ho_leases (registerResumeUntrack run h) = ho_leases h"
  "ho_runs (registerResumeUntrack run h) = ho_runs h" "ho_joining (registerResumeUntrack run h) = ho_joining h"
  by (simp_all add: registerResumeUntrack_def Let_def split: option.split)

lemma resume_frame [simp]:
  "ho_starting (snd (ensureResumeTracked run ck key q caller h)) = ho_starting h"
  "ho_drain (snd (ensureResumeTracked run ck key q caller h)) = ho_drain h"
  "ho_uuids (snd (ensureResumeTracked run ck key q caller h)) = ho_uuids h"
  "ho_runs (snd (ensureResumeTracked run ck key q caller h)) = ho_runs h"
  "ho_queue (snd (ensureResumeTracked run ck key q caller h)) = ho_queue h"
  "ho_joining (snd (ensureResumeTracked run ck key q caller h)) = ho_joining h"
  "names (snd (ensureResumeTracked run ck key q caller h)) = names h"
  by (simp_all add: ensureResumeTracked_def Let_def names_def split: option.split)

lemma resume_active: "jhas (ho_active h) i \<Longrightarrow> jhas (ho_active (snd (ensureResumeTracked run ck key q caller h))) i"
  by (auto simp: ensureResumeTracked_def Let_def split: option.split)

lemma slots_untrack: "slots cfg h \<Longrightarrow> run \<notin> range (hc_uuid cfg) \<Longrightarrow> slots cfg (untrackIfGeneration run gen h)"
  by (simp add: untrackIfGeneration_def reserved_remove split: option.split)

lemma slots_attach:
  assumes s: "slots cfg h"
  shows "slots cfg (attach_waiting run ck key q caller h)"
proof -
  let ?h = "snd (ensureResumeTracked run ck key q caller h)"
  have t: "slots cfg ?h" by (rule slots_keep [OF s]) (use names_apart [OF s] resume_active in auto)
  have "set (jkeys (ho_runs (set_status run RunFailed ?h))) = set (jkeys (ho_runs ?h))"
    using set_status_keys [of run RunFailed ?h] by (auto simp: jget_eq_None_iff simp del: set_map)
  then have "slots cfg (set_status run RunFailed ?h)" by (intro slots_still [OF t]) (simp_all add: names_def del: set_map)
  with s t show ?thesis
    by (cases "ensureResumeTracked run ck key q caller h") (auto simp: attach_waiting_def split: sum.split)
qed

lemma slots_requeue: "slots cfg h \<Longrightarrow> slots cfg (reenqueuePersistedQueuedRuns cfg h)"
  by (rule slots_keep) (auto simp: reenqueuePersistedQueuedRuns_def holds_def slots_def names_def)

lemma slots_step:
  assumes s: "slots cfg h" and i: "inj (hc_uuid cfg)" and a: "apart cfg ev" and st: "host_step cfg ev h = Some h'"
  shows "slots cfg h'"
proof (cases ev)
  case (StartRun run p key caller)
  with a st show ?thesis by (auto simp: apart_def split: if_splits intro!: slots_start [OF s i])
next
  case (StartReturned pid created)
  with st show ?thesis by (auto intro: slots_returned [OF s])
next
  case (StartFailed pid)
  then obtain run where run: "jget (ho_starting h) pid = Some run" using st by auto
  have "start_returned pid None run h = h'" using st StartFailed run by (simp add: start_returned_def)
  with slots_returned [OF s run, of None] show ?thesis by simp
next
  case (CreateQueued run t)
  then obtain pq where pq: "jget (ho_joining h) run = Some pq" "h' = create_queued run t pq h" using st by (auto split: if_splits)
  have "run \<in> names h" using jget_SomeD [OF pq(1)] by (simp add: names_def del: set_map)
  then have "names h' = names h" by (auto simp: pq(2) create_queued_def names_def set_jkeys_jset simp del: set_map)
  then show ?thesis by (intro slots_still [OF s]) (simp_all add: pq(2) create_queued_def)
next
  case (CreateFailed run)
  then have h': "h' = leave_joining run h" using st by (auto split: if_splits)
  have "names h' \<subseteq> names h" by (auto simp: h' leave_joining_def names_def AList.delete_eq)
  then show ?thesis using names_apart [OF s] by (intro slots_keep [OF s]) (auto simp: h' leave_joining_def)
next
  case (JoinFailed run)
  then have h': "h' = leave_joining run h" using st by (auto split: if_splits)
  have "names h' \<subseteq> names h" by (auto simp: h' leave_joining_def names_def AList.delete_eq)
  then show ?thesis using names_apart [OF s] by (intro slots_keep [OF s]) (auto simp: h' leave_joining_def)
next
  case (JoinQueue run)
  then obtain row pq where h': "h' = join_queue run row pq h" using st by (auto split: option.splits)
  have "names h' \<subseteq> names h" by (auto simp: h' join_queue_def names_def AList.delete_eq)
  then show ?thesis using names_apart [OF s] by (intro slots_keep [OF s]) (auto simp: h' join_queue_def)
next
  case (RunEnds run gen st')
  define h1 where "h1 = (if row_status run h = Some RunCancelled then h else set_status run st' h)\<lparr>ho_done := remove1 (run, gen) (ho_done h)\<rparr>"
  have h': "(run, gen) \<in> set (ho_done h)" "h' = untrackIfGeneration run gen h1" using st RunEnds by (auto simp: h1_def split: if_splits)
  have "set (jkeys (ho_runs (set_status run st' h))) = set (jkeys (ho_runs h))"
    using set_status_keys [of run st' h] by (auto simp: jget_eq_None_iff simp del: set_map)
  then have "names h1 \<subseteq> names h" using set_remove1_subset [of "(run, gen)" "ho_done h"] by (auto simp: h1_def names_def simp del: set_map)
  then have n: "names h1 \<inter> range (hc_uuid cfg) = {}" using names_apart [OF s] by blast
  have "slots cfg h1" by (rule slots_keep [OF s _ _ _ _ n]) (simp_all add: h1_def)
  moreover have "run \<in> names h" using h'(1) by (force simp: names_def)
  ultimately show ?thesis using slots_untrack names_apart [OF s] unfolding h'(2) by blast
next
  case (CancelRun run reason)
  with st show ?thesis by (auto simp: slots_cancel [OF s])
next
  case (ResumeTracked run ck key q caller)
  then have h': "h' = snd (ensureResumeTracked run ck key q caller (h\<lparr>ho_resuming := remove1 run (ho_resuming h)\<rparr>))"
    using st by (auto split: if_splits)
  have n: "names h' = names h" unfolding h' resume_frame(7) by (simp add: names_def)
  show ?thesis by (rule slots_keep [OF s]) (use n names_apart [OF s] resume_active in \<open>auto simp: h'\<close>)
next
  case (ResumeStarted run)
  then have h': "h' = registerResumeUntrack run h" "jhas (ho_runs h) run" using st by (auto split: if_splits)
  have "names h' \<subseteq> insert run (names h)"
    by (auto simp: h'(1) registerResumeUntrack_def Let_def names_def split: option.split)
  then have n: "names h' \<inter> range (hc_uuid cfg) = {}" using names_apart [OF s] row_name [OF s h'(2)] by auto
  show ?thesis by (rule slots_keep [OF s _ _ _ _ n]) (simp_all add: h'(1), auto simp: registerResumeUntrack_def Let_def split: option.split)
next
  case (ResumeFailed run)
  then have "h' = removeActiveEntry run False h" "jhas (ho_runs h) run" using st by (auto split: if_splits)
  then show ?thesis using row_name [OF s] reserved_remove [OF s] by simp
next
  case (AttachRun run ck key q caller)
  with st show ?thesis by (auto split: if_splits intro: slots_attach [OF s])
next
  case MetaUnreadable
  with st show ?thesis
    by (auto simp: at_drain_def split: drain.splits drain_stage.splits intro: slots_unreadable [OF s] slots_second_read [OF s])
next
  case DrainThrows
  with st show ?thesis
    by (auto simp: at_drain_def split: drain.splits drain_stage.splits intro: slots_check_throws [OF s] slots_cancel_throws [OF s])
next
  case MetaRead
  have f: "slots cfg (go_on StartCancelled R C p e (forget_pending run h))" for R C p e run
    by (rule slots_go, rule slots_still [OF s]) (simp_all add: forget_pending_def names_def)
  have g: "slots cfg (h\<lparr>ho_drain := Draining R C p e (Preparing c)\<rparr>)" for R C p e c
    by (rule slots_still [OF s]) (simp_all add: names_def)
  from MetaRead st f g show ?thesis
    by (auto simp: at_drain_def meta_read_def split: drain.splits drain_stage.splits option.splits)
next
  case (Prepared ans)
  with st show ?thesis by (auto simp: at_drain_def split: drain.splits drain_stage.splits intro: slots_prepare [OF s i])
next
  case (Materialized f)
  with st show ?thesis by (auto simp: at_drain_def split: drain.splits drain_stage.splits intro: slots_materialized [OF s])
next
  case (Launched f)
  with st show ?thesis by (auto simp: at_drain_def split: drain.splits drain_stage.splits intro: slots_launched [OF s])
qed (use st in \<open>auto simp: setMaxConcurrent_def stopAcceptingWork_def begin_resume_def names_def split: if_splits
    intro!: slots_still [OF s]\<close>)


section \<open>Limits\<close>

definition tally :: "(ActiveEntry \<Rightarrow> bool) \<Rightarrow> (string, ActiveEntry) jsmap \<Rightarrow> nat" where
  "tally P m = length (filter (\<lambda>(_, e). P e) m)"

lemma tally_simps [simp]: "tally P [] = 0" "tally P ((i, e) # m) = (if P e then 1 else 0) + tally P m"
  by (simp_all add: tally_def)

lemma tally_del: "tally P (jdel m i) \<le> tally P m"
  by (induction m) (auto simp: AList.delete_eq)

lemma tally_del_present: "jget m i = Some e \<Longrightarrow> tally P (jdel m i) + (if P e then 1 else 0) \<le> tally P m"
proof (induction m)
  case (Cons x m)
  show ?case
  proof (cases "fst x = i")
    case True
    with Cons.prems tally_del [of P i m] show ?thesis by (cases x) (auto simp: AList.delete_eq)
  next
    case False
    with Cons show ?thesis by (cases x) (auto simp: AList.delete_eq)
  qed
qed simp

lemma tally_set: "tally P (jset m i e) \<le> tally P m + (if P e then 1 else 0)"
  by (induction m) auto

lemma tally_replace: "jget m i = Some f \<Longrightarrow> P e = P f \<Longrightarrow> tally P (jset m i e) = tally P m"
  by (induction m) (auto split: if_splits)

lemma counts:
  "length m = tally (\<lambda>_. True) m"
  "countActiveForCaller c h = tally (\<lambda>e. map_option to_lower (ae_caller e) = Some (to_lower c)) (ho_active h)"
  "countActiveForProject cfg p h =
     tally (\<lambda>e. hc_resolve cfg (case ae_project e of None \<Rightarrow> hc_root cfg | Some q \<Rightarrow> q) = hc_resolve cfg p) (ho_active h)"
  by (simp_all add: tally_def countActiveForCaller_def countActiveForProject_def)

text \<open>What limits the active runs: the slots, the quota of a caller, the share of a project.\<close>

inductive limit :: "host_config \<Rightarrow> nat \<Rightarrow> (ActiveEntry \<Rightarrow> bool) \<Rightarrow> nat \<Rightarrow> bool" for cfg slots_max where
  all: "limit cfg slots_max (\<lambda>_. True) slots_max"
| caller: "callerQuotaLimit cfg (Some c) = Some q \<Longrightarrow> limit cfg slots_max (\<lambda>e. map_option to_lower (ae_caller e) = Some (to_lower c)) q"
| project: "hc_per_project cfg = Some n \<Longrightarrow>
    limit cfg slots_max (\<lambda>e. hc_resolve cfg (case ae_project e of None \<Rightarrow> hc_root cfg | Some r \<Rightarrow> r) = hc_resolve cfg p) n"

definition within_limits :: "host_config \<Rightarrow> nat \<Rightarrow> host \<Rightarrow> bool" where
  "within_limits cfg b h \<longleftrightarrow> ho_max h \<le> b \<and> (\<forall>P n. limit cfg b P n \<longrightarrow> tally P (ho_active h) \<le> n)"

lemma limit_generation: "limit cfg b P n \<Longrightarrow> P (e\<lparr>ae_generation := g\<rparr>) = P e"
  by (induction rule: limit.induct) simp_all

lemma to_lower_empty [simp]: "to_lower c = [] \<longleftrightarrow> c = []" "[] = to_lower c \<longleftrightarrow> c = []" "to_lower [] = []"
  by (auto simp: to_lower_def)

lemma admits_within:
  assumes w: "within_limits cfg b h" and adm: "tryAdmitOrEnqueue cfg key p caller' h = (Reserved pid, h')"
  shows "within_limits cfg b h'"
proof -
  define e where "e = \<lparr>ae_checkout = key, ae_durable = None, ae_project = Some (hc_resolve cfg p), ae_caller = caller',
    ae_generation = Suc (ho_generation h)\<rparr>"
  have h': "ho_active h' = jset (ho_active h) pid e" "ho_max h' = ho_max h"
    using admit_cases(5) [OF adm] by (simp_all add: reserve_def Let_def e_def)
  have "tally P (ho_active h) + (if P e then 1 else 0) \<le> n" if l: "limit cfg b P n" for P n
    using l
  proof cases
    case all
    then show ?thesis using admit_cases(3) [OF adm] w by (simp add: within_limits_def counts)
  next
    case (caller d)
    have old: "tally P (ho_active h) \<le> n" using w l by (simp add: within_limits_def)
    show ?thesis
    proof (cases "P e")
      case True
      then obtain c where c: "caller' = Some c" "to_lower c = to_lower d" using caller by (auto simp: e_def)
      then have "callerQuotaLimit cfg caller' = Some n" using caller by (auto simp: callerQuotaLimit_def split: if_splits)
      then have "countActiveForCaller c h < n"
        using admit_cases(4) [OF adm] c by (auto simp: over_quota_def split: option.splits if_splits)
      then show ?thesis using caller c by (simp add: counts)
    qed (use old in simp)
  next
    case (project q)
    have old: "tally P (ho_active h) \<le> n" using w l by (simp add: within_limits_def)
    show ?thesis
    proof (cases "P e")
      case True
      then have "P = (\<lambda>e. hc_resolve cfg (case ae_project e of None \<Rightarrow> hc_root cfg | Some r \<Rightarrow> r) = hc_resolve cfg (hc_resolve cfg p))"
        using project by (simp add: e_def)
      then show ?thesis using admit_cases(2) [OF adm] project by (auto simp: project_full_def counts split: if_splits)
    qed (use old in simp)
  qed
  then show ?thesis using w tally_set [of _ pid e "ho_active h"] by (fastforce simp: within_limits_def h' intro: order_trans)
qed


lemma within_fewer:
  assumes "within_limits cfg b h" "ho_max h' \<le> b" "\<And>P n. limit cfg b P n \<Longrightarrow> tally P (ho_active h') \<le> tally P (ho_active h)"
  shows "within_limits cfg b h'"
proof -
  have "tally P (ho_active h') \<le> n" if "limit cfg b P n" for P n
    by (rule order_trans [OF assms(3) [OF that]]) (use assms(1) that in \<open>simp add: within_limits_def\<close>)
  with assms(2) show ?thesis by (simp add: within_limits_def)
qed

lemma within_track:
  assumes w: "within_limits cfg b h" and e: "jget (ho_active h) pid = Some e"
  shows "within_limits cfg b (track pid run h)"
proof (rule within_fewer [OF w])
  show "ho_max (track pid run h) \<le> b" using w by (simp add: track_def Let_def e within_limits_def)
next
  fix P n assume "limit cfg b P n"
  then have "P (e\<lparr>ae_generation := Suc (ho_generation h)\<rparr>) = P e" by (rule limit_generation)
  then show "tally P (ho_active (track pid run h)) \<le> tally P (ho_active h)"
    using tally_set [of P run "e\<lparr>ae_generation := Suc (ho_generation h)\<rparr>" "jdel (ho_active h) pid"] tally_del_present [OF e, of P]
    by (simp add: track_def Let_def e)
qed

lemma within_follow: "within_limits cfg b h \<Longrightarrow> within_limits cfg b (registerResumeUntrack run h)"
proof (cases "jget (ho_active h) run")
  case (Some e)
  assume w: "within_limits cfg b h"
  show ?thesis
  proof (rule within_fewer [OF w])
    show "ho_max (registerResumeUntrack run h) \<le> b" using w by (simp add: registerResumeUntrack_def Let_def Some within_limits_def)
  next
    fix P n assume "limit cfg b P n"
    then have "P (e\<lparr>ae_generation := Suc (ho_generation h)\<rparr>) = P e" by (rule limit_generation)
    from tally_replace [of _ _ _ P, OF Some this]
    show "tally P (ho_active (registerResumeUntrack run h)) \<le> tally P (ho_active h)" by (simp add: registerResumeUntrack_def Let_def Some)
  qed
qed (simp add: registerResumeUntrack_def)

definition no_resumption :: "nat \<Rightarrow> event \<Rightarrow> bool" where
  "no_resumption b ev \<longleftrightarrow> (case ev of ResumeTracked _ _ _ _ _ \<Rightarrow> False | AttachRun _ _ _ _ _ \<Rightarrow> False | SetMax n \<Rightarrow> n \<le> b | _ \<Rightarrow> True)"

interpretation limits: slot_laws cfg True "no_resumption b" "within_limits cfg b" for cfg b
proof
  fix h h' :: host
  assume "within_limits cfg b h" "ho_active h' = ho_active h" "ho_leases h' = ho_leases h" "ho_max h' = ho_max h"
  then show "within_limits cfg b h'" by (simp add: within_limits_def)
next
  fix h h' key p caller pid
  assume "within_limits cfg b h" "tryAdmitOrEnqueue cfg key p caller h = (Reserved pid, h')"
  then show "within_limits cfg b h'" by (rule admits_within)
next
  fix h i e
  assume "within_limits cfg b h"
  then show "within_limits cfg b (drop_entry i e h)"
    by (rule within_fewer) (use \<open>within_limits cfg b h\<close> in \<open>simp_all add: drop_entry_def within_limits_def tally_del\<close>)
next
  fix h pid run
  assume "within_limits cfg b h" "True \<longrightarrow> jhas (ho_active h) pid"
  then show "within_limits cfg b (track pid run h)" using within_track by auto
next
  fix h run
  assume "within_limits cfg b h"
  then show "within_limits cfg b (registerResumeUntrack run h)" by (rule within_follow)
qed (auto simp: no_resumption_def setMaxConcurrent_def within_limits_def)

text \<open>
  C11: as long as no run is attached or resumed, never more runs are active than the largest number of slots
  there was, a caller with a quota never has more than it allows, and a project never more than its share,
  however the starts, ends, cancellations, dequeued starts and errors of the drain interleave.
\<close>

theorem active_within_limits:
  assumes "restarted cfg n boot rows = Some h0" "host_steps cfg evs h0 = Some h" "inj (hc_uuid cfg)"
    and "\<forall>r\<in>set rows. fst r \<notin> range (hc_uuid cfg)" "\<forall>ev\<in>set (boot @ evs). apart cfg ev \<and> no_resumption b ev" "n \<le> b"
  shows "length (ho_active h) \<le> b \<and>
    (\<forall>caller q. callerQuotaLimit cfg (Some caller) = Some q \<longrightarrow> countActiveForCaller caller h \<le> q) \<and>
    (\<forall>proj m. hc_per_project cfg = Some m \<longrightarrow> countActiveForProject cfg proj h \<le> m)"
proof -
  let ?new = "(new_host n)\<lparr>ho_runs := rows\<rparr>"
  have new: "slots cfg ?new \<and> within_limits cfg b ?new"
    using assms(4,6) by (auto simp: slots_def holds_def names_def within_limits_def new_host_def)
  have "slots cfg h \<and> within_limits cfg b h"
  proof (rule run_invariant [OF assms(1,2), where P = "\<lambda>h. slots cfg h \<and> within_limits cfg b h", OF new])
    fix ev h h' assume st: "ev \<in> set (boot @ evs)" "host_step cfg ev h = Some h'" "slots cfg h \<and> within_limits cfg b h"
    then have "slots cfg h'" using slots_step [OF _ assms(3)] assms(5) by blast
    moreover have "within_limits cfg b h'" using limits.step [OF _ _ _ st(2)] st assms(5) slotsD by blast
    ultimately show "slots cfg h' \<and> within_limits cfg b h'" ..
  qed (use limits.requeues slots_requeue in blast)
  then have "\<And>P n. limit cfg b P n \<Longrightarrow> tally P (ho_active h) \<le> n" by (simp add: within_limits_def)
  from this [OF limit.all] this [OF limit.caller] this [OF limit.project] show ?thesis by (simp add: counts)
qed

end
