(* ===== verification/Admission_Waiting.thy ===== *)
theory Admission_Waiting
  imports Admission_Limits
begin

text \<open>
  Where the queued runs are: a run with the status queued waits in exactly one place, whatever happens,
  unless this run is lost by one of the errors that \<open>lost_by\<close> lists.  But a run that waits need not be woken up.
\<close>

section \<open>Runs in line\<close>

definition drain_run :: "drain \<Rightarrow> string multiset" where
  "drain_run d = (case d of NoDrain \<Rightarrow> {#} | Draining _ _ _ e _ \<Rightarrow> {#qe_run e#})"

definition queue_runs :: "AdmissionQueue \<Rightarrow> string multiset" where
  "queue_runs q = mset (waiting (rotation q))"

definition in_line :: "host \<Rightarrow> string multiset" where
  "in_line h = queue_runs (ho_queue h) + drain_run (ho_drain h)"

definition placed :: "host \<Rightarrow> string multiset" where
  "placed h = in_line h + mset (jkeys (ho_joining h))"

lemma drain_run_simps [simp]: "drain_run NoDrain = {#}" "drain_run (Draining R C p e st) = {#qe_run e#}"
  by (simp_all add: drain_run_def)

lemma distinct_rotation: "wf_queue q \<Longrightarrow> distinct (map fst (rotation q))"
  by (simp add: rotation_def comp_def wf_queue_def)

lemma waiting_add_run:
  assumes "distinct (map fst L)" "p \<in> set (map fst L)" "\<And>es. mset (map qe_run (f es)) = add_mset run (mset (map qe_run es))"
  shows "mset (waiting (add_run f p L)) = add_mset run (mset (waiting L))"
  using assms(1,2)
proof (induction L)
  case (Cons x L)
  obtain r es where x: "x = (r, es)" by fastforce
  show ?case
  proof (cases "r = p")
    case True
    then have "add_run f p L = L" using Cons.prems x by (force simp: add_run_def intro: map_idI)
    with True show ?thesis using assms(3) [of es] by (simp add: x add_run_def)
  next
    case False
    with Cons.prems x Cons.IH show ?thesis by (simp add: add_run_def)
  qed
qed simp

lemma change_list_runs:
  assumes wf: "wf_queue q" and f: "\<And>es. mset (map qe_run (f es)) = add_mset run (mset (map qe_run es))"
  shows "queue_runs (change_list f p q) = add_mset run (queue_runs q)"
proof (cases "p \<in> set (map fst (rotation q))")
  case True
  show ?thesis unfolding queue_runs_def change_list_rotation [OF wf True]
    by (rule waiting_add_run [OF distinct_rotation [OF wf] True f])
next
  case False
  from change_list_joins [OF wf False, of f] obtain xs ys where
    "rotation q = xs @ ys" "rotation (change_list f p q) = xs @ (p, f []) # ys" by blast
  then show ?thesis using f [of "[]"] by (simp add: queue_runs_def)
qed

lemma joins_queue:
  assumes "wf_queue q"
  shows "wf_queue (snd (enqueue p e q))" "queue_runs (snd (enqueue p e q)) = add_mset (qe_run e) (queue_runs q)"
    "wf_queue (requeueFront p e q)" "queue_runs (requeueFront p e q) = add_mset (qe_run e) (queue_runs q)"
  using assms by (simp_all add: enqueue_def requeueFront_def Let_def wf_change_list change_list_runs)

lemma waiting_delete: "i < length es \<Longrightarrow> mset (map qe_run es) = add_mset (qe_run (es ! i)) (mset (map qe_run (delete_at i es)))"
  using arg_cong [OF id_take_nth_drop, of i es "\<lambda>xs. mset (map qe_run xs)"] by (simp add: delete_at_def)

lemma next_turn_runs:
  "next_turn R C before L = Some (p, e, L') \<Longrightarrow> mset (waiting before) + mset (waiting L) = add_mset (qe_run e) (mset (waiting L'))"
proof (induction L arbitrary: before)
  case (Cons x L)
  obtain r es where x: "x = (r, es)" by fastforce
  show ?case
  proof (cases "if r \<in> set R then None else pick_index C es")
    case None
    then have "next_turn R C (before @ [x]) L = Some (p, e, L')" using Cons.prems by (simp add: x)
    from Cons.IH [OF this] show ?thesis by (simp add: ac_simps)
  next
    case (Some i)
    then have "i < length es" by (auto split: if_splits dest: pick_index_less)
    from waiting_delete [OF this] Some Cons.prems show ?thesis by (auto simp: x)
  qed
qed simp

lemma leaves_queue:
  assumes "wf_queue q" "dequeueNext R C q = Some (p, e, q')"
  shows "wf_queue q'" "queue_runs q = add_mset (qe_run e) (queue_runs q')"
  using dequeue_turn [OF assms(1), of R C] next_turn_runs [of R C "[]" "rotation q" p e "rotation q'"] assms(2)
  by (auto simp: queue_runs_def)

lemma removed_runs:
  assumes "wf_queue q" "\<And>x. count (queue_runs q) x \<le> 1"
  shows "wf_queue (snd (remove_run run q))" "queue_runs (snd (remove_run run q)) = filter_mset (\<lambda>x. x \<noteq> run) (queue_runs q)"
proof -
  have "distinct (waiting (rotation q))"
    unfolding distinct_count_atmost_1
  proof
    fix a show "count (mset (waiting (rotation q))) a = (if a \<in> set (waiting (rotation q)) then 1 else 0)"
      using assms(2) [of a] count_greater_zero_iff [of "mset (waiting (rotation q))" a]
      by (auto simp: queue_runs_def count_eq_zero_iff simp del: count_greater_zero_iff)
  qed
  from remove_run_rotation [OF assms(1) this prod.collapse [symmetric]]
  show "wf_queue (snd (remove_run run q))" "queue_runs (snd (remove_run run q)) = filter_mset (\<lambda>x. x \<noteq> run) (queue_runs q)"
    by (simp_all add: queue_runs_def waiting_without)
qed

section \<open>The line through the drain\<close>

lemma line_loop:
  assumes "wf_queue (ho_queue h)"
  shows "wf_queue (ho_queue (drain_loop R C h)) \<and> in_line (drain_loop R C h) = queue_runs (ho_queue h)"
proof (cases "ho_accepting h \<and> length (ho_active h) < ho_max h")
  case True
  show ?thesis
  proof (cases "dequeueNext R C (ho_queue h)")
    case (Some x)
    obtain p e q' where x: "x = (p, e, q')" by (cases x) auto
    from leaves_queue [OF assms Some [unfolded x]] True Some x show ?thesis by (simp add: drain_loop_def in_line_def)
  qed (use True assms in \<open>simp add: drain_loop_def in_line_def\<close>)
qed (use assms in \<open>auto simp: drain_loop_def in_line_def\<close>)

lemma line_drain:
  "wf_queue (ho_queue h) \<Longrightarrow> wf_queue (ho_queue (drainAdmissionQueue h)) \<and> in_line (drainAdmissionQueue h) = in_line h"
  using line_loop [of h "[]" "[]"] by (auto simp: drainAdmissionQueue_def in_line_def)

lemma line_drop [simp]: "ho_queue (drop_entry i e h) = ho_queue h" "ho_drain (drop_entry i e h) = ho_drain h"
  by (simp_all add: drop_entry_def)

lemma line_remove:
  "wf_queue (ho_queue h) \<Longrightarrow> wf_queue (ho_queue (removeActiveEntry i prov h)) \<and> in_line (removeActiveEntry i prov h) = in_line h"
  using line_drain [of "drop_entry i e h" for e]
  by (auto simp: removeActiveEntry_def in_line_def split: option.split)

lemma line_go:
  assumes "wf_queue (ho_queue h)"
  shows "wf_queue (ho_queue (go_on out R C p e h)) \<and>
    in_line (go_on out R C p e h) = queue_runs (ho_queue h) + (if out = CheckoutBusy then {#qe_run e#} else {#})"
  using line_loop [OF assms] line_loop [of "requeue p e h"] joins_queue [OF assms] assms
  by (cases out) (simp_all add: go_on_def requeue_def in_line_def)


section \<open>Cancelling\<close>

lemma row_status_halt [simp]: "row_status i (halt_run run h) = row_status i h"
  by (rule row_status_cong) simp

lemma row_status_remove [simp]: "row_status i (removeActiveEntry j prov h) = row_status i h"
  by (rule row_status_cong) simp

lemma row_status_with [simp]:
  "row_status i (h\<lparr>ho_queue := q\<rparr>) = row_status i h" "row_status i (h\<lparr>ho_pending := m\<rparr>) = row_status i h"
  "row_status i (h\<lparr>ho_drain := d\<rparr>) = row_status i h" "row_status i (go_on out R C p e h) = row_status i h"
  by (simp_all add: row_status_def)

definition cancel_marks :: "string \<Rightarrow> host \<Rightarrow> bool" where
  "cancel_marks run h \<longleftrightarrow> (\<exists>st. row_status run h = Some st \<and> st \<notin> {RunCancelled, RunSucceeded, RunFailed})"

lemma cancel_shape:
  assumes "\<not> blank reason"
  shows "\<exists>h1 b. snd (cancelRun run reason h) = (if b then removeActiveEntry run False h1 else h1) \<and>
    ho_drain h1 = ho_drain h \<and> ho_joining h1 = ho_joining h \<and>
    (\<forall>i. row_status i h1 = (if i = run \<and> cancel_marks run h then Some RunCancelled else row_status i h)) \<and>
    (\<forall>i. jhas (ho_runs h1) i = jhas (ho_runs h) i) \<and>
    ho_queue h1 = (if cancel_marks run h then snd (remove_run run (ho_queue h)) else ho_queue h)"
proof (cases "cancel_marks run h")
  case True
  then obtain st where st: "row_status run h = Some st" "st \<noteq> RunCancelled" "st \<noteq> RunSucceeded" "st \<noteq> RunFailed"
    by (auto simp: cancel_marks_def)
  let ?h = "halt_run run (set_status run RunCancelled h)"
  let ?h1 = "?h\<lparr>ho_queue := snd (remove_run run (ho_queue ?h)), ho_pending := jdel (ho_pending ?h) run\<rparr>"
  have "jhas (ho_runs h) run" using st(1) by (auto simp: row_status_def)
  then show ?thesis using st assms True set_status_keys [of run RunCancelled h]
    by (intro exI [of _ ?h1] exI [of _ True]) (auto simp: cancelRun_def Let_def)
next
  case False
  show ?thesis
  proof (cases "row_status run h = Some RunCancelled")
    case True
    with assms False show ?thesis by (intro exI [of _ "halt_run run h"] exI [of _ True]) (simp add: cancelRun_def)
  next
    case no: False
    with assms False have "snd (cancelRun run reason h) = h" by (auto simp: cancelRun_def cancel_marks_def Let_def split: option.split)
    with False show ?thesis by (intro exI [of _ h] exI [of _ False]) auto
  qed
qed

lemma cancel_line:
  fixes run :: string
  assumes wf: "wf_queue (ho_queue h)" and one: "\<And>x. count (in_line h) x \<le> 1" and "\<not> blank reason"
  defines "h' \<equiv> snd (cancelRun run reason h)"
  shows "wf_queue (ho_queue h')" "ho_joining h' = ho_joining h" "jhas (ho_runs h') i = jhas (ho_runs h) i"
    "row_status i h' = Some RunQueued \<longleftrightarrow> i \<noteq> run \<and> row_status i h = Some RunQueued"
    "in_line h' = (if cancel_marks run h then filter_mset (\<lambda>x. x \<noteq> run) (queue_runs (ho_queue h)) + drain_run (ho_drain h)
       else in_line h)"
    "ho_drain h \<noteq> NoDrain \<Longrightarrow> ho_drain h' = ho_drain h"
proof -
  from cancel_shape [OF assms(3), of run h] obtain h1 b where
    h1: "h' = (if b then removeActiveEntry run False h1 else h1)" "ho_drain h1 = ho_drain h" "ho_joining h1 = ho_joining h"
      "\<And>i. row_status i h1 = (if i = run \<and> cancel_marks run h then Some RunCancelled else row_status i h)"
      "\<And>i. jhas (ho_runs h1) i = jhas (ho_runs h) i"
      "ho_queue h1 = (if cancel_marks run h then snd (remove_run run (ho_queue h)) else ho_queue h)"
    unfolding h'_def by blast
  have "count (queue_runs (ho_queue h)) x \<le> 1" for x using one [of x] by (simp add: in_line_def)
  note rem = removed_runs [OF wf this]
  have q1: "wf_queue (ho_queue h1)" using rem wf by (simp add: h1(6))
  have l1: "in_line h1 = (if cancel_marks run h then filter_mset (\<lambda>x. x \<noteq> run) (queue_runs (ho_queue h)) + drain_run (ho_drain h)
       else in_line h)" using rem by (simp add: in_line_def h1)
  show "wf_queue (ho_queue h')" "ho_joining h' = ho_joining h" "jhas (ho_runs h') i = jhas (ho_runs h) i"
    "in_line h' = (if cancel_marks run h then filter_mset (\<lambda>x. x \<noteq> run) (queue_runs (ho_queue h)) + drain_run (ho_drain h)
       else in_line h)"
    using line_remove [OF q1, of run False] q1 l1 h1(3,5) by (simp_all add: h1(1))
  show "row_status i h' = Some RunQueued \<longleftrightarrow> i \<noteq> run \<and> row_status i h = Some RunQueued"
    using h1(4) by (auto simp: h1(1) cancel_marks_def)
  show "ho_drain h' = ho_drain h" if "ho_drain h \<noteq> NoDrain"
    using that h1(2) by (auto simp: h1(1) removeActiveEntry_def drainAdmissionQueue_def split: option.split)
qed


section \<open>One place for every queued run\<close>

text \<open>Every queued run, those of \<open>L\<close> apart, is somewhere in line, and no run twice.\<close>

definition lined_up :: "string set \<Rightarrow> host \<Rightarrow> bool" where
  "lined_up L h \<longleftrightarrow> wf_queue (ho_queue h) \<and> (\<forall>x. count (placed h) x \<le> 1) \<and>
     (\<forall>x. x \<in># in_line h \<longrightarrow> jhas (ho_runs h) x) \<and> (\<forall>x. x \<notin> L \<longrightarrow> row_status x h = Some RunQueued \<longrightarrow> x \<in># placed h)"

lemma lined_upI:
  assumes "lined_up L h" "wf_queue (ho_queue h')"
    "\<And>x. count (placed h') x \<le> count (placed h) x" "\<And>x. jhas (ho_runs h) x \<Longrightarrow> jhas (ho_runs h') x"
    "\<And>x. x \<in># in_line h' \<Longrightarrow> x \<in># in_line h"
    "\<And>x. x \<notin> L \<Longrightarrow> row_status x h' = Some RunQueued \<Longrightarrow> row_status x h = Some RunQueued \<and> (x \<in># placed h \<longrightarrow> x \<in># placed h')"
  shows "lined_up L h'"
  using assms unfolding lined_up_def by (meson order_trans)

lemma lined_still:
  assumes "lined_up L h" "wf_queue (ho_queue h')" "in_line h' = in_line h" "ho_joining h' = ho_joining h"
    "\<And>x. jhas (ho_runs h) x \<Longrightarrow> jhas (ho_runs h') x"
    "\<And>x. row_status x h' = Some RunQueued \<Longrightarrow> row_status x h = Some RunQueued"
  shows "lined_up L h'"
  by (rule lined_upI [OF assms(1)]) (use assms in \<open>simp_all add: placed_def\<close>)

lemma lined_wf: "lined_up L h \<Longrightarrow> wf_queue (ho_queue h)"
  by (simp add: lined_up_def)

lemma lined_once: "lined_up L h \<Longrightarrow> count (in_line h) x \<le> 1"
proof -
  assume "lined_up L h"
  then have "count (placed h) x \<le> 1" by (simp add: lined_up_def)
  then show ?thesis by (simp add: placed_def)
qed

lemma lined_remove: "lined_up L h \<Longrightarrow> lined_up L (removeActiveEntry i prov h)"
  by (rule lined_still) (use line_remove lined_wf in auto)

lemma lined_cancel:
  assumes h: "lined_up L h" and "\<not> blank reason"
  shows "lined_up L (snd (cancelRun run reason h))"
proof -
  note C = cancel_line [OF lined_wf [OF h] lined_once [OF h] assms(2)]
  show ?thesis
  proof (rule lined_upI [OF h C(1)])
    fix x
    show "count (placed (snd (cancelRun run reason h))) x \<le> count (placed h) x"
      unfolding placed_def C(2) C(5) by (simp add: in_line_def)
    show "jhas (ho_runs h) x \<Longrightarrow> jhas (ho_runs (snd (cancelRun run reason h))) x" using C(3) [where i = x and run = run] by simp
    show "x \<in># in_line (snd (cancelRun run reason h)) \<Longrightarrow> x \<in># in_line h"
      unfolding C(5) by (auto simp: in_line_def split: if_splits)
    show "row_status x (snd (cancelRun run reason h)) = Some RunQueued \<Longrightarrow>
        row_status x h = Some RunQueued \<and> (x \<in># placed h \<longrightarrow> x \<in># placed (snd (cancelRun run reason h)))"
      unfolding placed_def C(2,4,5) by (auto simp: in_line_def)
  qed
qed

text \<open>The drain is done with its run: it goes again in line, or it is not queued any more.\<close>

lemma lined_go:
  assumes h: "lined_up L h" and d: "ho_drain h = Draining R' C' p' e' st" "qe_run e' = qe_run e"
    and g: "ho_queue g = ho_queue h" "ho_joining g = ho_joining h" "\<And>x. jhas (ho_runs h) x \<Longrightarrow> jhas (ho_runs g) x"
      "\<And>x. row_status x g = Some RunQueued \<Longrightarrow> row_status x h = Some RunQueued"
  shows "row_status (qe_run e) g \<noteq> Some RunQueued \<or> out = CheckoutBusy \<or> qe_run e \<in> L \<Longrightarrow> lined_up L (go_on out R C p e g)"
    "out \<noteq> CheckoutBusy \<Longrightarrow> qe_run f = qe_run e \<Longrightarrow> lined_up L (go_on out R C p e (requeue q f g))"
proof -
  have wf: "wf_queue (ho_queue g)" using lined_wf [OF h] g(1) by simp
  have l: "in_line h = add_mset (qe_run e) (queue_runs (ho_queue g))" using d g(1) by (simp add: in_line_def)
  assume a: "row_status (qe_run e) g \<noteq> Some RunQueued \<or> out = CheckoutBusy \<or> qe_run e \<in> L"
  show "lined_up L (go_on out R C p e g)"
    by (rule lined_upI [OF h]) (use line_go [OF wf, of out R C p e] a g(3,4) in \<open>auto simp: placed_def l g(2) split: if_splits\<close>)
next
  have wf: "wf_queue (ho_queue g)" using lined_wf [OF h] g(1) by simp
  have l: "in_line h = add_mset (qe_run e) (queue_runs (ho_queue g))" using d g(1) by (simp add: in_line_def)
  assume a: "out \<noteq> CheckoutBusy" "qe_run f = qe_run e"
  have r: "wf_queue (ho_queue (requeue q f g))" "queue_runs (ho_queue (requeue q f g)) = in_line h"
    using joins_queue [OF wf, of q f] a(2) by (simp_all add: requeue_def l)
  show "lined_up L (go_on out R C p e (requeue q f g))"
    by (rule lined_still [OF h]) (use line_go [OF r(1), of out R C p e] r(2) a(1) g in
      \<open>auto simp: requeue_def row_status_def\<close>)
qed

lemma lined_cancel_go:
  assumes h: "lined_up L h" and d: "ho_drain h = Draining R' C' p' e st" and r: "\<not> blank reason \<or> qe_run e \<in> L"
    and g: "ho_queue g = ho_queue h" "ho_joining g = ho_joining h" "ho_runs g = ho_runs h" "ho_drain g = ho_drain h"
  shows "lined_up L (cancel_and_go_on reason R C p e g)"
proof -
  have lg: "lined_up L g" by (rule lined_still [OF h]) (use lined_wf [OF h] g in \<open>simp_all add: in_line_def row_status_def\<close>)
  show ?thesis
  proof (cases "blank reason")
    case True
    then have "snd (cancelRun (qe_run e) reason g) = g" by (simp add: cancelRun_def split: option.split)
    moreover have "lined_up L (go_on StartCancelled R C p e g)"
      by (rule lined_go(1) [OF h d refl]) (use g r True in \<open>simp_all add: row_status_def\<close>)
    ultimately show ?thesis by (simp add: cancel_and_go_on_def)
  next
    case False
    have c: "lined_up L (snd (cancelRun (qe_run e) reason g))" by (rule lined_cancel [OF lg False])
    note C = cancel_line [OF lined_wf [OF lg] lined_once [OF lg] False, of "qe_run e"]
    have "ho_drain (snd (cancelRun (qe_run e) reason g)) = Draining R' C' p' e st" using C(6) d g(4) by simp
    then show ?thesis unfolding cancel_and_go_on_def
      by (rule lined_go(1) [OF c]) (simp_all add: C(4))
  qed
qed


lemma admit_line:
  "tryAdmitOrEnqueue cfg key p caller h = (a, h') \<Longrightarrow> ho_queue h' = ho_queue h \<and> ho_drain h' = ho_drain h \<and>
    ho_joining h' = ho_joining h \<and> ho_runs h' = ho_runs h"
  by (auto simp: tryAdmitOrEnqueue_def Let_def reserve_def split: option.splits if_splits)

lemma lined_frame:
  "lined_up L h \<Longrightarrow> ho_queue h' = ho_queue h \<Longrightarrow> drain_run (ho_drain h') = drain_run (ho_drain h) \<Longrightarrow> ho_joining h' = ho_joining h \<Longrightarrow>
    ho_runs h' = ho_runs h \<Longrightarrow> lined_up L h'"
  by (simp add: lined_up_def placed_def in_line_def row_status_def)

lemma lined_prepare:
  assumes h: "lined_up L h" and d: "ho_drain h = Draining R C p e st"
    and r: "case ans of Unavailable r \<Rightarrow> \<not> blank r \<or> qe_run e \<in> L | BadStart r \<Rightarrow> \<not> blank r \<or> qe_run e \<in> L | _ \<Rightarrow> True"
  shows "lined_up L (prepare_dequeued cfg ans mc R C p e h)"
proof -
  have canc: "lined_up L (cancel_and_go_on reason R C p e h)" if "\<not> blank reason \<or> qe_run e \<in> L" for reason
    by (rule lined_cancel_go [OF h d that]) simp_all
  have again: "lined_up L (go_on out R C' p e (requeue q f g))"
    if "ho_queue g = ho_queue h" "ho_joining g = ho_joining h" "ho_runs g = ho_runs h" "out \<noteq> CheckoutBusy" "qe_run f = qe_run e"
    for out C' q f g
    using that by (intro lined_go(2) [OF h d refl]) (simp_all add: row_status_def)
  have rd: "lined_up L (reserve_dequeued cfg key sp caller R C p e h)" for key sp caller
  proof -
    obtain a h' where a: "tryAdmitOrEnqueue cfg key sp caller h = (a, h')" by fastforce
    note f = admit_line [OF a]
    have "lined_up L (go_on CheckoutBusy R C p e h')"
      by (rule lined_go(1) [OF h d refl]) (use f in \<open>simp_all add: row_status_def\<close>)
    moreover have "lined_up L (h'\<lparr>ho_drain := Draining R C p e st'\<rparr>)" for st' by (rule lined_frame [OF h]) (use f d in simp_all)
    ultimately show ?thesis using again f
      by (cases a) (auto simp: reserve_dequeued_def tryReserve_def a stamp_def split: busy.split option.split enqueue_reason.split)
  qed
  show ?thesis
    by (cases ans) (use r in \<open>auto simp: prepare_dequeued_def Let_def stamp_def intro!: canc rd again split: option.split\<close>)
qed

lemma clear_line [simp]: "ho_queue (removeActiveEntry i True h) = ho_queue h" "ho_drain (removeActiveEntry i True h) = ho_drain h"
  by (simp_all add: removeActiveEntry_def split: option.split)

lemma give_up_line [simp]:
  "ho_queue (give_up pid run h) = ho_queue h" "ho_joining (give_up pid run h) = ho_joining h"
  "ho_drain (give_up pid run h) = ho_drain h"
  by (simp_all add: give_up_def forget_pending_def Let_def)

lemma lined_given_up:
  assumes h: "lined_up L h" and d: "ho_drain h = Draining R' C' p' e st"
  shows "\<not> blank reason \<or> qe_run e \<in> L \<Longrightarrow> lined_up L (cancel_and_go_on reason R C p e (give_up pid run h))"
    "row_status (qe_run e) h \<noteq> Some RunQueued \<Longrightarrow> lined_up L (go_on StartCancelled R C p e (give_up pid run h))"
proof -
  show "\<not> blank reason \<or> qe_run e \<in> L \<Longrightarrow> lined_up L (cancel_and_go_on reason R C p e (give_up pid run h))"
    by (rule lined_cancel_go [OF h d]) (simp_all add: d)
  show "row_status (qe_run e) h \<noteq> Some RunQueued \<Longrightarrow> lined_up L (go_on StartCancelled R C p e (give_up pid run h))"
    by (rule lined_go(1) [OF h d refl]) (simp_all add: d row_status_def)
qed

lemma lined_materialized:
  assumes h: "lined_up L h" and d: "ho_drain h = Draining R C p e st" and r: "\<And>r. failure = Some r \<Longrightarrow> \<not> blank r \<or> qe_run e \<in> L"
  shows "lined_up L (materialized failure pid R C p e h)"
proof (cases failure)
  case None
  have "lined_up L (go_on StartCancelled R C p e (forget_pending (qe_run e) (removeActiveEntry pid True h)))"
    if "row_status (qe_run e) h = None"
    by (rule lined_go(1) [OF h d refl]) (use that in \<open>simp_all add: forget_pending_def row_status_def\<close>)
  moreover have "lined_up L ((ensureSchedulingHalt (qe_run e) h)\<lparr>ho_drain := Draining R C p e (Launching pid)\<rparr>)"
    by (rule lined_frame [OF h]) (simp_all add: d)
  ultimately show ?thesis using None lined_given_up(2) [OF h d] by (simp add: materialized_def Let_def split: option.split)
qed (use lined_given_up(1) [OF h d] r in \<open>simp add: materialized_def Let_def\<close>)

lemma track_line [simp]:
  "ho_queue (track pid run h) = ho_queue h" "ho_joining (track pid run h) = ho_joining h" "ho_runs (track pid run h) = ho_runs h"
  by (simp_all add: track_def Let_def split: option.split)

lemma row_status_track [simp]: "row_status i (track pid run h) = row_status i h"
  by (rule row_status_cong) simp

lemma lined_launched:
  assumes h: "lined_up L h" and d: "ho_drain h = Draining R C p e st" and r: "\<And>r. failure = Some r \<Longrightarrow> \<not> blank r \<or> qe_run e \<in> L"
  shows "lined_up L (launched failure pid R C p e h)"
proof (cases failure)
  case None
  have "lined_up L (go_on Started R C p e (track pid (qe_run e) (forget_pending (qe_run e) (set_status (qe_run e) RunRunning h))))"
    if q: "row_status (qe_run e) h = Some RunQueued"
  proof (rule lined_go(1) [OF h d refl])
    have "jhas (ho_runs h) (qe_run e)" using q by (auto simp: row_status_def)
    then show "row_status (qe_run e) (track pid (qe_run e) (forget_pending (qe_run e) (set_status (qe_run e) RunRunning h))) \<noteq>
        Some RunQueued \<or> Started = CheckoutBusy \<or> qe_run e \<in> L" by (auto simp: forget_pending_def)
    fix x
    show "row_status x (track pid (qe_run e) (forget_pending (qe_run e) (set_status (qe_run e) RunRunning h))) = Some RunQueued \<Longrightarrow>
        row_status x h = Some RunQueued" using q by (auto simp: forget_pending_def split: if_splits)
    show "jhas (ho_runs h) x \<Longrightarrow>
        jhas (ho_runs (track pid (qe_run e) (forget_pending (qe_run e) (set_status (qe_run e) RunRunning h)))) x"
      using set_status_keys [of "qe_run e" RunRunning h x] by (simp add: forget_pending_def)
  qed (simp_all add: forget_pending_def)
  then show ?thesis using None lined_given_up(2) [OF h d] by (simp add: launched_def Let_def)
qed (use lined_given_up(1) [OF h d] r in \<open>simp add: launched_def Let_def\<close>)


text \<open>
  What makes a run get lost: an error between its creation and the queue; and, while the drain has it in
  its hands, an error of a read, of a check or of a cancellation, or a cancellation without a reason.
\<close>

definition in_hand :: "host \<Rightarrow> string list" where
  "in_hand h = (case ho_drain h of NoDrain \<Rightarrow> [] | Draining _ _ _ e _ \<Rightarrow> [qe_run e])"

definition lost_by :: "event \<Rightarrow> host \<Rightarrow> string list" where
  "lost_by ev h = (case ev of
     JoinFailed run \<Rightarrow> [run]
   | MetaUnreadable \<Rightarrow> in_hand h
   | DrainThrows \<Rightarrow> in_hand h
   | Prepared (Unavailable r) \<Rightarrow> if blank r then in_hand h else []
   | Prepared (BadStart r) \<Rightarrow> if blank r then in_hand h else []
   | Materialized (Some r) \<Rightarrow> if blank r then in_hand h else []
   | Launched (Some r) \<Rightarrow> if blank r then in_hand h else []
   | _ \<Rightarrow> [])"

fun lost_runs :: "host_config \<Rightarrow> event list \<Rightarrow> host \<Rightarrow> string list" where
  "lost_runs cfg [] h = []"
| "lost_runs cfg (ev # evs) h =
     lost_by ev h @ (case host_step cfg ev h of None \<Rightarrow> [] | Some h' \<Rightarrow> lost_runs cfg evs h')"

text \<open>The drain lets its run go, and it is one of \<open>L\<close>.\<close>

lemma lined_let_go:
  assumes h: "lined_up L h" and d: "ho_drain h = Draining R C p e st" "qe_run e \<in> L"
    and g: "ho_queue g = ho_queue h" "ho_joining g = ho_joining h" "ho_runs g = ho_runs h" "ho_drain g = NoDrain"
  shows "lined_up L g"
  by (rule lined_upI [OF h]) (use lined_wf [OF h] d g in \<open>auto simp: placed_def in_line_def row_status_def\<close>)

lemma lined_losses:
  assumes h: "lined_up L h" and d: "ho_drain h = Draining R C p e st" "qe_run e \<in> L"
  shows "lined_up L (meta_unreadable R C p e h)" "lined_up L (check_throws h)"
    "lined_up L (second_read_fails pid R C p e h)" "lined_up L (cancel_throws pid e h)"
proof -
  show "lined_up L (meta_unreadable R C p e h)" unfolding meta_unreadable_def
    by (rule lined_go(1) [OF h d(1) refl]) (simp_all add: forget_pending_def d(2) row_status_def)
  show "lined_up L (second_read_fails pid R C p e h)" unfolding second_read_fails_def
    by (rule lined_go(1) [OF h d(1) refl]) (simp_all add: forget_pending_def d(2) row_status_def)
  show "lined_up L (check_throws h)" by (rule lined_let_go [OF h d]) (simp_all add: check_throws_def)
  show "lined_up L (cancel_throws pid e h)" by (rule lined_let_go [OF h d]) (simp_all add: cancel_throws_def)
qed

lemma lined_cancel_any: "lined_up L h \<Longrightarrow> lined_up L (snd (cancelRun run reason h))"
proof (cases "blank reason")
  case True
  then have "snd (cancelRun run reason h) = h" by (simp add: cancelRun_def split: option.split)
  then show "lined_up L h \<Longrightarrow> ?thesis" by simp
qed (rule lined_cancel)

lemma lined_start:
  assumes h: "lined_up L h" and f: "fresh_run run h"
  shows "lined_up L (admit_start cfg run p key caller h)"
proof -
  obtain a h' where a: "tryAdmitOrEnqueue cfg key (hc_resolve cfg p) caller h = (a, h')" by fastforce
  note f' = admit_line [OF a]
  have h': "lined_up L h'" by (rule lined_frame [OF h]) (use f' in simp_all)
  show ?thesis
  proof (cases a)
    case (Enqueued r)
    let ?h = "h'\<lparr>ho_joining := jset (ho_joining h') run \<lparr>pq_project = hc_resolve cfg p, pq_checkout = key, pq_caller = caller\<rparr>\<rparr>"
    have new: "run \<notin> set (jkeys (ho_joining h'))" "\<not> jhas (ho_runs h') run"
      using f f' by (simp_all add: fresh_run_def jget_eq_None_iff del: set_map)
    have l: "in_line ?h = in_line h'" by (simp add: in_line_def)
    have pl: "placed ?h = add_mset run (placed h')"
      unfolding placed_def l using jkeys_jset_absent [OF new(1)] by (simp del: set_map)
    have "run \<notin># in_line h'" using h' new(2) unfolding lined_up_def by blast
    then have "run \<notin># placed h'" using new(1) by (simp add: placed_def)
    then have "count (placed ?h) x \<le> 1" for x using h' unfolding pl lined_up_def
      by (cases "x = run") (simp_all add: not_in_iff)
    moreover have "row_status x ?h = row_status x h'" for x by (simp add: row_status_def)
    ultimately have "lined_up L ?h" using h' l pl unfolding lined_up_def by simp
    then show ?thesis by (simp add: admit_start_def a Enqueued)
  qed (use h' in \<open>auto simp: admit_start_def a intro: lined_frame\<close>)
qed

lemma keys_split: "distinct ks \<Longrightarrow> run \<in> set ks \<Longrightarrow> mset ks = add_mset run (mset (removeAll run ks))"
  by (metis distinct_remove1_removeAll mset_remove1 insert_DiffM set_mset_mset)

lemma joining_distinct: "lined_up L h \<Longrightarrow> distinct (jkeys (ho_joining h))"
proof -
  assume h: "lined_up L h"
  have "count (mset (jkeys (ho_joining h))) x \<le> 1" for x using h by (simp add: lined_up_def placed_def) (metis add_leD2)
  then show ?thesis unfolding distinct_count_atmost_1
    by (metis count_greater_zero_iff count_eq_zero_iff One_nat_def Suc_leI le_antisym set_mset_mset)
qed

lemma lined_join:
  assumes h: "lined_up L h" and row: "jget (ho_runs h) run = Some row" and pq: "jget (ho_joining h) run = Some pq"
  shows "lined_up L (join_queue run row pq h)"
proof -
  let ?h = "join_queue run row pq h"
  have k: "run \<in> set (jkeys (ho_joining h))" using pq by (rule jget_SomeD)
  have q: "wf_queue (ho_queue ?h)" "in_line ?h = add_mset run (in_line h)"
    using joins_queue [OF lined_wf [OF h]] by (simp_all add: join_queue_def in_line_def)
  have "jkeys (ho_joining ?h) = removeAll run (jkeys (ho_joining h))" by (simp add: join_queue_def delete_keys)
  then have p: "placed ?h = placed h"
    using keys_split [OF joining_distinct [OF h] k] q(2) by (simp add: placed_def del: set_map)
  have r: "ho_runs ?h = ho_runs h" by (simp add: join_queue_def)
  then have "row_status x ?h = row_status x h" for x by (rule row_status_cong)
  then show ?thesis using h q p r row unfolding lined_up_def by auto
qed

lemma status_keys: "jkeys (ho_runs (set_status run st h)) = jkeys (ho_runs h)"
  by (auto simp: set_status_def jkeys_jset_present [OF jget_SomeD] simp del: set_map split: option.split)

lemma attach_line:
  "ho_queue (attach_waiting run ck key q caller h) = ho_queue h" "ho_drain (attach_waiting run ck key q caller h) = ho_drain h"
  "ho_joining (attach_waiting run ck key q caller h) = ho_joining h"
  "jkeys (ho_runs (attach_waiting run ck key q caller h)) = jkeys (ho_runs h)"
  "jhas (ho_runs (attach_waiting run ck key q caller h)) x = jhas (ho_runs h) x"
  "row_status x (attach_waiting run ck key q caller h) = Some RunQueued \<Longrightarrow> row_status x h = Some RunQueued"
proof -
  obtain r h' where r: "ensureResumeTracked run ck key q caller h = (r, h')" by fastforce
  note f = resume_frame [of run ck key q caller h, unfolded r snd_conv]
  show "ho_queue (attach_waiting run ck key q caller h) = ho_queue h" "ho_drain (attach_waiting run ck key q caller h) = ho_drain h"
    "ho_joining (attach_waiting run ck key q caller h) = ho_joining h"
    "jkeys (ho_runs (attach_waiting run ck key q caller h)) = jkeys (ho_runs h)"
    using f by (auto simp: attach_waiting_def r status_keys split: sum.split)
  show "jhas (ho_runs (attach_waiting run ck key q caller h)) x = jhas (ho_runs h) x"
    using f set_status_keys [of run RunFailed h' x] by (simp add: attach_waiting_def r split: sum.split)
  show "row_status x (attach_waiting run ck key q caller h) = Some RunQueued \<Longrightarrow> row_status x h = Some RunQueued"
    using f row_status_cong [of h' h x] by (auto simp: attach_waiting_def r split: sum.splits if_splits)
qed

lemma lined_step:
  assumes h: "lined_up L h" and l: "set (lost_by ev h) \<subseteq> L" and st: "host_step cfg ev h = Some h'"
  shows "lined_up L h'"
proof (cases ev)
  case (StartRun run p key caller)
  with st show ?thesis by (auto split: if_splits intro: lined_start [OF h])
next
  case (StartReturned pid created)
  then obtain run where h': "h' = start_returned pid created run h" using st by auto
  have s: "lined_up L (h\<lparr>ho_starting := m\<rparr>)" for m by (rule lined_frame [OF h]) simp_all
  show ?thesis
  proof (cases created)
    case None
    then show ?thesis using lined_remove [OF s] by (simp add: h' start_returned_def)
  next
    case (Some t)
    show ?thesis
      by (rule lined_still [OF h]) (use lined_wf [OF h] Some in
        \<open>auto simp: h' start_returned_def Let_def in_line_def row_status_def track_def split: option.splits if_splits\<close>)
  qed
next
  case (StartFailed pid)
  have s: "lined_up L (h\<lparr>ho_starting := m\<rparr>)" for m by (rule lined_frame [OF h]) simp_all
  show ?thesis using st StartFailed lined_remove [OF s] by auto
next
  case (CreateQueued run t)
  then obtain pq where pq: "jget (ho_joining h) run = Some pq" "h' = create_queued run t pq h" using st by (auto split: if_splits)
  have p: "placed h' = placed h" "in_line h' = in_line h" by (simp_all add: pq(2) create_queued_def placed_def in_line_def)
  have "run \<in># placed h" using jget_SomeD [OF pq(1)] by (simp add: placed_def)
  then show ?thesis using h unfolding lined_up_def p
    by (auto simp: pq(2) create_queued_def row_status_def)
next
  case (CreateFailed run)
  then have h': "h' = leave_joining run h" "jget (ho_runs h) run = None" using st by (auto split: if_splits)
  have "count (mset (removeAll run ks)) x \<le> count (mset ks) x" for x ks by (induction ks) auto
  then have "count (placed h') x \<le> count (placed h) x" for x
    by (simp add: h'(1) leave_joining_def placed_def in_line_def delete_keys del: mset_map)
  then show ?thesis
    by (intro lined_upI [OF h]) (use lined_wf [OF h] h'(2) in \<open>auto simp: h'(1) leave_joining_def placed_def in_line_def
      row_status_def delete_keys\<close>)
next
  case (JoinQueue run)
  with st show ?thesis by (auto split: option.splits intro: lined_join [OF h])
next
  case (JoinFailed run)
  then have h': "h' = leave_joining run h" "run \<in> L" using st l by (auto simp: lost_by_def split: if_splits)
  have "count (mset (removeAll run ks)) x \<le> count (mset ks) x" for x ks by (induction ks) auto
  then have "count (placed h') x \<le> count (placed h) x" for x
    by (simp add: h'(1) leave_joining_def placed_def in_line_def delete_keys del: mset_map)
  then show ?thesis
    by (intro lined_upI [OF h]) (use lined_wf [OF h] h'(2) in \<open>auto simp: h'(1) leave_joining_def placed_def in_line_def
      row_status_def delete_keys\<close>)
next
  case (RunEnds run gen st')
  define h1 where "h1 = (if row_status run h = Some RunCancelled then h else set_status run st' h)\<lparr>ho_done := remove1 (run, gen) (ho_done h)\<rparr>"
  have h': "h' = untrackIfGeneration run gen h1" "st' \<noteq> RunQueued" using st RunEnds by (auto simp: h1_def split: if_splits)
  have "row_status x h1 = row_status x (if row_status run h = Some RunCancelled then h else set_status run st' h)" for x
    by (simp add: h1_def row_status_def)
  then have "lined_up L h1"
    by (intro lined_still [OF h]) (use lined_wf [OF h] h'(2) set_status_keys [of run st' h] in
      \<open>auto simp: h1_def in_line_def split: if_splits\<close>)
  then show ?thesis by (simp add: h'(1) untrackIfGeneration_def lined_remove split: option.split)
next
  case (CancelRun run reason)
  with st show ?thesis by (auto intro: lined_cancel_any [OF h])
next
  case (ResumeTracked run ck key q caller)
  with st show ?thesis by (auto split: if_splits intro!: lined_frame [OF h])
next
  case (ResumeStarted run)
  with st show ?thesis
    by (auto simp: registerResumeUntrack_def Let_def split: if_splits option.splits intro!: lined_frame [OF h])
next
  case (ResumeFailed run)
  with st show ?thesis by (auto split: if_splits intro: lined_remove [OF h])
next
  case (AttachRun run ck key q caller)
  have "lined_up L (attach_waiting run ck key q caller h)"
    by (rule lined_still [OF h]) (use lined_wf [OF h] attach_line in \<open>auto simp: in_line_def\<close>)
  with st AttachRun show ?thesis by (auto split: if_splits)
next
  case MetaUnreadable
  with st l show ?thesis
    by (auto simp: at_drain_def lost_by_def in_hand_def split: drain.splits drain_stage.splits intro: lined_losses [OF h])
next
  case DrainThrows
  with st l show ?thesis
    by (auto simp: at_drain_def lost_by_def in_hand_def split: drain.splits drain_stage.splits intro: lined_losses [OF h])
next
  case MetaRead
  have "lined_up L (go_on StartCancelled R C p e (forget_pending (qe_run e) h))"
    if "ho_drain h = Draining R C p e ReadingMeta" "row_status (qe_run e) h \<noteq> Some RunQueued" for R C p e
    by (rule lined_go(1) [OF h that(1) refl]) (use that(2) in \<open>simp_all add: forget_pending_def\<close>)
  moreover have "lined_up L (h\<lparr>ho_drain := Draining R C p e (Preparing c)\<rparr>)"
    if "ho_drain h = Draining R C p e ReadingMeta" for R C p e c
    by (rule lined_frame [OF h]) (simp_all add: that)
  ultimately show ?thesis using st MetaRead
    by (auto simp: at_drain_def meta_read_def row_status_def split: drain.splits drain_stage.splits option.splits if_splits)
next
  case (Prepared ans)
  with st l show ?thesis
    by (auto simp: at_drain_def lost_by_def in_hand_def split: drain.splits drain_stage.splits prepared.splits intro!: lined_prepare [OF h])
next
  case (Materialized f)
  with st l show ?thesis
    by (auto simp: at_drain_def lost_by_def in_hand_def split: drain.splits drain_stage.splits option.splits intro!: lined_materialized [OF h])
next
  case (Launched f)
  with st l show ?thesis
    by (auto simp: at_drain_def lost_by_def in_hand_def split: drain.splits drain_stage.splits option.splits intro!: lined_launched [OF h])
qed (use st in \<open>auto simp: setMaxConcurrent_def stopAcceptingWork_def begin_resume_def split: if_splits
    intro!: lined_frame [OF h]\<close>)


lemma persisted_runs:
  "wf_queue q \<Longrightarrow> wf_queue (foldl (\<lambda>q r. join_persisted cfg r q) q rs) \<and>
    queue_runs (foldl (\<lambda>q r. join_persisted cfg r q) q rs) = queue_runs q + mset (map fst rs)"
  by (induction rs arbitrary: q) (simp_all add: join_persisted_def joins_queue)

text \<open>Before the queued runs join again the queue is empty.\<close>

definition queue_rests :: "host \<Rightarrow> bool" where
  "queue_rests h \<longleftrightarrow> ho_queue h = cleared \<and> ho_drain h = NoDrain \<and> ho_joining h = [] \<and> distinct (jkeys (ho_runs h))"

lemma rests_remove: "queue_rests h \<Longrightarrow> queue_rests (removeActiveEntry i prov h)"
  by (auto simp: queue_rests_def removeActiveEntry_def drainAdmissionQueue_def drain_loop_def dequeueNext_def cleared_def drop_entry_def
      split: option.split)

lemma rests_boot:
  assumes "booting ev" "host_step cfg ev h = Some h'" "queue_rests h"
  shows "queue_rests h'"
proof (cases ev)
  case (RunEnds run gen st)
  with assms show ?thesis
    by (auto simp: untrackIfGeneration_def queue_rests_def status_keys split: if_splits option.splits intro!: rests_remove [unfolded queue_rests_def])
next
  case (AttachRun run ck key q caller)
  with assms show ?thesis by (auto simp: queue_rests_def attach_line split: if_splits)
next
  case (ResumeTracked run ck key q caller)
  with assms show ?thesis by (auto simp: queue_rests_def split: if_splits)
next
  case (ResumeStarted run)
  with assms show ?thesis
    by (auto simp: queue_rests_def registerResumeUntrack_def Let_def split: if_splits option.splits)
next
  case (ResumeFailed run)
  with assms show ?thesis by (auto split: if_splits intro: rests_remove)
next
  case (ResumeRun run)
  with assms show ?thesis by (auto simp: queue_rests_def begin_resume_def split: if_splits)
qed (use assms(1) in \<open>simp_all add: booting_def\<close>)

lemma lined_requeued:
  assumes "queue_rests h"
  shows "lined_up L (reenqueuePersistedQueuedRuns cfg h)"
proof -
  let ?q = "foldl (\<lambda>q r. join_persisted cfg r q) cleared (persisted h)"
  have "queue_runs cleared = {#}" by (simp add: queue_runs_def cleared_def rotation_def)
  then have q: "wf_queue ?q" "queue_runs ?q = mset (map fst (filter (\<lambda>r. rw_status (snd r) = RunQueued) (ho_runs h)))"
    using persisted_runs [of cleared cfg "persisted h"] by (simp_all add: persisted_def)
  let ?g = "h\<lparr>ho_queue := ?q\<rparr>"
  have g: "in_line ?g = mset (map fst (filter (\<lambda>r. rw_status (snd r) = RunQueued) (ho_runs h)))" "ho_joining ?g = []"
    using q(2) assms by (simp_all add: in_line_def queue_rests_def)
  have "distinct (map fst (filter (\<lambda>r. rw_status (snd r) = RunQueued) (ho_runs h)))"
    using assms by (intro distinct_map_filter) (simp add: queue_rests_def)
  then have "count (in_line ?g) x \<le> 1" for x by (simp only: g distinct_count_atmost_1) simp
  moreover have "x \<in># in_line ?g" if r: "row_status x ?g = Some RunQueued" for x
  proof -
    from r obtain row where "jget (ho_runs h) x = Some row" "rw_status row = RunQueued" by (auto simp: row_status_def)
    then show ?thesis unfolding g by (force dest: map_of_SomeD)
  qed
  moreover have "jhas (ho_runs ?g) x" if "x \<in># in_line ?g" for x
  proof -
    have "x \<in> set (jkeys (ho_runs h))" using that unfolding g by auto
    then show ?thesis by (simp add: jget_eq_None_iff del: set_map)
  qed
  ultimately have "lined_up L ?g" using q(1) g(2) by (simp add: lined_up_def placed_def)
  then have "lined_up L (drainAdmissionQueue ?g)"
    by (rule lined_still) (use line_drain [of ?g] q(1) in \<open>simp_all add: row_status_def\<close>)
  then show ?thesis by (simp add: reenqueuePersistedQueuedRuns_def)
qed

lemma lined_restarted:
  assumes "restarted cfg n boot rows = Some h" "distinct (jkeys rows)"
  shows "lined_up L h"
proof -
  from assms(1) obtain h1 where h1: "host_steps cfg boot ((new_host n)\<lparr>ho_runs := rows\<rparr>) = Some h1"
    "h = reenqueuePersistedQueuedRuns cfg h1" "\<forall>ev\<in>set boot. booting ev"
    by (auto simp: restarted_def list_all_iff split: if_splits)
  have "queue_rests h1"
    by (rule host_steps_invariant [OF h1(1), where P = queue_rests])
      (use assms(2) rests_boot h1(3) in \<open>auto simp: queue_rests_def new_host_def\<close>)
  then show ?thesis unfolding h1(2) by (rule lined_requeued)
qed

lemma lined_run: "host_steps cfg evs h0 = Some h \<Longrightarrow> lined_up L h0 \<Longrightarrow> set (lost_runs cfg evs h0) \<subseteq> L \<Longrightarrow> lined_up L h"
proof (induction evs arbitrary: h0)
  case (Cons ev evs)
  then obtain h1 where h1: "host_step cfg ev h0 = Some h1" "host_steps cfg evs h1 = Some h" by (cases "host_step cfg ev h0") auto
  have "lined_up L h1" by (rule lined_step [OF Cons.prems(2) _ h1(1)]) (use Cons.prems(3) in simp)
  with Cons.IH [OF h1(2)] Cons.prems(3) h1(1) show ?case by simp
qed simp

text \<open>
  C9: a run that is queued is never twice in line, and it is in exactly one place, the queue, the hands of
  the drain or on its way from its creation to the queue, after a restart too, unless this run was lost:
  by an error between its creation and the queue, or, in the hands of the drain, by a read of its data, a
  check or a cancellation that fails, or a cancellation with a blank reason.
\<close>

theorem queued_run_has_one_place:
  assumes "restarted cfg n boot rows = Some h0" "host_steps cfg evs h0 = Some h" "distinct (jkeys rows)"
    and "run \<notin> set (lost_runs cfg evs h0)" "row_status run h = Some RunQueued"
  shows "count (placed h) run = 1"
proof -
  have "lined_up (- {run}) h"
    by (rule lined_run [OF assms(2) lined_restarted [OF assms(1,3)]]) (use assms(4) in blast)
  then have "run \<in># placed h" "count (placed h) run \<le> 1" using assms(5) unfolding lined_up_def by blast+
  then show ?thesis by (metis One_nat_def Suc_leI count_greater_zero_iff le_antisym)
qed


section \<open>Waking up\<close>

lemma nobody_waits:
  assumes "wf_queue q" "dequeueNext [] [] q = None"
  shows "queue_runs q = {#}"
proof (cases "rotation q")
  case (Cons x L)
  obtain p es where x: "x = (p, es)" by fastforce
  with Cons rotation_entry [OF assms(1), of p es] obtain e es' where "es = e # es'" by (cases es) auto
  from dequeue_first [OF assms(1) Cons [unfolded x this]] assms(2) show ?thesis by auto
qed (simp add: queue_runs_def)

lemma drain_awake:
  "wf_queue (ho_queue h) \<Longrightarrow> ho_accepting h \<Longrightarrow> length (ho_active h) < ho_max h \<Longrightarrow> ho_drain h = NoDrain \<Longrightarrow>
    ho_drain (drainAdmissionQueue h) \<noteq> NoDrain \<or> queue_runs (ho_queue (drainAdmissionQueue h)) = {#}"
  using nobody_waits by (auto simp: drainAdmissionQueue_def drain_loop_def split: option.split)

text \<open>
  C27: the end of a run hands its slot on: when a run leaves a host that accepts work, and a slot
  is free then, the drain is at work or nobody waits.
\<close>

theorem ended_run_wakes_queue:
  assumes "restarted cfg n boot rows = Some h0" "host_steps cfg evs h0 = Some h" "distinct (jkeys rows)"
    and "host_step cfg (RunEnds run gen st) h = Some h'" "map_option ae_generation (jget (ho_active h) run) = Some gen"
    and "ho_accepting h" "length (ho_active h') < ho_max h"
  shows "ho_drain h' \<noteq> NoDrain \<or> queue_runs (ho_queue h') = {#}"
proof -
  have "lined_up UNIV h" by (rule lined_run [OF assms(2) lined_restarted [OF assms(1,3)]]) simp
  define h1 where "h1 = (if row_status run h = Some RunCancelled then h else set_status run st h)\<lparr>ho_done := remove1 (run, gen) (ho_done h)\<rparr>"
  have h1: "ho_active h1 = ho_active h" "ho_accepting h1 = ho_accepting h" "ho_max h1 = ho_max h" "ho_queue h1 = ho_queue h"
    "ho_drain h1 = ho_drain h" by (simp_all add: h1_def)
  obtain e where e: "jget (ho_active h) run = Some e" "ae_generation e = gen" using assms(5) by auto
  have h': "h' = drainAdmissionQueue (drop_entry run e h1)"
    using assms(4) e h1(1) by (auto simp: h1_def [symmetric] untrackIfGeneration_def removeActiveEntry_def split: if_splits)
  have w: "wf_queue (ho_queue (drop_entry run e h1))" using lined_wf [OF \<open>lined_up UNIV h\<close>] h1(4) by simp
  have a: "ho_accepting (drop_entry run e h1)" "length (ho_active (drop_entry run e h1)) < ho_max (drop_entry run e h1)"
    using assms(6,7) h1 unfolding h' by (simp_all add: drop_entry_def)
  show ?thesis
  proof (cases "ho_drain (drop_entry run e h1) = NoDrain")
    case True
    from drain_awake [OF w a True] show ?thesis unfolding h' .
  qed (simp add: h' drainAdmissionQueue_def)
qed

text \<open>A host with one slot or two.\<close>

definition sample_config :: host_config where
  "sample_config = \<lparr>hc_max_queued = 32, hc_per_project = Some 2, hc_quotas = [(''ann'', 1)], hc_root = ''/p'',
     hc_resolve = (\<lambda>p. p), hc_uuid = (\<lambda>n. replicate (Suc n) CHR ''u'')\<rparr>"

definition first_run :: "event list" where
  "first_run = [StartRun ''r1'' ''/p'' (Some ''/p/tree'') (Some ''Ann''), StartReturned ''u'' (Some ''t1'')]"

text \<open>
  A host that does nothing: all slots are free, and no start, resumption or drain is under way.
\<close>

definition idle :: "host \<Rightarrow> bool" where
  "idle h \<longleftrightarrow> ho_active h = [] \<and> ho_starting h = [] \<and> ho_resuming h = [] \<and> ho_drain h = NoDrain"

definition arrival :: "event \<Rightarrow> bool" where
  "arrival ev \<longleftrightarrow> (case ev of StartRun _ _ _ _ \<Rightarrow> True | ResumeRun _ \<Rightarrow> True | AttachRun _ _ _ _ _ \<Rightarrow> True | _ \<Rightarrow> False)"

definition rests_with :: "string \<Rightarrow> host \<Rightarrow> bool" where
  "rests_with run h \<longleftrightarrow> idle h \<and> lined_up UNIV h \<and> run \<in># queue_runs (ho_queue h)"

lemma nobody_removed: "ho_active h = [] \<Longrightarrow> removeActiveEntry i prov h = h"
  by (simp add: removeActiveEntry_def)

lemma resuming_frame: "ho_resuming (set_status run st h) = ho_resuming h" "ho_resuming (halt_run run h) = ho_resuming h"
  by (auto simp: set_status_def halt_run_def split: option.split)

lemma idle_step:
  assumes i: "idle h" and a: "\<not> arrival ev" and st: "host_step cfg ev h = Some h'"
  shows "idle h'"
proof (cases ev)
  case (RunEnds run gen st)
  with i st show ?thesis by (auto simp: idle_def untrackIfGeneration_def set_status_def split: if_splits option.splits)
next
  case (CancelRun run reason)
  with i st show ?thesis
    by (auto simp: idle_def cancelRun_def Let_def nobody_removed resuming_frame split: option.splits)
qed (use i a st in \<open>auto simp: idle_def arrival_def at_drain_def create_queued_def leave_joining_def join_queue_def
    setMaxConcurrent_def stopAcceptingWork_def registerResumeUntrack_def nobody_removed split: if_splits option.splits\<close>)

lemma idle_queue:
  assumes r: "rests_with run h" and ev: "\<not> arrival ev" "\<And>reason. ev \<noteq> CancelRun run reason" and st: "host_step cfg ev h = Some h'"
  shows "run \<in># queue_runs (ho_queue h')"
proof -
  have i: "idle h" and l: "lined_up UNIV h" and q: "run \<in># queue_runs (ho_queue h)" using r by (simp_all add: rests_with_def)
  show ?thesis
  proof (cases ev)
    case (RunEnds j gen st)
    with i assms(4) q show ?thesis by (auto simp: idle_def untrackIfGeneration_def split: if_splits)
  next
    case (JoinQueue j)
    then obtain row pq where "h' = join_queue j row pq h" using assms(4) by (auto split: option.splits)
    then show ?thesis using joins_queue [OF lined_wf [OF l]] q by (simp add: join_queue_def)
  next
    case (CancelRun j reason)
    then have j: "j \<noteq> run" "h' = snd (cancelRun j reason h)" using ev(2) assms(4) by auto
    show ?thesis
    proof (cases "blank reason")
      case True
      then show ?thesis using j(2) q by (simp add: cancelRun_def split: option.split)
    next
      case False
      have e: "in_line h' = queue_runs (ho_queue h')" "in_line h = queue_runs (ho_queue h)"
        using idle_step [OF i ev(1) assms(4)] i by (simp_all add: in_line_def idle_def)
      have "queue_runs (ho_queue h') = (if cancel_marks j h then filter_mset (\<lambda>x. x \<noteq> j) (queue_runs (ho_queue h))
          else queue_runs (ho_queue h))"
        using cancel_line(5) [OF lined_wf [OF l] lined_once [OF l] False, of j] j(2) e i
        by (cases "cancel_marks j h") (simp_all add: idle_def)
      then show ?thesis using q j(1) by simp
    qed
  qed (use i q ev(1) assms(4) in \<open>auto simp: idle_def arrival_def at_drain_def create_queued_def leave_joining_def
      setMaxConcurrent_def stopAcceptingWork_def registerResumeUntrack_def removeActiveEntry_def split: if_splits option.splits\<close>)
qed

lemma rests_step:
  assumes "rests_with run h" "\<not> arrival ev" "\<And>reason. ev \<noteq> CancelRun run reason" "host_step cfg ev h = Some h'"
  shows "rests_with run h'"
  using assms idle_step lined_step [of UNIV h ev cfg h'] idle_queue by (auto simp: rests_with_def)

text \<open>
  C12: a run that joins the queue of a host that does nothing is left behind: as long as no other run is
  started, resumed or attached and the run itself is not cancelled, nothing that can happen starts it, though all
  slots are free; neither a change of the number of slots nor the end or the cancellation of another
  run looks at the queue, and the host does nothing after it either.
\<close>

theorem queued_run_left_behind:
  assumes "restarted cfg n boot rows = Some h0" "host_steps cfg evs h0 = Some h" "distinct (jkeys rows)" "idle h"
    and "host_step cfg (JoinQueue run) h = Some h1" "host_steps cfg later h1 = Some h2"
    and "\<forall>ev\<in>set later. \<not> arrival ev \<and> (\<forall>reason. ev \<noteq> CancelRun run reason)"
  shows "run \<in> set (waiting (rotation (ho_queue h2))) \<and> idle h2"
proof -
  have l: "lined_up UNIV h" by (rule lined_run [OF assms(2) lined_restarted [OF assms(1,3)]]) simp
  obtain row pq where h1: "h1 = join_queue run row pq h" using assms(5) by (auto split: option.splits)
  have "idle h1" using idle_step [OF assms(4) _ assms(5)] by (simp add: arrival_def)
  moreover have "lined_up UNIV h1" using lined_step [OF l _ assms(5)] by simp
  moreover have "run \<in># queue_runs (ho_queue h1)" using joins_queue [OF lined_wf [OF l]] by (simp add: h1 join_queue_def)
  ultimately have "rests_with run h1" by (simp add: rests_with_def)
  have "rests_with run h2"
    by (rule host_steps_invariant [OF assms(6), where P = "rests_with run", OF \<open>rests_with run h1\<close>])
      (use assms(7) rests_step in blast)
  then show ?thesis by (simp add: rests_with_def queue_runs_def)
qed

text \<open>The last run ends while the queued run is being created.\<close>

definition fresh_host :: "nat \<Rightarrow> host" where
  "fresh_host n = the (restarted sample_config n [] [])"

lemma fresh_host_runs: "restarted sample_config 1 [] [] = Some (fresh_host 1)"
proof -
  have "\<not> Option.is_none (restarted sample_config 1 [] [])" by code_simp
  then show ?thesis by (simp add: fresh_host_def Option.is_none_def)
qed

definition ends_too_soon :: "event list" where
  "ends_too_soon = first_run @ [StartRun ''r2'' ''/p'' None None, CreateQueued ''r2'' ''t2'', RunEnds ''r1'' 2 RunSucceeded]"

definition nothing_helps :: "event list" where
  "nothing_helps = [SetMax 8, CancelRun ''r1'' ''late'', ResumeFailed ''r1'']"

theorem queued_run_left_behind_witness:
  "\<exists>h. host_steps sample_config (ends_too_soon @ [JoinQueue ''r2''] @ nothing_helps) (fresh_host 1) = Some h \<and>
     ''r2'' \<in> set (waiting (rotation (ho_queue h))) \<and> ho_active h = [] \<and> ho_max h = 8"
proof -
  have some: "x \<noteq> None \<Longrightarrow> \<exists>y. x = Some y" for x :: "host option" by blast
  have add: "host_steps cfg (xs @ ys) h = Option.bind (host_steps cfg xs h) (host_steps cfg ys)" for cfg xs ys h
    by (induction xs arbitrary: h) (auto split: bind_splits)
  have "map_option (\<lambda>h. idle h) (host_steps sample_config ends_too_soon (fresh_host 1)) = Some True" by code_simp
  then obtain h where h: "host_steps sample_config ends_too_soon (fresh_host 1) = Some h" "idle h" by auto
  have "map_option ho_max (host_steps sample_config (ends_too_soon @ [JoinQueue ''r2''] @ nothing_helps) (fresh_host 1)) = Some 8"
    by code_simp
  then obtain h2 where h2: "host_steps sample_config (ends_too_soon @ [JoinQueue ''r2''] @ nothing_helps) (fresh_host 1) = Some h2"
    "ho_max h2 = 8" by auto
  then obtain h1 where h1: "host_step sample_config (JoinQueue ''r2'') h = Some h1" "host_steps sample_config nothing_helps h1 = Some h2"
    unfolding add h(1) by (auto split: bind_splits)
  have "''r2'' \<in> set (waiting (rotation (ho_queue h2))) \<and> idle h2"
    by (rule queued_run_left_behind [OF fresh_host_runs h(1) _ h(2) h1])
      (simp_all add: nothing_helps_def arrival_def)
  with h2 show ?thesis by (auto simp: idle_def)
qed

definition left_behind :: "string \<Rightarrow> host option \<Rightarrow> bool" where
  "left_behind run s = (case s of None \<Rightarrow> False | Some h \<Rightarrow>
     ho_accepting h \<and> length (ho_active h) < ho_max h \<and> ho_drain h = NoDrain \<and> ho_starting h = [] \<and> ho_joining h = [] \<and>
     row_status run h = Some RunQueued \<and> waiting (rotation (ho_queue h)) = [run])"

text \<open>The queue is not looked at either when a start fails, and when slots are added while a run is active.\<close>

definition failed_start :: "event list" where
  "failed_start = [StartRun ''r1'' ''/p'' None None, StartRun ''r2'' ''/p'' None None, CreateQueued ''r2'' ''t2'',
     JoinQueue ''r2'', StartFailed ''u'']"

definition more_slots :: "event list" where
  "more_slots = first_run @ [StartRun ''r2'' ''/p'' None None, CreateQueued ''r2'' ''t2'', JoinQueue ''r2'', SetMax 2]"

lemma left_behind_too:
  "left_behind ''r2'' (host_steps sample_config failed_start (fresh_host 1))"
  "left_behind ''r2'' (host_steps sample_config more_slots (fresh_host 1))"
  by code_simp+

text \<open>
  An error after the creation of a queued run, a failure whose message is blank, a read of its data and a
  check that fail: nobody has the run, and it stays queued.
\<close>

definition lost :: "string \<Rightarrow> host option \<Rightarrow> bool" where
  "lost run s = (case s of None \<Rightarrow> False | Some h \<Rightarrow>
     row_status run h = Some RunQueued \<and> waiting (rotation (ho_queue h)) = [] \<and> ho_drain h = NoDrain \<and> ho_joining h = [])"

definition join_failed :: "event list" where
  "join_failed = first_run @ [StartRun ''r2'' ''/p'' None None, CreateQueued ''r2'' ''t2'', JoinFailed ''r2'']"

definition blank_failure :: "event list" where
  "blank_failure = first_run @ [StartRun ''r2'' ''/p'' None None, CreateQueued ''r2'' ''t2'', JoinQueue ''r2'',
     RunEnds ''r1'' 2 RunSucceeded, MetaRead, Prepared (Ready None ''/p''), Materialized (Some '' '')]"

definition taken_from_queue :: "event list" where
  "taken_from_queue = first_run @ [StartRun ''r2'' ''/p'' None None, CreateQueued ''r2'' ''t2'', JoinQueue ''r2'',
     RunEnds ''r1'' 2 RunSucceeded]"

lemma queued_run_lost:
  "lost ''r2'' (host_steps sample_config join_failed (fresh_host 1))"
  "lost ''r2'' (host_steps sample_config blank_failure (fresh_host 1))"
  "lost ''r2'' (host_steps sample_config (taken_from_queue @ [MetaUnreadable]) (fresh_host 1))"
  "lost ''r2'' (host_steps sample_config (taken_from_queue @ [MetaRead, DrainThrows]) (fresh_host 1))"
  by code_simp+

section \<open>Examples\<close>

definition stored :: "(string, run_row) jsmap" where
  "stored = [(''r8'', \<lparr>rw_status = RunQueued, rw_created = ''t8'', rw_project = None, rw_caller = Some ''ann''\<rparr>),
     (''r7'', \<lparr>rw_status = RunQueued, rw_created = ''t7'', rw_project = Some ''/q'', rw_caller = None\<rparr>),
     (''r6'', \<lparr>rw_status = RunSucceeded, rw_created = ''t6'', rw_project = None, rw_caller = None\<rparr>)]"

definition busy_day :: "event list" where
  "busy_day = [StartRun ''r1'' ''/p'' (Some ''/p/tree'') (Some ''Ann''), MetaRead, StartReturned ''u'' (Some ''t9''),
     Prepared (Ready (Some ''/q/tree'') ''/q''), Materialized None, Launched None, StartRun ''r2'' ''/p'' None (Some ''ANN''),
     CreateQueued ''r2'' ''t9'', JoinQueue ''r2'', SetMax 3, StartRun ''r3'' ''/p'' (Some ''/p/tree'') None]"

definition morning :: host where
  "morning = the (restarted sample_config 2 [] stored)"

lemma morning_comes: "restarted sample_config 2 [] stored = Some morning"
proof -
  have "\<not> Option.is_none (restarted sample_config 2 [] stored)" by code_simp
  then show ?thesis by (simp add: morning_def Option.is_none_def)
qed

definition busy_host :: host where
  "busy_host = the (host_steps sample_config busy_day morning)"

lemma busy_day_runs: "host_steps sample_config busy_day morning = Some busy_host"
proof -
  have "\<not> Option.is_none (host_steps sample_config busy_day morning)" by code_simp
  then show ?thesis by (simp add: busy_host_def Option.is_none_def)
qed

lemma busy_entries:
  "map_option ae_checkout (jget (ho_active busy_host) ''r1'') = Some (Some ''/p/tree'')"
  "map_option ae_checkout (jget (ho_active busy_host) ''r7'') = Some (Some ''/q/tree'')"
  "map_option ae_generation (jget (ho_active busy_host) ''r1'') = Some 2"
  by code_simp+

lemma no_reservation: "run \<notin> range (hc_uuid sample_config)" if "CHR ''r'' \<in> set run"
  using that by (auto simp: sample_config_def)

lemma reservations_differ: "inj (hc_uuid sample_config)"
  by (rule injI) (simp add: sample_config_def)

theorem checkout_exclusive_witness:
  "\<exists>a b. jget (ho_active busy_host) ''r1'' = Some a \<and> jget (ho_active busy_host) ''r7'' = Some b \<and>
     ae_checkout a = Some ''/p/tree'' \<and> ae_checkout b = Some ''/q/tree'' \<and> ae_checkout a \<noteq> ae_checkout b \<and>
     jget (ho_leases busy_host) ''/p/tree'' = Some ''r1''"
proof -
  obtain a b where ab: "jget (ho_active busy_host) ''r1'' = Some a" "jget (ho_active busy_host) ''r7'' = Some b"
    using busy_entries by auto
  have "ae_checkout a = Some ''/p/tree''" "ae_checkout b = Some ''/q/tree''" using ab busy_entries by simp_all
  with checkout_exclusive [OF morning_comes busy_day_runs ab] ab show ?thesis by auto
qed

theorem active_within_limits_witness:
  "length (ho_active busy_host) \<le> 3 \<and> countActiveForCaller ''Ann'' busy_host \<le> 1 \<and>
     countActiveForProject sample_config ''/p'' busy_host \<le> 2"
proof -
  have uuids: "\<forall>r\<in>set stored. fst r \<notin> range (hc_uuid sample_config)" by (simp add: stored_def no_reservation)
  have evs: "\<forall>ev\<in>set ([] @ busy_day). apart sample_config ev \<and> no_resumption 3 ev"
    by (simp add: busy_day_def apart_def no_resumption_def no_reservation)
  have "callerQuotaLimit sample_config (Some ''Ann'') = Some 1" by code_simp
  moreover have "hc_per_project sample_config = Some 2" by (simp add: sample_config_def)
  ultimately show ?thesis using active_within_limits [OF morning_comes busy_day_runs reservations_differ uuids evs] by simp
qed

lemma stored_once: "distinct (jkeys stored)"
  by (simp add: stored_def)

lemma busy_day_keeps: "lost_runs sample_config busy_day morning = []"
  by code_simp

theorem queued_run_has_one_place_witness: "count (placed busy_host) ''r2'' = 1 \<and> count (placed busy_host) ''r8'' = 1"
proof
  have "row_status ''r2'' busy_host = Some RunQueued" by code_simp
  from queued_run_has_one_place [OF morning_comes busy_day_runs stored_once _ this] busy_day_keeps show "count (placed busy_host) ''r2'' = 1" by simp
  have "row_status ''r8'' busy_host = Some RunQueued" by code_simp
  from queued_run_has_one_place [OF morning_comes busy_day_runs stored_once _ this] busy_day_keeps show "count (placed busy_host) ''r8'' = 1" by simp
qed

definition after_r1 :: host where
  "after_r1 = the (host_step sample_config (RunEnds ''r1'' 2 RunSucceeded) busy_host)"

theorem ended_run_wakes_queue_witness: "ho_drain after_r1 \<noteq> NoDrain"
proof -
  have "\<not> Option.is_none (host_step sample_config (RunEnds ''r1'' 2 RunSucceeded) busy_host)" by code_simp
  then have st: "host_step sample_config (RunEnds ''r1'' 2 RunSucceeded) busy_host = Some after_r1"
    by (simp add: after_r1_def Option.is_none_def)
  have acc: "ho_accepting busy_host" by code_simp
  have free: "length (ho_active after_r1) < ho_max busy_host" by code_simp
  have "waiting (rotation (ho_queue after_r1)) = [''r2'']" by code_simp
  with ended_run_wakes_queue [OF morning_comes busy_day_runs stored_once st busy_entries(3) acc free]
  show ?thesis by (simp add: queue_runs_def)
qed

end
