(* ===== verification/Clone_Chain.thy ===== *)
theory Clone_Chain
  imports Payload_Path Dag_Accept Clone_Schedule
begin

text \<open>
  Clone chains (\<open>config/cloneChain.ts\<close>): an emitter whose output holds an array of a named schema, the
  clone child that takes one element, and the join behind it.  The chains are found in the wiring of a
  pipeline, their policies and loops are checked, and the cap of an emitter is written into its output
  schema, which is the only place where it is enforced.
\<close>

section \<open>Arrays of named schemas\<close>

definition named_ref :: "string \<Rightarrow> string option" where
  "named_ref ref =
     (case strip_prefix ref_prefix ref of
        None \<Rightarrow> None
      | Some name \<Rightarrow> if name = [] \<or> CHR ''/'' \<in> set name then None else Some ref)"

fun namedSchemaRef :: "jsval option \<Rightarrow> string option" where
  "namedSchemaRef (Some (JObj [(k, JStr ref)])) = (if k = ''$ref'' then named_ref ref else None)"
| "namedSchemaRef _ = None"

record inspected_output =
  named_arrays :: "(string \<times> string) list"
  plain_arrays :: "string list"
  root_array :: bool
  root_array_ref :: "string option"

definition nothing_inspected :: inspected_output where
  "nothing_inspected = \<lparr>named_arrays = [], plain_arrays = [], root_array = False, root_array_ref = None\<rparr>"

fun array_items :: "jsval \<Rightarrow> jsval option option" where
  "array_items (JObj prop) = (if jget prop ''type'' = Some (JStr ''array'') then Some (jget prop ''items'') else None)"
| "array_items _ = None"

definition named_array :: "string \<times> jsval \<Rightarrow> (string \<times> string) option" where
  "named_array p = Option.bind (array_items (snd p)) (\<lambda>items. map_option (Pair (fst p)) (namedSchemaRef items))"

definition plain_array :: "string \<times> jsval \<Rightarrow> string option" where
  "plain_array p =
     Option.bind (array_items (snd p)) (\<lambda>items. if namedSchemaRef items = None then Some (fst p) else None)"

fun inspectOutput :: "jsval option \<Rightarrow> inspected_output" where
  "inspectOutput (Some (JObj schema)) =
     (if jget schema ''type'' = Some (JStr ''array'') then
        (let ref = namedSchemaRef (jget schema ''items'') in
         \<lparr>named_arrays = [], plain_arrays = (if ref = None then [''<root>''] else []), root_array = True, root_array_ref = ref\<rparr>)
      else if jget schema ''type'' = Some (JStr ''object'') then
        (case jget schema ''properties'' of
           Some (JObj props) \<Rightarrow>
             \<lparr>named_arrays = List.map_filter named_array props, plain_arrays = List.map_filter plain_array props,
              root_array = False, root_array_ref = None\<rparr>
         | _ \<Rightarrow> nothing_inspected)
      else nothing_inspected)"
| "inspectOutput _ = nothing_inspected"

definition childOutputIsCloneArray :: "jsval option \<Rightarrow> bool" where
  "childOutputIsCloneArray schema \<longleftrightarrow>
     named_arrays (inspectOutput schema) \<noteq> [] \<or> root_array_ref (inspectOutput schema) \<noteq> None"

section \<open>Finding the chains\<close>

record clone_ref = PipelineStageRef +
  ref_clone_cap :: "int option"
  ref_clone_mode :: "CloneMode option"

record DetectedCloneChain =
  emitterId :: string
  cloneChildId :: string
  joinId :: string
  arrayField :: string
  array_ref :: string

datatype chain_role = EmitterRole | ChildRole | JoinRole

datatype chain_error =
    TwoArrays string
  | RootArray string
  | ItemsNotNamed string
  | TwoCloneChildren string
  | NotOneChild string
  | ConditionalChild string
  | ChildInputDiffers string
  | ChildParents string
  | NotOneJoin string
  | ConditionalJoin string
  | JoinParents string
  | ChildEmitsArray string
  | Shared chain_role string
  | PolicyMissing string
  | StrayCap string
  | StrayMode string
  | LoopFrom chain_role string
  | LoopInto chain_role string string

type_synonym stage_map = "(string, stage_io) jsmap"
type_synonym ref_map = "(string, clone_ref) jsmap"

definition edges_of :: "clone_ref \<Rightarrow> PipelineRouteEdge list" where
  "edges_of ref = toRouteEdges (ref_route ref)"

definition inboundSources :: "clone_ref list \<Rightarrow> string \<Rightarrow> clone_ref list" where
  "inboundSources refs targetId = filter (\<lambda>ref. list_ex (\<lambda>edge. route_to edge = targetId) (edges_of ref)) refs"

definition isSealedThreeStagePath :: "clone_ref list \<Rightarrow> stage_map \<Rightarrow> ref_map \<Rightarrow> clone_ref \<Rightarrow> string \<Rightarrow> bool" where
  "isSealedThreeStagePath refs stageById refById emitter childId =
     (case edges_of emitter of
        [childEdge] \<Rightarrow>
          if route_to childEdge \<noteq> childId \<or> route_if childEdge \<noteq> None then False
          else (case (jget stageById childId, jget refById childId) of
            (Some childStage, Some childRef) \<Rightarrow>
              if length (inboundSources refs childId) \<noteq> 1 then False
              else (case edges_of childRef of
                [joinEdge] \<Rightarrow>
                  route_if joinEdge = None \<and> jhas stageById (route_to joinEdge) \<and>
                  length (inboundSources refs (route_to joinEdge)) = 1
              | _ \<Rightarrow> False)
          | _ \<Rightarrow> False)
      | _ \<Rightarrow> False)"

definition takes_named :: "stage_map \<Rightarrow> PipelineRouteEdge \<Rightarrow> bool" where
  "takes_named stageById edge =
     (case jget stageById (route_to edge) of None \<Rightarrow> False | Some childStage \<Rightarrow> namedSchemaRef (io_input childStage) \<noteq> None)"

definition looks_like_chain :: "clone_ref list \<Rightarrow> stage_map \<Rightarrow> ref_map \<Rightarrow> clone_ref \<Rightarrow> bool" where
  "looks_like_chain refs stageById refById emitter =
     list_ex (\<lambda>edge. takes_named stageById edge \<and> isSealedThreeStagePath refs stageById refById emitter (route_to edge))
       (edges_of emitter)"

definition unnamed_items :: "stage_map \<Rightarrow> ref_map \<Rightarrow> PipelineRouteEdge \<Rightarrow> bool" where
  "unnamed_items stageById refById edge =
     (takes_named stageById edge \<and>
      (case jget refById (route_to edge) of None \<Rightarrow> False | Some childRef \<Rightarrow> edges_of childRef \<noteq> []))"

definition is_candidate :: "clone_ref list \<Rightarrow> stage_map \<Rightarrow> ref_map \<Rightarrow> clone_ref \<Rightarrow> bool" where
  "is_candidate refs stageById refById emitter =
     (list_ex (takes_named stageById) (edges_of emitter) \<or>
      (ref_clone_cap emitter \<noteq> None \<or> ref_clone_mode emitter \<noteq> None) \<or>
      list_ex (\<lambda>edge. isSealedThreeStagePath refs stageById refById emitter (route_to edge)) (edges_of emitter))"

definition matching_children :: "stage_map \<Rightarrow> string \<Rightarrow> PipelineRouteEdge list \<Rightarrow> string list" where
  "matching_children stageById ref edges =
     jset_of (map route_to (filter (\<lambda>edge. case jget stageById (route_to edge) of
         None \<Rightarrow> False | Some childStage \<Rightarrow> namedSchemaRef (io_input childStage) = Some ref) edges))"

definition sealed_join ::
  "clone_ref list \<Rightarrow> stage_map \<Rightarrow> stage_io \<Rightarrow> clone_ref \<Rightarrow> string \<Rightarrow> chain_error + string" where
  "sealed_join refs stageById childStage childRef childId =
     (if length (inboundSources refs childId) \<noteq> 1 then Inl (ChildParents childId)
      else case edges_of childRef of
        [joinEdge] \<Rightarrow>
          if route_if joinEdge \<noteq> None then Inl (ConditionalJoin childId)
          else if \<not> jhas stageById (route_to joinEdge) then Inl (NotOneJoin childId)
          else if length (inboundSources refs (route_to joinEdge)) \<noteq> 1 then Inl (JoinParents (route_to joinEdge))
          else if childOutputIsCloneArray (io_output childStage) then Inl (ChildEmitsArray childId)
          else Inr (route_to joinEdge)
      | _ \<Rightarrow> Inl (NotOneJoin childId))"

definition sealed_chain ::
  "clone_ref list \<Rightarrow> stage_map \<Rightarrow> ref_map \<Rightarrow> clone_ref \<Rightarrow> string \<Rightarrow> string \<Rightarrow> chain_error + DetectedCloneChain" where
  "sealed_chain refs stageById refById emitter field ref =
     (case edges_of emitter of
        [childEdge] \<Rightarrow>
          if route_if childEdge \<noteq> None then Inl (ConditionalChild (ref_id emitter))
          else (case (jget stageById (route_to childEdge), jget refById (route_to childEdge)) of
            (Some childStage, Some childRef) \<Rightarrow>
              if namedSchemaRef (io_input childStage) \<noteq> Some ref then Inl (ChildInputDiffers (route_to childEdge))
              else map_sum id (\<lambda>join. \<lparr>emitterId = ref_id emitter, cloneChildId = route_to childEdge, joinId = join,
                  arrayField = field, array_ref = ref\<rparr>)
                (sealed_join refs stageById childStage childRef (route_to childEdge))
          | _ \<Rightarrow> Inl (NotOneChild (ref_id emitter)))
      | edges \<Rightarrow>
          if length (matching_children stageById ref edges) \<ge> 2 then Inl (TwoCloneChildren (ref_id emitter))
          else Inl (NotOneChild (ref_id emitter)))"

definition detect_at ::
  "clone_ref list \<Rightarrow> stage_map \<Rightarrow> ref_map \<Rightarrow> clone_ref \<Rightarrow> chain_error + DetectedCloneChain option" where
  "detect_at refs stageById refById emitter =
     (case jget stageById (ref_id emitter) of
        None \<Rightarrow> Inr None
      | Some emitterStage \<Rightarrow>
          (let edges = edges_of emitter; out = inspectOutput (io_output emitterStage) in
           if length (named_arrays out) \<ge> 2 \<and> edges \<noteq> [] then Inl (TwoArrays (ref_id emitter))
           else if root_array out \<and> edges \<noteq> [] \<and> looks_like_chain refs stageById refById emitter then
             Inl (RootArray (ref_id emitter))
           else if named_arrays out = [] \<and> plain_arrays out \<noteq> [] \<and> list_ex (unnamed_items stageById refById) edges then
             Inl (ItemsNotNamed (ref_id emitter))
           else (case named_arrays out of
             [(field, ref)] \<Rightarrow>
               if edges = [] \<or> \<not> is_candidate refs stageById refById emitter then Inr None
               else map_sum id Some (sealed_chain refs stageById refById emitter field ref)
           | _ \<Rightarrow> Inr None)))"

fun collect_chains :: "(clone_ref \<Rightarrow> chain_error + DetectedCloneChain option) \<Rightarrow> clone_ref list \<Rightarrow> chain_error + DetectedCloneChain list"
  where
  "collect_chains f [] = Inr []"
| "collect_chains f (ref # refs) =
     (case f ref of
        Inl e \<Rightarrow> Inl e
      | Inr None \<Rightarrow> collect_chains f refs
      | Inr (Some c) \<Rightarrow> map_sum id ((#) c) (collect_chains f refs))"

fun shared_stage :: "DetectedCloneChain list \<Rightarrow> string list \<Rightarrow> string list \<Rightarrow> string list \<Rightarrow> chain_error option" where
  "shared_stage [] emitters children joins = None"
| "shared_stage (c # cs) emitters children joins =
     (if emitterId c \<in> set emitters then Some (Shared EmitterRole (emitterId c))
      else if cloneChildId c \<in> set children then Some (Shared ChildRole (cloneChildId c))
      else if joinId c \<in> set joins then Some (Shared JoinRole (joinId c))
      else shared_stage cs (emitterId c # emitters) (cloneChildId c # children) (joinId c # joins))"

definition detectCloneChains :: "stage_io list \<Rightarrow> clone_ref list \<Rightarrow> chain_error + DetectedCloneChain list" where
  "detectCloneChains stages refs =
     (case collect_chains (detect_at refs (jmap_by io_id stages) (jmap_by ref_id refs)) refs of
        Inl e \<Rightarrow> Inl e
      | Inr found \<Rightarrow> (case shared_stage found [] [] [] of Some e \<Rightarrow> Inl e | None \<Rightarrow> Inr found))"

section \<open>Policies, loops and caps\<close>

definition policy_issue :: "string list \<Rightarrow> clone_ref \<Rightarrow> chain_error option" where
  "policy_issue emitters ref =
     (if ref_id ref \<in> set emitters then
        (if ref_clone_cap ref = None \<or> ref_clone_mode ref = None then Some (PolicyMissing (ref_id ref)) else None)
      else if ref_clone_cap ref \<noteq> None then Some (StrayCap (ref_id ref))
      else if ref_clone_mode ref \<noteq> None then Some (StrayMode (ref_id ref))
      else None)"

definition forbidden_targets :: "DetectedCloneChain list \<Rightarrow> (string, chain_role) jsmap" where
  "forbidden_targets found =
     foldl (\<lambda>m c. jset (jset (jset m (emitterId c) EmitterRole) (cloneChildId c) ChildRole) (joinId c) JoinRole) [] found"

fun first_some :: "('a \<Rightarrow> 'b option) \<Rightarrow> 'a list \<Rightarrow> 'b option" where
  "first_some f [] = None"
| "first_some f (x # xs) = (case f x of None \<Rightarrow> first_some f xs | Some y \<Rightarrow> Some y)"

definition loop_issue :: "DetectedCloneChain list \<Rightarrow> clone_ref \<Rightarrow> chain_error option" where
  "loop_issue found ref =
     (let loops = toRouteLoopEntries (ref_route ref) in
      if loops = [] then None
      else if ref_id ref \<in> set (map emitterId found) then Some (LoopFrom EmitterRole (ref_id ref))
      else if ref_id ref \<in> set (map cloneChildId found) then Some (LoopFrom ChildRole (ref_id ref))
      else first_some (\<lambda>loop. map_option (\<lambda>role. LoopInto role (ref_id ref) (loop_to loop))
          (jget (forbidden_targets found) (loop_to loop))) loops)"

definition validateCloneChainLoops :: "clone_ref list \<Rightarrow> DetectedCloneChain list \<Rightarrow> chain_error option" where
  "validateCloneChainLoops refs found = (if found = [] then None else first_some (loop_issue found) refs)"

fun applyCloneCapToSchema :: "string \<Rightarrow> int \<Rightarrow> jsval \<Rightarrow> jsval" where
  "applyCloneCapToSchema field cap (JObj schema) =
     (case jget schema ''properties'' of
        Some (JObj props) \<Rightarrow>
          (case jget props field of
             Some (JObj prop) \<Rightarrow>
               JObj (jset schema ''properties'' (JObj (jset props field
                 (JObj (jset (jset prop ''minItems'' (JNum (Fin 1))) ''maxItems'' (JNum (Fin (of_int cap))))))))
           | _ \<Rightarrow> JObj schema)
      | _ \<Rightarrow> JObj schema)"
| "applyCloneCapToSchema field cap schema = schema"

definition cap_node :: "DetectedCloneChain \<Rightarrow> int \<Rightarrow> CloneMode \<Rightarrow> ResolvedPipelineStageNode \<Rightarrow> ResolvedPipelineStageNode" where
  "cap_node c cap mode n =
     (if node_id n = emitterId c then n\<lparr>clone_cap := Some cap, clone_mode := Some mode, clone_array_field := Some (arrayField c)\<rparr>
      else n)"

definition cap_stage :: "DetectedCloneChain \<Rightarrow> int \<Rightarrow> stage_io \<Rightarrow> stage_io" where
  "cap_stage c cap s =
     (if io_id s = emitterId c then s\<lparr>io_output := map_option (applyCloneCapToSchema (arrayField c) cap) (io_output s)\<rparr> else s)"

text \<open>The stages and the nodes of a loaded pipeline have ids of their own, so an id names one object.\<close>

definition apply_chain ::
  "ref_map \<Rightarrow> stage_io list \<times> ResolvedPipelineDag \<Rightarrow> DetectedCloneChain \<Rightarrow> stage_io list \<times> ResolvedPipelineDag" where
  "apply_chain refById acc c =
     (case jget refById (emitterId c) of
        None \<Rightarrow> acc
      | Some ref \<Rightarrow>
          (case (ref_clone_cap ref, ref_clone_mode ref, acc) of
             (Some cap, Some mode, (stages, dag)) \<Rightarrow>
               (map (cap_stage c cap) stages, dag\<lparr>nodes := map (cap_node c cap mode) (nodes dag)\<rparr>)
           | _ \<Rightarrow> acc))"

definition applyCloneChains ::
  "stage_io list \<Rightarrow> clone_ref list \<Rightarrow> ResolvedPipelineDag \<Rightarrow> chain_error + stage_io list \<times> ResolvedPipelineDag" where
  "applyCloneChains stages refs dag =
     (case detectCloneChains stages refs of
        Inl e \<Rightarrow> Inl e
      | Inr found \<Rightarrow>
          (case first_some (policy_issue (map emitterId found)) refs of
             Some e \<Rightarrow> Inl e
           | None \<Rightarrow>
               (case validateCloneChainLoops refs found of
                  Some e \<Rightarrow> Inl e
                | None \<Rightarrow> Inr (foldl (apply_chain (jmap_by ref_id refs)) (stages, dag) found))))"

end
