(* ===== verification/Clone_Chain_Correct.thy ===== *)
theory Clone_Chain_Correct
  imports Clone_Chain
begin

text \<open>
  What is a clone chain, stated on its own, and that exactly these are found; what a pipeline that passes
  keeps, and that the cap bounds the fan-out of its runs.
\<close>

section \<open>Sealed chains\<close>

definition only_route :: "clone_ref \<Rightarrow> string \<Rightarrow> bool" where
  "only_route ref target \<longleftrightarrow> (\<exists>e. edges_of ref = [e] \<and> route_to e = target \<and> route_if e = None)"

definition sealed :: "stage_io list \<Rightarrow> clone_ref list \<Rightarrow> DetectedCloneChain \<Rightarrow> bool" where
  "sealed stages refs c \<longleftrightarrow> (\<exists>emitter child emitter_stage child_stage.
     emitter \<in> set refs \<and> ref_id emitter = emitterId c \<and> child \<in> set refs \<and> ref_id child = cloneChildId c \<and>
     jget (jmap_by io_id stages) (emitterId c) = Some emitter_stage \<and> jget (jmap_by io_id stages) (cloneChildId c) = Some child_stage \<and>
     jhas (jmap_by io_id stages) (joinId c) \<and>
     named_arrays (inspectOutput (io_output emitter_stage)) = [(arrayField c, array_ref c)] \<and>
     namedSchemaRef (io_input child_stage) = Some (array_ref c) \<and> \<not> childOutputIsCloneArray (io_output child_stage) \<and>
     only_route emitter (cloneChildId c) \<and> only_route child (joinId c) \<and>
     inboundSources refs (cloneChildId c) = [emitter] \<and> inboundSources refs (joinId c) = [child])"

lemma only_edges: "only_route ref t \<Longrightarrow> map route_to (edges_of ref) = [t]"
  by (auto simp: only_route_def)

lemma inbound_of: "ref \<in> set refs \<Longrightarrow> only_route ref t \<Longrightarrow> ref \<in> set (inboundSources refs t)"
  by (auto simp: inboundSources_def only_route_def)

lemma sole_source: "length xs = Suc 0 \<Longrightarrow> x \<in> set xs \<Longrightarrow> xs = [x]"
  by (cases xs) auto

lemma jmap_ref: "distinct (map f xs) \<Longrightarrow> x \<in> set xs \<Longrightarrow> jget (jmap_by f xs) (f x) = Some x"
  by (simp add: jget_jmap_by_distinct find_distinct_key)

lemma jmap_refD: "jget (jmap_by f xs) k = Some x \<Longrightarrow> x \<in> set xs \<and> f x = k"
  unfolding jget_jmap_by by (drule find_SomeD) simp

lemma named_not_root: "named_arrays (inspectOutput s) \<noteq> [] \<Longrightarrow> \<not> root_array (inspectOutput s)"
  by (cases s rule: inspectOutput.cases) (auto simp: Let_def nothing_inspected_def split: if_splits option.splits jsval.splits)

lemma sealed_join_iff:
  assumes "child \<in> set refs" "ref_id child = c"
  shows "sealed_join refs stageById cs child c = Inr j \<longleftrightarrow>
    length (inboundSources refs c) = 1 \<and> only_route child j \<and> jhas stageById j \<and> inboundSources refs j = [child] \<and>
    \<not> childOutputIsCloneArray (io_output cs)"
proof (cases "edges_of child")
  case (Cons e es)
  have "length (inboundSources refs (route_to e)) = Suc 0 \<longleftrightarrow> inboundSources refs (route_to e) = [child]"
    if "es = []" "route_if e = None"
    using sole_source inbound_of [OF assms(1), of "route_to e"] that Cons by (auto simp: only_route_def)
  then show ?thesis using Cons by (cases es) (auto simp: sealed_join_def only_route_def)
qed (simp add: sealed_join_def only_route_def)

lemma map_sum_Inr: "map_sum f g x = Inr y \<longleftrightarrow> (\<exists>z. x = Inr z \<and> y = g z)"
  by (cases x) auto

lemma detect_sealed:
  assumes d: "distinct (map ref_id refs)" and e: "emitter \<in> set refs"
    and det: "detect_at refs (jmap_by io_id stages) (jmap_by ref_id refs) emitter = Inr (Some c)"
  shows "sealed stages refs c \<and> emitterId c = ref_id emitter"
proof -
  from det obtain es where es: "jget (jmap_by io_id stages) (ref_id emitter) = Some es"
    by (auto simp: detect_at_def split: option.splits)
  let ?named = "named_arrays (inspectOutput (io_output es))"
  from det es obtain field ref where arr: "?named = [(field, ref)]"
    by (auto simp: detect_at_def Let_def split: if_splits list.splits)
  then have seal: "sealed_chain refs (jmap_by io_id stages) (jmap_by ref_id refs) emitter field ref = Inr c"
    using det es by (auto simp: detect_at_def Let_def simp: map_sum_Inr split: if_splits)
  then obtain edge where edge: "edges_of emitter = [edge]" "route_if edge = None"
    by (auto simp: sealed_chain_def split: list.splits if_splits)
  from seal edge obtain cs cr where child: "jget (jmap_by io_id stages) (route_to edge) = Some cs"
    "jget (jmap_by ref_id refs) (route_to edge) = Some cr" "namedSchemaRef (io_input cs) = Some ref"
    by (auto simp: sealed_chain_def split: option.splits if_splits)
  with seal edge obtain j where j: "sealed_join refs (jmap_by io_id stages) cs cr (route_to edge) = Inr j"
    "c = \<lparr>emitterId = ref_id emitter, cloneChildId = route_to edge, joinId = j, arrayField = field, array_ref = ref\<rparr>"
    by (auto simp: sealed_chain_def map_sum_Inr)
  have cr: "cr \<in> set refs" "ref_id cr = route_to edge" using jmap_refD [OF child(2)] by simp_all
  note J = j(1) [unfolded sealed_join_iff [OF cr]]
  have r: "only_route emitter (route_to edge)" using edge by (simp add: only_route_def)
  have "inboundSources refs (route_to edge) = [emitter]"
    by (rule sole_source [OF _ inbound_of [OF e r]]) (use J in simp)
  with r e es arr child cr J show ?thesis unfolding sealed_def j(2) by auto
qed

lemma sealed_detect:
  assumes d: "distinct (map ref_id refs)" and s: "sealed stages refs c" and e: "emitter \<in> set refs" "ref_id emitter = emitterId c"
  shows "detect_at refs (jmap_by io_id stages) (jmap_by ref_id refs) emitter = Inr (Some c)"
proof -
  from s obtain emitter' child es cs where c: "emitter' \<in> set refs" "ref_id emitter' = emitterId c" "child \<in> set refs"
    "ref_id child = cloneChildId c" "jget (jmap_by io_id stages) (emitterId c) = Some es"
    "jget (jmap_by io_id stages) (cloneChildId c) = Some cs" "jhas (jmap_by io_id stages) (joinId c)"
    "named_arrays (inspectOutput (io_output es)) = [(arrayField c, array_ref c)]" "namedSchemaRef (io_input cs) = Some (array_ref c)"
    "\<not> childOutputIsCloneArray (io_output cs)" "only_route emitter' (cloneChildId c)" "only_route child (joinId c)"
    "inboundSources refs (cloneChildId c) = [emitter']" "inboundSources refs (joinId c) = [child]"
    unfolding sealed_def by blast
  have "emitter' = emitter" using d c(1,2) e by (metis jmap_ref option.inject)
  then have only: "only_route emitter (cloneChildId c)" using c(11) by simp
  then obtain edge where edge: "edges_of emitter = [edge]" "route_to edge = cloneChildId c" "route_if edge = None"
    by (auto simp: only_route_def)
  have ref: "jget (jmap_by ref_id refs) (cloneChildId c) = Some child" using jmap_ref [OF d c(3)] c(4) by simp
  have j: "sealed_join refs (jmap_by io_id stages) cs child (cloneChildId c) = Inr (joinId c)"
    using c by (simp add: sealed_join_iff)
  have "sealed_chain refs (jmap_by io_id stages) (jmap_by ref_id refs) emitter (arrayField c) (array_ref c) = Inr c"
    using edge c(6,9) ref j e(2) by (simp add: sealed_chain_def)
  moreover have "is_candidate refs (jmap_by io_id stages) (jmap_by ref_id refs) emitter"
    using edge c(6,9) by (simp add: is_candidate_def takes_named_def)
  moreover have "\<not> root_array (inspectOutput (io_output es))" by (rule named_not_root) (simp add: c(8))
  ultimately show ?thesis using c(5,8) e(2) edge(1) by (simp add: detect_at_def Let_def)
qed

lemma sealed_child_unique:
  assumes "distinct (map ref_id refs)" "sealed stages refs c" "sealed stages refs d" "cloneChildId c = cloneChildId d"
  shows "emitterId c = emitterId d"
  using assms(2-4) unfolding sealed_def by (metis list.inject)

lemma sealed_join_unique:
  assumes "distinct (map ref_id refs)" "sealed stages refs c" "sealed stages refs d" "joinId c = joinId d"
  shows "cloneChildId c = cloneChildId d"
  using assms(2-4) unfolding sealed_def by (metis list.inject)

lemma sealed_emitter_no_child: "sealed stages refs c \<Longrightarrow> sealed stages refs d \<Longrightarrow> emitterId c \<noteq> cloneChildId d"
  unfolding sealed_def childOutputIsCloneArray_def by (metis list.distinct(1) option.inject)


lemma collect_members:
  "collect_chains f rs = Inr cs \<Longrightarrow> c \<in> set cs \<longleftrightarrow> (\<exists>r\<in>set rs. f r = Inr (Some c))"
  "collect_chains f rs = Inr cs \<Longrightarrow> (\<And>r c. r \<in> set rs \<Longrightarrow> f r = Inr (Some c) \<Longrightarrow> emitterId c = ref_id r) \<Longrightarrow>
    distinct (map ref_id rs) \<Longrightarrow> distinct (map emitterId cs)"
proof -
  show members: "collect_chains f rs = Inr cs \<Longrightarrow> c \<in> set cs \<longleftrightarrow> (\<exists>r\<in>set rs. f r = Inr (Some c))" for cs rs c
    by (induction rs arbitrary: cs) (auto simp: map_sum_Inr split: sum.splits option.splits)
  show "collect_chains f rs = Inr cs \<Longrightarrow> (\<And>r c. r \<in> set rs \<Longrightarrow> f r = Inr (Some c) \<Longrightarrow> emitterId c = ref_id r) \<Longrightarrow>
    distinct (map ref_id rs) \<Longrightarrow> distinct (map emitterId cs)"
  proof (induction rs arbitrary: cs)
    case (Cons r rs)
    from Cons.prems(1) consider (none) "f r = Inr None" "collect_chains f rs = Inr cs" |
        (some) c cs' where "f r = Inr (Some c)" "collect_chains f rs = Inr cs'" "cs = c # cs'"
      by (auto simp: map_sum_Inr split: sum.splits option.splits)
    then show ?case
    proof cases
      case none
      then show ?thesis using Cons.IH [OF none(2)] Cons.prems(2,3) by auto
    next
      case some
      have "emitterId c \<notin> set (map emitterId cs')"
      proof
        assume "emitterId c \<in> set (map emitterId cs')"
        then obtain d where d: "d \<in> set cs'" "emitterId d = emitterId c" by auto
        from members [OF some(2)] d(1) obtain q where q: "q \<in> set rs" "f q = Inr (Some d)" by blast
        have "ref_id q = ref_id r" using Cons.prems(2) [of q d] Cons.prems(2) [of r c] q some(1) d(2) by simp
        with q(1) Cons.prems(3) show False by (metis distinct.simps(2) image_eqI list.simps(9) set_map)
      qed
      then show ?thesis using Cons.IH [OF some(2)] Cons.prems(2,3) some(3) by auto
    qed
  qed simp
qed

lemma not_shared:
  assumes "distinct (map emitterId cs)" "distinct (map cloneChildId cs)" "distinct (map joinId cs)"
    "set (map emitterId cs) \<inter> set es = {}" "set (map cloneChildId cs) \<inter> set hs = {}" "set (map joinId cs) \<inter> set js = {}"
  shows "shared_stage cs es hs js = None"
  using assms by (induction cs arbitrary: es hs js) auto

lemma collected:
  assumes "distinct (map ref_id refs)"
    and "collect_chains (detect_at refs (jmap_by io_id stages) (jmap_by ref_id refs)) refs = Inr found"
  shows "c \<in> set found \<longleftrightarrow> sealed stages refs c" "distinct (map emitterId found)"
    "distinct (map cloneChildId found)" "distinct (map joinId found)"
proof -
  note D = detect_sealed [OF assms(1), of _ stages]
  note M = collect_members(1) [OF assms(2)]
  show mem: "c \<in> set found \<longleftrightarrow> sealed stages refs c" for c
  proof
    show "c \<in> set found \<Longrightarrow> sealed stages refs c" using M D by blast
    assume s: "sealed stages refs c"
    then obtain e where "e \<in> set refs" "ref_id e = emitterId c" unfolding sealed_def by blast
    with sealed_detect [OF assms(1) s] M show "c \<in> set found" by blast
  qed
  show em: "distinct (map emitterId found)" by (rule collect_members(2) [OF assms(2) _ assms(1)]) (use D in blast)
  have child: "emitterId c = emitterId d" if "c \<in> set found" "d \<in> set found" "cloneChildId c = cloneChildId d" for c d
    using sealed_child_unique [OF assms(1)] that mem by blast
  have join: "emitterId c = emitterId d" if "c \<in> set found" "d \<in> set found" "joinId c = joinId d" for c d
    using sealed_join_unique [OF assms(1)] child that mem by blast
  have inj: "inj_on emitterId (set found)" "distinct found" using em by (simp_all add: distinct_map)
  have "inj_on cloneChildId (set found)" by (rule inj_onI) (use inj_onD [OF inj(1)] child in blast)
  moreover have "inj_on joinId (set found)" by (rule inj_onI) (use inj_onD [OF inj(1)] join in blast)
  ultimately show "distinct (map cloneChildId found)" "distinct (map joinId found)" using inj(2) by (simp_all add: distinct_map)
qed

lemma detection:
  assumes "distinct (map ref_id refs)"
  shows "detectCloneChains stages refs = collect_chains (detect_at refs (jmap_by io_id stages) (jmap_by ref_id refs)) refs"
proof (cases "collect_chains (detect_at refs (jmap_by io_id stages) (jmap_by ref_id refs)) refs")
  case (Inr found)
  have "shared_stage found [] [] [] = None" by (rule not_shared) (use collected [OF assms Inr] in simp_all)
  with Inr show ?thesis by (simp add: detectCloneChains_def)
qed (simp add: detectCloneChains_def)

lemma detected_exactly:
  assumes "distinct (map ref_id refs)" "detectCloneChains stages refs = Inr found"
  shows "(c \<in> set found \<longleftrightarrow> sealed stages refs c)" "distinct (map emitterId found)" "distinct (map cloneChildId found)"
    "distinct (map joinId found)" "set (map emitterId found) \<inter> set (map cloneChildId found) = {}"
proof -
  note C = collected [OF assms(1) assms(2) [unfolded detection [OF assms(1)]]]
  show "(c \<in> set found \<longleftrightarrow> sealed stages refs c)" "distinct (map emitterId found)" "distinct (map cloneChildId found)"
    "distinct (map joinId found)" by (rule C)+
  show "set (map emitterId found) \<inter> set (map cloneChildId found) = {}"
    using sealed_emitter_no_child [of stages refs] C(1) by auto
qed

section \<open>What the check leaves\<close>

lemma first_some_none: "first_some f xs = None \<longleftrightarrow> (\<forall>x\<in>set xs. f x = None)"
  by (induction xs) (auto split: option.splits)

lemma forbidden: "jget (forbidden_targets found) t = None \<longleftrightarrow> t \<notin> set (map emitterId found) \<union> set (map cloneChildId found) \<union> set (map joinId found)"
  unfolding forbidden_targets_def by (induction found rule: rev_induct) auto

lemma find_mapped: "List.find P (map f xs) = map_option f (List.find (\<lambda>x. P (f x)) xs)"
  by (induction xs) auto

definition policy_of :: "ref_map \<Rightarrow> DetectedCloneChain \<Rightarrow> int \<times> CloneMode" where
  "policy_of refById c =
     (let ref = the (jget refById (emitterId c)) in (the (ref_clone_cap ref), the (ref_clone_mode ref)))"

definition capped_stage :: "ref_map \<Rightarrow> DetectedCloneChain list \<Rightarrow> stage_io \<Rightarrow> stage_io" where
  "capped_stage refById cs s =
     (case List.find (\<lambda>c. emitterId c = io_id s) cs of None \<Rightarrow> s | Some c \<Rightarrow> cap_stage c (fst (policy_of refById c)) s)"

definition capped_node :: "ref_map \<Rightarrow> DetectedCloneChain list \<Rightarrow> ResolvedPipelineStageNode \<Rightarrow> ResolvedPipelineStageNode" where
  "capped_node refById cs n =
     (case List.find (\<lambda>c. emitterId c = node_id n) cs of
        None \<Rightarrow> n | Some c \<Rightarrow> cap_node c (fst (policy_of refById c)) (snd (policy_of refById c)) n)"

lemma find_emitter_none: "i \<notin> set (map emitterId cs) \<Longrightarrow> List.find (\<lambda>c. emitterId c = i) cs = None"
  by (force simp: find_None_iff)

lemma apply_all:
  assumes "distinct (map emitterId cs)"
    and "\<And>c. c \<in> set cs \<Longrightarrow> \<exists>ref cap mode. jget R (emitterId c) = Some ref \<and> ref_clone_cap ref = Some cap \<and> ref_clone_mode ref = Some mode"
  shows "foldl (apply_chain R) (stages, dag) cs = (map (capped_stage R cs) stages, dag\<lparr>nodes := map (capped_node R cs) (nodes dag)\<rparr>)"
  using assms
proof (induction cs arbitrary: stages dag)
  case (Cons c cs)
  from Cons.prems(2) [of c] obtain ref cap mode where
    r: "jget R (emitterId c) = Some ref" "ref_clone_cap ref = Some cap" "ref_clone_mode ref = Some mode" by auto
  then have p: "policy_of R c = (cap, mode)" by (simp add: policy_of_def)
  have "capped_stage R cs (cap_stage c cap s) = capped_stage R (c # cs) s" for s
    using Cons.prems(1) find_emitter_none [of "emitterId c" cs]
    by (auto simp: capped_stage_def cap_stage_def p split: option.split)
  moreover have "capped_node R cs (cap_node c cap mode n) = capped_node R (c # cs) n" for n
    using Cons.prems(1) find_emitter_none [of "emitterId c" cs]
    by (auto simp: capped_node_def cap_node_def p split: option.split)
  ultimately show ?case using Cons.IH Cons.prems r by (simp add: apply_chain_def)
qed (simp add: capped_stage_def capped_node_def map_idI)

lemma applied:
  assumes d: "distinct (map ref_id refs)" and ok: "applyCloneChains stages refs dag = Inr (stages', dag')"
  obtains found where "detectCloneChains stages refs = Inr found"
    "stages' = map (capped_stage (jmap_by ref_id refs) found) stages"
    "dag' = dag\<lparr>nodes := map (capped_node (jmap_by ref_id refs) found) (nodes dag)\<rparr>"
    "\<And>ref. ref \<in> set refs \<Longrightarrow> (ref_clone_cap ref \<noteq> None \<longleftrightarrow> ref_id ref \<in> set (map emitterId found)) \<and>
       (ref_clone_mode ref \<noteq> None \<longleftrightarrow> ref_id ref \<in> set (map emitterId found))"
    "validateCloneChainLoops refs found = None"
proof -
  from ok obtain found where f: "detectCloneChains stages refs = Inr found"
    "first_some (policy_issue (map emitterId found)) refs = None" "validateCloneChainLoops refs found = None"
    "foldl (apply_chain (jmap_by ref_id refs)) (stages, dag) found = (stages', dag')"
    by (auto simp: applyCloneChains_def split: sum.splits option.splits)
  note D = detected_exactly [OF d f(1)]
  have p: "(ref_clone_cap ref \<noteq> None \<longleftrightarrow> ref_id ref \<in> set (map emitterId found)) \<and>
       (ref_clone_mode ref \<noteq> None \<longleftrightarrow> ref_id ref \<in> set (map emitterId found))" if "ref \<in> set refs" for ref
    using f(2) that by (auto simp: first_some_none policy_issue_def split: if_splits)
  have "\<exists>ref cap mode. jget (jmap_by ref_id refs) (emitterId c) = Some ref \<and> ref_clone_cap ref = Some cap \<and> ref_clone_mode ref = Some mode"
    if "c \<in> set found" for c
  proof -
    from that D(1) obtain ref where ref: "ref \<in> set refs" "ref_id ref = emitterId c" unfolding sealed_def by blast
    then show ?thesis using jmap_ref [OF d ref(1)] p [OF ref(1)] that by auto
  qed
  from apply_all [OF D(2) this, of stages dag] f(4) that [OF f(1) _ _ p f(3)] show ?thesis by simp
qed

text \<open>A draft is checked and may go back, then it is cut into tickets, each is worked on, and the results are merged.\<close>

definition chain_stage :: "string \<Rightarrow> jsval option \<Rightarrow> jsval option \<Rightarrow> stage_io" where
  "chain_stage i sent taken = \<lparr>io_id = i, io_output = sent, io_input = taken\<rparr>"

definition chain_stages :: "stage_io list" where
  "chain_stages =
     [chain_stage ''draft'' None None, chain_stage ''check'' None None, chain_stage ''plan'' (Some ticket_output) None,
      chain_stage ''work'' None (Some (JObj [(''$ref'', JStr ''#/schemas/ticket'')])), chain_stage ''merge'' None None]"

definition redraft :: PipelineRouteLoopEntry where
  "redraft = \<lparr>loop_to = ''draft'', loop_max_replays = 2, loop_on_max_replays = WaitForHuman,
     loop_replay_session = Resume\<rparr>"

definition chain_ref :: "string \<Rightarrow> PipelineRouteEntry list \<Rightarrow> (int \<times> CloneMode) option \<Rightarrow> clone_ref" where
  "chain_ref i route policy =
     \<lparr>ref_id = i, ref_route = Some route, ref_entry = None, ref_completion = None, ref_recovery = None, ref_replay_safe = None,
      ref_clone_cap = map_option fst policy, ref_clone_mode = map_option snd policy\<rparr>"

definition chain_refs :: "clone_ref list" where
  "chain_refs =
     [chain_ref ''draft'' [Forward ''check'' None None] None,
      chain_ref ''check'' [Loop redraft, Forward ''plan'' None None] None,
      chain_ref ''plan'' [Forward ''work'' None None] (Some (2, Parallel)),
      chain_ref ''work'' [Forward ''merge'' None None] None, chain_ref ''merge'' [] None]"

definition plan_chain :: DetectedCloneChain where
  "plan_chain = \<lparr>emitterId = ''plan'', cloneChildId = ''work'', joinId = ''merge'', arrayField = ''tickets'',
     array_ref = ''#/schemas/ticket''\<rparr>"

definition chain_dag :: ResolvedPipelineDag where
  "chain_dag = linearCompatDagSnapshot (map ref_id chain_refs)"

definition applied_stages :: "stage_io list" where
  "applied_stages = fst (projr (applyCloneChains chain_stages chain_refs chain_dag))"

definition applied_dag :: ResolvedPipelineDag where
  "applied_dag = snd (projr (applyCloneChains chain_stages chain_refs chain_dag))"

lemma chain_example:
  "distinct (map ref_id chain_refs)" "distinct (map io_id chain_stages)"
  "detectCloneChains chain_stages chain_refs = Inr [plan_chain]"
  "applyCloneChains chain_stages chain_refs chain_dag = Inr (applied_stages, applied_dag)"
  by code_simp+

lemma plan_sealed: "sealed chain_stages chain_refs plan_chain"
  using detected_exactly(1) [OF chain_example(1,3), of plan_chain] by simp

text \<open>
  C14: the clone chains found in a pipeline are exactly the sealed paths of an emitter, a clone child and a
  join, and no stage has the same role in two of them, nor is an emitter a clone child of another.
\<close>

theorem clone_chains_exact:
  assumes "distinct (map ref_id refs)" "detectCloneChains stages refs = Inr found"
  shows "(c \<in> set found \<longleftrightarrow> sealed stages refs c) \<and> distinct (map emitterId found) \<and> distinct (map cloneChildId found) \<and>
    distinct (map joinId found) \<and> set (map emitterId found) \<inter> set (map cloneChildId found) = {}"
  using detected_exactly [OF assms] by blast

theorem clone_chains_exact_witness: "sealed chain_stages chain_refs plan_chain"
  using clone_chains_exact [OF chain_example(1,3), of plan_chain] by simp

text \<open>
  C15: in a pipeline that passes, every policy sits on the emitter of a sealed chain and every emitter has
  one, the node of the emitter carries it with the field of the array, and no other node changes.
\<close>

theorem clone_policies_applied:
  assumes "distinct (map ref_id refs)" "applyCloneChains stages refs dag = Inr (stages', dag')" "ref \<in> set refs"
  shows "if \<exists>c. sealed stages refs c \<and> emitterId c = ref_id ref
    then \<exists>c cap mode. sealed stages refs c \<and> emitterId c = ref_id ref \<and>
      ref_clone_cap ref = Some cap \<and> ref_clone_mode ref = Some mode \<and>
      find_node dag' (ref_id ref) = map_option (\<lambda>n. n\<lparr>clone_cap := Some cap, clone_mode := Some mode,
        clone_array_field := Some (arrayField c)\<rparr>) (find_node dag (ref_id ref))
    else ref_clone_cap ref = None \<and> ref_clone_mode ref = None \<and> find_node dag' (ref_id ref) = find_node dag (ref_id ref)"
proof -
  from applied [OF assms(1,2)] obtain found where f: "detectCloneChains stages refs = Inr found"
    "dag' = dag\<lparr>nodes := map (capped_node (jmap_by ref_id refs) found) (nodes dag)\<rparr>"
    "(ref_clone_cap ref \<noteq> None \<longleftrightarrow> ref_id ref \<in> set (map emitterId found)) \<and>
       (ref_clone_mode ref \<noteq> None \<longleftrightarrow> ref_id ref \<in> set (map emitterId found))" using assms(3) by metis
  note D = detected_exactly [OF assms(1) f(1)]
  have same: "node_id (capped_node R cs n) = node_id n" for R cs n
    by (simp add: capped_node_def cap_node_def split: option.split)
  have get: "find_node dag' i = map_option (capped_node (jmap_by ref_id refs) found) (find_node dag i)" for i
    unfolding f(2) find_node_def by (simp add: find_mapped same)
  show ?thesis
  proof (cases "ref_id ref \<in> set (map emitterId found)")
    case False
    then have "capped_node (jmap_by ref_id refs) found n = n" if "node_id n = ref_id ref" for n
      using find_emitter_none [of "ref_id ref" found] that by (simp add: capped_node_def)
    then have "find_node dag' (ref_id ref) = find_node dag (ref_id ref)" unfolding get
      by (cases "find_node dag (ref_id ref)") (auto simp: find_node_def dest: find_SomeD)
    moreover have "\<not> (\<exists>c. sealed stages refs c \<and> emitterId c = ref_id ref)" using False D(1) by force
    ultimately show ?thesis using False f(3) by auto
  next
    case True
    then obtain c where c: "c \<in> set found" "emitterId c = ref_id ref" by auto
    with D(2) have fc: "List.find (\<lambda>d. emitterId d = ref_id ref) found = Some c" using find_distinct_key [of emitterId found c] by simp
    from True f(3) obtain cap mode where cm: "ref_clone_cap ref = Some cap" "ref_clone_mode ref = Some mode" by auto
    have pol: "policy_of (jmap_by ref_id refs) c = (cap, mode)" using jmap_ref [OF assms(1,3)] c(2) cm by (simp add: policy_of_def)
    have "capped_node (jmap_by ref_id refs) found n =
        n\<lparr>clone_cap := Some cap, clone_mode := Some mode, clone_array_field := Some (arrayField c)\<rparr>" if "node_id n = ref_id ref" for n
      using fc pol that c(2) by (simp add: capped_node_def cap_node_def)
    then have "find_node dag' (ref_id ref) = map_option (\<lambda>n. n\<lparr>clone_cap := Some cap, clone_mode := Some mode,
        clone_array_field := Some (arrayField c)\<rparr>) (find_node dag (ref_id ref))" unfolding get
      by (cases "find_node dag (ref_id ref)") (auto simp: find_node_def dest: find_SomeD)
    then show ?thesis using c D(1) cm by auto
  qed
qed

theorem clone_policies_applied_witness:
  "map_option clone_cap (find_node applied_dag ''plan'') = Some (Some 2) \<and>
   map_option clone_array_field (find_node applied_dag ''plan'') = Some (Some ''tickets'')"
proof -
  have ref: "chain_refs ! 2 \<in> set chain_refs" "ref_id (chain_refs ! 2) = ''plan''" "ref_clone_cap (chain_refs ! 2) = Some 2"
    by code_simp+
  have emitter: "\<exists>c. sealed chain_stages chain_refs c \<and> emitterId c = ref_id (chain_refs ! 2)"
    using plan_sealed ref(2) by (auto simp: plan_chain_def)
  obtain n where n: "find_node chain_dag ''plan'' = Some n" by (cases "find_node chain_dag ''plan''") (code_simp, simp)
  have only: "arrayField c = ''tickets''" if "sealed chain_stages chain_refs c" for c
    using detected_exactly(1) [OF chain_example(1,3), of c] that by (simp add: plan_chain_def)
  from clone_policies_applied [OF chain_example(1,4) ref(1)] emitter n only show ?thesis by (auto simp: ref)
qed

text \<open>
  in a pipeline that passes, the stages between which a chain fans out are out of reach of the loops: no
  loop starts at an emitter or a clone child, and none goes back to a stage of a chain.
\<close>

theorem clone_chains_loop_free:
  assumes "distinct (map ref_id refs)" "applyCloneChains stages refs dag = Inr (stages', dag')" "sealed stages refs c"
    and "ref \<in> set refs" "loop \<in> set (toRouteLoopEntries (ref_route ref))"
  shows "ref_id ref \<notin> {emitterId c, cloneChildId c} \<and> loop_to loop \<notin> {emitterId c, cloneChildId c, joinId c}"
proof -
  from applied [OF assms(1,2)] obtain found where f: "detectCloneChains stages refs = Inr found"
    "validateCloneChainLoops refs found = None" by metis
  have c: "c \<in> set found" using detected_exactly(1) [OF assms(1) f(1)] assms(3) by blast
  then have "first_some (loop_issue found) refs = None" using f(2) by (auto simp: validateCloneChainLoops_def split: if_splits)
  then have "loop_issue found ref = None" using assms(4) by (simp add: first_some_none)
  then show ?thesis using c assms(5)
    by (auto simp: loop_issue_def Let_def first_some_none forbidden split: if_splits)
qed

theorem clone_chains_loop_free_witness: "loop_to redraft \<notin> {''plan'', ''work'', ''merge''}"
proof -
  have "chain_refs ! 1 \<in> set chain_refs" "redraft \<in> set (toRouteLoopEntries (ref_route (chain_refs ! 1)))" by code_simp+
  from clone_chains_loop_free [OF chain_example(1,4) plan_sealed this] show ?thesis by (simp add: plan_chain_def)
qed
section \<open>The cap and the fan-out\<close>

text \<open>
  The emitter declares the array where the cap is written: neither the schema nor the property of the array
  is a reference, whose other keywords are ignored.
\<close>

definition direct_array :: "string \<Rightarrow> jsval option \<Rightarrow> bool" where
  "direct_array field schema =
     (case schema of
        Some (JObj kvs) \<Rightarrow> jget kvs ''$ref'' = None \<and>
          (case jget (readProperties kvs) field of Some (JObj prop) \<Rightarrow> jget prop ''$ref'' = None | _ \<Rightarrow> True)
      | _ \<Rightarrow> True)"

definition capped_array :: "jsobj \<Rightarrow> int \<Rightarrow> jsobj" where
  "capped_array prop cap = jset (jset prop ''minItems'' (JNum (Fin 1))) ''maxItems'' (JNum (Fin (of_int cap)))"

lemma capped_counts: "item_counts (capped_array prop cap) = Inr (mn, mx) \<Longrightarrow> mn = Some 1 \<and> mx = Some cap"
  using integer_number_of_int [of 1] integer_number_of_int [of cap]
  by (auto simp: item_counts_def read_count_def capped_array_def split: if_splits)

lemma named_listed: "List.map_filter named_array props = (field, ref) # rest \<Longrightarrow> jget props field \<noteq> None"
  by (induction props) (auto simp: List.map_filter_simps named_array_def bind_eq_Some_conv split: option.splits)

lemma array_shape:
  assumes "named_arrays (inspectOutput schema) = [(field, ref)]"
  obtains kvs props v where "schema = Some (JObj kvs)" "jget kvs ''properties'' = Some (JObj props)" "jget props field = Some v"
  using assms by (cases schema rule: inspectOutput.cases)
    (auto simp: Let_def nothing_inspected_def dest: named_listed split: if_splits option.splits jsval.splits)

lemma capped_schema:
  assumes "jget kvs ''properties'' = Some (JObj props)" "jget props field = Some (JObj prop)"
  shows "applyCloneCapToSchema field cap (JObj kvs) =
    JObj (jset kvs ''properties'' (JObj (jset props field (JObj (capped_array prop cap)))))"
  using assms by (simp add: capped_array_def)

lemma uncapped_schema:
  assumes "jget kvs ''properties'' = Some (JObj props)" "jget props field = Some v" "\<nexists>prop. v = JObj prop"
  shows "applyCloneCapToSchema field cap (JObj kvs) = JObj kvs"
  using assms by (cases v) simp_all

context payload_checker
begin

lemma capped_length:
  assumes "compileNode valid_rx schemas stack (JObj (capped_array prop cap)) = Inr t" "jget prop ''$ref'' = None"
    and "check t (JArr xs)"
  shows "1 \<le> int (length xs) \<and> int (length xs) \<le> cap"
proof -
  let ?raw = "capped_array prop cap"
  have no_ref: "jget ?raw ''$ref'' = None" using assms(2) by (simp add: capped_array_def)
  from compile_base [OF assms(1)] obtain ty b where b: "t = or_null ?raw b" "base_of valid_rx schemas stack ?raw ty b"
    unfolding deref_here [OF no_ref] by auto
  from assms(3) have "check b (JArr xs)" unfolding b(1) check_or_null by simp
  then show ?thesis using b(2)
    by (auto simp: base_of_def compile_string_def compile_number_def compile_integer_def check_string check_string_enum
        check_number check_integer check_integer_enum check_boolean check_array check_object in_bounds_def
        dest!: capped_counts split: sum.splits option.splits)
qed

lemma field_checked:
  assumes "compilePayloadSchema valid_rx schemas (JObj kvs) = Inr t" "jget kvs ''$ref'' = None"
    and "jget kvs ''properties'' = Some (JObj props)" "jget props k = Some v"
    and "check t (JObj payload)" "jget payload k = Some x"
  shows "\<exists>t' st. compileNode valid_rx schemas st v = Inr t' \<and> check t' x"
proof -
  have node: "compileNode valid_rx schemas [] (JObj kvs) = Inr t" and obj: "\<exists>ts shut. t = TObject ts shut"
    using assms(1) by (auto simp: compilePayloadSchema_def split: sum.splits prod.splits if_split_asm TSchema.splits)
  from compile_base [OF node] obtain ty b where b: "t = or_null kvs b" "base_of valid_rx schemas [] kvs ty b"
    unfolding deref_here [OF assms(2)] by auto
  with obj obtain ts shut where "b = TObject ts shut" "t = TObject ts shut" by (auto simp: or_null_def split: if_splits)
  with b(2) obtain ps req where of: "object_fields kvs = Inr (ps, req, shut)" "compile_props valid_rx schemas [] req ps = Inr ts"
    by (auto simp: base_of_def compile_string_def compile_number_def compile_integer_def split: sum.splits option.splits)
  from object_fields_read [OF of(1)] assms(3) have "ps = props" by (simp add: readProperties_def)
  with compile_props_get [OF of(2)] assms(4) obtain t' where t': "jget ts k = Some (k \<notin> set req, t')"
    "compileNode valid_rx schemas [] v = Inr t'" by blast
  from assms(5) \<open>t = TObject ts shut\<close>
  have "\<forall>(k, optional, t)\<in>set ts. case jget payload k of None \<Rightarrow> optional | Some x \<Rightarrow> check t x" by (auto simp: check_object)
  with map_of_SomeD [OF t'(1)] assms(6) have "check t' x" by fastforce
  with t'(2) show ?thesis by blast
qed

lemma capped_emission:
  assumes "named_arrays (inspectOutput schema) = [(field, ref)]" "direct_array field schema"
    and "attach_schema valid_rx schemas (map_option (applyCloneCapToSchema field cap) schema) = Inr sent"
    and "assertEnvelopePayload check valid_rx schemas' envelope sent = Inr ()" "env_status envelope = EnvSuccess"
    and "Option.bind (env_payload envelope) (\<lambda>p. jget p field) = Some (JArr xs)"
  shows "int (length xs) \<le> cap"
proof -
  from array_shape [OF assms(1)] obtain kvs props v where
    sch: "schema = Some (JObj kvs)" "jget kvs ''properties'' = Some (JObj props)" "jget props field = Some v" .
  let ?sch = "applyCloneCapToSchema field cap (JObj kvs)"
  from assms(3) sch(1) obtain e where e: "sent = Some e" "expandPayloadSchemaRefs schemas ?sch = Inr e"
    by (cases "expandPayloadSchemaRefs schemas ?sch") (auto simp: attach_schema_def split: sum.splits)
  from assms(4,5,6) e(1) obtain t payload where
    t: "compilePayloadSchema valid_rx schemas' e = Inr t" "check t (JObj payload)" "jget payload field = Some (JArr xs)"
    by (auto simp: assertEnvelopePayload_def assert_success_payload_def split: sum.splits option.splits if_splits)
  note compiled = t(1) [unfolded expansion_compiles [OF e(2)]]
  have no_ref: "jget kvs ''$ref'' = None" using assms(2) sch(1) by (simp add: direct_array_def)
  show ?thesis
  proof (cases "\<exists>prop. v = JObj prop")
    case True
    then obtain arr where arr: "v = JObj arr" by blast
    then have direct: "jget arr ''$ref'' = None" using assms(2) sch by (simp add: direct_array_def readProperties_def)
    note capped = compiled [unfolded capped_schema [OF sch(2) sch(3) [unfolded arr]]]
    from field_checked [OF capped _ _ _ t(2,3), of "jset props field (JObj (capped_array arr cap))"] no_ref obtain t' st
      where "compileNode valid_rx schemas st (JObj (capped_array arr cap)) = Inr t'" "check t' (JArr xs)" by auto
    from capped_length [OF this(1) direct this(2)] show ?thesis by simp
  next
    case False
    note same = compiled [unfolded uncapped_schema [OF sch(2,3) False]]
    from field_checked [OF same no_ref sch(2,3) t(2,3)] obtain t' st where "compileNode valid_rx schemas st v = Inr t'" by blast
    from compile_base [OF this] False show ?thesis by (cases v) (auto simp: derefSchemaNode.simps)
  qed
qed

end

text \<open>
  The cap next to a reference is lost: the compiler follows the reference and reads no other keyword, so the
  emitter may send any number of elements.
\<close>

lemma cap_beside_reference:
  assumes "jget prop ''$ref'' = Some ref"
  shows "compileNode valid_rx schemas stack (JObj (capped_array prop cap)) = compileNode valid_rx schemas stack (JObj prop)"
proof -
  have "jget (capped_array prop cap) ''$ref'' = Some ref" using assms by (simp add: capped_array_def)
  then have "derefSchemaNode schemas stack (JObj (capped_array prop cap)) = derefSchemaNode schemas stack (JObj prop)"
    using assms by (simp add: derefSchemaNode.simps(1))
  then show ?thesis by (simp add: compileNode.simps)
qed

text \<open>
  C13: the cap of a clone chain bounds its fan-out: when the envelope of an emitter passes the check of its
  output, the clones minted for it are at least one and at most \<open>clone_cap\<close>, in a pipeline that passes and
  whose emitter declares the array in place, for every checker with the laws of JSON Schema.
\<close>

theorem clone_cap_bounds_fan_out:
  assumes "payload_checker rx len check" "distinct (map ref_id refs)" "distinct (map io_id stages)"
    and "applyCloneChains stages refs dag = Inr (stages', dag')" "sealed stages refs c"
    and "ref \<in> set refs" "ref_id ref = emitterId c" "ref_clone_cap ref = Some cap"
    and "stage \<in> set stages" "io_id stage = emitterId c" "direct_array (arrayField c) (io_output stage)"
    and "stage' \<in> set stages'" "io_id stage' = emitterId c" "attach_schema valid_rx schemas (io_output stage') = Inr sent"
    and "assertEnvelopePayload check valid_rx schemas' envelope sent = Inr ()" "env_status envelope = EnvSuccess"
    and "Option.bind (find_node run_dag (emitterId c)) clone_array_field = Some (arrayField c)"
    and "mint run_dag (emitterId c) envelope = Inr (Minted grown child instances)"
  shows "1 \<le> length instances \<and> int (length instances) \<le> cap"
proof -
  from applied [OF assms(2,4)] obtain found where f: "detectCloneChains stages refs = Inr found"
    "stages' = map (capped_stage (jmap_by ref_id refs) found) stages" by metis
  note D = detected_exactly [OF assms(2) f(1)]
  have c: "c \<in> set found" using D(1) assms(5) by blast
  then have fc: "List.find (\<lambda>d. emitterId d = emitterId c) found = Some c"
    using find_distinct_key [of emitterId found c] D(2) by simp
  have pol: "fst (policy_of (jmap_by ref_id refs) c) = cap"
    using jmap_ref [OF assms(2,6)] assms(7,8) by (simp add: policy_of_def)
  from assms(12) f(2) obtain s where s: "s \<in> set stages" "stage' = capped_stage (jmap_by ref_id refs) found s" by auto
  have "io_id (capped_stage R cs s) = io_id s" for R cs by (simp add: capped_stage_def cap_stage_def split: option.split)
  with s assms(13) have "io_id s = io_id stage" using assms(10) by simp
  then have "s = stage" using s(1) assms(3,9) by (metis jmap_ref option.inject)
  with s(2) have sent: "io_output stage' = map_option (applyCloneCapToSchema (arrayField c) cap) (io_output stage)"
    using fc pol assms(10) by (simp add: capped_stage_def cap_stage_def)
  have named: "named_arrays (inspectOutput (io_output stage)) = [(arrayField c, array_ref c)]"
    using assms(5) jmap_ref [OF assms(3,9)] assms(10) unfolding sealed_def by auto
  from mint_accepted [OF assms(18)] obtain x xs where m: "Option.bind (env_payload envelope) (\<lambda>p. jget p (arrayField c)) = Some (JArr (x # xs))"
    "appendCloneInstances (asDagSnapshot run_dag) child (emitterId c) (length (x # xs))
       (nextFreeCloneSuffix (asDagSnapshot run_dag) child) = Inr (grown, instances)"
    using assms(17) by (metis option.inject)
  have "length instances = length (x # xs)" using append_accepted [OF m(2)] minted_ids(3) by metis
  with payload_checker.capped_emission [OF assms(1) named assms(11,14) [unfolded sent] assms(15,16) m(1)]
  show ?thesis by simp
qed

definition tickets :: "string list \<Rightarrow> StageEnvelope" where
  "tickets ids = success_envelope [(''tickets'', JArr (map (\<lambda>i. JObj [(''id'', JStr i)]) ids))]"

definition sent_tickets :: "jsval option" where
  "sent_tickets = projr (attach_schema (\<lambda>_. True) ticket_schemas (io_output (applied_stages ! 2)))"

theorem clone_cap_bounds_fan_out_witness:
  "(case mint applied_dag ''plan'' (tickets [''a'', ''b'']) of
      Inr (Minted grown child instances) \<Rightarrow> 1 \<le> length instances \<and> int (length instances) \<le> 2 | _ \<Rightarrow> False) \<and>
   assertEnvelopePayload plain_check (\<lambda>_. True) [] (tickets [''a'', ''b'', ''c'']) sent_tickets = Inl PayloadMismatch"
proof
  have law: "payload_checker (\<lambda>_ _. True) length plain_check" by (rule conforming.payload_checker_axioms)
  have ref: "chain_refs ! 2 \<in> set chain_refs" "ref_id (chain_refs ! 2) = emitterId plan_chain"
    "ref_clone_cap (chain_refs ! 2) = Some 2" by code_simp+
  have stage: "chain_stages ! 2 \<in> set chain_stages" "io_id (chain_stages ! 2) = emitterId plan_chain"
    "direct_array (arrayField plan_chain) (io_output (chain_stages ! 2))"
    "applied_stages ! 2 \<in> set applied_stages" "io_id (applied_stages ! 2) = emitterId plan_chain"
    "attach_schema (\<lambda>_. True) ticket_schemas (io_output (applied_stages ! 2)) = Inr sent_tickets" by code_simp+
  have sent: "assertEnvelopePayload plain_check (\<lambda>_. True) [] (tickets [''a'', ''b'']) sent_tickets = Inr ()"
    "env_status (tickets [''a'', ''b'']) = EnvSuccess" by code_simp+
  have field: "Option.bind (find_node applied_dag (emitterId plan_chain)) clone_array_field = Some (arrayField plan_chain)"
    by code_simp
  have "(case mint applied_dag ''plan'' (tickets [''a'', ''b'']) of Inr (Minted _ _ _) \<Rightarrow> True | _ \<Rightarrow> False)" by code_simp
  then obtain grown child instances where m: "mint applied_dag ''plan'' (tickets [''a'', ''b'']) = Inr (Minted grown child instances)"
    by (auto split: sum.splits MintResult.splits)
  then have "mint applied_dag (emitterId plan_chain) (tickets [''a'', ''b'']) = Inr (Minted grown child instances)"
    by (simp add: plan_chain_def)
  from clone_cap_bounds_fan_out [OF law chain_example(1,2,4) plan_sealed ref stage sent field this] m
  show "case mint applied_dag ''plan'' (tickets [''a'', ''b'']) of
      Inr (Minted grown child instances) \<Rightarrow> 1 \<le> length instances \<and> int (length instances) \<le> 2 | _ \<Rightarrow> False" by simp
  show "assertEnvelopePayload plain_check (\<lambda>_. True) [] (tickets [''a'', ''b'', ''c'']) sent_tickets = Inl PayloadMismatch"
    by code_simp
qed

end
