(* ===== verification/Spec2Isabelle.thy ===== *)
theory Spec2Isabelle
  imports Dag_Accept Status_Outcome Feedback_Decision Replay_Schedule Scheduler_Results
    Payload_Path Admission_Waiting Clone_Chain_Correct
begin

text \<open>
  Verification development for the DAG runtime of stageflow, a runner of pipelines whose stages are
  agent sessions.  A pipeline is loaded from YAML and resolved into a directed acyclic graph of
  stages (\<open>src/src/config\<close>); a run persists that graph, the attempts of its stages, their events and
  their result envelopes in a store (\<open>src/src/runstore\<close>); the scheduler (\<open>src/src/runtime\<close>) keeps a
  state per stage, starts the stages whose predecessors allow it, and reacts to every result by
  skipping, failing, retrying, fanning out clones, or sending work back along a feedback loop.  A
  host runs several runs at once: it admits them to its slots, or has them wait in a queue.  The
  development models that core.

  \<^bold>\<open>Theories and code\<close>

  \<^item> Prelude, Json, Js_Number: maps in insertion order (a JS \<open>Map\<close> or \<open>Set\<close>), JSON values, the
    decimal reading and writing of numbers in ids.
  \<^item> Pipeline_Types (\<open>types/pipeline.ts\<close>, \<open>types/envelope.ts\<close>, \<open>types/completion.ts\<close>): the records and unions.
  \<^item> Route_If (\<open>config/routeIf.ts\<close>, \<open>runtime/routeIfEval.ts\<close>): parser and evaluator of the
    conditions of routes.
  \<^item> Pipeline_Route (\<open>config/pipelineRoute.ts\<close>, \<open>config/pipelineNeeds.ts\<close>): parsers of \<open>route\<close> and \<open>needs\<close>
    and the inversion of one into the other.
  \<^item> Kahn, Dag_Resolve (\<open>config/resolvePipelineDag.ts\<close>): the resolver with its validations;
    Dag_Correct, Dag_Ancestors and Dag_Accept prove it.
  \<^item> Dag_Snapshot (\<open>runstore/pipelineDagSnapshot.ts\<close>, \<open>runstore/stageInstanceId.ts\<close>): the persisted
    graph and the fan-out of clone instances.
  \<^item> Traversal (\<open>runtime/dagTraversal.ts\<close> and the retry closure of \<open>runtime/cloneSchedule.ts\<close>).
  \<^item> Join_Readiness (\<open>runtime/joinReadiness.ts\<close>): when a stage may run and when it never will.
  \<^item> Clone_Schedule (\<open>runtime/cloneSchedule.ts\<close>): the rules for clone instances.
  \<^item> Run_Status (\<open>runstore/port.ts\<close>, \<open>runstore/runStatusClock.ts\<close>), Run_Store and Feedback_Store
    (\<open>runstore/sqlite/SqliteRunStore.ts\<close>, \<open>runstore/stageSnapshot.ts\<close>, \<open>runstore/runProjection.ts\<close>): the
    tables of one run as lists of records and the store's operations on them.
  \<^item> Fork_Generation (\<open>runtime/forkGeneration.ts\<close>): which cohort of clones is active.
  \<^item> Schedule_Ops (\<open>runtime/pipelineScheduler.ts\<close>, \<open>runtime/reopenSkipped.ts\<close>,
    \<open>runtime/envelopeRouting.ts\<close>): the operations of the scheduler on its state; Schedule_Correct and
    Status_Agreement prove them, and Status_Outcome compares what the scheduler decides (\<open>conclude\<close>) with
    the status the store derives.
  \<^item> Feedback_Loop (\<open>runtime/feedbackLoopRoute.ts\<close>, \<open>runtime/feedbackLoopCoordinator.ts\<close>) and
    Replay_Lifecycle (\<open>runtime/feedbackLoopSchedule.ts\<close>, \<open>runtime/replayLifecycle.ts\<close>,
    \<open>runtime/feedbackLoopDecision.ts\<close>): a stage that sends its work back, the replay of its route, and
    the decisions of an operator on a loop out of replays.  Feedback_Ledger states what a loop
    promises, as an abstract machine; Store_Logic holds the triples in which Feedback_Correct and
    Feedback_Decision prove that the store implements it; Replay_Schedule proves what a replay does
    to the schedule.
  \<^item> Scheduler and Scheduler_Run (\<open>runPipelineDag\<close>, \<open>resumeRun\<close> and \<open>retryRun\<close> of
    \<open>runtime/pipelineScheduler.ts\<close>): the closures of a run as steps over the record of its local
    variables, and the run as a transition system: a \<open>move\<close> is a round of the loop, a stage in
    flight going on (launched, waiting for a browser profile, finished with some outcome, decided
    by an operator), the return, or a request from outside.  Scheduler_Logic and the locale
    \<open>handler_invariant\<close> of Scheduler_Handlers prove once what every handler keeps; it is interpreted
    in Scheduler_Slots (what handlers leave alone), Scheduler_Ends (what they do to the states) and
    Scheduler_Results (how they count attempts).
  \<^item> Payload_Schema, Payload_Subset, Payload_Expand (\<open>envelope/payloadSchema.ts\<close>): the compiler of the
    JSON Schema subset for the payloads of envelopes, when one schema fits another, the expansion
    of references.  Payload_Edges (\<open>config/loadPipeline.ts\<close>): the assertions on payloads and the
    input/output check of a loaded pipeline.  Payload_Path (\<open>config/routeIf.ts\<close>): the path of a field
    through a schema, the lint of the conditions of routes.
  \<^item> Clone_Chain (\<open>config/cloneChain.ts\<close>): the clone chains of a pipeline (an emitter, its clone child and
    their join), found in its wiring and schemas, their checks, and the cap written into the emitter's schema;
    Clone_Chain_Correct proves it, against a specification of the sealed paths.
  \<^item> Admission_Queue and Run_Admission (\<open>AdmissionQueue\<close> and \<open>RunManager\<close> of \<open>runtime/runManager.ts\<close>): the
    queue of the runs that wait, and the host as a transition system: its slots, the leases of checkouts, the
    limits per caller and project, the drain of the queue, cancelling and resuming.  The locale
    \<open>slot_laws\<close> of Admission_Slots proves once what every event keeps of the slots; it is interpreted there
    (checkouts) and in Admission_Limits (limits).  Admission_Waiting says where the queued runs are.

  \<^bold>\<open>What the theorems show\<close>

  \<^item> Resolver: a pipeline is rejected for a cycle exactly when its routes are cyclic; an accepted
    one is in topological order with the authored edges, its ancestors are the transitive
    predecessors, its loops replay only replay-safe stages, and every stage is reachable.
  \<^item> Routes and needs: what the parsers accept is well formed; inversion and persistence are round
    trips, with \<open>null\<close> for the infinities and \<open>NaN\<close> that JSON cannot hold; a condition evaluates strictly.
  \<^item> Graph of a run: traversals return exactly the reachable stages; a fan-out keeps the snapshot
    well formed, orders its cohort, and each instance is assigned its element.
  \<^item> Store: attempts are counted, the run clock is kept, cohorts are superseded exactly, and an
    event written without an attempt number is lost on a later attempt.
  \<^item> Schedule: what is picked to run, what is skipped by a fork, a rejected need or a stalled join,
    and what a retry resets, each characterised exactly; the outcome decided from the schedule
    agrees with the status read from the store.

  \<^item> Feedback loops: send-backs and decisions refine the ledger, so that over any sequence of them at
    most one loop is open and no loop exceeds its budget of replays; a send-back resets exactly its
    route, retires exactly the superseded clones, and holds back what lies behind the source.
  \<^item> Runs: a run of stages that run at most once ends after at most \<open>6 n + 2\<close> productive moves and
    never gets stuck before; the stages in flight stay within the cap, except for browser stages; a
    stage gets no more attempts than its policy allows; a failure skips exactly what it rejects;
    and the result of a run agrees with its states and with the stored status.

  \<^item> Payloads: an envelope a stage may emit is accepted by its successor when the loaded pipeline
    passed the check, and the conditions of its routes can be evaluated, each with the exceptions
    the code forgets (\<open>covered\<close>, \<open>plain_path\<close>); the expansion of a schema means what the schema means.

  \<^item> Clone chains: exactly the sealed paths are found, the policies sit on their emitters, no loop crosses a
    chain, and an envelope that passes the check of the emitter's output mints at most \<open>clone_cap\<close> clones.

  \<^item> Admission: no two active runs share a checkout, the limits hold as long as no run is attached or resumed,
    and a queued run is in exactly one place, unless one of the errors that \<open>lost_by\<close> lists has lost it; the queue
    is fair while no further project joins and nothing blocks the project and the caller of the run.  It is
    not fair otherwise, and a queued run is left behind by a host that does nothing when it joins.

  \<^bold>\<open>Modelling decisions\<close>

  \<^item> The store is a record of tables passed through actions \<open>run_store \<Rightarrow> (store_error + 'a) \<times> run_store\<close>;
    a row that is missing or a unique key that clashes is an error value.  Rows are kept in
    insertion order, and \<open>ORDER BY\<close> is a stable sort.  The clock and the supply of UUIDs are part of
    the store; that UUIDs are fresh is the hypothesis \<open>inj uuid\<close>.
  \<^item> A JS \<open>Map\<close> is an association list that keeps the place of a key on update, because the scheduler
    iterates over its maps.
  \<^item> A handler of the scheduler or of an operator's decision runs without interruption by another:
    the await points inside one are not interleaved.  A handler that throws crashes the run at once; in the
    code a rejection that lands while the loop does not wait for it is dropped.  The decisions still check the state they
    expect when they write, as the code does.  Moves of different stages are interleaved freely.
  \<^item> What a stage answers is data (\<open>outcome\<close>), chosen freely by the transition system; so are the
    lease of a browser profile, the operator's decision, and the requests to halt or retry.
  \<^item> The host is interleaved at the points where its operations wait: an admission, the creation of a run, its
    entry into the queue, and every step of a dequeued start are events of their own.  What lies outside is an
    answer of the event (whether a start succeeds, the key of a checkout); cancelling a run is one event, and so
    is the return of the queued runs to the queue when the process starts, after the runs that are attached and
    resumed.
  \<^item> Stage ids are strings, payloads are JSON values, numbers in payloads are a parameter type where
    the code only compares them.
  \<^item> \<open>Value.Check\<close> of typebox is a parameter with the meaning of the JSON Schema keywords as its laws
    (\<open>payload_checker\<close>, interpreted by \<open>conforms\<close>); so are which strings are regular expressions and
    what they match.  A chain of references ends because the names not yet visited decrease.
  \<^item> Loops over a worklist are recursive functions with a termination proof, over the graph's
    finite set of ids; the ancestor recursion is bounded by the number of stages, and
    \<open>resolve_ancestors_terminate\<close> shows that the bound is never reached.

  \<^bold>\<open>Not modelled\<close>

  Agent sessions, child processes, containers, the file system, git, HTTP, MCP, YAML reading, the
  SQL layer, and the user interfaces: they are I/O around this core or calls of packages that are
  not part of the repository.
\<close>

end
